(* ===== verification/Prelude.thy ===== *)
theory Prelude
  imports Main "HOL-Library.Word" "HOL-Library.List_Lexorder" "HOL-Library.Char_ord"
    "HOL-Library.Sublist"
begin

text \<open>
  Shared vocabulary of the development: Rust's \<open>Result\<close> as a sum, the byte predicates
  and string operations of the standard library that the validators call, checked machine
  arithmetic, and \<open>BTreeMap\<close>/\<open>BTreeSet\<close> as ordered lists.  Strings are lists of bytes
  (\<^typ>\<open>char\<close>), so \<^term>\<open>length\<close> is Rust's \<open>str::len\<close> and the lexicographic order of
  \<open>List_Lexorder\<close> over \<open>Char_ord\<close> is Rust's bytewise \<open>Ord\<close> on \<open>str\<close>.
\<close>

named_theorems res_simps "case analysis of results"
named_theorems guard_simps "validators unfolded into their guards"

subsection \<open>Results\<close>

type_synonym ('a, 'e) result = "'e + 'a"

abbreviation Ok :: "'a \<Rightarrow> ('a, 'e) result" where "Ok \<equiv> Inr"
abbreviation Err :: "'e \<Rightarrow> ('a, 'e) result" where "Err \<equiv> Inl"

fun and_then :: "('a, 'e) result \<Rightarrow> ('a \<Rightarrow> ('b, 'e) result) \<Rightarrow> ('b, 'e) result" where
  "and_then (Inl e) f = Inl e"
| "and_then (Inr x) f = f x"

fun map_err :: "('e \<Rightarrow> 'f) \<Rightarrow> ('a, 'e) result \<Rightarrow> ('a, 'f) result" where
  "map_err g (Inl e) = Inl (g e)"
| "map_err g (Inr x) = Inr x"

fun ok_or :: "'a option \<Rightarrow> 'e \<Rightarrow> ('a, 'e) result" where
  "ok_or None e = Inl e"
| "ok_or (Some x) e = Inr x"

definition ensure :: "bool \<Rightarrow> 'e \<Rightarrow> (unit, 'e) result" where
  "ensure c e = (if c then Inr () else Inl e)"

fun is_ok :: "('a, 'e) result \<Rightarrow> bool" where
  "is_ok (Inl e) = False"
| "is_ok (Inr x) = True"

fun try_map :: "('a \<Rightarrow> ('b, 'e) result) \<Rightarrow> 'a list \<Rightarrow> ('b list, 'e) result" where
  "try_map f [] = Inr []"
| "try_map f (x # xs) =
     and_then (f x) (\<lambda>y. and_then (try_map f xs) (\<lambda>ys. Inr (y # ys)))"

lemma and_then_Ok [res_simps]: "and_then m f = Inr y \<longleftrightarrow> (\<exists>x. m = Inr x \<and> f x = Inr y)"
  by (cases m) auto

lemma and_then_Err [res_simps]:
  "and_then m f = Inl e \<longleftrightarrow> m = Inl e \<or> (\<exists>x. m = Inr x \<and> f x = Inl e)"
  by (cases m) auto

lemma map_err_Ok [res_simps]: "map_err g m = Inr x \<longleftrightarrow> m = Inr x"
  by (cases m) auto

lemma map_err_Err [res_simps]: "map_err g m = Inl f \<longleftrightarrow> (\<exists>e. m = Inl e \<and> f = g e)"
  by (cases m) auto

lemma ok_or_Ok [res_simps]: "ok_or m e = Inr x \<longleftrightarrow> m = Some x"
  by (cases m) auto

lemma ok_or_Err [res_simps]: "ok_or m e = Inl f \<longleftrightarrow> m = None \<and> f = e"
  by (cases m) auto

lemma ensure_Ok [res_simps]: "ensure c e = Inr u \<longleftrightarrow> c"
  by (simp add: ensure_def)

lemma ensure_Err [res_simps]: "ensure c e = Inl f \<longleftrightarrow> \<not> c \<and> f = e"
  by (auto simp: ensure_def)

lemma is_ok_iff: "is_ok m \<longleftrightarrow> (\<exists>x. m = Inr x)"
  by (cases m) auto

lemma and_then_cong [fundef_cong]:
  "m = m' \<Longrightarrow> (\<And>x. m' = Inr x \<Longrightarrow> f x = g x) \<Longrightarrow> and_then m f = and_then m' g"
  by (cases m') auto

lemma try_map_cong [fundef_cong]:
  "xs = ys \<Longrightarrow> (\<And>x. x \<in> set ys \<Longrightarrow> f x = g x) \<Longrightarrow> try_map f xs = try_map g ys"
  by (induction ys arbitrary: xs) auto

lemma try_map_Ok_iff:
  "try_map f xs = Inr ys \<longleftrightarrow> list_all2 (\<lambda>x y. f x = Inr y) xs ys"
proof (induction xs arbitrary: ys)
  case Nil
  then show ?case by auto
next
  case (Cons x xs)
  then show ?case by (cases ys) (auto simp: res_simps)
qed

lemma try_map_total: "\<forall>x \<in> set xs. f x = Inr (g x) \<Longrightarrow> try_map f xs = Inr (map g xs)"
  by (induction xs) auto

subsection \<open>Bytes\<close>

definition byte_of :: "char \<Rightarrow> nat" where
  "byte_of c = of_char c"

definition is_ascii_digit :: "char \<Rightarrow> bool" where
  "is_ascii_digit c = (48 \<le> byte_of c \<and> byte_of c \<le> 57)"

definition is_ascii_lowercase :: "char \<Rightarrow> bool" where
  "is_ascii_lowercase c = (97 \<le> byte_of c \<and> byte_of c \<le> 122)"

definition is_ascii_uppercase :: "char \<Rightarrow> bool" where
  "is_ascii_uppercase c = (65 \<le> byte_of c \<and> byte_of c \<le> 90)"

definition is_ascii_alphanumeric :: "char \<Rightarrow> bool" where
  "is_ascii_alphanumeric c = (is_ascii_digit c \<or> is_ascii_lowercase c \<or> is_ascii_uppercase c)"

definition is_ascii_graphic :: "char \<Rightarrow> bool" where
  "is_ascii_graphic c = (33 \<le> byte_of c \<and> byte_of c \<le> 126)"

definition is_lower_hex :: "char \<Rightarrow> bool" where
  "is_lower_hex c = (is_ascii_digit c \<or> (97 \<le> byte_of c \<and> byte_of c \<le> 102))"

lemmas byte_defs = byte_of_def is_ascii_digit_def is_ascii_lowercase_def is_ascii_uppercase_def
  is_ascii_alphanumeric_def is_ascii_graphic_def is_lower_hex_def

text \<open>For evaluation, by comparing bytes.\<close>

lemma is_lower_hex_code [code]: "is_lower_hex c \<longleftrightarrow> c \<in> set ''0123456789abcdef''"
proof
  assume "c \<in> set ''0123456789abcdef''"
  then show "is_lower_hex c" by (auto simp: byte_defs)
next
  assume "is_lower_hex c"
  then have "(of_char c :: nat) \<in> {48..57} \<union> {97..102}" by (auto simp: byte_defs)
  then have "(of_char c :: nat) \<in> of_char ` set ''0123456789abcdef''"
    by (auto simp: atLeastAtMost_upt upt_rec)
  then show "c \<in> set ''0123456789abcdef''"
    by (simp only: inj_image_mem_iff [OF inj_of_char])
qed

subsection \<open>Strings\<close>

abbreviation starts_with :: "string \<Rightarrow> string \<Rightarrow> bool" where
  "starts_with s p \<equiv> prefix p s"

abbreviation ends_with :: "string \<Rightarrow> string \<Rightarrow> bool" where
  "ends_with s p \<equiv> suffix p s"

fun split_on :: "char \<Rightarrow> string \<Rightarrow> string list" where
  "split_on c [] = [[]]"
| "split_on c (x # xs) =
     (if x = c then [] # split_on c xs
      else (case split_on c xs of [] \<Rightarrow> [[x]] | w # ws \<Rightarrow> (x # w) # ws))"

fun find_byte :: "char \<Rightarrow> string \<Rightarrow> nat option" where
  "find_byte c [] = None"
| "find_byte c (x # xs) = (if x = c then Some 0 else map_option Suc (find_byte c xs))"

fun split_once :: "char \<Rightarrow> string \<Rightarrow> (string \<times> string) option" where
  "split_once c [] = None"
| "split_once c (x # xs) =
     (if x = c then Some ([], xs)
      else map_option (\<lambda>(a, b). (x # a, b)) (split_once c xs))"

lemma split_on_not_Nil [simp]: "split_on c s \<noteq> []"
  by (induction s) (auto split: list.splits)

lemma split_once_Some:
  "split_once c s = Some (a, b) \<longleftrightarrow> s = a @ c # b \<and> c \<notin> set a"
proof (induction s arbitrary: a)
  case Nil
  then show ?case by simp
next
  case (Cons x s)
  then show ?case by (cases a) auto
qed

lemma split_once_None: "split_once c s = None \<longleftrightarrow> c \<notin> set s"
  by (induction s) auto

subsection \<open>Checked machine arithmetic\<close>

type_synonym u8 = "8 word"
type_synonym u16 = "16 word"
type_synonym u32 = "32 word"
type_synonym u64 = "64 word"

definition checked_add :: "'a::len word \<Rightarrow> 'a word \<Rightarrow> 'a word option" where
  "checked_add a b = (if unat a + unat b < 2 ^ LENGTH('a) then Some (a + b) else None)"

text \<open>The same test on words, for evaluation.\<close>

lemma checked_add_code [code]:
  "checked_add a b = (let c = a + b in if a \<le> c then Some c else None)"
  for a b :: "'a::len word"
proof -
  have "int (unat a + unat b) < int (2 ^ LENGTH('a)) \<longleftrightarrow> a \<le> a + b"
    by (simp add: no_olen_add [of a b])
  then have "unat a + unat b < 2 ^ LENGTH('a) \<longleftrightarrow> a \<le> a + b" by (simp only: of_nat_less_iff)
  then show ?thesis by (simp add: checked_add_def Let_def)
qed

text \<open>\<open>u32::try_from(n: usize)\<close> and its siblings.\<close>

definition word_try_from :: "nat \<Rightarrow> 'a::len word option" where
  "word_try_from n = (let w = word_of_nat n in if unat w = n then Some w else None)"

lemma word_try_from_Some:
  "word_try_from n = Some (w :: 'a::len word) \<longleftrightarrow> n < 2 ^ LENGTH('a) \<and> w = word_of_nat n"
proof -
  have "unat (word_of_nat n :: 'a word) = n \<longleftrightarrow> n < 2 ^ LENGTH('a)"
    by (simp add: unsigned_of_nat take_bit_nat_eq_self_iff)
  then show ?thesis by (auto simp: word_try_from_def Let_def)
qed

lemma checked_add_Some_unat:
  "checked_add a b = Some (c :: 'a::len word) \<Longrightarrow> unat c = unat a + unat b"
  by (auto simp: checked_add_def unat_word_ariths split: if_splits)

lemma checked_add_one_less:
  assumes "checked_add a (1 :: 'a::len word) = Some b"
  shows "a < b"
proof -
  have "unat b = unat a + 1" using checked_add_Some_unat [OF assms] by simp
  then show ?thesis by (simp add: word_less_nat_alt)
qed

lemma checked_add_one_None: "checked_add a (1 :: 'a::len word) = None \<longleftrightarrow> a = - 1"
proof -
  have "unat a < 2 ^ LENGTH('a)" by simp
  then have "\<not> unat a + 1 < 2 ^ LENGTH('a) \<longleftrightarrow> unat a = 2 ^ LENGTH('a) - 1"
    by arith
  moreover have "unat (- 1 :: 'a word) = 2 ^ LENGTH('a) - 1"
    by (simp add: unsigned_minus_1_eq_mask mask_eq_exp_minus_1)
  ultimately show ?thesis
    unfolding checked_add_def word_unat_eq_iff by auto
qed

definition saturating_mul :: "'a::len word \<Rightarrow> 'a word \<Rightarrow> 'a word" where
  "saturating_mul a b = (if unat a * unat b < 2 ^ LENGTH('a) then a * b else - 1)"

lemma saturating_mul_code [code]:
  "saturating_mul a b = (if uint a * uint b < 2 ^ LENGTH('a) then a * b else - 1)"
  for a b :: "'a::len word"
proof -
  have "int (unat a * unat b) < int (2 ^ LENGTH('a)) \<longleftrightarrow> unat a * unat b < 2 ^ LENGTH('a)"
    by (rule of_nat_less_iff)
  then have "uint a * uint b < 2 ^ LENGTH('a) \<longleftrightarrow> unat a * unat b < 2 ^ LENGTH('a)"
    by (simp only: of_nat_mult of_nat_power of_nat_numeral uint_nat [symmetric])
  then show ?thesis by (simp only: saturating_mul_def)
qed

definition checked_div :: "'a::len word \<Rightarrow> 'a word \<Rightarrow> 'a word option" where
  "checked_div a b = (if b = 0 then None else Some (a div b))"

subsection \<open>Ordered collections\<close>

text \<open>
  \<open>BTreeMap<K, V>\<close> is an association list in strictly ascending key order.  The lookup law
  of \<^term>\<open>bt_insert\<close> needs no order; the order matters for iteration.
\<close>

type_synonym ('k, 'v) btree_map = "('k \<times> 'v) list"

definition bt_ordered :: "('k::linorder, 'v) btree_map \<Rightarrow> bool" where
  "bt_ordered m = sorted_wrt (<) (map fst m)"

fun bt_insert :: "'k::linorder \<Rightarrow> 'v \<Rightarrow> ('k, 'v) btree_map \<Rightarrow> ('k, 'v) btree_map" where
  "bt_insert k v [] = [(k, v)]"
| "bt_insert k v ((a, b) # m) =
     (if k < a then (k, v) # (a, b) # m
      else if k = a then (k, v) # m
      else (a, b) # bt_insert k v m)"

definition bt_values :: "('k, 'v) btree_map \<Rightarrow> 'v list" where
  "bt_values m = map snd m"

definition bt_map_values :: "('k \<Rightarrow> 'v \<Rightarrow> 'w) \<Rightarrow> ('k, 'v) btree_map \<Rightarrow> ('k, 'w) btree_map" where
  "bt_map_values f m = map (\<lambda>(k, v). (k, f k v)) m"

lemma map_of_bt_insert [simp]: "map_of (bt_insert k v m) = (map_of m)(k \<mapsto> v)"
  by (induction k v m rule: bt_insert.induct) (auto simp: fun_upd_twist)

lemma set_keys_bt_insert [simp]: "fst ` set (bt_insert k v m) = insert k (fst ` set m)"
  by (induction k v m rule: bt_insert.induct) auto

lemma bt_ordered_Nil [simp]: "bt_ordered []"
  by (simp add: bt_ordered_def)

lemma bt_ordered_insert [simp]: "bt_ordered m \<Longrightarrow> bt_ordered (bt_insert k v m)"
proof (induction k v m rule: bt_insert.induct)
  case (2 k v a b m)
  then have tl: "bt_ordered m" and hd: "\<forall>x \<in> fst ` set m. a < x"
    by (auto simp: bt_ordered_def)
  show ?case
  proof (cases "a < k")
    case True
    then have "bt_ordered (bt_insert k v m)" using 2 tl by auto
    moreover have "\<forall>x \<in> fst ` set (bt_insert k v m). a < x" using True hd by simp
    ultimately show ?thesis using True by (auto simp: bt_ordered_def)
  next
    case False
    then show ?thesis using 2(2) hd tl by (auto simp: bt_ordered_def)
  qed
qed (simp add: bt_ordered_def)

lemma bt_ordered_distinct: "bt_ordered m \<Longrightarrow> distinct (map fst m)"
  by (auto simp: bt_ordered_def strict_sorted_iff)

lemma map_fst_bt_map_values [simp]: "map fst (bt_map_values f m) = map fst m"
  by (induction m) (auto simp: bt_map_values_def)

lemma map_of_bt_map_values [simp]:
  "map_of (bt_map_values f m) k = map_option (f k) (map_of m k)"
  by (induction m) (auto simp: bt_map_values_def)

lemma bt_ordered_map_values [simp]: "bt_ordered (bt_map_values f m) = bt_ordered m"
  by (simp add: bt_ordered_def)

text \<open>\<open>BTreeSet<T>\<close>: collecting a list sorts it and drops duplicates.\<close>

definition btree_collect :: "'a::linorder list \<Rightarrow> 'a list" where
  "btree_collect xs = sort (remdups xs)"

lemma set_btree_collect [simp]: "set (btree_collect xs) = set xs"
  by (simp add: btree_collect_def)

lemma btree_collect_strict: "sorted_wrt (<) (btree_collect xs)"
  by (simp add: btree_collect_def strict_sorted_iff)

lemma btree_collect_id: "sorted_wrt (<) xs \<Longrightarrow> btree_collect xs = xs"
  by (simp add: btree_collect_def strict_sorted_iff distinct_remdups_id sorted_sort_id)

lemma btree_collect_set_eq: "set xs = set ys \<Longrightarrow> btree_collect xs = btree_collect ys"
  by (metis btree_collect_strict set_btree_collect strict_sorted_equal)

end
