(* ===== verification/Authority_Ids.thy ===== *)
theory Authority_Ids
  imports Prelude
begin

text \<open>
  \<open>phantom-authority/src/ids.rs\<close> and \<open>verbs.rs\<close>: the opaque identifiers of the authority
  contract, the digest newtype, and the closed set of operations with the effect class each
  one derives.  A newtype over \<open>String\<close> is a one-constructor datatype whose selector is
  \<open>as_str\<close>; the private constructor of the source is the validity predicate
  \<open>valid_prefixed_hex\<close> that \<open>from_str\<close> establishes.
\<close>

definition ID_HEX_LEN :: nat where
  "ID_HEX_LEN = 32"

record id_parse_error =
  ipe_kind :: string
  ipe_prefix :: string
  ipe_hex_len :: nat

definition valid_prefixed_hex :: "string \<Rightarrow> string \<Rightarrow> nat \<Rightarrow> bool" where
  "valid_prefixed_hex value pre hex_len =
     (length value = length pre + hex_len
      \<and> starts_with value pre
      \<and> list_all is_lower_hex (drop (length pre) value))"

definition opaque_from_str ::
  "(string \<Rightarrow> 'i) \<Rightarrow> string \<Rightarrow> string \<Rightarrow> nat \<Rightarrow> string \<Rightarrow> ('i, id_parse_error) result" where
  "opaque_from_str mk kind pre hex_len value =
     (if valid_prefixed_hex value pre hex_len then Ok (mk value)
      else Err \<lparr>ipe_kind = kind, ipe_prefix = pre, ipe_hex_len = hex_len\<rparr>)"

datatype workspace_id = WorkspaceId (workspace_id_str: string)
datatype binding_id = BindingId (binding_id_str: string)
datatype place_id = PlaceId (place_id_str: string)
datatype vault_namespace_id = VaultNamespaceId (vault_namespace_id_str: string)
datatype installation_id = InstallationId (installation_id_str: string)
datatype session_id = SessionId (session_id_str: string)
datatype action_id = ActionId (action_id_str: string)
datatype grant_id = GrantId (grant_id_str: string)
datatype lease_id = LeaseId (lease_id_str: string)
datatype sha256_digest = Sha256Digest (digest_str: string)

definition parse_workspace_id :: "string \<Rightarrow> (workspace_id, id_parse_error) result" where
  "parse_workspace_id = opaque_from_str WorkspaceId ''workspace id'' ''wrk_'' ID_HEX_LEN"

definition parse_binding_id :: "string \<Rightarrow> (binding_id, id_parse_error) result" where
  "parse_binding_id = opaque_from_str BindingId ''binding id'' ''bnd_'' ID_HEX_LEN"

definition parse_place_id :: "string \<Rightarrow> (place_id, id_parse_error) result" where
  "parse_place_id = opaque_from_str PlaceId ''place id'' ''plc_'' ID_HEX_LEN"

definition parse_vault_namespace_id :: "string \<Rightarrow> (vault_namespace_id, id_parse_error) result" where
  "parse_vault_namespace_id =
     opaque_from_str VaultNamespaceId ''vault namespace id'' ''vlt_'' ID_HEX_LEN"

definition parse_installation_id :: "string \<Rightarrow> (installation_id, id_parse_error) result" where
  "parse_installation_id = opaque_from_str InstallationId ''installation id'' ''ins_'' ID_HEX_LEN"

definition parse_session_id :: "string \<Rightarrow> (session_id, id_parse_error) result" where
  "parse_session_id = opaque_from_str SessionId ''session id'' ''ses_'' ID_HEX_LEN"

definition parse_action_id :: "string \<Rightarrow> (action_id, id_parse_error) result" where
  "parse_action_id = opaque_from_str ActionId ''action id'' ''act_'' ID_HEX_LEN"

definition parse_grant_id :: "string \<Rightarrow> (grant_id, id_parse_error) result" where
  "parse_grant_id = opaque_from_str GrantId ''grant id'' ''grt_'' ID_HEX_LEN"

definition parse_lease_id :: "string \<Rightarrow> (lease_id, id_parse_error) result" where
  "parse_lease_id = opaque_from_str LeaseId ''lease id'' ''lea_'' ID_HEX_LEN"

definition SHA256_HEX_LEN :: nat where
  "SHA256_HEX_LEN = 64"

definition parse_sha256_digest :: "string \<Rightarrow> (sha256_digest, id_parse_error) result" where
  "parse_sha256_digest = opaque_from_str Sha256Digest ''sha256 digest'' '''' SHA256_HEX_LEN"

subsection \<open>Validity of constructed identifiers\<close>

definition valid_lease_id :: "lease_id \<Rightarrow> bool" where
  "valid_lease_id i = valid_prefixed_hex (lease_id_str i) ''lea_'' ID_HEX_LEN"

definition valid_digest :: "sha256_digest \<Rightarrow> bool" where
  "valid_digest d = valid_prefixed_hex (digest_str d) '''' SHA256_HEX_LEN"

lemma opaque_from_str_Ok [res_simps]:
  "opaque_from_str mk kind p n v = Inr i \<longleftrightarrow> valid_prefixed_hex v p n \<and> i = mk v"
  by (auto simp: opaque_from_str_def)

lemma opaque_from_str_Err [res_simps]:
  "opaque_from_str mk kind p n v = Inl e \<longleftrightarrow>
     \<not> valid_prefixed_hex v p n \<and> e = \<lparr>ipe_kind = kind, ipe_prefix = p, ipe_hex_len = n\<rparr>"
  by (auto simp: opaque_from_str_def)

lemma parse_lease_id_str [simp]: "valid_lease_id i \<Longrightarrow> parse_lease_id (lease_id_str i) = Inr i"
  by (simp add: parse_lease_id_def opaque_from_str_def valid_lease_id_def)

lemma parse_lease_id_Ok:
  "parse_lease_id s = Inr i \<longleftrightarrow> valid_lease_id i \<and> lease_id_str i = s"
  by (cases i) (auto simp: parse_lease_id_def valid_lease_id_def res_simps)

lemma parse_sha256_digest_Ok:
  "parse_sha256_digest s = Inr d \<longleftrightarrow> valid_digest d \<and> digest_str d = s"
  by (cases d) (auto simp: parse_sha256_digest_def valid_digest_def res_simps)

lemma valid_prefixed_hex_prefix: "valid_prefixed_hex v p n \<Longrightarrow> take (length p) v = p"
  by (auto simp: valid_prefixed_hex_def prefix_def)

lemma valid_prefixed_hex_unique:
  assumes "valid_prefixed_hex v p n" and "valid_prefixed_hex v q m" and "length p = length q"
  shows "p = q"
  using assms valid_prefixed_hex_prefix by metis

lemma valid_prefixed_hex_append:
  "valid_prefixed_hex v p n \<longleftrightarrow>
     (\<exists>h. v = p @ h \<and> length h = n \<and> list_all is_lower_hex h)"
  by (auto simp: valid_prefixed_hex_def prefix_def)

definition parsed_kinds :: "string \<Rightarrow> bool list" where
  "parsed_kinds s =
     [is_ok (parse_workspace_id s), is_ok (parse_binding_id s), is_ok (parse_place_id s),
      is_ok (parse_vault_namespace_id s), is_ok (parse_installation_id s),
      is_ok (parse_session_id s), is_ok (parse_action_id s), is_ok (parse_grant_id s),
      is_ok (parse_lease_id s), is_ok (parse_sha256_digest s)]"

lemma is_ok_opaque: "is_ok (opaque_from_str mk k p n s) = valid_prefixed_hex s p n"
  by (simp add: opaque_from_str_def)

lemma valid_prefixed_hex_take4:
  "valid_prefixed_hex s p n \<Longrightarrow> length p = 4 \<Longrightarrow> take 4 s = p"
  using valid_prefixed_hex_prefix by metis

lemma digest_not_prefixed:
  "valid_prefixed_hex s '''' SHA256_HEX_LEN \<Longrightarrow> length p = 4 \<Longrightarrow>
     \<not> valid_prefixed_hex s p ID_HEX_LEN"
  by (auto simp: valid_prefixed_hex_def SHA256_HEX_LEN_def ID_HEX_LEN_def)

subsection \<open>Operations and effect classes\<close>

datatype operation =
  AssumePlace | Capability | FixAuth | InspectWorkspace | Leave | NeedSecret
| RunEngineeringCheck | SetupWorkspace | Share

datatype effect_class = Inspect | LocalRead | LocalWrite | ExternalWrite | SecretUse

fun operation_effect_class :: "operation \<Rightarrow> effect_class" where
  "operation_effect_class Capability = Inspect"
| "operation_effect_class InspectWorkspace = LocalRead"
| "operation_effect_class AssumePlace = LocalWrite"
| "operation_effect_class FixAuth = LocalWrite"
| "operation_effect_class Leave = LocalWrite"
| "operation_effect_class RunEngineeringCheck = LocalWrite"
| "operation_effect_class SetupWorkspace = LocalWrite"
| "operation_effect_class NeedSecret = SecretUse"
| "operation_effect_class Share = ExternalWrite"

subsection \<open>Properties\<close>

text \<open>
  Identifier kinds never confuse: a string parses as at most one of the nine prefixed
  identifier kinds or the bare digest.
\<close>

theorem id_kinds_disjoint: "length (filter id (parsed_kinds s)) \<le> 1"
proof (cases "valid_prefixed_hex s '''' SHA256_HEX_LEN")
  case True
  then show ?thesis
    by (simp add: parsed_kinds_def parse_workspace_id_def parse_binding_id_def parse_place_id_def
        parse_vault_namespace_id_def parse_installation_id_def parse_session_id_def
        parse_action_id_def parse_grant_id_def parse_lease_id_def parse_sha256_digest_def
        is_ok_opaque digest_not_prefixed)
next
  case False
  have pre: "valid_prefixed_hex s p ID_HEX_LEN \<Longrightarrow> length p = 4 \<Longrightarrow> take 4 s = p" for p
    by (rule valid_prefixed_hex_take4)
  show ?thesis using False
    by (auto simp: parsed_kinds_def parse_workspace_id_def parse_binding_id_def parse_place_id_def
        parse_vault_namespace_id_def parse_installation_id_def parse_session_id_def
        parse_action_id_def parse_grant_id_def parse_lease_id_def parse_sha256_digest_def
        is_ok_opaque dest!: pre)
qed

end
