(* ===== verification/Authority_Constraints.thy ===== *)
theory Authority_Constraints
  imports Authority_Ids
begin

text \<open>
  \<open>phantom-authority/src/constraints.rs\<close>: the bounded authority a grant carries, its
  validation, and the least-authority intersection of two grants.  The abstract
  specification is a permission relation for each kind of limit; the locale
  \<open>least_authority\<close> states what an intersection owes to it, and every limit of the
  source interprets that locale.
\<close>

subsection \<open>The interface: intersection as a conjunction of permissions\<close>

locale least_authority =
  fixes meet :: "'a \<Rightarrow> 'a \<Rightarrow> 'a"
    and ok :: "'a \<Rightarrow> bool"
    and permits :: "'a \<Rightarrow> 'q \<Rightarrow> bool"
  assumes permits_meet: "ok a \<Longrightarrow> ok b \<Longrightarrow> permits (meet a b) q \<longleftrightarrow> permits a q \<and> permits b q"
begin

lemma never_widens: "ok a \<Longrightarrow> ok b \<Longrightarrow> permits (meet a b) q \<Longrightarrow> permits a q"
  by (simp add: permits_meet)

lemma greatest:
  assumes "ok a" and "ok b" and "\<And>q. permits c q \<Longrightarrow> permits a q \<and> permits b q"
    and "permits c q"
  shows "permits (meet a b) q"
  using assms by (simp add: permits_meet)

lemma permits_idem: "ok a \<Longrightarrow> permits (meet a a) q = permits a q"
  by (simp add: permits_meet)

end

locale least_authority_closed = least_authority +
  assumes ok_meet: "ok a \<Longrightarrow> ok b \<Longrightarrow> ok (meet a b)"
    and meet_commute: "ok a \<Longrightarrow> ok b \<Longrightarrow> meet a b = meet b a"
    and meet_assoc: "ok a \<Longrightarrow> ok b \<Longrightarrow> ok c \<Longrightarrow> meet (meet a b) c = meet a (meet b c)"
begin

lemma meet_left_commute:
  assumes "ok a" and "ok b" and "ok c"
  shows "meet a (meet b c) = meet b (meet a c)"
  using assms meet_assoc meet_commute by metis

lemma permits_three:
  assumes "ok a" and "ok b" and "ok c"
  shows "permits (meet (meet a b) c) q \<longleftrightarrow> permits a q \<and> permits b q \<and> permits c q"
  using assms by (auto simp: permits_meet ok_meet)

end

subsection \<open>Errors\<close>

datatype constraint_error =
  InvalidTimeWindow | EnvironmentMismatch | InvalidEnvironment | InvalidHost
| InvalidPathPrefix | RedirectsDenied | InvalidByteLimit | EmptyExactScope
| DuplicateExactScope | UnsortedExactScope | InvalidUseCapacity | InvalidSpendCap

subsection \<open>Schemes and methods, ordered as declared\<close>

datatype network_scheme = Http | Https

instantiation network_scheme :: linorder
begin

definition less_eq_network_scheme :: "network_scheme \<Rightarrow> network_scheme \<Rightarrow> bool" where
  "less_eq_network_scheme a b = (a = Http \<or> b = Https)"

definition less_network_scheme :: "network_scheme \<Rightarrow> network_scheme \<Rightarrow> bool" where
  "less_network_scheme a b = (a = Http \<and> b = Https)"

instance
  by standard (auto simp: less_eq_network_scheme_def less_network_scheme_def
      intro: network_scheme.exhaust)

end

datatype http_method = Get | Head | Options | Post | Put | Patch | Delete

fun http_method_rank :: "http_method \<Rightarrow> nat" where
  "http_method_rank Get = 0"
| "http_method_rank Head = 1"
| "http_method_rank Options = 2"
| "http_method_rank Post = 3"
| "http_method_rank Put = 4"
| "http_method_rank Patch = 5"
| "http_method_rank Delete = 6"

lemma http_method_rank_inj: "http_method_rank a = http_method_rank b \<Longrightarrow> a = b"
  by (cases a; cases b) auto

instantiation http_method :: linorder
begin

definition less_eq_http_method :: "http_method \<Rightarrow> http_method \<Rightarrow> bool" where
  "less_eq_http_method a b = (http_method_rank a \<le> http_method_rank b)"

definition less_http_method :: "http_method \<Rightarrow> http_method \<Rightarrow> bool" where
  "less_http_method a b = (http_method_rank a < http_method_rank b)"

instance
  by standard (auto simp: less_eq_http_method_def less_http_method_def
      intro: http_method_rank_inj)

end

subsection \<open>Time windows\<close>

record time_constraints =
  tc_not_before :: u64
  tc_expires_at :: u64

definition time_active_at :: "time_constraints \<Rightarrow> u64 \<Rightarrow> bool" where
  "time_active_at t now = (tc_not_before t \<le> now \<and> now < tc_expires_at t)"

definition time_validate :: "time_constraints \<Rightarrow> (unit, constraint_error) result" where
  "time_validate t =
     (if tc_not_before t \<ge> tc_expires_at t then Err InvalidTimeWindow else Ok ())"

definition time_meet :: "time_constraints \<Rightarrow> time_constraints \<Rightarrow> time_constraints" where
  "time_meet s t =
     \<lparr>tc_not_before = max (tc_not_before s) (tc_not_before t),
      tc_expires_at = min (tc_expires_at s) (tc_expires_at t)\<rparr>"

interpretation time: least_authority time_meet "\<lambda>_. True" time_active_at
  by unfold_locales (auto simp: time_meet_def time_active_at_def)

subsection \<open>Use capacity and byte limits\<close>

datatype use_capacity =
  CapacityDenied
| CapacityBounded (max_uses: u32) (max_concurrent_uses: u16)

fun use_capacity_limits :: "use_capacity \<Rightarrow> (u32 \<times> u16) option" where
  "use_capacity_limits CapacityDenied = None"
| "use_capacity_limits (CapacityBounded u c) = Some (u, c)"

fun use_capacity_validate :: "use_capacity \<Rightarrow> (unit, constraint_error) result" where
  "use_capacity_validate CapacityDenied = Ok ()"
| "use_capacity_validate (CapacityBounded u c) =
     (if u = 0 \<or> c = 0 then Err InvalidUseCapacity else Ok ())"

fun use_capacity_intersect :: "use_capacity \<Rightarrow> use_capacity \<Rightarrow> use_capacity" where
  "use_capacity_intersect (CapacityBounded u c) (CapacityBounded u' c') =
     CapacityBounded (min u u') (min c c')"
| "use_capacity_intersect _ _ = CapacityDenied"

fun capacity_permits :: "use_capacity \<Rightarrow> u32 \<times> u16 \<Rightarrow> bool" where
  "capacity_permits CapacityDenied _ = False"
| "capacity_permits (CapacityBounded u c) (n, k) = (n \<le> u \<and> k \<le> c)"

lemma use_capacity_intersect_Denied [simp]:
  "use_capacity_intersect a CapacityDenied = CapacityDenied"
  by (cases a) auto

interpretation capacity: least_authority_closed
  use_capacity_intersect "\<lambda>a. use_capacity_validate a = Ok ()" capacity_permits
proof unfold_locales
  fix a b :: use_capacity and q
  show "capacity_permits (use_capacity_intersect a b) q =
    (capacity_permits a q \<and> capacity_permits b q)"
    by (cases a; cases b; cases q) auto
  assume "use_capacity_validate a = Ok ()" "use_capacity_validate b = Ok ()"
  then show "use_capacity_validate (use_capacity_intersect a b) = Ok ()"
    by (cases a; cases b) (auto simp: min_def split: if_splits)
  show "use_capacity_intersect a b = use_capacity_intersect b a"
    by (cases a; cases b) (auto simp: min.commute)
  show "use_capacity_intersect (use_capacity_intersect a b) c =
      use_capacity_intersect a (use_capacity_intersect b c)" for c
    by (cases a; cases b; cases c) (auto simp: min.assoc)
qed

datatype byte_limit = BytesDenied | BytesBounded (limit_bytes: u64)

definition byte_limit_validate :: "byte_limit \<Rightarrow> (unit, constraint_error) result" where
  "byte_limit_validate l = (if l = BytesBounded 0 then Err InvalidByteLimit else Ok ())"

fun byte_limit_intersect :: "byte_limit \<Rightarrow> byte_limit \<Rightarrow> byte_limit" where
  "byte_limit_intersect (BytesBounded l) (BytesBounded r) = BytesBounded (min l r)"
| "byte_limit_intersect _ _ = BytesDenied"

fun bytes_permits :: "byte_limit \<Rightarrow> u64 \<Rightarrow> bool" where
  "bytes_permits BytesDenied _ = False"
| "bytes_permits (BytesBounded l) n = (n \<le> l)"

interpretation bytes: least_authority_closed
  byte_limit_intersect "\<lambda>a. byte_limit_validate a = Ok ()" bytes_permits
proof unfold_locales
  fix a b :: byte_limit and q
  show "bytes_permits (byte_limit_intersect a b) q = (bytes_permits a q \<and> bytes_permits b q)"
    by (cases a; cases b) auto
  assume "byte_limit_validate a = Ok ()" "byte_limit_validate b = Ok ()"
  then show "byte_limit_validate (byte_limit_intersect a b) = Ok ()"
    by (cases a; cases b) (auto simp: byte_limit_validate_def min_def split: if_splits)
  show "byte_limit_intersect a b = byte_limit_intersect b a"
    by (cases a; cases b) (auto simp: min.commute)
  show "byte_limit_intersect (byte_limit_intersect a b) c =
      byte_limit_intersect a (byte_limit_intersect b c)" for c
    by (cases a; cases b; cases c) (auto simp: min.assoc)
qed

record use_constraints =
  uc_capacity :: use_capacity
  uc_max_request_bytes :: byte_limit
  uc_max_response_bytes :: byte_limit

subsection \<open>Exact scopes\<close>

datatype 'a exact_scope = Denied | Exact "'a list"

fun scope_values :: "'a exact_scope \<Rightarrow> 'a list" where
  "scope_values Denied = []"
| "scope_values (Exact xs) = xs"

fun windows2_ascending :: "'a::ord list \<Rightarrow> bool" where
  "windows2_ascending (x # y # zs) = (x < y \<and> windows2_ascending (y # zs))"
| "windows2_ascending _ = True"

fun exact_scope_validate :: "'a::linorder exact_scope \<Rightarrow> (unit, constraint_error) result" where
  "exact_scope_validate Denied = Ok ()"
| "exact_scope_validate (Exact values) =
     (if values = [] then Err EmptyExactScope
      else if length (btree_collect values) \<noteq> length values then Err DuplicateExactScope
      else if \<not> windows2_ascending values then Err UnsortedExactScope
      else Ok ())"

fun exact_scope_intersection ::
  "'a::linorder exact_scope \<Rightarrow> 'a exact_scope \<Rightarrow> 'a exact_scope" where
  "exact_scope_intersection (Exact left) (Exact right) =
     (let values = filter (\<lambda>x. x \<in> set (btree_collect right)) (btree_collect left)
      in if values = [] then Denied else Exact values)"
| "exact_scope_intersection _ _ = Denied"

definition scope_permits :: "'a exact_scope \<Rightarrow> 'a \<Rightarrow> bool" where
  "scope_permits s x = (x \<in> set (scope_values s))"

lemma windows2_ascending_iff:
  "windows2_ascending (xs :: 'a::linorder list) = sorted_wrt (<) xs"
  by (induction xs rule: windows2_ascending.induct) (auto intro: less_trans)

lemma exact_scope_validate_Ok:
  "exact_scope_validate s = Inr u \<longleftrightarrow>
     s = Denied \<or> (\<exists>xs. s = Exact xs \<and> xs \<noteq> [] \<and> sorted_wrt (<) xs)"
  by (cases s) (auto simp: windows2_ascending_iff btree_collect_id)

lemma scope_values_intersection:
  "set (scope_values (exact_scope_intersection a b)) =
     set (scope_values a) \<inter> set (scope_values b)"
proof (cases "\<exists>l r. a = Exact l \<and> b = Exact r")
  case True
  then obtain l r where "a = Exact l" "b = Exact r" by blast
  then show ?thesis by (auto simp: Let_def filter_empty_conv)
next
  case False
  then show ?thesis by (cases a; cases b) auto
qed

lemma exact_scope_intersection_valid:
  "exact_scope_validate (exact_scope_intersection a b) = Inr ()"
  by (cases a; cases b)
    (auto simp: exact_scope_validate_Ok Let_def sorted_wrt_filter btree_collect_strict
      simp del: exact_scope_validate.simps)

lemma valid_scope_eqI:
  assumes "exact_scope_validate a = Inr ()" and "exact_scope_validate b = Inr ()"
    and "set (scope_values a) = set (scope_values b)"
  shows "a = b"
  using assms
  by (cases a; cases b)
    (auto simp: exact_scope_validate_Ok intro: strict_sorted_equal
      simp del: exact_scope_validate.simps)

interpretation scope: least_authority_closed
  exact_scope_intersection "\<lambda>a. exact_scope_validate a = Ok ()" scope_permits
proof unfold_locales
  fix a b :: "'a::linorder exact_scope" and q
  show "scope_permits (exact_scope_intersection a b) q = (scope_permits a q \<and> scope_permits b q)"
    by (simp add: scope_permits_def scope_values_intersection)
  show "exact_scope_validate (exact_scope_intersection a b) = Ok ()"
    by (rule exact_scope_intersection_valid)
  show "exact_scope_intersection a b = exact_scope_intersection b a"
    by (rule valid_scope_eqI)
      (auto simp: exact_scope_intersection_valid scope_values_intersection)
  show "exact_scope_intersection (exact_scope_intersection a b) c =
      exact_scope_intersection a (exact_scope_intersection b c)" for c
    by (rule valid_scope_eqI)
      (auto simp: exact_scope_intersection_valid scope_values_intersection)
qed

end
