(* ===== verification/Authority_Network.thy ===== *)
theory Authority_Network
  imports Authority_Constraints
begin

text \<open>
  The second half of \<open>phantom-authority/src/constraints.rs\<close>: network scopes with their host
  and path-prefix grammar, the path-prefix intersection, spending caps, and the whole
  constraint record with \<open>AuthorityConstraints::validate\<close> and \<open>intersect\<close>.
\<close>

subsection \<open>Path prefixes\<close>

definition path_is_within :: "string \<Rightarrow> string \<Rightarrow> bool" where
  "path_is_within candidate parent =
     (candidate = parent
      \<or> (starts_with candidate parent
         \<and> (ends_with parent ''/''
            \<or> (length parent < length candidate \<and> candidate ! length parent = CHR ''/''))))"

definition path_pair_insert :: "string \<Rightarrow> string \<Rightarrow> string list" where
  "path_pair_insert left_path right_path =
     (if path_is_within left_path right_path then [left_path]
      else if path_is_within right_path left_path then [right_path]
      else [])"

fun path_scope_intersection ::
  "string exact_scope \<Rightarrow> string exact_scope \<Rightarrow> string exact_scope" where
  "path_scope_intersection (Exact left) (Exact right) =
     (let values = btree_collect
        (concat (map (\<lambda>l. concat (map (\<lambda>r. path_pair_insert l r) right)) left))
      in if values = [] then Denied else Exact values)"
| "path_scope_intersection _ _ = Denied"

definition path_permits :: "string exact_scope \<Rightarrow> string \<Rightarrow> bool" where
  "path_permits s p = (\<exists>q \<in> set (scope_values s). path_is_within p q)"

lemma path_is_within_refl [simp]: "path_is_within p p"
  by (simp add: path_is_within_def)

lemma path_is_within_prefix: "path_is_within p q \<Longrightarrow> prefix q p"
  by (auto simp: path_is_within_def)

lemma path_is_within_antisym: "path_is_within p q \<Longrightarrow> path_is_within q p \<Longrightarrow> p = q"
  by (meson path_is_within_prefix prefix_order.antisym)

lemma path_boundary_shift:
  assumes "prefix q r" and "prefix r p" and "q \<noteq> r"
  shows "p ! length q = r ! length q" and "length q < length r"
  using assms by (auto simp: prefix_def nth_append split: if_split_asm)

lemma path_is_within_trans:
  assumes pq: "path_is_within p q" and qr: "path_is_within q r"
  shows "path_is_within p r"
proof (cases "q = r \<or> p = q")
  case True
  then show ?thesis using assms by auto
next
  case False
  then have "prefix r q" "prefix q p" using assms by (auto dest: path_is_within_prefix)
  with False qr show ?thesis
    using path_boundary_shift [of r q p] path_boundary_shift(2) [of q p p]
    by (auto simp: path_is_within_def dest: prefix_order.trans prefix_length_le)
qed

text \<open>Two prefixes of one path are comparable, at a segment boundary.\<close>

lemma path_is_within_comparable:
  assumes "path_is_within p l" and "path_is_within p r" and "length l \<le> length r"
  shows "path_is_within r l"
proof (cases "l = r")
  case False
  have pre: "prefix l p" "prefix r p" using assms by (auto dest: path_is_within_prefix)
  then have lr: "prefix l r" using assms(3) by (rule prefix_length_prefix)
  then have "p ! length l = r ! length l" "length l < length r"
    using path_boundary_shift [OF lr pre(2) False] by auto
  then show ?thesis using assms(1) lr pre
    by (auto simp: path_is_within_def dest: prefix_length_le)
qed simp

lemma path_pair_insert_permits:
  "(\<exists>q \<in> set (path_pair_insert l r). path_is_within p q) \<longleftrightarrow>
     path_is_within p l \<and> path_is_within p r"
proof
  assume "\<exists>q \<in> set (path_pair_insert l r). path_is_within p q"
  then show "path_is_within p l \<and> path_is_within p r"
    by (auto simp: path_pair_insert_def intro: path_is_within_trans split: if_splits)
next
  assume p: "path_is_within p l \<and> path_is_within p r"
  then have "path_is_within l r \<or> path_is_within r l"
    by (meson path_is_within_comparable nat_le_linear)
  with p show "\<exists>q \<in> set (path_pair_insert l r). path_is_within p q"
    by (auto simp: path_pair_insert_def)
qed

lemma path_pair_insert_commute: "set (path_pair_insert l r) = set (path_pair_insert r l)"
  by (auto simp: path_pair_insert_def dest: path_is_within_antisym)

lemma path_scope_values_intersection:
  "set (scope_values (path_scope_intersection a b)) =
     (\<Union>l \<in> set (scope_values a). \<Union>r \<in> set (scope_values b). set (path_pair_insert l r))"
proof (cases "\<exists>l r. a = Exact l \<and> b = Exact r")
  case True
  then obtain l r where "a = Exact l" "b = Exact r" by blast
  moreover have "set (scope_values (if xs = [] then Denied else Exact xs)) = set xs"
    for xs :: "string list"
    by simp
  ultimately show ?thesis by (simp add: Let_def)
next
  case False
  then show ?thesis by (cases a; cases b) auto
qed

lemma path_pair_insert_swap: "x \<in> set (path_pair_insert l r) \<Longrightarrow> x \<in> set (path_pair_insert r l)"
  using path_pair_insert_commute by blast

lemma path_scope_values_commute:
  "set (scope_values (path_scope_intersection a b)) =
     set (scope_values (path_scope_intersection b a))"
  unfolding path_scope_values_intersection by (blast dest: path_pair_insert_swap)

lemma path_is_within_join: "path_is_within p l \<Longrightarrow> path_is_within p r \<Longrightarrow>
  path_is_within l r \<or> path_is_within r l"
  by (meson path_is_within_comparable nat_le_linear)

text \<open>A value of an intersection is the deepest of the comparable prefixes it came from.\<close>

lemma path_pair_insert_iff:
  "x \<in> set (path_pair_insert l r) \<longleftrightarrow>
     path_is_within x l \<and> path_is_within x r \<and> (x = l \<or> x = r)"
  by (auto simp: path_pair_insert_def dest: path_is_within_antisym)

lemma path_scope_member:
  "x \<in> set (scope_values (path_scope_intersection a b)) \<longleftrightarrow>
     (\<exists>l \<in> set (scope_values a). \<exists>r \<in> set (scope_values b).
        path_is_within x l \<and> path_is_within x r \<and> (x = l \<or> x = r))"
  by (auto simp: path_scope_values_intersection path_pair_insert_iff)

lemma path_scope_assoc_sub:
  assumes "x \<in> set (scope_values (path_scope_intersection (path_scope_intersection a b) c))"
  shows "x \<in> set (scope_values (path_scope_intersection a (path_scope_intersection b c)))"
proof -
  obtain m s where m_in: "m \<in> set (scope_values (path_scope_intersection a b))"
    and s_in: "s \<in> set (scope_values c)"
    and x: "path_is_within x m" "path_is_within x s" "x = m \<or> x = s"
    using assms by (subst (asm) path_scope_member) blast
  obtain l r where in_scopes: "l \<in> set (scope_values a)" "r \<in> set (scope_values b)"
    and m: "path_is_within m l" "path_is_within m r" "m = l \<or> m = r"
    using m_in unfolding path_scope_member by blast
  have within: "path_is_within x l" "path_is_within x r" "path_is_within x s"
    using m x path_is_within_trans by blast+
  obtain n where n: "path_is_within n r" "path_is_within n s" "n = r \<or> n = s" "path_is_within x n"
    using path_is_within_join [OF within(2,3)] within path_is_within_refl by blast
  have "x = l \<or> x = n"
    using m(3) x(3) n within path_is_within_antisym by metis
  moreover have "n \<in> set (scope_values (path_scope_intersection b c))"
    unfolding path_scope_member using in_scopes s_in n by blast
  ultimately show ?thesis
    unfolding path_scope_member [of x a] using in_scopes within n by blast
qed

lemma path_scope_intersection_valid:
  "exact_scope_validate (path_scope_intersection a b) = Inr ()"
  by (cases a; cases b)
    (auto simp: exact_scope_validate_Ok Let_def btree_collect_strict
      simp del: exact_scope_validate.simps)

lemma path_scope_intersection_commute:
  "path_scope_intersection a b = path_scope_intersection b a"
  by (intro valid_scope_eqI path_scope_intersection_valid path_scope_values_commute)

lemma path_scope_intersection_assoc:
  "path_scope_intersection (path_scope_intersection a b) c =
     path_scope_intersection a (path_scope_intersection b c)"
proof (intro valid_scope_eqI path_scope_intersection_valid equalityI subsetI)
  fix x
  assume "x \<in> set (scope_values (path_scope_intersection a (path_scope_intersection b c)))"
  then have "x \<in> set (scope_values (path_scope_intersection (path_scope_intersection c b) a))"
    by (metis path_scope_intersection_commute)
  then have "x \<in> set (scope_values (path_scope_intersection c (path_scope_intersection b a)))"
    by (rule path_scope_assoc_sub)
  then show "x \<in> set (scope_values (path_scope_intersection (path_scope_intersection a b) c))"
    by (metis path_scope_intersection_commute)
qed (rule path_scope_assoc_sub)

lemma path_scope_intersection_sub:
  "p \<in> set (scope_values (path_scope_intersection a b)) \<Longrightarrow>
     p \<in> set (scope_values a) \<union> set (scope_values b)"
  by (auto simp: path_scope_values_intersection path_pair_insert_def split: if_splits)

interpretation path: least_authority_closed
  path_scope_intersection "\<lambda>a. exact_scope_validate a = Ok ()" path_permits
proof unfold_locales
  fix a b :: "string exact_scope" and q
  have "path_permits (path_scope_intersection a b) q \<longleftrightarrow>
    (\<exists>l \<in> set (scope_values a). \<exists>r \<in> set (scope_values b).
       \<exists>v \<in> set (path_pair_insert l r). path_is_within q v)"
    by (auto simp: path_permits_def path_scope_values_intersection)
  then show "path_permits (path_scope_intersection a b) q = (path_permits a q \<and> path_permits b q)"
    unfolding path_pair_insert_permits by (auto simp: path_permits_def)
  show "exact_scope_validate (path_scope_intersection a b) = Ok ()"
    by (rule path_scope_intersection_valid)
  show "path_scope_intersection a b = path_scope_intersection b a"
    by (rule path_scope_intersection_commute)
  show "path_scope_intersection (path_scope_intersection a b) c =
      path_scope_intersection a (path_scope_intersection b c)" for c
    by (rule path_scope_intersection_assoc)
qed

subsection \<open>Network constraints\<close>

record network_constraints =
  nc_schemes :: "network_scheme exact_scope"
  nc_hosts :: "string exact_scope"
  nc_ports :: "u16 exact_scope"
  nc_methods :: "http_method exact_scope"
  nc_path_prefixes :: "string exact_scope"
  nc_allow_redirects :: bool

definition to_ascii_lower :: "char \<Rightarrow> char" where
  "to_ascii_lower c = (if is_ascii_uppercase c then char_of (byte_of c + 32) else c)"

definition host_label_valid :: "string \<Rightarrow> bool" where
  "host_label_valid label =
     (label \<noteq> [] \<and> length label \<le> 63
      \<and> list_all (\<lambda>b. is_ascii_alphanumeric b \<or> b = CHR ''-'') label
      \<and> is_ascii_alphanumeric (hd label)
      \<and> is_ascii_alphanumeric (last label))"

definition host_invalid :: "string \<Rightarrow> bool" where
  "host_invalid host =
     (host = [] \<or> length host > 253
      \<or> host \<noteq> map to_ascii_lower host
      \<or> list_ex (\<lambda>b. b \<in> set [CHR ''/'', CHR '':'', CHR ''@'', CHR 0x5C]) host
      \<or> \<not> list_all host_label_valid (split_on CHR ''.'' host))"

definition path_invalid :: "string \<Rightarrow> bool" where
  "path_invalid path =
     (\<not> starts_with path ''/'' \<or> length path > 2048
      \<or> \<not> list_all is_ascii_graphic path
      \<or> CHR ''?'' \<in> set path
      \<or> CHR ''#'' \<in> set path
      \<or> CHR 0x5C \<in> set path
      \<or> CHR ''%'' \<in> set path
      \<or> sublist ''//'' path
      \<or> list_ex (\<lambda>segment. segment = ''.'' \<or> segment = ''..'') (split_on CHR ''/'' path))"

definition network_validate :: "network_constraints \<Rightarrow> (unit, constraint_error) result" where
  "network_validate n =
     (if nc_allow_redirects n then Err RedirectsDenied
      else and_then (exact_scope_validate (nc_schemes n)) (\<lambda>_.
        and_then (exact_scope_validate (nc_hosts n)) (\<lambda>_.
        and_then (exact_scope_validate (nc_ports n)) (\<lambda>_.
        and_then (exact_scope_validate (nc_methods n)) (\<lambda>_.
        and_then (exact_scope_validate (nc_path_prefixes n)) (\<lambda>_.
          if list_ex host_invalid (scope_values (nc_hosts n)) then Err InvalidHost
          else if list_ex path_invalid (scope_values (nc_path_prefixes n))
          then Err InvalidPathPrefix
          else Ok ()))))))"

definition network_meet ::
  "network_constraints \<Rightarrow> network_constraints \<Rightarrow> network_constraints" where
  "network_meet a b =
     \<lparr>nc_schemes = exact_scope_intersection (nc_schemes a) (nc_schemes b),
      nc_hosts = exact_scope_intersection (nc_hosts a) (nc_hosts b),
      nc_ports = exact_scope_intersection (nc_ports a) (nc_ports b),
      nc_methods = exact_scope_intersection (nc_methods a) (nc_methods b),
      nc_path_prefixes = path_scope_intersection (nc_path_prefixes a) (nc_path_prefixes b),
      nc_allow_redirects = (nc_allow_redirects a \<and> nc_allow_redirects b)\<rparr>"

definition network_permits ::
  "network_constraints \<Rightarrow> network_scheme \<times> string \<times> u16 \<times> http_method \<times> string \<Rightarrow> bool" where
  "network_permits n q =
     (case q of (scheme, host, port, verb, path) \<Rightarrow>
        scope_permits (nc_schemes n) scheme \<and> scope_permits (nc_hosts n) host
        \<and> scope_permits (nc_ports n) port \<and> scope_permits (nc_methods n) verb
        \<and> path_permits (nc_path_prefixes n) path)"

lemma network_validate_Ok:
  "network_validate n = Inr u \<longleftrightarrow>
     \<not> nc_allow_redirects n
     \<and> exact_scope_validate (nc_schemes n) = Inr ()
     \<and> exact_scope_validate (nc_hosts n) = Inr ()
     \<and> exact_scope_validate (nc_ports n) = Inr ()
     \<and> exact_scope_validate (nc_methods n) = Inr ()
     \<and> exact_scope_validate (nc_path_prefixes n) = Inr ()
     \<and> (\<forall>h \<in> set (scope_values (nc_hosts n)). \<not> host_invalid h)
     \<and> (\<forall>p \<in> set (scope_values (nc_path_prefixes n)). \<not> path_invalid p)"
  by (auto simp: network_validate_def res_simps list_ex_iff)

interpretation network: least_authority_closed
  network_meet "\<lambda>a. network_validate a = Ok ()" network_permits
proof unfold_locales
  fix a b :: network_constraints and q
  assume ok: "network_validate a = Ok ()" "network_validate b = Ok ()"
  then show "network_permits (network_meet a b) q = (network_permits a q \<and> network_permits b q)"
    by (auto simp: network_permits_def network_meet_def network_validate_Ok scope.permits_meet
        path.permits_meet split: prod.splits)
  show "network_validate (network_meet a b) = Ok ()"
    using ok by (auto simp: network_validate_Ok network_meet_def exact_scope_intersection_valid
        path_scope_intersection_valid scope_values_intersection dest: path_scope_intersection_sub)
  show "network_meet a b = network_meet b a"
    using ok by (auto simp: network_meet_def network_validate_Ok scope.meet_commute
        path.meet_commute)
  show "network_meet (network_meet a b) c = network_meet a (network_meet b c)"
    if "network_validate c = Ok ()" for c
    using ok that by (auto simp: network_meet_def network_validate_Ok scope.meet_assoc
        path.meet_assoc)
qed

subsection \<open>Spending caps\<close>

record spend_constraints =
  sc_currency :: "string option"
  sc_max_minor_units :: u64

definition spend_forbidden :: spend_constraints where
  "spend_forbidden = \<lparr>sc_currency = None, sc_max_minor_units = 0\<rparr>"

definition spend_is_forbidden :: "spend_constraints \<Rightarrow> bool" where
  "spend_is_forbidden s = (sc_max_minor_units s = 0)"

definition spend_validate :: "spend_constraints \<Rightarrow> (unit, constraint_error) result" where
  "spend_validate s =
     (case sc_currency s of
        None \<Rightarrow> if sc_max_minor_units s = 0 then Ok () else Err InvalidSpendCap
      | Some currency \<Rightarrow>
          if sc_max_minor_units s > 0 \<and> length currency = 3 \<and> list_all is_ascii_uppercase currency
          then Ok () else Err InvalidSpendCap)"

definition spend_meet :: "spend_constraints \<Rightarrow> spend_constraints \<Rightarrow> spend_constraints" where
  "spend_meet a b =
     (case (sc_currency a, sc_currency b) of
        (Some l, Some r) \<Rightarrow>
          if l = r
          then \<lparr>sc_currency = Some l,
                sc_max_minor_units = min (sc_max_minor_units a) (sc_max_minor_units b)\<rparr>
          else spend_forbidden
      | _ \<Rightarrow> spend_forbidden)"

definition spend_permits :: "spend_constraints \<Rightarrow> string \<times> u64 \<Rightarrow> bool" where
  "spend_permits s q =
     (case q of (currency, amount) \<Rightarrow>
        sc_currency s = Some currency \<and> amount \<le> sc_max_minor_units s)"

interpretation spend: least_authority_closed
  spend_meet "\<lambda>a. spend_validate a = Ok ()" spend_permits
proof unfold_locales
  fix a b :: spend_constraints and q
  assume ok: "spend_validate a = Ok ()" "spend_validate b = Ok ()"
  show "spend_permits (spend_meet a b) q = (spend_permits a q \<and> spend_permits b q)"
    by (auto simp: spend_permits_def spend_meet_def spend_forbidden_def split: option.splits)
  show "spend_validate (spend_meet a b) = Ok ()"
    using ok by (auto simp: spend_validate_def spend_meet_def spend_forbidden_def min_def
        split: option.splits if_splits)
  show "spend_meet a b = spend_meet b a"
    by (auto simp: spend_meet_def min.commute split: option.splits)
  show "spend_meet (spend_meet a b) c = spend_meet a (spend_meet b c)" for c
    by (auto simp: spend_meet_def spend_forbidden_def min.assoc split: option.splits)
qed

subsection \<open>The whole constraint record\<close>

record authority_constraints =
  ac_environment :: string
  ac_read_only :: bool
  ac_time :: time_constraints
  ac_uses :: use_constraints
  ac_network :: network_constraints
  ac_spend :: spend_constraints

definition environment_valid :: "string \<Rightarrow> bool" where
  "environment_valid e =
     (e \<noteq> [] \<and> length e \<le> 64
      \<and> list_all (\<lambda>b. is_ascii_alphanumeric b \<or> b = CHR ''-'' \<or> b = CHR ''_'') e)"

definition constraints_validate :: "authority_constraints \<Rightarrow> (unit, constraint_error) result" where
  "constraints_validate c =
     (if \<not> environment_valid (ac_environment c) then Err InvalidEnvironment
      else and_then (time_validate (ac_time c)) (\<lambda>_.
        and_then (use_capacity_validate (uc_capacity (ac_uses c))) (\<lambda>_.
        and_then (byte_limit_validate (uc_max_request_bytes (ac_uses c))) (\<lambda>_.
        and_then (byte_limit_validate (uc_max_response_bytes (ac_uses c))) (\<lambda>_.
        and_then (network_validate (ac_network c)) (\<lambda>_.
        and_then (spend_validate (ac_spend c)) (\<lambda>_. Ok ())))))))"

definition uses_meet :: "use_constraints \<Rightarrow> use_constraints \<Rightarrow> use_constraints" where
  "uses_meet a b =
     \<lparr>uc_capacity = use_capacity_intersect (uc_capacity a) (uc_capacity b),
      uc_max_request_bytes = byte_limit_intersect (uc_max_request_bytes a) (uc_max_request_bytes b),
      uc_max_response_bytes =
        byte_limit_intersect (uc_max_response_bytes a) (uc_max_response_bytes b)\<rparr>"

definition constraints_meet ::
  "authority_constraints \<Rightarrow> authority_constraints \<Rightarrow> authority_constraints" where
  "constraints_meet a b =
     \<lparr>ac_environment = ac_environment a,
      ac_read_only = (ac_read_only a \<or> ac_read_only b),
      ac_time = time_meet (ac_time a) (ac_time b),
      ac_uses = uses_meet (ac_uses a) (ac_uses b),
      ac_network = network_meet (ac_network a) (ac_network b),
      ac_spend = spend_meet (ac_spend a) (ac_spend b)\<rparr>"

definition constraints_intersect ::
  "authority_constraints \<Rightarrow> authority_constraints
     \<Rightarrow> (authority_constraints, constraint_error) result" where
  "constraints_intersect a b =
     and_then (constraints_validate a) (\<lambda>_.
     and_then (constraints_validate b) (\<lambda>_.
       if ac_environment a \<noteq> ac_environment b then Err EnvironmentMismatch
       else and_then (time_validate (time_meet (ac_time a) (ac_time b))) (\<lambda>_.
         Ok (constraints_meet a b))))"

text \<open>
  The abstract specification: one concrete request, and when a constraint record permits it.
  A request names the instant, whether it writes, the use and concurrency counts it would
  reach, the byte counts, and the optional network and spending parts.
\<close>

record authority_query =
  q_environment :: string
  q_writes :: bool
  q_now :: u64
  q_use :: "u32 \<times> u16"
  q_request_bytes :: u64
  q_response_bytes :: u64
  q_network :: "(network_scheme \<times> string \<times> u16 \<times> http_method \<times> string) option"
  q_spend :: "(string \<times> u64) option"

definition constraints_permit :: "authority_constraints \<Rightarrow> authority_query \<Rightarrow> bool" where
  "constraints_permit c q =
     (ac_environment c = q_environment q
      \<and> (q_writes q \<longrightarrow> \<not> ac_read_only c)
      \<and> time_active_at (ac_time c) (q_now q)
      \<and> capacity_permits (uc_capacity (ac_uses c)) (q_use q)
      \<and> bytes_permits (uc_max_request_bytes (ac_uses c)) (q_request_bytes q)
      \<and> bytes_permits (uc_max_response_bytes (ac_uses c)) (q_response_bytes q)
      \<and> (\<forall>n. q_network q = Some n \<longrightarrow> network_permits (ac_network c) n)
      \<and> (\<forall>p. q_spend q = Some p \<longrightarrow> spend_permits (ac_spend c) p))"

lemma constraints_validate_Ok:
  "constraints_validate c = Inr u \<longleftrightarrow>
     environment_valid (ac_environment c)
     \<and> time_validate (ac_time c) = Inr ()
     \<and> use_capacity_validate (uc_capacity (ac_uses c)) = Inr ()
     \<and> byte_limit_validate (uc_max_request_bytes (ac_uses c)) = Inr ()
     \<and> byte_limit_validate (uc_max_response_bytes (ac_uses c)) = Inr ()
     \<and> network_validate (ac_network c) = Inr ()
     \<and> spend_validate (ac_spend c) = Inr ()"
  by (auto simp: constraints_validate_def res_simps)

lemma constraints_intersect_Ok:
  "constraints_intersect a b = Inr c \<longleftrightarrow>
     constraints_validate a = Inr () \<and> constraints_validate b = Inr ()
     \<and> ac_environment a = ac_environment b
     \<and> time_validate (time_meet (ac_time a) (ac_time b)) = Inr ()
     \<and> c = constraints_meet a b"
  by (auto simp: constraints_intersect_def res_simps)

lemma time_validate_meet_left:
  "time_validate (time_meet (time_meet s t) u) = Inr () \<Longrightarrow> time_validate (time_meet s t) = Inr ()"
  by (simp add: time_validate_def time_meet_def not_le split: if_splits)

lemma time_meet_commute: "time_meet s t = time_meet t s"
  by (simp add: time_meet_def max.commute min.commute)

lemma time_meet_assoc: "time_meet (time_meet s t) u = time_meet s (time_meet t u)"
  by (simp add: time_meet_def max.assoc min.assoc)

lemma constraints_meet_commute:
  assumes "constraints_validate a = Inr ()" and "constraints_validate b = Inr ()"
    and "ac_environment a = ac_environment b"
  shows "constraints_meet a b = constraints_meet b a"
proof -
  have "uses_meet (ac_uses a) (ac_uses b) = uses_meet (ac_uses b) (ac_uses a)"
    using assms by (simp add: uses_meet_def constraints_validate_Ok capacity.meet_commute
        bytes.meet_commute)
  then show ?thesis
    using assms by (auto simp: constraints_meet_def constraints_validate_Ok time_meet_commute
        network.meet_commute spend.meet_commute)
qed

lemma constraints_meet_assoc:
  assumes "constraints_validate a = Inr ()" and "constraints_validate b = Inr ()"
    and "constraints_validate c = Inr ()"
  shows "constraints_meet (constraints_meet a b) c = constraints_meet a (constraints_meet b c)"
  using assms
  by (auto simp: constraints_meet_def uses_meet_def constraints_validate_Ok time_meet_assoc
      capacity.meet_assoc bytes.meet_assoc network.meet_assoc spend.meet_assoc)

lemma intersect_valid_core:
  "constraints_intersect a b = Inr c \<Longrightarrow> constraints_validate c = Inr ()"
  by (auto simp: constraints_intersect_Ok constraints_validate_Ok constraints_meet_def
      uses_meet_def intro: capacity.ok_meet bytes.ok_meet network.ok_meet spend.ok_meet)

lemma intersect_permits_core:
  assumes "constraints_intersect a b = Inr c"
  shows "constraints_permit c q \<longleftrightarrow> constraints_permit a q \<and> constraints_permit b q"
proof -
  have ok: "constraints_validate a = Inr ()" "constraints_validate b = Inr ()"
    and env: "ac_environment a = ac_environment b" and c: "c = constraints_meet a b"
    using assms by (auto simp: constraints_intersect_Ok)
  show ?thesis
    using ok env unfolding c constraints_permit_def constraints_validate_Ok constraints_meet_def
    by (auto simp: uses_meet_def time.permits_meet capacity.permits_meet bytes.permits_meet
        network.permits_meet spend.permits_meet)
qed

lemma intersect_commute_core:
  "constraints_intersect a b = Inr c \<Longrightarrow> constraints_intersect b a = Inr c"
  by (auto simp: constraints_intersect_Ok time_meet_commute constraints_meet_commute)

text \<open>Both bracketings succeed under the same condition and give the same record.\<close>

lemma intersect_chain_iff:
  "(\<exists>d. constraints_intersect a b = Inr d \<and> constraints_intersect d c = Inr e) \<longleftrightarrow>
     constraints_validate a = Inr () \<and> constraints_validate b = Inr ()
     \<and> constraints_validate c = Inr ()
     \<and> ac_environment a = ac_environment b \<and> ac_environment b = ac_environment c
     \<and> time_validate (time_meet (ac_time a) (time_meet (ac_time b) (ac_time c))) = Inr ()
     \<and> e = constraints_meet a (constraints_meet b c)"
  (is "?L \<longleftrightarrow> ?R")
proof
  assume ?L
  then show ?R
    by (auto simp: constraints_intersect_Ok constraints_meet_assoc time_meet_assoc [symmetric])
      (auto simp: constraints_meet_def)
next
  assume R: ?R
  then have "time_validate (time_meet (ac_time a) (ac_time b)) = Inr ()"
    using time_validate_meet_left [of "ac_time a" "ac_time b" "ac_time c"]
    by (simp add: time_meet_assoc)
  with R have d: "constraints_intersect a b = Inr (constraints_meet a b)"
    by (auto simp: constraints_intersect_Ok)
  have "constraints_intersect (constraints_meet a b) c = Inr e"
    using R intersect_valid_core [OF d]
    by (auto simp: constraints_intersect_Ok constraints_meet_assoc)
      (auto simp: constraints_meet_def time_meet_assoc)
  with d show ?L by blast
qed

lemma intersect_chain_right_iff:
  "(\<exists>d. constraints_intersect b c = Inr d \<and> constraints_intersect a d = Inr e) \<longleftrightarrow>
     (\<exists>d. constraints_intersect c b = Inr d \<and> constraints_intersect d a = Inr e)"
  using intersect_commute_core by blast

lemma intersect_assoc_core:
  "(\<exists>d. constraints_intersect a b = Inr d \<and> constraints_intersect d c = Inr e) \<longleftrightarrow>
   (\<exists>d. constraints_intersect b c = Inr d \<and> constraints_intersect a d = Inr e)"
proof -
  have "constraints_meet a (constraints_meet b c) = constraints_meet c (constraints_meet b a)"
    if "constraints_validate a = Inr ()" "constraints_validate b = Inr ()"
      "constraints_validate c = Inr ()" "ac_environment a = ac_environment b"
      "ac_environment b = ac_environment c"
      "time_validate (time_meet (ac_time a) (time_meet (ac_time b) (ac_time c))) = Inr ()"
  proof -
    have bc: "constraints_intersect b c = Inr (constraints_meet b c)"
      using that time_validate_meet_left [of "ac_time b" "ac_time c" "ac_time a"]
      by (simp add: constraints_intersect_Ok time_meet_commute)
    have "constraints_meet a (constraints_meet b c) = constraints_meet (constraints_meet b c) a"
      using that intersect_valid_core [OF bc]
      by (intro constraints_meet_commute) (auto simp: constraints_meet_def)
    also have "\<dots> = constraints_meet (constraints_meet c b) a"
      using that by (simp add: constraints_meet_commute)
    also have "\<dots> = constraints_meet c (constraints_meet b a)"
      using that by (simp add: constraints_meet_assoc)
    finally show ?thesis .
  qed
  moreover have "time_meet (ac_time a) (time_meet (ac_time b) (ac_time c)) =
      time_meet (ac_time c) (time_meet (ac_time b) (ac_time a))"
    by (metis time_meet_assoc time_meet_commute)
  ultimately show ?thesis
    unfolding intersect_chain_right_iff intersect_chain_iff [of a] intersect_chain_iff [of c]
    by metis
qed

end
