(* ===== verification/Authority_Schema.thy ===== *)
theory Authority_Schema
  imports Authority_Network
begin

text \<open>
  \<open>phantom-authority/src/schema.rs\<close> and \<open>verifier.rs\<close>: the untrusted description of an
  action, the authority subject it must bind to, and the only constructor of a
  \<open>VerifiedGrant\<close>.
\<close>

definition AUTHORITY_SCHEMA_VERSION :: u32 where
  "AUTHORITY_SCHEMA_VERSION = 1"

datatype schema_error =
  UnsupportedVersion u32
| InvalidProvider
| InvalidAuthorityLabel
| InvalidAuthorityGeneration
| OperationConstraintMismatch
| InvalidConstraints constraint_error

record action_intent =
  ai_schema_version :: u32
  ai_action_id :: action_id
  ai_workspace_id :: workspace_id
  ai_workspace_manifest_sha256 :: sha256_digest
  ai_operation :: operation
  ai_provider :: "string option"
  ai_canonical_args_sha256 :: sha256_digest
  ai_requested_at :: u64
  ai_constraints :: authority_constraints

definition provider_invalid :: "string \<Rightarrow> bool" where
  "provider_invalid p =
     (p = [] \<or> length p > 64
      \<or> \<not> list_all (\<lambda>b. is_ascii_alphanumeric b \<or> b = CHR ''-'' \<or> b = CHR ''_'') p)"

definition network_denied :: "network_constraints \<Rightarrow> bool" where
  "network_denied n =
     (nc_schemes n = Denied \<and> nc_hosts n = Denied \<and> nc_ports n = Denied
      \<and> nc_methods n = Denied \<and> nc_path_prefixes n = Denied)"

definition intent_validate :: "action_intent \<Rightarrow> (unit, schema_error) result" where
  "intent_validate i =
     (if ai_schema_version i \<noteq> AUTHORITY_SCHEMA_VERSION
      then Err (UnsupportedVersion (ai_schema_version i))
      else if (case ai_provider i of None \<Rightarrow> False | Some p \<Rightarrow> provider_invalid p)
      then Err InvalidProvider
      else and_then (map_err InvalidConstraints (constraints_validate (ai_constraints i))) (\<lambda>_.
        let c = ai_constraints i;
            expected_read_only = (ai_operation i \<in> {Capability, InspectWorkspace})
        in if ac_read_only c \<noteq> expected_read_only then Err OperationConstraintMismatch
           else if ai_operation i = Share
           then (if ai_provider i = None
                    \<or> network_denied (ac_network c)
                    \<or> uc_capacity (ac_uses c) = CapacityDenied
                    \<or> uc_max_request_bytes (ac_uses c) = BytesDenied
                    \<or> uc_max_response_bytes (ac_uses c) = BytesDenied
                    \<or> \<not> spend_is_forbidden (ac_spend c)
                 then Err OperationConstraintMismatch else Ok ())
           else (if ai_provider i \<noteq> None
                    \<or> \<not> network_denied (ac_network c)
                    \<or> \<not> spend_is_forbidden (ac_spend c)
                 then Err OperationConstraintMismatch else Ok ())))"

record expected_authority =
  ea_schema_version :: u32
  ea_workspace_id :: workspace_id
  ea_workspace_manifest_sha256 :: sha256_digest
  ea_place_id :: place_id
  ea_binding_id :: binding_id
  ea_tenant_id :: string
  ea_principal_id :: string
  ea_role :: string
  ea_environment :: string
  ea_vault_namespace_id :: vault_namespace_id
  ea_installation_id :: installation_id
  ea_session_id :: session_id
  ea_authority_epoch :: string
  ea_session_generation :: u64
  ea_session_subject_sha256 :: sha256_digest
  ea_policy_sha256 :: sha256_digest

definition is_label :: "string \<Rightarrow> bool" where
  "is_label v =
     (v \<noteq> [] \<and> length v \<le> 128
      \<and> list_all (\<lambda>b. is_ascii_alphanumeric b \<or> b = CHR ''-'' \<or> b = CHR ''_'' \<or> b = CHR ''.'') v)"

definition authority_validate :: "expected_authority \<Rightarrow> (unit, schema_error) result" where
  "authority_validate e =
     (if ea_schema_version e \<noteq> AUTHORITY_SCHEMA_VERSION
      then Err (UnsupportedVersion (ea_schema_version e))
      else if \<not> is_label (ea_tenant_id e) \<or> \<not> is_label (ea_principal_id e)
        \<or> \<not> is_label (ea_role e) \<or> \<not> is_label (ea_environment e)
      then Err InvalidAuthorityLabel
      else if length (ea_authority_epoch e) \<noteq> 32
        \<or> \<not> list_all is_lower_hex (ea_authority_epoch e)
        \<or> ea_session_generation e = 0
      then Err InvalidAuthorityGeneration
      else Ok ())"

subsection \<open>Verified grants\<close>

datatype authority_error =
  AuthorityUnavailable | SubjectMismatch | AuthorityExpired | AuthorityReplay | VerbDenied

record verified_grant =
  vg_grant_id :: grant_id
  vg_action_id :: action_id
  vg_operation :: operation
  vg_authority :: expected_authority
  vg_constraints :: authority_constraints
  vg_canonical_args_sha256 :: sha256_digest
  vg_verified_at :: u64

definition deny_all_verify ::
  "action_intent \<Rightarrow> expected_authority \<Rightarrow> u64 \<Rightarrow> (verified_grant, authority_error) result" where
  "deny_all_verify intent expected now = Err AuthorityUnavailable"

definition grant_from_verified ::
  "grant_id \<Rightarrow> action_intent \<Rightarrow> expected_authority \<Rightarrow> authority_constraints \<Rightarrow> u64
     \<Rightarrow> (verified_grant, authority_error) result" where
  "grant_from_verified gid intent authority constraints verified_at =
     and_then (map_err (\<lambda>_. VerbDenied) (intent_validate intent)) (\<lambda>_.
     and_then (map_err (\<lambda>_. SubjectMismatch) (authority_validate authority)) (\<lambda>_.
       if ai_workspace_id intent \<noteq> ea_workspace_id authority
          \<or> ai_workspace_manifest_sha256 intent \<noteq> ea_workspace_manifest_sha256 authority
          \<or> ac_environment (ai_constraints intent) \<noteq> ea_environment authority
       then Err SubjectMismatch
       else and_then (map_err (\<lambda>_. SubjectMismatch)
                        (constraints_intersect (ai_constraints intent) constraints)) (\<lambda>c.
         if ac_read_only c \<noteq> ac_read_only (ai_constraints intent) then Err SubjectMismatch
         else if \<not> time_active_at (ac_time c) verified_at then Err AuthorityExpired
         else Ok \<lparr>vg_grant_id = gid,
                 vg_action_id = ai_action_id intent,
                 vg_operation = ai_operation intent,
                 vg_authority = authority,
                 vg_constraints = c,
                 vg_canonical_args_sha256 = ai_canonical_args_sha256 intent,
                 vg_verified_at = verified_at\<rparr>)))"

subsection \<open>Facts about validated intents and grants\<close>

lemma intent_validate_Ok:
  "intent_validate i = Inr u \<longleftrightarrow>
     ai_schema_version i = AUTHORITY_SCHEMA_VERSION
     \<and> (\<forall>p. ai_provider i = Some p \<longrightarrow> \<not> provider_invalid p)
     \<and> constraints_validate (ai_constraints i) = Inr ()
     \<and> ac_read_only (ai_constraints i) = (ai_operation i \<in> {Capability, InspectWorkspace})
     \<and> spend_is_forbidden (ac_spend (ai_constraints i))
     \<and> (if ai_operation i = Share
        then ai_provider i \<noteq> None \<and> \<not> network_denied (ac_network (ai_constraints i))
          \<and> uc_capacity (ac_uses (ai_constraints i)) \<noteq> CapacityDenied
          \<and> uc_max_request_bytes (ac_uses (ai_constraints i)) \<noteq> BytesDenied
          \<and> uc_max_response_bytes (ac_uses (ai_constraints i)) \<noteq> BytesDenied
        else ai_provider i = None \<and> network_denied (ac_network (ai_constraints i)))"
  by (auto simp: intent_validate_def res_simps Let_def split: option.splits)

lemma authority_validate_Ok:
  "authority_validate e = Inr u \<longleftrightarrow>
     ea_schema_version e = AUTHORITY_SCHEMA_VERSION
     \<and> is_label (ea_tenant_id e) \<and> is_label (ea_principal_id e) \<and> is_label (ea_role e)
     \<and> is_label (ea_environment e) \<and> length (ea_authority_epoch e) = 32
     \<and> list_all is_lower_hex (ea_authority_epoch e) \<and> ea_session_generation e \<noteq> 0"
  by (auto simp: authority_validate_def)

lemma read_only_effect:
  "operation_effect_class op \<in> {Inspect, LocalRead} \<longleftrightarrow> op \<in> {Capability, InspectWorkspace}"
  by (cases op) auto

lemma network_denied_permits: "network_denied n \<Longrightarrow> \<not> network_permits n q"
  by (auto simp: network_denied_def network_permits_def scope_permits_def split: prod.splits)

lemma forbidden_spend_permits:
  "spend_validate s = Inr () \<Longrightarrow> spend_is_forbidden s \<Longrightarrow> \<not> spend_permits s p"
  by (auto simp: spend_validate_def spend_is_forbidden_def spend_permits_def
      split: option.splits prod.splits if_splits)

lemma grant_from_verified_Ok:
  "grant_from_verified gid i a k now = Inr g \<longleftrightarrow>
     intent_validate i = Inr () \<and> authority_validate a = Inr ()
     \<and> ai_workspace_id i = ea_workspace_id a
     \<and> ai_workspace_manifest_sha256 i = ea_workspace_manifest_sha256 a
     \<and> ac_environment (ai_constraints i) = ea_environment a
     \<and> (\<exists>c. constraints_intersect (ai_constraints i) k = Inr c
          \<and> ac_read_only c = ac_read_only (ai_constraints i) \<and> time_active_at (ac_time c) now
          \<and> g = \<lparr>vg_grant_id = gid, vg_action_id = ai_action_id i,
                 vg_operation = ai_operation i, vg_authority = a, vg_constraints = c,
                 vg_canonical_args_sha256 = ai_canonical_args_sha256 i, vg_verified_at = now\<rparr>)"
  by (auto simp: grant_from_verified_def res_simps)

end
