(* ===== verification/Broker_Lease.thy ===== *)
theory Broker_Lease
  imports Authority_Schema
begin

text \<open>
  \<open>phantom-broker/src/lease.rs\<close>: the value-free binding of one prospective lease, built
  from a verified grant, and its validation.
\<close>

record lease_binding =
  lb_lease_id :: lease_id
  lb_grant_id :: grant_id
  lb_action_id :: action_id
  lb_operation :: operation
  lb_expected_authority :: expected_authority
  lb_canonical_args_sha256 :: sha256_digest
  lb_broker_generation :: u64
  lb_constraints :: authority_constraints

datatype lease_binding_error =
  LeaseInvalidAuthority schema_error
| LeaseInvalidConstraints constraint_error
| LeaseInvalidBrokerGeneration
| LeaseEnvironmentMismatch
| LeaseNoUsableCapacity
| LeaseOperationConstraintMismatch

definition lease_validate :: "lease_binding \<Rightarrow> (unit, lease_binding_error) result" where
  "lease_validate b =
     and_then (map_err LeaseInvalidAuthority (authority_validate (lb_expected_authority b))) (\<lambda>_.
     and_then (map_err LeaseInvalidConstraints (constraints_validate (lb_constraints b))) (\<lambda>_.
       if lb_broker_generation b = 0 then Err LeaseInvalidBrokerGeneration
       else if ac_environment (lb_constraints b) \<noteq> ea_environment (lb_expected_authority b)
       then Err LeaseEnvironmentMismatch
       else if uc_capacity (ac_uses (lb_constraints b)) = CapacityDenied
       then Err LeaseNoUsableCapacity
       else if ac_read_only (lb_constraints b) \<noteq>
               (operation_effect_class (lb_operation b) \<in> {Inspect, LocalRead})
       then Err LeaseOperationConstraintMismatch
       else Ok ()))"

definition lease_from_verified ::
  "lease_id \<Rightarrow> verified_grant \<Rightarrow> u64 \<Rightarrow> (lease_binding, lease_binding_error) result" where
  "lease_from_verified lid g generation =
     (let binding = \<lparr>lb_lease_id = lid, lb_grant_id = vg_grant_id g, lb_action_id = vg_action_id g,
          lb_operation = vg_operation g, lb_expected_authority = vg_authority g,
          lb_canonical_args_sha256 = vg_canonical_args_sha256 g,
          lb_broker_generation = generation, lb_constraints = vg_constraints g\<rparr>
      in and_then (lease_validate binding) (\<lambda>_. Ok binding))"

definition lease_active_at :: "lease_binding \<Rightarrow> u64 \<Rightarrow> bool" where
  "lease_active_at b now = time_active_at (ac_time (lb_constraints b)) now"

lemma lease_validate_Ok:
  "lease_validate b = Inr u \<longleftrightarrow>
     authority_validate (lb_expected_authority b) = Inr ()
     \<and> constraints_validate (lb_constraints b) = Inr ()
     \<and> lb_broker_generation b \<noteq> 0
     \<and> ac_environment (lb_constraints b) = ea_environment (lb_expected_authority b)
     \<and> uc_capacity (ac_uses (lb_constraints b)) \<noteq> CapacityDenied
     \<and> ac_read_only (lb_constraints b)
        = (operation_effect_class (lb_operation b) \<in> {Inspect, LocalRead})"
  by (auto simp: lease_validate_def res_simps)

lemma lease_validate_capacity:
  assumes "lease_validate b = Inr ()"
  obtains u c where "uc_capacity (ac_uses (lb_constraints b)) = CapacityBounded u c"
    and "0 < u" and "0 < c"
  using assms
  by (cases "uc_capacity (ac_uses (lb_constraints b))")
    (auto simp: lease_validate_Ok constraints_validate_Ok word_gt_0 split: if_splits)

lemma lease_from_verified_Ok:
  "lease_from_verified lid g n = Inr b \<longleftrightarrow>
     lease_validate b = Inr ()
     \<and> b = \<lparr>lb_lease_id = lid, lb_grant_id = vg_grant_id g, lb_action_id = vg_action_id g,
          lb_operation = vg_operation g, lb_expected_authority = vg_authority g,
          lb_canonical_args_sha256 = vg_canonical_args_sha256 g,
          lb_broker_generation = n, lb_constraints = vg_constraints g\<rparr>"
  by (auto simp: lease_from_verified_def Let_def res_simps)

end
