(* ===== verification/Authority_Claims.thy ===== *)
theory Authority_Claims
  imports Broker_Lease
begin

text \<open>
  What the authority layer guarantees end to end: the least-authority algebra of
  constraint records, the closed shape of validated intents, and the chain from an intent
  to a lease binding.  The samples are concrete records the witnesses evaluate.
\<close>

subsection \<open>Sample records\<close>

definition sample_hex :: string where
  "sample_hex = ''0123456789abcdef0123456789abcdef''"

definition sample_digest :: sha256_digest where
  "sample_digest = Sha256Digest (sample_hex @ sample_hex)"

definition sample_network :: network_constraints where
  "sample_network =
     \<lparr>nc_schemes = Exact [Https], nc_hosts = Exact [''api.example.com'', ''example.com''],
      nc_ports = Exact [443], nc_methods = Exact [Get, Post],
      nc_path_prefixes = Exact [''/v1'', ''/v2/items''], nc_allow_redirects = False\<rparr>"

definition no_network :: network_constraints where
  "no_network =
     \<lparr>nc_schemes = Denied, nc_hosts = Denied, nc_ports = Denied, nc_methods = Denied,
      nc_path_prefixes = Denied, nc_allow_redirects = False\<rparr>"

definition sample_uses :: use_constraints where
  "sample_uses =
     \<lparr>uc_capacity = CapacityBounded 2 1, uc_max_request_bytes = BytesBounded 1024,
      uc_max_response_bytes = BytesBounded 4096\<rparr>"

definition sample_share_constraints :: authority_constraints where
  "sample_share_constraints =
     \<lparr>ac_environment = ''dev'', ac_read_only = False,
      ac_time = \<lparr>tc_not_before = 10, tc_expires_at = 100\<rparr>, ac_uses = sample_uses,
      ac_network = sample_network, ac_spend = spend_forbidden\<rparr>"

definition sample_grant_constraints :: authority_constraints where
  "sample_grant_constraints = sample_share_constraints
     \<lparr>ac_time := \<lparr>tc_not_before = 20, tc_expires_at = 200\<rparr>,
      ac_network := sample_network
        \<lparr>nc_hosts := Exact [''example.com''], nc_path_prefixes := Exact [''/v2/'']\<rparr>\<rparr>"

definition sample_query :: authority_query where
  "sample_query =
     \<lparr>q_environment = ''dev'', q_writes = True, q_now = 15, q_use = (1, 1),
      q_request_bytes = 10, q_response_bytes = 10, q_network = None, q_spend = None\<rparr>"

definition sample_local_constraints :: authority_constraints where
  "sample_local_constraints = sample_share_constraints\<lparr>ac_network := no_network\<rparr>"

definition sample_intent :: action_intent where
  "sample_intent =
     \<lparr>ai_schema_version = 1, ai_action_id = ActionId (''act_'' @ sample_hex),
      ai_workspace_id = WorkspaceId (''wrk_'' @ sample_hex),
      ai_workspace_manifest_sha256 = sample_digest, ai_operation = RunEngineeringCheck,
      ai_provider = None, ai_canonical_args_sha256 = sample_digest, ai_requested_at = 15,
      ai_constraints = sample_local_constraints\<rparr>"

definition sample_share_intent :: action_intent where
  "sample_share_intent = sample_intent
     \<lparr>ai_operation := Share, ai_provider := Some ''github'',
      ai_constraints := sample_share_constraints\<rparr>"

definition sample_authority :: expected_authority where
  "sample_authority =
     \<lparr>ea_schema_version = 1, ea_workspace_id = WorkspaceId (''wrk_'' @ sample_hex),
      ea_workspace_manifest_sha256 = sample_digest,
      ea_place_id = PlaceId (''plc_'' @ sample_hex),
      ea_binding_id = BindingId (''bnd_'' @ sample_hex), ea_tenant_id = ''acme'',
      ea_principal_id = ''agent.1'', ea_role = ''dev'', ea_environment = ''dev'',
      ea_vault_namespace_id = VaultNamespaceId (''vlt_'' @ sample_hex),
      ea_installation_id = InstallationId (''ins_'' @ sample_hex),
      ea_session_id = SessionId (''ses_'' @ sample_hex), ea_authority_epoch = sample_hex,
      ea_session_generation = 1, ea_session_subject_sha256 = sample_digest,
      ea_policy_sha256 = sample_digest\<rparr>"

definition sample_grant_id :: grant_id where
  "sample_grant_id = GrantId (''grt_'' @ sample_hex)"

definition sample_grant :: verified_grant where
  "sample_grant =
     \<lparr>vg_grant_id = sample_grant_id, vg_action_id = ActionId (''act_'' @ sample_hex),
      vg_operation = RunEngineeringCheck, vg_authority = sample_authority,
      vg_constraints = sample_local_constraints, vg_canonical_args_sha256 = sample_digest,
      vg_verified_at = 50\<rparr>"

lemma sample_share_valid: "constraints_validate sample_share_constraints = Ok ()"
  by code_simp

lemma sample_grant_valid: "constraints_validate sample_grant_constraints = Ok ()"
  by code_simp

lemma sample_grant_ok:
  "grant_from_verified sample_grant_id sample_intent sample_authority sample_local_constraints 50
     = Ok sample_grant"
  by code_simp


definition sample_binding :: lease_binding where
  "sample_binding =
     \<lparr>lb_lease_id = LeaseId (''lea_'' @ sample_hex), lb_grant_id = sample_grant_id,
      lb_action_id = ActionId (''act_'' @ sample_hex), lb_operation = RunEngineeringCheck,
      lb_expected_authority = sample_authority, lb_canonical_args_sha256 = sample_digest,
      lb_broker_generation = 1, lb_constraints = sample_local_constraints\<rparr>"

lemma sample_local_valid: "constraints_validate sample_local_constraints = Ok ()"
  by code_simp

lemma sample_authority_valid: "authority_validate sample_authority = Ok ()"
  by code_simp

lemma sample_binding_valid: "lease_validate sample_binding = Ok ()"
proof -
  have "ac_environment sample_local_constraints = ea_environment sample_authority"
    and "uc_capacity (ac_uses sample_local_constraints) = CapacityBounded 2 1"
    and "\<not> ac_read_only sample_local_constraints"
    by (simp_all add: sample_local_constraints_def sample_share_constraints_def
        sample_authority_def sample_uses_def)
  then show ?thesis
    using sample_local_valid sample_authority_valid
    by (simp add: lease_validate_Ok sample_binding_def)
qed

subsection \<open>The least-authority algebra\<close>

text \<open>
  C3. Intersecting two grants never adds authority and loses none that both share: the
  result is valid and permits exactly the requests both sides permit.
\<close>

theorem intersect_least_authority:
  assumes "constraints_intersect a b = Ok c"
  shows "constraints_validate c = Ok ()
    \<and> (\<forall>q. constraints_permit c q \<longleftrightarrow> constraints_permit a q \<and> constraints_permit b q)"
  using assms intersect_valid_core intersect_permits_core by blast

theorem intersect_least_authority_witness:
  "\<exists>c. constraints_intersect sample_share_constraints sample_grant_constraints = Ok c
     \<and> constraints_validate c = Ok ()
     \<and> \<not> constraints_permit c sample_query"
proof -
  have "is_ok (constraints_intersect sample_share_constraints sample_grant_constraints)"
    by code_simp
  then obtain c where c: "constraints_intersect sample_share_constraints sample_grant_constraints = Ok c"
    by (auto simp: is_ok_iff)
  have "\<not> constraints_permit sample_grant_constraints sample_query"
    by (simp add: constraints_permit_def sample_grant_constraints_def sample_query_def
        time_active_at_def)
  then show ?thesis
    using c intersect_least_authority [OF c] by blast
qed

text \<open>
  The order in which grants are combined does not matter: intersection of constraint
  records is commutative and associative as a partial operation, so a chain of delegations
  yields one result whichever way it is bracketed.
\<close>

theorem intersect_order_independent:
  "(constraints_intersect a b = Ok d \<longleftrightarrow> constraints_intersect b a = Ok d)
   \<and> (and_then (constraints_intersect a b) (\<lambda>x. constraints_intersect x c) = Ok e \<longleftrightarrow>
      and_then (constraints_intersect b c) (\<lambda>x. constraints_intersect a x) = Ok e)"
  using intersect_commute_core [of a b d] intersect_commute_core [of b a d]
    intersect_assoc_core [of a b c e]
  unfolding and_then_Ok by blast

subsection \<open>Validated intents\<close>

text \<open>
  A validated intent is confined by its operation: nothing may ever be spent, only
  \<open>Share\<close> may touch the network and then it names a provider and has usable limits, and an
  intent is read-only exactly when its effect class only inspects or reads.
\<close>

theorem validated_intent_confined:
  assumes "intent_validate i = Ok ()"
  shows "(\<forall>p. \<not> spend_permits (ac_spend (ai_constraints i)) p)
    \<and> (\<forall>n. network_permits (ac_network (ai_constraints i)) n \<longrightarrow>
         ai_operation i = Share \<and> ai_provider i \<noteq> None
         \<and> operation_effect_class (ai_operation i) = ExternalWrite)
    \<and> (ac_read_only (ai_constraints i) \<longleftrightarrow>
         operation_effect_class (ai_operation i) \<in> {Inspect, LocalRead})"
proof (intro conjI allI impI)
  show "\<not> spend_permits (ac_spend (ai_constraints i)) p" for p
    using assms by (auto simp: intent_validate_Ok constraints_validate_Ok
        dest: forbidden_spend_permits)
  show "ac_read_only (ai_constraints i) \<longleftrightarrow>
      operation_effect_class (ai_operation i) \<in> {Inspect, LocalRead}"
    using assms by (simp only: intent_validate_Ok read_only_effect)
  fix n
  assume "network_permits (ac_network (ai_constraints i)) n"
  then have "\<not> network_denied (ac_network (ai_constraints i))"
    using network_denied_permits by blast
  then have *: "ai_operation i = Share" "ai_provider i \<noteq> None"
    using assms by (auto simp: intent_validate_Ok split: if_splits)
  then show "ai_operation i = Share" "ai_provider i \<noteq> None"
    "operation_effect_class (ai_operation i) = ExternalWrite" by auto
qed

theorem validated_intent_confined_witness:
  "intent_validate sample_share_intent = Ok ()
   \<and> network_permits sample_network (Https, ''example.com'', 443, Get, ''/v1/users'')
   \<and> \<not> ac_read_only (ai_constraints sample_share_intent)"
proof -
  have v: "intent_validate sample_share_intent = Ok ()" by code_simp
  have n: "network_permits sample_network (Https, ''example.com'', 443, Get, ''/v1/users'')"
    by code_simp
  have "ai_operation sample_share_intent = Share"
    by (simp add: sample_share_intent_def)
  then show ?thesis using v n validated_intent_confined [OF v] by simp
qed

subsection \<open>From intent to grant to lease\<close>

text \<open>
  C36. A verified grant is bound to its intent and never exceeds it or the verifier's own
  constraints: it names the intent's action, operation and argument digest, its subject is
  valid and agrees on workspace, manifest and environment, it is active when verified, and
  it permits a request exactly when both constraint records do.
\<close>

theorem verified_grant_bound:
  assumes "grant_from_verified gid i a k now = Ok g"
  shows "vg_action_id g = ai_action_id i \<and> vg_operation g = ai_operation i
    \<and> vg_canonical_args_sha256 g = ai_canonical_args_sha256 i
    \<and> authority_validate (vg_authority g) = Ok ()
    \<and> ea_workspace_id (vg_authority g) = ai_workspace_id i
    \<and> ea_workspace_manifest_sha256 (vg_authority g) = ai_workspace_manifest_sha256 i
    \<and> ea_environment (vg_authority g) = ac_environment (vg_constraints g)
    \<and> time_active_at (ac_time (vg_constraints g)) now
    \<and> (\<forall>q. constraints_permit (vg_constraints g) q \<longleftrightarrow>
          constraints_permit (ai_constraints i) q \<and> constraints_permit k q)"
proof -
  obtain c where c: "constraints_intersect (ai_constraints i) k = Ok c"
    and active: "time_active_at (ac_time c) now"
    and g: "g = \<lparr>vg_grant_id = gid, vg_action_id = ai_action_id i,
                 vg_operation = ai_operation i, vg_authority = a, vg_constraints = c,
                 vg_canonical_args_sha256 = ai_canonical_args_sha256 i, vg_verified_at = now\<rparr>"
    and rest: "authority_validate a = Ok ()" "ai_workspace_id i = ea_workspace_id a"
      "ai_workspace_manifest_sha256 i = ea_workspace_manifest_sha256 a"
      "ac_environment (ai_constraints i) = ea_environment a"
    using assms by (auto simp: grant_from_verified_Ok)
  have "ac_environment c = ac_environment (ai_constraints i)"
    using c by (auto simp: constraints_intersect_Ok constraints_meet_def)
  then show ?thesis
    using g active rest intersect_permits_core [OF c] by simp
qed

theorem verified_grant_bound_witness:
  "grant_from_verified sample_grant_id sample_intent sample_authority sample_local_constraints 50
     = Ok sample_grant
   \<and> ea_workspace_id (vg_authority sample_grant) = ai_workspace_id sample_intent"
  using sample_grant_ok verified_grant_bound [OF sample_grant_ok] by blast

text \<open>
  The two layers agree on what is usable: a lease binding built from a verified grant
  is accepted exactly when the broker generation is not zero and the intersected grant kept
  a use capacity; no other lease check can fail for a verified grant.
\<close>

theorem verified_grant_leases:
  assumes "grant_from_verified gid i a k now = Ok g"
  shows "is_ok (lease_from_verified lid g n) \<longleftrightarrow>
    n \<noteq> 0 \<and> uc_capacity (ac_uses (vg_constraints g)) \<noteq> CapacityDenied"
proof -
  obtain c where c: "constraints_intersect (ai_constraints i) k = Ok c"
    and ro: "ac_read_only c = ac_read_only (ai_constraints i)"
    and g: "vg_authority g = a" "vg_constraints g = c" "vg_operation g = ai_operation i"
    and rest: "authority_validate a = Ok ()" "intent_validate i = Ok ()"
      "ac_environment (ai_constraints i) = ea_environment a"
    using assms by (auto simp: grant_from_verified_Ok)
  have "constraints_validate c = Ok ()" using c by (rule intersect_valid_core)
  moreover have "ac_environment c = ea_environment a"
    using c rest(3) by (auto simp: constraints_intersect_Ok constraints_meet_def)
  moreover have "ac_read_only c = (operation_effect_class (ai_operation i) \<in> {Inspect, LocalRead})"
    using ro rest(2) by (simp only: intent_validate_Ok read_only_effect)
  ultimately show ?thesis
    using g rest(1) by (auto simp: is_ok_iff lease_from_verified_Ok lease_validate_Ok)
qed

theorem verified_grant_leases_witness:
  "is_ok (lease_from_verified (LeaseId (''lea_'' @ sample_hex)) sample_grant 1)
   \<and> \<not> is_ok (lease_from_verified (LeaseId (''lea_'' @ sample_hex)) sample_grant 0)"
  using verified_grant_leases [OF sample_grant_ok]
  by (simp add: sample_grant_def sample_local_constraints_def sample_share_constraints_def
      sample_uses_def)

end
