(* ===== verification/Broker_Lifecycle.thy ===== *)
theory Broker_Lifecycle
  imports Authority_Ids
begin

text \<open>
  \<open>phantom-broker/src/lifecycle.rs\<close>: the closed state machine of one request, advanced by
  compare-and-swap on its state and generation.
\<close>

datatype request_state =
  Draft | AwaitingAuthority | StDenied | StExpired | StCancelled | GrantReserved
| LeaseActive | Executing | StCompleted | StFailed | StRevoked

definition is_terminal :: "request_state \<Rightarrow> bool" where
  "is_terminal s =
     (s \<in> {StDenied, StExpired, StCancelled, StCompleted, StFailed, StRevoked})"

fun can_transition_to :: "request_state \<Rightarrow> request_state \<Rightarrow> bool" where
  "can_transition_to Draft n = (n \<in> {AwaitingAuthority, StCancelled})"
| "can_transition_to AwaitingAuthority n =
     (n \<in> {StDenied, StExpired, StCancelled, GrantReserved})"
| "can_transition_to GrantReserved n =
     (n \<in> {LeaseActive, StDenied, StExpired, StCancelled, StFailed, StRevoked})"
| "can_transition_to LeaseActive n =
     (n \<in> {Executing, StExpired, StCancelled, StFailed, StRevoked})"
| "can_transition_to Executing n = (n \<in> {StCompleted, StFailed, StRevoked})"
| "can_transition_to StDenied n = False"
| "can_transition_to StExpired n = False"
| "can_transition_to StCancelled n = False"
| "can_transition_to StCompleted n = False"
| "can_transition_to StFailed n = False"
| "can_transition_to StRevoked n = False"

record request_lifecycle =
  rl_action_id :: action_id
  rl_state :: request_state
  rl_generation :: u64

datatype lifecycle_error =
  StaleGeneration request_state u64
| InvalidTransition request_state request_state
| GenerationExhausted

definition lifecycle_new :: "action_id \<Rightarrow> request_lifecycle" where
  "lifecycle_new a = \<lparr>rl_action_id = a, rl_state = Draft, rl_generation = 0\<rparr>"

definition compare_and_swap ::
  "request_lifecycle \<Rightarrow> request_state \<Rightarrow> u64 \<Rightarrow> request_state
     \<Rightarrow> (request_lifecycle, lifecycle_error) result" where
  "compare_and_swap l expected_state expected_generation next_state =
     (if rl_state l \<noteq> expected_state \<or> rl_generation l \<noteq> expected_generation
      then Err (StaleGeneration (rl_state l) (rl_generation l))
      else if \<not> can_transition_to (rl_state l) next_state
      then Err (InvalidTransition (rl_state l) next_state)
      else and_then (ok_or (checked_add (rl_generation l) 1) GenerationExhausted)
        (\<lambda>g. Ok (l\<lparr>rl_state := next_state, rl_generation := g\<rparr>)))"

subsection \<open>Steps and reachable lifecycles\<close>

inductive lifecycle_step :: "request_lifecycle \<Rightarrow> request_lifecycle \<Rightarrow> bool" where
  cas: "compare_and_swap l s g n = Ok l' \<Longrightarrow> lifecycle_step l l'"

inductive_simps lifecycle_step_iff: "lifecycle_step l l'"

inductive lifecycle_reachable :: "action_id \<Rightarrow> request_lifecycle \<Rightarrow> bool" for a where
  fresh: "lifecycle_reachable a (lifecycle_new a)"
| step: "lifecycle_reachable a l \<Longrightarrow> lifecycle_step l l' \<Longrightarrow> lifecycle_reachable a l'"

text \<open>The generations at which each state can be seen: the length of a path to it.\<close>

fun state_generations :: "request_state \<Rightarrow> u64 set" where
  "state_generations Draft = {0}"
| "state_generations AwaitingAuthority = {1}"
| "state_generations GrantReserved = {2}"
| "state_generations LeaseActive = {3}"
| "state_generations Executing = {4}"
| "state_generations StCompleted = {5}"
| "state_generations StDenied = {2, 3}"
| "state_generations StExpired = {2, 3, 4}"
| "state_generations StCancelled = {1, 2, 3, 4}"
| "state_generations StFailed = {3, 4, 5}"
| "state_generations StRevoked = {3, 4, 5}"

lemma compare_and_swap_Ok:
  "compare_and_swap l s g n = Ok l' \<longleftrightarrow>
     rl_state l = s \<and> rl_generation l = g \<and> can_transition_to s n
     \<and> (\<exists>g'. checked_add g 1 = Some g' \<and> l' = l\<lparr>rl_state := n, rl_generation := g'\<rparr>)"
  by (auto simp: compare_and_swap_def res_simps)

lemma can_transition_not_terminal: "can_transition_to s n \<Longrightarrow> \<not> is_terminal s"
  by (cases s) (auto simp: is_terminal_def)

lemma checked_add_one_small: "unat g < 5 \<Longrightarrow> checked_add (g :: u64) 1 = Some (g + 1)"
  by (simp add: checked_add_def)

lemma state_generations_step:
  assumes "g \<in> state_generations s" and "can_transition_to s n"
  shows "unat g < 5 \<and> g + 1 \<in> state_generations n"
  using assms by (cases s) auto

lemma lifecycle_reachable_generation:
  "lifecycle_reachable a l \<Longrightarrow> rl_action_id l = a \<and> rl_generation l \<in> state_generations (rl_state l)"
proof (induction rule: lifecycle_reachable.induct)
  case fresh
  show ?case by (simp add: lifecycle_new_def)
next
  case (step l l')
  from step(2) obtain n g' where n: "can_transition_to (rl_state l) n"
    and g': "checked_add (rl_generation l) 1 = Some g'"
    and l': "l' = l\<lparr>rl_state := n, rl_generation := g'\<rparr>"
    by (auto simp: lifecycle_step_iff compare_and_swap_Ok)
  with step state_generations_step [OF _ n] checked_add_one_small show ?case by auto
qed

lemma lifecycle_forward:
  assumes "lifecycle_reachable a \<lparr>rl_action_id = a, rl_state = s, rl_generation = g\<rparr>"
    and "can_transition_to s n" and "unat g < 5"
  shows "lifecycle_reachable a \<lparr>rl_action_id = a, rl_state = n, rl_generation = g + 1\<rparr>"
proof (rule lifecycle_reachable.step [OF assms(1)])
  show "lifecycle_step \<lparr>rl_action_id = a, rl_state = s, rl_generation = g\<rparr>
      \<lparr>rl_action_id = a, rl_state = n, rl_generation = g + 1\<rparr>"
    using assms(2,3) checked_add_one_small [of g]
    by (auto simp: lifecycle_step_iff compare_and_swap_Ok)
qed

abbreviation seen :: "action_id \<Rightarrow> request_state \<Rightarrow> u64 \<Rightarrow> bool" where
  "seen a s g \<equiv> lifecycle_reachable a \<lparr>rl_action_id = a, rl_state = s, rl_generation = g\<rparr>"

lemma seen_step: "seen a s g \<Longrightarrow> can_transition_to s n \<Longrightarrow> unat g < 5 \<Longrightarrow> h = g + 1 \<Longrightarrow> seen a n h"
  using lifecycle_forward by simp

lemma seen_main_path:
  shows "seen a Draft 0" and "seen a AwaitingAuthority 1" and "seen a GrantReserved 2"
    and "seen a LeaseActive 3" and "seen a Executing 4"
proof -
  show 0: "seen a Draft 0" using lifecycle_reachable.fresh [of a] by (simp add: lifecycle_new_def)
  show 1: "seen a AwaitingAuthority 1" by (rule seen_step [OF 0]) auto
  show 2: "seen a GrantReserved 2" by (rule seen_step [OF 1]) auto
  show 3: "seen a LeaseActive 3" by (rule seen_step [OF 2]) auto
  show "seen a Executing 4" by (rule seen_step [OF 3]) auto
qed

lemma state_generations_seen: "g \<in> state_generations s \<Longrightarrow> seen a s g"
  using seen_main_path [of a]
    seen_step [OF seen_main_path(1) [of a], of s g] seen_step [OF seen_main_path(2) [of a], of s g]
    seen_step [OF seen_main_path(3) [of a], of s g] seen_step [OF seen_main_path(4) [of a], of s g]
    seen_step [OF seen_main_path(5) [of a], of s g]
  by (cases s) auto

subsection \<open>Properties\<close>

text \<open>
  The reachable lifecycles are exactly these: a state is seen precisely at the
  generations that count a path of legal transitions to it.  In particular a request
  executes only at generation four, after authority was awaited, a grant reserved and a
  lease activated, and completes only at generation five.
\<close>

theorem lifecycle_reachable_exact:
  "lifecycle_reachable a l \<longleftrightarrow>
     rl_action_id l = a \<and> rl_generation l \<in> state_generations (rl_state l)"
proof
  assume "lifecycle_reachable a l"
  then show "rl_action_id l = a \<and> rl_generation l \<in> state_generations (rl_state l)"
    by (rule lifecycle_reachable_generation)
next
  assume "rl_action_id l = a \<and> rl_generation l \<in> state_generations (rl_state l)"
  then show "lifecycle_reachable a l"
    using state_generations_seen [of "rl_generation l" "rl_state l" a] by (cases l) simp
qed

text \<open>
  A compare-and-swap has one winner and can never wrap the generation: of two calls on
  the same observed state and generation the second is refused as stale whatever it asks
  for, a terminal state refuses every call, and for a reachable lifecycle
  \<open>GenerationExhausted\<close> is never returned.
\<close>

theorem lifecycle_cas_single_winner:
  assumes "lifecycle_reachable a l" and "compare_and_swap l s g n = Ok l'"
  shows "compare_and_swap l' s g m = Err (StaleGeneration n (rl_generation l'))
    \<and> \<not> is_terminal (rl_state l)
    \<and> (is_terminal n \<longrightarrow> (\<forall>s' g' m'. \<not> is_ok (compare_and_swap l' s' g' m')))
    \<and> (\<forall>s' g' m'. compare_and_swap l' s' g' m' \<noteq> Err GenerationExhausted)"
proof -
  obtain g' where l': "rl_state l = s" "rl_generation l = g" "can_transition_to s n"
      "checked_add g 1 = Some g'" "l' = l\<lparr>rl_state := n, rl_generation := g'\<rparr>"
    using assms(2) by (auto simp: compare_and_swap_Ok)
  have gen: "rl_generation l' \<in> state_generations n"
    using lifecycle_reachable_generation [OF lifecycle_reachable.step [OF assms(1) cas [OF assms(2)]]]
      l' by simp
  have "g < g'" using checked_add_one_less [OF l'(4)] .
  then have stale: "compare_and_swap l' s g m = Err (StaleGeneration n (rl_generation l'))"
    using l' by (auto simp: compare_and_swap_def)
  have "unat (rl_generation l') < 5" if "can_transition_to n m'" for m'
    using state_generations_step [OF gen that] by simp
  then have exhausted: "compare_and_swap l' s' h m' \<noteq> Err GenerationExhausted" for s' h m'
    using l' checked_add_one_small by (auto simp: compare_and_swap_def res_simps)
  show ?thesis
    using stale exhausted l' can_transition_not_terminal
    by (auto simp: is_ok_iff compare_and_swap_Ok)
qed

theorem lifecycle_cas_single_winner_witness:
  "\<exists>l'. compare_and_swap (lifecycle_new (ActionId ''x'')) Draft 0 StCancelled = Ok l'
     \<and> compare_and_swap l' Draft 0 AwaitingAuthority = Err (StaleGeneration StCancelled 1)
     \<and> \<not> is_ok (compare_and_swap l' StCancelled 1 AwaitingAuthority)"
proof -
  let ?l = "\<lparr>rl_action_id = ActionId ''x'', rl_state = StCancelled, rl_generation = 1\<rparr>"
  have ok: "compare_and_swap (lifecycle_new (ActionId ''x'')) Draft 0 StCancelled = Ok ?l"
    by (simp add: compare_and_swap_def lifecycle_new_def checked_add_def)
  show ?thesis
    using ok lifecycle_cas_single_winner [OF lifecycle_reachable.fresh ok, of AwaitingAuthority]
    by (intro exI [of _ ?l]) (auto simp: is_terminal_def)
qed

end
