(* ===== verification/Canonical_Json.thy ===== *)
theory Canonical_Json
  imports Prelude
begin

text \<open>
  \<open>phantom-authority/src/canonical.rs\<close>: the deterministic JSON writer every digest of the
  authority contract is taken over, the float check, and the closed decoder.  The JSON
  parser, the string escaper and the serde derives are library code: they are the arguments
  \<open>js\<close> (escaping of one string), \<open>parse\<close>, \<open>to_value\<close> and \<open>from_value\<close> of the definitions.
\<close>

subsection \<open>JSON values\<close>

text \<open>
  \<open>serde_json::Number\<close> holds a \<open>u64\<close>, a negative \<open>i64\<close> or a float; the text of a float
  never matters here.  An object is a list of entries whose keys are distinct.
\<close>

datatype json_number = PosInt u64 | NegInt u64 | Float string

datatype json =
  JNull
| JBool bool
| JNumber json_number
| JString string
| JArray "json list"
| JObject "(string \<times> json) list"

fun number_is_f64 :: "json_number \<Rightarrow> bool" where
  "number_is_f64 (Float _) = True"
| "number_is_f64 _ = False"

definition digit_char :: "nat \<Rightarrow> char" where
  "digit_char d = ''0123456789'' ! d"

fun show_nat :: "nat \<Rightarrow> string" where
  "show_nat n =
     (if n < 10 then [digit_char n] else show_nat (n div 10) @ [digit_char (n mod 10)])"

declare show_nat.simps [simp del]

fun show_number :: "json_number \<Rightarrow> string" where
  "show_number (PosInt n) = show_nat (unat n)"
| "show_number (NegInt n) = ''-'' @ show_nat (nat (- sint n))"
| "show_number (Float s) = s"

datatype canonical_error = FloatForbidden | NonCanonicalInput | JsonError

fun join_comma :: "string list \<Rightarrow> string" where
  "join_comma [] = []"
| "join_comma [s] = s"
| "join_comma (s # t # ss) = s @ '','' @ join_comma (t # ss)"

subsection \<open>The writer and the float check\<close>

lemma size_snd_less: "e \<in> set es \<Longrightarrow> size (snd e) < Suc (size_list (size_prod (\<lambda>_. 0) size) es)"
  by (induction es) auto

function (sequential) write_canonical ::
  "(string \<Rightarrow> string) \<Rightarrow> json \<Rightarrow> (string, canonical_error) result" where
  "write_canonical js JNull = Ok ''null''"
| "write_canonical js (JBool True) = Ok ''true''"
| "write_canonical js (JBool False) = Ok ''false''"
| "write_canonical js (JNumber n) =
     (if number_is_f64 n then Err FloatForbidden else Ok (show_number n))"
| "write_canonical js (JString s) = Ok (js s)"
| "write_canonical js (JArray vs) =
     and_then (try_map (\<lambda>v. write_canonical js v) vs)
       (\<lambda>ss. Ok (''['' @ join_comma ss @ '']''))"
| "write_canonical js (JObject es) =
     and_then (try_map (\<lambda>e. and_then (write_canonical js (snd e))
                              (\<lambda>s. Ok (js (fst e) @ '':'' @ s))) (sort_key fst es))
       (\<lambda>ss. Ok (''{'' @ join_comma ss @ ''}''))"
  by pat_completeness auto

termination
  by (relation "measure (\<lambda>(js, v). size v)")
    (auto simp: less_Suc_eq_le intro!: size_list_estimation' dest: size_snd_less)

function (sequential) reject_floats :: "json \<Rightarrow> (unit, canonical_error) result" where
  "reject_floats (JNumber n) = (if number_is_f64 n then Err FloatForbidden else Ok ())"
| "reject_floats (JArray vs) =
     and_then (try_map (\<lambda>v. reject_floats v) vs) (\<lambda>_. Ok ())"
| "reject_floats (JObject es) =
     and_then (try_map (\<lambda>e. reject_floats (snd e)) es) (\<lambda>_. Ok ())"
| "reject_floats _ = Ok ()"
  by pat_completeness auto

termination
  by (relation "measure size")
    (auto simp: less_Suc_eq_le intro!: size_list_estimation' dest: size_snd_less)

definition canonical_json_v1 ::
  "(string \<Rightarrow> string) \<Rightarrow> ('a \<Rightarrow> json) \<Rightarrow> 'a \<Rightarrow> (string, canonical_error) result" where
  "canonical_json_v1 js to_value x = write_canonical js (to_value x)"

definition decode_closed_json_v1 ::
  "(string \<Rightarrow> string) \<Rightarrow> ('a \<Rightarrow> json) \<Rightarrow> (string \<Rightarrow> json option) \<Rightarrow> (json \<Rightarrow> 'a option)
     \<Rightarrow> string \<Rightarrow> ('a, canonical_error) result" where
  "decode_closed_json_v1 js to_value parse from_value bytes =
     and_then (ok_or (parse bytes) JsonError) (\<lambda>value.
     and_then (reject_floats value) (\<lambda>_.
     and_then (ok_or (from_value value) JsonError) (\<lambda>decoded.
     and_then (canonical_json_v1 js to_value decoded) (\<lambda>again.
       if again \<noteq> bytes then Err NonCanonicalInput else Ok decoded))))"

text \<open>Example: nested objects are written with their keys sorted.\<close>

definition quote_plain :: "string \<Rightarrow> string" where
  "quote_plain s = [CHR 0x22] @ s @ [CHR 0x22]"

lemma write_canonical_example:
  "write_canonical quote_plain
     (JObject [(''b'', JArray [JNumber (PosInt 10), JNull]), (''a'', JBool True)]) =
   Ok (concat [''{'', quote_plain ''a'', '':true,'', quote_plain ''b'', '':[10,null]}''])"
  by (simp add: show_nat.simps digit_char_def quote_plain_def)


subsection \<open>Numbers are printed unambiguously\<close>

lemma digit_char_code: "d < 10 \<Longrightarrow> of_char (digit_char d) = (48 + d :: nat)"
  by (auto simp: digit_char_def less_Suc_eq numeral_eq_Suc)

lemma digit_char_set: "d < 10 \<Longrightarrow> digit_char d \<in> set ''0123456789''"
  unfolding digit_char_def by (rule nth_mem) simp

definition value_of_digits :: "string \<Rightarrow> nat" where
  "value_of_digits s = foldl (\<lambda>a c. 10 * a + (of_char c - 48)) 0 s"

lemma value_of_show_nat: "value_of_digits (show_nat n) = n"
proof (induction n rule: show_nat.induct)
  case (1 n)
  show ?case
  proof (cases "n < 10")
    case True
    then show ?thesis by (simp add: show_nat.simps value_of_digits_def digit_char_code)
  next
    case False
    with 1 have "value_of_digits (show_nat (n div 10)) = n div 10" by simp
    with False show ?thesis
      by (subst show_nat.simps) (simp add: value_of_digits_def digit_char_code)
  qed
qed

lemma show_nat_inj: "show_nat m = show_nat n \<longleftrightarrow> m = n"
  by (metis value_of_show_nat)

lemma show_nat_digits: "set (show_nat n) \<subseteq> set ''0123456789'' \<and> show_nat n \<noteq> []"
proof (induction n rule: show_nat.induct)
  case (1 n)
  show ?case
  proof (cases "n < 10")
    case True
    then show ?thesis using digit_char_set by (simp add: show_nat.simps)
  next
    case False
    moreover have "digit_char (n mod 10) \<in> set ''0123456789''" by (rule digit_char_set) simp
    ultimately show ?thesis using 1 by (subst (1 2) show_nat.simps) simp
  qed
qed

fun number_wf :: "json_number \<Rightarrow> bool" where
  "number_wf (PosInt n) = True"
| "number_wf (NegInt n) = (sint n < 0)"
| "number_wf (Float s) = True"

fun json_wf :: "json \<Rightarrow> bool" where
  "json_wf (JNumber n) = number_wf n"
| "json_wf (JArray vs) = (\<forall>v \<in> set vs. json_wf v)"
| "json_wf (JObject es) = (distinct (map fst es) \<and> (\<forall>e \<in> set es. json_wf (snd e)))"
| "json_wf _ = True"

definition number_chars :: "char set" where
  "number_chars = insert CHR ''-'' (set ''0123456789'')"

lemma show_number_chars:
  assumes "\<not> number_is_f64 n"
  shows "set (show_number n) \<subseteq> number_chars \<and> show_number n \<noteq> []"
proof (cases n)
  case (PosInt k)
  then show ?thesis
    using show_nat_digits [of "unat k"] unfolding number_chars_def PosInt show_number.simps by blast
next
  case (NegInt k)
  then have "set (show_number n) = insert CHR ''-'' (set (show_nat (nat (- sint k))))"
    and "show_number n \<noteq> []" by simp_all
  then show ?thesis
    using show_nat_digits [of "nat (- sint k)"] unfolding number_chars_def by blast
qed (use assms in simp)

lemma show_nat_no_sign [simp]: "show_nat k \<noteq> CHR ''-'' # s" "CHR ''-'' # s \<noteq> show_nat k"
proof -
  show "show_nat k \<noteq> CHR ''-'' # s"
  proof
    assume "show_nat k = CHR ''-'' # s"
    then have "CHR ''-'' \<in> set ''0123456789''" using show_nat_digits [of k] by simp
    then show False by simp
  qed
  then show "CHR ''-'' # s \<noteq> show_nat k" by metis
qed

lemma neg_int_inj:
  assumes "nat (- sint x) = nat (- sint y)" and "sint x < 0" and "sint (y :: u64) < 0"
  shows "x = y"
proof -
  have "sint x = sint y" using assms by simp
  then show ?thesis by (rule signed_word_eqI)
qed

lemma show_number_inj:
  assumes "\<not> number_is_f64 m" and "\<not> number_is_f64 n" and "number_wf m" and "number_wf n"
    and "show_number m = show_number n"
  shows "m = n"
  using assms by (cases m; cases n) (auto simp: show_nat_inj intro: neg_int_inj unsigned_word_eqI)

subsection \<open>The writer is injective up to the order of object keys\<close>

text \<open>
  Two values that differ only in the order of object entries have the same text; the
  \<open>normal_form\<close> sorts the entries everywhere.  The escaper must be self-delimiting: a JSON
  string literal starts with a quote and ends at the first unescaped quote, so what follows
  it in a document cannot change where it ends.
\<close>

function (sequential) normal_form :: "json \<Rightarrow> json" where
  "normal_form (JArray vs) = JArray (map (\<lambda>v. normal_form v) vs)"
| "normal_form (JObject es) = JObject (map (\<lambda>e. (fst e, normal_form (snd e))) (sort_key fst es))"
| "normal_form v = v"
  by pat_completeness auto

termination
  by (relation "measure size")
    (auto simp: less_Suc_eq_le intro!: size_list_estimation' dest: size_snd_less)

definition self_delimiting :: "(string \<Rightarrow> string) \<Rightarrow> bool" where
  "self_delimiting js =
     ((\<forall>a. \<exists>t. js a = CHR 0x22 # t)
      \<and> (\<forall>a b r r'. js a @ r = js b @ r' \<longrightarrow> a = b \<and> r = r'))"

definition delimited :: "string \<Rightarrow> bool" where
  "delimited r = (r = [] \<or> hd r \<in> set '',]}'')"

lemma self_delimiting_start:
  assumes "self_delimiting js"
  obtains t where "js a = CHR 0x22 # t"
  using assms unfolding self_delimiting_def by blast

lemma self_delimiting_inj:
  assumes "self_delimiting js" and "js a @ r = js b @ r'"
  shows "a = b \<and> r = r'"
  using assms unfolding self_delimiting_def by blast

lemma delimited_no_number: "delimited q \<Longrightarrow> takeWhile (\<lambda>c. c \<in> number_chars) q = []"
  by (cases q) (simp_all add: delimited_def number_chars_def, elim disjE, simp_all)

lemma number_split:
  assumes "set s \<subseteq> number_chars" and "set t \<subseteq> number_chars" and "delimited r" and "delimited r'"
    and "s @ r = t @ r'"
  shows "s = t \<and> r = r'"
proof -
  have stop: "takeWhile (\<lambda>c. c \<in> number_chars) (u @ q) = u"
    if "set u \<subseteq> number_chars" "delimited q" for u q
  proof -
    have "takeWhile (\<lambda>c. c \<in> number_chars) (u @ q) = u @ takeWhile (\<lambda>c. c \<in> number_chars) q"
      using that(1) by (intro takeWhile_append2) auto
    then show ?thesis using delimited_no_number [OF that(2)] by simp
  qed
  have "s = t" using stop [OF assms(1,3)] stop [OF assms(2,4)] assms(5) by simp
  then show ?thesis using assms(5) by simp
qed

text \<open>Items joined by commas and closed by a bracket split the same way on both sides.\<close>

lemma join_comma_Cons: "join_comma (s # ss) = s @ (if ss = [] then [] else CHR '','' # join_comma ss)"
  by (cases ss) auto

definition item_injective ::
  "('a \<Rightarrow> (string, 'e) result) \<Rightarrow> ('a \<Rightarrow> 'b) \<Rightarrow> ('a \<Rightarrow> bool) \<Rightarrow> 'a \<Rightarrow> bool" where
  "item_injective f g good x =
     (\<forall>y s t r r'. good y \<longrightarrow> f x = Ok s \<longrightarrow> f y = Ok t \<longrightarrow> s @ r = t @ r' \<longrightarrow> delimited r
        \<longrightarrow> delimited r' \<longrightarrow> g x = g y \<and> r = r')"

lemma item_injectiveD:
  assumes "item_injective f g good x" and "good y" and "f x = Ok s" and "f y = Ok t"
    and "s @ r = t @ r'" and "delimited r" and "delimited r'"
  shows "g x = g y" and "r = r'"
  using assms unfolding item_injective_def by blast+

definition item_start :: "('a \<Rightarrow> (string, 'e) result) \<Rightarrow> 'a \<Rightarrow> bool" where
  "item_start f x = (\<forall>s. f x = Ok s \<longrightarrow> s \<noteq> [] \<and> hd s \<notin> set '',]}'')"

lemma join_items_inj:
  assumes "\<forall>x \<in> set xs. item_injective f g good x" and "\<forall>y \<in> set ys. good y"
    and "\<forall>x \<in> set xs \<union> set ys. item_start f x"
    and "try_map f xs = Ok ss" and "try_map f ys = Ok ts"
    and "join_comma ss @ c # r = join_comma ts @ c # r'" and "c = CHR '']'' \<or> c = CHR ''}''"
  shows "map g xs = map g ys \<and> r = r'"
  using assms
proof (induction xs arbitrary: ys ss ts)
  case Nil
  show ?case
  proof (cases ys)
    case Nil
    with Nil.prems show ?thesis by simp
  next
    case (Cons y ys')
    then obtain t ts' where t: "f y = Ok t" "ts = t # ts'" and "ss = []"
      using Nil.prems by (auto simp: res_simps)
    moreover have "t \<noteq> []" "hd t \<notin> set '',]}''"
      using Nil.prems(3) Cons t by (auto simp: item_start_def)
    ultimately have False using Nil.prems(6,7)
      by (cases t) (auto simp: join_comma_Cons)
    then show ?thesis ..
  qed
next
  case (Cons x xs)
  then obtain s ss' where s: "f x = Ok s" "ss = s # ss'" "try_map f xs = Ok ss'"
    by (auto simp: res_simps)
  have s_start: "s \<noteq> []" "hd s \<notin> set '',]}''"
    using Cons.prems(3) s by (auto simp: item_start_def)
  show ?case
  proof (cases ys)
    case Nil
    then have "ts = []" using Cons.prems by simp
    then have False using Cons.prems(6,7) s s_start
      by (cases s) (auto simp: join_comma_Cons)
    then show ?thesis ..
  next
    case (Cons y ys')
    then obtain t ts' where t: "f y = Ok t" "ts = t # ts'" "try_map f ys' = Ok ts'"
      using Cons.prems by (auto simp: res_simps)
    let ?r = "(if ss' = [] then [] else CHR '','' # join_comma ss') @ c # r"
    let ?r' = "(if ts' = [] then [] else CHR '','' # join_comma ts') @ c # r'"
    have eq: "s @ ?r = t @ ?r'" using Cons.prems(6) s t by (simp add: join_comma_Cons)
    have d: "delimited ?r" "delimited ?r'" using Cons.prems(7) by (auto simp: delimited_def)
    have inj: "item_injective f g good x" and "good y" using Cons.prems(1,2) Cons by auto
    then have g: "g x = g y" and rest: "?r = ?r'"
      using item_injectiveD [OF inj _ s(1) t(1) eq d] by blast+
    have "join_comma ss' @ c # r = join_comma ts' @ c # r'"
      using rest Cons.prems(7) by (cases "ss' = []"; cases "ts' = []") auto
    have "map g xs = map g ys' \<and> r = r'"
    proof (rule Cons.IH)
      show "\<forall>x \<in> set xs. item_injective f g good x" using Cons.prems(1) by simp
      show "\<forall>y \<in> set ys'. good y" using Cons.prems(2) Cons by simp
      show "\<forall>x \<in> set xs \<union> set ys'. item_start f x" using Cons.prems(3) Cons by simp
    qed fact+
    then show ?thesis using g Cons by simp
  qed
qed


lemma write_start:
  assumes "self_delimiting js" and "write_canonical js v = Ok s"
  shows "s \<noteq> [] \<and> hd s \<notin> set '',]}''"
proof (cases v)
  case (JNumber n)
  with assms have "\<not> number_is_f64 n" "s = show_number n" by (auto split: if_splits)
  then have "set s \<subseteq> number_chars" "s \<noteq> []" using show_number_chars [of n] by auto
  then have "hd s \<in> number_chars" by (metis hd_in_set subsetD)
  with \<open>s \<noteq> []\<close> show ?thesis by (auto simp: number_chars_def)
next
  case (JBool b)
  with assms show ?thesis by (cases b) auto
next
  case (JString t)
  obtain u where "js t = CHR 0x22 # u" using self_delimiting_start [OF assms(1)] .
  then have "s = CHR 0x22 # u" using JString assms(2) by simp
  then show ?thesis by simp
qed (use assms in \<open>auto simp: res_simps\<close>)

lemma write_head:
  assumes "self_delimiting js" and "write_canonical js v = Ok s"
  shows "hd s = (case v of JNull \<Rightarrow> CHR ''n'' | JBool True \<Rightarrow> CHR ''t'' | JBool False \<Rightarrow> CHR ''f''
     | JNumber n \<Rightarrow> hd (show_number n) | JString _ \<Rightarrow> CHR 0x22 | JArray _ \<Rightarrow> CHR ''[''
     | JObject _ \<Rightarrow> CHR ''{'')"
proof (cases v)
  case (JBool b)
  with assms show ?thesis by (cases b) auto
next
  case (JString t)
  obtain u where "js t = CHR 0x22 # u" using self_delimiting_start [OF assms(1)] .
  then have "s = CHR 0x22 # u" using JString assms(2) by simp
  with JString show ?thesis by simp
qed (use assms in \<open>auto simp: res_simps split: if_splits\<close>)

fun json_tag :: "json \<Rightarrow> nat" where
  "json_tag JNull = 0"
| "json_tag (JBool True) = 1"
| "json_tag (JBool False) = 2"
| "json_tag (JNumber _) = 3"
| "json_tag (JString _) = 4"
| "json_tag (JArray _) = 5"
| "json_tag (JObject _) = 6"

lemma write_same_tag:
  assumes js: "self_delimiting js" and v: "write_canonical js v = Ok s"
    and w: "write_canonical js w = Ok t" and eq: "s @ r = t @ r'"
  shows "json_tag v = json_tag w"
proof -
  have "s \<noteq> []" "t \<noteq> []" using write_start [OF js] v w by blast+
  then have hd: "hd s = hd t" using eq by (metis hd_append2)
  have num: "hd (show_number n) \<in> number_chars" if "u = JNumber n" "write_canonical js u = Ok q"
    for u n q
    using that show_number_chars [of n] by (auto split: if_splits dest: hd_in_set)
  have "hd s \<notin> number_chars" if "json_tag v \<noteq> 3"
    using that write_head [OF js v] by (cases v rule: json_tag.cases) (auto simp: number_chars_def)
  moreover have "hd t \<notin> number_chars" if "json_tag w \<noteq> 3"
    using that write_head [OF js w] by (cases w rule: json_tag.cases) (auto simp: number_chars_def)
  moreover have "hd s \<in> number_chars" if "json_tag v = 3"
    using that write_head [OF js v] num [OF _ v] by (cases v rule: json_tag.cases) auto
  moreover have "hd t \<in> number_chars" if "json_tag w = 3"
    using that write_head [OF js w] num [OF _ w] by (cases w rule: json_tag.cases) auto
  ultimately have three: "json_tag v = 3 \<longleftrightarrow> json_tag w = 3" using hd by metis
  show ?thesis
  proof (cases "json_tag v = 3")
    case False
    with three show ?thesis
      using hd write_head [OF js v] write_head [OF js w]
      by (cases v rule: json_tag.cases; cases w rule: json_tag.cases) auto
  qed (use three in simp)
qed

lemma array_write:
  "write_canonical js (JArray vs) = Ok s \<longleftrightarrow>
     (\<exists>ss. try_map (write_canonical js) vs = Ok ss \<and> s = CHR ''['' # join_comma ss @ [CHR '']''])"
  by (auto simp: res_simps)

definition write_entry ::
  "(string \<Rightarrow> string) \<Rightarrow> string \<times> json \<Rightarrow> (string, canonical_error) result" where
  "write_entry js e = and_then (write_canonical js (snd e)) (\<lambda>s. Ok (js (fst e) @ '':'' @ s))"

lemma object_write:
  "write_canonical js (JObject es) = Ok s \<longleftrightarrow>
     (\<exists>ss. try_map (write_entry js) (sort_key fst es) = Ok ss
        \<and> s = CHR ''{'' # join_comma ss @ [CHR ''}''])"
proof -
  have "(\<lambda>e. and_then (write_canonical js (snd e)) (\<lambda>s. Ok (js (fst e) @ '':'' @ s))) = write_entry js"
    by (simp add: write_entry_def fun_eq_iff)
  then show ?thesis by (auto simp: res_simps)
qed

abbreviation write_inj :: "(string \<Rightarrow> string) \<Rightarrow> json \<Rightarrow> bool" where
  "write_inj js \<equiv> item_injective (write_canonical js) normal_form json_wf"

lemma entry_injective:
  assumes js: "self_delimiting js" and inj: "write_inj js (snd e)"
  shows "item_injective (write_entry js) (\<lambda>e. (fst e, normal_form (snd e)))
     (\<lambda>e. json_wf (snd e)) e"
  unfolding item_injective_def
proof (intro allI impI)
  fix y s t r r'
  assume y: "json_wf (snd y)" and "write_entry js e = Ok s" "write_entry js y = Ok t"
    and eq: "s @ r = t @ r'" and d: "delimited r" "delimited r'"
  then obtain u v where u: "write_canonical js (snd e) = Ok u" "s = js (fst e) @ '':'' @ u"
    and v: "write_canonical js (snd y) = Ok v" "t = js (fst y) @ '':'' @ v"
    by (auto simp: write_entry_def res_simps)
  have "js (fst e) @ (CHR '':'' # u @ r) = js (fst y) @ (CHR '':'' # v @ r')"
    using eq u v by simp
  then have keys: "fst e = fst y" and "CHR '':'' # u @ r = CHR '':'' # v @ r'"
    using self_delimiting_inj [OF js] by blast+
  then have "u @ r = v @ r'" by simp
  with item_injectiveD [OF inj y u(1) v(1)] d keys
  show "(fst e, normal_form (snd e)) = (fst y, normal_form (snd y)) \<and> r = r'" by auto
qed

lemma write_canonical_injective_prefix:
  assumes js: "self_delimiting js"
  shows "json_wf v \<Longrightarrow> write_inj js v"
proof (induction v)
  case JNull
  show ?case unfolding item_injective_def
  proof (intro allI impI)
    fix y s t r r'
    assume s: "write_canonical js JNull = Ok s"
      and t: "write_canonical js y = Ok t" and eq: "s @ r = t @ r'"
    have "y = JNull" using write_same_tag [OF js s t eq] by (cases y rule: json_tag.cases) auto
    with s t eq show "normal_form JNull = normal_form y \<and> r = r'" by auto
  qed
next
  case (JBool b)
  show ?case unfolding item_injective_def
  proof (intro allI impI)
    fix y s t r r'
    assume s: "write_canonical js (JBool b) = Ok s"
      and t: "write_canonical js y = Ok t" and eq: "s @ r = t @ r'"
    have "y = JBool b" using write_same_tag [OF js s t eq]
      by (cases b; cases y rule: json_tag.cases) auto
    with s t eq show "normal_form (JBool b) = normal_form y \<and> r = r'" by auto
  qed
next
  case (JNumber n)
  show ?case unfolding item_injective_def
  proof (intro allI impI)
    fix y s t r r'
    assume y: "json_wf y" and s: "write_canonical js (JNumber n) = Ok s"
      and t: "write_canonical js y = Ok t" and eq: "s @ r = t @ r'"
      and d: "delimited r" "delimited r'"
    obtain m where m: "y = JNumber m"
      using write_same_tag [OF js s t eq] by (cases y rule: json_tag.cases) auto
    then have num: "\<not> number_is_f64 n" "\<not> number_is_f64 m" "s = show_number n" "t = show_number m"
      using s t by (auto split: if_splits)
    then have "s = t \<and> r = r'"
      using number_split [OF _ _ d eq] show_number_chars by blast
    then show "normal_form (JNumber n) = normal_form y \<and> r = r'"
      using num m JNumber y show_number_inj [of n m] by auto
  qed
next
  case (JString a)
  show ?case unfolding item_injective_def
  proof (intro allI impI)
    fix y s t r r'
    assume s: "write_canonical js (JString a) = Ok s"
      and t: "write_canonical js y = Ok t" and eq: "s @ r = t @ r'"
    obtain b where b: "y = JString b"
      using write_same_tag [OF js s t eq] by (cases y rule: json_tag.cases) auto
    then have "js a @ r = js b @ r'" using s t eq by simp
    then have "a = b \<and> r = r'" by (rule self_delimiting_inj [OF js])
    then show "normal_form (JString a) = normal_form y \<and> r = r'" using b by simp
  qed
next
  case (JArray vs)
  show ?case unfolding item_injective_def
  proof (intro allI impI)
    fix y s t r r'
    assume y: "json_wf y" and s: "write_canonical js (JArray vs) = Ok s"
      and t: "write_canonical js y = Ok t" and eq: "s @ r = t @ r'"
    obtain ws where ws: "y = JArray ws"
      using write_same_tag [OF js s t eq] by (cases y rule: json_tag.cases) auto
    obtain ss ts where ss: "try_map (write_canonical js) vs = Ok ss"
        "s = CHR ''['' # join_comma ss @ [CHR '']'']"
      and ts: "try_map (write_canonical js) ws = Ok ts" "t = CHR ''['' # join_comma ts @ [CHR '']'']"
      using s t ws by (auto simp: array_write simp del: write_canonical.simps)
    have "\<forall>x \<in> set vs. write_inj js x" using JArray by auto
    moreover have "\<forall>x \<in> set ws. json_wf x" using y ws by simp
    moreover have "\<forall>x \<in> set vs \<union> set ws. item_start (write_canonical js) x"
      using write_start [OF js] by (simp add: item_start_def)
    moreover have "join_comma ss @ CHR '']'' # r = join_comma ts @ CHR '']'' # r'"
      using eq ss ts by simp
    ultimately have "map normal_form vs = map normal_form ws \<and> r = r'"
      using join_items_inj ss(1) ts(1) by blast
    then show "normal_form (JArray vs) = normal_form y \<and> r = r'" using ws by simp
  qed
next
  case (JObject es)
  show ?case unfolding item_injective_def
  proof (intro allI impI)
    fix y s t r r'
    assume y: "json_wf y" and s: "write_canonical js (JObject es) = Ok s"
      and t: "write_canonical js y = Ok t" and eq: "s @ r = t @ r'"
    let ?nf = "\<lambda>e. (fst e, normal_form (snd e))"
    obtain fs where fs: "y = JObject fs"
      using write_same_tag [OF js s t eq] by (cases y rule: json_tag.cases) auto
    obtain ss ts where ss: "try_map (write_entry js) (sort_key fst es) = Ok ss"
        "s = CHR ''{'' # join_comma ss @ [CHR ''}'']"
      and ts: "try_map (write_entry js) (sort_key fst fs) = Ok ts"
        "t = CHR ''{'' # join_comma ts @ [CHR ''}'']"
      using s t fs by (auto simp: object_write simp del: write_canonical.simps)
    have "write_inj js (snd e)" if e: "e \<in> set es" for e
    proof (rule JObject.IH [OF e])
      show "snd e \<in> Basic_BNFs.snds e" by (cases e) simp
      show "json_wf (snd e)" using e JObject.prems by simp
    qed
    then have "\<forall>x \<in> set (sort_key fst es). item_injective (write_entry js) ?nf
        (\<lambda>e. json_wf (snd e)) x"
      using entry_injective [OF js] by simp
    moreover have "\<forall>x \<in> set (sort_key fst fs). json_wf (snd x)" using y fs by simp
    moreover have "\<forall>x \<in> set (sort_key fst es) \<union> set (sort_key fst fs). item_start (write_entry js) x"
    proof
      fix x assume "x \<in> set (sort_key fst es) \<union> set (sort_key fst fs)"
      obtain u where "js (fst x) = CHR 0x22 # u" using self_delimiting_start [OF js] .
      then show "item_start (write_entry js) x"
        by (auto simp: item_start_def write_entry_def res_simps)
    qed
    moreover have "join_comma ss @ CHR ''}'' # r = join_comma ts @ CHR ''}'' # r'"
      using eq ss ts by simp
    ultimately have "map ?nf (sort_key fst es) = map ?nf (sort_key fst fs) \<and> r = r'"
      using join_items_inj [OF _ _ _ ss(1) ts(1)] by blast
    then show "normal_form (JObject es) = normal_form y \<and> r = r'" using fs by simp
  qed
qed


lemma sort_key_map_fst:
  "sort_key fst (map (\<lambda>e. (fst e, h e)) (sort_key fst es)) = map (\<lambda>e. (fst e, h e)) (sort_key fst es)"
  by (rule sort_key_id_if_sorted) (simp add: comp_def)

lemma write_normal_form: "write_canonical js (normal_form v) = write_canonical js v"
proof (induction v)
  case (JArray vs)
  then have "try_map (write_canonical js) (map normal_form vs) = try_map (write_canonical js) vs"
    by (induction vs) auto
  then show ?case by simp
next
  case (JObject es)
  have IH: "write_canonical js (normal_form (snd e)) = write_canonical js (snd e)" if "e \<in> set es" for e
  proof (rule JObject.IH [OF that])
    show "snd e \<in> Basic_BNFs.snds e" by (cases e) simp
  qed
  let ?nf = "\<lambda>e. (fst e, normal_form (snd e))"
  have "try_map f (map ?nf xs) = try_map f xs"
    if "\<forall>x \<in> set xs. f (?nf x) = f x" for xs and f :: "string \<times> json \<Rightarrow> (string, canonical_error) result"
    using that by (induction xs) auto
  moreover have "\<forall>e \<in> set (sort_key fst es). write_entry js (?nf e) = write_entry js e"
    using IH by (simp add: write_entry_def)
  ultimately have "try_map (write_entry js) (map ?nf (sort_key fst es)) =
      try_map (write_entry js) (sort_key fst es)" by blast
  then show ?case
    by (simp add: write_entry_def [abs_def] sort_key_map_fst [where h = "\<lambda>e. normal_form (snd e)"])
qed simp_all

lemma try_map_is_ok: "is_ok (try_map f xs) \<longleftrightarrow> (\<forall>x \<in> set xs. is_ok (f x))"
proof (induction xs)
  case (Cons x xs)
  then show ?case by (cases "f x"; cases "try_map f xs") auto
qed simp

lemma is_ok_and_then: "(\<And>x. m = Ok x \<Longrightarrow> is_ok (f x)) \<Longrightarrow> is_ok (and_then m f) = is_ok m"
  by (cases m) auto

lemma reject_floats_iff_written: "is_ok (reject_floats v) = is_ok (write_canonical js v)"
proof (induction v)
  case (JBool b)
  then show ?case by (cases b) auto
next
  case (JArray vs)
  then show ?case by (simp add: is_ok_and_then try_map_is_ok)
next
  case (JObject es)
  have "is_ok (reject_floats (snd e)) = is_ok (write_canonical js (snd e))" if "e \<in> set es" for e
  proof (rule JObject.IH [OF that])
    show "snd e \<in> Basic_BNFs.snds e" by (cases e) simp
  qed
  then show ?case by (simp add: is_ok_and_then try_map_is_ok)
qed simp_all

lemma decode_closed_Ok:
  assumes "decode_closed_json_v1 js to_value parse from_value bytes = Ok v"
  shows "canonical_json_v1 js to_value v = Ok bytes"
    and "\<exists>j. parse bytes = Some j \<and> reject_floats j = Ok () \<and> from_value j = Some v"
  using assms by (auto simp: decode_closed_json_v1_def res_simps split: if_splits)

subsection \<open>Properties\<close>

lemma canonical_text_injective:
  assumes "self_delimiting js" and "json_wf v" and "json_wf w"
    and "write_canonical js v = Ok s" and "write_canonical js w = Ok s"
  shows "normal_form v = normal_form w"
  using item_injectiveD(1) [OF write_canonical_injective_prefix [OF assms(1,2)] assms(3,4,5), of "[]" "[]"]
  by (simp add: delimited_def)

lemma normal_form_string [simp]:
  "normal_form v = JString t \<longleftrightarrow> v = JString t" "JString t = normal_form v \<longleftrightarrow> v = JString t"
  by (cases v; auto)+

lemma normal_form_field:
  assumes "normal_form (JObject es) = normal_form (JObject fs)"
  shows "(k, JString t) \<in> set es \<longleftrightarrow> (k, JString t) \<in> set fs"
proof -
  let ?n = "\<lambda>e. (fst e, normal_form (snd e))"
  have "set (map ?n (sort_key fst es)) = set (map ?n (sort_key fst fs))"
    using assms by (simp del: set_map)
  then have "?n ` set es = ?n ` set fs" by (simp only: set_map set_sort)
  moreover have "(k, JString t) \<in> set gs \<longleftrightarrow> (k, JString t) \<in> (\<lambda>e. (fst e, normal_form (snd e))) ` set gs"
    for gs :: "(string \<times> json) list" by (auto simp: image_iff intro: bexI [of _ "(k, JString t)"])
  ultimately show ?thesis by simp
qed

text \<open>
  C37. The canonical text identifies the value: two well-formed values are written to the
  same text exactly when they agree up to the order of object entries, so a digest over the
  text depends on nothing but the value and no two values share a text.
\<close>

theorem canonical_text_identifies_value:
  assumes "self_delimiting js" and "json_wf v" and "json_wf w"
    and "write_canonical js v = Ok s"
  shows "write_canonical js w = Ok s \<longleftrightarrow> normal_form w = normal_form v"
proof
  assume "write_canonical js w = Ok s"
  then show "normal_form w = normal_form v" using canonical_text_injective [OF assms] by simp
next
  assume "normal_form w = normal_form v"
  then show "write_canonical js w = Ok s"
    using write_normal_form [of js v] write_normal_form [of js w] assms(4) by simp
qed

text \<open>
  For the witness, a one-byte-at-a-time escaper: every byte becomes a tilde and the byte,
  which no quote can end early.
\<close>

definition quote_tilde :: "string \<Rightarrow> string" where
  "quote_tilde s = CHR 0x22 # concat (map (\<lambda>c. [CHR ''~'', c]) s) @ [CHR 0x22]"

lemma tilde_split:
  "concat (map (\<lambda>c. [CHR ''~'', c]) a) @ CHR 0x22 # r =
     concat (map (\<lambda>c. [CHR ''~'', c]) b) @ CHR 0x22 # r' \<Longrightarrow> a = b \<and> r = r'"
proof (induction a arbitrary: b)
  case Nil
  then show ?case by (cases b) auto
next
  case (Cons x a)
  then show ?case by (cases b) auto
qed

lemma quote_tilde_delimiting: "self_delimiting quote_tilde"
  unfolding self_delimiting_def
proof (intro conjI allI impI)
  fix a b r r'
  show "\<exists>t. quote_tilde a = CHR 0x22 # t" by (simp add: quote_tilde_def)
  assume "quote_tilde a @ r = quote_tilde b @ r'"
  then have "concat (map (\<lambda>c. [CHR ''~'', c]) a) @ CHR 0x22 # r =
     concat (map (\<lambda>c. [CHR ''~'', c]) b) @ CHR 0x22 # r'"
    by (simp add: quote_tilde_def)
  then have "a = b \<and> r = r'" by (rule tilde_split)
  then show "a = b" "r = r'" by simp_all
qed

definition sample_entries :: json where
  "sample_entries = JObject [(''b'', JNull), (''a'', JNumber (PosInt 7))]"

definition sample_entries_sorted :: json where
  "sample_entries_sorted = JObject [(''a'', JNumber (PosInt 7)), (''b'', JNull)]"

definition sample_entries_other :: json where
  "sample_entries_other = JObject [(''a'', JNumber (PosInt 8)), (''b'', JNull)]"

lemma sample_entries_wf:
  "json_wf sample_entries" "json_wf sample_entries_sorted" "json_wf sample_entries_other"
  by (simp_all add: sample_entries_def sample_entries_sorted_def sample_entries_other_def)

lemma sample_entries_written: "is_ok (write_canonical quote_tilde sample_entries)"
  by (simp add: reject_floats_iff_written [symmetric] sample_entries_def)

lemma sample_entries_nf:
  "normal_form sample_entries_sorted = normal_form sample_entries"
  by (simp add: sample_entries_def sample_entries_sorted_def)

lemma sample_entries_nf_other: "normal_form sample_entries_other \<noteq> normal_form sample_entries"
  by (simp add: sample_entries_def sample_entries_other_def)

theorem canonical_text_identifies_value_witness:
  "\<exists>s. write_canonical quote_tilde sample_entries = Ok s
    \<and> write_canonical quote_tilde sample_entries_sorted = Ok s
    \<and> write_canonical quote_tilde sample_entries_other \<noteq> Ok s"
proof -
  obtain s where s: "write_canonical quote_tilde sample_entries = Ok s"
    using sample_entries_written by (auto simp: is_ok_iff)
  note iff = canonical_text_identifies_value [OF quote_tilde_delimiting sample_entries_wf(1) _ s]
  show ?thesis
    using s iff [OF sample_entries_wf(2)] iff [OF sample_entries_wf(3)] sample_entries_nf sample_entries_nf_other
    by blast
qed

text \<open>
  The float check and the writer refuse the same values: a value passes
  \<open>reject_floats\<close> exactly when it has a canonical text, however deeply a float is nested.
\<close>

theorem float_check_matches_writer:
  "(reject_floats v = Ok ()) \<longleftrightarrow> (\<exists>s. write_canonical js v = Ok s)"
proof -
  have "reject_floats v = Ok () \<longleftrightarrow> is_ok (reject_floats v)"
    by (cases "reject_floats v") auto
  then show ?thesis using reject_floats_iff_written [of v js] by (simp add: is_ok_iff)
qed

end
