(* ===== verification/Broker_Protocol.thy ===== *)
theory Broker_Protocol
  imports Authority_Claims Broker_Lifecycle Canonical_Json
begin

text \<open>
  \<open>phantom-broker/src/protocol.rs\<close>, \<open>codec.rs\<close> and \<open>transport.rs\<close>: the metadata-only
  broker messages and their cross-field validation, the length-prefixed frame codec, and the
  fail-closed transports.
\<close>

subsection \<open>Messages\<close>

definition BROKER_PROTOCOL_VERSION :: u16 where
  "BROKER_PROTOCOL_VERSION = 1"

record hello =
  he_installation_id :: installation_id
  he_broker_epoch_sha256 :: sha256_digest
  he_executable_sha256 :: sha256_digest
  he_supported_versions :: "u16 list"

record challenge =
  ch_challenge_sha256 :: sha256_digest
  ch_issuer_installation_id :: installation_id
  ch_expires_at :: u64

record authority_request =
  ar_intent :: action_intent
  ar_expected :: expected_authority

record grant_envelope_metadata =
  ge_grant_id :: grant_id
  ge_action_id :: action_id
  ge_issuer_key_id_sha256 :: sha256_digest
  ge_nonce_sha256 :: sha256_digest
  ge_signature_sha256 :: sha256_digest
  ge_expires_at :: u64
  ge_authority_generation :: u64

record lease_ready =
  lr_lease_id :: lease_id
  lr_grant_id :: grant_id
  lr_action_id :: action_id
  lr_authority_sha256 :: sha256_digest
  lr_constraints_sha256 :: sha256_digest
  lr_expires_at :: u64
  lr_remaining_uses :: u32

datatype receipt_outcome =
  OutCompleted | OutFailed | OutDenied | OutExpired | OutCancelled
| OutRevokedBeforeSend | OutRevocationRacedAfterSend

record receipt =
  rc_execution_record_sha256 :: sha256_digest
  rc_action_id :: action_id
  rc_lease_id :: "lease_id option"
  rc_terminal_state :: request_state
  rc_outcome :: receipt_outcome
  rc_started_at :: u64
  rc_finished_at :: u64
  rc_upstream_opened :: bool

datatype revocation_target =
  RevokeGrant grant_id | RevokeLease lease_id | RevokeSession session_id

datatype revocation_reason =
  Operator | PolicyChanged | SessionEnded | GrantExpired | SuspectedCompromise

record revoke =
  rv_target :: revocation_target
  rv_authority_generation :: u64
  rv_reason_code :: revocation_reason
  rv_revoked_at :: u64

datatype broker_message =
  Hello hello
| Challenge challenge
| AuthorityRequest authority_request
| GrantEnvelope grant_envelope_metadata
| LeaseReady lease_ready
| Receipt receipt
| Revoke revoke

record broker_envelope =
  be_protocol_version :: u16
  be_message :: broker_message

definition envelope_new :: "broker_message \<Rightarrow> broker_envelope" where
  "envelope_new m = \<lparr>be_protocol_version = BROKER_PROTOCOL_VERSION, be_message = m\<rparr>"

datatype protocol_error =
  UnsupportedProtocolVersion u16
| InvalidSupportedVersions
| InvalidExpiry
| InvalidExpiryOrGeneration
| AuthorityBindingMismatch
| InvalidRemainingUses
| InvalidTimestampOrder
| InconsistentReceipt
| InvalidRevocation
| AuthoritySchemaError schema_error

subsection \<open>Validation\<close>

fun expected_terminal_state :: "receipt_outcome \<Rightarrow> request_state" where
  "expected_terminal_state OutCompleted = StCompleted"
| "expected_terminal_state OutFailed = StFailed"
| "expected_terminal_state OutDenied = StDenied"
| "expected_terminal_state OutExpired = StExpired"
| "expected_terminal_state OutCancelled = StCancelled"
| "expected_terminal_state OutRevokedBeforeSend = StRevoked"
| "expected_terminal_state OutRevocationRacedAfterSend = StRevoked"

definition receipt_validate :: "receipt \<Rightarrow> (unit, protocol_error) result" where
  "receipt_validate r =
     (if rc_started_at r > rc_finished_at r then Err InvalidTimestampOrder
      else if rc_terminal_state r \<noteq> expected_terminal_state (rc_outcome r)
              \<or> \<not> is_terminal (rc_terminal_state r)
      then Err InconsistentReceipt
      else if rc_outcome r \<in> {OutDenied, OutExpired, OutCancelled, OutRevokedBeforeSend}
              \<and> rc_upstream_opened r
      then Err InconsistentReceipt
      else if rc_outcome r \<in> {OutCompleted, OutRevocationRacedAfterSend}
              \<and> (rc_lease_id r = None \<or> \<not> rc_upstream_opened r)
      then Err InconsistentReceipt
      else if rc_outcome r \<in> {OutDenied, OutCancelled} \<and> rc_lease_id r \<noteq> None
      then Err InconsistentReceipt
      else Ok ())"

fun message_validate :: "broker_message \<Rightarrow> (unit, protocol_error) result" where
  "message_validate (Hello m) =
     (if he_supported_versions m = []
         \<or> BROKER_PROTOCOL_VERSION \<notin> set (he_supported_versions m)
      then Err InvalidSupportedVersions else Ok ())"
| "message_validate (Challenge m) = (if ch_expires_at m = 0 then Err InvalidExpiry else Ok ())"
| "message_validate (AuthorityRequest m) =
     and_then (map_err AuthoritySchemaError (intent_validate (ar_intent m))) (\<lambda>_.
     and_then (map_err AuthoritySchemaError (authority_validate (ar_expected m))) (\<lambda>_.
       if ai_workspace_id (ar_intent m) \<noteq> ea_workspace_id (ar_expected m)
          \<or> ai_workspace_manifest_sha256 (ar_intent m) \<noteq> ea_workspace_manifest_sha256 (ar_expected m)
          \<or> ac_environment (ai_constraints (ar_intent m)) \<noteq> ea_environment (ar_expected m)
       then Err AuthorityBindingMismatch else Ok ()))"
| "message_validate (GrantEnvelope m) =
     (if ge_expires_at m = 0 \<or> ge_authority_generation m = 0
      then Err InvalidExpiryOrGeneration else Ok ())"
| "message_validate (LeaseReady m) =
     (if lr_remaining_uses m = 0 \<or> lr_expires_at m = 0 then Err InvalidRemainingUses else Ok ())"
| "message_validate (Receipt m) = receipt_validate m"
| "message_validate (Revoke m) =
     (if rv_authority_generation m = 0 \<or> rv_revoked_at m = 0
      then Err InvalidRevocation else Ok ())"

definition envelope_validate :: "broker_envelope \<Rightarrow> (unit, protocol_error) result" where
  "envelope_validate e =
     (if be_protocol_version e \<noteq> BROKER_PROTOCOL_VERSION
      then Err (UnsupportedProtocolVersion (be_protocol_version e))
      else message_validate (be_message e))"

definition validated_try_from ::
  "broker_envelope \<Rightarrow> (broker_envelope, protocol_error) result" where
  "validated_try_from e = and_then (envelope_validate e) (\<lambda>_. Ok e)"

definition validated_try_new :: "broker_message \<Rightarrow> (broker_envelope, protocol_error) result" where
  "validated_try_new m = validated_try_from (envelope_new m)"

subsection \<open>Transports\<close>

datatype transport_kind = DenyAllTransport | UnixSocket sha256_digest | WindowsNamedPipe sha256_digest

datatype transport_error = TransportAuthorityUnavailable | WindowsAuthorityUnavailable

fun transport_exchange ::
  "transport_kind \<Rightarrow> broker_envelope \<Rightarrow> (broker_envelope, transport_error) result" where
  "transport_exchange DenyAllTransport _ = Err TransportAuthorityUnavailable"
| "transport_exchange (UnixSocket _) _ = Err TransportAuthorityUnavailable"
| "transport_exchange (WindowsNamedPipe _) _ = Err WindowsAuthorityUnavailable"

subsection \<open>Frames\<close>

definition MAX_BROKER_MESSAGE_BYTES :: nat where
  "MAX_BROKER_MESSAGE_BYTES = 65536"

datatype codec_error =
  InvalidLength nat
| TruncatedPrefix
| TruncatedPayload nat
| NonCanonicalPayload
| InvalidMessage protocol_error
| CanonicalError canonical_error
| FrameIo string

definition to_be_bytes :: "nat \<Rightarrow> string" where
  "to_be_bytes n =
     [char_of (n div 16777216 mod 256), char_of (n div 65536 mod 256),
      char_of (n div 256 mod 256), char_of (n mod 256)]"

definition from_be_bytes :: "string \<Rightarrow> nat" where
  "from_be_bytes bs = foldl (\<lambda>acc c. acc * 256 + of_char c) 0 bs"

text \<open>
  \<open>read_exact\<close> on a byte stream: the bytes read and what is left, or nothing when the stream gives
  out first, at the end of file (\<open>ends\<close> is \<open>None\<close>) or with another I/O error.
\<close>

definition read_exact :: "nat \<Rightarrow> string \<Rightarrow> (string \<times> string) option" where
  "read_exact n s = (if length s < n then None else Some (take n s, drop n s))"

definition encode_frame ::
  "(string \<Rightarrow> string) \<Rightarrow> (broker_envelope \<Rightarrow> json) \<Rightarrow> broker_envelope
     \<Rightarrow> (string, codec_error) result" where
  "encode_frame js to_value m =
     and_then (map_err CanonicalError (canonical_json_v1 js to_value m)) (\<lambda>payload.
       if payload = [] \<or> length payload > MAX_BROKER_MESSAGE_BYTES
          \<or> \<not> length payload < 2 ^ 32
       then Err (InvalidLength (length payload))
       else Ok (to_be_bytes (length payload) @ payload))"

definition map_truncation :: "string option \<Rightarrow> codec_error \<Rightarrow> codec_error" where
  "map_truncation ends truncated = (case ends of None \<Rightarrow> truncated | Some error \<Rightarrow> FrameIo error)"

definition decode_frame ::
  "(string \<Rightarrow> string) \<Rightarrow> (broker_envelope \<Rightarrow> json) \<Rightarrow> (string \<Rightarrow> json option)
     \<Rightarrow> (json \<Rightarrow> broker_envelope option) \<Rightarrow> string option \<Rightarrow> string
     \<Rightarrow> (broker_envelope \<times> string, codec_error) result" where
  "decode_frame js to_value parse from_value ends stream =
     and_then (ok_or (read_exact 4 stream) (map_truncation ends TruncatedPrefix)) (\<lambda>(pre, rest).
       let len = from_be_bytes pre in
       if len = 0 \<or> len > MAX_BROKER_MESSAGE_BYTES then Err (InvalidLength len)
       else and_then (ok_or (read_exact len rest) (map_truncation ends (TruncatedPayload len))) (\<lambda>(payload, rest').
         and_then (map_err (\<lambda>e. if e = NonCanonicalInput then NonCanonicalPayload
                                else CanonicalError e)
                     (decode_closed_json_v1 js to_value parse from_value payload)) (\<lambda>envelope.
         and_then (map_err InvalidMessage (validated_try_from envelope)) (\<lambda>validated.
         and_then (map_err CanonicalError (canonical_json_v1 js to_value validated)) (\<lambda>again.
           if again \<noteq> payload then Err NonCanonicalPayload
           else Ok (validated, rest'))))))"

subsection \<open>Facts about frames\<close>

lemma length_to_be_bytes [simp]: "length (to_be_bytes n) = 4"
  by (simp add: to_be_bytes_def)

lemma from_to_be_bytes:
  assumes "n < 2 ^ 32"
  shows "from_be_bytes (to_be_bytes n) = n"
proof -
  have q: "n div 65536 = n div 256 div 256" "n div 16777216 = n div 256 div 256 div 256"
    by (simp_all add: div_mult2_eq [symmetric])
  have "n div 256 div 256 div 256 < 256" using assms by (simp add: div_mult2_eq [symmetric])
  then show ?thesis
    by (simp add: from_be_bytes_def to_be_bytes_def q div_mult_mod_eq)
qed

lemma to_from_be_bytes:
  assumes "length bs = 4"
  shows "to_be_bytes (from_be_bytes bs) = bs"
proof -
  obtain a b c d where bs: "bs = [a, b, c, d]"
    using assms by (auto simp: numeral_eq_Suc length_Suc_conv)
  have lt: "(of_char x :: nat) < 256" for x by simp
  let ?n = "((of_char a * 256 + of_char b) * 256 + of_char c) * 256 + of_char d :: nat"
  let ?m = "(of_char a * 256 + of_char b) * 256 + of_char c :: nat"
  let ?k = "of_char a * 256 + of_char b :: nat"
  have step: "(x * 256 + of_char y) div 256 = x" "(x * 256 + of_char y) mod 256 = of_char y"
    for x :: nat and y :: char
    using lt [of y] by simp_all
  have "?n div 65536 = ?n div 256 div 256" "?n div 16777216 = ?n div 256 div 256 div 256"
    by (simp_all only: div_mult2_eq [symmetric]) simp_all
  then have "?n div 65536 = ?k" "?n div 16777216 = of_char a" "?n div 256 = ?m"
    by (simp_all only: step)
  then show ?thesis
    unfolding bs to_be_bytes_def from_be_bytes_def
    by (simp only: foldl.simps mult_0 add_0 step) simp
qed

lemma read_exact_Some: "read_exact n s = Some (a, b) \<longleftrightarrow> s = a @ b \<and> length a = n"
  by (auto simp: read_exact_def)

lemma validated_try_from_Ok [res_simps]:
  "validated_try_from e = Ok v \<longleftrightarrow> envelope_validate e = Ok () \<and> v = e"
  by (auto simp: validated_try_from_def and_then_Ok)

lemma encode_frame_Ok:
  "encode_frame js tv m = Ok f \<longleftrightarrow>
     (\<exists>p. canonical_json_v1 js tv m = Ok p \<and> p \<noteq> [] \<and> length p \<le> MAX_BROKER_MESSAGE_BYTES
        \<and> f = to_be_bytes (length p) @ p)"
  by (auto simp: encode_frame_def res_simps MAX_BROKER_MESSAGE_BYTES_def)

lemma decode_frame_Ok:
  "decode_frame js tv parse fv ends stream = Ok (m, rest) \<longleftrightarrow>
     (\<exists>pre p. stream = pre @ p @ rest \<and> length pre = 4 \<and> from_be_bytes pre = length p \<and> p \<noteq> []
        \<and> length p \<le> MAX_BROKER_MESSAGE_BYTES
        \<and> decode_closed_json_v1 js tv parse fv p = Ok m \<and> envelope_validate m = Ok ())"
  (is "?L \<longleftrightarrow> ?R")
proof
  assume ?L
  then obtain pre r p where *: "read_exact 4 stream = Some (pre, r)"
      "from_be_bytes pre \<noteq> 0" "from_be_bytes pre \<le> MAX_BROKER_MESSAGE_BYTES"
      "read_exact (from_be_bytes pre) r = Some (p, rest)"
      "decode_closed_json_v1 js tv parse fv p = Ok m" "envelope_validate m = Ok ()"
    by (auto simp: decode_frame_def res_simps Let_def split: if_splits)
  then have "stream = pre @ r" "length pre = 4" "r = p @ rest" "from_be_bytes pre = length p"
    by (simp_all add: read_exact_Some)
  with * show ?R by (intro exI [of _ pre] exI [of _ p]) auto
next
  assume ?R
  then obtain pre p where *: "stream = pre @ p @ rest" "length pre = 4"
      "from_be_bytes pre = length p" "p \<noteq> []" "length p \<le> MAX_BROKER_MESSAGE_BYTES"
      "decode_closed_json_v1 js tv parse fv p = Ok m" "envelope_validate m = Ok ()" by blast
  moreover have "canonical_json_v1 js tv m = Ok p" using *(6) by (rule decode_closed_Ok)
  ultimately show ?L
    by (simp add: decode_frame_def read_exact_def validated_try_from_def)
qed

lemma canonical_no_floats:
  assumes "canonical_json_v1 js tv m = Ok p"
  shows "reject_floats (tv m) = Ok ()"
proof -
  have "is_ok (reject_floats (tv m))"
    using assms by (simp add: reject_floats_iff_written [of _ js] canonical_json_v1_def)
  then show ?thesis by (auto simp: is_ok_iff)
qed

lemma frame_length_bound: "length p \<le> MAX_BROKER_MESSAGE_BYTES \<Longrightarrow> length p < 2 ^ 32"
  by (simp add: MAX_BROKER_MESSAGE_BYTES_def)

lemma decode_frame_truncated:
  assumes "strict_prefix s (to_be_bytes (length p) @ p)" "p \<noteq> []"
    and "length p \<le> MAX_BROKER_MESSAGE_BYTES"
  shows "decode_frame js tv parse fv ends s =
    Err (map_truncation ends (if length s < 4 then TruncatedPrefix else TruncatedPayload (length p)))"
proof (cases "length s < 4")
  case True
  then show ?thesis by (simp add: decode_frame_def read_exact_def)
next
  case False
  obtain z where z: "to_be_bytes (length p) @ p = s @ z" "z \<noteq> []"
    using assms(1) by (auto elim!: strict_prefixE' simp: strict_prefix_def prefix_def)
  have pre: "take 4 s = to_be_bytes (length p)"
    using arg_cong [OF z(1), of "take 4"] False by simp
  have "length s - 4 < length p"
    using arg_cong [OF z(1), of length] z(2) False by (cases z) auto
  then show ?thesis
    using False pre from_to_be_bytes [OF frame_length_bound [OF assms(3)]] assms(2,3)
    by (auto simp: decode_frame_def read_exact_def Let_def)
qed

subsection \<open>Properties\<close>

text \<open>
  Round trip of the frame codec. A validated message that was framed is decoded from any
  stream that starts with its frame, and exactly the bytes after the frame are left; every
  proper beginning of the frame is reported as truncated, before the prefix is complete or with
  the length of the missing payload, or as the I/O error the stream ended in. The hypothesis on the JSON library is for the one
  payload: it reads back the value that was written.
\<close>

theorem frame_round_trip:
  assumes "validated_try_new msg = Ok m" and "encode_frame js tv m = Ok f"
    and "parse (drop 4 f) = Some (tv m)" and "fv (tv m) = Some m"
  shows "decode_frame js tv parse fv ends (f @ rest) = Ok (m, rest)
    \<and> (\<forall>s. strict_prefix s f \<longrightarrow> decode_frame js tv parse fv ends s =
          Err (map_truncation ends
            (if length s < 4 then TruncatedPrefix else TruncatedPayload (length f - 4))))"
proof -
  obtain p where p: "canonical_json_v1 js tv m = Ok p" "p \<noteq> []"
      "length p \<le> MAX_BROKER_MESSAGE_BYTES" "f = to_be_bytes (length p) @ p"
    using assms(2) by (auto simp: encode_frame_Ok)
  have "decode_closed_json_v1 js tv parse fv p = Ok m"
    using assms(3,4) p(1,4) canonical_no_floats [OF p(1)] by (simp add: decode_closed_json_v1_def)
  moreover have "envelope_validate m = Ok ()"
    using assms(1) by (simp add: validated_try_new_def validated_try_from_Ok)
  ultimately have "decode_frame js tv parse fv ends (f @ rest) = Ok (m, rest)"
    unfolding decode_frame_Ok using p from_to_be_bytes [OF frame_length_bound [OF p(3)]]
    by (intro exI [of _ "to_be_bytes (length p)"] exI [of _ p]) simp
  then show ?thesis using decode_frame_truncated [OF _ p(2,3)] p(4) by auto
qed

definition sample_revoke :: broker_message where
  "sample_revoke = Revoke
     \<lparr>rv_target = RevokeLease (LeaseId (''lea_'' @ sample_hex)), rv_authority_generation = 1,
      rv_reason_code = Operator, rv_revoked_at = 20\<rparr>"

definition sample_frame :: string where
  "sample_frame = [CHR 0x00, CHR 0x00, CHR 0x00, CHR 0x01, CHR ''1'']"

lemma sample_bytes:
  "to_be_bytes (Suc 0) = [CHR 0x00, CHR 0x00, CHR 0x00, CHR 0x01]"
  "from_be_bytes [CHR 0x00, CHR 0x00, CHR 0x00, CHR 0x01] = Suc 0"
  by (simp_all add: to_be_bytes_def from_be_bytes_def char_of_def bit_0)

lemma sample_tv:
  "canonical_json_v1 quote_tilde (\<lambda>_. JNumber (PosInt 1)) m = Ok ''1''"
  by (simp add: canonical_json_v1_def show_nat.simps digit_char_def)

lemma sample_valid: "envelope_validate (envelope_new sample_revoke) = Ok ()"
  by (simp add: envelope_validate_def envelope_new_def sample_revoke_def)

theorem frame_round_trip_witness:
  "validated_try_new sample_revoke = Ok (envelope_new sample_revoke)
   \<and> encode_frame quote_tilde (\<lambda>_. JNumber (PosInt 1)) (envelope_new sample_revoke)
       = Ok sample_frame
   \<and> decode_frame quote_tilde (\<lambda>_. JNumber (PosInt 1)) (\<lambda>_. Some (JNumber (PosInt 1)))
       (\<lambda>_. Some (envelope_new sample_revoke)) (Some ''reset'') (sample_frame @ ''next'')
       = Ok (envelope_new sample_revoke, ''next'')
   \<and> decode_frame quote_tilde (\<lambda>_. JNumber (PosInt 1)) (\<lambda>_. Some (JNumber (PosInt 1)))
       (\<lambda>_. Some (envelope_new sample_revoke)) None (take 4 sample_frame) = Err (TruncatedPayload 1)"
proof -
  have v: "validated_try_new sample_revoke = Ok (envelope_new sample_revoke)"
    by (simp add: validated_try_new_def validated_try_from_Ok envelope_validate_def envelope_new_def
        sample_revoke_def)
  have e: "encode_frame quote_tilde (\<lambda>_. JNumber (PosInt 1)) (envelope_new sample_revoke)
       = Ok sample_frame"
    unfolding encode_frame_Ok sample_tv(1)
    by (simp add: sample_frame_def MAX_BROKER_MESSAGE_BYTES_def sample_bytes)
  have pre: "strict_prefix (take 4 sample_frame) sample_frame" by (simp add: sample_frame_def)
  note t = frame_round_trip [OF v e, of "\<lambda>_. Some (JNumber (PosInt 1))"
      "\<lambda>_. Some (envelope_new sample_revoke)"]
  show ?thesis
    using v e t [of "Some ''reset''" "''next''"] t [of None] pre
    by (auto simp: sample_frame_def map_truncation_def)
qed

text \<open>
  C38. Decoding is exact whatever the JSON library does: a frame is accepted only if its bytes
  are the very bytes that framing the decoded message again would write, and the message passed
  its validation. There is one frame per message, and nothing is skipped or left inside it.
\<close>

theorem decode_frame_exact:
  assumes "decode_frame js tv parse fv ends stream = Ok (m, rest)"
  shows "\<exists>f. encode_frame js tv m = Ok f \<and> stream = f @ rest \<and> envelope_validate m = Ok ()
    \<and> 4 < length f \<and> length f \<le> 4 + 64 * 1024"
proof -
  obtain pre p where *: "stream = pre @ p @ rest" "length pre = 4"
      "from_be_bytes pre = length p" "p \<noteq> []" "length p \<le> MAX_BROKER_MESSAGE_BYTES"
      "decode_closed_json_v1 js tv parse fv p = Ok m" "envelope_validate m = Ok ()"
    using assms by (auto simp: decode_frame_Ok)
  have "encode_frame js tv m = Ok (pre @ p)"
    using * decode_closed_Ok(1) [OF *(6)] to_from_be_bytes [OF *(2)]
    by (auto simp: encode_frame_Ok)
  then show ?thesis using * by (auto simp: MAX_BROKER_MESSAGE_BYTES_def)
qed

theorem decode_frame_exact_witness:
  "decode_frame quote_tilde (\<lambda>_. JNumber (PosInt 1)) (\<lambda>_. Some (JNumber (PosInt 1)))
       (\<lambda>_. Some (envelope_new sample_revoke)) (Some ''reset'') (sample_frame @ ''next'')
       = Ok (envelope_new sample_revoke, ''next'')
   \<and> (\<exists>f. encode_frame quote_tilde (\<lambda>_. JNumber (PosInt 1)) (envelope_new sample_revoke) = Ok f
          \<and> sample_frame @ ''next'' = f @ ''next'')"
proof -
  have d: "decode_frame quote_tilde (\<lambda>_. JNumber (PosInt 1)) (\<lambda>_. Some (JNumber (PosInt 1)))
       (\<lambda>_. Some (envelope_new sample_revoke)) (Some ''reset'') (sample_frame @ ''next'')
       = Ok (envelope_new sample_revoke, ''next'')"
    unfolding decode_frame_Ok
    by (intro exI [of _ "take 4 sample_frame"] exI [of _ "''1''"])
      (simp add: sample_frame_def MAX_BROKER_MESSAGE_BYTES_def sample_bytes decode_closed_json_v1_def
        sample_tv sample_valid)
  then show ?thesis using decode_frame_exact [OF d] by blast
qed

text \<open>
  A valid receipt tells a story the state machine can have: its terminal state is the one
  the outcome names and refuses every further transition; if bytes reached the upstream, the
  request was completed, failed, or revoked while executing, which are exactly the ends of
  the state \<open>Executing\<close>; if it completed, a lease was held and the upstream was opened.
\<close>

theorem valid_receipt_story:
  assumes "message_validate (Receipt r) = Ok ()"
  shows "rc_terminal_state r = expected_terminal_state (rc_outcome r)
    \<and> (\<forall>n. \<not> can_transition_to (rc_terminal_state r) n)
    \<and> (rc_upstream_opened r \<longrightarrow> can_transition_to Executing (rc_terminal_state r))
    \<and> (rc_terminal_state r = StCompleted \<longrightarrow> rc_lease_id r \<noteq> None \<and> rc_upstream_opened r)
    \<and> (rc_terminal_state r \<in> {StDenied, StCancelled} \<longrightarrow>
         rc_lease_id r = None \<and> \<not> rc_upstream_opened r)
    \<and> rc_started_at r \<le> rc_finished_at r"
  using assms
  by (cases "rc_outcome r") (auto simp: receipt_validate_def not_less split: if_splits)

definition sample_receipt :: receipt where
  "sample_receipt =
     \<lparr>rc_execution_record_sha256 = sample_digest, rc_action_id = ActionId (''act_'' @ sample_hex),
      rc_lease_id = Some (LeaseId (''lea_'' @ sample_hex)), rc_terminal_state = StCompleted,
      rc_outcome = OutCompleted, rc_started_at = 20, rc_finished_at = 30,
      rc_upstream_opened = True\<rparr>"

theorem valid_receipt_story_witness:
  "message_validate (Receipt sample_receipt) = Ok ()
   \<and> can_transition_to Executing (rc_terminal_state sample_receipt)
   \<and> \<not> can_transition_to (rc_terminal_state sample_receipt) Executing"
proof -
  have v: "message_validate (Receipt sample_receipt) = Ok ()"
    by (simp add: receipt_validate_def sample_receipt_def is_terminal_def)
  moreover have "rc_upstream_opened sample_receipt" by (simp add: sample_receipt_def)
  ultimately show ?thesis using valid_receipt_story [OF v] by blast
qed

end
