(* ===== verification/Replay_State.thy ===== *)
theory Replay_State
  imports Broker_Lease Canonical_Json
begin

text \<open>
  \<open>phantom-broker/src/replay_store.rs\<close>, the persisted ledger: its data, its validators and
  the body of every transaction (the closure each operation hands to
  \<open>with_locked_state\<close>) as a function from the state read to the result, the state to be
  written and whether anything changed.  An error discards the state, so it returns none.
  The hash functions, the hexadecimal coding and the JSON escaping are libraries: they are the
  fields of \<open>hashes\<close>.
\<close>

subsection \<open>Library functions\<close>

record hashes =
  hs_sha256 :: "string \<Rightarrow> string"
  hs_hmac :: "string \<Rightarrow> string \<Rightarrow> string"
  hs_hex_encode :: "string \<Rightarrow> string"
  hs_hex_decode :: "string \<Rightarrow> string option"
  hs_escape :: "string \<Rightarrow> string"
  hs_binding_value :: "lease_binding \<Rightarrow> json"

definition sha256_hex :: "('a) hashes_scheme \<Rightarrow> string \<Rightarrow> string" where
  "sha256_hex h value = hs_hex_encode h (hs_sha256 h value)"

text \<open>What the code relies on: a hash in hexadecimal is a digest identifier.\<close>

definition hashes_ok :: "('a) hashes_scheme \<Rightarrow> bool" where
  "hashes_ok h \<longleftrightarrow> (\<forall>v. is_ok (parse_sha256_digest (sha256_hex h v)))"

subsection \<open>Data\<close>

definition STORE_FORMAT_VERSION :: u16 where
  "STORE_FORMAT_VERSION = 2"

definition MAX_STATE_BYTES :: u64 where
  "MAX_STATE_BYTES = 8 * 1024 * 1024"

definition STORE_ID_BYTES :: nat where
  "STORE_ID_BYTES = 32"

datatype replay_reservation = ReservedNew lease_id | ReservedExisting lease_id

datatype replay_use_state = RuInProgress | RuCompleting | RuFinished | RuAbandoned

datatype terminal_disposition = DispFinished | DispAbandoned

datatype persisted_use_state =
  UseActive
| UseCompleting sha256_digest terminal_disposition
| UseFinished sha256_digest
| UseAbandoned sha256_digest

fun use_state_of :: "persisted_use_state \<Rightarrow> replay_use_state" where
  "use_state_of UseActive = RuInProgress"
| "use_state_of (UseCompleting _ _) = RuCompleting"
| "use_state_of (UseFinished _) = RuFinished"
| "use_state_of (UseAbandoned _) = RuAbandoned"

record execution_permit =
  ep_lease_id :: lease_id
  ep_broker_generation :: u64
  ep_action_id :: action_id
  ep_operation :: operation
  ep_canonical_args_sha256 :: sha256_digest
  ep_workspace_id :: workspace_id
  ep_workspace_manifest_sha256 :: sha256_digest
  ep_policy_sha256 :: sha256_digest
  ep_constraints :: authority_constraints
  ep_operation_sha256 :: string
  ep_store_binding :: string

record completion_witness =
  cw_lease_id :: lease_id
  cw_broker_generation :: u64
  cw_operation_sha256 :: string
  cw_terminal_record_sha256 :: sha256_digest
  cw_disposition :: terminal_disposition
  cw_store_binding :: string

datatype completion_reservation =
  CompletionNew completion_witness
| CompletionResumed completion_witness
| CompletionExisting replay_use_state

datatype use_reservation = UseNew execution_permit | UseExisting replay_use_state

record persisted_idempotency =
  pi_request_fingerprint_sha256 :: string
  pi_lease_id :: string

record persisted_lease =
  pl_grant_id :: grant_id
  pl_action_id :: action_id
  pl_operation :: operation
  pl_canonical_args_sha256 :: sha256_digest
  pl_workspace_id :: workspace_id
  pl_workspace_manifest_sha256 :: sha256_digest
  pl_policy_sha256 :: sha256_digest
  pl_broker_generation :: u64
  pl_constraints :: authority_constraints
  pl_remaining_uses :: u32
  pl_uses :: "(string, persisted_use_state) btree_map"
  pl_revoked :: bool

record persisted_state =
  ps_store_id :: string
  ps_broker_generation :: u64
  ps_sequence :: u64
  ps_seen_nonce_digests :: "string list"
  ps_idempotency :: "(string, persisted_idempotency) btree_map"
  ps_leases :: "(string, persisted_lease) btree_map"

definition persisted_state_default :: persisted_state where
  "persisted_state_default =
     \<lparr>ps_store_id = [], ps_broker_generation = 0, ps_sequence = 0, ps_seen_nonce_digests = [],
      ps_idempotency = [], ps_leases = []\<rparr>"

datatype storage_error =
  SeUnsupportedPlatform | SeInvalidRoot | SeInvalidWorkspace | SeStorageOverlapsWorkspace
| SeMissing | SeSymlinkRejected | SeInvalidFile | SeUnsafePermissions | SeIdentityChanged
| SeTooLarge | SeInvalidName | SeLockUnavailable | SeInstanceAlreadyActive | SeIo

datatype replay_error =
  InvalidReservationKey | InvalidOperationId | Replay | IdempotencyCollision | LeaseIdCollision
| StaleBrokerGeneration | UnknownLease | Revoked | Expired | CapacityExhausted | UnknownUse
| ForeignPermit | ForeignCompletionWitness | CompletionNotStarted | CompletionConflict
| OperationAlreadyTerminal | ReplayGenerationExhausted | SequenceExhausted | LockPoisoned
| LockUnavailable | AlreadyActive | ActivationPoisoned | InstanceAlreadyActive | NotActive
| AlreadyInitialized | MissingState | StoreIdentityMismatch | InvalidRoot | InvalidWorkspace
| StorageOverlapsWorkspace | SymlinkRejected | StateTooLarge | UnsupportedFormat
| AuthenticationFailed | InvalidState | InvalidKey | ReplayIo | UnsupportedPlatform
| UnsafeStorage | InvalidBinding lease_binding_error | ReplayCanonical canonical_error
| ReplayJson

fun replay_error_of_storage :: "storage_error \<Rightarrow> replay_error" where
  "replay_error_of_storage SeUnsupportedPlatform = UnsupportedPlatform"
| "replay_error_of_storage SeInvalidRoot = InvalidRoot"
| "replay_error_of_storage SeInvalidWorkspace = InvalidWorkspace"
| "replay_error_of_storage SeStorageOverlapsWorkspace = StorageOverlapsWorkspace"
| "replay_error_of_storage SeMissing = MissingState"
| "replay_error_of_storage SeSymlinkRejected = SymlinkRejected"
| "replay_error_of_storage SeTooLarge = StateTooLarge"
| "replay_error_of_storage SeLockUnavailable = LockUnavailable"
| "replay_error_of_storage SeInstanceAlreadyActive = InstanceAlreadyActive"
| "replay_error_of_storage SeInvalidFile = UnsafeStorage"
| "replay_error_of_storage SeUnsafePermissions = UnsafeStorage"
| "replay_error_of_storage SeIdentityChanged = UnsafeStorage"
| "replay_error_of_storage SeInvalidName = UnsafeStorage"
| "replay_error_of_storage SeIo = ReplayIo"

subsection \<open>Validators\<close>

definition validate_key :: "string \<Rightarrow> (unit, replay_error) result" where
  "validate_key key = (if list_all (\<lambda>c. byte_of c = 0) key then Err InvalidKey else Ok ())"

definition validate_store_id :: "string \<Rightarrow> (unit, replay_error) result" where
  "validate_store_id value =
     (if length value \<noteq> STORE_ID_BYTES * 2 \<or> \<not> list_all is_lower_hex value
      then Err InvalidState else Ok ())"

definition key_byte :: "char \<Rightarrow> bool" where
  "key_byte c = (is_ascii_alphanumeric c \<or> c \<in> {CHR ''_'', CHR ''-'', CHR ''.''})"

definition validate_idempotency_key :: "string \<Rightarrow> (unit, replay_error) result" where
  "validate_idempotency_key value =
     (if value = [] \<or> length value > 128 \<or> \<not> list_all key_byte value
      then Err InvalidReservationKey else Ok ())"

definition validate_operation_id :: "string \<Rightarrow> (unit, replay_error) result" where
  "validate_operation_id value =
     (if value = [] \<or> length value > 128 \<or> \<not> list_all key_byte value
      then Err InvalidOperationId else Ok ())"

subsection \<open>Digests of terminal records\<close>

definition digest_of :: "('a) hashes_scheme \<Rightarrow> json \<Rightarrow> (sha256_digest, replay_error) result" where
  "digest_of h value =
     and_then (map_err ReplayCanonical (canonical_json_v1 (hs_escape h) id value)) (\<lambda>text.
       map_err (\<lambda>_. InvalidState) (parse_sha256_digest (sha256_hex h text)))"

definition recovery_terminal_digest ::
  "('a) hashes_scheme \<Rightarrow> string \<Rightarrow> string \<Rightarrow> string \<Rightarrow> (sha256_digest, replay_error) result" where
  "recovery_terminal_digest h store_id subject reason =
     digest_of h (JObject
       [(''version'', JNumber (PosInt 1)), (''store_id'', JString store_id),
        (''subject'', JString subject), (''reason'', JString reason)])"

fun disposition_str :: "terminal_disposition \<Rightarrow> string" where
  "disposition_str DispFinished = ''finished''"
| "disposition_str DispAbandoned = ''abandoned''"

definition legacy_terminal_digest ::
  "('a) hashes_scheme \<Rightarrow> string \<Rightarrow> execution_permit \<Rightarrow> terminal_disposition
     \<Rightarrow> (sha256_digest, replay_error) result" where
  "legacy_terminal_digest h store_id permit disposition =
     digest_of h (JObject
       [(''version'', JNumber (PosInt 1)), (''store_id'', JString store_id),
        (''lease_id'', JString (lease_id_str (ep_lease_id permit))),
        (''operation_sha256'', JString (ep_operation_sha256 permit)),
        (''disposition'', JString (disposition_str disposition))])"

subsection \<open>Transactions\<close>

type_synonym 't transaction =
  "persisted_state \<Rightarrow> ('t \<times> persisted_state \<times> bool, replay_error) result"

fun is_active :: "persisted_use_state \<Rightarrow> bool" where
  "is_active UseActive = True"
| "is_active _ = False"

fun is_live :: "persisted_use_state \<Rightarrow> bool" where
  "is_live UseActive = True"
| "is_live (UseCompleting _ _) = True"
| "is_live _ = False"

definition bump_sequence :: "persisted_state \<Rightarrow> (persisted_state, replay_error) result" where
  "bump_sequence s =
     and_then (ok_or (checked_add (ps_sequence s) 1) SequenceExhausted) (\<lambda>n.
       Ok (s\<lparr>ps_sequence := n\<rparr>))"

text \<open>The loop of \<open>for (key, value) in &mut map\<close> with a fallible body.\<close>

definition bt_try_update ::
  "('k \<Rightarrow> 'v \<Rightarrow> ('v, 'e) result) \<Rightarrow> ('k, 'v) btree_map \<Rightarrow> (('k, 'v) btree_map, 'e) result" where
  "bt_try_update f m = try_map (\<lambda>e. and_then (f (fst e) (snd e)) (\<lambda>v. Ok (fst e, v))) m"

definition abandon_on_restart ::
  "('a) hashes_scheme \<Rightarrow> string \<Rightarrow> string \<Rightarrow> string \<Rightarrow> persisted_use_state
     \<Rightarrow> (persisted_use_state, replay_error) result" where
  "abandon_on_restart h store_id lease_id operation_sha256 u =
     (if is_active u
      then and_then (recovery_terminal_digest h store_id
             (lease_id @ '':'' @ operation_sha256) ''broker_restart'') (\<lambda>d. Ok (UseAbandoned d))
      else Ok u)"

definition restart_lease ::
  "('a) hashes_scheme \<Rightarrow> string \<Rightarrow> string \<Rightarrow> persisted_lease
     \<Rightarrow> (persisted_lease, replay_error) result" where
  "restart_lease h store_id lease_id lease =
     and_then (bt_try_update (abandon_on_restart h store_id lease_id) (pl_uses lease)) (\<lambda>uses.
       Ok (lease\<lparr>pl_revoked := True, pl_uses := uses\<rparr>))"

definition start_epoch_tx :: "('a) hashes_scheme \<Rightarrow> string \<Rightarrow> u64 transaction" where
  "start_epoch_tx h store_id s =
     and_then (ok_or (checked_add (ps_broker_generation s) 1) ReplayGenerationExhausted) (\<lambda>g.
     if g = 0 then Err ReplayGenerationExhausted else
     and_then (bt_try_update (restart_lease h store_id) (ps_leases s)) (\<lambda>leases.
     and_then (bump_sequence (s\<lparr>ps_broker_generation := g, ps_leases := leases\<rparr>)) (\<lambda>s'.
       Ok (g, s', True))))"

definition bs_insert :: "'a::linorder \<Rightarrow> 'a list \<Rightarrow> 'a list" where
  "bs_insert x xs = (if x \<in> set xs then xs else insort x xs)"

definition lease_of_binding :: "lease_binding \<Rightarrow> u32 \<Rightarrow> persisted_lease" where
  "lease_of_binding b limit =
     \<lparr>pl_grant_id = lb_grant_id b, pl_action_id = lb_action_id b, pl_operation = lb_operation b,
      pl_canonical_args_sha256 = lb_canonical_args_sha256 b,
      pl_workspace_id = ea_workspace_id (lb_expected_authority b),
      pl_workspace_manifest_sha256 = ea_workspace_manifest_sha256 (lb_expected_authority b),
      pl_policy_sha256 = ea_policy_sha256 (lb_expected_authority b),
      pl_broker_generation = lb_broker_generation b, pl_constraints = lb_constraints b,
      pl_remaining_uses = limit, pl_uses = [], pl_revoked = False\<rparr>"

definition reserve_tx ::
  "string \<Rightarrow> string \<Rightarrow> string \<Rightarrow> lease_binding \<Rightarrow> replay_reservation transaction" where
  "reserve_tx nonce idempotency_digest request_fingerprint b s =
     (let lease_id = lease_id_str (lb_lease_id b) in
      if ps_broker_generation s = 0 \<or> lb_broker_generation b \<noteq> ps_broker_generation s
      then Err StaleBrokerGeneration
      else case map_of (ps_idempotency s) idempotency_digest of
        Some existing \<Rightarrow>
          if pi_request_fingerprint_sha256 existing = request_fingerprint
          then and_then (map_err (\<lambda>_. InvalidState) (parse_lease_id (pi_lease_id existing))) (\<lambda>i.
                 Ok (ReservedExisting i, s, False))
          else Err IdempotencyCollision
      | None \<Rightarrow>
          if nonce \<in> set (ps_seen_nonce_digests s) then Err Replay
          else if map_of (ps_leases s) lease_id \<noteq> None then Err LeaseIdCollision
          else and_then (ok_or (use_capacity_limits (uc_capacity (ac_uses (lb_constraints b))))
                 (InvalidBinding LeaseNoUsableCapacity)) (\<lambda>(limit, _).
               and_then (bump_sequence (s\<lparr>
                   ps_seen_nonce_digests := bs_insert nonce (ps_seen_nonce_digests s),
                   ps_idempotency := bt_insert idempotency_digest
                     \<lparr>pi_request_fingerprint_sha256 = request_fingerprint, pi_lease_id = lease_id\<rparr>
                     (ps_idempotency s),
                   ps_leases := bt_insert lease_id (lease_of_binding b limit) (ps_leases s)\<rparr>))
                 (\<lambda>s'. Ok (ReservedNew (lb_lease_id b), s', True))))"

definition update_lease :: "string \<Rightarrow> persisted_lease \<Rightarrow> persisted_state \<Rightarrow> persisted_state" where
  "update_lease lease_id lease s = s\<lparr>ps_leases := bt_insert lease_id lease (ps_leases s)\<rparr>"

definition update_use ::
  "string \<Rightarrow> string \<Rightarrow> persisted_use_state \<Rightarrow> persisted_lease \<Rightarrow> persisted_state
     \<Rightarrow> persisted_state" where
  "update_use lease_id operation_digest u lease s =
     update_lease lease_id (lease\<lparr>pl_uses := bt_insert operation_digest u (pl_uses lease)\<rparr>) s"

definition active_uses :: "persisted_lease \<Rightarrow> nat" where
  "active_uses lease = length (filter is_live (bt_values (pl_uses lease)))"

definition permit_of ::
  "lease_id \<Rightarrow> u64 \<Rightarrow> persisted_lease \<Rightarrow> string \<Rightarrow> string \<Rightarrow> execution_permit" where
  "permit_of i generation lease operation_digest store_binding =
     \<lparr>ep_lease_id = i, ep_broker_generation = generation, ep_action_id = pl_action_id lease,
      ep_operation = pl_operation lease,
      ep_canonical_args_sha256 = pl_canonical_args_sha256 lease,
      ep_workspace_id = pl_workspace_id lease,
      ep_workspace_manifest_sha256 = pl_workspace_manifest_sha256 lease,
      ep_policy_sha256 = pl_policy_sha256 lease, ep_constraints = pl_constraints lease,
      ep_operation_sha256 = operation_digest, ep_store_binding = store_binding\<rparr>"

definition begin_use_tx ::
  "string \<Rightarrow> string \<Rightarrow> string \<Rightarrow> u64 \<Rightarrow> use_reservation transaction" where
  "begin_use_tx store_binding lease_id operation_digest now s =
     (let generation = ps_broker_generation s in
      and_then (ok_or (map_of (ps_leases s) lease_id) UnknownLease) (\<lambda>lease.
      if pl_revoked lease \<or> pl_broker_generation lease \<noteq> generation then Err Revoked
      else if now < tc_not_before (ac_time (pl_constraints lease))
              \<or> tc_expires_at (ac_time (pl_constraints lease)) \<le> now then Err Expired
      else case map_of (pl_uses lease) operation_digest of
        Some existing \<Rightarrow> Ok (UseExisting (use_state_of existing), s, False)
      | None \<Rightarrow>
          (case uc_capacity (ac_uses (pl_constraints lease)) of
             CapacityDenied \<Rightarrow> Err CapacityExhausted
           | CapacityBounded _ max_concurrent \<Rightarrow>
               if pl_remaining_uses lease = 0 \<or> unat max_concurrent \<le> active_uses lease
               then Err CapacityExhausted
               else and_then (bump_sequence (update_use lease_id operation_digest UseActive
                      (lease\<lparr>pl_remaining_uses := pl_remaining_uses lease - 1\<rparr>) s)) (\<lambda>s'.
                    and_then (map_err (\<lambda>_. InvalidState) (parse_lease_id lease_id)) (\<lambda>i.
                      Ok (UseNew (permit_of i generation lease operation_digest store_binding),
                          s', True))))))"

definition begin_completion_tx ::
  "execution_permit \<Rightarrow> sha256_digest \<Rightarrow> terminal_disposition
     \<Rightarrow> completion_reservation transaction" where
  "begin_completion_tx permit digest disposition s =
     (let lease_id = lease_id_str (ep_lease_id permit);
          operation_digest = ep_operation_sha256 permit;
          witness = \<lparr>cw_lease_id = ep_lease_id permit,
            cw_broker_generation = ep_broker_generation permit,
            cw_operation_sha256 = operation_digest, cw_terminal_record_sha256 = digest,
            cw_disposition = disposition, cw_store_binding = ep_store_binding permit\<rparr>
      in
      if ep_broker_generation permit \<noteq> ps_broker_generation s then Err Revoked
      else and_then (ok_or (map_of (ps_leases s) lease_id) UnknownLease) (\<lambda>lease.
      if pl_revoked lease \<or> pl_broker_generation lease \<noteq> ep_broker_generation permit
      then Err Revoked
      else and_then (ok_or (map_of (pl_uses lease) operation_digest) UnknownUse) (\<lambda>use_state.
      case use_state of
        UseActive \<Rightarrow>
          and_then (bump_sequence (update_use lease_id operation_digest
            (UseCompleting digest disposition) lease s)) (\<lambda>s'.
            Ok (CompletionNew witness, s', True))
      | UseCompleting d p \<Rightarrow>
          if d = digest \<and> p = disposition then Ok (CompletionResumed witness, s, False)
          else Err CompletionConflict
      | UseFinished d \<Rightarrow>
          if d = digest \<and> disposition = DispFinished
          then Ok (CompletionExisting RuFinished, s, False) else Err CompletionConflict
      | UseAbandoned d \<Rightarrow>
          if d = digest \<and> disposition = DispAbandoned
          then Ok (CompletionExisting RuAbandoned, s, False) else Err CompletionConflict)))"

definition resume_completion_tx ::
  "string \<Rightarrow> lease_id \<Rightarrow> string \<Rightarrow> sha256_digest \<Rightarrow> terminal_disposition
     \<Rightarrow> completion_reservation transaction" where
  "resume_completion_tx store_binding i operation_digest digest disposition s =
     and_then (ok_or (map_of (ps_leases s) (lease_id_str i)) UnknownLease) (\<lambda>lease.
     and_then (ok_or (map_of (pl_uses lease) operation_digest) UnknownUse) (\<lambda>use_state.
     let witness = \<lparr>cw_lease_id = i, cw_broker_generation = pl_broker_generation lease,
           cw_operation_sha256 = operation_digest, cw_terminal_record_sha256 = digest,
           cw_disposition = disposition, cw_store_binding = store_binding\<rparr>
     in case use_state of
        UseCompleting d p \<Rightarrow>
          if d = digest \<and> p = disposition then Ok (CompletionResumed witness, s, False)
          else Err CompletionConflict
      | UseFinished d \<Rightarrow>
          if d = digest \<and> disposition = DispFinished
          then Ok (CompletionExisting RuFinished, s, False) else Err CompletionConflict
      | UseAbandoned d \<Rightarrow>
          if d = digest \<and> disposition = DispAbandoned
          then Ok (CompletionExisting RuAbandoned, s, False) else Err CompletionConflict
      | UseActive \<Rightarrow> Err CompletionNotStarted))"

fun terminal_use_state :: "terminal_disposition \<Rightarrow> sha256_digest \<Rightarrow> persisted_use_state" where
  "terminal_use_state DispFinished d = UseFinished d"
| "terminal_use_state DispAbandoned d = UseAbandoned d"

definition commit_completion_tx :: "completion_witness \<Rightarrow> unit transaction" where
  "commit_completion_tx w s =
     (let lease_id = lease_id_str (cw_lease_id w);
          operation_digest = cw_operation_sha256 w;
          digest = cw_terminal_record_sha256 w
      in
      and_then (ok_or (map_of (ps_leases s) lease_id) UnknownLease) (\<lambda>lease.
      if cw_broker_generation w \<noteq> pl_broker_generation lease then Err ForeignCompletionWitness
      else and_then (ok_or (map_of (pl_uses lease) operation_digest) UnknownUse) (\<lambda>use_state.
      case use_state of
        UseCompleting d p \<Rightarrow>
          if d = digest \<and> p = cw_disposition w
          then and_then (bump_sequence (update_use lease_id operation_digest
                 (terminal_use_state (cw_disposition w) digest) lease s)) (\<lambda>s'. Ok ((), s', True))
          else Err CompletionConflict
      | UseFinished d \<Rightarrow>
          if d = digest \<and> cw_disposition w = DispFinished then Ok ((), s, False)
          else Err CompletionConflict
      | UseAbandoned d \<Rightarrow>
          if d = digest \<and> cw_disposition w = DispAbandoned then Ok ((), s, False)
          else Err CompletionConflict
      | UseActive \<Rightarrow> Err CompletionNotStarted)))"

definition abandon_on_revoke ::
  "('a) hashes_scheme \<Rightarrow> string \<Rightarrow> string \<Rightarrow> string \<Rightarrow> persisted_use_state
     \<Rightarrow> (persisted_use_state, replay_error) result" where
  "abandon_on_revoke h store_id lease_id operation_sha256 u =
     (if is_active u
      then and_then (recovery_terminal_digest h store_id lease_id ''revoked_before_completion'')
             (\<lambda>d. Ok (UseAbandoned d))
      else Ok u)"

definition revoke_tx :: "('a) hashes_scheme \<Rightarrow> string \<Rightarrow> string \<Rightarrow> unit transaction" where
  "revoke_tx h store_id lease_id s =
     and_then (ok_or (map_of (ps_leases s) lease_id) UnknownLease) (\<lambda>lease.
     if pl_revoked lease then Ok ((), s, False)
     else and_then (bt_try_update (abandon_on_revoke h store_id lease_id) (pl_uses lease)) (\<lambda>uses.
          and_then (bump_sequence (update_lease lease_id
            (lease\<lparr>pl_revoked := True, pl_uses := uses\<rparr>) s)) (\<lambda>s'. Ok ((), s', True))))"

definition generation_tx :: "u64 transaction" where
  "generation_tx s = Ok (ps_broker_generation s, s, False)"

subsection \<open>Status displays\<close>

record lease_summary =
  ls_lease_id :: lease_id
  ls_grant_id :: grant_id
  ls_operation :: operation
  ls_workspace_id :: workspace_id
  ls_broker_generation :: u64
  ls_remaining_uses :: u32
  ls_revoked :: bool
  ls_active_uses :: u32
  ls_not_before :: u64
  ls_expires_at :: u64

datatype lease_status =
  RevokedByRestart | StatusRevoked | NotYetValid | StatusExpired | Exhausted | Current
| Inconsistent

definition summary_status :: "lease_summary \<Rightarrow> u64 \<Rightarrow> u64 \<Rightarrow> lease_status" where
  "summary_status l store_generation now =
     (if store_generation < ls_broker_generation l then Inconsistent
      else if ls_broker_generation l < store_generation then RevokedByRestart
      else if ls_revoked l then StatusRevoked
      else if now < ls_not_before l then NotYetValid
      else if ls_expires_at l \<le> now then StatusExpired
      else if ls_remaining_uses l = 0 then Exhausted
      else Current)"

definition summary_of ::
  "string \<Rightarrow> persisted_lease \<Rightarrow> (lease_summary, replay_error) result" where
  "summary_of lease_id lease =
     (let active = length (filter is_active (bt_values (pl_uses lease))) in
      and_then (map_err (\<lambda>_. InvalidState) (parse_lease_id lease_id)) (\<lambda>i.
      and_then (ok_or (word_try_from active) InvalidState) (\<lambda>count.
      Ok \<lparr>ls_lease_id = i, ls_grant_id = pl_grant_id lease, ls_operation = pl_operation lease,
        ls_workspace_id = pl_workspace_id lease,
        ls_broker_generation = pl_broker_generation lease,
        ls_remaining_uses = pl_remaining_uses lease, ls_revoked = pl_revoked lease,
        ls_active_uses = count,
        ls_not_before = tc_not_before (ac_time (pl_constraints lease)),
        ls_expires_at = tc_expires_at (ac_time (pl_constraints lease))\<rparr>)))"

definition list_leases_tx :: "lease_summary list transaction" where
  "list_leases_tx s =
     and_then (try_map (\<lambda>e. summary_of (fst e) (snd e)) (ps_leases s)) (\<lambda>leases.
       Ok (leases, s, False))"

end
