(* ===== verification/Replay_Store.thy ===== *)
theory Replay_Store
  imports Replay_State
begin

text \<open>
  \<open>phantom-broker/src/replay_store.rs\<close>, the durable store: the authenticated snapshot on
  disk, the locked read-modify-write transaction, the activation state machine of a handle,
  and the public operations.  The file system (\<open>replay_storage.rs\<close>) is the record
  \<open>io\<close> of what each call to it returns; in particular a failed replacement either left the
  old file (\<open>ReplaceLost\<close>) or the new one (\<open>ReplaceUncertain\<close>, the directory could not be
  synchronised after the rename).  The JSON library turns snapshots into a type \<open>'b\<close> of byte
  strings, of which the code observes only the length.
\<close>

subsection \<open>Environment\<close>

record signed_state =
  ss_format_version :: u16
  ss_payload :: persisted_state
  ss_hmac_sha256 :: string

record 'b host = hashes +
  ho_mac_value :: "u16 \<Rightarrow> persisted_state \<Rightarrow> json"
  ho_reload :: "persisted_state \<Rightarrow> persisted_state option"
  ho_to_vec :: "signed_state \<Rightarrow> 'b option"
  ho_from_slice :: "'b \<Rightarrow> signed_state option"
  ho_len :: "'b \<Rightarrow> u64"

text \<open>
  What the code relies on: a serialized snapshot parses back to itself (also through the plain
  round trip of line 1099), and decoding undoes hexadecimal encoding.
\<close>

definition host_ok :: "'b host \<Rightarrow> bool" where
  "host_ok h \<longleftrightarrow> hashes_ok h
     \<and> (\<forall>s b. ho_to_vec h s = Some b \<longrightarrow> ho_from_slice h b = Some s)
     \<and> (\<forall>s t. ho_reload h s = Some t \<longrightarrow> t = s)
     \<and> (\<forall>x. hs_hex_decode h (hs_hex_encode h x) = Some x)"

datatype replace_outcome =
  Replaced | ReplaceLost storage_error | ReplaceUncertain storage_error

record io =
  io_poisoned :: bool
  io_lock :: "storage_error option"
  io_exists :: "storage_error option"
  io_read :: "storage_error option"
  io_replace :: replace_outcome
  io_instance :: "storage_error option"
  io_instance_poisoned :: bool
  io_open :: "storage_error option"
  io_overlaps :: "(bool, storage_error) result"

definition io_fine :: io where
  "io_fine = \<lparr>io_poisoned = False, io_lock = None, io_exists = None, io_read = None,
     io_replace = Replaced, io_instance = None, io_instance_poisoned = False, io_open = None, io_overlaps = Ok False\<rparr>"

record 'b world =
  w_state :: "'b option"
  w_legacy :: bool
  w_instance_locked :: bool

datatype activation = INACTIVE | ACTIVATING | ACTIVE | POISONED

record replay_store =
  rs_store_id :: string
  rs_key :: string
  rs_activation :: activation
  rs_instance_lock :: bool

fun io_check :: "storage_error option \<Rightarrow> (unit, replay_error) result" where
  "io_check None = Ok ()"
| "io_check (Some e) = Err (replay_error_of_storage e)"

lemma io_check_Ok [res_simps]: "io_check c = Ok u \<longleftrightarrow> c = None"
  by (cases c) auto

subsection \<open>The authenticated snapshot\<close>

definition STATE_MAC_DOMAIN :: string where
  "STATE_MAC_DOMAIN = ''phantom.broker.replay-state.v2'' @ [CHR 0x00]"

definition state_mac ::
  "'b host \<Rightarrow> string \<Rightarrow> persisted_state \<Rightarrow> (string, replay_error) result" where
  "state_mac h key s =
     and_then (map_err ReplayCanonical
       (canonical_json_v1 (hs_escape h) (ho_mac_value h STORE_FORMAT_VERSION) s)) (\<lambda>input.
       Ok (hs_hmac h key (STATE_MAC_DOMAIN @ input)))"

definition authenticated_state_bytes ::
  "'b host \<Rightarrow> persisted_state \<Rightarrow> string \<Rightarrow> ('b, replay_error) result" where
  "authenticated_state_bytes h s key =
     and_then (validate_store_id (ps_store_id s)) (\<lambda>_.
     and_then (state_mac h key s) (\<lambda>mac.
     and_then (ok_or (ho_reload h s) ReplayJson) (\<lambda>payload.
       ok_or (ho_to_vec h \<lparr>ss_format_version = STORE_FORMAT_VERSION, ss_payload = payload,
                           ss_hmac_sha256 = hs_hex_encode h mac\<rparr>) ReplayJson)))"

definition recovery_use :: "sha256_digest \<Rightarrow> persisted_use_state \<Rightarrow> persisted_use_state" where
  "recovery_use d u = (if is_active u then UseAbandoned d else u)"

definition recovery_sized_state :: "persisted_state \<Rightarrow> (persisted_state, replay_error) result" where
  "recovery_sized_state s =
     and_then (map_err (\<lambda>_. InvalidState) (parse_sha256_digest (replicate 64 (CHR ''f'')))) (\<lambda>d.
       Ok (s\<lparr>ps_broker_generation := - 1, ps_sequence := - 1,
            ps_leases := bt_map_values
              (\<lambda>_ l. l\<lparr>pl_uses := bt_map_values (\<lambda>_. recovery_use d) (pl_uses l)\<rparr>) (ps_leases s)\<rparr>))"

definition authenticated_state_bytes_with_limit ::
  "'b host \<Rightarrow> persisted_state \<Rightarrow> string \<Rightarrow> u64 \<Rightarrow> ('b, replay_error) result" where
  "authenticated_state_bytes_with_limit h s key max_state_bytes =
     and_then (authenticated_state_bytes h s key) (\<lambda>bytes.
     and_then (recovery_sized_state s) (\<lambda>recovery.
     and_then (authenticated_state_bytes h recovery key) (\<lambda>recovery_bytes.
       if max_state_bytes < ho_len h bytes \<or> max_state_bytes < ho_len h recovery_bytes
       then Err StateTooLarge else Ok bytes)))"

definition storage_read :: "'b host \<Rightarrow> io \<Rightarrow> 'b world \<Rightarrow> u64 \<Rightarrow> ('b, replay_error) result" where
  "storage_read h io w max_bytes =
     and_then (io_check (io_read io)) (\<lambda>_.
     and_then (ok_or (w_state w) MissingState) (\<lambda>bytes.
       if max_bytes < ho_len h bytes then Err StateTooLarge else Ok bytes))"

definition read_authenticated_state ::
  "'b host \<Rightarrow> io \<Rightarrow> string \<Rightarrow> 'b world \<Rightarrow> (persisted_state, replay_error) result" where
  "read_authenticated_state h io key w =
     and_then (storage_read h io w MAX_STATE_BYTES) (\<lambda>bytes.
     and_then (ok_or (ho_from_slice h bytes) InvalidState) (\<lambda>signed.
     if ss_format_version signed \<noteq> STORE_FORMAT_VERSION then Err UnsupportedFormat
     else and_then (ok_or (hs_hex_decode h (ss_hmac_sha256 signed)) InvalidState) (\<lambda>expected.
     and_then (state_mac h key (ss_payload signed)) (\<lambda>mac.
     if mac \<noteq> expected then Err AuthenticationFailed
     else and_then (authenticated_state_bytes_with_limit h (ss_payload signed) key MAX_STATE_BYTES)
       (\<lambda>_. Ok (ss_payload signed))))))"

fun storage_replace :: "io \<Rightarrow> 'b \<Rightarrow> 'b world \<Rightarrow> (unit, replay_error) result \<times> 'b world" where
  "storage_replace io bytes w =
     (case io_replace io of
        Replaced \<Rightarrow> (Ok (), w\<lparr>w_state := Some bytes\<rparr>)
      | ReplaceLost e \<Rightarrow> (Err (replay_error_of_storage e), w)
      | ReplaceUncertain e \<Rightarrow> (Err (replay_error_of_storage e), w\<lparr>w_state := Some bytes\<rparr>))"

definition write_authenticated_state ::
  "'b host \<Rightarrow> io \<Rightarrow> persisted_state \<Rightarrow> string \<Rightarrow> 'b world
     \<Rightarrow> (unit, replay_error) result \<times> 'b world" where
  "write_authenticated_state h io s key w =
     (case authenticated_state_bytes_with_limit h s key MAX_STATE_BYTES of
        Inl e \<Rightarrow> (Err e, w)
      | Inr bytes \<Rightarrow> storage_replace io bytes w)"

subsection \<open>Locked transactions\<close>

definition with_locked_state_unchecked ::
  "'b host \<Rightarrow> io \<Rightarrow> replay_store \<Rightarrow> 't transaction \<Rightarrow> 'b world
     \<Rightarrow> ('t, replay_error) result \<times> 'b world" where
  "with_locked_state_unchecked h io st tx w =
     (let opened =
        and_then (ensure (\<not> io_poisoned io) LockPoisoned) (\<lambda>_.
        and_then (io_check (io_lock io)) (\<lambda>_.
        and_then (io_check (io_exists io)) (\<lambda>_.
        and_then (ensure (w_state w \<noteq> None) MissingState) (\<lambda>_.
        and_then (read_authenticated_state h io (rs_key st) w) (\<lambda>s.
        and_then (ensure (ps_store_id s = rs_store_id st) StoreIdentityMismatch) (\<lambda>_.
          tx s))))))
      in case opened of
           Inl e \<Rightarrow> (Err e, w)
         | Inr (t, s', changed) \<Rightarrow>
             if changed
             then (case write_authenticated_state h io s' (rs_key st) w of
                     (Inl e, w') \<Rightarrow> (Err e, w')
                   | (Inr _, w') \<Rightarrow> (Ok t, w'))
             else (Ok t, w))"

definition ensure_active :: "replay_store \<Rightarrow> (unit, replay_error) result" where
  "ensure_active st = (if rs_activation st \<noteq> ACTIVE then Err NotActive else Ok ())"

definition with_locked_state ::
  "'b host \<Rightarrow> io \<Rightarrow> replay_store \<Rightarrow> 't transaction \<Rightarrow> 'b world
     \<Rightarrow> ('t, replay_error) result \<times> 'b world" where
  "with_locked_state h io st tx w =
     (case ensure_active st of
        Inl e \<Rightarrow> (Err e, w)
      | Inr _ \<Rightarrow> with_locked_state_unchecked h io st tx w)"

subsection \<open>Opening and activating a store\<close>

definition from_parts :: "string \<Rightarrow> string \<Rightarrow> replay_store" where
  "from_parts store_id key =
     \<lparr>rs_store_id = store_id, rs_key = key, rs_activation = INACTIVE, rs_instance_lock = False\<rparr>"

text \<open>\<open>random\<close> is what the operating system's generator returned.\<close>

definition bootstrap ::
  "'b host \<Rightarrow> io \<Rightarrow> string \<Rightarrow> string \<Rightarrow> 'b world
     \<Rightarrow> (replay_store, replay_error) result \<times> 'b world" where
  "bootstrap h io random key w =
     (let opened =
        and_then (validate_key key) (\<lambda>_.
        and_then (io_check (io_open io)) (\<lambda>_.
        and_then (io_check (io_lock io)) (\<lambda>_.
        and_then (io_check (io_exists io)) (\<lambda>_.
          ensure (w_state w = None \<and> \<not> w_legacy w) AlreadyInitialized))));
        state = persisted_state_default\<lparr>ps_store_id := hs_hex_encode h random\<rparr>
      in case opened of
           Inl e \<Rightarrow> (Err e, w)
         | Inr _ \<Rightarrow>
             (case write_authenticated_state h io state key w of
                (Inl e, w') \<Rightarrow> (Err e, w')
              | (Inr _, w') \<Rightarrow> (Ok (from_parts (ps_store_id state) key), w')))"

definition open_existing ::
  "'b host \<Rightarrow> io \<Rightarrow> string \<Rightarrow> 'b world \<Rightarrow> (replay_store, replay_error) result" where
  "open_existing h io key w =
     and_then (validate_key key) (\<lambda>_.
     and_then (io_check (io_open io)) (\<lambda>_.
     and_then (map_err replay_error_of_storage (io_overlaps io)) (\<lambda>overlaps.
     if overlaps then Err StorageOverlapsWorkspace
     else and_then (io_check (io_lock io)) (\<lambda>_.
     and_then (io_check (io_exists io)) (\<lambda>_.
     if w_state w = None
     then (if w_legacy w then Err UnsupportedFormat else Err MissingState)
     else and_then (read_authenticated_state h io key w) (\<lambda>state.
     and_then (validate_store_id (ps_store_id state)) (\<lambda>_.
       Ok (from_parts (ps_store_id state) key))))))))"

definition try_lock_instance ::
  "io \<Rightarrow> 'b world \<Rightarrow> (unit, storage_error) result" where
  "try_lock_instance io w =
     (case io_instance io of
        Some e \<Rightarrow> Err e
      | None \<Rightarrow> if w_instance_locked w then Err SeInstanceAlreadyActive else Ok ())"

definition start_epoch ::
  "'b host \<Rightarrow> io \<Rightarrow> replay_store \<Rightarrow> 'b world
     \<Rightarrow> (u64, replay_error) result \<times> replay_store \<times> 'b world" where
  "start_epoch h io st w =
     (case rs_activation st of
        POISONED \<Rightarrow> (Err ActivationPoisoned, st, w)
      | ACTIVATING \<Rightarrow> (Err AlreadyActive, st, w)
      | ACTIVE \<Rightarrow> (Err AlreadyActive, st, w)
      | INACTIVE \<Rightarrow>
          (case try_lock_instance io w of
             Inl SeInstanceAlreadyActive \<Rightarrow>
               (Err InstanceAlreadyActive, st\<lparr>rs_activation := INACTIVE\<rparr>, w)
           | Inl e \<Rightarrow> (Err (replay_error_of_storage e), st\<lparr>rs_activation := POISONED\<rparr>, w)
           | Inr _ \<Rightarrow>
               (case with_locked_state_unchecked h io st (start_epoch_tx h (rs_store_id st)) w of
                  (Inl e, w') \<Rightarrow> (Err e, st\<lparr>rs_activation := POISONED\<rparr>, w')
                | (Inr generation, w') \<Rightarrow>
                    if io_instance_poisoned io
                    then (Err LockPoisoned, st\<lparr>rs_activation := POISONED\<rparr>, w')
                    else (Ok generation, st\<lparr>rs_activation := ACTIVE, rs_instance_lock := True\<rparr>,
                          w'\<lparr>w_instance_locked := True\<rparr>))))"

text \<open>Dropping a handle releases the instance lock it holds, and nothing else.\<close>

definition drop_store :: "replay_store \<Rightarrow> 'b world \<Rightarrow> 'b world" where
  "drop_store st w = (if rs_instance_lock st then w\<lparr>w_instance_locked := False\<rparr> else w)"

subsection \<open>Operations\<close>

definition STORE_BINDING_DOMAIN :: string where
  "STORE_BINDING_DOMAIN = ''phantom.broker.replay-store-binding.v2'' @ [CHR 0x00]"

definition store_binding :: "'b host \<Rightarrow> replay_store \<Rightarrow> string" where
  "store_binding h st =
     hs_hex_encode h (hs_hmac h (rs_key st) (STORE_BINDING_DOMAIN @ rs_store_id st))"

definition current_generation ::
  "'b host \<Rightarrow> io \<Rightarrow> replay_store \<Rightarrow> 'b world \<Rightarrow> (u64, replay_error) result \<times> 'b world" where
  "current_generation h io st w =
     (case ensure_active st of
        Inl e \<Rightarrow> (Err e, w)
      | Inr _ \<Rightarrow> with_locked_state_unchecked h io st generation_tx w)"

definition reserve_lease ::
  "'b host \<Rightarrow> io \<Rightarrow> replay_store \<Rightarrow> sha256_digest \<Rightarrow> string \<Rightarrow> lease_binding \<Rightarrow> 'b world
     \<Rightarrow> (replay_reservation, replay_error) result \<times> 'b world" where
  "reserve_lease h io st grant_nonce_sha256 idempotency_key b w =
     (let prepared =
        and_then (map_err InvalidBinding (lease_validate b)) (\<lambda>_.
        and_then (validate_idempotency_key idempotency_key) (\<lambda>_.
        and_then (map_err ReplayCanonical
          (canonical_json_v1 (hs_escape h) (hs_binding_value h) b)) (\<lambda>text.
          Ok (sha256_hex h text))))
      in case prepared of
           Inl e \<Rightarrow> (Err e, w)
         | Inr request_fingerprint \<Rightarrow>
             with_locked_state h io st
               (reserve_tx (digest_str grant_nonce_sha256) (sha256_hex h idempotency_key)
                  request_fingerprint b) w)"

definition begin_use ::
  "'b host \<Rightarrow> io \<Rightarrow> replay_store \<Rightarrow> lease_id \<Rightarrow> string \<Rightarrow> u64 \<Rightarrow> 'b world
     \<Rightarrow> (use_reservation, replay_error) result \<times> 'b world" where
  "begin_use h io st i operation_id now w =
     (case validate_operation_id operation_id of
        Inl e \<Rightarrow> (Err e, w)
      | Inr _ \<Rightarrow>
          with_locked_state h io st
            (begin_use_tx (store_binding h st) (lease_id_str i) (sha256_hex h operation_id) now) w)"

definition validate_permit ::
  "'b host \<Rightarrow> replay_store \<Rightarrow> execution_permit \<Rightarrow> (unit, replay_error) result" where
  "validate_permit h st permit =
     (if ep_store_binding permit \<noteq> store_binding h st then Err ForeignPermit else Ok ())"

definition begin_completion ::
  "'b host \<Rightarrow> io \<Rightarrow> replay_store \<Rightarrow> execution_permit \<Rightarrow> sha256_digest \<Rightarrow> terminal_disposition
     \<Rightarrow> 'b world \<Rightarrow> (completion_reservation, replay_error) result \<times> 'b world" where
  "begin_completion h io st permit digest disposition w =
     (case validate_permit h st permit of
        Inl e \<Rightarrow> (Err e, w)
      | Inr _ \<Rightarrow> with_locked_state h io st (begin_completion_tx permit digest disposition) w)"

definition resume_completion ::
  "'b host \<Rightarrow> io \<Rightarrow> replay_store \<Rightarrow> lease_id \<Rightarrow> string \<Rightarrow> sha256_digest
     \<Rightarrow> terminal_disposition \<Rightarrow> 'b world
     \<Rightarrow> (completion_reservation, replay_error) result \<times> 'b world" where
  "resume_completion h io st i operation_id digest disposition w =
     (case validate_operation_id operation_id of
        Inl e \<Rightarrow> (Err e, w)
      | Inr _ \<Rightarrow>
          with_locked_state h io st
            (resume_completion_tx (store_binding h st) i (sha256_hex h operation_id) digest
               disposition) w)"

definition commit_completion ::
  "'b host \<Rightarrow> io \<Rightarrow> replay_store \<Rightarrow> completion_witness \<Rightarrow> 'b world
     \<Rightarrow> (unit, replay_error) result \<times> 'b world" where
  "commit_completion h io st c w =
     (if cw_store_binding c \<noteq> store_binding h st then (Err ForeignCompletionWitness, w)
      else with_locked_state h io st (commit_completion_tx c) w)"

text \<open>\<open>io\<close> answers the transaction that begins the completion, \<open>io'\<close> the one that commits it.\<close>

definition legacy_terminalize ::
  "'b host \<Rightarrow> io \<Rightarrow> io \<Rightarrow> replay_store \<Rightarrow> execution_permit \<Rightarrow> terminal_disposition \<Rightarrow> 'b world
     \<Rightarrow> (unit, replay_error) result \<times> 'b world" where
  "legacy_terminalize h io io' st permit disposition w =
     (case legacy_terminal_digest h (rs_store_id st) permit disposition of
        Inl e \<Rightarrow> (Err e, w)
      | Inr digest \<Rightarrow>
          (case begin_completion h io st permit digest disposition w of
             (Inl CompletionConflict, w') \<Rightarrow> (Err OperationAlreadyTerminal, w')
           | (Inl e, w') \<Rightarrow> (Err e, w')
           | (Inr (CompletionNew c), w') \<Rightarrow> commit_completion h io' st c w'
           | (Inr (CompletionResumed c), w') \<Rightarrow> commit_completion h io' st c w'
           | (Inr (CompletionExisting _), w') \<Rightarrow> (Ok (), w')))"

definition finish_use ::
  "'b host \<Rightarrow> io \<Rightarrow> io \<Rightarrow> replay_store \<Rightarrow> execution_permit \<Rightarrow> 'b world
     \<Rightarrow> (unit, replay_error) result \<times> 'b world" where
  "finish_use h io io' st permit w = legacy_terminalize h io io' st permit DispFinished w"

definition abandon_use ::
  "'b host \<Rightarrow> io \<Rightarrow> io \<Rightarrow> replay_store \<Rightarrow> execution_permit \<Rightarrow> 'b world
     \<Rightarrow> (unit, replay_error) result \<times> 'b world" where
  "abandon_use h io io' st permit w = legacy_terminalize h io io' st permit DispAbandoned w"

definition revoke_lease ::
  "'b host \<Rightarrow> io \<Rightarrow> replay_store \<Rightarrow> lease_id \<Rightarrow> 'b world
     \<Rightarrow> (unit, replay_error) result \<times> 'b world" where
  "revoke_lease h io st i w =
     with_locked_state h io st (revoke_tx h (rs_store_id st) (lease_id_str i)) w"

definition list_leases ::
  "'b host \<Rightarrow> io \<Rightarrow> replay_store \<Rightarrow> 'b world
     \<Rightarrow> (lease_summary list, replay_error) result \<times> 'b world" where
  "list_leases h io st w = with_locked_state_unchecked h io st list_leases_tx w"

definition stored_generation ::
  "'b host \<Rightarrow> io \<Rightarrow> replay_store \<Rightarrow> 'b world \<Rightarrow> (u64, replay_error) result \<times> 'b world" where
  "stored_generation h io st w = with_locked_state_unchecked h io st generation_tx w"

end
