(* ===== verification/Replay_Ledger.thy ===== *)
theory Replay_Ledger
  imports Replay_State "HOL-Library.Multiset"
begin

text \<open>
  What every transaction of the replay ledger keeps: the well-formedness of the persisted state
  (\<open>ledger_wf\<close>) and its history (\<open>ledger_le\<close>: nothing recorded is forgotten, uses only move
  forward).  The locale \<open>ledger_transaction\<close> is the contract; each transaction of
  \<open>Replay_State\<close> is an interpretation of it, and what follows from the contract alone is proved
  once inside it.
\<close>

subsection \<open>Updating ordered maps\<close>

lemma bt_insert_new:
  "map_of m k = None \<Longrightarrow> \<exists>a b. m = a @ b \<and> bt_insert k v m = a @ (k, v) # b"
proof (induction k v m rule: bt_insert.induct)
  case (1 k v)
  then show ?case by simp
next
  case (2 k v x y m)
  show ?case
  proof (cases "k < x")
    case True
    then have "bt_insert k v ((x, y) # m) = [] @ (k, v) # (x, y) # m" by simp
    then show ?thesis by blast
  next
    case False
    moreover have "k \<noteq> x" using 2(2) by auto
    ultimately obtain a b where "m = a @ b" "bt_insert k v m = a @ (k, v) # b"
      using 2 by (auto split: if_splits)
    then have "(x, y) # m = ((x, y) # a) @ b" "bt_insert k v ((x, y) # m) = ((x, y) # a) @ (k, v) # b"
      using False \<open>k \<noteq> x\<close> by auto
    then show ?thesis by blast
  qed
qed

lemma bt_insert_old:
  "bt_ordered m \<Longrightarrow> map_of m k = Some u \<Longrightarrow>
     \<exists>a b. m = a @ (k, u) # b \<and> bt_insert k v m = a @ (k, v) # b"
proof (induction k v m rule: bt_insert.induct)
  case (1 k v)
  then show ?case by simp
next
  case (2 k v x y m)
  show ?case
  proof (cases "k = x")
    case True
    then have "(x, y) # m = [] @ (k, u) # m" "bt_insert k v ((x, y) # m) = [] @ (k, v) # m"
      using 2(3) by auto
    then show ?thesis by blast
  next
    case False
    then have m: "map_of m k = Some u" using 2(3) by simp
    then have "k \<in> fst ` set m" by (metis domI dom_map_of_conv_image_fst)
    then have "\<not> k < x" using 2(2) by (auto simp: bt_ordered_def)
    moreover obtain a b where "m = a @ (k, u) # b" "bt_insert k v m = a @ (k, v) # b"
      using 2(1) [OF calculation False _ m] 2(2) by (auto simp: bt_ordered_def)
    ultimately have "(x, y) # m = ((x, y) # a) @ (k, u) # b"
      "bt_insert k v ((x, y) # m) = ((x, y) # a) @ (k, v) # b"
      using False by auto
    then show ?thesis by blast
  qed
qed

lemma bt_insert_set_subset: "set (bt_insert k v m) \<subseteq> insert (k, v) (set m)"
  by (induction k v m rule: bt_insert.induct) auto

lemma bt_insert_new_mset:
  "map_of m k = None \<Longrightarrow> mset (bt_insert k v m) = add_mset (k, v) (mset m)"
  using bt_insert_new [of m k v] by auto

lemma bt_insert_new_length: "map_of m k = None \<Longrightarrow> length (bt_insert k v m) = Suc (length m)"
  using bt_insert_new_mset [of m k v] by (metis size_add_mset size_mset)

lemma bt_insert_old_keys:
  "bt_ordered m \<Longrightarrow> map_of m k = Some u \<Longrightarrow> map fst (bt_insert k v m) = map fst m"
  using bt_insert_old [of m k u v] by auto

lemma bt_try_update_Ok:
  "bt_try_update f m = Ok m' \<longleftrightarrow>
     list_all2 (\<lambda>e e'. fst e' = fst e \<and> f (fst e) (snd e) = Ok (snd e')) m m'"
proof -
  have "(\<lambda>e e'. and_then (f (fst e) (snd e)) (\<lambda>v. Ok (fst e, v)) = Ok e')
      = (\<lambda>e e'. fst e' = fst e \<and> f (fst e) (snd e) = Ok (snd e'))"
    by (intro ext) (auto simp: res_simps prod_eq_iff)
  then show ?thesis by (simp add: bt_try_update_def try_map_Ok_iff)
qed

lemma bt_try_update_keys: "bt_try_update f m = Ok m' \<Longrightarrow> map fst m' = map fst m"
  unfolding bt_try_update_Ok by (induction rule: list_all2_induct) auto

lemma bt_try_update_ordered: "bt_try_update f m = Ok m' \<Longrightarrow> bt_ordered m' = bt_ordered m"
  using bt_try_update_keys [of f m m'] by (simp add: bt_ordered_def)

lemma bt_try_update_lookup:
  assumes "bt_try_update f m = Ok m'"
  shows "case map_of m k of None \<Rightarrow> map_of m' k = None
         | Some v \<Rightarrow> (\<exists>v'. f k v = Ok v' \<and> map_of m' k = Some v')"
  using assms unfolding bt_try_update_Ok
proof (induction rule: list_all2_induct)
  case Nil
  then show ?case by simp
next
  case (Cons x xs y ys)
  then show ?case by (cases x; cases y) (auto split: option.splits)
qed

lemma bt_try_update_set:
  assumes "bt_try_update f m = Ok m'" and "(k, v') \<in> set m'"
  shows "\<exists>v. (k, v) \<in> set m \<and> f k v = Ok v'"
  using assms unfolding bt_try_update_Ok list_all2_conv_all_nth in_set_conv_nth
  by (metis fst_conv snd_conv surjective_pairing)

lemma bt_try_update_total:
  assumes "\<And>k v. (k, v) \<in> set m \<Longrightarrow> is_ok (f k v)"
  shows "is_ok (bt_try_update f m)"
  using assms
proof (induction m)
  case Nil
  then show ?case by (simp add: bt_try_update_def)
next
  case (Cons e m)
  have "is_ok (f (fst e) (snd e))" using Cons.prems [of "fst e" "snd e"] by simp
  moreover have "is_ok (bt_try_update f m)" using Cons by simp
  ultimately show ?case by (auto simp: bt_try_update_def is_ok_iff)
qed

lemma bs_insert_facts:
  "set (bs_insert x xs) = insert x (set xs)"
  "sorted_wrt (<) xs \<Longrightarrow> sorted_wrt (<) (bs_insert x xs)"
  "x \<notin> set xs \<Longrightarrow> length (bs_insert x xs) = Suc (length xs)"
  by (auto simp: bs_insert_def set_insort_key strict_sorted_iff sorted_insort distinct_insort)

subsection \<open>Well-formed ledgers\<close>

definition use_account_ok :: "persisted_lease \<Rightarrow> bool" where
  "use_account_ok l =
     (case uc_capacity (ac_uses (pl_constraints l)) of
        CapacityDenied \<Rightarrow> False
      | CapacityBounded u c \<Rightarrow>
          unat (pl_remaining_uses l) + length (pl_uses l) = unat u \<and> active_uses l \<le> unat c)"

definition lease_wf :: "u64 \<Rightarrow> string \<Rightarrow> persisted_lease \<Rightarrow> bool" where
  "lease_wf generation key l =
     (is_ok (parse_lease_id key) \<and> bt_ordered (pl_uses l) \<and> use_account_ok l
      \<and> 0 < pl_broker_generation l \<and> pl_broker_generation l \<le> generation
      \<and> (pl_broker_generation l \<noteq> generation \<longrightarrow> pl_revoked l)
      \<and> (pl_revoked l \<longrightarrow> (\<forall>u \<in> set (bt_values (pl_uses l)). \<not> is_active u)))"

definition ledger_wf :: "persisted_state \<Rightarrow> bool" where
  "ledger_wf s =
     (bt_ordered (ps_leases s) \<and> bt_ordered (ps_idempotency s)
      \<and> sorted_wrt (<) (ps_seen_nonce_digests s)
      \<and> (\<forall>e \<in> set (ps_leases s). lease_wf (ps_broker_generation s) (fst e) (snd e))
      \<and> mset (map (pi_lease_id \<circ> snd) (ps_idempotency s)) = mset (map fst (ps_leases s))
      \<and> length (ps_seen_nonce_digests s) = length (ps_leases s))"

lemma ledger_wf_default: "ledger_wf (persisted_state_default\<lparr>ps_store_id := i\<rparr>)"
  by (simp add: ledger_wf_def persisted_state_default_def)

lemma ledger_wf_lease:
  assumes "ledger_wf s" and "map_of (ps_leases s) k = Some l"
  shows "lease_wf (ps_broker_generation s) k l"
  using assms map_of_SomeD [OF assms(2)] by (force simp: ledger_wf_def)

subsection \<open>History\<close>

definition use_le :: "persisted_use_state \<Rightarrow> persisted_use_state \<Rightarrow> bool" where
  "use_le u v = (u = v \<or> u = UseActive \<or> (\<exists>d p. u = UseCompleting d p \<and> v = terminal_use_state p d))"

definition lease_identity :: "persisted_lease \<Rightarrow> persisted_lease" where
  "lease_identity l = l\<lparr>pl_remaining_uses := 0, pl_uses := [], pl_revoked := False\<rparr>"

definition lease_le :: "persisted_lease \<Rightarrow> persisted_lease \<Rightarrow> bool" where
  "lease_le l m =
     (lease_identity l = lease_identity m \<and> (pl_revoked l \<longrightarrow> pl_revoked m)
      \<and> pl_remaining_uses m \<le> pl_remaining_uses l
      \<and> (\<forall>k u. map_of (pl_uses l) k = Some u \<longrightarrow>
           (\<exists>v. map_of (pl_uses m) k = Some v \<and> use_le u v))
      \<and> (pl_revoked l \<longrightarrow> dom (map_of (pl_uses m)) = dom (map_of (pl_uses l))
           \<and> pl_remaining_uses m = pl_remaining_uses l))"

definition ledger_le :: "persisted_state \<Rightarrow> persisted_state \<Rightarrow> bool" where
  "ledger_le s t =
     (ps_store_id t = ps_store_id s \<and> ps_broker_generation s \<le> ps_broker_generation t
      \<and> ps_sequence s \<le> ps_sequence t
      \<and> set (ps_seen_nonce_digests s) \<subseteq> set (ps_seen_nonce_digests t)
      \<and> map_of (ps_idempotency s) \<subseteq>\<^sub>m map_of (ps_idempotency t)
      \<and> (\<forall>k l. map_of (ps_leases s) k = Some l \<longrightarrow>
           (\<exists>m. map_of (ps_leases t) k = Some m \<and> lease_le l m)))"

lemma terminal_use_state_simps [simp]:
  "terminal_use_state p d \<noteq> UseActive" "UseActive \<noteq> terminal_use_state p d"
  "terminal_use_state p d \<noteq> UseCompleting e q" "UseCompleting e q \<noteq> terminal_use_state p d"
  "\<not> is_active (terminal_use_state p d)" "\<not> is_live (terminal_use_state p d)"
  by (cases p; simp)+

lemma use_le_refl [simp]: "use_le u u"
  by (simp add: use_le_def)

lemma use_le_Active [simp]: "use_le UseActive u"
  by (simp add: use_le_def)

lemma use_le_commit [simp]: "use_le (UseCompleting d p) (terminal_use_state p d)"
  by (simp add: use_le_def)

lemma use_le_trans: "use_le u v \<Longrightarrow> use_le v w \<Longrightarrow> use_le u w"
  by (auto simp: use_le_def)

lemma lease_le_refl [simp]: "lease_le l l"
  by (simp add: lease_le_def)

lemma lease_leD:
  assumes "lease_le l m"
  shows "lease_identity l = lease_identity m" and "pl_revoked l \<Longrightarrow> pl_revoked m"
    and "pl_remaining_uses m \<le> pl_remaining_uses l"
    and "map_of (pl_uses l) k = Some u \<Longrightarrow> \<exists>v. map_of (pl_uses m) k = Some v \<and> use_le u v"
    and "pl_revoked l \<Longrightarrow> dom (map_of (pl_uses m)) = dom (map_of (pl_uses l))"
    and "pl_revoked l \<Longrightarrow> pl_remaining_uses m = pl_remaining_uses l"
  using assms unfolding lease_le_def by blast+

lemma lease_leI:
  assumes "lease_identity l = lease_identity m" and "pl_revoked l \<Longrightarrow> pl_revoked m"
    and "pl_remaining_uses m \<le> pl_remaining_uses l"
    and "\<And>k u. map_of (pl_uses l) k = Some u \<Longrightarrow> \<exists>v. map_of (pl_uses m) k = Some v \<and> use_le u v"
    and "pl_revoked l \<Longrightarrow> dom (map_of (pl_uses m)) = dom (map_of (pl_uses l))"
    and "pl_revoked l \<Longrightarrow> pl_remaining_uses m = pl_remaining_uses l"
  shows "lease_le l m"
  using assms(2,5,6) assms(1,3) assms(4) unfolding lease_le_def
  by (intro conjI allI impI) assumption+

lemma lease_le_trans:
  assumes lm: "lease_le l m" and mn: "lease_le m n"
  shows "lease_le l n"
proof (rule lease_leI)
  note L = lease_leD [OF lm] and M = lease_leD [OF mn]
  show "lease_identity l = lease_identity n" using L(1) M(1) by simp
  show "pl_remaining_uses n \<le> pl_remaining_uses l" using L(3) M(3) by simp
  show "\<exists>w. map_of (pl_uses n) k = Some w \<and> use_le u w" if u: "map_of (pl_uses l) k = Some u" for k u
  proof -
    obtain v where v: "map_of (pl_uses m) k = Some v" "use_le u v" using L(4) [OF u] by blast
    then show ?thesis using M(4) [OF v(1)] use_le_trans by blast
  qed
  assume "pl_revoked l"
  note r = this L(2) [OF this]
  show "pl_revoked n" using M(2) [OF r(2)] .
  show "dom (map_of (pl_uses n)) = dom (map_of (pl_uses l))" using L(5) [OF r(1)] M(5) [OF r(2)] by simp
  show "pl_remaining_uses n = pl_remaining_uses l" using L(6) [OF r(1)] M(6) [OF r(2)] by simp
qed

lemma ledger_le_refl [simp]: "ledger_le s s"
  by (simp add: ledger_le_def)

lemma ledger_leD:
  assumes "ledger_le s t"
  shows "ps_store_id t = ps_store_id s" and "ps_broker_generation s \<le> ps_broker_generation t"
    and "ps_sequence s \<le> ps_sequence t"
    and "set (ps_seen_nonce_digests s) \<subseteq> set (ps_seen_nonce_digests t)"
    and "map_of (ps_idempotency s) \<subseteq>\<^sub>m map_of (ps_idempotency t)"
    and "map_of (ps_leases s) k = Some l \<Longrightarrow> \<exists>m. map_of (ps_leases t) k = Some m \<and> lease_le l m"
  using assms unfolding ledger_le_def by blast+

lemma ledger_leI:
  assumes "ps_store_id t = ps_store_id s" and "ps_broker_generation s \<le> ps_broker_generation t"
    and "ps_sequence s \<le> ps_sequence t"
    and "set (ps_seen_nonce_digests s) \<subseteq> set (ps_seen_nonce_digests t)"
    and "map_of (ps_idempotency s) \<subseteq>\<^sub>m map_of (ps_idempotency t)"
    and "\<And>k l. map_of (ps_leases s) k = Some l \<Longrightarrow>
           \<exists>m. map_of (ps_leases t) k = Some m \<and> lease_le l m"
  shows "ledger_le s t"
  unfolding ledger_le_def using assms(1-5) assms(6) by (intro conjI allI impI) assumption+

lemma ledger_le_trans:
  assumes st: "ledger_le s t" and tu: "ledger_le t u"
  shows "ledger_le s u"
proof (rule ledger_leI)
  note S = ledger_leD [OF st] and T = ledger_leD [OF tu]
  show "ps_store_id u = ps_store_id s" using S(1) T(1) by simp
  show "ps_broker_generation s \<le> ps_broker_generation u" using S(2) T(2) by simp
  show "ps_sequence s \<le> ps_sequence u" using S(3) T(3) by simp
  show "set (ps_seen_nonce_digests s) \<subseteq> set (ps_seen_nonce_digests u)" using S(4) T(4) by blast
  show "map_of (ps_idempotency s) \<subseteq>\<^sub>m map_of (ps_idempotency u)"
    using map_le_trans [OF S(5) T(5)] .
  show "\<exists>n. map_of (ps_leases u) k = Some n \<and> lease_le l n" if l: "map_of (ps_leases s) k = Some l" for k l
  proof -
    obtain m where m: "map_of (ps_leases t) k = Some m" "lease_le l m" using S(6) [OF l] by blast
    then show ?thesis using T(6) [OF m(1)] lease_le_trans by blast
  qed
qed

subsection \<open>Updating one lease\<close>

lemma bump_sequence_Ok:
  "bump_sequence s = Ok t \<longleftrightarrow>
     unat (ps_sequence s) + 1 < 2 ^ 64 \<and> t = s\<lparr>ps_sequence := ps_sequence s + 1\<rparr>"
  by (auto simp: bump_sequence_def checked_add_def res_simps)

lemma ledger_wf_sequence [simp]: "ledger_wf (s\<lparr>ps_sequence := n\<rparr>) = ledger_wf s"
  by (simp add: ledger_wf_def)

lemma sequence_step:
  assumes "unat (n :: u64) + 1 < 2 ^ 64"
  shows "n \<le> n + 1" and "unat (n + 1) = unat n + 1"
proof -
  show "unat (n + 1) = unat n + 1" using assms by (simp add: unat_word_ariths)
  then show "n \<le> n + 1" by (simp add: word_le_nat_alt)
qed

lemma ledger_le_sequence:
  "ledger_le s t \<Longrightarrow> ps_sequence t = ps_sequence s \<Longrightarrow> unat (ps_sequence s) + 1 < 2 ^ 64 \<Longrightarrow>
     ledger_le s (t\<lparr>ps_sequence := ps_sequence s + 1\<rparr>)"
  using sequence_step(1) [of "ps_sequence s"] by (simp add: ledger_le_def)

lemma update_lease_wf:
  assumes "ledger_wf s" "map_of (ps_leases s) k = Some l" "lease_wf (ps_broker_generation s) k m"
  shows "ledger_wf (update_lease k m s)"
proof -
  have keys: "map fst (bt_insert k m (ps_leases s)) = map fst (ps_leases s)"
    using assms bt_insert_old_keys by (auto simp: ledger_wf_def)
  then have "length (bt_insert k m (ps_leases s)) = length (ps_leases s)"
    by (metis length_map)
  moreover have "\<forall>e \<in> set (bt_insert k m (ps_leases s)). lease_wf (ps_broker_generation s) (fst e) (snd e)"
    using bt_insert_set_subset [of k m "ps_leases s"] assms(1,3) by (auto simp: ledger_wf_def)
  ultimately show ?thesis
    using assms(1) keys by (simp add: ledger_wf_def update_lease_def)
qed

lemma update_lease_le:
  assumes "map_of (ps_leases s) k = Some l" "lease_le l m"
  shows "ledger_le s (update_lease k m s)"
  using assms by (auto simp: ledger_le_def update_lease_def)

lemma live_count_update:
  assumes "bt_ordered uses" "map_of uses k = Some u" "is_live v \<Longrightarrow> is_live u"
  shows "length (filter is_live (bt_values (bt_insert k v uses))) \<le>
    length (filter is_live (bt_values uses))" and "length (bt_insert k v uses) = length uses"
  using bt_insert_old [OF assms(1,2), of v] assms(3) by (auto simp: bt_values_def)

lemma live_count_insert:
  assumes "map_of uses k = None"
  shows "length (filter is_live (bt_values (bt_insert k UseActive uses))) =
    Suc (length (filter is_live (bt_values uses)))"
    and "length (bt_insert k v uses) = Suc (length uses)"
proof -
  show "length (filter is_live (bt_values (bt_insert k UseActive uses))) =
    Suc (length (filter is_live (bt_values uses)))"
    using bt_insert_new [OF assms, of UseActive] by (elim exE conjE) (simp add: bt_values_def)
  show "length (bt_insert k v uses) = Suc (length uses)"
    using bt_insert_new [OF assms, of v] by (elim exE conjE) simp
qed

lemma use_update_wf:
  assumes wf: "lease_wf g k l" and old: "map_of (pl_uses l) op = Some u"
    and live: "is_live v \<Longrightarrow> is_live u" and act: "\<not> is_active v"
  shows "lease_wf g k (l\<lparr>pl_uses := bt_insert op v (pl_uses l)\<rparr>)"
proof -
  have ord: "bt_ordered (pl_uses l)" using wf by (simp add: lease_wf_def)
  have "set (bt_values (bt_insert op v (pl_uses l))) \<subseteq> insert v (set (bt_values (pl_uses l)))"
    using bt_insert_set_subset [of op v "pl_uses l"] by (force simp: bt_values_def)
  moreover have "active_uses (l\<lparr>pl_uses := bt_insert op v (pl_uses l)\<rparr>) \<le> active_uses l"
    using live_count_update(1) [where v = v, OF ord old live] by (simp add: active_uses_def)
  moreover have "length (bt_insert op v (pl_uses l)) = length (pl_uses l)"
    using live_count_update(2) [where v = v, OF ord old live] .
  ultimately show ?thesis
    using wf act ord by (auto simp: lease_wf_def use_account_ok_def split: use_capacity.splits)
qed

lemma use_update_le:
  assumes "map_of (pl_uses l) op = Some u" "use_le u v"
  shows "lease_le l (l\<lparr>pl_uses := bt_insert op v (pl_uses l)\<rparr>)"
  using assms by (intro lease_leI) (auto simp: lease_identity_def)

lemma use_begin_wf:
  assumes wf: "lease_wf g k l" and new: "map_of (pl_uses l) op = None"
    and cap: "uc_capacity (ac_uses (pl_constraints l)) = CapacityBounded n c"
    and left: "pl_remaining_uses l \<noteq> 0" "active_uses l < unat c" and live: "\<not> pl_revoked l"
  shows "lease_wf g k (l\<lparr>pl_remaining_uses := pl_remaining_uses l - 1,
           pl_uses := bt_insert op UseActive (pl_uses l)\<rparr>)"
proof -
  have "unat (pl_remaining_uses l - 1) + 1 = unat (pl_remaining_uses l)"
    using left(1) by (simp add: unat_minus_one unat_gt_0)
  then show ?thesis
    using assms live_count_insert [OF new]
    by (auto simp: lease_wf_def use_account_ok_def active_uses_def)
qed

lemma use_begin_le:
  assumes new: "map_of (pl_uses l) op = None" and left: "pl_remaining_uses l \<noteq> 0"
    and live: "\<not> pl_revoked l"
  shows "lease_le l (l\<lparr>pl_remaining_uses := pl_remaining_uses l - 1,
           pl_uses := bt_insert op UseActive (pl_uses l)\<rparr>)"
proof (rule lease_leI)
  have "unat (pl_remaining_uses l - 1) + 1 = unat (pl_remaining_uses l)"
    using left by (simp add: unat_minus_one unat_gt_0)
  then show "pl_remaining_uses (l\<lparr>pl_remaining_uses := pl_remaining_uses l - 1,
      pl_uses := bt_insert op UseActive (pl_uses l)\<rparr>) \<le> pl_remaining_uses l"
    by (simp add: word_le_nat_alt)
qed (use new live in \<open>auto simp: lease_identity_def\<close>)

subsection \<open>Abandoning every active use of a lease\<close>

text \<open>Restart and revocation differ only in the digest they record.\<close>

definition abandons ::
  "(string \<Rightarrow> persisted_use_state \<Rightarrow> (persisted_use_state, replay_error) result) \<Rightarrow> bool" where
  "abandons f \<longleftrightarrow>
     (\<forall>k u v. f k u = Ok v \<longrightarrow> (if is_active u then \<exists>d. v = UseAbandoned d else v = u))"

lemma abandons_restart: "abandons (abandon_on_restart h i k)"
  by (auto simp: abandons_def abandon_on_restart_def res_simps)

lemma abandons_revoke: "abandons (abandon_on_revoke h i k)"
  by (auto simp: abandons_def abandon_on_revoke_def res_simps)

lemma abandons_use_le: "abandons f \<Longrightarrow> f k u = Ok v \<Longrightarrow> use_le u v \<and> \<not> is_active v"
proof -
  assume "abandons f" "f k u = Ok v"
  then have "if is_active u then \<exists>d. v = UseAbandoned d else v = u" unfolding abandons_def by blast
  then show ?thesis by (cases u) auto
qed

lemma abandons_live: "abandons f \<Longrightarrow> f k u = Ok v \<Longrightarrow> is_live v \<Longrightarrow> is_live u"
proof -
  assume "abandons f" "f k u = Ok v" and v: "is_live v"
  then have "if is_active u then \<exists>d. v = UseAbandoned d else v = u" unfolding abandons_def by blast
  then show ?thesis using v by (cases u) auto
qed

lemma abandon_all:
  assumes f: "abandons f" and ok: "bt_try_update f uses = Ok uses'"
  shows "length uses' = length uses"
    and "length (filter is_live (bt_values uses')) \<le> length (filter is_live (bt_values uses))"
    and "\<forall>u \<in> set (bt_values uses'). \<not> is_active u"
proof -
  have "list_all2 (\<lambda>e e'. fst e' = fst e \<and> f (fst e) (snd e) = Ok (snd e')) uses uses'"
    using ok by (simp add: bt_try_update_Ok)
  then show "length uses' = length uses"
    and "length (filter is_live (bt_values uses')) \<le> length (filter is_live (bt_values uses))"
    and "\<forall>u \<in> set (bt_values uses'). \<not> is_active u"
  proof (induction rule: list_all2_induct)
    case (Cons e es e' es')
    { case 1 then show ?case using Cons by simp }
    { case 2 then show ?case using Cons abandons_live [OF f, of "fst e" "snd e" "snd e'"]
        by (auto simp: bt_values_def) }
    { case 3 then show ?case using Cons abandons_use_le [OF f, of "fst e" "snd e" "snd e'"]
        by (auto simp: bt_values_def) }
  qed (simp_all add: bt_values_def)
qed

definition abandoned_lease ::
  "(string, persisted_use_state) btree_map \<Rightarrow> persisted_lease \<Rightarrow> persisted_lease" where
  "abandoned_lease uses l = l\<lparr>pl_revoked := True, pl_uses := uses\<rparr>"

lemma abandoned_wf:
  assumes wf: "lease_wf g k l" and f: "abandons f" and ok: "bt_try_update f (pl_uses l) = Ok uses"
    and g': "g \<le> g'"
  shows "lease_wf g' k (abandoned_lease uses l)"
proof -
  have "active_uses (abandoned_lease uses l) \<le> active_uses l"
    using abandon_all(2) [OF f ok] by (simp add: active_uses_def abandoned_lease_def)
  then show ?thesis
    using wf g' abandon_all(1,3) [OF f ok] bt_try_update_ordered [OF ok]
    by (auto simp: lease_wf_def use_account_ok_def abandoned_lease_def split: use_capacity.splits)
qed

lemma abandoned_le:
  assumes f: "abandons f" and ok: "bt_try_update f (pl_uses l) = Ok uses"
  shows "lease_le l (abandoned_lease uses l)"
proof (rule lease_leI)
  show "\<exists>v. map_of (pl_uses (abandoned_lease uses l)) k = Some v \<and> use_le u v"
    if "map_of (pl_uses l) k = Some u" for k u
    using bt_try_update_lookup [OF ok, of k] that abandons_use_le [OF f]
    by (auto simp: abandoned_lease_def)
  show "dom (map_of (pl_uses (abandoned_lease uses l))) = dom (map_of (pl_uses l))"
    using bt_try_update_keys [OF ok] by (simp add: abandoned_lease_def dom_map_of_conv_image_fst)
      (metis list.set_map)
qed (auto simp: abandoned_lease_def lease_identity_def)

subsection \<open>The contract of a transaction\<close>

locale ledger_transaction =
  fixes input_ok :: bool and tx :: "'t transaction"
  assumes keeps_wf: "input_ok \<Longrightarrow> ledger_wf s \<Longrightarrow> tx s = Ok (t, s', c) \<Longrightarrow> ledger_wf s'"
    and keeps_history: "input_ok \<Longrightarrow> ledger_wf s \<Longrightarrow> tx s = Ok (t, s', c) \<Longrightarrow> ledger_le s s'"
    and counts: "tx s = Ok (t, s', c) \<Longrightarrow>
      (if c then unat (ps_sequence s') = unat (ps_sequence s) + 1 else s' = s)"
begin

lemma changed_iff: "tx s = Ok (t, s', c) \<Longrightarrow> c \<longleftrightarrow> s' \<noteq> s"
  using counts [of s t s' c] by (cases c) auto

lemma nonces_kept:
  "input_ok \<Longrightarrow> ledger_wf s \<Longrightarrow> tx s = Ok (t, s', c) \<Longrightarrow>
     set (ps_seen_nonce_digests s) \<subseteq> set (ps_seen_nonce_digests s')"
  by (rule ledger_leD(4) [OF keeps_history])

end

lemma unchanged_transaction:
  assumes "tx s = Ok (t, s', c)" and "\<And>s t s' c. tx s = Ok (t, s', c) \<Longrightarrow> s' = s \<and> \<not> c"
  shows "s' = s" "\<not> c"
  using assms by blast+

interpretation generation: ledger_transaction True generation_tx
  by unfold_locales (auto simp: generation_tx_def)

interpretation list_leases: ledger_transaction True list_leases_tx
  by unfold_locales (auto simp: list_leases_tx_def res_simps)

lemma resume_completion_cases:
  assumes "resume_completion_tx sb i op d p s = Ok (r, s', c)"
  obtains l u where "map_of (ps_leases s) (lease_id_str i) = Some l" "map_of (pl_uses l) op = Some u"
    "s' = s" "\<not> c"
    "u = UseCompleting d p \<and> (\<exists>w. r = CompletionResumed w \<and> cw_lease_id w = i
        \<and> cw_broker_generation w = pl_broker_generation l \<and> cw_operation_sha256 w = op
        \<and> cw_terminal_record_sha256 w = d \<and> cw_disposition w = p \<and> cw_store_binding w = sb)
     \<or> u = terminal_use_state p d \<and> r = CompletionExisting (use_state_of u)"
proof -
  obtain l u where l: "map_of (ps_leases s) (lease_id_str i) = Some l"
    and u: "map_of (pl_uses l) op = Some u"
    using assms by (auto simp: resume_completion_tx_def res_simps)
  note tx = assms [unfolded resume_completion_tx_def Let_def l u ok_or.simps and_then.simps]
  show thesis
    by (rule that [OF l u]; cases u; use tx l u in \<open>auto split: if_splits\<close>)
qed

interpretation resume_completion: ledger_transaction True "resume_completion_tx sb i op d p" for sb i op d p
  by unfold_locales (auto elim: resume_completion_cases)

lemma update_use_wf:
  assumes "ledger_wf s" "map_of (ps_leases s) k = Some l" "map_of (pl_uses l) op = Some u"
    and "is_live v \<Longrightarrow> is_live u" "\<not> is_active v"
  shows "ledger_wf (update_use k op v l s)"
  unfolding update_use_def
  by (rule update_lease_wf [OF assms(1,2) use_update_wf [OF ledger_wf_lease [OF assms(1,2)] assms(3-5)]])

lemma update_use_le:
  assumes "map_of (ps_leases s) k = Some l" "map_of (pl_uses l) op = Some u" "use_le u v"
  shows "ledger_le s (update_use k op v l s)"
  unfolding update_use_def by (rule update_lease_le [OF assms(1) use_update_le [OF assms(2,3)]])

lemma update_sequence [simp]:
  "ps_sequence (update_use k op v l s) = ps_sequence s"
  "ps_sequence (update_lease k l s) = ps_sequence s"
  by (simp_all add: update_use_def update_lease_def)

lemma begin_completion_cases:
  assumes "begin_completion_tx p d disp s = Ok (r, s', c)"
  obtains (unchanged) "s' = s" "\<not> c"
  | (started) l where "map_of (ps_leases s) (lease_id_str (ep_lease_id p)) = Some l"
      "map_of (pl_uses l) (ep_operation_sha256 p) = Some UseActive"
      "\<not> pl_revoked l" "c" "unat (ps_sequence s) + 1 < 2 ^ 64"
      "s' = (update_use (lease_id_str (ep_lease_id p)) (ep_operation_sha256 p)
              (UseCompleting d disp) l s)\<lparr>ps_sequence := ps_sequence s + 1\<rparr>"
proof -
  obtain l u where l: "map_of (ps_leases s) (lease_id_str (ep_lease_id p)) = Some l"
    and u: "map_of (pl_uses l) (ep_operation_sha256 p) = Some u"
    using assms by (auto simp: begin_completion_tx_def Let_def res_simps split: if_splits)
  note tx = assms [unfolded begin_completion_tx_def Let_def l u ok_or.simps and_then.simps]
  show thesis
    by (cases u) (use tx l u unchanged started in
        \<open>auto simp: res_simps bump_sequence_Ok split: if_splits\<close>)
qed

interpretation begin_completion: ledger_transaction True "begin_completion_tx p d disp" for p d disp
proof unfold_locales
  fix s t s' c
  assume ok: "begin_completion_tx p d disp s = Ok (t, s', c)"
  show "if c then unat (ps_sequence s') = unat (ps_sequence s) + 1 else s' = s"
    using ok by (cases rule: begin_completion_cases) (auto simp: sequence_step)
  assume wf: "ledger_wf s"
  show "ledger_wf s'" using ok
    by (cases rule: begin_completion_cases) (use wf in \<open>auto intro!: update_use_wf\<close>)
  show "ledger_le s s'" using ok
    by (cases rule: begin_completion_cases) (auto intro!: ledger_le_sequence update_use_le)
qed

lemma commit_completion_cases:
  assumes "commit_completion_tx w s = Ok (r, s', c)"
  obtains (unchanged) "s' = s" "\<not> c"
  | (committed) l where "map_of (ps_leases s) (lease_id_str (cw_lease_id w)) = Some l"
      "map_of (pl_uses l) (cw_operation_sha256 w) =
         Some (UseCompleting (cw_terminal_record_sha256 w) (cw_disposition w))"
      "c" "unat (ps_sequence s) + 1 < 2 ^ 64"
      "s' = (update_use (lease_id_str (cw_lease_id w)) (cw_operation_sha256 w)
              (terminal_use_state (cw_disposition w) (cw_terminal_record_sha256 w)) l s)
              \<lparr>ps_sequence := ps_sequence s + 1\<rparr>"
proof -
  obtain l u where l: "map_of (ps_leases s) (lease_id_str (cw_lease_id w)) = Some l"
    and u: "map_of (pl_uses l) (cw_operation_sha256 w) = Some u"
    using assms by (auto simp: commit_completion_tx_def Let_def res_simps split: if_splits)
  note tx = assms [unfolded commit_completion_tx_def Let_def l u ok_or.simps and_then.simps]
  show thesis
    by (cases u) (use tx l u unchanged committed in
        \<open>auto simp: res_simps bump_sequence_Ok split: if_splits\<close>)
qed

interpretation commit_completion: ledger_transaction True "commit_completion_tx w" for w
proof unfold_locales
  fix s t s' c
  assume ok: "commit_completion_tx w s = Ok (t, s', c)"
  show "if c then unat (ps_sequence s') = unat (ps_sequence s) + 1 else s' = s"
    using ok by (cases rule: commit_completion_cases) (auto simp: sequence_step)
  assume wf: "ledger_wf s"
  show "ledger_wf s'" using ok
    by (cases rule: commit_completion_cases) (use wf in \<open>auto intro!: update_use_wf\<close>)
  show "ledger_le s s'" using ok
    by (cases rule: commit_completion_cases) (auto intro!: ledger_le_sequence update_use_le)
qed

lemma begin_use_cases:
  assumes "begin_use_tx sb k op now s = Ok (r, s', c)"
  obtains (unchanged) u l where "map_of (ps_leases s) k = Some l" "\<not> pl_revoked l"
      "pl_broker_generation l = ps_broker_generation s"
      "map_of (pl_uses l) op = Some u" "r = UseExisting (use_state_of u)" "s' = s" "\<not> c"
  | (begun) l i n m where "map_of (ps_leases s) k = Some l" "\<not> pl_revoked l"
      "pl_broker_generation l = ps_broker_generation s"
      "tc_not_before (ac_time (pl_constraints l)) \<le> now"
      "now < tc_expires_at (ac_time (pl_constraints l))"
      "map_of (pl_uses l) op = None"
      "uc_capacity (ac_uses (pl_constraints l)) = CapacityBounded n m"
      "pl_remaining_uses l \<noteq> 0" "active_uses l < unat m" "parse_lease_id k = Ok i"
      "r = UseNew (permit_of i (ps_broker_generation s) l op sb)" "c"
      "unat (ps_sequence s) + 1 < 2 ^ 64"
      "s' = (update_use k op UseActive (l\<lparr>pl_remaining_uses := pl_remaining_uses l - 1\<rparr>) s)
              \<lparr>ps_sequence := ps_sequence s + 1\<rparr>"
proof -
  obtain l where l: "map_of (ps_leases s) k = Some l"
    using assms by (auto simp: begin_use_tx_def Let_def res_simps)
  note tx = assms [unfolded begin_use_tx_def Let_def l ok_or.simps and_then.simps]
  show thesis
  proof (cases "map_of (pl_uses l) op")
    case (Some u)
    then have "\<not> pl_revoked l" "pl_broker_generation l = ps_broker_generation s"
      "r = UseExisting (use_state_of u)" "s' = s" "\<not> c"
      using tx by (simp_all split: if_splits)
    then show ?thesis using unchanged [OF l _ _ Some] by simp
  next
    case None
    obtain n m where cap: "uc_capacity (ac_uses (pl_constraints l)) = CapacityBounded n m"
      using tx None by (cases "uc_capacity (ac_uses (pl_constraints l))") (auto split: if_splits)
    let ?next = "update_use k op UseActive (l\<lparr>pl_remaining_uses := pl_remaining_uses l - 1\<rparr>) s"
    have go: "\<not> (pl_revoked l \<or> pl_broker_generation l \<noteq> ps_broker_generation s)"
      "\<not> (now < tc_not_before (ac_time (pl_constraints l)) \<or> tc_expires_at (ac_time (pl_constraints l)) \<le> now)"
      "\<not> (pl_remaining_uses l = 0 \<or> unat m \<le> active_uses l)"
      using tx None cap by (simp_all split: if_splits)
    have "and_then (bump_sequence ?next) (\<lambda>s'. and_then (map_err (\<lambda>_. InvalidState) (parse_lease_id k))
        (\<lambda>i. Ok (UseNew (permit_of i (ps_broker_generation s) l op sb), s', True))) = Ok (r, s', c)"
      using tx by (simp only: go None cap if_False option.case use_capacity.case)
    then obtain i where "bump_sequence ?next = Ok s'" "parse_lease_id k = Ok i"
      "r = UseNew (permit_of i (ps_broker_generation s) l op sb)" "c"
      by (auto simp: res_simps)
    then show ?thesis
      using begun [OF l _ _ _ _ None cap] go by (simp add: bump_sequence_Ok not_less not_le)
  qed
qed

interpretation begin_use: ledger_transaction True "begin_use_tx sb k op now" for sb k op now
proof unfold_locales
  fix s t s' c
  assume ok: "begin_use_tx sb k op now s = Ok (t, s', c)"
  show "if c then unat (ps_sequence s') = unat (ps_sequence s) + 1 else s' = s"
    using ok by (cases rule: begin_use_cases) (auto simp: sequence_step)
  assume wf: "ledger_wf s"
  show "ledger_wf s'" using ok
  proof (cases rule: begin_use_cases)
    case (begun l i n m)
    have "ledger_wf (update_lease k (l\<lparr>pl_remaining_uses := pl_remaining_uses l - 1,
        pl_uses := bt_insert op UseActive (pl_uses l)\<rparr>) s)"
      by (rule update_lease_wf [OF wf begun(1) use_begin_wf [OF ledger_wf_lease [OF wf begun(1)]
          begun(6,7,8,9,2)]])
    then show ?thesis using begun(14) by (simp add: update_use_def)
  qed (use wf in simp)
  show "ledger_le s s'" using ok
  proof (cases rule: begin_use_cases)
    case (begun l i n m)
    have "ledger_le s (update_lease k (l\<lparr>pl_remaining_uses := pl_remaining_uses l - 1,
        pl_uses := bt_insert op UseActive (pl_uses l)\<rparr>) s)"
      by (rule update_lease_le [OF begun(1) use_begin_le [OF begun(6,8,2)]])
    then show ?thesis using begun(13,14) by (simp add: update_use_def ledger_le_sequence)
  qed simp
qed

lemma reserve_cases:
  assumes "reserve_tx nonce key fp b s = Ok (r, s', c)"
  obtains (existing) e i where "map_of (ps_idempotency s) key = Some e"
      "pi_request_fingerprint_sha256 e = fp" "parse_lease_id (pi_lease_id e) = Ok i"
      "r = ReservedExisting i" "s' = s" "\<not> c"
  | (reserved) n m where "map_of (ps_idempotency s) key = None"
      "nonce \<notin> set (ps_seen_nonce_digests s)"
      "map_of (ps_leases s) (lease_id_str (lb_lease_id b)) = None"
      "uc_capacity (ac_uses (lb_constraints b)) = CapacityBounded n m"
      "ps_broker_generation s \<noteq> 0" "lb_broker_generation b = ps_broker_generation s"
      "r = ReservedNew (lb_lease_id b)" "c" "unat (ps_sequence s) + 1 < 2 ^ 64"
      "s' = s\<lparr>ps_sequence := ps_sequence s + 1,
              ps_seen_nonce_digests := bs_insert nonce (ps_seen_nonce_digests s),
              ps_idempotency := bt_insert key
                \<lparr>pi_request_fingerprint_sha256 = fp, pi_lease_id = lease_id_str (lb_lease_id b)\<rparr>
                (ps_idempotency s),
              ps_leases := bt_insert (lease_id_str (lb_lease_id b)) (lease_of_binding b n)
                (ps_leases s)\<rparr>"
proof (cases "map_of (ps_idempotency s) key")
  case (Some e)
  then show thesis
    using assms existing by (auto simp: reserve_tx_def Let_def res_simps split: if_splits)
next
  case None
  then show thesis
    using assms reserved
    by (cases "uc_capacity (ac_uses (lb_constraints b))")
      (auto simp: reserve_tx_def Let_def res_simps bump_sequence_Ok split: if_splits)
qed

lemma new_lease_wf:
  assumes "valid_lease_id (lb_lease_id b)" "lb_broker_generation b = g" "g \<noteq> 0"
    and "uc_capacity (ac_uses (lb_constraints b)) = CapacityBounded n m"
  shows "lease_wf g (lease_id_str (lb_lease_id b)) (lease_of_binding b n)"
  using assms
  by (simp add: lease_wf_def lease_of_binding_def use_account_ok_def active_uses_def bt_values_def
      word_gt_0)

interpretation reserve: ledger_transaction "valid_lease_id (lb_lease_id b)" "reserve_tx nonce key fp b"
  for nonce key fp b
proof unfold_locales
  fix s t s' c
  assume ok: "reserve_tx nonce key fp b s = Ok (t, s', c)"
  show "if c then unat (ps_sequence s') = unat (ps_sequence s) + 1 else s' = s"
    using ok by (cases rule: reserve_cases) (auto simp: sequence_step)
  assume b: "valid_lease_id (lb_lease_id b)" and wf: "ledger_wf s"
  show "ledger_wf s'" using ok
  proof (cases rule: reserve_cases)
    case (reserved n m)
    have "lease_wf (ps_broker_generation s) (lease_id_str (lb_lease_id b)) (lease_of_binding b n)"
      using new_lease_wf [OF b reserved(6,5,4)] by simp
    then have "\<forall>e \<in> set (ps_leases s'). lease_wf (ps_broker_generation s') (fst e) (snd e)"
      using wf reserved(10) bt_insert_set_subset [of "lease_id_str (lb_lease_id b)"
          "lease_of_binding b n" "ps_leases s"] by (auto simp: ledger_wf_def)
    moreover have "mset (map (pi_lease_id \<circ> snd) (ps_idempotency s')) = mset (map fst (ps_leases s'))"
      using wf reserved(10) by (simp add: ledger_wf_def mset_map [symmetric] del: mset_map)
        (simp add: bt_insert_new_mset [OF reserved(1)] bt_insert_new_mset [OF reserved(3)])
    moreover have "length (ps_seen_nonce_digests s') = length (ps_leases s')"
      using wf reserved(2,10) bt_insert_new_length [OF reserved(3)]
      by (simp add: ledger_wf_def bs_insert_facts)
    ultimately show ?thesis
      using wf reserved(10) by (simp add: ledger_wf_def bs_insert_facts)
  qed (use wf in simp)
  show "ledger_le s s'" using ok
  proof (cases rule: reserve_cases)
    case (reserved n m)
    then show ?thesis
      using sequence_step(1) [of "ps_sequence s"]
      by (auto simp: ledger_le_def bs_insert_facts map_le_def)
  qed simp
qed

lemma revoke_cases:
  assumes "revoke_tx h i k s = Ok (r, s', c)"
  obtains (unchanged) l where "map_of (ps_leases s) k = Some l" "pl_revoked l" "s' = s" "\<not> c"
  | (revoked) l uses where "map_of (ps_leases s) k = Some l" "\<not> pl_revoked l" "c"
      "bt_try_update (abandon_on_revoke h i k) (pl_uses l) = Ok uses"
      "unat (ps_sequence s) + 1 < 2 ^ 64"
      "s' = (update_lease k (abandoned_lease uses l) s)\<lparr>ps_sequence := ps_sequence s + 1\<rparr>"
  using assms
  by (auto simp: revoke_tx_def res_simps bump_sequence_Ok abandoned_lease_def split: if_splits)

interpretation revoke: ledger_transaction True "revoke_tx h i k" for h i k
proof unfold_locales
  fix s t s' c
  assume ok: "revoke_tx h i k s = Ok (t, s', c)"
  show "if c then unat (ps_sequence s') = unat (ps_sequence s) + 1 else s' = s"
    using ok by (cases rule: revoke_cases) (auto simp: sequence_step)
  assume wf: "ledger_wf s"
  show "ledger_wf s'" using ok
  proof (cases rule: revoke_cases)
    case (revoked l uses)
    show ?thesis
      using update_lease_wf [OF wf revoked(1) abandoned_wf [OF ledger_wf_lease [OF wf revoked(1)]
            abandons_revoke revoked(4) order_refl]] revoked(6) by simp
  qed (use wf in simp)
  show "ledger_le s s'" using ok
  proof (cases rule: revoke_cases)
    case (revoked l uses)
    show ?thesis
      using update_lease_le [OF revoked(1) abandoned_le [OF abandons_revoke revoked(4)]] revoked(5,6)
      by (simp add: ledger_le_sequence)
  qed simp
qed

lemma start_epoch_cases:
  assumes "start_epoch_tx h i s = Ok (r, s', c)"
  obtains leases where "unat (ps_broker_generation s) + 1 < 2 ^ 64" "r = ps_broker_generation s + 1"
    "c" "unat (ps_sequence s) + 1 < 2 ^ 64"
    "bt_try_update (restart_lease h i) (ps_leases s) = Ok leases"
    "s' = s\<lparr>ps_broker_generation := ps_broker_generation s + 1, ps_sequence := ps_sequence s + 1,
            ps_leases := leases\<rparr>"
  using assms
  by (auto simp: start_epoch_tx_def res_simps bump_sequence_Ok checked_add_def split: if_splits)

lemma restart_lease_Ok:
  "restart_lease h i k l = Ok m \<longleftrightarrow>
     (\<exists>uses. bt_try_update (abandon_on_restart h i k) (pl_uses l) = Ok uses \<and> m = abandoned_lease uses l)"
  by (auto simp: restart_lease_def res_simps abandoned_lease_def)

interpretation start_epoch: ledger_transaction True "start_epoch_tx h i" for h i
proof unfold_locales
  fix s t s' c
  assume ok: "start_epoch_tx h i s = Ok (t, s', c)"
  then obtain leases where *: "unat (ps_broker_generation s) + 1 < 2 ^ 64" "c"
    "unat (ps_sequence s) + 1 < 2 ^ 64"
    "bt_try_update (restart_lease h i) (ps_leases s) = Ok leases"
    "s' = s\<lparr>ps_broker_generation := ps_broker_generation s + 1, ps_sequence := ps_sequence s + 1,
            ps_leases := leases\<rparr>"
    by (rule start_epoch_cases)
  show "if c then unat (ps_sequence s') = unat (ps_sequence s) + 1 else s' = s"
    using * by (simp add: sequence_step)
  assume wf: "ledger_wf s"
  have leases: "\<forall>e \<in> set leases. lease_wf (ps_broker_generation s + 1) (fst e) (snd e)"
  proof
    fix e assume "e \<in> set leases"
    then obtain l where l: "(fst e, l) \<in> set (ps_leases s)" "restart_lease h i (fst e) l = Ok (snd e)"
      using bt_try_update_set [OF *(4), of "fst e" "snd e"] by auto
    then obtain uses where "bt_try_update (abandon_on_restart h i (fst e)) (pl_uses l) = Ok uses"
      "snd e = abandoned_lease uses l" by (auto simp: restart_lease_Ok)
    moreover have "lease_wf (ps_broker_generation s) (fst e) l"
      using wf l(1) by (force simp: ledger_wf_def)
    ultimately show "lease_wf (ps_broker_generation s + 1) (fst e) (snd e)"
      using abandoned_wf abandons_restart sequence_step(1) [OF *(1)] by metis
  qed
  have keys: "map fst leases = map fst (ps_leases s)" by (rule bt_try_update_keys [OF *(4)])
  then have "length leases = length (ps_leases s)" by (metis length_map)
  then show "ledger_wf s'"
    using wf *(5) leases keys bt_try_update_ordered [OF *(4)] by (simp add: ledger_wf_def)
  show "ledger_le s s'"
  proof (rule ledger_leI)
    show "\<exists>m. map_of (ps_leases s') k = Some m \<and> lease_le l m" if "map_of (ps_leases s) k = Some l" for k l
      using bt_try_update_lookup [OF *(4), of k] that *(5) abandoned_le [OF abandons_restart]
      by (auto simp: restart_lease_Ok)
  qed (use *(1,3,5) in \<open>simp_all add: sequence_step\<close>)
qed

end
