(* ===== verification/Replay_Disk.thy ===== *)
theory Replay_Disk
  imports Replay_Store Replay_Ledger
begin

text \<open>
  From ledger transactions to the disk.  What is written is read back (\<open>write_read\<close>), so a
  locked transaction either leaves the snapshot as it was or replaces it by the state its body
  computed.  The locale \<open>disk_transaction\<close> lifts the ledger contract to worlds.
\<close>

subsection \<open>Reading back\<close>

definition snapshot :: "'b host \<Rightarrow> string \<Rightarrow> 'b world \<Rightarrow> persisted_state option" where
  "snapshot h key w =
     (case read_authenticated_state h io_fine key w of Inl _ \<Rightarrow> None | Inr s \<Rightarrow> Some s)"

lemma snapshot_Some:
  "snapshot h key w = Some s \<longleftrightarrow> read_authenticated_state h io_fine key w = Ok s"
  by (cases "read_authenticated_state h io_fine key w") (auto simp: snapshot_def)

lemma io_fine_simps [simp]:
  "io_read io_fine = None" "io_lock io_fine = None" "io_exists io_fine = None"
  "\<not> io_poisoned io_fine" "io_replace io_fine = Replaced" "io_instance io_fine = None"
  "\<not> io_instance_poisoned io_fine" "io_open io_fine = None" "io_overlaps io_fine = Ok False"
  by (simp_all add: io_fine_def)

lemma read_snapshot:
  "read_authenticated_state h io key w = Ok s \<longleftrightarrow> io_read io = None \<and> snapshot h key w = Some s"
  by (auto simp: snapshot_Some read_authenticated_state_def storage_read_def res_simps)

lemma snapshot_state: "w_state w = w_state w' \<Longrightarrow> snapshot h key w = snapshot h key w'"
  by (simp add: snapshot_def read_authenticated_state_def storage_read_def)

lemma snapshot_world [simp]:
  "snapshot h key (w\<lparr>w_instance_locked := b\<rparr>) = snapshot h key w"
  by (rule snapshot_state) simp

lemma snapshot_exists: "snapshot h key w = Some s \<Longrightarrow> \<exists>b. w_state w = Some b"
  by (auto simp: snapshot_Some read_authenticated_state_def storage_read_def res_simps)

lemma write_read:
  assumes h: "host_ok h"
    and ok: "authenticated_state_bytes_with_limit h s key MAX_STATE_BYTES = Ok b"
  shows "snapshot h key (w\<lparr>w_state := Some b\<rparr>) = Some s"
proof -
  have b: "authenticated_state_bytes h s key = Ok b" and len: "\<not> MAX_STATE_BYTES < ho_len h b"
    using ok by (auto simp: authenticated_state_bytes_with_limit_def res_simps split: if_splits)
  then obtain mac s' where mac: "state_mac h key s = Ok mac" and re: "ho_reload h s = Some s'"
    and vec': "ho_to_vec h \<lparr>ss_format_version = STORE_FORMAT_VERSION, ss_payload = s',
                           ss_hmac_sha256 = hs_hex_encode h mac\<rparr> = Some b"
    by (auto simp: authenticated_state_bytes_def res_simps)
  have "s' = s" using h re unfolding host_ok_def by blast
  then have vec: "ho_to_vec h \<lparr>ss_format_version = STORE_FORMAT_VERSION, ss_payload = s,
                           ss_hmac_sha256 = hs_hex_encode h mac\<rparr> = Some b"
    using vec' by simp
  have "ho_from_slice h b = Some \<lparr>ss_format_version = STORE_FORMAT_VERSION, ss_payload = s,
      ss_hmac_sha256 = hs_hex_encode h mac\<rparr>"
    "hs_hex_decode h (hs_hex_encode h mac) = Some mac"
    using h vec unfolding host_ok_def by blast+
  then show ?thesis
    using mac len ok
    by (simp add: snapshot_Some read_authenticated_state_def storage_read_def)
qed

subsection \<open>Locked transactions\<close>

lemma write_cases:
  assumes h: "host_ok h" and eq: "write_authenticated_state h io s key w = (r, w')"
  obtains (lost) e where "r = Err e" "w' = w"
  | (written) b where "w' = w\<lparr>w_state := Some b\<rparr>" "snapshot h key w' = Some s"
      "r = Ok () \<longleftrightarrow> io_replace io = Replaced"
proof (cases "authenticated_state_bytes_with_limit h s key MAX_STATE_BYTES")
  case (Inl e)
  then show thesis using eq by (intro lost [of e]) (auto simp: write_authenticated_state_def)
next
  case (Inr b)
  note wr = write_read [OF h Inr, of w]
  show thesis
  proof (cases "io_replace io")
    case Replaced
    then show ?thesis using eq Inr wr by (intro written [of b]) (auto simp: write_authenticated_state_def)
  next
    case (ReplaceLost e)
    then show ?thesis using eq Inr
      by (intro lost [of "replay_error_of_storage e"]) (auto simp: write_authenticated_state_def)
  next
    case (ReplaceUncertain e)
    then show ?thesis using eq Inr wr by (intro written [of b]) (auto simp: write_authenticated_state_def)
  qed
qed

lemma transaction_cases:
  assumes h: "host_ok h" and eq: "with_locked_state_unchecked h io st tx w = (r, w')"
  obtains (refused) e where "r = Err e" "w' = w"
  | (unchanged) s s' t where "snapshot h (rs_key st) w = Some s" "ps_store_id s = rs_store_id st"
      "tx s = Ok (t, s', False)" "r = Ok t" "w' = w"
  | (written) s s' t b where "snapshot h (rs_key st) w = Some s" "ps_store_id s = rs_store_id st"
      "tx s = Ok (t, s', True)" "w' = w\<lparr>w_state := Some b\<rparr>" "snapshot h (rs_key st) w' = Some s'"
      "r = Ok t \<or> (\<exists>e. r = Err e)"
proof -
  define opened where "opened =
        and_then (ensure (\<not> io_poisoned io) LockPoisoned) (\<lambda>_.
        and_then (io_check (io_lock io)) (\<lambda>_.
        and_then (io_check (io_exists io)) (\<lambda>_.
        and_then (ensure (w_state w \<noteq> None) MissingState) (\<lambda>_.
        and_then (read_authenticated_state h io (rs_key st) w) (\<lambda>s.
        and_then (ensure (ps_store_id s = rs_store_id st) StoreIdentityMismatch) (\<lambda>_.
          tx s))))))"
  note commit = written
  note run = eq [unfolded with_locked_state_unchecked_def opened_def [symmetric] Let_def]
  show thesis
  proof (cases opened)
    case (Inl e)
    then show thesis using run by (intro refused [of e]) auto
  next
    case (Inr res)
    obtain t s' c where res: "res = (t, s', c)" by (cases res) auto
    obtain s where s: "snapshot h (rs_key st) w = Some s" "ps_store_id s = rs_store_id st"
        "tx s = Ok (t, s', c)"
      using Inr res by (auto simp: opened_def res_simps read_snapshot)
    show thesis
    proof (cases c)
      case False
      then show thesis using run Inr res s by (intro unchanged [of s t s']) auto
    next
      case True
      obtain r0 w0 where wr: "write_authenticated_state h io s' (rs_key st) w = (r0, w0)"
        by (cases "write_authenticated_state h io s' (rs_key st) w") auto
      have rw: "w' = w0" "r = (case r0 of Inl e \<Rightarrow> Err e | Inr _ \<Rightarrow> Ok t)"
        using run Inr res True wr by (auto split: sum.splits)
      show thesis using h wr
      proof (cases rule: write_cases)
        case (lost e)
        then show thesis using rw by (intro refused [of e]) auto
      next
        case (written b)
        have "r = Ok t \<or> (\<exists>e. r = Err e)" using rw(2) by (cases r0) auto
        then show thesis
          using s rw(1) True written(1,2) by (intro commit [of s t s' b]) simp_all
      qed
    qed
  qed
qed

lemma transaction_Ok:
  assumes "host_ok h" "with_locked_state_unchecked h io st tx w = (Ok t, w')"
  obtains s s' c where "snapshot h (rs_key st) w = Some s" "ps_store_id s = rs_store_id st"
    "tx s = Ok (t, s', c)" "if c then snapshot h (rs_key st) w' = Some s' else w' = w"
  using assms by (cases rule: transaction_cases) force+

subsection \<open>Worlds only move forward\<close>

definition world_le :: "'b host \<Rightarrow> string \<Rightarrow> 'b world \<Rightarrow> 'b world \<Rightarrow> bool" where
  "world_le h key w w' \<longleftrightarrow>
     w_legacy w' = w_legacy w
     \<and> (\<forall>s. snapshot h key w = Some s \<longrightarrow> ledger_wf s \<longrightarrow>
          (\<exists>s'. snapshot h key w' = Some s' \<and> ledger_wf s' \<and> ledger_le s s'))"

lemma world_le_refl [simp]: "world_le h key w w"
  by (auto simp: world_le_def)

lemma world_le_trans: "world_le h key u v \<Longrightarrow> world_le h key v w \<Longrightarrow> world_le h key u w"
  unfolding world_le_def by (force intro: ledger_le_trans)

lemma world_le_lock [simp]: "world_le h key w (w'\<lparr>w_instance_locked := b\<rparr>) = world_le h key w w'"
  by (simp add: world_le_def)

abbreviation forward :: "'b host \<Rightarrow> replay_store \<Rightarrow> 'b world \<Rightarrow> 'b world \<Rightarrow> bool" where
  "forward h st w w' \<equiv> world_le h (rs_key st) w w' \<and> w_instance_locked w' = w_instance_locked w"

context ledger_transaction
begin

lemma on_disk:
  assumes "host_ok h" "input_ok"
  shows "forward h st w (snd (with_locked_state_unchecked h io st tx w))"
proof -
  obtain r w' where eq: "with_locked_state_unchecked h io st tx w = (r, w')" by fastforce
  show ?thesis using assms(1) eq
  proof (cases rule: transaction_cases)
    case (written s s' t b)
    then show ?thesis
      using eq keeps_wf [OF assms(2) _ written(3)] keeps_history [OF assms(2) _ written(3)]
      by (auto simp: world_le_def)
  qed (simp_all add: eq)
qed

lemma on_active_disk:
  assumes "host_ok h" "input_ok"
  shows "forward h st w (snd (with_locked_state h io st tx w))"
  using on_disk [OF assms, of st w io] by (simp add: with_locked_state_def ensure_active_def)

end

lemma active_transaction_Ok:
  assumes "host_ok h" "with_locked_state h io st tx w = (Ok t, w')"
  obtains s s' c where "rs_activation st = ACTIVE" "snapshot h (rs_key st) w = Some s"
    "ps_store_id s = rs_store_id st" "tx s = Ok (t, s', c)"
    "if c then snapshot h (rs_key st) w' = Some s' else w' = w"
proof -
  have a: "rs_activation st = ACTIVE" "with_locked_state_unchecked h io st tx w = (Ok t, w')"
    using assms(2) by (auto simp: with_locked_state_def ensure_active_def split: if_splits)
  show thesis by (rule transaction_Ok [OF assms(1) a(2)]) (rule that [OF a(1)])
qed

end
