(* ===== verification/Replay_System.thy ===== *)
theory Replay_System
  imports Replay_Disk
begin

text \<open>
  The replay store in use: any number of handles on one store, each in its own process, whose
  requests, openings and crashes interleave arbitrarily under arbitrary file-system outcomes.
  The transaction lock makes each request one step.
\<close>

subsection \<open>Requests\<close>

datatype replay_request =
  RqStartEpoch
| RqReserve sha256_digest string lease_binding
| RqBeginUse lease_id string u64
| RqBeginCompletion execution_permit sha256_digest terminal_disposition
| RqResumeCompletion lease_id string sha256_digest terminal_disposition
| RqCommitCompletion completion_witness
| RqFinishUse execution_permit io
| RqAbandonUse execution_permit io
| RqRevoke lease_id
| RqListLeases
| RqCurrentGeneration
| RqStoredGeneration

datatype replay_response =
  RpGeneration u64
| RpReserved replay_reservation
| RpUse use_reservation
| RpCompletion completion_reservation
| RpLeases "lease_summary list"
| RpDone

fun map_ok :: "('a \<Rightarrow> 'b) \<Rightarrow> ('a, 'e) result \<Rightarrow> ('b, 'e) result" where
  "map_ok f (Inl e) = Inl e"
| "map_ok f (Inr x) = Inr (f x)"

lemma map_ok_Ok [res_simps]: "map_ok f r = Ok y \<longleftrightarrow> (\<exists>x. r = Ok x \<and> y = f x)"
  by (cases r) auto

definition answer ::
  "('t \<Rightarrow> replay_response) \<Rightarrow> replay_store \<Rightarrow> ('t, replay_error) result \<times> 'b world
     \<Rightarrow> (replay_response, replay_error) result \<times> replay_store \<times> 'b world" where
  "answer f st rw = (map_ok f (fst rw), st, snd rw)"

fun handle_request ::
  "'b host \<Rightarrow> io \<Rightarrow> replay_store \<Rightarrow> replay_request \<Rightarrow> 'b world
     \<Rightarrow> (replay_response, replay_error) result \<times> replay_store \<times> 'b world" where
  "handle_request h io st RqStartEpoch w =
     (case start_epoch h io st w of (r, st', w') \<Rightarrow> (map_ok RpGeneration r, st', w'))"
| "handle_request h io st (RqReserve nonce key b) w =
     answer RpReserved st (reserve_lease h io st nonce key b w)"
| "handle_request h io st (RqBeginUse i op now) w = answer RpUse st (begin_use h io st i op now w)"
| "handle_request h io st (RqBeginCompletion p d disp) w =
     answer RpCompletion st (begin_completion h io st p d disp w)"
| "handle_request h io st (RqResumeCompletion i op d disp) w =
     answer RpCompletion st (resume_completion h io st i op d disp w)"
| "handle_request h io st (RqCommitCompletion c) w =
     answer (\<lambda>_. RpDone) st (commit_completion h io st c w)"
| "handle_request h io st (RqFinishUse p io') w =
     answer (\<lambda>_. RpDone) st (finish_use h io io' st p w)"
| "handle_request h io st (RqAbandonUse p io') w =
     answer (\<lambda>_. RpDone) st (abandon_use h io io' st p w)"
| "handle_request h io st (RqRevoke i) w = answer (\<lambda>_. RpDone) st (revoke_lease h io st i w)"
| "handle_request h io st RqListLeases w = answer RpLeases st (list_leases h io st w)"
| "handle_request h io st RqCurrentGeneration w =
     answer RpGeneration st (current_generation h io st w)"
| "handle_request h io st RqStoredGeneration w =
     answer RpGeneration st (stored_generation h io st w)"

text \<open>Lease identifiers are only ever built by parsing, so a request carries valid ones.\<close>

fun request_typed :: "replay_request \<Rightarrow> bool" where
  "request_typed (RqReserve _ _ b) = valid_lease_id (lb_lease_id b)"
| "request_typed _ = True"

subsection \<open>Systems\<close>

datatype system_event =
  EvRequest nat io replay_request
| EvOpen io
| EvDrop nat

fun event_typed :: "system_event \<Rightarrow> bool" where
  "event_typed (EvRequest _ _ rq) = request_typed rq"
| "event_typed _ = True"

record 'b replay_system =
  sy_world :: "'b world"
  sy_handles :: "replay_store option list"

definition handle_at :: "'b replay_system \<Rightarrow> nat \<Rightarrow> replay_store option" where
  "handle_at sys i = (if i < length (sy_handles sys) then sy_handles sys ! i else None)"

fun system_step ::
  "'b host \<Rightarrow> string \<Rightarrow> system_event \<Rightarrow> 'b replay_system
     \<Rightarrow> (replay_response, replay_error) result option \<times> 'b replay_system" where
  "system_step h key (EvRequest i io rq) sys =
     (case handle_at sys i of
        None \<Rightarrow> (None, sys)
      | Some st \<Rightarrow>
          (case handle_request h io st rq (sy_world sys) of
             (r, st', w') \<Rightarrow>
               (Some r, \<lparr>sy_world = w', sy_handles = (sy_handles sys)[i := Some st']\<rparr>)))"
| "system_step h key (EvOpen io) sys =
     (case open_existing h io key (sy_world sys) of
        Inl e \<Rightarrow> (Some (Err e), sys)
      | Inr st \<Rightarrow> (Some (Ok RpDone), sys\<lparr>sy_handles := sy_handles sys @ [Some st]\<rparr>))"
| "system_step h key (EvDrop i) sys =
     (case handle_at sys i of
        None \<Rightarrow> (None, sys)
      | Some st \<Rightarrow>
          (None, \<lparr>sy_world = drop_store st (sy_world sys), sy_handles = (sy_handles sys)[i := None]\<rparr>))"

fun system_run ::
  "'b host \<Rightarrow> string \<Rightarrow> system_event list \<Rightarrow> 'b replay_system
     \<Rightarrow> (replay_response, replay_error) result option list \<times> 'b replay_system" where
  "system_run h key [] sys = ([], sys)"
| "system_run h key (ev # evs) sys =
     (case system_step h key ev sys of
        (r, sys') \<Rightarrow> (case system_run h key evs sys' of (rs, sys'') \<Rightarrow> (r # rs, sys'')))"

text \<open>A new store: \<open>bootstrap\<close> on an empty directory, with its one handle.\<close>

definition new_system ::
  "'b host \<Rightarrow> io \<Rightarrow> string \<Rightarrow> string \<Rightarrow> ('b replay_system, replay_error) result" where
  "new_system h io random key =
     (case bootstrap h io random key \<lparr>w_state = None, w_legacy = False, w_instance_locked = False\<rparr> of
        (Inl e, _) \<Rightarrow> Err e
      | (Inr st, w) \<Rightarrow> Ok \<lparr>sy_world = w, sy_handles = [Some st]\<rparr>)"

subsection \<open>Every request keeps the ledger\<close>

lemma map_ok_answer: "answer f st rw = (r, st', w') \<Longrightarrow> st' = st \<and> w' = snd rw \<and> r = map_ok f (fst rw)"
  by (simp add: answer_def)

lemma current_generation_locked:
  "current_generation h io st w = with_locked_state h io st generation_tx w"
  by (simp add: current_generation_def with_locked_state_def)

lemma reserve_forward:
  assumes "host_ok h" "valid_lease_id (lb_lease_id b)"
  shows "forward h st w (snd (reserve_lease h io st nonce key b w))"
  using reserve.on_active_disk [OF assms, of st w io]
  by (simp add: reserve_lease_def Let_def split: sum.split)

lemma begin_use_forward:
  "host_ok h \<Longrightarrow> forward h st w (snd (begin_use h io st i op now w))"
  using begin_use.on_active_disk [of h st w io]
  by (simp add: begin_use_def split: sum.split)

lemma resume_completion_forward:
  "host_ok h \<Longrightarrow> forward h st w (snd (resume_completion h io st i op d disp w))"
  using resume_completion.on_active_disk [of h st w io]
  by (simp add: resume_completion_def split: sum.split)

lemma begin_completion_forward:
  "host_ok h \<Longrightarrow> forward h st w (snd (begin_completion h io st p d disp w))"
  using begin_completion.on_active_disk [of h st w io p d disp]
  by (simp add: begin_completion_def validate_permit_def)

lemma commit_completion_forward:
  "host_ok h \<Longrightarrow> forward h st w (snd (commit_completion h io st c w))"
  using commit_completion.on_active_disk [of h st w io c] by (simp add: commit_completion_def)

lemma terminalize_forward:
  assumes h: "host_ok h"
  shows "forward h st w (snd (legacy_terminalize h io io' st p disp w))"
proof (cases "legacy_terminal_digest h (rs_store_id st) p disp")
  case (Inl e)
  then show ?thesis by (simp add: legacy_terminalize_def)
next
  case (Inr d)
  obtain r1 w1 where b: "begin_completion h io st p d disp w = (r1, w1)"
    by (cases "begin_completion h io st p d disp w")
  have f: "forward h st w w1" using begin_completion_forward [OF h, of st w io p d disp] b by simp
  have c: "forward h st w (snd (commit_completion h io' st c w1))" for c
    using f commit_completion_forward [OF h, of st w1 io' c] world_le_trans by metis
  have "snd (legacy_terminalize h io io' st p disp w) = w1
    \<or> (\<exists>c. snd (legacy_terminalize h io io' st p disp w) = snd (commit_completion h io' st c w1))"
    using Inr b
    by (auto simp: legacy_terminalize_def
        split: sum.splits replay_error.splits completion_reservation.splits)
  then show ?thesis using f c by metis
qed

lemma request_forward:
  assumes h: "host_ok h" and ty: "request_typed rq" and rq: "rq \<noteq> RqStartEpoch"
    and eq: "handle_request h io st rq w = (r, st', w')"
  shows "st' = st \<and> forward h st w w'"
proof (cases rq)
  case (RqReserve nonce key b)
  then show ?thesis using eq ty reserve_forward [OF h, of b st w io] by (auto dest!: map_ok_answer)
next
  case (RqBeginUse i op now)
  then show ?thesis using eq begin_use_forward [OF h, of st w io] by (auto dest!: map_ok_answer)
next
  case (RqResumeCompletion i op d disp)
  then show ?thesis using eq resume_completion_forward [OF h, of st w io] by (auto dest!: map_ok_answer)
next
  case (RqRevoke i)
  then show ?thesis
    using eq revoke.on_active_disk [OF h, of st w io] by (auto simp: revoke_lease_def dest!: map_ok_answer)
next
  case (RqBeginCompletion p d disp)
  then show ?thesis using eq begin_completion_forward [OF h, of st w io] by (auto dest!: map_ok_answer)
next
  case (RqCommitCompletion c)
  then show ?thesis using eq commit_completion_forward [OF h, of st w io] by (auto dest!: map_ok_answer)
next
  case (RqFinishUse p io')
  then show ?thesis using eq terminalize_forward [OF h, of st w io io']
    by (auto simp: finish_use_def dest!: map_ok_answer)
next
  case (RqAbandonUse p io')
  then show ?thesis using eq terminalize_forward [OF h, of st w io io']
    by (auto simp: abandon_use_def dest!: map_ok_answer)
next
  case RqListLeases
  then show ?thesis using eq list_leases.on_disk [OF h, of st w io]
    by (auto simp: list_leases_def dest!: map_ok_answer)
next
  case RqCurrentGeneration
  then show ?thesis using eq generation.on_active_disk [OF h, of st w io]
    by (auto simp: current_generation_locked dest!: map_ok_answer)
next
  case RqStoredGeneration
  then show ?thesis using eq generation.on_disk [OF h, of st w io]
    by (auto simp: stored_generation_def dest!: map_ok_answer)
qed (use rq in simp)

subsection \<open>The invariant of a system\<close>

text \<open>
  A start of an epoch either leaves the world alone or moves it forward; the handle is then
  active and holds the lock, or is poisoned (or still inactive when another instance is active).
\<close>

lemma start_epoch_cases_full:
  assumes h: "host_ok h" and eq: "start_epoch h io st w = (r, st', w')"
  obtains (kept) "\<not> is_ok r" "w' = w" "st' = st"
  | (inactive) "r = Err InstanceAlreadyActive" "w' = w" "rs_activation st = INACTIVE" "st' = st"
  | (poisoned) "\<not> is_ok r" "forward h st w w'" "rs_activation st = INACTIVE"
      "st' = st\<lparr>rs_activation := POISONED\<rparr>"
  | (activated) g w1 where "r = Ok g" "rs_activation st = INACTIVE" "\<not> w_instance_locked w"
      "with_locked_state_unchecked h io st (start_epoch_tx h (rs_store_id st)) w = (Ok g, w1)"
      "forward h st w w1" "w' = w1\<lparr>w_instance_locked := True\<rparr>"
      "st' = st\<lparr>rs_activation := ACTIVE, rs_instance_lock := True\<rparr>"
proof (cases "rs_activation st = INACTIVE")
  case False
  then show thesis using eq kept by (cases "rs_activation st") (auto simp: start_epoch_def)
next
  case True
  then have same: "st\<lparr>rs_activation := INACTIVE\<rparr> = st" by simp
  show thesis
  proof (cases "try_lock_instance io w")
    case (Inl e)
    show thesis
    proof (cases "e = SeInstanceAlreadyActive")
      case True
      then show ?thesis
        using eq Inl same \<open>rs_activation st = INACTIVE\<close> by (intro inactive) (auto simp: start_epoch_def)
    next
      case False
      then show ?thesis
        using eq Inl \<open>rs_activation st = INACTIVE\<close>
        by (intro poisoned) (cases e; auto simp: start_epoch_def)+
    qed
  next
    case (Inr u)
    then have lock: "\<not> w_instance_locked w"
      by (auto simp: try_lock_instance_def split: option.splits if_splits)
    obtain r1 w1 where t: "with_locked_state_unchecked h io st (start_epoch_tx h (rs_store_id st)) w
        = (r1, w1)" by fastforce
    have f: "forward h st w w1"
      using start_epoch.on_disk [OF h TrueI, of st w io h "rs_store_id st"] t by simp
    show thesis
    proof (cases r1)
      case (Inl e)
      then show thesis using eq Inr t f True by (intro poisoned) (auto simp: start_epoch_def)
    next
      case ok: (Inr g)
      show thesis
      proof (cases "io_instance_poisoned io")
        case True
        then show thesis using eq Inr ok t f \<open>rs_activation st = INACTIVE\<close>
          by (intro poisoned) (auto simp: start_epoch_def)
      next
        case False
        then show thesis using eq Inr ok t f lock True
          by (intro activated [of g w1]) (auto simp: start_epoch_def)
      qed
    qed
  qed
qed

definition holds_lock :: "replay_store option \<Rightarrow> bool" where
  "holds_lock sto = (case sto of None \<Rightarrow> False | Some st \<Rightarrow> rs_instance_lock st)"

definition handle_wf :: "string \<Rightarrow> string \<Rightarrow> replay_store \<Rightarrow> bool" where
  "handle_wf key store_id st =
     (rs_key st = key \<and> rs_store_id st = store_id \<and> rs_activation st \<noteq> ACTIVATING
      \<and> (rs_activation st = ACTIVE \<longleftrightarrow> rs_instance_lock st))"

definition system_wf :: "'b host \<Rightarrow> string \<Rightarrow> 'b replay_system \<Rightarrow> bool" where
  "system_wf h key sys \<longleftrightarrow>
     (\<exists>s. snapshot h key (sy_world sys) = Some s \<and> ledger_wf s
        \<and> (\<forall>st. Some st \<in> set (sy_handles sys) \<longrightarrow> handle_wf key (ps_store_id s) st))
     \<and> length (filter holds_lock (sy_handles sys)) = (if w_instance_locked (sy_world sys) then 1 else 0)"

lemma filter_update_length:
  "i < length xs \<Longrightarrow> P (xs ! i) = P y \<Longrightarrow> length (filter P (xs[i := y])) = length (filter P xs)"
  by (induction xs arbitrary: i) (auto split: nat.split simp: less_Suc_eq_0_disj)

lemma filter_update_gain:
  "i < length xs \<Longrightarrow> \<not> P (xs ! i) \<Longrightarrow> P y \<Longrightarrow> length (filter P (xs[i := y])) = Suc (length (filter P xs))"
  by (induction xs arbitrary: i) (auto split: nat.split simp: less_Suc_eq_0_disj)

lemma filter_update_loss:
  "i < length xs \<Longrightarrow> P (xs ! i) \<Longrightarrow> \<not> P y \<Longrightarrow> Suc (length (filter P (xs[i := y]))) = length (filter P xs)"
  by (induction xs arbitrary: i) (auto split: nat.split simp: less_Suc_eq_0_disj)

lemma handle_at_Some:
  "handle_at sys i = Some st \<longleftrightarrow> i < length (sy_handles sys) \<and> sy_handles sys ! i = Some st"
  by (auto simp: handle_at_def)

lemma handle_at_in: "handle_at sys i = Some st \<Longrightarrow> Some st \<in> set (sy_handles sys)"
  by (auto simp: handle_at_Some in_set_conv_nth)

text \<open>The one lemma behind every step: a handle moved the world forward and was replaced.\<close>

lemma system_wf_update:
  assumes wf: "system_wf h key sys" and i: "handle_at sys i = Some st"
    and f: "world_le h key (sy_world sys) w'"
    and st': "\<And>sid. handle_wf key sid st \<Longrightarrow> case sto of None \<Rightarrow> True | Some st' \<Rightarrow> handle_wf key sid st'"
    and lock: "holds_lock sto = rs_instance_lock st \<and> w_instance_locked w' = w_instance_locked (sy_world sys)
      \<or> holds_lock sto \<and> \<not> rs_instance_lock st \<and> \<not> w_instance_locked (sy_world sys) \<and> w_instance_locked w'
      \<or> \<not> holds_lock sto \<and> rs_instance_lock st \<and> \<not> w_instance_locked w'"
  shows "system_wf h key \<lparr>sy_world = w', sy_handles = (sy_handles sys)[i := sto]\<rparr>"
proof -
  have i': "i < length (sy_handles sys)" "holds_lock (sy_handles sys ! i) = rs_instance_lock st"
    using i by (auto simp: handle_at_Some holds_lock_def)
  obtain s where s: "snapshot h key (sy_world sys) = Some s" "ledger_wf s"
    "\<forall>st. Some st \<in> set (sy_handles sys) \<longrightarrow> handle_wf key (ps_store_id s) st"
    and n: "length (filter holds_lock (sy_handles sys)) = (if w_instance_locked (sy_world sys) then 1 else 0)"
    using wf by (auto simp: system_wf_def)
  obtain s' where s': "snapshot h key w' = Some s'" "ledger_wf s'" "ledger_le s s'"
    using f s by (auto simp: world_le_def)
  have "handle_wf key (ps_store_id s') st2" if "Some st2 \<in> set ((sy_handles sys)[i := sto])" for st2
  proof -
    have sid: "ps_store_id s' = ps_store_id s" using ledger_leD(1) [OF s'(3)] .
    have "Some st2 = sto \<or> Some st2 \<in> set (sy_handles sys)"
      using that set_update_subset_insert by fastforce
    then show ?thesis using s(3) sid st' [of "ps_store_id s"] handle_at_in [OF i] by auto
  qed
  moreover have "length (filter holds_lock ((sy_handles sys)[i := sto])) =
      (if w_instance_locked w' then 1 else 0)"
    using lock n i' filter_update_length [OF i'(1), of holds_lock sto]
      filter_update_gain [OF i'(1), of holds_lock sto] filter_update_loss [OF i'(1), of holds_lock sto]
    by (auto split: if_splits)
  ultimately show ?thesis using s' by (auto simp: system_wf_def)
qed

lemma handle_wf_at:
  assumes "system_wf h key sys" "handle_at sys i = Some st"
  obtains s where "snapshot h key (sy_world sys) = Some s" "ledger_wf s"
    "handle_wf key (ps_store_id s) st"
  using assms(1) handle_at_in [OF assms(2)] unfolding system_wf_def by blast

lemma request_step_keeps:
  assumes h: "host_ok h" and ty: "request_typed rq" and wf: "system_wf h key sys"
    and i: "handle_at sys i = Some st"
    and eq: "handle_request h io st rq (sy_world sys) = (r, st', w')"
  shows "system_wf h key \<lparr>sy_world = w', sy_handles = (sy_handles sys)[i := Some st']\<rparr>
    \<and> world_le h key (sy_world sys) w'"
proof -
  obtain s :: persisted_state where hw: "handle_wf key (ps_store_id s) st"
    by (rule handle_wf_at [OF wf i])
  then have key: "rs_key st = key" by (simp add: handle_wf_def)
  show ?thesis
  proof (cases "rq = RqStartEpoch")
    case False
    have "st' = st \<and> forward h st (sy_world sys) w'" using request_forward [OF h ty False eq] .
    then show ?thesis
      using system_wf_update [OF wf i, of w' "Some st"] key by (auto simp: holds_lock_def)
  next
    case True
    then obtain r0 where st: "start_epoch h io st (sy_world sys) = (r0, st', w')"
      using eq by (auto split: prod.splits)
    show ?thesis using h st
    proof (cases rule: start_epoch_cases_full)
      case kept
      then show ?thesis using system_wf_update [OF wf i, of w' "Some st"] by (auto simp: holds_lock_def)
    next
      case inactive
      then show ?thesis using system_wf_update [OF wf i, of w' "Some st"] by (auto simp: holds_lock_def)
    next
      case poisoned
      then have "\<not> rs_instance_lock st" using hw by (simp add: handle_wf_def)
      then show ?thesis
        using poisoned system_wf_update [OF wf i, of w' "Some st'"] key
        by (auto simp: holds_lock_def handle_wf_def)
    next
      case (activated g w1)
      then have "\<not> rs_instance_lock st" using hw by (simp add: handle_wf_def)
      then show ?thesis
        using activated system_wf_update [OF wf i, of w' "Some st'"] key
        by (auto simp: holds_lock_def handle_wf_def)
    qed
  qed
qed

lemma open_existing_Ok:
  assumes "open_existing h io key w = Ok st"
  shows "\<exists>s. snapshot h key w = Some s \<and> st = from_parts (ps_store_id s) key"
  using assms by (auto simp: open_existing_def res_simps read_snapshot split: if_splits)

lemma system_step_keeps:
  assumes h: "host_ok h" and ty: "event_typed ev" and wf: "system_wf h key sys"
    and eq: "system_step h key ev sys = (r, sys')"
  shows "system_wf h key sys' \<and> world_le h key (sy_world sys) (sy_world sys')"
proof (cases ev)
  case (EvRequest i io rq)
  show ?thesis
  proof (cases "handle_at sys i")
    case None
    then show ?thesis using eq EvRequest wf by simp
  next
    case (Some st)
    obtain r0 st' w' where rq: "handle_request h io st rq (sy_world sys) = (r0, st', w')"
      by (cases "handle_request h io st rq (sy_world sys)") auto
    have "request_typed rq" using ty EvRequest by simp
    then show ?thesis
      using request_step_keeps [OF h _ wf Some rq] eq EvRequest Some rq by auto
  qed
next
  case (EvOpen io)
  show ?thesis
  proof (cases "open_existing h io key (sy_world sys)")
    case (Inl e)
    then show ?thesis using eq EvOpen wf by simp
  next
    case (Inr st)
    then show ?thesis
      using eq EvOpen wf open_existing_Ok [OF Inr]
      by (auto simp: system_wf_def holds_lock_def from_parts_def handle_wf_def)
  qed
next
  case (EvDrop i)
  show ?thesis
  proof (cases "handle_at sys i")
    case None
    then show ?thesis using eq EvDrop wf by simp
  next
    case (Some st)
    then show ?thesis
      using eq EvDrop system_wf_update [OF wf Some, of "drop_store st (sy_world sys)" None]
      by (auto simp: drop_store_def holds_lock_def)
  qed
qed

lemma system_run_keeps:
  assumes h: "host_ok h"
  shows "list_all event_typed evs \<Longrightarrow> system_wf h key sys \<Longrightarrow> system_run h key evs sys = (rs, sys') \<Longrightarrow>
    system_wf h key sys' \<and> world_le h key (sy_world sys) (sy_world sys') \<and> length rs = length evs"
proof (induction evs arbitrary: sys rs)
  case (Cons ev evs)
  obtain r1 sys1 where st: "system_step h key ev sys = (r1, sys1)" by fastforce
  obtain rs2 sys2 where run: "system_run h key evs sys1 = (rs2, sys2)" by fastforce
  have k: "system_wf h key sys1 \<and> world_le h key (sy_world sys) (sy_world sys1)"
    using system_step_keeps [OF h _ _ st] Cons.prems by simp
  have eq: "sys2 = sys'" "rs = r1 # rs2" using Cons.prems(3) st run by simp_all
  have "system_wf h key sys' \<and> world_le h key (sy_world sys1) (sy_world sys') \<and> length rs2 = length evs"
    using Cons.IH [OF _ conjunct1 [OF k] run [unfolded eq(1)]] Cons.prems(1) by simp
  then show ?case using k eq(2) world_le_trans by auto
qed simp

text \<open>Looking inside a run: the event at a position, between what happened before and after.\<close>

lemma system_run_append:
  "system_run h key (xs @ ys) sys =
     (case system_run h key xs sys of (rs, sys1) \<Rightarrow>
        (case system_run h key ys sys1 of (rs', sys2) \<Rightarrow> (rs @ rs', sys2)))"
  by (induction xs arbitrary: sys) (auto split: prod.splits)

lemma system_run_at:
  assumes h: "host_ok h" and ty: "list_all event_typed evs" and wf: "system_wf h key sys"
    and run: "system_run h key evs sys = (rs, sys')" and i: "i < length evs"
  obtains a b where "system_run h key (take i evs) sys = (take i rs, a)"
    "system_step h key (evs ! i) a = (rs ! i, b)"
    "system_run h key (drop (Suc i) evs) b = (drop (Suc i) rs, sys')"
    "system_wf h key a" "system_wf h key b"
    "world_le h key (sy_world sys) (sy_world a)" "world_le h key (sy_world a) (sy_world b)"
    "world_le h key (sy_world b) (sy_world sys')"
proof -
  obtain r0 a where a: "system_run h key (take i evs) sys = (r0, a)" by fastforce
  obtain r1 b where b: "system_step h key (evs ! i) a = (r1, b)" by fastforce
  obtain r2 c where c: "system_run h key (drop (Suc i) evs) b = (r2, c)" by fastforce
  have t: "list_all event_typed (take i evs)" "event_typed (evs ! i)"
    "list_all event_typed (drop (Suc i) evs)"
    using ty i by (auto simp: list_all_iff dest: in_set_takeD in_set_dropD)
  note A = system_run_keeps [OF h t(1) wf a]
  note B = system_step_keeps [OF h t(2) conjunct1 [OF A] b]
  note C = system_run_keeps [OF h t(3) conjunct1 [OF B] c]
  have "system_run h key evs sys = (r0 @ r1 # r2, c)"
    using a b c system_run_append [of h key "take i evs" "evs ! i # drop (Suc i) evs" sys]
    by (simp add: id_take_nth_drop [OF i, symmetric])
  then have "rs = r0 @ r1 # r2" "sys' = c" "length r0 = i" using run A i by auto
  then show thesis using that [of a b] a b c A B C by (simp add: nth_append)
qed

lemma new_system_wf:
  assumes h: "host_ok h" and "new_system h io random key = Ok sys"
  shows "system_wf h key sys"
proof -
  define w0 where "w0 = (\<lparr>w_state = None, w_legacy = False, w_instance_locked = False\<rparr> :: 'a world)"
  define s0 where "s0 = persisted_state_default\<lparr>ps_store_id := hs_hex_encode h random\<rparr>"
  obtain st w where b: "bootstrap h io random key w0 = (Ok st, w)"
    and sys: "sys = \<lparr>sy_world = w, sy_handles = [Some st]\<rparr>"
    using assms(2) by (auto simp: new_system_def w0_def split: prod.splits sum.splits)
  have ws: "write_authenticated_state h io s0 key w0 = (Ok (), w)"
    and st: "st = from_parts (ps_store_id s0) key"
    using b by (auto simp: bootstrap_def Let_def s0_def split: sum.splits prod.splits)
  show ?thesis using h ws
  proof (cases rule: write_cases)
    case (written b)
    then show ?thesis
      using sys st ledger_wf_default [of "hs_hex_encode h random"]
      by (auto simp: system_wf_def s0_def w0_def from_parts_def handle_wf_def holds_lock_def)
  qed simp
qed

end
