(* ===== verification/Replay_History.thy ===== *)
theory Replay_History
  imports Replay_System
begin

text \<open>
  What a run of the system hands out is handed out once.  The locale \<open>consumed_once\<close> is the
  common argument: a thing given by a step was not taken before and is taken after, and what is
  taken stays taken.  It is interpreted on the system for execution permits, grant nonces,
  idempotency keys, lease identifiers and broker generations.
\<close>

fun run_steps :: "('ev \<Rightarrow> 's \<Rightarrow> 'r \<times> 's) \<Rightarrow> 'ev list \<Rightarrow> 's \<Rightarrow> 'r list \<times> 's" where
  "run_steps step [] s = ([], s)"
| "run_steps step (ev # evs) s =
     (case step ev s of (r, s') \<Rightarrow> (case run_steps step evs s' of (rs, s'') \<Rightarrow> (r # rs, s'')))"

lemma system_run_steps: "system_run h key evs sys = run_steps (system_step h key) evs sys"
  by (induction evs arbitrary: sys) (auto split: prod.splits)

definition given :: "('ev \<Rightarrow> 'r \<Rightarrow> 'x option) \<Rightarrow> 'ev list \<Rightarrow> 'r list \<Rightarrow> 'x list" where
  "given gives evs rs = List.map_filter (\<lambda>(ev, r). gives ev r) (zip evs rs)"

lemma given_simps [simp]:
  "given gives [] rs = []" "given gives (ev # evs) (r # rs) =
     (case gives ev r of None \<Rightarrow> given gives evs rs | Some x \<Rightarrow> x # given gives evs rs)"
  by (simp_all add: given_def map_filter_simps split: option.split)

locale consumed_once =
  fixes step :: "'ev \<Rightarrow> 's \<Rightarrow> 'r \<times> 's"
    and sound :: "'s \<Rightarrow> bool"
    and typed :: "'ev \<Rightarrow> bool"
    and taken :: "'s \<Rightarrow> 'x set"
    and gives :: "'ev \<Rightarrow> 'r \<Rightarrow> 'x option"
  assumes step_sound: "sound a \<Longrightarrow> typed ev \<Longrightarrow> step ev a = (r, b) \<Longrightarrow> sound b"
    and step_taken: "sound a \<Longrightarrow> typed ev \<Longrightarrow> step ev a = (r, b) \<Longrightarrow> taken a \<subseteq> taken b"
    and step_gives: "sound a \<Longrightarrow> typed ev \<Longrightarrow> step ev a = (r, b) \<Longrightarrow> gives ev r = Some x \<Longrightarrow>
      x \<notin> taken a \<and> x \<in> taken b"
begin

lemma given_once:
  "sound a \<Longrightarrow> list_all typed evs \<Longrightarrow> run_steps step evs a = (rs, b) \<Longrightarrow>
     distinct (given gives evs rs) \<and> set (given gives evs rs) \<inter> taken a = {}
     \<and> set (given gives evs rs) \<subseteq> taken b \<and> taken a \<subseteq> taken b"
proof (induction evs arbitrary: a rs)
  case (Cons ev evs)
  obtain r a' where st: "step ev a = (r, a')" by fastforce
  obtain rs' b' where run: "run_steps step evs a' = (rs', b')" by fastforce
  have eq: "rs = r # rs'" "b' = b" using Cons.prems(3) st run by simp_all
  have ty: "typed ev" using Cons.prems(2) by simp
  have s: "sound a'" "taken a \<subseteq> taken a'"
    using step_sound [OF Cons.prems(1) ty st] step_taken [OF Cons.prems(1) ty st] by auto
  have IH: "distinct (given gives evs rs')" "set (given gives evs rs') \<inter> taken a' = {}"
     "set (given gives evs rs') \<subseteq> taken b" "taken a' \<subseteq> taken b"
    using Cons.IH [OF s(1) _ run [unfolded eq(2)]] Cons.prems(2) by auto
  show ?case
  proof (cases "gives ev r")
    case None
    then show ?thesis using IH s(2) eq(1) by auto
  next
    case (Some x)
    then have "x \<notin> taken a" "x \<in> taken a'"
      using step_gives [OF Cons.prems(1) ty st] by auto
    then show ?thesis using Some IH s(2) eq(1) by auto
  qed
qed simp

end

definition sound_system :: "'b host \<Rightarrow> string \<Rightarrow> 'b replay_system \<Rightarrow> bool" where
  "sound_system h key sys \<longleftrightarrow> host_ok h \<and> system_wf h key sys"

subsection \<open>What a successful request did\<close>

lemma step_request:
  assumes "system_step h key ev sys = (Some (Ok resp), sys')" and "resp \<noteq> RpDone"
  obtains i io rq st st' w' where "ev = EvRequest i io rq" "handle_at sys i = Some st"
    "handle_request h io st rq (sy_world sys) = (Ok resp, st', w')"
    "sys' = \<lparr>sy_world = w', sy_handles = (sy_handles sys)[i := Some st']\<rparr>"
  using assms by (cases ev) (auto split: option.splits prod.splits sum.splits)

lemma answered:
  assumes "answer f st rw = (Ok resp, st', w')"
  shows "\<exists>t. rw = (Ok t, w') \<and> resp = f t \<and> st' = st"
  using assms by (cases rw) (auto simp: answer_def res_simps)

lemma request_use:
  assumes "handle_request h io st rq w = (Ok (RpUse u), st', w')"
  obtains lid op now where "rq = RqBeginUse lid op now" "begin_use h io st lid op now w = (Ok u, w')"
  using assms by (cases rq) (auto dest!: answered split: prod.splits simp: res_simps)

lemma request_reserved:
  assumes "handle_request h io st rq w = (Ok (RpReserved u), st', w')"
  obtains n k b where "rq = RqReserve n k b" "reserve_lease h io st n k b w = (Ok u, w')"
  using assms by (cases rq) (auto dest!: answered split: prod.splits simp: res_simps)

lemma sound_handle:
  assumes "sound_system h key sys" "handle_at sys i = Some st"
  shows "host_ok h" "rs_key st = key"
    "\<exists>s. snapshot h key (sy_world sys) = Some s \<and> ledger_wf s \<and> handle_wf key (ps_store_id s) st"
proof -
  show "host_ok h" using assms by (simp add: sound_system_def)
  have wf: "system_wf h key sys" using assms by (simp add: sound_system_def)
  show ex: "\<exists>s. snapshot h key (sy_world sys) = Some s \<and> ledger_wf s \<and> handle_wf key (ps_store_id s) st"
    by (rule handle_wf_at [OF wf assms(2)]) blast
  then show "rs_key st = key" by (auto simp: handle_wf_def)
qed

lemma begin_use_New:
  assumes h: "host_ok h" and eq: "begin_use h io st lid op now w = (Ok (UseNew p), w')"
  obtains s s' l where "rs_activation st = ACTIVE" "snapshot h (rs_key st) w = Some s"
    "snapshot h (rs_key st) w' = Some s'"
    "begin_use_tx (store_binding h st) (lease_id_str lid) (sha256_hex h op) now s
       = Ok (UseNew p, s', True)"
    "map_of (ps_leases s) (lease_id_str lid) = Some l"
    "map_of (pl_uses l) (sha256_hex h op) = None"
    "p = permit_of lid (ps_broker_generation s) l (sha256_hex h op) (store_binding h st)"
    "map_of (ps_leases s') (lease_id_str lid) =
       Some (l\<lparr>pl_remaining_uses := pl_remaining_uses l - 1,
               pl_uses := bt_insert (sha256_hex h op) UseActive (pl_uses l)\<rparr>)"
    "\<not> pl_revoked l" "pl_broker_generation l = ps_broker_generation s"
proof -
  have "with_locked_state h io st
      (begin_use_tx (store_binding h st) (lease_id_str lid) (sha256_hex h op) now) w = (Ok (UseNew p), w')"
    using eq by (auto simp: begin_use_def split: sum.splits)
  then obtain s s' c where a: "rs_activation st = ACTIVE" "snapshot h (rs_key st) w = Some s"
    "begin_use_tx (store_binding h st) (lease_id_str lid) (sha256_hex h op) now s = Ok (UseNew p, s', c)"
    "if c then snapshot h (rs_key st) w' = Some s' else w' = w"
    using active_transaction_Ok [OF h] by metis
  show thesis using a(3)
  proof (cases rule: begin_use_cases)
    case (begun l i n m)
    have "i = lid" using begun(10) by (auto simp: parse_lease_id_Ok lease_id.expand)
    then show ?thesis
      using that [OF a(1,2), of s' l] a(3,4) begun by (simp add: update_use_def update_lease_def)
  qed simp
qed

lemma reserve_New:
  assumes h: "host_ok h" and eq: "reserve_lease h io st n k b w = (Ok (ReservedNew i), w')"
  obtains s s' fp where "rs_activation st = ACTIVE" "snapshot h (rs_key st) w = Some s"
    "snapshot h (rs_key st) w' = Some s'" "lease_validate b = Ok ()" "i = lb_lease_id b"
    "reserve_tx (digest_str n) (sha256_hex h k) fp b s = Ok (ReservedNew i, s', True)"
    "digest_str n \<notin> set (ps_seen_nonce_digests s)" "digest_str n \<in> set (ps_seen_nonce_digests s')"
    "sha256_hex h k \<notin> dom (map_of (ps_idempotency s))"
    "sha256_hex h k \<in> dom (map_of (ps_idempotency s'))"
    "lease_id_str i \<notin> dom (map_of (ps_leases s))" "lease_id_str i \<in> dom (map_of (ps_leases s'))"
proof -
  obtain fp where v: "lease_validate b = Ok ()"
    and tx: "with_locked_state h io st (reserve_tx (digest_str n) (sha256_hex h k) fp b) w
      = (Ok (ReservedNew i), w')"
    using eq by (auto simp: reserve_lease_def Let_def res_simps split: sum.splits)
  obtain s s' c where a: "rs_activation st = ACTIVE" "snapshot h (rs_key st) w = Some s"
    "reserve_tx (digest_str n) (sha256_hex h k) fp b s = Ok (ReservedNew i, s', c)"
    "if c then snapshot h (rs_key st) w' = Some s' else w' = w"
    using active_transaction_Ok [OF h tx] by metis
  show thesis using a(3)
  proof (cases rule: reserve_cases)
    case (reserved m q)
    then show ?thesis
      using a v by (intro that [of s s' fp]) (auto simp: bs_insert_facts)
  qed simp
qed

subsection \<open>Permits\<close>

definition used_pairs :: "'b host \<Rightarrow> string \<Rightarrow> 'b replay_system \<Rightarrow> (lease_id \<times> string) set" where
  "used_pairs h key sys =
     {(i, op). \<exists>s l. snapshot h key (sy_world sys) = Some s
        \<and> map_of (ps_leases s) (lease_id_str i) = Some l \<and> op \<in> dom (map_of (pl_uses l))}"

fun permit_given ::
  "system_event \<Rightarrow> (replay_response, replay_error) result option \<Rightarrow> execution_permit option" where
  "permit_given _ (Some (Inr (RpUse (UseNew p)))) = Some p"
| "permit_given _ _ = None"

definition permit_key :: "execution_permit \<Rightarrow> lease_id \<times> string" where
  "permit_key p = (ep_lease_id p, ep_operation_sha256 p)"

lemma permit_given_Some:
  "permit_given ev r = Some p \<longleftrightarrow> r = Some (Ok (RpUse (UseNew p)))"
  by (cases "(ev, r)" rule: permit_given.cases) auto

lemma world_le_uses:
  assumes "world_le h key (sy_world a) (sy_world b)" "sound_system h key a"
  shows "used_pairs h key a \<subseteq> used_pairs h key b"
proof
  fix x assume "x \<in> used_pairs h key a"
  then obtain i op s l where x: "x = (i, op)" and s: "snapshot h key (sy_world a) = Some s"
    and l: "map_of (ps_leases s) (lease_id_str i) = Some l" "op \<in> dom (map_of (pl_uses l))"
    unfolding used_pairs_def by blast
  have "ledger_wf s" using assms(2) s by (auto simp: sound_system_def system_wf_def)
  then obtain s' where s': "snapshot h key (sy_world b) = Some s'" "ledger_le s s'"
    using assms(1) s by (auto simp: world_le_def)
  obtain m where m: "map_of (ps_leases s') (lease_id_str i) = Some m" "lease_le l m"
    using ledger_leD(6) [OF s'(2) l(1)] by blast
  obtain u where "map_of (pl_uses l) op = Some u" using l(2) by auto
  then have "op \<in> dom (map_of (pl_uses m))" using lease_leD(4) [OF m(2)] by blast
  then show "x \<in> used_pairs h key b" using s' m x by (auto simp: used_pairs_def)
qed

lemma sound_step:
  assumes "sound_system h key a" "event_typed ev" "system_step h key ev a = (r, b)"
  shows "sound_system h key b \<and> world_le h key (sy_world a) (sy_world b)"
  using assms system_step_keeps unfolding sound_system_def by blast

interpretation permits: consumed_once "system_step h key" "sound_system h key" event_typed
  "used_pairs h key" "\<lambda>ev r. map_option permit_key (permit_given ev r)" for h key
proof unfold_locales
  fix a ev r b x
  assume a: "sound_system h key a" "event_typed ev" "system_step h key ev a = (r, b)"
  show "sound_system h key b" using sound_step [OF a] by simp
  show "used_pairs h key a \<subseteq> used_pairs h key b" using world_le_uses sound_step [OF a] a(1) by blast
  assume "map_option permit_key (permit_given ev r) = Some x"
  then obtain p where p: "r = Some (Ok (RpUse (UseNew p)))" and x: "x = permit_key p"
    by (auto simp: permit_given_Some)
  have "RpUse (UseNew p) \<noteq> RpDone" by simp
  from a(3) [unfolded p] this obtain i io rq st st' w' where step: "handle_at a i = Some st"
    "handle_request h io st rq (sy_world a) = (Ok (RpUse (UseNew p)), st', w')"
    "b = \<lparr>sy_world = w', sy_handles = (sy_handles a)[i := Some st']\<rparr>"
    by (rule step_request)
  from step(2) obtain lid op now where u: "begin_use h io st lid op now (sy_world a) = (Ok (UseNew p), w')"
    by (rule request_use)
  have h: "host_ok h" "rs_key st = key" using sound_handle [OF a(1) step(1)] by auto
  show "x \<notin> used_pairs h key a \<and> x \<in> used_pairs h key b"
    by (rule begin_use_New [OF h(1) u])
      (use h(2) step(3) in \<open>auto simp: x permit_key_def permit_of_def used_pairs_def\<close>)
qed

subsection \<open>Reservations\<close>

definition on_snapshot :: "'b host \<Rightarrow> string \<Rightarrow> (persisted_state \<Rightarrow> 'x set) \<Rightarrow> 'b replay_system \<Rightarrow> 'x set" where
  "on_snapshot h key f sys =
     (case snapshot h key (sy_world sys) of None \<Rightarrow> {} | Some s \<Rightarrow> f s)"

lemma on_snapshot_mono:
  assumes "sound_system h key a" "event_typed ev" "system_step h key ev a = (r, b)"
    and "\<And>s t. ledger_le s t \<Longrightarrow> f s \<subseteq> f t"
  shows "on_snapshot h key f a \<subseteq> on_snapshot h key f b"
proof -
  have "world_le h key (sy_world a) (sy_world b)" using sound_step [OF assms(1-3)] by simp
  moreover obtain s where s: "snapshot h key (sy_world a) = Some s" "ledger_wf s"
    using assms(1) by (auto simp: sound_system_def system_wf_def)
  ultimately obtain t where "snapshot h key (sy_world b) = Some t" "ledger_le s t"
    by (auto simp: world_le_def)
  then show ?thesis using s(1) assms(4) by (simp add: on_snapshot_def)
qed

record reservation_given =
  rg_nonce :: sha256_digest
  rg_key :: string
  rg_lease_id :: lease_id

fun reservation_of ::
  "system_event \<Rightarrow> (replay_response, replay_error) result option \<Rightarrow> reservation_given option" where
  "reservation_of (EvRequest _ _ (RqReserve n k b)) (Some (Inr (RpReserved (ReservedNew i)))) =
     Some \<lparr>rg_nonce = n, rg_key = k, rg_lease_id = i\<rparr>"
| "reservation_of _ _ = None"

lemma reservation_of_Some:
  "reservation_of ev r = Some g \<longleftrightarrow>
     (\<exists>j io n k b i. ev = EvRequest j io (RqReserve n k b) \<and> r = Some (Ok (RpReserved (ReservedNew i)))
        \<and> g = \<lparr>rg_nonce = n, rg_key = k, rg_lease_id = i\<rparr>)"
  by (cases "(ev, r)" rule: reservation_of.cases) auto

lemma reservation_step:
  assumes "sound_system h key a" "system_step h key ev a = (r, b)" "reservation_of ev r = Some g"
  shows "digest_str (rg_nonce g) \<in> on_snapshot h key (set \<circ> ps_seen_nonce_digests) b
      - on_snapshot h key (set \<circ> ps_seen_nonce_digests) a"
    and "sha256_hex h (rg_key g) \<in> on_snapshot h key (dom \<circ> map_of \<circ> ps_idempotency) b
      - on_snapshot h key (dom \<circ> map_of \<circ> ps_idempotency) a"
    and "lease_id_str (rg_lease_id g) \<in> on_snapshot h key (dom \<circ> map_of \<circ> ps_leases) b
      - on_snapshot h key (dom \<circ> map_of \<circ> ps_leases) a"
proof -
  obtain j io n k bd i where g: "ev = EvRequest j io (RqReserve n k bd)"
    "r = Some (Ok (RpReserved (ReservedNew i)))" "g = \<lparr>rg_nonce = n, rg_key = k, rg_lease_id = i\<rparr>"
    using assms(3) by (auto simp: reservation_of_Some)
  obtain st w' where st: "handle_at a j = Some st"
    "reserve_lease h io st n k bd (sy_world a) = (Ok (ReservedNew i), w')" "sy_world b = w'"
    using assms(2) g by (auto dest!: answered split: option.splits prod.splits)
  have h: "host_ok h" "rs_key st = key" using sound_handle [OF assms(1) st(1)] by auto
  note facts = h(2) st(3) g(3)
  show "digest_str (rg_nonce g) \<in> on_snapshot h key (set \<circ> ps_seen_nonce_digests) b
      - on_snapshot h key (set \<circ> ps_seen_nonce_digests) a"
    by (rule reserve_New [OF h(1) st(2)]) (use facts in \<open>simp add: on_snapshot_def\<close>)
  show "sha256_hex h (rg_key g) \<in> on_snapshot h key (dom \<circ> map_of \<circ> ps_idempotency) b
      - on_snapshot h key (dom \<circ> map_of \<circ> ps_idempotency) a"
    by (rule reserve_New [OF h(1) st(2)]) (use facts in \<open>simp add: on_snapshot_def\<close>)
  show "lease_id_str (rg_lease_id g) \<in> on_snapshot h key (dom \<circ> map_of \<circ> ps_leases) b
      - on_snapshot h key (dom \<circ> map_of \<circ> ps_leases) a"
    by (rule reserve_New [OF h(1) st(2)]) (use facts in \<open>simp add: on_snapshot_def\<close>)
qed

lemma history_sets:
  "ledger_le s t \<Longrightarrow> (set \<circ> ps_seen_nonce_digests) s \<subseteq> (set \<circ> ps_seen_nonce_digests) t"
  "ledger_le s t \<Longrightarrow> (dom \<circ> map_of \<circ> ps_idempotency) s \<subseteq> (dom \<circ> map_of \<circ> ps_idempotency) t"
  "ledger_le s t \<Longrightarrow> (dom \<circ> map_of \<circ> ps_leases) s \<subseteq> (dom \<circ> map_of \<circ> ps_leases) t"
  using ledger_leD(4-6) [of s t] map_le_implies_dom_le by (fastforce simp: comp_def)+

lemma consumed_reservations:
  assumes mono: "\<And>s t. ledger_le s t \<Longrightarrow> f s \<subseteq> f t"
    and gives: "\<And>a ev r b g. sound_system h key a \<Longrightarrow> system_step h key ev a = (r, b) \<Longrightarrow>
      reservation_of ev r = Some g \<Longrightarrow> pick g \<in> on_snapshot h key f b - on_snapshot h key f a"
  shows "consumed_once (system_step h key) (sound_system h key) event_typed (on_snapshot h key f)
    (\<lambda>ev r. map_option pick (reservation_of ev r))"
proof unfold_locales
  fix a ev r b x
  assume a: "sound_system h key a" "event_typed ev" "system_step h key ev a = (r, b)"
  show "sound_system h key b" using sound_step [OF a] by simp
  show "on_snapshot h key f a \<subseteq> on_snapshot h key f b" using on_snapshot_mono [OF a mono] .
  assume "map_option pick (reservation_of ev r) = Some x"
  then obtain g where g: "reservation_of ev r = Some g" "x = pick g" by blast
  show "x \<notin> on_snapshot h key f a \<and> x \<in> on_snapshot h key f b"
    using gives [OF a(1,3) g(1)] g(2) by simp
qed

interpretation nonces: consumed_once "system_step h key" "sound_system h key" event_typed
  "on_snapshot h key (set \<circ> ps_seen_nonce_digests)"
  "\<lambda>ev r. map_option (\<lambda>g. digest_str (rg_nonce g)) (reservation_of ev r)" for h key
  by (rule consumed_reservations [OF history_sets(1) reservation_step(1)])

interpretation keys: consumed_once "system_step h key" "sound_system h key" event_typed
  "on_snapshot h key (dom \<circ> map_of \<circ> ps_idempotency)"
  "\<lambda>ev r. map_option (\<lambda>g. sha256_hex h (rg_key g)) (reservation_of ev r)" for h key
  by (rule consumed_reservations [OF history_sets(2) reservation_step(2)])

interpretation lease_ids: consumed_once "system_step h key" "sound_system h key" event_typed
  "on_snapshot h key (dom \<circ> map_of \<circ> ps_leases)"
  "\<lambda>ev r. map_option (\<lambda>g. lease_id_str (rg_lease_id g)) (reservation_of ev r)" for h key
  by (rule consumed_reservations [OF history_sets(3) reservation_step(3)])

end
