(* ===== verification/Replay_Facts.thy ===== *)
theory Replay_Facts
  imports Replay_History
begin

text \<open>Facts about single steps and positions of a run, shared by the properties of the store.\<close>

lemma given_map: "length rs = length evs \<Longrightarrow>
    given (\<lambda>ev r. map_option f (g ev r)) evs rs = map f (given g evs rs)"
proof (induction evs arbitrary: rs)
  case (Cons ev evs)
  then show ?case by (cases rs) (auto split: option.split)
qed (simp add: given_def)

lemma given_member:
  "length rs = length evs \<Longrightarrow> x \<in> set (given g evs rs) \<Longrightarrow>
     \<exists>i < length evs. g (evs ! i) (rs ! i) = Some x"
proof (induction evs arbitrary: rs)
  case (Cons ev evs)
  obtain r rs' where rs: "rs = r # rs'" "length rs' = length evs" using Cons.prems(1) by (cases rs) auto
  show ?case
  proof (cases "g ev r = Some x")
    case True
    then show ?thesis using rs by (intro exI [of _ 0]) simp
  next
    case False
    then have "x \<in> set (given g evs rs')" using Cons.prems(2) rs(1) by (auto split: option.splits)
    then obtain i where "i < length evs" "g (evs ! i) (rs' ! i) = Some x" using Cons.IH rs(2) by blast
    then show ?thesis using rs(1) by (intro exI [of _ "Suc i"]) simp
  qed
qed (simp add: given_def)

text \<open>Two positions of one run.\<close>

lemma system_run_at2:
  assumes h: "host_ok h" and ty: "list_all event_typed evs" and wf: "system_wf h key sys"
    and run: "system_run h key evs sys = (rs, sys')" and ij: "i < j" "j < length evs"
  obtains a b c d where
    "system_step h key (evs ! i) a = (rs ! i, b)" "system_step h key (evs ! j) c = (rs ! j, d)"
    "sound_system h key a" "sound_system h key b" "sound_system h key c" "sound_system h key d"
    "world_le h key (sy_world b) (sy_world c)" "world_le h key (sy_world d) (sy_world sys')"
proof -
  have i: "i < length evs" using ij by simp
  from system_run_at [OF h ty wf run i] obtain a b where ab:
    "system_step h key (evs ! i) a = (rs ! i, b)"
    "system_run h key (drop (Suc i) evs) b = (drop (Suc i) rs, sys')"
    "system_wf h key a" "system_wf h key b" by metis
  let ?k = "j - Suc i"
  have len: "length rs = length evs" using system_run_keeps [OF h ty wf run] by simp
  have k: "?k < length (drop (Suc i) evs)" "drop (Suc i) evs ! ?k = evs ! j" "drop (Suc i) rs ! ?k = rs ! j"
    using ij len by auto
  have ty': "list_all event_typed (drop (Suc i) evs)"
    using ty by (auto simp: list_all_iff dest: in_set_dropD)
  from system_run_at [OF h ty' ab(4,2) k(1)] obtain c d where cd:
    "system_step h key (evs ! j) c = (rs ! j, d)" "system_wf h key c" "system_wf h key d"
    "world_le h key (sy_world b) (sy_world c)" "world_le h key (sy_world d) (sy_world sys')"
    using k(2,3) by metis
  show thesis using that [OF ab(1) cd(1)] ab(3,4) cd(2-5) h by (simp add: sound_system_def)
qed

lemma sound_snapshot:
  assumes "sound_system h key a"
  obtains s where "snapshot h key (sy_world a) = Some s" "ledger_wf s"
  using assms by (auto simp: sound_system_def system_wf_def)

lemma world_le_snapshot:
  assumes "world_le h key w w'" "snapshot h key w = Some s" "ledger_wf s"
  obtains s' where "snapshot h key w' = Some s'" "ledger_wf s'" "ledger_le s s'"
  using assms by (auto simp: world_le_def)

subsection \<open>Permits\<close>

lemma permit_step:
  assumes a: "sound_system h key a" and st: "system_step h key ev a = (Some (Ok (RpUse (UseNew p))), b)"
  obtains s s' l where "snapshot h key (sy_world a) = Some s" "ledger_wf s"
    "snapshot h key (sy_world b) = Some s'"
    "map_of (ps_leases s) (lease_id_str (ep_lease_id p)) = Some l"
    "pl_constraints l = ep_constraints p" "pl_broker_generation l = ep_broker_generation p"
    "ps_broker_generation s = ep_broker_generation p"
    "\<exists>m. map_of (ps_leases s') (lease_id_str (ep_lease_id p)) = Some m \<and> lease_identity m = lease_identity l"
proof -
  have "RpUse (UseNew p) \<noteq> RpDone" by simp
  from st this obtain i io rq hd st' w' where step: "handle_at a i = Some hd"
    "handle_request h io hd rq (sy_world a) = (Ok (RpUse (UseNew p)), st', w')"
    "b = \<lparr>sy_world = w', sy_handles = (sy_handles a)[i := Some st']\<rparr>"
    by (rule step_request)
  from step(2) obtain lid op now where u: "begin_use h io hd lid op now (sy_world a) = (Ok (UseNew p), w')"
    by (rule request_use)
  have h: "host_ok h" "rs_key hd = key" using sound_handle [OF a step(1)] by auto
  obtain t where t: "snapshot h key (sy_world a) = Some t" "ledger_wf t" by (rule sound_snapshot [OF a])
  show thesis
  proof (rule begin_use_New [OF h(1) u])
    fix s s' l
    assume s: "snapshot h (rs_key hd) (sy_world a) = Some s" "snapshot h (rs_key hd) w' = Some s'"
      and l: "map_of (ps_leases s) (lease_id_str lid) = Some l"
      "map_of (ps_leases s') (lease_id_str lid) =
         Some (l\<lparr>pl_remaining_uses := pl_remaining_uses l - 1,
               pl_uses := bt_insert (sha256_hex h op) UseActive (pl_uses l)\<rparr>)"
      "pl_broker_generation l = ps_broker_generation s"
      and p: "p = permit_of lid (ps_broker_generation s) l (sha256_hex h op) (store_binding h hd)"
    show thesis
      by (rule that [of s s' l]) (use s l t h(2) step(3) in \<open>simp_all add: p permit_of_def lease_identity_def\<close>)
  qed
qed

text \<open>The lease of a permit keeps the permit's constraints and generation for ever.\<close>

lemma permit_lease_later:
  assumes a: "sound_system h key a" and st: "system_step h key ev a = (Some (Ok (RpUse (UseNew p))), b)"
    and b: "sound_system h key b" "world_le h key (sy_world b) w"
  obtains s m where "snapshot h key w = Some s" "ledger_wf s"
    "map_of (ps_leases s) (lease_id_str (ep_lease_id p)) = Some m"
    "pl_constraints m = ep_constraints p" "pl_broker_generation m = ep_broker_generation p"
proof -
  obtain s s' l where *: "snapshot h key (sy_world b) = Some s'"
    "pl_constraints l = ep_constraints p" "pl_broker_generation l = ep_broker_generation p"
    "\<exists>m. map_of (ps_leases s') (lease_id_str (ep_lease_id p)) = Some m \<and> lease_identity m = lease_identity l"
    by (rule permit_step [OF a st])
  then obtain m where m: "map_of (ps_leases s') (lease_id_str (ep_lease_id p)) = Some m"
    "lease_identity m = lease_identity l" by blast
  have "ledger_wf s'" using b(1) *(1) by (auto simp: sound_system_def system_wf_def)
  then obtain t where t: "snapshot h key w = Some t" "ledger_wf t" "ledger_le s' t"
    using world_le_snapshot [OF b(2) *(1)] by blast
  obtain n where n: "map_of (ps_leases t) (lease_id_str (ep_lease_id p)) = Some n" "lease_le m n"
    using ledger_leD(6) [OF t(3) m(1)] by blast
  have "lease_identity n = lease_identity l" using lease_leD(1) [OF n(2)] m(2) by simp
  then have "pl_constraints n = pl_constraints l" "pl_broker_generation n = pl_broker_generation l"
    by (cases n; cases l; simp add: lease_identity_def)+
  then show thesis using that [OF t(1,2) n(1)] *(2,3) by simp
qed

lemma old_permit_refused:
  assumes h: "host_ok h" and s: "snapshot h (rs_key st) w = Some s"
    and g: "ep_broker_generation p \<noteq> ps_broker_generation s"
  shows "\<not> is_ok (fst (begin_completion h io st p d disp w))"
    and "\<not> is_ok (fst (legacy_terminalize h io io' st p disp w))"
proof -
  have tx: "begin_completion_tx p d disp s = Err Revoked" for d
    using g by (simp add: begin_completion_tx_def)
  have "\<not> is_ok (fst (with_locked_state h io st (begin_completion_tx p d disp) w))" for d
  proof
    assume "is_ok (fst (with_locked_state h io st (begin_completion_tx p d disp) w))"
    then obtain t w' where "with_locked_state h io st (begin_completion_tx p d disp) w = (Ok t, w')"
      by (cases "with_locked_state h io st (begin_completion_tx p d disp) w") (auto simp: is_ok_iff)
    then show False by (rule active_transaction_Ok [OF h]) (use s tx in simp)
  qed
  then show 1: "\<not> is_ok (fst (begin_completion h io st p d disp w))" for d
    by (simp add: begin_completion_def split: sum.split)
  show "\<not> is_ok (fst (legacy_terminalize h io io' st p disp w))"
  proof (cases "legacy_terminal_digest h (rs_store_id st) p disp")
    case (Inr d)
    obtain e w1 where "begin_completion h io st p d disp w = (Inl e, w1)"
      using 1 [of d] by (cases "begin_completion h io st p d disp w"; cases "fst (begin_completion h io st p d disp w)") auto
    then show ?thesis using Inr by (cases e) (simp_all add: legacy_terminalize_def)
  qed (simp add: legacy_terminalize_def)
qed

lemma start_epoch_step:
  assumes a: "sound_system h key a"
    and st: "system_step h key (EvRequest i io RqStartEpoch) a = (Some (Ok (RpGeneration g)), b)"
  obtains s s' where "snapshot h key (sy_world a) = Some s" "snapshot h key (sy_world b) = Some s'"
    "ledger_wf s" "start_epoch_tx h (ps_store_id s) s = Ok (g, s', True)" "ps_broker_generation s' = g"
    "ps_broker_generation s < g"
proof -
  obtain hd r hd' w' where step: "handle_at a i = Some hd"
    "start_epoch h io hd (sy_world a) = (r, hd', w')" "map_ok RpGeneration r = Ok (RpGeneration g)"
    "sy_world b = w'"
    using st by (auto split: option.splits prod.splits)
  have r: "r = Ok g" using step(3) by (cases r) auto
  obtain t where h: "host_ok h" "rs_key hd = key" and t: "snapshot h key (sy_world a) = Some t" "ledger_wf t"
    using sound_handle [OF a step(1)] by blast
  from h(1) step(2) show thesis
  proof (cases rule: start_epoch_cases_full)
    case (activated g' w1)
    then have tx: "with_locked_state_unchecked h io hd (start_epoch_tx h (rs_store_id hd)) (sy_world a) = (Ok g, w1)"
      using r by simp
    obtain s s' c where s: "snapshot h key (sy_world a) = Some s" "ps_store_id s = rs_store_id hd"
      "start_epoch_tx h (rs_store_id hd) s = Ok (g, s', c)"
      "if c then snapshot h key w1 = Some s' else w1 = sy_world a"
      using transaction_Ok [OF h(1) tx] h(2) by metis
    from s(3) show thesis
    proof (rule start_epoch_cases)
      fix leases
      assume c: "unat (ps_broker_generation s) + 1 < 2 ^ 64" "g = ps_broker_generation s + 1" "c"
        "s' = s\<lparr>ps_broker_generation := ps_broker_generation s + 1, ps_sequence := ps_sequence s + 1,
            ps_leases := leases\<rparr>"
      have "ps_broker_generation s < g"
        using sequence_step(2) [OF c(1)] c(2) by (simp add: word_less_nat_alt)
      then show thesis
        using that [of s s'] s c(2,3,4) t step(4) activated(6) by simp
    qed
  qed (use r in auto)
qed

lemma permit_lease_final:
  assumes "host_ok h" "list_all event_typed evs" "sound_system h key sys0"
    and "system_run h key evs sys0 = (rs, sys)"
    and "i < length evs" "rs ! i = Some (Ok (RpUse (UseNew p)))"
  shows "\<exists>s m. snapshot h key (sy_world sys) = Some s \<and> ledger_wf s
    \<and> map_of (ps_leases s) (lease_id_str (ep_lease_id p)) = Some m
    \<and> pl_constraints m = ep_constraints p \<and> pl_broker_generation m = ep_broker_generation p"
proof -
  have wf0: "system_wf h key sys0" using assms(3) by (simp add: sound_system_def)
  from system_run_at [OF assms(1,2) wf0 assms(4,5)] obtain a b where
    ab: "system_step h key (evs ! i) a = (rs ! i, b)" "system_wf h key a" "system_wf h key b"
      "world_le h key (sy_world b) (sy_world sys)" by metis
  have "sound_system h key a" "sound_system h key b" using ab assms(1) by (simp_all add: sound_system_def)
  from permit_lease_later [OF this(1) ab(1) [unfolded assms(6)] this(2) ab(4)] show ?thesis by metis
qed

lemma permit_before_restart:
  assumes "host_ok h" "list_all event_typed evs" "sound_system h key sys0"
    and "system_run h key evs sys0 = (rs, sys)" "k < i" "i < length evs"
    and "rs ! k = Some (Ok (RpUse (UseNew p)))"
    and "evs ! i = EvRequest n io RqStartEpoch" "rs ! i = Some (Ok (RpGeneration g))"
  shows "ep_broker_generation p < g"
proof -
  have wf0: "system_wf h key sys0" using assms(3) by (simp add: sound_system_def)
  from system_run_at2 [OF assms(1,2) wf0 assms(4-6)] obtain a b c d where
    K: "system_step h key (evs ! k) a = (rs ! k, b)" "system_step h key (evs ! i) c = (rs ! i, d)"
    "sound_system h key a" "sound_system h key b" "sound_system h key c"
    "world_le h key (sy_world b) (sy_world c)" by metis
  from permit_step [OF K(3) K(1) [unfolded assms(7)]] obtain s where
    s: "snapshot h key (sy_world a) = Some s" "ledger_wf s"
      "ps_broker_generation s = ep_broker_generation p" by metis
  have "event_typed (evs ! k)" using assms(2,5,6) by (simp add: list_all_length)
  then have ab: "world_le h key (sy_world a) (sy_world c)"
    using sound_step [OF K(3) _ K(1)] K(6) world_le_trans by blast
  obtain t where t: "snapshot h key (sy_world c) = Some t" "ledger_le s t"
    using world_le_snapshot [OF ab s(1,2)] by blast
  from start_epoch_step [OF K(5) K(2) [unfolded assms(8,9)]] have "ps_broker_generation t < g"
    using t(1) by (metis option.inject)
  then show ?thesis using ledger_leD(2) [OF t(2)] s(3) by simp
qed

lemma generation_after_restart:
  assumes "host_ok h" "list_all event_typed evs" "sound_system h key sys0"
    and "system_run h key evs sys0 = (rs, sys)" "i < j" "j < length evs"
    and "evs ! i = EvRequest n io RqStartEpoch" "rs ! i = Some (Ok (RpGeneration g))"
  shows "\<exists>x y s. system_step h key (evs ! j) x = (rs ! j, y) \<and> sound_system h key x
    \<and> snapshot h key (sy_world x) = Some s \<and> g \<le> ps_broker_generation s"
proof -
  have wf0: "system_wf h key sys0" using assms(3) by (simp add: sound_system_def)
  from system_run_at2 [OF assms(1,2) wf0 assms(4-6)] obtain a b c d where
    K: "system_step h key (evs ! i) a = (rs ! i, b)" "system_step h key (evs ! j) c = (rs ! j, d)"
    "sound_system h key a" "sound_system h key b" "sound_system h key c"
    "world_le h key (sy_world b) (sy_world c)" by metis
  obtain s where s: "snapshot h key (sy_world b) = Some s" "ledger_wf s" by (rule sound_snapshot [OF K(4)])
  from start_epoch_step [OF K(3) K(1) [unfolded assms(7,8)]] have "ps_broker_generation s = g"
    using s(1) by (metis option.inject)
  moreover obtain t where "snapshot h key (sy_world c) = Some t" "ledger_le s t"
    using world_le_snapshot [OF K(6) s] by blast
  ultimately show ?thesis using K(2,5) ledger_leD(2) by blast
qed

lemma old_permit_request:
  assumes x: "sound_system h key x" "snapshot h key (sy_world x) = Some s"
    and g: "ep_broker_generation p \<noteq> ps_broker_generation s"
    and rq: "\<exists>d disp io'. rq \<in> {RqBeginCompletion p d disp, RqFinishUse p io', RqAbandonUse p io'}"
  shows "fst (system_step h key (EvRequest n io rq) x) \<noteq> Some (Ok resp)"
proof (cases "handle_at x n")
  case (Some st)
  have h: "host_ok h" "rs_key st = key" using sound_handle [OF x(1) Some] by auto
  have s: "snapshot h (rs_key st) (sy_world x) = Some s" using x(2) h(2) by simp
  have "fst (handle_request h io st rq (sy_world x)) \<noteq> Ok resp"
  proof
    assume ok: "fst (handle_request h io st rq (sy_world x)) = Ok resp"
    then obtain st' w' where "handle_request h io st rq (sy_world x) = (Ok resp, st', w')"
      by (metis prod.exhaust_sel)
    with rq show False
      using old_permit_refused [OF h(1) s g]
      by (auto simp: finish_use_def abandon_use_def is_ok_iff dest!: answered) (metis fst_conv)+
  qed
  then show ?thesis using Some by (auto split: prod.splits)
qed simp

lemma start_epoch_locked:
  assumes "w_instance_locked w"
  shows "snd (snd (start_epoch h io st w)) = w" "\<not> is_ok (fst (start_epoch h io st w))"
proof -
  have "\<exists>e. try_lock_instance io w = Inl e"
    using assms by (auto simp: try_lock_instance_def split: option.splits)
  then obtain e where e: "try_lock_instance io w = Inl e" ..
  show "snd (snd (start_epoch h io st w)) = w" "\<not> is_ok (fst (start_epoch h io st w))"
    using e by (cases e; cases "rs_activation st"; simp add: start_epoch_def)+
qed

lemma start_epoch_locked_eq:
  "w_instance_locked w \<Longrightarrow> start_epoch h io st w = (r, st', w') \<Longrightarrow> w' = w \<and> \<not> is_ok r"
  using start_epoch_locked [of w h io st] by auto

end
