(* ===== verification/Replay_Samples.thy ===== *)
theory Replay_Samples
  imports Replay_History Authority_Claims
begin

text \<open>
  A concrete host and a concrete run of the replay store, for the witnesses.  The host's hash
  keeps the first 32 bytes of its input, its MAC is the message, and the JSON library's byte
  strings are the values themselves; hexadecimal coding is written out.
\<close>

fun hex_digit :: "bool \<Rightarrow> bool \<Rightarrow> bool \<Rightarrow> bool \<Rightarrow> char" where
  "hex_digit a b c d = ''0123456789abcdef'' ! (of_bool a + 2 * of_bool b + 4 * of_bool c + 8 * of_bool d)"

definition hex_bits :: "char \<Rightarrow> bool \<times> bool \<times> bool \<times> bool" where
  "hex_bits x =
     (let n = (if byte_of x < 58 then byte_of x - 48 else byte_of x - 87)
      in (bit n 0, bit n 1, bit n 2, bit n 3))"

fun sample_hex_encode :: "string \<Rightarrow> string" where
  "sample_hex_encode [] = []"
| "sample_hex_encode (Char a b c d e f g h # s) = hex_digit e f g h # hex_digit a b c d # sample_hex_encode s"

fun sample_hex_decode :: "string \<Rightarrow> string option" where
  "sample_hex_decode [] = Some []"
| "sample_hex_decode [x] = None"
| "sample_hex_decode (x # y # s) =
     (case (hex_bits x, hex_bits y) of
        ((e, f, g, h), (a, b, c, d)) \<Rightarrow> map_option (Cons (Char a b c d e f g h)) (sample_hex_decode s))"

lemma hex_digit_bits: "is_lower_hex (hex_digit a b c d) \<and> hex_bits (hex_digit a b c d) = (a, b, c, d)"
  by (cases a; cases b; cases c; cases d) (simp_all add: byte_defs hex_bits_def Let_def bit_0)

declare hex_digit.simps [simp del]

lemma sample_hex_length: "length (sample_hex_encode s) = 2 * length s"
  by (induction s rule: sample_hex_encode.induct) auto

lemma sample_hex_lower: "list_all is_lower_hex (sample_hex_encode s)"
  by (induction s rule: sample_hex_encode.induct) (auto simp: hex_digit_bits)

lemma sample_hex_round_trip: "sample_hex_decode (sample_hex_encode s) = Some s"
  by (induction s rule: sample_hex_encode.induct) (auto simp: hex_digit_bits)

definition sample_host :: "signed_state host" where
  "sample_host =
     \<lparr>hs_sha256 = (\<lambda>v. take 32 (v @ replicate 32 (CHR ''0''))), hs_hmac = (\<lambda>k m. []),
      hs_hex_encode = sample_hex_encode, hs_hex_decode = sample_hex_decode,
      hs_escape = (\<lambda>s. s), hs_binding_value = (\<lambda>b. JString (lease_id_str (lb_lease_id b))),
      ho_mac_value = (\<lambda>v s. JNull), ho_reload = Some,
      ho_to_vec = Some, ho_from_slice = Some, ho_len = (\<lambda>_. 1)\<rparr>"

lemma sample_host_ok: "host_ok sample_host"
proof -
  have "is_ok (parse_sha256_digest (sha256_hex sample_host v))" for v
    using sample_hex_length [of "take 32 (v @ replicate 32 (CHR ''0''))"]
      sample_hex_lower [of "take 32 (v @ replicate 32 (CHR ''0''))"]
    by (simp add: parse_sha256_digest_def is_ok_opaque valid_prefixed_hex_def sha256_hex_def
        sample_host_def SHA256_HEX_LEN_def)
  then show ?thesis
    by (auto simp: host_ok_def hashes_ok_def sample_host_def sample_hex_round_trip)
qed

definition sample_key :: string where
  "sample_key = replicate 32 (CHR ''k'')"

definition sample_random :: string where
  "sample_random = replicate 32 (CHR ''r'')"

definition sample_lease_id :: lease_id where
  "sample_lease_id = LeaseId (''lea_'' @ sample_hex)"

definition sample_system :: "signed_state replay_system" where
  "sample_system =
     (case new_system sample_host io_fine sample_random sample_key of
        Inr sys \<Rightarrow> sys
      | Inl _ \<Rightarrow> \<lparr>sy_world = \<lparr>w_state = None, w_legacy = False, w_instance_locked = False\<rparr>,
                  sy_handles = []\<rparr>)"

lemma sample_system_new: "new_system sample_host io_fine sample_random sample_key = Ok sample_system"
proof -
  have "is_ok (new_system sample_host io_fine sample_random sample_key)" by code_simp
  then show ?thesis by (auto simp: sample_system_def is_ok_iff)
qed

definition sample_events :: "system_event list" where
  "sample_events =
     [EvRequest 0 io_fine RqStartEpoch,
      EvRequest 0 io_fine (RqReserve sample_digest ''k1'' sample_binding),
      EvRequest 0 io_fine (RqReserve sample_digest ''k2'' sample_binding),
      EvRequest 0 io_fine (RqBeginUse sample_lease_id ''op1'' 50),
      EvRequest 0 io_fine (RqBeginUse sample_lease_id ''op1'' 50),
      EvOpen io_fine,
      EvRequest 1 io_fine RqStartEpoch,
      EvDrop 0,
      EvRequest 1 io_fine RqStartEpoch,
      EvRequest 1 io_fine (RqBeginUse sample_lease_id ''op2'' 50)]"

lemma sample_events_typed: "list_all event_typed sample_events"
  by code_simp

definition sample_run ::
  "(replay_response, replay_error) result option list \<times> signed_state replay_system" where
  "sample_run = system_run sample_host sample_key sample_events sample_system"

fun outcome_tag :: "(replay_response, replay_error) result option \<Rightarrow> string" where
  "outcome_tag None = ''none''"
| "outcome_tag (Some (Inl e)) =
     (if e = Replay then ''replay'' else if e = Revoked then ''revoked''
      else if e = InstanceAlreadyActive then ''busy'' else ''error'')"
| "outcome_tag (Some (Inr (RpUse (UseNew p)))) = ''permit''"
| "outcome_tag (Some (Inr (RpUse (UseExisting p)))) = ''existing''"
| "outcome_tag (Some (Inr (RpReserved (ReservedNew p)))) = ''reserved''"
| "outcome_tag (Some (Inr (RpGeneration g))) = ''generation''"
| "outcome_tag (Some (Inr RpDone)) = ''closed''"
| "outcome_tag (Some (Inr _)) = ''done''"

lemma sample_run_outcomes:
  "map outcome_tag (fst sample_run) =
     [''generation'', ''reserved'', ''replay'', ''permit'', ''existing'', ''closed'', ''busy'',
      ''none'', ''generation'', ''revoked'']"
  by code_simp

lemma sample_run_tag: "i < 10 \<Longrightarrow> outcome_tag (fst sample_run ! i) =
    [''generation'', ''reserved'', ''replay'', ''permit'', ''existing'', ''closed'', ''busy'',
      ''none'', ''generation'', ''revoked''] ! i"
proof -
  assume "i < 10"
  then have "i < length (fst sample_run)" using arg_cong [OF sample_run_outcomes, of length] by simp
  then have "outcome_tag (fst sample_run ! i) = map outcome_tag (fst sample_run) ! i" by simp
  then show ?thesis by (simp only: sample_run_outcomes)
qed

lemma outcome_permit: "outcome_tag r = ''permit'' \<longleftrightarrow> (\<exists>p. r = Some (Ok (RpUse (UseNew p))))"
  by (cases r rule: outcome_tag.cases) auto

lemma outcome_generation: "outcome_tag r = ''generation'' \<longleftrightarrow> (\<exists>g. r = Some (Ok (RpGeneration g)))"
  by (cases r rule: outcome_tag.cases) auto

subsection \<open>A run that completes a use\<close>

definition sample_permit :: execution_permit where
  "sample_permit =
     permit_of sample_lease_id 1 (lease_of_binding sample_binding 2) (sha256_hex sample_host ''op1'')
       (store_binding sample_host (from_parts (sample_hex_encode sample_random) sample_key))"

definition sample_witness :: completion_witness where
  "sample_witness =
     \<lparr>cw_lease_id = sample_lease_id, cw_broker_generation = 1,
      cw_operation_sha256 = sha256_hex sample_host ''op1'',
      cw_terminal_record_sha256 = sample_digest, cw_disposition = DispFinished,
      cw_store_binding = store_binding sample_host
        (from_parts (sample_hex_encode sample_random) sample_key)\<rparr>"

definition completion_events :: "system_event list" where
  "completion_events =
     [EvRequest 0 io_fine RqStartEpoch,
      EvRequest 0 io_fine (RqReserve sample_digest ''k1'' sample_binding),
      EvRequest 0 io_fine (RqBeginUse sample_lease_id ''op1'' 50),
      EvRequest 0 io_fine (RqBeginCompletion sample_permit sample_digest DispFinished),
      EvRequest 0 io_fine (RqCommitCompletion sample_witness)]"

lemma completion_events_typed: "list_all event_typed completion_events"
  by code_simp

lemma completion_events_at:
  "4 < length completion_events"
  "completion_events ! 4 = EvRequest 0 io_fine (RqCommitCompletion sample_witness)"
  by (simp_all add: completion_events_def)

definition completion_run ::
  "(replay_response, replay_error) result option list \<times> signed_state replay_system" where
  "completion_run = system_run sample_host sample_key completion_events sample_system"

lemma completion_run_outcomes:
  "map outcome_tag (fst completion_run) = [''generation'', ''reserved'', ''permit'', ''done'', ''closed'']"
  by code_simp

lemma outcome_closed: "outcome_tag r = ''closed'' \<longleftrightarrow> r = Some (Ok RpDone)"
  by (cases r rule: outcome_tag.cases) auto

lemma completion_run_done: "fst completion_run ! 4 = Some (Ok RpDone)"
proof -
  have "4 < length (fst completion_run)" using arg_cong [OF completion_run_outcomes, of length] by simp
  then have "outcome_tag (fst completion_run ! 4) = map outcome_tag (fst completion_run) ! 4" by simp
  then show ?thesis by (simp add: completion_run_outcomes outcome_closed)
qed

text \<open>A ledger with one pending completion, and a retry of a reservation.\<close>

definition pending_lease :: persisted_lease where
  "pending_lease = (lease_of_binding sample_binding 1)
     \<lparr>pl_uses := [(''op'', UseCompleting sample_digest DispFinished)]\<rparr>"

definition pending_state :: persisted_state where
  "pending_state =
     \<lparr>ps_store_id = ''store'', ps_broker_generation = 1, ps_sequence = 4,
      ps_seen_nonce_digests = [''nonce''],
      ps_idempotency = [(''key'', \<lparr>pi_request_fingerprint_sha256 = ''fp'',
                                   pi_lease_id = lease_id_str sample_lease_id\<rparr>)],
      ps_leases = [(lease_id_str sample_lease_id, pending_lease)]\<rparr>"

lemma pending_state_wf: "ledger_wf pending_state"
  by code_simp

lemma pending_restart: "is_ok (start_epoch_tx sample_host ''store'' pending_state)"
  by code_simp

lemma pending_listed: "\<exists>x. list_leases_tx pending_state = Ok ([x], pending_state, False)
    \<and> ls_lease_id x = sample_lease_id \<and> summary_status x 1 50 = Current"
proof -
  have "case list_leases_tx pending_state of Inl _ \<Rightarrow> False
    | Inr (xs, s', c) \<Rightarrow> \<not> c \<and> length xs = 1 \<and> ls_lease_id (hd xs) = sample_lease_id
        \<and> summary_status (hd xs) 1 50 = Current"
    by code_simp
  then show ?thesis
    by (auto simp: length_Suc_conv list_leases_tx_def res_simps split: sum.splits)
qed

definition fresh_state :: persisted_state where
  "fresh_state = persisted_state_default\<lparr>ps_broker_generation := 1\<rparr>"

lemma fresh_reserved:
  "\<exists>s'. reserve_tx ''nonce'' ''key'' ''fp'' sample_binding fresh_state
     = Ok (ReservedNew sample_lease_id, s', True)"
proof -
  have "case reserve_tx ''nonce'' ''key'' ''fp'' sample_binding fresh_state of Inl _ \<Rightarrow> False
    | Inr (r, s', c) \<Rightarrow> r = ReservedNew sample_lease_id \<and> c"
    by code_simp
  then show ?thesis by (auto split: sum.splits)
qed

definition tampered_world :: "signed_state world" where
  "tampered_world =
     \<lparr>w_state = Some \<lparr>ss_format_version = 2, ss_payload = pending_state, ss_hmac_sha256 = ''6162''\<rparr>,
      w_legacy = False, w_instance_locked = False\<rparr>"

end
