(* ===== verification/Replay_Claims.thy ===== *)
theory Replay_Claims
  imports Replay_Facts Replay_Samples
begin

text \<open>
  The properties of the durable replay store.  They speak of every run of the system: any number
  of handles, crashes, restarts and file-system failures, from a freshly bootstrapped store.
\<close>

lemma run_sound:
  assumes "host_ok h" "new_system h io random key = Ok sys0" "list_all event_typed evs"
    "system_run h key evs sys0 = (rs, sys)"
  shows "sound_system h key sys0" "sound_system h key sys" "length rs = length evs"
  using assms new_system_wf [OF assms(1,2)] system_run_keeps [OF assms(1,3) _ assms(4)]
  by (auto simp: sound_system_def)

lemma sample_run_eq: "system_run sample_host sample_key sample_events sample_system
    = (fst sample_run, snd sample_run)"
  by (simp add: sample_run_def)

subsection \<open>Permits\<close>

text \<open>
  C1. Execution permits are never duplicated and never exceed the grant: over any run, with
  any crashes and failed writes, no two permits are for the same operation of the same
  lease, and the number of permits minted for a lease is at most the number of uses its
  constraints grant.
\<close>

theorem permits_minted_once:
  assumes "host_ok h" and "new_system h io random key = Ok sys0" and "list_all event_typed evs"
    and "system_run h key evs sys0 = (rs, sys)"
  shows "distinct (map permit_key (given permit_given evs rs))
    \<and> (\<forall>p \<in> set (given permit_given evs rs).
         \<exists>n m. uc_capacity (ac_uses (ep_constraints p)) = CapacityBounded n m
           \<and> length (filter (\<lambda>q. ep_lease_id q = ep_lease_id p) (given permit_given evs rs)) \<le> unat n)"
proof -
  let ?ps = "given permit_given evs rs"
  note snd = run_sound [OF assms]
  have once: "distinct (map permit_key ?ps)" "set (map permit_key ?ps) \<subseteq> used_pairs h key sys"
    using permits.given_once [OF snd(1) assms(3), of rs sys] assms(4)
    by (simp_all add: system_run_steps given_map [OF snd(3)])
  have "\<exists>n m. uc_capacity (ac_uses (ep_constraints p)) = CapacityBounded n m
      \<and> length (filter (\<lambda>q. ep_lease_id q = ep_lease_id p) ?ps) \<le> unat n" if p: "p \<in> set ?ps" for p
  proof -
    obtain i where i: "i < length evs" "rs ! i = Some (Ok (RpUse (UseNew p)))"
      using given_member [OF snd(3) p] by (auto simp: permit_given_Some)
    obtain s m where s: "snapshot h key (sy_world sys) = Some s" "ledger_wf s"
      "map_of (ps_leases s) (lease_id_str (ep_lease_id p)) = Some m"
      "pl_constraints m = ep_constraints p"
      using permit_lease_final [OF assms(1,3) snd(1) assms(4) i] by blast
    have acc: "use_account_ok m" using ledger_wf_lease [OF s(2,3)] by (simp add: lease_wf_def)
    then obtain n c where cap: "uc_capacity (ac_uses (ep_constraints p)) = CapacityBounded n c"
      "length (pl_uses m) \<le> unat n"
      using s(4) by (auto simp: use_account_ok_def split: use_capacity.splits)
    let ?qs = "filter (\<lambda>q. ep_lease_id q = ep_lease_id p) ?ps"
    have "distinct (map ep_operation_sha256 ?qs)"
    proof -
      have "distinct (map permit_key ?qs)" using once(1) distinct_map_filter by blast
      moreover have "map permit_key ?qs = map (Pair (ep_lease_id p)) (map ep_operation_sha256 ?qs)"
        by (auto simp: permit_key_def)
      ultimately show ?thesis by (metis distinct_map)
    qed
    moreover have "set (map ep_operation_sha256 ?qs) \<subseteq> dom (map_of (pl_uses m))"
    proof
      fix op assume "op \<in> set (map ep_operation_sha256 ?qs)"
      then obtain q where q: "q \<in> set ?ps" "ep_lease_id q = ep_lease_id p" "op = ep_operation_sha256 q"
        by auto
      then have "permit_key q \<in> used_pairs h key sys" using once(2) by auto
      then show "op \<in> dom (map_of (pl_uses m))"
        using q s(1,3) by (auto simp: used_pairs_def permit_key_def)
    qed
    ultimately have "length ?qs \<le> card (dom (map_of (pl_uses m)))"
      by (metis card_mono distinct_card finite_dom_map_of length_map)
    also have "\<dots> \<le> length (pl_uses m)"
      by (metis card_length dom_map_of_conv_image_fst length_map list.set_map)
    finally show ?thesis using cap by force
  qed
  then show ?thesis using once(1) by blast
qed

theorem permits_minted_once_witness:
  "new_system sample_host io_fine sample_random sample_key = Ok sample_system
   \<and> distinct (map permit_key (given permit_given sample_events (fst sample_run)))
   \<and> map outcome_tag (fst sample_run) ! 3 = ''permit'' \<and> map outcome_tag (fst sample_run) ! 4 = ''existing''"
  using permits_minted_once [OF sample_host_ok sample_system_new sample_events_typed sample_run_eq]
    sample_system_new by (simp add: sample_run_outcomes)

text \<open>
  C5. A grant is consumed once: over any run, the successful reservations have pairwise
  different grant nonces, different idempotency keys and different lease identifiers.
\<close>

theorem grants_reserved_once:
  assumes "host_ok h" and "new_system h io random key = Ok sys0" and "list_all event_typed evs"
    and "system_run h key evs sys0 = (rs, sys)"
  shows "distinct (map (digest_str \<circ> rg_nonce) (given reservation_of evs rs))
    \<and> distinct (map rg_key (given reservation_of evs rs))
    \<and> distinct (map rg_lease_id (given reservation_of evs rs))"
proof -
  note snd = run_sound [OF assms]
  have run: "run_steps (system_step h key) evs sys0 = (rs, sys)"
    using assms(4) by (simp add: system_run_steps)
  have "distinct (map (\<lambda>g. digest_str (rg_nonce g)) (given reservation_of evs rs))"
    "distinct (map (\<lambda>g. sha256_hex h (rg_key g)) (given reservation_of evs rs))"
    "distinct (map (\<lambda>g. lease_id_str (rg_lease_id g)) (given reservation_of evs rs))"
    using nonces.given_once [OF snd(1) assms(3) run] keys.given_once [OF snd(1) assms(3) run]
      lease_ids.given_once [OF snd(1) assms(3) run]
    by (simp_all add: given_map [OF snd(3)])
  then show ?thesis by (auto simp: distinct_map comp_def inj_on_def)
qed

theorem grants_reserved_once_witness:
  "map outcome_tag (fst sample_run) ! 1 = ''reserved'' \<and> map outcome_tag (fst sample_run) ! 2 = ''replay''
   \<and> distinct (map (digest_str \<circ> rg_nonce) (given reservation_of sample_events (fst sample_run)))"
  using grants_reserved_once [OF sample_host_ok sample_system_new sample_events_typed sample_run_eq]
  by (simp add: sample_run_outcomes)

text \<open>Every lease held in the ledger when an epoch starts belongs to an earlier generation.\<close>

lemma leases_before_restart:
  assumes h: "host_ok h" and ty: "list_all event_typed evs" and wf: "system_wf h key sys0"
    and run: "system_run h key evs sys0 = (rs, sys)" and ij: "i < j" "j < length evs"
    and ev: "evs ! i = EvRequest n io RqStartEpoch" "rs ! i = Some (Ok (RpGeneration g))"
    and mid: "snapshot h key (sy_world (snd (system_run h key (take i evs) sys0))) = Some s"
  obtains x y t where "system_step h key (evs ! j) x = (rs ! j, y)" "sound_system h key x"
    "snapshot h key (sy_world x) = Some t" "g \<le> ps_broker_generation t"
    "\<forall>k l. map_of (ps_leases s) k = Some l \<longrightarrow> pl_broker_generation l < g
       \<and> (\<exists>m. map_of (ps_leases t) k = Some m \<and> pl_broker_generation m < g)"
proof -
  from system_run_at [OF h ty wf run ij(2)] obtain x y where x:
    "system_run h key (take j evs) sys0 = (take j rs, x)" "system_step h key (evs ! j) x = (rs ! j, y)"
    "system_wf h key x" by metis
  have ty': "list_all event_typed (take j evs)" using ty by (auto simp: list_all_iff dest: in_set_takeD)
  have i: "i < length (take j evs)" using ij by simp
  from system_run_at [OF h ty' wf x(1) i] obtain a b where a:
    "system_run h key (take i evs) sys0 = (take i rs, a)" "system_step h key (evs ! i) a = (rs ! i, b)"
    "system_wf h key a" "system_wf h key b" "world_le h key (sy_world b) (sy_world x)"
    using ij by (metis min.absorb1 less_imp_le nth_take take_take)
  have s: "snapshot h key (sy_world a) = Some s" using mid a(1) by simp
  have sound: "sound_system h key a" "sound_system h key b" "sound_system h key x"
    using a(3,4) x(3) h by (simp_all add: sound_system_def)
  obtain s' where s': "snapshot h key (sy_world b) = Some s'" "ps_broker_generation s' = g"
    "ps_broker_generation s < g"
    using start_epoch_step [OF sound(1) a(2) [unfolded ev]] s by (metis option.inject)
  have ab: "world_le h key (sy_world a) (sy_world b)"
    using sound_step [OF sound(1) _ a(2)] ty ij by (simp add: list_all_length)
  have wfs: "ledger_wf s" using sound_snapshot [OF sound(1)] s by (metis option.inject)
  obtain t where t: "snapshot h key (sy_world x) = Some t" "ledger_le s t"
    using world_le_snapshot [OF world_le_trans [OF ab a(5)] s wfs] by blast
  obtain t' where "snapshot h key (sy_world x) = Some t'" "ledger_le s' t'"
    using world_le_snapshot [OF a(5) s'(1)] sound_snapshot [OF sound(2)] s'(1) by (metis option.inject)
  then have g: "g \<le> ps_broker_generation t" using ledger_leD(2) s'(2) t(1) by auto
  show thesis
  proof (rule that [OF x(2) sound(3) t(1) g], intro allI impI)
    fix k l
    assume l: "map_of (ps_leases s) k = Some l"
    then have "lease_wf (ps_broker_generation s) k l" by (rule ledger_wf_lease [OF wfs])
    then have old: "pl_broker_generation l < g" using s'(3) by (auto simp: lease_wf_def)
    obtain m where m: "map_of (ps_leases t) k = Some m" "lease_le l m"
      using ledger_leD(6) [OF t(2) l] by blast
    have "pl_broker_generation m = pl_broker_generation l"
      using lease_leD(1) [OF m(2)] by (cases l; cases m; simp add: lease_identity_def)
    then show "pl_broker_generation l < g
        \<and> (\<exists>m. map_of (ps_leases t) k = Some m \<and> pl_broker_generation m < g)"
      using old m(1) by simp
  qed
qed

text \<open>What earlier events left in the ledger.\<close>

lemma reservation_in_ledger:
  assumes h: "host_ok h" and ty: "list_all event_typed evs" and wf: "system_wf h key sys0"
    and run: "system_run h key evs sys0 = (rs, sys)" and k: "k < length evs"
    and r: "reservation_of (evs ! k) (rs ! k) = Some r" and s: "snapshot h key (sy_world sys) = Some s"
  shows "lease_id_str (rg_lease_id r) \<in> dom (map_of (ps_leases s))"
proof -
  from system_run_at [OF h ty wf run k] obtain a b where a:
    "system_step h key (evs ! k) a = (rs ! k, b)" "system_wf h key a" "system_wf h key b"
    "world_le h key (sy_world b) (sy_world sys)" by metis
  have sound: "sound_system h key a" "sound_system h key b" using a h by (simp_all add: sound_system_def)
  have "lease_id_str (rg_lease_id r) \<in> on_snapshot h key (dom \<circ> map_of \<circ> ps_leases) b"
    using reservation_step(3) [OF sound(1) a(1) r] by blast
  then obtain t where t: "snapshot h key (sy_world b) = Some t" "lease_id_str (rg_lease_id r) \<in> dom (map_of (ps_leases t))"
    by (auto simp: on_snapshot_def split: option.splits)
  have "ledger_wf t" using sound_snapshot [OF sound(2)] t(1) by (metis option.inject)
  then obtain t' where "snapshot h key (sy_world sys) = Some t'" "ledger_le t t'"
    using world_le_snapshot [OF a(4) t(1)] by blast
  then show ?thesis using history_sets(3) [of t s] t(2) s by auto
qed

lemma permit_in_ledger:
  assumes h: "host_ok h" and ty: "list_all event_typed evs" and wf: "system_wf h key sys0"
    and run: "system_run h key evs sys0 = (rs, sys)" and k: "k < length evs"
    and p: "rs ! k = Some (Ok (RpUse (UseNew p)))" and s: "snapshot h key (sy_world sys) = Some s"
  shows "\<exists>l. map_of (ps_leases s) (lease_id_str (ep_lease_id p)) = Some l
    \<and> pl_broker_generation l = ep_broker_generation p"
  using permit_lease_final [OF h ty _ run k p] wf h s by (auto simp: sound_system_def)

lemma later_permit_new:
  assumes x: "sound_system h key x" "system_step h key ev x = (Some (Ok (RpUse (UseNew q))), y)"
    and t: "snapshot h key (sy_world x) = Some t" "g \<le> ps_broker_generation t"
    and old: "\<forall>k l. map_of (ps_leases s) k = Some l \<longrightarrow> pl_broker_generation l < g
       \<and> (\<exists>m. map_of (ps_leases t) k = Some m \<and> pl_broker_generation m < g)"
  shows "g \<le> ep_broker_generation q \<and> lease_id_str (ep_lease_id q) \<notin> dom (map_of (ps_leases s))"
proof -
  obtain l where l: "map_of (ps_leases t) (lease_id_str (ep_lease_id q)) = Some l"
    "pl_broker_generation l = ep_broker_generation q" "ps_broker_generation t = ep_broker_generation q"
    by (rule permit_step [OF x]) (use t(1) in auto)
  have "lease_id_str (ep_lease_id q) \<notin> dom (map_of (ps_leases s))"
  proof
    assume "lease_id_str (ep_lease_id q) \<in> dom (map_of (ps_leases s))"
    then obtain m where "map_of (ps_leases t) (lease_id_str (ep_lease_id q)) = Some m"
      "pl_broker_generation m < g" using old by blast
    then show False using l t(2) by simp
  qed
  then show ?thesis using t(2) l(3) by simp
qed

text \<open>Using a lease of an earlier generation is refused, whatever was done with it before.\<close>

lemma old_lease_refused:
  assumes x: "sound_system h key x" and t: "snapshot h key (sy_world x) = Some t"
    and m: "map_of (ps_leases t) (lease_id_str i) = Some m" "pl_broker_generation m \<noteq> ps_broker_generation t"
  shows "fst (system_step h key (EvRequest n io (RqBeginUse i op now)) x) \<noteq> Some (Ok resp)"
proof
  assume "fst (system_step h key (EvRequest n io (RqBeginUse i op now)) x) = Some (Ok resp)"
  then obtain st u w' where st: "handle_at x n = Some st"
    "begin_use h io st i op now (sy_world x) = (Ok u, w')"
    by (auto dest!: answered split: option.splits prod.splits)
  have h: "host_ok h" "rs_key st = key" using sound_handle [OF x st(1)] by auto
  have "with_locked_state h io st
      (begin_use_tx (store_binding h st) (lease_id_str i) (sha256_hex h op) now) (sy_world x) = (Ok u, w')"
    using st(2) by (auto simp: begin_use_def split: sum.splits)
  then obtain s s' c where s: "snapshot h (rs_key st) (sy_world x) = Some s"
    "begin_use_tx (store_binding h st) (lease_id_str i) (sha256_hex h op) now s = Ok (u, s', c)"
    using active_transaction_Ok [OF h(1)] by metis
  then have "begin_use_tx (store_binding h st) (lease_id_str i) (sha256_hex h op) now t = Ok (u, s', c)"
    using s t h(2) by simp
  then show False by (cases rule: begin_use_cases) (use m in simp_all)
qed

lemma sample_run_reservation:
  "reservation_of (sample_events ! 1) (fst sample_run ! 1)
    = Some \<lparr>rg_nonce = sample_digest, rg_key = ''k1'', rg_lease_id = sample_lease_id\<rparr>"
  by code_simp
lemma sample_ledger:
  "map_option (\<lambda>s. map fst (ps_leases s)) (snapshot sample_host sample_key
     (sy_world (snd (system_run sample_host sample_key (take 8 sample_events) sample_system)))) = Some [lease_id_str sample_lease_id]"
  by code_simp

text \<open>
  C2. A restart ends all earlier authority.  Take the ledger on disk just before an epoch was
  started.  No use of any lease in it, used or only reserved, is ever accepted afterwards; every
  later permit has the new generation or a higher one and is for a lease that was not in that
  ledger, so for none that an earlier event reserved or minted a permit for; and a permit from
  before the restart has a lower generation and is refused by every operation that takes one.
\<close>

theorem restart_ends_authority:
  assumes "host_ok h" and "new_system h io random key = Ok sys0" and "list_all event_typed evs"
    and "system_run h key evs sys0 = (rs, sys)" and "i < j" "j < length evs"
    and "evs ! i = EvRequest hn io' RqStartEpoch" "rs ! i = Some (Ok (RpGeneration g))"
    and "snapshot h key (sy_world (snd (system_run h key (take i evs) sys0))) = Some s"
  shows "(\<forall>n io2 lid op now resp. evs ! j = EvRequest n io2 (RqBeginUse lid op now) \<longrightarrow>
            lease_id_str lid \<in> dom (map_of (ps_leases s)) \<longrightarrow> rs ! j \<noteq> Some (Ok resp))
    \<and> (\<forall>q. rs ! j = Some (Ok (RpUse (UseNew q))) \<longrightarrow>
            g \<le> ep_broker_generation q
            \<and> lease_id_str (ep_lease_id q) \<notin> dom (map_of (ps_leases s))
            \<and> (\<forall>k<i. \<forall>r. reservation_of (evs ! k) (rs ! k) = Some r \<longrightarrow> rg_lease_id r \<noteq> ep_lease_id q)
            \<and> (\<forall>k<i. \<forall>p. rs ! k = Some (Ok (RpUse (UseNew p))) \<longrightarrow> ep_lease_id p \<noteq> ep_lease_id q))
    \<and> (\<forall>k<i. \<forall>p. rs ! k = Some (Ok (RpUse (UseNew p))) \<longrightarrow>
            ep_broker_generation p < g
            \<and> (\<forall>n io2 rq resp. evs ! j = EvRequest n io2 rq \<longrightarrow>
                 (\<exists>d disp io3. rq \<in> {RqBeginCompletion p d disp, RqFinishUse p io3, RqAbandonUse p io3}) \<longrightarrow>
                 rs ! j \<noteq> Some (Ok resp)))"
proof -
  note snd = run_sound [OF assms(1-4)]
  have wf: "system_wf h key sys0" using snd(1) by (simp add: sound_system_def)
  have i: "i < length evs" using assms(5,6) by simp
  obtain x y t where x: "system_step h key (evs ! j) x = (rs ! j, y)" "sound_system h key x"
    "snapshot h key (sy_world x) = Some t" "g \<le> ps_broker_generation t"
    and old: "\<forall>k l. map_of (ps_leases s) k = Some l \<longrightarrow> pl_broker_generation l < g
       \<and> (\<exists>m. map_of (ps_leases t) k = Some m \<and> pl_broker_generation m < g)"
    by (rule leases_before_restart [OF assms(1,3) wf assms(4-9)]) blast
  obtain mid where mid: "system_run h key (take i evs) sys0 = (take i rs, mid)"
    using system_run_at [OF assms(1,3) wf assms(4) i] by metis
  have ty: "list_all event_typed (take i evs)" using assms(3) by (auto simp: list_all_iff dest: in_set_takeD)
  have s: "snapshot h key (sy_world mid) = Some s" using assms(9) mid by simp
  have res: "lease_id_str (rg_lease_id r) \<in> dom (map_of (ps_leases s))"
    if "k < i" "reservation_of (evs ! k) (rs ! k) = Some r" for k r
    using reservation_in_ledger [OF assms(1) ty wf mid _ _ s, of k r] that i by simp
  have per: "\<exists>l. map_of (ps_leases s) (lease_id_str (ep_lease_id p)) = Some l
      \<and> pl_broker_generation l = ep_broker_generation p"
    if "k < i" "rs ! k = Some (Ok (RpUse (UseNew p)))" for k p
    using permit_in_ledger [OF assms(1) ty wf mid _ _ s, of k p] that i by simp
  have use: "rs ! j \<noteq> Some (Ok resp)"
    if "evs ! j = EvRequest n io2 (RqBeginUse lid op now)" "lease_id_str lid \<in> dom (map_of (ps_leases s))"
    for n io2 lid op now resp
    using old_lease_refused [OF x(2,3)] x(1,4) old that by (metis domD fst_conv leD)
  have new: "g \<le> ep_broker_generation q \<and> lease_id_str (ep_lease_id q) \<notin> dom (map_of (ps_leases s))"
    if q: "rs ! j = Some (Ok (RpUse (UseNew q)))" for q
    using later_permit_new [OF x(2) x(1) [unfolded q] x(3,4) old] .
  have refused: "ep_broker_generation p < g \<and> (evs ! j = EvRequest n io2 rq \<longrightarrow>
      (\<exists>d disp io3. rq \<in> {RqBeginCompletion p d disp, RqFinishUse p io3, RqAbandonUse p io3}) \<longrightarrow>
      rs ! j \<noteq> Some (Ok resp))"
    if k: "k < i" "rs ! k = Some (Ok (RpUse (UseNew p)))" for k p n io2 rq resp
  proof -
    have less: "ep_broker_generation p < g" using per [OF k] old by metis
    then have "ep_broker_generation p \<noteq> ps_broker_generation t" using x(4) by auto
    then show ?thesis
      using less old_permit_request [OF x(2,3), of p rq n io2 resp] x(1) by (metis fst_conv)
  qed
  show ?thesis using use new refused res per by (intro conjI allI impI) (blast | fastforce)+
qed

theorem restart_ends_authority_witness:
  "\<exists>p g. fst sample_run ! 3 = Some (Ok (RpUse (UseNew p)))
     \<and> fst sample_run ! 8 = Some (Ok (RpGeneration g)) \<and> ep_broker_generation p < g
     \<and> reservation_of (sample_events ! 1) (fst sample_run ! 1)
         = Some \<lparr>rg_nonce = sample_digest, rg_key = ''k1'', rg_lease_id = sample_lease_id\<rparr>
     \<and> (\<forall>resp. fst sample_run ! 9 \<noteq> Some (Ok resp))"
proof -
  obtain p where p: "fst sample_run ! 3 = Some (Ok (RpUse (UseNew p)))"
    using sample_run_tag [of 3] by (auto simp: outcome_permit)
  obtain g where g: "fst sample_run ! 8 = Some (Ok (RpGeneration g))"
    using sample_run_tag [of 8] by (auto simp: outcome_generation)
  have e: "sample_events ! 8 = EvRequest 1 io_fine RqStartEpoch" "length sample_events = 10"
    "sample_events ! 9 = EvRequest 1 io_fine (RqBeginUse sample_lease_id ''op2'' 50)"
    by (simp_all add: sample_events_def)
  obtain s where s: "snapshot sample_host sample_key (sy_world (snd (system_run sample_host sample_key
      (take 8 sample_events) sample_system))) = Some s" "map fst (ps_leases s) = [lease_id_str sample_lease_id]"
    using sample_ledger by auto
  have "lease_id_str sample_lease_id \<in> dom (map_of (ps_leases s))"
    using arg_cong [OF s(2), of set] by (simp add: dom_map_of_conv_image_fst)
  then have "(\<forall>resp. fst sample_run ! 9 \<noteq> Some (Ok resp))
      \<and> (\<forall>k<8. \<forall>p. fst sample_run ! k = Some (Ok (RpUse (UseNew p))) \<longrightarrow> ep_broker_generation p < g)"
    using restart_ends_authority [OF sample_host_ok sample_system_new
        sample_events_typed sample_run_eq _ _ e(1) g s(1), of 9] e(2,3) by simp
  moreover have "(3::nat) < 8" by simp
  ultimately show ?thesis using p g sample_run_reservation by blast
qed

text \<open>
  C18. One broker at a time: in every reachable system at most one handle is active, and while
  one is, no handle can start an epoch; the attempt changes nothing on disk.
\<close>

theorem single_active_broker:
  assumes "host_ok h" and "new_system h io random key = Ok sys0" and "list_all event_typed evs"
    and "system_run h key evs sys0 = (rs, sys)"
  shows "length (filter (\<lambda>st. st \<noteq> None \<and> rs_activation (the st) = ACTIVE) (sy_handles sys)) \<le> 1
    \<and> ((\<exists>n st. handle_at sys n = Some st \<and> rs_activation st = ACTIVE) \<longrightarrow>
         (\<forall>n io' r sys'. system_step h key (EvRequest n io' RqStartEpoch) sys = (r, sys') \<longrightarrow>
            (\<forall>resp. r \<noteq> Some (Ok resp)) \<and> sy_world sys' = sy_world sys))"
proof -
  have wf: "system_wf h key sys" using run_sound(2) [OF assms] by (simp add: sound_system_def)
  have act: "(st \<noteq> None \<and> rs_activation (the st) = ACTIVE) = holds_lock st"
    if "st \<in> set (sy_handles sys)" for st
    using wf that by (cases st) (auto simp: system_wf_def handle_wf_def holds_lock_def)
  then have "filter (\<lambda>st. st \<noteq> None \<and> rs_activation (the st) = ACTIVE) (sy_handles sys)
      = filter holds_lock (sy_handles sys)" by (intro filter_cong) auto
  then have one: "length (filter (\<lambda>st. st \<noteq> None \<and> rs_activation (the st) = ACTIVE) (sy_handles sys)) \<le> 1"
    using wf by (simp add: system_wf_def)
  have "(\<forall>resp. r \<noteq> Some (Ok resp)) \<and> sy_world sys' = sy_world sys"
    if a: "handle_at sys m = Some st0" "rs_activation st0 = ACTIVE"
      and st: "system_step h key (EvRequest n io' RqStartEpoch) sys = (r, sys')" for m st0 n io' r sys'
  proof -
    have "holds_lock (Some st0)" using act [OF handle_at_in [OF a(1)]] a(2) by simp
    then have "filter holds_lock (sy_handles sys) \<noteq> []"
      using handle_at_in [OF a(1)] by (auto simp: filter_empty_conv)
    then have lock: "w_instance_locked (sy_world sys)" using wf by (auto simp: system_wf_def split: if_splits)
    show ?thesis
      using st start_epoch_locked_eq [OF lock] by (fastforce split: option.splits prod.splits simp: res_simps)
  qed
  then show ?thesis using one by blast
qed

theorem single_active_broker_witness:
  "length (filter (\<lambda>st. st \<noteq> None \<and> rs_activation (the st) = ACTIVE) (sy_handles (snd sample_run))) \<le> 1
   \<and> map outcome_tag (fst sample_run) ! 6 = ''busy''"
  using single_active_broker [OF sample_host_ok sample_system_new sample_events_typed sample_run_eq]
  by (simp add: sample_run_outcomes)

text \<open>
  C13. The accounts always balance: in every reachable ledger each lease has used exactly the
  uses missing from its capacity, never more live uses than its concurrency limit, no live
  authority once it is revoked or from an earlier epoch, and there is one consumed nonce and
  one idempotency record per lease.
\<close>

theorem reachable_ledger_balanced:
  assumes "host_ok h" and "new_system h io random key = Ok sys0" and "list_all event_typed evs"
    and "system_run h key evs sys0 = (rs, sys)"
  shows "\<exists>s. snapshot h key (sy_world sys) = Some s
    \<and> length (ps_seen_nonce_digests s) = length (ps_leases s)
    \<and> length (ps_idempotency s) = length (ps_leases s)
    \<and> (\<forall>(k, l) \<in> set (ps_leases s). \<exists>n m.
         uc_capacity (ac_uses (pl_constraints l)) = CapacityBounded n m
         \<and> unat (pl_remaining_uses l) + length (pl_uses l) = unat n
         \<and> length (filter (is_live \<circ> snd) (pl_uses l)) \<le> unat m
         \<and> (pl_revoked l \<or> pl_broker_generation l \<noteq> ps_broker_generation s \<longrightarrow>
              list_all (Not \<circ> is_active \<circ> snd) (pl_uses l)))"
proof -
  obtain s where s: "snapshot h key (sy_world sys) = Some s" "ledger_wf s"
    by (rule sound_snapshot [OF run_sound(2) [OF assms]])
  have "length (map (pi_lease_id \<circ> snd) (ps_idempotency s)) = length (map fst (ps_leases s))"
    using s(2) by (intro mset_eq_length) (simp add: ledger_wf_def)
  moreover have "\<exists>n m. uc_capacity (ac_uses (pl_constraints l)) = CapacityBounded n m
         \<and> unat (pl_remaining_uses l) + length (pl_uses l) = unat n
         \<and> length (filter (is_live \<circ> snd) (pl_uses l)) \<le> unat m
         \<and> (pl_revoked l \<or> pl_broker_generation l \<noteq> ps_broker_generation s \<longrightarrow>
              list_all (Not \<circ> is_active \<circ> snd) (pl_uses l))" if "(k, l) \<in> set (ps_leases s)" for k l
  proof -
    have "lease_wf (ps_broker_generation s) k l" using s(2) that by (force simp: ledger_wf_def)
    then show ?thesis
      by (auto simp: lease_wf_def use_account_ok_def active_uses_def bt_values_def filter_map
          list_all_iff comp_def split: use_capacity.splits)
  qed
  ultimately show ?thesis using s by (fastforce simp: ledger_wf_def)
qed

theorem reachable_ledger_balanced_witness:
  "\<exists>s. snapshot sample_host sample_key (sy_world (snd sample_run)) = Some s
    \<and> length (ps_idempotency s) = length (ps_leases s)"
  using reachable_ledger_balanced [OF sample_host_ok sample_system_new sample_events_typed sample_run_eq]
  by blast

end
