(* ===== verification/Replay_Completion.thy ===== *)
theory Replay_Completion
  imports Replay_Facts Replay_Samples
begin

text \<open>
  Further properties of the replay store: completions, retries, refused requests, tampered
  snapshots, and the agreement of the status display with the gate.
\<close>

subsection \<open>Shared facts\<close>

lemma commit_completion_result:
  assumes "commit_completion_tx w s = Ok (r, s', c)"
  shows "\<exists>l. map_of (ps_leases s') (lease_id_str (cw_lease_id w)) = Some l
    \<and> map_of (pl_uses l) (cw_operation_sha256 w) =
        Some (terminal_use_state (cw_disposition w) (cw_terminal_record_sha256 w))"
  using assms
proof (cases rule: commit_completion_cases)
  case unchanged
  obtain l u where l: "map_of (ps_leases s) (lease_id_str (cw_lease_id w)) = Some l"
    and u: "map_of (pl_uses l) (cw_operation_sha256 w) = Some u"
    using assms by (auto simp: commit_completion_tx_def Let_def res_simps split: if_splits)
  note tx = assms [unfolded commit_completion_tx_def Let_def l u ok_or.simps and_then.simps]
  have "u = terminal_use_state (cw_disposition w) (cw_terminal_record_sha256 w)"
    using tx unchanged(2) by (cases u) (auto simp: res_simps split: if_splits)
  then show ?thesis using l u unchanged(1) by auto
next
  case (committed l)
  then show ?thesis by (simp add: update_use_def update_lease_def)
qed

lemma terminal_stays:
  assumes "ledger_le s t" and "map_of (ps_leases s) k = Some l"
    and "map_of (pl_uses l) op = Some (terminal_use_state p d)"
  shows "\<exists>m. map_of (ps_leases t) k = Some m \<and> map_of (pl_uses m) op = Some (terminal_use_state p d)"
proof -
  obtain m where m: "map_of (ps_leases t) k = Some m" "lease_le l m"
    using ledger_leD(6) [OF assms(1,2)] by blast
  obtain v where "map_of (pl_uses m) op = Some v" "use_le (terminal_use_state p d) v"
    using lease_leD(4) [OF m(2) assms(3)] by blast
  then show ?thesis using m(1) by (auto simp: use_le_def)
qed

lemma committed_later:
  assumes "host_ok h" and "new_system h io random key = Ok sys0" and "list_all event_typed evs"
    and "system_run h key evs sys0 = (rs, sys)" "i < length evs"
    and "evs ! i = EvRequest n io' (RqCommitCompletion c)" "rs ! i = Some (Ok RpDone)"
  shows "\<exists>s l. snapshot h key (sy_world sys) = Some s
    \<and> map_of (ps_leases s) (lease_id_str (cw_lease_id c)) = Some l
    \<and> map_of (pl_uses l) (cw_operation_sha256 c) =
        Some (terminal_use_state (cw_disposition c) (cw_terminal_record_sha256 c))"
proof -
  from system_run_at [OF assms(1,3) new_system_wf [OF assms(1,2)] assms(4,5)] obtain a b where
    ab: "system_step h key (evs ! i) a = (rs ! i, b)" "system_wf h key a" "system_wf h key b"
      "world_le h key (sy_world b) (sy_world sys)" by metis
  have a: "sound_system h key a" "sound_system h key b" using ab assms(1) by (simp_all add: sound_system_def)
  obtain st w' where st: "handle_at a n = Some st" "sy_world b = w'"
    "commit_completion h io' st c (sy_world a) = (Ok (), w')"
    using ab(1) assms(6,7) by (auto dest!: answered split: option.splits prod.splits)
  then have "with_locked_state h io' st (commit_completion_tx c) (sy_world a) = (Ok (), w')"
    by (simp add: commit_completion_def split: if_splits)
  from active_transaction_Ok [OF assms(1) this] obtain s s' ch where
    s: "snapshot h (rs_key st) (sy_world a) = Some s" "commit_completion_tx c s = Ok ((), s', ch)"
      "if ch then snapshot h (rs_key st) w' = Some s' else w' = sy_world a" by metis
  have key: "rs_key st = key" using sound_handle(2) [OF a(1) st(1)] .
  have b: "snapshot h key (sy_world b) = Some s'"
    using s st(2) key commit_completion.changed_iff [OF s(2)] by (cases ch) auto
  then have "ledger_wf s'" using a(2) by (auto simp: sound_system_def system_wf_def)
  with world_le_snapshot [OF ab(4) b] obtain t where
    t: "snapshot h key (sy_world sys) = Some t" "ledger_le s' t" by metis
  then show ?thesis using commit_completion_result [OF s(2)] terminal_stays by blast
qed

subsection \<open>Completions\<close>

text \<open>
  C4. A committed completion is final: once a completion was acknowledged, every later state of
  the store, through crashes and restarts, records that terminal digest and disposition for the
  operation, and no commit for the same operation is ever acknowledged with another digest or
  disposition.
\<close>

theorem completion_is_final:
  assumes "host_ok h" and "new_system h io random key = Ok sys0" and "list_all event_typed evs"
    and "system_run h key evs sys0 = (rs, sys)" "i < length evs"
    and "evs ! i = EvRequest n io' (RqCommitCompletion c)" "rs ! i = Some (Ok RpDone)"
  shows "(\<exists>s l. snapshot h key (sy_world sys) = Some s
      \<and> map_of (ps_leases s) (lease_id_str (cw_lease_id c)) = Some l
      \<and> map_of (pl_uses l) (cw_operation_sha256 c) =
          Some (terminal_use_state (cw_disposition c) (cw_terminal_record_sha256 c)))
    \<and> (\<forall>j < length evs. \<forall>m io2 c'.
        evs ! j = EvRequest m io2 (RqCommitCompletion c') \<longrightarrow> rs ! j = Some (Ok RpDone) \<longrightarrow>
        cw_lease_id c' = cw_lease_id c \<longrightarrow> cw_operation_sha256 c' = cw_operation_sha256 c \<longrightarrow>
        cw_terminal_record_sha256 c' = cw_terminal_record_sha256 c
        \<and> cw_disposition c' = cw_disposition c)"
proof -
  have inj: "d = d' \<and> p = p'" if "terminal_use_state p d = terminal_use_state p' d'" for p d p' d'
    using that by (cases p; cases p') auto
  note one = committed_later [OF assms]
  moreover have "cw_terminal_record_sha256 c' = cw_terminal_record_sha256 c
        \<and> cw_disposition c' = cw_disposition c"
    if "j < length evs" "evs ! j = EvRequest m io2 (RqCommitCompletion c')" "rs ! j = Some (Ok RpDone)"
      "cw_lease_id c' = cw_lease_id c" "cw_operation_sha256 c' = cw_operation_sha256 c" for j m io2 c'
    using one committed_later [OF assms(1-4) that(1-3)] that(4,5) inj by auto
  ultimately show ?thesis by blast
qed

theorem completion_is_final_witness:
  "fst completion_run ! 4 = Some (Ok RpDone)
   \<and> (\<exists>s l. snapshot sample_host sample_key (sy_world (snd completion_run)) = Some s
      \<and> map_of (ps_leases s) (lease_id_str sample_lease_id) = Some l
      \<and> map_of (pl_uses l) (sha256_hex sample_host ''op1'') = Some (UseFinished sample_digest))"
proof -
  have run: "system_run sample_host sample_key completion_events sample_system
      = (fst completion_run, snd completion_run)" by (simp add: completion_run_def)
  have c: "cw_lease_id sample_witness = sample_lease_id"
    "cw_operation_sha256 sample_witness = sha256_hex sample_host ''op1''"
    "terminal_use_state (cw_disposition sample_witness) (cw_terminal_record_sha256 sample_witness)
       = UseFinished sample_digest"
    by (simp_all add: sample_witness_def)
  show ?thesis
    using completion_is_final [OF sample_host_ok sample_system_new completion_events_typed run
        completion_events_at(1,2) completion_run_done] completion_run_done
    unfolding c by blast
qed

text \<open>
  C24. Work that reached completion survives a crash and is never done again: after a restart a
  pending completion can be resumed with its own digest and disposition and committed to exactly
  that terminal state (unless the sequence number is exhausted), a resume with anything else is
  a conflict, and the operation itself gets no new permit.
\<close>

theorem pending_completion_survives_restart:
  assumes "map_of (ps_leases s) (lease_id_str i) = Some l"
    and "map_of (pl_uses l) op = Some (UseCompleting d p)"
    and "start_epoch_tx h sid s = Ok (g, s', c)"
  shows "begin_use_tx sb (lease_id_str i) op now s' = Err Revoked
    \<and> (\<forall>d' p'. (d', p') \<noteq> (d, p) \<longrightarrow>
         resume_completion_tx sb i op d' p' s' = Err CompletionConflict)
    \<and> (\<exists>w. resume_completion_tx sb i op d p s' = Ok (CompletionResumed w, s', False)
        \<and> (if unat (ps_sequence s') + 1 < 2 ^ 64
           then \<exists>s'' m. commit_completion_tx w s' = Ok ((), s'', True)
             \<and> map_of (ps_leases s'') (lease_id_str i) = Some m
             \<and> map_of (pl_uses m) op = Some (terminal_use_state p d)
           else commit_completion_tx w s' = Err SequenceExhausted))"
proof -
  obtain leases where leases: "bt_try_update (restart_lease h sid) (ps_leases s) = Ok leases"
    "ps_leases s' = leases"
    using assms(3) by (rule start_epoch_cases) simp
  obtain m where m: "map_of leases (lease_id_str i) = Some m" "restart_lease h sid (lease_id_str i) l = Ok m"
    using bt_try_update_lookup [OF leases(1), of "lease_id_str i"] assms(1) by auto
  obtain uses where uses: "bt_try_update (abandon_on_restart h sid (lease_id_str i)) (pl_uses l) = Ok uses"
    "m = abandoned_lease uses l"
    using m(2) by (auto simp: restart_lease_Ok)
  have op: "map_of (pl_uses m) op = Some (UseCompleting d p)"
    using bt_try_update_lookup [OF uses(1), of op] assms(2) uses(2)
    by (simp add: abandon_on_restart_def abandoned_lease_def)
  have rev: "pl_revoked m" using uses(2) by (simp add: abandoned_lease_def)
  have lk: "map_of (ps_leases s') (lease_id_str i) = Some m" using m(1) leases(2) by simp
  let ?w = "\<lparr>cw_lease_id = i, cw_broker_generation = pl_broker_generation m,
      cw_operation_sha256 = op, cw_terminal_record_sha256 = d, cw_disposition = p, cw_store_binding = sb\<rparr>"
  have "begin_use_tx sb (lease_id_str i) op now s' = Err Revoked"
    using lk rev by (simp add: begin_use_tx_def)
  moreover have "resume_completion_tx sb i op d' p' s' = Err CompletionConflict" if "(d', p') \<noteq> (d, p)" for d' p'
    using lk op that by (auto simp: resume_completion_tx_def)
  moreover have "resume_completion_tx sb i op d p s' = Ok (CompletionResumed ?w, s', False)"
    using lk op by (simp add: resume_completion_tx_def)
  moreover have "commit_completion_tx ?w s' =
      and_then (bump_sequence (update_use (lease_id_str i) op (terminal_use_state p d) m s'))
        (\<lambda>s''. Ok ((), s'', True))"
    using lk op by (simp add: commit_completion_tx_def)
  moreover have "bump_sequence (update_use (lease_id_str i) op (terminal_use_state p d) m s') =
      (if unat (ps_sequence s') + 1 < 2 ^ 64
       then Ok (update_use (lease_id_str i) op (terminal_use_state p d) m s'
              \<lparr>ps_sequence := ps_sequence s' + 1\<rparr>) else Err SequenceExhausted)"
    by (simp add: bump_sequence_def checked_add_def)
  ultimately show ?thesis
    by (intro conjI exI [of _ ?w]) (auto simp: update_use_def update_lease_def)
qed

theorem pending_completion_survives_restart_witness:
  "\<exists>g s' w. start_epoch_tx sample_host ''store'' pending_state = Ok (g, s', True)
     \<and> resume_completion_tx ''x'' sample_lease_id ''op'' sample_digest DispFinished s'
         = Ok (CompletionResumed w, s', False)"
proof -
  obtain g s' c where st: "start_epoch_tx sample_host ''store'' pending_state = Ok (g, s', c)"
    using pending_restart by (auto simp: is_ok_iff)
  then have "c" by (rule start_epoch_cases)
  with st have st: "start_epoch_tx sample_host ''store'' pending_state = Ok (g, s', True)" by simp
  have l: "map_of (ps_leases pending_state) (lease_id_str sample_lease_id) = Some pending_lease"
    "map_of (pl_uses pending_lease) ''op'' = Some (UseCompleting sample_digest DispFinished)"
    by (simp_all add: pending_state_def pending_lease_def)
  show ?thesis using pending_completion_survives_restart [OF l st, of "''x''" 0] st by blast
qed

subsection \<open>Retries\<close>

text \<open>
  Retrying a reservation is safe: as long as the epoch lasts, whatever happened since, the
  same key and the same binding return the original lease and change nothing, the same key for
  a different binding is a collision, and the same grant nonce under another key is a replay;
  in any other epoch the binding is stale.
\<close>

theorem reserve_retry:
  assumes "reserve_tx nonce key fp b s = Ok (ReservedNew i, s', c)" and "ledger_le s' t"
    and "valid_lease_id (lb_lease_id b)"
  shows "if ps_broker_generation t \<noteq> ps_broker_generation s
    then reserve_tx nonce' key fp' b t = Err StaleBrokerGeneration
    else reserve_tx nonce' key fp b t = Ok (ReservedExisting i, t, False)
      \<and> (fp' \<noteq> fp \<longrightarrow> reserve_tx nonce' key fp' b t = Err IdempotencyCollision)
      \<and> (map_of (ps_idempotency t) key' = None \<longrightarrow> reserve_tx nonce key' fp' b t = Err Replay)"
  using assms(1)
proof (cases rule: reserve_cases)
  case (reserved n m)
  have "map_of (ps_idempotency s') key =
      Some \<lparr>pi_request_fingerprint_sha256 = fp, pi_lease_id = lease_id_str (lb_lease_id b)\<rparr>"
    using reserved(10) by simp
  then have idem: "map_of (ps_idempotency t) key =
      Some \<lparr>pi_request_fingerprint_sha256 = fp, pi_lease_id = lease_id_str (lb_lease_id b)\<rparr>"
    using ledger_leD(5) [OF assms(2)] by (metis domI map_le_def)
  have "nonce \<in> set (ps_seen_nonce_digests t)"
    using ledger_leD(4) [OF assms(2)] reserved(10) by (auto simp: bs_insert_facts)
  then show ?thesis
    using idem reserved assms(3) by (simp add: reserve_tx_def)
qed simp

theorem reserve_retry_witness:
  "\<exists>s'. reserve_tx ''nonce'' ''key'' ''fp'' sample_binding fresh_state
      = Ok (ReservedNew sample_lease_id, s', True)
    \<and> reserve_tx ''other'' ''key'' ''fp'' sample_binding s' = Ok (ReservedExisting sample_lease_id, s', False)
    \<and> reserve_tx ''other'' ''key'' ''fp2'' sample_binding s' = Err IdempotencyCollision"
proof -
  obtain s' where s': "reserve_tx ''nonce'' ''key'' ''fp'' sample_binding fresh_state
      = Ok (ReservedNew sample_lease_id, s', True)" using fresh_reserved by blast
  have v: "valid_lease_id (lb_lease_id sample_binding)" by code_simp
  have "ps_broker_generation s' = ps_broker_generation fresh_state"
    using s' by (cases rule: reserve_cases) simp_all
  then show ?thesis
    using s' reserve_retry [OF s' ledger_le_refl v, of "''other''" "''fp2''"] by simp
qed

subsection \<open>Refusals\<close>

definition certain :: "io \<Rightarrow> bool" where
  "certain io = (case io_replace io of ReplaceUncertain _ \<Rightarrow> False | _ \<Rightarrow> True)"

lemma refused_write:
  "certain io \<Longrightarrow> write_authenticated_state h io s key w = (Err e, w') \<Longrightarrow> w' = w"
  by (auto simp: write_authenticated_state_def certain_def split: sum.splits replace_outcome.splits)

text \<open>An answer with an error leaves the world alone (\<open>inert\<close>); it is an error at all (\<open>dead\<close>).\<close>

definition inert :: "'b world \<Rightarrow> ('t, replay_error) result \<times> 'b world \<Rightarrow> bool" where
  "inert w rw \<longleftrightarrow> is_ok (fst rw) \<or> snd rw = w"

definition dead :: "'b world \<Rightarrow> ('t, replay_error) result \<times> 'b world \<Rightarrow> bool" where
  "dead w rw \<longleftrightarrow> \<not> is_ok (fst rw) \<and> snd rw = w"

lemma inert_pair [simp]: "inert w (r, w)"
  by (simp add: inert_def)

lemma dead_pair [simp]: "dead w (Err e, w)"
  by (simp add: dead_def)

lemma inert_unchecked [simp]:
  fixes tx :: "'t transaction"
  assumes "certain io"
  shows "inert w (with_locked_state_unchecked h io st tx w)"
proof -
  have "inert w (case write_authenticated_state h io s' k w of (Inl e, w') \<Rightarrow> (Err e, w') | (Inr _, w') \<Rightarrow> (Ok t, w'))"
    for s' k and t :: 't
    using refused_write [OF assms, of h s' k w] by (auto simp: inert_def split: prod.split sum.split)
  then show ?thesis
    by (auto simp: with_locked_state_unchecked_def Let_def split: sum.split)
qed

lemma inert_locked [simp]: "certain io \<Longrightarrow> inert w (with_locked_state h io st tx w)"
  by (simp add: with_locked_state_def split: sum.split)

lemma dead_unchecked:
  assumes "\<not> is_ok (read_authenticated_state h io (rs_key st) w)"
  shows "dead w (with_locked_state_unchecked h io st tx w)"
proof -
  obtain e where "read_authenticated_state h io (rs_key st) w = Err e"
    using assms by (cases "read_authenticated_state h io (rs_key st) w") auto
  then show ?thesis
    by (auto simp: with_locked_state_unchecked_def Let_def res_simps split: sum.split)
qed

lemma dead_locked:
  "\<not> is_ok (read_authenticated_state h io (rs_key st) w) \<Longrightarrow> dead w (with_locked_state h io st tx w)"
  by (simp add: with_locked_state_def dead_unchecked split: sum.split)

lemmas single_step_defs = reserve_lease_def begin_use_def begin_completion_def validate_permit_def
  resume_completion_def commit_completion_def revoke_lease_def list_leases_def
  current_generation_locked stored_generation_def Let_def

lemma inert_single_steps:
  assumes "certain io"
  shows "inert w (reserve_lease h io st nonce k b w)" "inert w (begin_use h io st i op now w)"
    "inert w (begin_completion h io st p d disp w)" "inert w (resume_completion h io st i op d disp w)"
    "inert w (commit_completion h io st c w)" "inert w (revoke_lease h io st i w)"
    "inert w (list_leases h io st w)" "inert w (current_generation h io st w)"
    "inert w (stored_generation h io st w)"
  using assms by (simp_all add: single_step_defs split: sum.split)

lemma dead_single_steps:
  assumes "\<not> is_ok (read_authenticated_state h io (rs_key st) w)"
  shows "dead w (reserve_lease h io st nonce k b w)" "dead w (begin_use h io st i op now w)"
    "dead w (begin_completion h io st p d disp w)" "dead w (resume_completion h io st i op d disp w)"
    "dead w (commit_completion h io st c w)" "dead w (revoke_lease h io st i w)"
    "dead w (list_leases h io st w)" "dead w (current_generation h io st w)"
    "dead w (stored_generation h io st w)"
  by (simp_all add: single_step_defs dead_unchecked [OF assms] dead_locked [OF assms] split: sum.split)

lemma dead_terminalize:
  assumes "\<not> is_ok (read_authenticated_state h io (rs_key st) w)"
  shows "dead w (legacy_terminalize h io io' st p disp w)"
proof (cases "legacy_terminal_digest h (rs_store_id st) p disp")
  case (Inr d)
  obtain e where "begin_completion h io st p d disp w = (Inl e, w)"
    using dead_single_steps(3) [OF assms, of p d disp]
    by (cases "begin_completion h io st p d disp w"; cases "fst (begin_completion h io st p d disp w)")
      (auto simp: dead_def)
  then show ?thesis using Inr by (cases e) (simp_all add: legacy_terminalize_def)
qed (simp add: legacy_terminalize_def)

lemma answer_inert: "answer f st rw = (Err e, st', w') \<Longrightarrow> inert w rw \<Longrightarrow> st' = st \<and> w' = w"
  by (cases rw; cases "fst rw") (auto simp: answer_def inert_def)

lemma answer_dead: "dead w rw \<Longrightarrow> \<not> is_ok (fst (answer f st rw)) \<and> snd (snd (answer f st rw)) = w"
  by (cases rw; cases "fst rw") (auto simp: answer_def dead_def)

fun two_step :: "replay_request \<Rightarrow> bool" where
  "two_step RqStartEpoch = True"
| "two_step (RqFinishUse _ _) = True"
| "two_step (RqAbandonUse _ _) = True"
| "two_step _ = False"

text \<open>
  C35. A refused request has no effect: when a request other than a start or one of the two-step
  terminal calls reports an error, the handle is unchanged and so is the disk, except when the
  file system failed after the rename, where the new snapshot is in place.
\<close>

theorem refused_request_no_effect:
  assumes "handle_request h io st rq w = (Err e, st', w')" and "\<not> two_step rq" and "certain io"
  shows "st' = st \<and> w' = w"
  using assms(1,2)
  by (cases rq) (auto dest!: inert_single_steps [OF assms(3), THEN answer_inert [rotated]])

theorem refused_request_no_effect_witness:
  "\<exists>st' w'. handle_request sample_host io_fine (from_parts ''store'' sample_key)
      (RqRevoke sample_lease_id) tampered_world = (Err NotActive, st', w') \<and> w' = tampered_world"
proof -
  have eq: "handle_request sample_host io_fine (from_parts ''store'' sample_key)
      (RqRevoke sample_lease_id) tampered_world
      = (Err NotActive, from_parts ''store'' sample_key, tampered_world)"
    by (simp add: answer_def revoke_lease_def with_locked_state_def ensure_active_def from_parts_def)
  show ?thesis
    using eq refused_request_no_effect [OF eq] by (simp add: certain_def)
qed

subsection \<open>Tampering\<close>

text \<open>
  C25. A snapshot that was altered without the key is inert: if the tag stored with it is not the
  MAC of its payload under the handle's key, every request on every handle with that key is
  refused and leaves the file as it is, so tampered leases are never acted on nor overwritten,
  and the store cannot be opened.
\<close>

theorem tampered_snapshot_inert:
  assumes "w_state w = Some b" and "ho_from_slice h b = Some sg"
    and "hs_hex_decode h (ss_hmac_sha256 sg) = Some tag"
    and "state_mac h (rs_key st) (ss_payload sg) \<noteq> Ok tag"
  shows "\<not> is_ok (fst (handle_request h io st rq w))
    \<and> snd (snd (handle_request h io st rq w)) = w
    \<and> \<not> is_ok (open_existing h io (rs_key st) w)"
proof -
  have read: "\<not> is_ok (read_authenticated_state h io (rs_key st) w)"
    using assms by (auto simp: read_authenticated_state_def storage_read_def is_ok_iff res_simps
        split: if_splits)
  note dead = dead_single_steps [OF read, THEN answer_dead] dead_terminalize [OF read, THEN answer_dead]
  have "\<not> is_ok (fst (start_epoch h io st w)) \<and> snd (snd (start_epoch h io st w)) = w"
  proof (cases "with_locked_state_unchecked h io st (start_epoch_tx h (rs_store_id st)) w")
    case (Pair r w')
    then have "w' = w" "\<not> is_ok r"
      using dead_unchecked [OF read, of "start_epoch_tx h (rs_store_id st)"] by (simp_all add: dead_def)
    then obtain e where "r = Err e" by (cases r) auto
    then show ?thesis
      using Pair \<open>w' = w\<close>
      by (auto simp: start_epoch_def split: activation.split sum.split storage_error.split)
  qed
  then have "\<not> is_ok (fst (handle_request h io st rq w)) \<and> snd (snd (handle_request h io st rq w)) = w"
    by (cases rq; cases "start_epoch h io st w"; cases "fst (start_epoch h io st w)")
      (simp_all add: finish_use_def abandon_use_def dead)
  moreover have "\<not> is_ok (open_existing h io (rs_key st) w)"
    using read assms(1) by (auto simp: open_existing_def is_ok_iff res_simps split: if_splits)
  ultimately show ?thesis by blast
qed

theorem tampered_snapshot_inert_witness:
  "\<not> is_ok (fst (handle_request sample_host io_fine (from_parts ''store'' sample_key) RqListLeases
       tampered_world))
   \<and> \<not> is_ok (open_existing sample_host io_fine sample_key tampered_world)"
proof -
  let ?sg = "\<lparr>ss_format_version = 2, ss_payload = pending_state, ss_hmac_sha256 = ''6162''\<rparr>"
  have w: "w_state tampered_world = Some ?sg" by (simp add: tampered_world_def)
  have s: "ho_from_slice sample_host ?sg = Some ?sg" by (simp add: sample_host_def)
  have d: "hs_hex_decode sample_host (ss_hmac_sha256 ?sg) = Some ''ab''" by code_simp
  have m: "state_mac sample_host (rs_key (from_parts ''store'' sample_key)) (ss_payload ?sg) \<noteq> Ok ''ab''"
    by code_simp
  show ?thesis
    using tampered_snapshot_inert [OF w s d m, of io_fine RqListLeases] by (simp add: from_parts_def)
qed

end
