(* ===== verification/Runtime_Action.thy ===== *)
theory Runtime_Action
  imports Replay_State
begin

text \<open>
  \<open>phantom-runtime/src/action.rs\<close>: the closed set of engineering actions, the parsers of their
  arguments, the command line each becomes and the digest an authority binds.
\<close>

subsection \<open>Arguments\<close>

datatype action_error = InvalidPackage | InvalidFilter | InvalidCwd

datatype package_name = PackageName (package_str: string)
datatype test_filter = TestFilter (filter_str: string)
datatype relative_cwd = RelativeCwd (cwd_str: string)

definition valid_bounded :: "string \<Rightarrow> nat \<Rightarrow> (char \<Rightarrow> bool) \<Rightarrow> bool" where
  "valid_bounded value limit allowed =
     (value \<noteq> [] \<and> length value \<le> limit \<and> list_all allowed value)"

definition first_is :: "(char \<Rightarrow> bool) \<Rightarrow> string \<Rightarrow> bool" where
  "first_is f value = (case value of [] \<Rightarrow> False | c # _ \<Rightarrow> f c)"

definition package_parse :: "string \<Rightarrow> (package_name, action_error) result" where
  "package_parse value =
     (if first_is is_ascii_alphanumeric value
         \<and> valid_bounded value 128
             (\<lambda>c. is_ascii_alphanumeric c \<or> c \<in> {CHR ''-'', CHR ''_'', CHR ''.''})
      then Ok (PackageName value) else Err InvalidPackage)"

definition filter_parse :: "string \<Rightarrow> (test_filter, action_error) result" where
  "filter_parse value =
     (if first_is is_ascii_alphanumeric value
         \<and> valid_bounded value 128
             (\<lambda>c. is_ascii_alphanumeric c \<or> c \<in> {CHR ''-'', CHR ''_'', CHR ''.'', CHR '':''})
      then Ok (TestFilter value) else Err InvalidFilter)"

text \<open>
  \<open>std::path::Path::components\<close> on Unix: separators are collapsed, a dot is a component only
  at the start of a relative path.
\<close>

datatype path_component = RootDir | CurDir | ParentDir | NormalDir string

definition component_of :: "string \<Rightarrow> path_component" where
  "component_of s = (if s = ''..'' then ParentDir else NormalDir s)"

definition path_is_absolute :: "string \<Rightarrow> bool" where
  "path_is_absolute s = starts_with s ''/''"

definition path_components :: "string \<Rightarrow> path_component list" where
  "path_components s =
     (let parts = split_on (CHR ''/'') s;
          rest = map component_of (filter (\<lambda>p. p \<noteq> [] \<and> p \<noteq> ''.'') parts)
      in if path_is_absolute s then RootDir # rest
         else if hd parts = ''.'' then CurDir # rest else rest)"

fun is_normal :: "path_component \<Rightarrow> bool" where
  "is_normal (NormalDir _) = True"
| "is_normal _ = False"

definition cwd_parse :: "string \<Rightarrow> (relative_cwd, action_error) result" where
  "cwd_parse value =
     (if value = [] \<or> length value > 512 \<or> path_is_absolute value
         \<or> (value \<noteq> ''.'' \<and> list_ex (\<lambda>c. \<not> is_normal c) (path_components value))
      then Err InvalidCwd else Ok (RelativeCwd value))"

definition workspace_root :: relative_cwd where
  "workspace_root = RelativeCwd ''.''"

subsection \<open>Actions\<close>

datatype engineering_action =
  CargoCheck (action_package: "package_name option") (action_cwd: relative_cwd)
| CargoTest (action_package: "package_name option") (action_filter: "test_filter option")
    (action_cwd: relative_cwd)
| CargoClippy (action_package: "package_name option") (action_cwd: relative_cwd)
| CargoFmtCheck (action_cwd: relative_cwd)

definition required_operation :: "engineering_action \<Rightarrow> operation" where
  "required_operation a = RunEngineeringCheck"

fun append_package :: "string list \<Rightarrow> package_name option \<Rightarrow> string list" where
  "append_package args (Some p) = args @ [''--package'', package_str p]"
| "append_package args None = args @ [''--workspace'']"

fun action_argv :: "engineering_action \<Rightarrow> string list" where
  "action_argv (CargoCheck p _) = append_package [''check'', ''--locked''] p"
| "action_argv (CargoTest p f _) =
     append_package [''test'', ''--locked''] p
     @ (case f of None \<Rightarrow> [] | Some x \<Rightarrow> [''--'', filter_str x])"
| "action_argv (CargoClippy p _) =
     append_package [''clippy'', ''--locked''] p @ [''--'', ''-D'', ''warnings'']"
| "action_argv (CargoFmtCheck _) = [''fmt'', ''--all'', ''--'', ''--check'']"

text \<open>The derived \<open>Serialize\<close>: the tag \<open>action\<close>, then the fields, absent options skipped.\<close>

definition optional_field :: "string \<Rightarrow> ('a \<Rightarrow> string) \<Rightarrow> 'a option \<Rightarrow> (string \<times> json) list" where
  "optional_field name f x = (case x of None \<Rightarrow> [] | Some v \<Rightarrow> [(name, JString (f v))])"

fun action_value :: "engineering_action \<Rightarrow> json" where
  "action_value (CargoCheck p d) = JObject
     ([(''action'', JString ''cargo_check'')] @ optional_field ''package'' package_str p
      @ [(''cwd'', JString (cwd_str d))])"
| "action_value (CargoTest p f d) = JObject
     ([(''action'', JString ''cargo_test'')] @ optional_field ''package'' package_str p
      @ optional_field ''filter'' filter_str f @ [(''cwd'', JString (cwd_str d))])"
| "action_value (CargoClippy p d) = JObject
     ([(''action'', JString ''cargo_clippy'')] @ optional_field ''package'' package_str p
      @ [(''cwd'', JString (cwd_str d))])"
| "action_value (CargoFmtCheck d) = JObject
     [(''action'', JString ''cargo_fmt_check''), (''cwd'', JString (cwd_str d))]"

definition action_digest ::
  "('a) hashes_scheme \<Rightarrow> engineering_action \<Rightarrow> (string, canonical_error) result" where
  "action_digest h a =
     and_then (canonical_json_v1 (hs_escape h) action_value a) (\<lambda>text. Ok (sha256_hex h text))"

subsection \<open>Well-typed actions\<close>

text \<open>An action is only ever built from parsed arguments, also by the derived deserializer.\<close>

definition package_ok :: "package_name option \<Rightarrow> bool" where
  "package_ok p = (case p of None \<Rightarrow> True | Some x \<Rightarrow> package_parse (package_str x) = Ok x)"

definition filter_ok :: "test_filter option \<Rightarrow> bool" where
  "filter_ok f = (case f of None \<Rightarrow> True | Some x \<Rightarrow> filter_parse (filter_str x) = Ok x)"

fun action_typed :: "engineering_action \<Rightarrow> bool" where
  "action_typed (CargoCheck p d) = (package_ok p \<and> cwd_parse (cwd_str d) = Ok d)"
| "action_typed (CargoTest p f d) = (package_ok p \<and> filter_ok f \<and> cwd_parse (cwd_str d) = Ok d)"
| "action_typed (CargoClippy p d) = (package_ok p \<and> cwd_parse (cwd_str d) = Ok d)"
| "action_typed (CargoFmtCheck d) = (cwd_parse (cwd_str d) = Ok d)"

lemma first_not_dash:
  assumes "first_is is_ascii_alphanumeric s"
  shows "s \<noteq> []" "hd s \<noteq> CHR ''-''"
  using assms by (auto simp: first_is_def byte_defs split: list.splits)

lemma package_first: "package_parse s = Ok p \<Longrightarrow> hd s \<noteq> CHR ''-'' \<and> s \<noteq> []"
  using first_not_dash by (auto simp: package_parse_def split: if_splits)

lemma filter_first: "filter_parse s = Ok p \<Longrightarrow> hd s \<noteq> CHR ''-'' \<and> s \<noteq> []"
  using first_not_dash by (auto simp: filter_parse_def split: if_splits)

lemma split_on_parent:
  "\<not> list_ex (\<lambda>c. \<not> is_normal c) (path_components s) \<Longrightarrow> ''..'' \<notin> set (split_on (CHR ''/'') s)"
proof
  assume n: "\<not> list_ex (\<lambda>c. \<not> is_normal c) (path_components s)" and p: "''..'' \<in> set (split_on (CHR ''/'') s)"
  have "ParentDir \<in> set (path_components s)"
    using p by (auto simp: path_components_def Let_def component_of_def image_iff intro!: bexI [of _ "''..''"])
  then show False using n by (auto simp: list_ex_iff)
qed

lemma no_dash: "s \<noteq> [] \<Longrightarrow> hd s \<noteq> c \<Longrightarrow> \<not> starts_with s [c]"
  by (cases s) auto

lemma package_arg: "package_ok (Some p) \<Longrightarrow> \<not> starts_with (package_str p) ''-''"
  using package_first no_dash by (simp add: package_ok_def)

lemma filter_arg: "filter_ok (Some f) \<Longrightarrow> \<not> starts_with (filter_str f) ''-''"
  using filter_first no_dash by (simp add: filter_ok_def)

lemma append_package_eq:
  "append_package args p =
     args @ (case p of None \<Rightarrow> [''--workspace''] | Some x \<Rightarrow> [''--package'', package_str x])"
  by (cases p) simp_all

abbreviation fixed_options :: "string set" where
  "fixed_options \<equiv>
     {''--locked'', ''--package'', ''--workspace'', ''--'', ''-D'', ''--all'', ''--check''}"

lemma package_options:
  "package_ok p \<Longrightarrow> x \<in> set (append_package [verb, ''--locked''] p) \<Longrightarrow> starts_with x ''-'' \<Longrightarrow>
     \<not> starts_with verb ''-'' \<Longrightarrow> x \<in> fixed_options"
proof (cases p)
  case (Some q)
  assume "package_ok p" "starts_with x ''-''" "\<not> starts_with verb ''-''"
    and "x \<in> set (append_package [verb, ''--locked''] p)"
  then have "x = ''--locked'' \<or> x = ''--package''" using Some package_arg [of q] by auto
  then show ?thesis by (elim disjE) simp_all
next
  case None
  assume "starts_with x ''-''" "\<not> starts_with verb ''-''"
    and "x \<in> set (append_package [verb, ''--locked''] p)"
  then have "x = ''--locked'' \<or> x = ''--workspace''" using None by auto
  then show ?thesis by (elim disjE) simp_all
qed

lemma argv_options:
  assumes "action_typed a" "x \<in> set (action_argv a)" "starts_with x ''-''"
  shows "x \<in> fixed_options"
proof (cases a)
  case (CargoCheck p d)
  then show ?thesis using assms package_options [of p x "''check''"] by simp
next
  case (CargoTest p f d)
  show ?thesis
  proof (cases f)
    case None
    then show ?thesis using CargoTest assms package_options [of p x "''test''"] by simp
  next
    case (Some y)
    then have "\<not> starts_with (filter_str y) ''-''" using CargoTest assms(1) filter_arg by simp
    then have "x \<in> set (append_package [''test'', ''--locked''] p) \<or> x = ''--''"
      using Some CargoTest assms(2,3) by (auto simp del: append_package.simps)
    then show ?thesis
      using CargoTest assms(1,3) package_options [of p x "''test''"] by (elim disjE) simp_all
  qed
next
  case (CargoClippy p d)
  then have "x \<in> set (append_package [''clippy'', ''--locked''] p) \<or> x = ''--'' \<or> x = ''-D''"
    using assms(2,3) by (auto simp del: append_package.simps)
  then show ?thesis
    using CargoClippy assms(1,3) package_options [of p x "''clippy''"] by (elim disjE) simp_all
next
  case (CargoFmtCheck d)
  then have "x = ''--all'' \<or> x = ''--'' \<or> x = ''--check''" using assms(2,3) by auto
  then show ?thesis by (elim disjE) simp_all
qed

lemma package_str_inj [simp]: "package_str p = package_str q \<longleftrightarrow> p = q"
  by (cases p; cases q) simp

lemma filter_str_inj [simp]: "filter_str p = filter_str q \<longleftrightarrow> p = q"
  by (cases p; cases q) simp

lemma argv_injective: "action_argv b = action_argv a \<Longrightarrow> action_cwd b = action_cwd a \<Longrightarrow> b = a"
  by (cases a; cases b) (simp_all add: append_package_eq split: option.splits)

text \<open>Walking a path segment by segment from a directory.\<close>

definition walk :: "string list \<Rightarrow> string list \<Rightarrow> string list" where
  "walk root parts =
     foldl (\<lambda>d p. if p = [] \<or> p = ''.'' then d else if p = ''..'' then butlast d else d @ [p]) root parts"

lemma walk_contained:
  "''..'' \<notin> set parts \<Longrightarrow> prefix root (walk root parts)"
proof (induction parts rule: rev_induct)
  case (snoc p parts)
  then show ?case by (auto simp: walk_def intro: prefix_order.trans)
qed (simp add: walk_def)

subsection \<open>Properties\<close>

text \<open>
  A command line carries no caller-chosen option and identifies its action: every argument
  that starts with a dash is one of the fixed options, whatever the package and filter are, and
  two well-typed actions with the same command line and directory are the same.
\<close>

theorem argv_closed:
  assumes "action_typed a"
  shows "(\<forall>x \<in> set (action_argv a). starts_with x ''-'' \<longrightarrow>
      x \<in> {''--locked'', ''--package'', ''--workspace'', ''--'', ''-D'', ''--all'', ''--check''})
    \<and> (\<forall>b. action_typed b \<longrightarrow> action_argv b = action_argv a \<longrightarrow> action_cwd b = action_cwd a \<longrightarrow> b = a)"
proof (intro conjI ballI allI impI)
  fix x assume "x \<in> set (action_argv a)" "starts_with x ''-''"
  then show "x \<in> fixed_options" by (rule argv_options [OF assms])
qed (rule argv_injective)

definition sample_action :: engineering_action where
  "sample_action = CargoTest (Some (PackageName ''phantom-core'')) (Some (TestFilter ''token::'')) workspace_root"

theorem argv_closed_witness:
  "action_typed sample_action
   \<and> action_argv sample_action = [''test'', ''--locked'', ''--package'', ''phantom-core'', ''--'', ''token::'']
   \<and> \<not> (\<exists>x \<in> set (action_argv sample_action). x = ''--config'')"
proof -
  have t: "action_typed sample_action" by code_simp
  moreover have "action_argv sample_action
      = [''test'', ''--locked'', ''--package'', ''phantom-core'', ''--'', ''token::'']" by code_simp
  moreover have "starts_with ''--config'' ''-''" by simp
  ultimately show ?thesis using argv_closed [OF t] by blast
qed

text \<open>
  The working directory stays inside the workspace: a parsed directory is relative, and
  walking any number of its segments from the workspace root never leaves the root.
\<close>

theorem cwd_contained:
  assumes "cwd_parse value = Ok d"
  shows "cwd_str d = value \<and> value \<noteq> [] \<and> \<not> starts_with value ''/''
    \<and> (\<forall>n. prefix root (walk root (take n (split_on (CHR ''/'') (cwd_str d)))))"
proof -
  have v: "d = RelativeCwd value" "value \<noteq> []" "\<not> path_is_absolute value"
    "value = ''.'' \<or> \<not> list_ex (\<lambda>c. \<not> is_normal c) (path_components value)"
    using assms by (auto simp: cwd_parse_def split: if_splits)
  then have "''..'' \<notin> set (split_on (CHR ''/'') value)" using split_on_parent by auto
  then have "prefix root (walk root (take n (split_on (CHR ''/'') value)))" for n
    by (intro walk_contained) (auto dest: in_set_takeD)
  then show ?thesis using v by (simp add: path_is_absolute_def)
qed

theorem cwd_contained_witness:
  "cwd_parse ''crates/./core'' = Ok (RelativeCwd ''crates/./core'')
   \<and> prefix [''w''] (walk [''w''] (take 2 (split_on (CHR ''/'') ''crates/./core'')))
   \<and> cwd_parse ''crates/../..'' = Err InvalidCwd"
proof -
  have p: "cwd_parse ''crates/./core'' = Ok (RelativeCwd ''crates/./core'')" by code_simp
  moreover have "cwd_parse ''crates/../..'' = Err InvalidCwd" by code_simp
  moreover have "cwd_str (RelativeCwd ''crates/./core'') = ''crates/./core''" by simp
  ultimately show ?thesis using cwd_contained [OF p, of "[''w'']"] by metis
qed

end
