(* ===== verification/Runtime_Exec.thy ===== *)
theory Runtime_Exec
  imports Runtime_Action Replay_Facts Authority_Schema
begin

text \<open>
  \<open>phantom-runtime/src/runtime.rs\<close>: the runtime that spends one durable execution permit on one
  engineering action.  The confinement backend is the trait object of the code: a record of its
  two methods; the only one the crate ships denies everything.  \<open>io\<close> outcomes and the world are
  those of the replay store.
\<close>

subsection \<open>Policy\<close>

definition MAX_DURATION_MS :: u64 where "MAX_DURATION_MS = 3600000"
definition MAX_OUTPUT :: u64 where "MAX_OUTPUT = 64 * 1024 * 1024"
definition MAX_MEMORY :: u64 where "MAX_MEMORY = 16 * 1024 * 1024 * 1024"
definition MAX_FILE :: u64 where "MAX_FILE = 4 * 1024 * 1024 * 1024"
definition MAX_FILES :: u64 where "MAX_FILES = 1024"
definition MAX_PROCESSES :: u64 where "MAX_PROCESSES = 256"

datatype execution_error =
  MissingWitness | DuplicateWitness | MissingWorkspaceHandle | MissingToolchain
| MissingConfinement | ConfinementUnavailable | WitnessMismatch | PermitNotYetActive
| ExpiredWitness | InvalidPolicy | InvalidAction | RuntimeInvalidWorkspace | CwdEscape
| ClockUnavailable | RuntimeSetup | DurableTransition | SpawnFailed string | OutputRead
| ReapFailed

record execution_policy =
  po_version :: u16
  po_timeout_ms :: u64
  po_output_bytes :: u64
  po_memory_bytes :: u64
  po_file_bytes :: u64
  po_open_files :: u64
  po_processes :: u64

definition policy_conservative :: execution_policy where
  "policy_conservative =
     \<lparr>po_version = 1, po_timeout_ms = 300000, po_output_bytes = 4 * 1024 * 1024,
      po_memory_bytes = 2 * 1024 * 1024 * 1024, po_file_bytes = 512 * 1024 * 1024,
      po_open_files = 256, po_processes = 64\<rparr>"

definition policy_validate :: "execution_policy \<Rightarrow> (unit, execution_error) result" where
  "policy_validate p =
     (if po_version p \<noteq> 1
         \<or> po_timeout_ms p = 0 \<or> MAX_DURATION_MS < po_timeout_ms p
         \<or> po_output_bytes p = 0 \<or> MAX_OUTPUT < po_output_bytes p
         \<or> po_memory_bytes p = 0 \<or> MAX_MEMORY < po_memory_bytes p
         \<or> po_file_bytes p = 0 \<or> MAX_FILE < po_file_bytes p
         \<or> po_open_files p = 0 \<or> MAX_FILES < po_open_files p
         \<or> po_processes p = 0 \<or> MAX_PROCESSES < po_processes p
      then Err InvalidPolicy else Ok ())"

definition policy_value :: "execution_policy \<Rightarrow> json" where
  "policy_value p = JObject
     [(''version'', JNumber (PosInt (ucast (po_version p)))),
      (''timeout_ms'', JNumber (PosInt (po_timeout_ms p))),
      (''output_bytes'', JNumber (PosInt (po_output_bytes p))),
      (''memory_bytes'', JNumber (PosInt (po_memory_bytes p))),
      (''file_bytes'', JNumber (PosInt (po_file_bytes p))),
      (''open_files'', JNumber (PosInt (po_open_files p))),
      (''processes'', JNumber (PosInt (po_processes p)))]"

definition policy_digest ::
  "('a) hashes_scheme \<Rightarrow> execution_policy \<Rightarrow> (sha256_digest, execution_error) result" where
  "policy_digest h p =
     and_then (map_err (\<lambda>_. InvalidPolicy) (canonical_json_v1 (hs_escape h) policy_value p)) (\<lambda>text.
       map_err (\<lambda>_. InvalidPolicy) (parse_sha256_digest (sha256_hex h text)))"

subsection \<open>The durable guard\<close>

text \<open>The store behind a guard, seen through the two operations the guard calls.\<close>

record 'w durable_ops =
  do_finish :: "execution_permit \<Rightarrow> 'w \<Rightarrow> (unit, replay_error) result \<times> 'w"
  do_abandon :: "execution_permit \<Rightarrow> 'w \<Rightarrow> (unit, replay_error) result \<times> 'w"

definition store_ops :: "'b host \<Rightarrow> io \<Rightarrow> io \<Rightarrow> replay_store \<Rightarrow> 'b world durable_ops" where
  "store_ops h io io' st = \<lparr>do_finish = finish_use h io io' st, do_abandon = abandon_use h io io' st\<rparr>"

record 'w durable_guard =
  dg_store :: "'w durable_ops"
  dg_permit :: "execution_permit option"

definition guard_new :: "'w durable_ops \<Rightarrow> execution_permit \<Rightarrow> 'w durable_guard" where
  "guard_new store permit = \<lparr>dg_store = store, dg_permit = Some permit\<rparr>"

definition guard_drop :: "'w durable_guard \<Rightarrow> 'w \<Rightarrow> 'w" where
  "guard_drop g w =
     (case dg_permit g of None \<Rightarrow> w | Some p \<Rightarrow> snd (do_abandon (dg_store g) p w))"

text \<open>Both consume the guard: it is dropped when they return.\<close>

definition guard_terminal ::
  "('w durable_ops \<Rightarrow> execution_permit \<Rightarrow> 'w \<Rightarrow> (unit, replay_error) result \<times> 'w)
     \<Rightarrow> 'w durable_guard \<Rightarrow> 'w \<Rightarrow> (unit, execution_error) result \<times> 'w" where
  "guard_terminal transition g w =
     (case dg_permit g of
        None \<Rightarrow> (Err RuntimeSetup, guard_drop g w)
      | Some p \<Rightarrow>
          (case transition (dg_store g) p w of
             (Inl _, w') \<Rightarrow> (Err DurableTransition, guard_drop g w')
           | (Inr _, w') \<Rightarrow> (Ok (), guard_drop (g\<lparr>dg_permit := None\<rparr>) w')))"

definition guard_finish :: "'w durable_guard \<Rightarrow> 'w \<Rightarrow> (unit, execution_error) result \<times> 'w" where
  "guard_finish = guard_terminal do_finish"

definition guard_abandon :: "'w durable_guard \<Rightarrow> 'w \<Rightarrow> (unit, execution_error) result \<times> 'w" where
  "guard_abandon = guard_terminal do_abandon"

subsection \<open>Building a runtime\<close>

record workspace_handle =
  wh_root :: string
  wh_workspace_id :: workspace_id
  wh_manifest_sha256 :: sha256_digest

record backend_request =
  br_executable :: string
  br_argv :: "string list"
  br_cwd :: relative_cwd
  br_workspace :: workspace_handle
  br_policy :: execution_policy
  br_not_before :: u64
  br_expires_at :: u64

datatype outcome_kind =
  Exited bool "32 word option" | TimedOut | OutcomeCancelled | OutcomeRevoked | OutputLimitExceeded

record execution_outcome =
  eo_kind :: outcome_kind
  eo_stdout_bytes :: u64
  eo_stderr_bytes :: u64

definition outcome_empty :: "outcome_kind \<Rightarrow> execution_outcome" where
  "outcome_empty k = \<lparr>eo_kind = k, eo_stdout_bytes = 0, eo_stderr_bytes = 0\<rparr>"

record confinement_backend =
  cb_ensure_available :: "(unit, execution_error) result"
  cb_execute :: "backend_request \<Rightarrow> (execution_outcome, execution_error) result"

definition deny_all_confinement :: confinement_backend where
  "deny_all_confinement =
     \<lparr>cb_ensure_available = Err ConfinementUnavailable, cb_execute = (\<lambda>_. Err ConfinementUnavailable)\<rparr>"

record 'w runtime_builder =
  rb_guard :: "'w durable_guard option"
  rb_workspace :: "workspace_handle option"
  rb_toolchain :: "string option"
  rb_backend :: "confinement_backend option"
  rb_policy :: execution_policy

definition builder_new :: "execution_policy \<Rightarrow> 'w runtime_builder" where
  "builder_new policy =
     \<lparr>rb_guard = None, rb_workspace = None, rb_toolchain = None, rb_backend = None, rb_policy = policy\<rparr>"

definition drop_builder :: "'w runtime_builder \<Rightarrow> 'w \<Rightarrow> 'w" where
  "drop_builder b w = (case rb_guard b of None \<Rightarrow> w | Some g \<Rightarrow> guard_drop g w)"

definition with_execution_permit ::
  "'w runtime_builder \<Rightarrow> execution_permit \<Rightarrow> 'w durable_ops \<Rightarrow> 'w
     \<Rightarrow> ('w runtime_builder, execution_error) result \<times> 'w" where
  "with_execution_permit b permit store w =
     (let replacement = guard_new store permit in
      if rb_guard b \<noteq> None then (Err DuplicateWitness, drop_builder b (guard_drop replacement w))
      else (Ok (b\<lparr>rb_guard := Some replacement\<rparr>), w))"

definition with_workspace_handle :: "'w runtime_builder \<Rightarrow> workspace_handle \<Rightarrow> 'w runtime_builder" where
  "with_workspace_handle b workspace = b\<lparr>rb_workspace := Some workspace\<rparr>"

definition with_toolchain :: "'w runtime_builder \<Rightarrow> string \<Rightarrow> 'w runtime_builder" where
  "with_toolchain b toolchain = b\<lparr>rb_toolchain := Some toolchain\<rparr>"

definition with_confinement_backend ::
  "'w runtime_builder \<Rightarrow> confinement_backend \<Rightarrow> 'w runtime_builder" where
  "with_confinement_backend b backend = b\<lparr>rb_backend := Some backend\<rparr>"

record runtime_authority =
  ra_action_digest :: string
  ra_not_before :: u64
  ra_expires_at :: u64
  ra_request_limit :: byte_limit

record 'w supervised_runtime =
  sr_authority :: runtime_authority
  sr_guard :: "'w durable_guard"
  sr_workspace :: workspace_handle
  sr_toolchain :: string
  sr_backend :: confinement_backend
  sr_policy :: execution_policy

text \<open>
  The checks of \<open>build\<close>; a guard in a builder always owns its permit, so \<open>guard.permit()\<close> is the
  permit itself.
\<close>

definition build_checked ::
  "('a) hashes_scheme \<Rightarrow> 'w runtime_builder \<Rightarrow> ('w supervised_runtime, execution_error) result" where
  "build_checked h b =
     and_then (policy_validate (rb_policy b)) (\<lambda>_.
     and_then (ok_or (rb_guard b) MissingWitness) (\<lambda>guard.
     and_then (ok_or (rb_workspace b) MissingWorkspaceHandle) (\<lambda>workspace.
     and_then (ok_or (rb_toolchain b) MissingToolchain) (\<lambda>toolchain.
     and_then (ok_or (rb_backend b) MissingConfinement) (\<lambda>backend.
     and_then (cb_ensure_available backend) (\<lambda>_.
     and_then (ok_or (dg_permit guard) RuntimeSetup) (\<lambda>permit.
     let c = ep_constraints permit in
     if ac_read_only c \<or> \<not> network_denied (ac_network c) \<or> \<not> spend_is_forbidden (ac_spend c)
     then Err WitnessMismatch
     else (case uc_max_response_bytes (ac_uses c) of
       BytesDenied \<Rightarrow> Err WitnessMismatch
     | BytesBounded response_limit \<Rightarrow>
         if \<not> 0 < response_limit then Err WitnessMismatch
         else let policy = (rb_policy b)\<lparr>po_output_bytes := min (po_output_bytes (rb_policy b)) response_limit\<rparr> in
         if ep_operation permit \<noteq> RunEngineeringCheck
            \<or> ep_workspace_id permit \<noteq> wh_workspace_id workspace
            \<or> ep_workspace_manifest_sha256 permit \<noteq> wh_manifest_sha256 workspace
         then Err WitnessMismatch
         else and_then (policy_digest h policy) (\<lambda>d.
           if ep_policy_sha256 permit \<noteq> d then Err WitnessMismatch
           else Ok \<lparr>sr_authority =
                     \<lparr>ra_action_digest = digest_str (ep_canonical_args_sha256 permit),
                      ra_not_before = tc_not_before (ac_time c),
                      ra_expires_at = tc_expires_at (ac_time c),
                      ra_request_limit = uc_max_request_bytes (ac_uses c)\<rparr>,
                    sr_guard = guard, sr_workspace = workspace, sr_toolchain = toolchain,
                    sr_backend = backend, sr_policy = policy\<rparr>)))))))))"

definition builder_build ::
  "('a) hashes_scheme \<Rightarrow> 'w runtime_builder \<Rightarrow> 'w
     \<Rightarrow> ('w supervised_runtime, execution_error) result \<times> 'w" where
  "builder_build h b w =
     (case build_checked h b of
        Inl e \<Rightarrow> (Err e, drop_builder b w)
      | Inr rt \<Rightarrow> (Ok rt, w))"

subsection \<open>Cancellation\<close>

text \<open>
  \<open>phantom-runtime/src/cancellation.rs\<close>: a flag that only rises, and the number of times the
  waiters were woken.  A revocation handle is such a token.
\<close>

record cancellation_state =
  cs_cancelled :: bool
  cs_notified :: nat

definition token_cancel :: "cancellation_state \<Rightarrow> cancellation_state" where
  "token_cancel c =
     (if \<not> cs_cancelled c then c\<lparr>cs_cancelled := True, cs_notified := Suc (cs_notified c)\<rparr> else c)"

definition token_is_cancelled :: "cancellation_state \<Rightarrow> bool" where
  "token_is_cancelled = cs_cancelled"

subsection \<open>Executing\<close>

text \<open>
  The result of \<open>execute_inner\<close> and the requests it made to the backend.  \<open>revoked\<close> and
  \<open>cancelled\<close> are what the two flags read.
\<close>

definition execute_inner ::
  "('a) hashes_scheme \<Rightarrow> 'w supervised_runtime \<Rightarrow> engineering_action \<Rightarrow> bool \<Rightarrow> bool
     \<Rightarrow> (execution_outcome, execution_error) result \<times> backend_request list" where
  "execute_inner h rt a revoked cancelled =
     (let checked =
        (if required_operation a \<noteq> RunEngineeringCheck then Err WitnessMismatch
         else and_then (map_err (\<lambda>_. InvalidAction) (action_digest h a)) (\<lambda>d.
         if d \<noteq> ra_action_digest (sr_authority rt) then Err WitnessMismatch
         else and_then (map_err (\<lambda>_. InvalidAction) (canonical_json_v1 (hs_escape h) action_value a))
           (\<lambda>text.
           case ra_request_limit (sr_authority rt) of
             BytesDenied \<Rightarrow> Err WitnessMismatch
           | BytesBounded limit \<Rightarrow>
               if \<not> length text \<le> unat limit then Err WitnessMismatch else Ok ())))
      in case checked of
           Inl e \<Rightarrow> (Err e, [])
         | Inr _ \<Rightarrow>
             if revoked then (Ok (outcome_empty OutcomeRevoked), [])
             else if cancelled then (Ok (outcome_empty OutcomeCancelled), [])
             else let request = \<lparr>br_executable = sr_toolchain rt, br_argv = action_argv a,
                    br_cwd = action_cwd a, br_workspace = sr_workspace rt, br_policy = sr_policy rt,
                    br_not_before = ra_not_before (sr_authority rt),
                    br_expires_at = ra_expires_at (sr_authority rt)\<rparr>
                  in (cb_execute (sr_backend rt) request, [request]))"

text \<open>The world is that of the terminal transition: the store is not touched before it.\<close>

definition runtime_execute ::
  "('a) hashes_scheme \<Rightarrow> 'w supervised_runtime \<Rightarrow> engineering_action \<Rightarrow> bool \<Rightarrow> bool \<Rightarrow> 'w
     \<Rightarrow> (execution_outcome, execution_error) result \<times> backend_request list \<times> 'w" where
  "runtime_execute h rt a revoked cancelled w =
     (case execute_inner h rt a revoked cancelled of
        (Inr outcome, requests) \<Rightarrow>
          (case guard_finish (sr_guard rt) w of
             (Inl e, w') \<Rightarrow> (Err e, requests, w')
           | (Inr _, w') \<Rightarrow> (Ok outcome, requests, w'))
      | (Inl error, requests) \<Rightarrow>
          (case guard_abandon (sr_guard rt) w of
             (Inl e, w') \<Rightarrow> (Err e, requests, w')
           | (Inr _, w') \<Rightarrow> (Err error, requests, w')))"

text \<open>A runtime dropped before or during execution drops its guard.\<close>

definition drop_runtime :: "'w supervised_runtime \<Rightarrow> 'w \<Rightarrow> 'w" where
  "drop_runtime rt w = guard_drop (sr_guard rt) w"

end
