(* ===== verification/Runtime_Samples.thy ===== *)
theory Runtime_Samples
  imports Runtime_Exec Replay_Samples
begin

text \<open>
  A concrete execution for the witnesses: a lease reserved for one action, the permit the store
  mints for it, and a runtime built on that permit with a backend that answers.
\<close>

definition value_or :: "'a \<Rightarrow> ('a, 'e) result \<Rightarrow> 'a" where
  "value_or d r = (case r of Inl _ \<Rightarrow> d | Inr x \<Rightarrow> x)"

definition exec_policy :: execution_policy where
  "exec_policy =
     \<lparr>po_version = 1, po_timeout_ms = 60, po_output_bytes = 64, po_memory_bytes = 64,
      po_file_bytes = 64, po_open_files = 8, po_processes = 4\<rparr>"

definition exec_binding :: lease_binding where
  "exec_binding = sample_binding
     \<lparr>lb_canonical_args_sha256 := Sha256Digest (value_or [] (action_digest sample_host sample_action)),
      lb_expected_authority := sample_authority
        \<lparr>ea_policy_sha256 := value_or sample_digest (policy_digest sample_host exec_policy)\<rparr>\<rparr>"

definition exec_run ::
  "(replay_response, replay_error) result option list \<times> signed_state replay_system" where
  "exec_run = system_run sample_host sample_key
     [EvRequest 0 io_fine RqStartEpoch,
      EvRequest 0 io_fine (RqReserve sample_digest ''k1'' exec_binding),
      EvRequest 0 io_fine (RqBeginUse sample_lease_id ''op1'' 50)] sample_system"

definition exec_permit :: execution_permit where
  "exec_permit = (case fst exec_run ! 2 of Some (Inr (RpUse (UseNew p))) \<Rightarrow> p | _ \<Rightarrow> sample_permit)"

definition exec_world :: "signed_state world" where
  "exec_world = sy_world (snd exec_run)"

definition exec_store :: replay_store where
  "exec_store = (case handle_at (snd exec_run) 0 of
     Some st \<Rightarrow> st | None \<Rightarrow> from_parts [] [])"

definition exec_ops :: "signed_state world durable_ops" where
  "exec_ops = store_ops sample_host io_fine io_fine exec_store"

definition exec_backend :: confinement_backend where
  "exec_backend =
     \<lparr>cb_ensure_available = Ok (), cb_execute = (\<lambda>_. Ok (outcome_empty (Exited True (Some 0))))\<rparr>"

definition exec_builder :: "signed_state world runtime_builder" where
  "exec_builder = (builder_new exec_policy)
     \<lparr>rb_guard := Some (guard_new exec_ops exec_permit),
      rb_workspace := Some \<lparr>wh_root = ''/work'', wh_workspace_id = WorkspaceId (''wrk_'' @ sample_hex),
        wh_manifest_sha256 = sample_digest\<rparr>,
      rb_toolchain := Some ''/usr/bin/cargo'', rb_backend := Some exec_backend\<rparr>"

definition exec_runtime :: "signed_state world supervised_runtime" where
  "exec_runtime = (case fst (builder_build sample_host exec_builder exec_world) of
     Inr rt \<Rightarrow> rt
   | Inl _ \<Rightarrow> \<lparr>sr_authority = \<lparr>ra_action_digest = [], ra_not_before = 0, ra_expires_at = 0,
                 ra_request_limit = BytesDenied\<rparr>,
              sr_guard = guard_new exec_ops exec_permit,
              sr_workspace = \<lparr>wh_root = [], wh_workspace_id = WorkspaceId [], wh_manifest_sha256 = sample_digest\<rparr>,
              sr_toolchain = [], sr_backend = exec_backend, sr_policy = exec_policy\<rparr>)"

lemma exec_run_outcomes:
  "map outcome_tag (fst exec_run) = [''generation'', ''reserved'', ''permit'']"
  by code_simp

lemma exec_builds: "is_ok (fst (builder_build sample_host exec_builder exec_world))"
  by code_simp

lemma exec_executes:
  "case runtime_execute sample_host exec_runtime sample_action False False exec_world of
     (r, reqs, w) \<Rightarrow> r = Ok (outcome_empty (Exited True (Some 0))) \<and> length reqs = 1"
  by code_simp

lemma exec_ledger: "case snapshot sample_host (rs_key exec_store) exec_world of
    None \<Rightarrow> False | Some s \<Rightarrow> ledger_wf s"
  by code_simp

definition denied_builder :: "signed_state world runtime_builder" where
  "denied_builder = exec_builder\<lparr>rb_backend := Some deny_all_confinement\<rparr>"

lemma denied_abandons: "is_ok (fst (abandon_use sample_host io_fine io_fine exec_store exec_permit exec_world))"
  by code_simp

definition colliding_host :: "signed_state host" where
  "colliding_host = sample_host\<lparr>hs_escape := quote_tilde\<rparr>"

lemma colliding_digests: "is_ok (action_digest colliding_host sample_action)
    \<and> action_digest colliding_host sample_action
        = action_digest colliding_host (CargoTest None None workspace_root)"
  by code_simp

end
