(* ===== verification/Runtime_Claims.thy ===== *)
theory Runtime_Claims
  imports Runtime_Samples Replay_Completion
begin

text \<open>
  The runtime against the ledger behind it.  The locale \<open>use_ledger\<close> is what the runtime needs
  of the store: acknowledged transitions settle the use, and settled uses stay settled; the
  runtime's lemmas are proved from it, and the durable replay store is an interpretation.
\<close>

subsection \<open>The ledger interface\<close>

locale use_ledger =
  fixes ops :: "'w durable_ops"
    and good :: "'w \<Rightarrow> bool"
    and settled :: "execution_permit \<Rightarrow> 'w \<Rightarrow> bool"
  assumes finish_good: "good w \<Longrightarrow> good (snd (do_finish ops p w))"
    and abandon_good: "good w \<Longrightarrow> good (snd (do_abandon ops p w))"
    and finish_keeps: "good w \<Longrightarrow> settled q w \<Longrightarrow> settled q (snd (do_finish ops p w))"
    and abandon_keeps: "good w \<Longrightarrow> settled q w \<Longrightarrow> settled q (snd (do_abandon ops p w))"
    and finish_settles: "good w \<Longrightarrow> do_finish ops p w = (Ok (), w') \<Longrightarrow> settled p w'"
    and abandon_settles: "good w \<Longrightarrow> do_abandon ops p w = (Ok (), w') \<Longrightarrow> settled p w'"
begin

definition guards :: "execution_permit \<Rightarrow> 'w durable_guard \<Rightarrow> bool" where
  "guards p g \<longleftrightarrow> g = \<lparr>dg_store = ops, dg_permit = Some p\<rparr>"

lemma guard_new_guards: "guards p (guard_new ops p)"
  by (simp add: guards_def guard_new_def)

lemma dropped:
  assumes "good w" "guards p g" "is_ok (fst (do_abandon ops p w))"
  shows "settled p (guard_drop g w)"
  using assms abandon_settles [of w p "snd (do_abandon ops p w)"]
  by (auto simp: guards_def guard_drop_def is_ok_iff) (metis prod.collapse)

lemma finished:
  assumes "good w" "guards p g" "guard_finish g w = (Ok u, w')"
  shows "settled p w'"
  using assms finish_settles [of w p]
  by (auto simp: guard_finish_def guard_terminal_def guards_def guard_drop_def
      split: prod.splits sum.splits)

lemma abandoned:
  assumes "good w" "guards p g" "guard_abandon g w = (Ok u, w')"
  shows "settled p w'"
  using assms abandon_settles [of w p]
  by (auto simp: guard_abandon_def guard_terminal_def guards_def guard_drop_def
      split: prod.splits sum.splits)

lemma executed:
  assumes "good w" "guards p (sr_guard rt)" "runtime_execute h rt a rv cn w = (r, reqs, w')"
    and "r \<noteq> Err DurableTransition"
  shows "settled p w'"
proof -
  have tr: "e = DurableTransition" if "guard_finish (sr_guard rt) w = (Inl e, w1)
      \<or> guard_abandon (sr_guard rt) w = (Inl e, w1)" for e w1
    using that assms(2)
    by (auto simp: guard_finish_def guard_abandon_def guard_terminal_def guards_def
        split: prod.splits sum.splits)
  show ?thesis
    using assms(3,4) tr finished [OF assms(1,2)] abandoned [OF assms(1,2)]
    by (auto simp: runtime_execute_def split: prod.splits sum.splits)
qed

lemma duplicate_abandons_both:
  assumes w: "good w" and g: "rb_guard b = Some g" "guards p g"
    and a: "do_abandon ops q w = (Ok (), w1)" "do_abandon ops p w1 = (Ok (), w2)"
    and eq: "with_execution_permit b q ops w = (r, w')"
  shows "r = Err DuplicateWitness \<and> settled p w' \<and> settled q w'"
proof -
  have w': "w' = w2" "r = Err DuplicateWitness"
    using g a eq
    by (auto simp: with_execution_permit_def Let_def drop_builder_def guard_drop_def guard_new_def
        guards_def)
  have g1: "good w1" using abandon_good [OF w, of q] a(1) by simp
  have "settled q w1" by (rule abandon_settles [OF w a(1)])
  then have "settled q w2" using abandon_keeps [OF g1, of q p] a(2) by simp
  moreover have "settled p w2" by (rule abandon_settles [OF g1 a(2)])
  ultimately show ?thesis using w' by simp
qed

end

subsection \<open>The replay store as the ledger\<close>

definition ledger_good :: "'b host \<Rightarrow> string \<Rightarrow> 'b world \<Rightarrow> bool" where
  "ledger_good h key w \<longleftrightarrow> host_ok h \<and> (\<exists>s. snapshot h key w = Some s \<and> ledger_wf s)"

definition use_settled :: "'b host \<Rightarrow> string \<Rightarrow> execution_permit \<Rightarrow> 'b world \<Rightarrow> bool" where
  "use_settled h key p w =
     (case snapshot h key w of
        None \<Rightarrow> False
      | Some s \<Rightarrow>
          (case map_of (ps_leases s) (lease_id_str (ep_lease_id p)) of
             None \<Rightarrow> False
           | Some l \<Rightarrow>
               (case map_of (pl_uses l) (ep_operation_sha256 p) of
                  None \<Rightarrow> False
                | Some u \<Rightarrow> \<not> is_live u)))"

lemma use_settled_iff: "use_settled h key p w \<longleftrightarrow>
    (\<exists>s l u. snapshot h key w = Some s \<and> map_of (ps_leases s) (lease_id_str (ep_lease_id p)) = Some l
      \<and> map_of (pl_uses l) (ep_operation_sha256 p) = Some u \<and> \<not> is_live u)"
  by (auto simp: use_settled_def split: option.splits)

lemma not_live_le: "use_le u v \<Longrightarrow> \<not> is_live u \<Longrightarrow> v = u"
  by (auto simp: use_le_def)

lemma settled_forward:
  assumes "ledger_good h key w" "world_le h key w w'"
  shows "ledger_good h key w'" and "use_settled h key p w \<Longrightarrow> use_settled h key p w'"
proof -
  obtain s where s: "snapshot h key w = Some s" "ledger_wf s" "host_ok h"
    using assms(1) by (auto simp: ledger_good_def)
  obtain t where t: "snapshot h key w' = Some t" "ledger_wf t" "ledger_le s t"
    by (rule world_le_snapshot [OF assms(2) s(1,2)])
  show "ledger_good h key w'" using t s(3) by (auto simp: ledger_good_def)
  assume "use_settled h key p w"
  then obtain l u where l: "map_of (ps_leases s) (lease_id_str (ep_lease_id p)) = Some l"
    "map_of (pl_uses l) (ep_operation_sha256 p) = Some u" "\<not> is_live u"
    using s(1) by (auto simp: use_settled_iff)
  obtain m where m: "map_of (ps_leases t) (lease_id_str (ep_lease_id p)) = Some m" "lease_le l m"
    using ledger_leD(6) [OF t(3) l(1)] by blast
  obtain v where "map_of (pl_uses m) (ep_operation_sha256 p) = Some v" "use_le u v"
    using lease_leD(4) [OF m(2) l(2)] by blast
  then show "use_settled h key p w'" using t(1) m(1) l(3) not_live_le by (auto simp: use_settled_iff)
qed

lemma commit_settles:
  assumes h: "host_ok h" and eq: "commit_completion h io st c w = (Ok (), w')"
    and c: "cw_lease_id c = ep_lease_id p" "cw_operation_sha256 c = ep_operation_sha256 p"
  shows "use_settled h (rs_key st) p w'"
proof -
  have "with_locked_state h io st (commit_completion_tx c) w = (Ok (), w')"
    using eq by (simp add: commit_completion_def split: if_splits)
  from active_transaction_Ok [OF h this] obtain s s' ch where
    s: "snapshot h (rs_key st) w = Some s" "commit_completion_tx c s = Ok ((), s', ch)"
      "if ch then snapshot h (rs_key st) w' = Some s' else w' = w" by metis
  have "snapshot h (rs_key st) w' = Some s'"
    using s commit_completion.changed_iff [OF s(2)] by (cases ch) auto
  then show ?thesis
    using commit_completion_result [OF s(2)] c by (auto simp: use_settled_iff)
qed

lemma begin_completion_result:
  assumes "begin_completion_tx p d disp s = Ok (r, s', c)"
  shows "case r of
      CompletionNew w \<Rightarrow> cw_lease_id w = ep_lease_id p \<and> cw_operation_sha256 w = ep_operation_sha256 p
    | CompletionResumed w \<Rightarrow> cw_lease_id w = ep_lease_id p \<and> cw_operation_sha256 w = ep_operation_sha256 p
    | CompletionExisting _ \<Rightarrow> s' = s \<and> \<not> c \<and>
        (\<exists>l u. map_of (ps_leases s) (lease_id_str (ep_lease_id p)) = Some l
           \<and> map_of (pl_uses l) (ep_operation_sha256 p) = Some u \<and> \<not> is_live u)"
proof -
  obtain l u where l: "map_of (ps_leases s) (lease_id_str (ep_lease_id p)) = Some l"
    and u: "map_of (pl_uses l) (ep_operation_sha256 p) = Some u"
    using assms by (auto simp: begin_completion_tx_def Let_def res_simps split: if_splits)
  note tx = assms [unfolded begin_completion_tx_def Let_def l u ok_or.simps and_then.simps]
  show ?thesis
    by (cases u) (use tx l u in \<open>auto simp: res_simps split: if_splits\<close>)
qed

lemma terminalize_settles:
  assumes h: "host_ok h" and eq: "legacy_terminalize h io io' st p disp w = (Ok (), w')"
  shows "use_settled h (rs_key st) p w'"
proof -
  obtain d where d: "legacy_terminal_digest h (rs_store_id st) p disp = Ok d"
    using eq by (auto simp: legacy_terminalize_def split: sum.splits)
  obtain r w1 where b: "begin_completion h io st p d disp w = (r, w1)" by fastforce
  obtain res where r: "r = Ok res"
    using eq d b by (cases r) (auto simp: legacy_terminalize_def split: replay_error.splits)
  have "with_locked_state h io st (begin_completion_tx p d disp) w = (Ok res, w1)"
    using b r by (simp add: begin_completion_def split: sum.splits)
  from active_transaction_Ok [OF h this] obtain s s' c where
    s: "snapshot h (rs_key st) w = Some s" "begin_completion_tx p d disp s = Ok (res, s', c)"
      "if c then snapshot h (rs_key st) w1 = Some s' else w1 = w" by metis
  note res = begin_completion_result [OF s(2)]
  show ?thesis
  proof (cases res)
    case (CompletionNew cw)
    then have "commit_completion h io' st cw w1 = (Ok (), w')"
      using eq d b r by (simp add: legacy_terminalize_def)
    then show ?thesis using commit_settles [OF h] res CompletionNew by simp
  next
    case (CompletionResumed cw)
    then have "commit_completion h io' st cw w1 = (Ok (), w')"
      using eq d b r by (simp add: legacy_terminalize_def)
    then show ?thesis using commit_settles [OF h] res CompletionResumed by simp
  next
    case (CompletionExisting x)
    then have "w' = w1" using eq d b r by (simp add: legacy_terminalize_def)
    then show ?thesis using res CompletionExisting s by (auto simp: use_settled_iff)
  qed
qed

interpretation replay: use_ledger "store_ops h io io' st" "ledger_good h (rs_key st)"
  "use_settled h (rs_key st)" for h io io' st
proof unfold_locales
  fix w p q w'
  assume g: "ledger_good h (rs_key st) w"
  then have h: "host_ok h" by (simp add: ledger_good_def)
  note f = terminalize_forward [OF h, THEN conjunct1]
  note defs = store_ops_def finish_use_def abandon_use_def
  show "ledger_good h (rs_key st) (snd (do_finish (store_ops h io io' st) p w))"
    "ledger_good h (rs_key st) (snd (do_abandon (store_ops h io io' st) p w))"
    using settled_forward(1) [OF g f] by (simp_all add: defs)
  show "do_finish (store_ops h io io' st) p w = (Ok (), w') \<Longrightarrow> use_settled h (rs_key st) p w'"
    "do_abandon (store_ops h io io' st) p w = (Ok (), w') \<Longrightarrow> use_settled h (rs_key st) p w'"
    using terminalize_settles [OF h] by (simp_all add: defs)
  assume "use_settled h (rs_key st) q w"
  then show "use_settled h (rs_key st) q (snd (do_finish (store_ops h io io' st) p w))"
    "use_settled h (rs_key st) q (snd (do_abandon (store_ops h io io' st) p w))"
    using settled_forward(2) [OF g f] by (simp_all add: defs)
qed

subsection \<open>What was checked before an execution\<close>

lemma policy_validate_Ok: "policy_validate p = Ok u \<longleftrightarrow>
    po_version p = 1 \<and> 0 < po_timeout_ms p \<and> po_timeout_ms p \<le> MAX_DURATION_MS
    \<and> 0 < po_output_bytes p \<and> po_output_bytes p \<le> MAX_OUTPUT
    \<and> 0 < po_memory_bytes p \<and> po_memory_bytes p \<le> MAX_MEMORY
    \<and> 0 < po_file_bytes p \<and> po_file_bytes p \<le> MAX_FILE
    \<and> 0 < po_open_files p \<and> po_open_files p \<le> MAX_FILES
    \<and> 0 < po_processes p \<and> po_processes p \<le> MAX_PROCESSES"
  by (auto simp: policy_validate_def not_less word_neq_0_conv split: if_splits)

lemma build_checkedD:
  assumes "build_checked h b = Ok rt" and "rb_guard b = Some g" and "dg_permit g = Some p"
  obtains ws limit policy where
    "sr_guard rt = g" "rb_workspace b = Some ws" "sr_workspace rt = ws" "sr_policy rt = policy"
    "rb_backend b = Some (sr_backend rt)" "cb_ensure_available (sr_backend rt) = Ok ()"
    "rb_toolchain b = Some (sr_toolchain rt)"
    "\<not> ac_read_only (ep_constraints p)" "network_denied (ac_network (ep_constraints p))"
    "spend_is_forbidden (ac_spend (ep_constraints p))"
    "uc_max_response_bytes (ac_uses (ep_constraints p)) = BytesBounded limit"
    "policy = (rb_policy b)\<lparr>po_output_bytes := min (po_output_bytes (rb_policy b)) limit\<rparr>"
    "policy_validate policy = Ok ()" "po_output_bytes policy \<le> limit"
    "ep_operation p = RunEngineeringCheck" "ep_workspace_id p = wh_workspace_id ws"
    "ep_workspace_manifest_sha256 p = wh_manifest_sha256 ws"
    "policy_digest h policy = Ok (ep_policy_sha256 p)"
    "sr_authority rt = \<lparr>ra_action_digest = digest_str (ep_canonical_args_sha256 p),
        ra_not_before = tc_not_before (ac_time (ep_constraints p)),
        ra_expires_at = tc_expires_at (ac_time (ep_constraints p)),
        ra_request_limit = uc_max_request_bytes (ac_uses (ep_constraints p))\<rparr>"
proof -
  have ok: "policy_validate (rb_policy b) = Ok ()"
    using assms(1) by (auto simp: build_checked_def res_simps)
  obtain limit where limit: "uc_max_response_bytes (ac_uses (ep_constraints p)) = BytesBounded limit"
      "0 < limit"
    using assms by (auto simp: build_checked_def res_simps Let_def split: if_splits byte_limit.splits)
  let ?policy = "(rb_policy b)\<lparr>po_output_bytes := min (po_output_bytes (rb_policy b)) limit\<rparr>"
  have "policy_validate ?policy = Ok ()" using ok limit(2) by (auto simp: policy_validate_Ok min_def)
  moreover have "po_output_bytes ?policy \<le> limit" by simp
  ultimately show thesis
    using assms limit that [of _ ?policy limit]
    by (auto simp: build_checked_def res_simps Let_def split: if_splits)
qed

lemma execute_requests:
  assumes "runtime_execute h rt a rv cn w = (r, reqs, w')" and "q \<in> set reqs"
  obtains s limit where "reqs = [q]" "\<not> rv" "\<not> cn"
    "q = \<lparr>br_executable = sr_toolchain rt, br_argv = action_argv a, br_cwd = action_cwd a,
          br_workspace = sr_workspace rt, br_policy = sr_policy rt,
          br_not_before = ra_not_before (sr_authority rt),
          br_expires_at = ra_expires_at (sr_authority rt)\<rparr>"
    "action_digest h a = Ok (ra_action_digest (sr_authority rt))"
    "canonical_json_v1 (hs_escape h) action_value a = Ok s"
    "ra_request_limit (sr_authority rt) = BytesBounded limit" "length s \<le> unat limit"
proof -
  have "reqs = snd (execute_inner h rt a rv cn)"
    using assms(1) by (auto simp: runtime_execute_def split: prod.splits sum.splits)
  with assms(2) show thesis
    by (cases "ra_request_limit (sr_authority rt)")
      (auto simp: execute_inner_def Let_def res_simps split: sum.splits if_splits intro: that)
qed

lemma action_value_wf: "json_wf (action_value a)"
  by (cases a) (auto simp: optional_field_def split: option.splits)

definition action_fields :: "engineering_action \<Rightarrow> (string \<times> json) list" where
  "action_fields a = (case action_value a of JObject es \<Rightarrow> es | _ \<Rightarrow> [])"

lemma action_fields_value: "action_value a = JObject (action_fields a)"
  by (cases a) (auto simp: action_fields_def)

lemma cwd_str_inj: "cwd_str a = cwd_str b \<longleftrightarrow> a = b"
  by (cases a; cases b) simp

lemma some_the: "Some (the x) = x \<longleftrightarrow> x \<noteq> None"
  by (cases x) auto

text \<open>The fields of an action determine it, in whatever order they are written.\<close>

lemma action_fields_inj:
  assumes "\<And>k t. (k, JString t) \<in> set (action_fields a) \<longleftrightarrow> (k, JString t) \<in> set (action_fields b)"
  shows "a = b"
proof -
  note f = assms [of "''action''"] assms [of "''cwd''"] assms [of "''package''"] assms [of "''filter''"]
  note tag = f(1) [of "''cargo_check''"] f(1) [of "''cargo_test''"] f(1) [of "''cargo_clippy''"]
    f(1) [of "''cargo_fmt_check''"]
  note args = f(2) [of "cwd_str (action_cwd a)"]
    f(3) [of "package_str (the (action_package a))"] f(3) [of "package_str (the (action_package b))"]
    f(4) [of "filter_str (the (action_filter a))"] f(4) [of "filter_str (the (action_filter b))"]
  show ?thesis
    using tag args
    by (cases a; cases b)
      (auto simp: action_fields_def optional_field_def cwd_str_inj some_the split: option.splits)
qed

lemma digest_identifies:
  assumes "self_delimiting (hs_escape h)"
    and "canonical_json_v1 (hs_escape h) action_value a = Ok s"
    and "canonical_json_v1 (hs_escape h) action_value b = Ok s"
  shows "a = b"
proof (rule action_fields_inj)
  fix k t
  have "normal_form (JObject (action_fields a)) = normal_form (JObject (action_fields b))"
    using canonical_text_injective [OF assms(1) action_value_wf action_value_wf
        assms(2,3) [unfolded canonical_json_v1_def]]
    by (simp only: action_fields_value)
  then show "(k, JString t) \<in> set (action_fields a) \<longleftrightarrow> (k, JString t) \<in> set (action_fields b)"
    by (rule normal_form_field)
qed

subsection \<open>Properties\<close>

text \<open>
  C6. The backend is asked at most once and only for what the permit authorises: the action has
  the permit's argument digest, no revocation or cancellation was seen, the permit is for this
  operation, workspace and policy, forbids network and spending, and the limits handed to the
  backend are valid and no wider than the permit's.
\<close>

theorem backend_gets_only_authorized:
  assumes "builder_build h b w0 = (Ok rt, w1)" and "rb_guard b = Some g" and "dg_permit g = Some p"
    and "runtime_execute h rt a rv cn w2 = (r, reqs, w3)" and "q \<in> set reqs"
  shows "reqs = [q] \<and> \<not> rv \<and> \<not> cn
    \<and> br_argv q = action_argv a \<and> br_cwd q = action_cwd a
    \<and> action_digest h a = Ok (digest_str (ep_canonical_args_sha256 p))
    \<and> ep_operation p = RunEngineeringCheck
    \<and> ep_workspace_id p = wh_workspace_id (br_workspace q)
    \<and> ep_workspace_manifest_sha256 p = wh_manifest_sha256 (br_workspace q)
    \<and> policy_digest h (br_policy q) = Ok (ep_policy_sha256 p)
    \<and> policy_validate (br_policy q) = Ok ()
    \<and> \<not> ac_read_only (ep_constraints p) \<and> network_denied (ac_network (ep_constraints p))
    \<and> spend_is_forbidden (ac_spend (ep_constraints p))
    \<and> (\<exists>limit. uc_max_response_bytes (ac_uses (ep_constraints p)) = BytesBounded limit
         \<and> po_output_bytes (br_policy q) \<le> limit)
    \<and> (\<exists>limit s. uc_max_request_bytes (ac_uses (ep_constraints p)) = BytesBounded limit
         \<and> canonical_json_v1 (hs_escape h) action_value a = Ok s \<and> length s \<le> unat limit)
    \<and> br_not_before q = tc_not_before (ac_time (ep_constraints p))
    \<and> br_expires_at q = tc_expires_at (ac_time (ep_constraints p))"
proof -
  have "build_checked h b = Ok rt" using assms(1) by (auto simp: builder_build_def split: sum.splits)
  from build_checkedD [OF this assms(2,3)] obtain ws limit policy where
    b: "sr_workspace rt = ws" "sr_policy rt = policy" "\<not> ac_read_only (ep_constraints p)"
      "network_denied (ac_network (ep_constraints p))" "spend_is_forbidden (ac_spend (ep_constraints p))"
      "uc_max_response_bytes (ac_uses (ep_constraints p)) = BytesBounded limit"
      "policy_validate policy = Ok ()" "po_output_bytes policy \<le> limit"
      "ep_operation p = RunEngineeringCheck" "ep_workspace_id p = wh_workspace_id ws"
      "ep_workspace_manifest_sha256 p = wh_manifest_sha256 ws"
      "policy_digest h policy = Ok (ep_policy_sha256 p)"
      "sr_authority rt = \<lparr>ra_action_digest = digest_str (ep_canonical_args_sha256 p),
        ra_not_before = tc_not_before (ac_time (ep_constraints p)),
        ra_expires_at = tc_expires_at (ac_time (ep_constraints p)),
        ra_request_limit = uc_max_request_bytes (ac_uses (ep_constraints p))\<rparr>"
    by metis
  from execute_requests [OF assms(4,5)] obtain s limit' where
    "reqs = [q]" "\<not> rv" "\<not> cn"
    "q = \<lparr>br_executable = sr_toolchain rt, br_argv = action_argv a, br_cwd = action_cwd a,
          br_workspace = sr_workspace rt, br_policy = sr_policy rt,
          br_not_before = ra_not_before (sr_authority rt),
          br_expires_at = ra_expires_at (sr_authority rt)\<rparr>"
    "action_digest h a = Ok (ra_action_digest (sr_authority rt))"
    "canonical_json_v1 (hs_escape h) action_value a = Ok s"
    "ra_request_limit (sr_authority rt) = BytesBounded limit'" "length s \<le> unat limit'"
    by metis
  with b show ?thesis by simp
qed

lemma exec_runtime_built: "builder_build sample_host exec_builder exec_world = (Ok exec_runtime, exec_world)"
  using exec_builds by (auto simp: exec_runtime_def builder_build_def split: sum.splits)

lemma exec_executed: "\<exists>q w. runtime_execute sample_host exec_runtime sample_action False False exec_world
    = (Ok (outcome_empty (Exited True (Some 0))), [q], w)"
  using exec_executes by (auto simp: length_Suc_conv split: prod.splits)

theorem backend_gets_only_authorized_witness:
  "\<exists>q w. runtime_execute sample_host exec_runtime sample_action False False exec_world
      = (Ok (outcome_empty (Exited True (Some 0))), [q], w)
    \<and> br_argv q = action_argv sample_action
    \<and> action_digest sample_host sample_action = Ok (digest_str (ep_canonical_args_sha256 exec_permit))
    \<and> policy_validate (br_policy q) = Ok ()"
proof -
  obtain q w where run: "runtime_execute sample_host exec_runtime sample_action False False exec_world
      = (Ok (outcome_empty (Exited True (Some 0))), [q], w)"
    using exec_executed by blast
  have g: "rb_guard exec_builder = Some (guard_new exec_ops exec_permit)"
    "dg_permit (guard_new exec_ops exec_permit) = Some exec_permit"
    by (simp_all add: exec_builder_def guard_new_def)
  have "q \<in> set [q]" by simp
  from backend_gets_only_authorized [OF exec_runtime_built g run this] run show ?thesis by blast
qed

text \<open>
  A digest is for one action only, unless SHA-256 collides: two actions with the same digest
  are equal, or their canonical texts are different strings with the same hash.
\<close>

theorem action_digest_binding:
  assumes "self_delimiting (hs_escape h)" and "\<forall>x. hs_hex_decode h (hs_hex_encode h x) = Some x"
    and "action_digest h a = Ok d" and "action_digest h b = Ok d"
  shows "a = b \<or> (\<exists>s t. canonical_json_v1 (hs_escape h) action_value a = Ok s
    \<and> canonical_json_v1 (hs_escape h) action_value b = Ok t \<and> s \<noteq> t \<and> hs_sha256 h s = hs_sha256 h t)"
proof -
  obtain s t where st: "canonical_json_v1 (hs_escape h) action_value a = Ok s"
    "canonical_json_v1 (hs_escape h) action_value b = Ok t" "sha256_hex h s = sha256_hex h t"
    using assms(3,4) by (auto simp: action_digest_def res_simps)
  have "hs_sha256 h s = hs_sha256 h t"
    using assms(2) st(3) by (metis sha256_hex_def option.inject)
  then show ?thesis using digest_identifies [OF assms(1) st(1)] st by blast
qed

theorem action_digest_binding_witness:
  "sample_action \<noteq> CargoTest None None workspace_root
    \<and> (\<exists>s t. canonical_json_v1 quote_tilde action_value sample_action = Ok s
      \<and> canonical_json_v1 quote_tilde action_value (CargoTest None None workspace_root) = Ok t
      \<and> s \<noteq> t \<and> hs_sha256 colliding_host s = hs_sha256 colliding_host t)"
proof -
  have e: "hs_escape colliding_host = quote_tilde" by (simp add: colliding_host_def)
  have h: "self_delimiting (hs_escape colliding_host)"
    "\<forall>x. hs_hex_decode colliding_host (hs_hex_encode colliding_host x) = Some x"
    using quote_tilde_delimiting sample_hex_round_trip
    by (simp_all add: colliding_host_def sample_host_def)
  obtain d where d: "action_digest colliding_host sample_action = Ok d"
    "action_digest colliding_host (CargoTest None None workspace_root) = Ok d"
    using colliding_digests unfolding is_ok_iff by metis
  have "sample_action \<noteq> CargoTest None None workspace_root" by (simp add: sample_action_def)
  with action_digest_binding [OF h d] show ?thesis unfolding e by blast
qed

text \<open>
  C7. An execution uses its permit up: whatever happened, unless the terminal transition itself
  could not be recorded, the store then holds a terminal record for the operation.
\<close>

theorem executed_use_is_terminal:
  assumes "host_ok h" and "snapshot h (rs_key st) w = Some s" and "ledger_wf s"
    and "sr_guard rt = guard_new (store_ops h io io' st) p"
    and "runtime_execute hh rt a rv cn w = (r, reqs, w')" and "r \<noteq> Err DurableTransition"
  shows "\<exists>s' l u. snapshot h (rs_key st) w' = Some s'
    \<and> map_of (ps_leases s') (lease_id_str (ep_lease_id p)) = Some l
    \<and> map_of (pl_uses l) (ep_operation_sha256 p) = Some u \<and> \<not> is_live u"
proof -
  have "ledger_good h (rs_key st) w" using assms(1-3) by (auto simp: ledger_good_def)
  from replay.executed [OF this _ assms(5,6)] have "use_settled h (rs_key st) p w'"
    using replay.guard_new_guards assms(4) by metis
  then show ?thesis by (auto simp: use_settled_iff)
qed

lemma exec_snapshot: "\<exists>s. snapshot sample_host (rs_key exec_store) exec_world = Some s \<and> ledger_wf s"
  using exec_ledger by (auto split: option.splits)

theorem executed_use_is_terminal_witness:
  "\<exists>q w s l u. runtime_execute sample_host exec_runtime sample_action False False exec_world
      = (Ok (outcome_empty (Exited True (Some 0))), [q], w)
    \<and> snapshot sample_host (rs_key exec_store) w = Some s
    \<and> map_of (ps_leases s) (lease_id_str (ep_lease_id exec_permit)) = Some l
    \<and> map_of (pl_uses l) (ep_operation_sha256 exec_permit) = Some u \<and> \<not> is_live u"
proof -
  obtain s where s: "snapshot sample_host (rs_key exec_store) exec_world = Some s" "ledger_wf s"
    using exec_snapshot by blast
  obtain q w where run: "runtime_execute sample_host exec_runtime sample_action False False exec_world
      = (Ok (outcome_empty (Exited True (Some 0))), [q], w)"
    using exec_executed by blast
  have "build_checked sample_host exec_builder = Ok exec_runtime"
    using exec_runtime_built by (simp add: builder_build_def split: sum.splits)
  moreover have "rb_guard exec_builder = Some (guard_new exec_ops exec_permit)"
    "dg_permit (guard_new exec_ops exec_permit) = Some exec_permit"
    by (simp_all add: exec_builder_def guard_new_def)
  ultimately have "sr_guard exec_runtime = guard_new exec_ops exec_permit"
    by (rule build_checkedD)
  then have g: "sr_guard exec_runtime = guard_new (store_ops sample_host io_fine io_fine exec_store) exec_permit"
    by (simp only: exec_ops_def)
  have "Ok (outcome_empty (Exited True (Some 0))) \<noteq> Err DurableTransition" by simp
  from executed_use_is_terminal [OF sample_host_ok s g run this] run show ?thesis by blast
qed

text \<open>
  A build that is refused gives the use up: the builder's guard abandons it, and once the
  store acknowledged that, the operation has a terminal record.  The shipped backend, which
  denies everything, never lets a build succeed.
\<close>

theorem refused_build_abandons:
  assumes "host_ok h" and "snapshot h (rs_key st) w = Some s" and "ledger_wf s"
    and "rb_guard b = Some (guard_new (store_ops h io io' st) p)"
    and "rb_backend b = Some deny_all_confinement" and "builder_build hh b w = (r, w')"
  shows "(\<exists>e. r = Err e)
    \<and> (is_ok (fst (abandon_use h io io' st p w)) \<longrightarrow> (\<exists>s' l u. snapshot h (rs_key st) w' = Some s'
      \<and> map_of (ps_leases s') (lease_id_str (ep_lease_id p)) = Some l
      \<and> map_of (pl_uses l) (ep_operation_sha256 p) = Some u \<and> \<not> is_live u))"
proof -
  obtain e where e: "build_checked hh b = Err e"
  proof (cases "build_checked hh b")
    case (Inr rt)
    have "dg_permit (guard_new (store_ops h io io' st) p) = Some p" by (simp add: guard_new_def)
    from build_checkedD [OF Inr assms(4) this] have
      "rb_backend b = Some (sr_backend rt)" "cb_ensure_available (sr_backend rt) = Ok ()" by metis+
    then show thesis using assms(5) by (auto simp: deny_all_confinement_def dest: sym)
  qed
  then have w': "w' = guard_drop (guard_new (store_ops h io io' st) p) w" "r = Err e"
    using assms(4,6) by (auto simp: builder_build_def drop_builder_def)
  have "use_settled h (rs_key st) p w'" if "is_ok (fst (abandon_use h io io' st p w))"
  proof -
    have "is_ok (fst (do_abandon (store_ops h io io' st) p w))" using that by (simp add: store_ops_def)
    moreover have "ledger_good h (rs_key st) w" using assms(1-3) by (auto simp: ledger_good_def)
    ultimately show ?thesis using replay.dropped [OF _ replay.guard_new_guards] w'(1) by blast
  qed
  then show ?thesis using w'(2) by (simp add: use_settled_iff)
qed

theorem refused_build_abandons_witness:
  "\<exists>e w s l u. builder_build sample_host denied_builder exec_world = (Err e, w)
    \<and> snapshot sample_host (rs_key exec_store) w = Some s
    \<and> map_of (ps_leases s) (lease_id_str (ep_lease_id exec_permit)) = Some l
    \<and> map_of (pl_uses l) (ep_operation_sha256 exec_permit) = Some u \<and> \<not> is_live u"
proof -
  obtain s where s: "snapshot sample_host (rs_key exec_store) exec_world = Some s" "ledger_wf s"
    using exec_snapshot by blast
  have b: "rb_guard denied_builder
      = Some (guard_new (store_ops sample_host io_fine io_fine exec_store) exec_permit)"
    "rb_backend denied_builder = Some deny_all_confinement"
    by (simp_all add: denied_builder_def exec_builder_def exec_ops_def)
  obtain r w where run: "builder_build sample_host denied_builder exec_world = (r, w)" by fastforce
  from refused_build_abandons [OF sample_host_ok s b run] denied_abandons run show ?thesis by blast
qed

end
