(* ===== verification/Rate_Limiter.thy ===== *)
theory Rate_Limiter
  imports Prelude
begin

text \<open>
  \<open>phantom-proxy/src/rate_limiter.rs\<close>: sliding windows per secret and over all secrets, and the
  anomaly classification.  An instant is the number of nanoseconds the monotonic clock shows
  (a natural number) and an argument of \<open>record\<close>; \<open>duration_since\<close> saturates at zero.  Counters
  and limits are \<open>u64\<close>, with the products the release build computes wrapping.
\<close>

subsection \<open>Classification\<close>

datatype anomaly_class = Normal | Caution | Alert

fun class_score :: "anomaly_class \<Rightarrow> u8" where
  "class_score Normal = 0"
| "class_score Caution = 1"
| "class_score Alert = 2"

fun class_str :: "anomaly_class \<Rightarrow> string" where
  "class_str Normal = ''normal''"
| "class_str Caution = ''caution''"
| "class_str Alert = ''alert''"

record rate_decision =
  rd_class :: anomaly_class
  rd_per_secret_10s :: u64
  rd_total_10s :: u64
  rd_per_secret_60s :: u64
  rd_anomaly_score :: u8

definition DEFAULT_BURST_TOTAL_10S :: u64 where "DEFAULT_BURST_TOTAL_10S = 100"

record rate_limit_config =
  rl_per_secret_rps :: u64
  rl_burst_total_10s :: u64

definition config_default :: rate_limit_config where
  "config_default =
     \<lparr>rl_per_secret_rps = 5, rl_burst_total_10s = DEFAULT_BURST_TOTAL_10S\<rparr>"

text \<open>\<open>str::parse::<u64>\<close>: an optional plus sign, then decimal digits that fit.\<close>

fun digits_value :: "string \<Rightarrow> int \<Rightarrow> int option" where
  "digits_value [] acc = Some acc"
| "digits_value (c # s) acc =
     (if is_ascii_digit c then digits_value s (acc * 10 + (of_char c - 48)) else None)"

definition parse_u64 :: "string \<Rightarrow> u64 option" where
  "parse_u64 s =
     (let digits = (if s \<noteq> [] \<and> hd s = CHR ''+'' then tl s else s) in
      if digits = [] then None
      else (case digits_value digits 0 of
        None \<Rightarrow> None
      | Some v \<Rightarrow> if v < 18446744073709551616 then Some (of_int v) else None))"

definition config_from_vars :: "string option \<Rightarrow> string option \<Rightarrow> rate_limit_config" where
  "config_from_vars per_secret burst =
     \<lparr>rl_per_secret_rps =
        (case Option.bind per_secret parse_u64 of None \<Rightarrow> 5 | Some v \<Rightarrow> v),
      rl_burst_total_10s =
        (case Option.bind burst parse_u64 of None \<Rightarrow> DEFAULT_BURST_TOTAL_10S | Some v \<Rightarrow> v)\<rparr>"

definition per_secret_10s_limit :: "rate_limit_config \<Rightarrow> u64" where
  "per_secret_10s_limit c = rl_per_secret_rps c * 10"

subsection \<open>Sliding windows\<close>

definition duration_since :: "int \<Rightarrow> int \<Rightarrow> int" where
  "duration_since now earlier = max 0 (now - earlier)"

record sliding_window =
  sw_timestamps :: "int list"
  sw_window :: int

definition window_new :: "int \<Rightarrow> sliding_window" where
  "window_new window = \<lparr>sw_timestamps = [], sw_window = window\<rparr>"

fun evict_front :: "int \<Rightarrow> int \<Rightarrow> int list \<Rightarrow> int list" where
  "evict_front now window [] = []"
| "evict_front now window (front # rest) =
     (if window < duration_since now front then evict_front now window rest else front # rest)"

definition window_evict :: "int \<Rightarrow> sliding_window \<Rightarrow> sliding_window" where
  "window_evict now w = w\<lparr>sw_timestamps := evict_front now (sw_window w) (sw_timestamps w)\<rparr>"

definition record_and_count :: "int \<Rightarrow> sliding_window \<Rightarrow> u64 \<times> sliding_window" where
  "record_and_count now w =
     (let w' = window_evict now (w\<lparr>sw_timestamps := sw_timestamps w @ [now]\<rparr>)
      in (of_nat (length (sw_timestamps w')), w'))"

subsection \<open>The limiter\<close>

definition SECOND :: int where "SECOND = 1000000000"

record secret_counters =
  sc_window_60s :: sliding_window
  sc_window_10s :: sliding_window

definition counters_new :: secret_counters where
  "counters_new =
     \<lparr>sc_window_60s = window_new (60 * SECOND), sc_window_10s = window_new (10 * SECOND)\<rparr>"

record rate_limiter =
  li_per_secret :: "string \<Rightarrow> secret_counters option"
  li_global_10s :: sliding_window
  li_config :: rate_limit_config

definition limiter_new :: "rate_limit_config \<Rightarrow> rate_limiter" where
  "limiter_new config =
     \<lparr>li_per_secret = Map.empty, li_global_10s = window_new (10 * SECOND), li_config = config\<rparr>"

definition classify :: "rate_limit_config \<Rightarrow> u64 \<Rightarrow> u64 \<Rightarrow> anomaly_class" where
  "classify config per_secret_10s total_10s =
     (let limit = per_secret_10s_limit config; burst = rl_burst_total_10s config in
      if limit < per_secret_10s \<or> burst < total_10s then Alert
      else if limit \<le> per_secret_10s * 2 \<or> burst * 3 \<le> total_10s * 4 then Caution
      else Normal)"

text \<open>\<open>n.saturating_mul(100).checked_div(limit).unwrap_or(0).min(100)\<close>\<close>

definition percent_of :: "u64 \<Rightarrow> u64 \<Rightarrow> u64" where
  "percent_of n limit = min (case checked_div (saturating_mul n 100) limit of None \<Rightarrow> 0 | Some p \<Rightarrow> p) 100"

definition anomaly_score :: "rate_limit_config \<Rightarrow> u64 \<Rightarrow> u64 \<Rightarrow> u8" where
  "anomaly_score config per_secret_10s total_10s =
     ucast (max (percent_of per_secret_10s (per_secret_10s_limit config))
                (percent_of total_10s (rl_burst_total_10s config)))"

definition limiter_record :: "int \<Rightarrow> string \<Rightarrow> rate_limiter \<Rightarrow> rate_decision \<times> rate_limiter" where
  "limiter_record now secret_key l =
     (let counters = (case li_per_secret l secret_key of None \<Rightarrow> counters_new | Some c \<Rightarrow> c);
          (per_secret_60s, w60) = record_and_count now (sc_window_60s counters);
          (per_secret_10s, w10) = record_and_count now (sc_window_10s counters);
          (total_10s, global) = record_and_count now (li_global_10s l)
      in (\<lparr>rd_class = classify (li_config l) per_secret_10s total_10s,
           rd_per_secret_10s = per_secret_10s, rd_total_10s = total_10s,
           rd_per_secret_60s = per_secret_60s,
           rd_anomaly_score = anomaly_score (li_config l) per_secret_10s total_10s\<rparr>,
          l\<lparr>li_per_secret := (li_per_secret l)
               (secret_key \<mapsto> \<lparr>sc_window_60s = w60, sc_window_10s = w10\<rparr>),
            li_global_10s := global\<rparr>))"

fun limiter_run :: "(int \<times> string) list \<Rightarrow> rate_limiter \<Rightarrow> rate_decision list \<times> rate_limiter" where
  "limiter_run [] l = ([], l)"
| "limiter_run ((now, key) # hits) l =
     (let (d, l') = limiter_record now key l; (ds, l'') = limiter_run hits l' in (d # ds, l''))"

end
