(* ===== verification/Rate_Claims.thy ===== *)
theory Rate_Claims
  imports Rate_Limiter
begin

text \<open>
  The rate limiter against its specification: the history of all hits.  A window represents a
  history when it holds exactly the hits the window still covers; every count is then a count
  over the history, and the class and score are read off those counts.
\<close>

subsection \<open>Windows represent histories\<close>

definition recent :: "int \<Rightarrow> int \<Rightarrow> int list \<Rightarrow> int list" where
  "recent now d hits = filter (\<lambda>t. now - t \<le> d) hits"

definition represents :: "sliding_window \<Rightarrow> int \<Rightarrow> int list \<Rightarrow> bool" where
  "represents w d hits \<longleftrightarrow> sw_window w = d \<and> sorted hits
     \<and> sw_timestamps w = (if hits = [] then [] else recent (last hits) d hits)"

lemma window_new_represents: "represents (window_new d) d []"
  by (simp add: represents_def window_new_def)

lemma evict_front_recent:
  assumes "sorted ts" and "0 \<le> d"
  shows "evict_front now d ts = recent now d ts"
  using assms
proof (induction ts)
  case (Cons t ts)
  show ?case
  proof (cases "d < now - t")
    case True
    then show ?thesis using Cons by (simp add: recent_def duration_since_def)
  next
    case False
    then have "\<forall>u \<in> set ts. now - u \<le> d" using Cons.prems by force
    then show ?thesis using False Cons.prems by (simp add: recent_def duration_since_def max_def not_less)
  qed
qed (simp add: recent_def)

lemma recent_recent: "now \<le> now' \<Longrightarrow> recent now' d (recent now d hits) = recent now' d hits"
  by (auto simp: recent_def intro!: filter_cong)

lemma record_represents:
  assumes rep: "represents w d hits" and d: "0 \<le> d" and now: "\<forall>t \<in> set hits. t \<le> now"
    and eq: "record_and_count now w = (n, w')"
  shows "represents w' d (hits @ [now]) \<and> n = of_nat (length (recent now d (hits @ [now])))"
proof -
  let ?ts = "sw_timestamps w"
  have ts: "recent now d ?ts = recent now d hits"
    using rep now recent_recent [of "last hits" now d hits] by (auto simp: represents_def)
  have "sorted (?ts @ [now])"
    using rep now by (auto simp: represents_def recent_def sorted_append sorted_wrt_filter)
  then have "evict_front now d (?ts @ [now]) = recent now d (?ts @ [now])"
    using d by (rule evict_front_recent)
  also have "\<dots> = recent now d (hits @ [now])" using ts by (simp add: recent_def)
  finally show ?thesis
    using rep now eq
    by (auto simp: represents_def record_and_count_def window_evict_def Let_def sorted_append)
qed

subsection \<open>The limiter represents a history of hits\<close>

definition hits_of :: "string \<Rightarrow> (int \<times> string) list \<Rightarrow> int list" where
  "hits_of key hits = map fst (filter (\<lambda>h. snd h = key) hits)"

definition limiter_represents :: "rate_limiter \<Rightarrow> (int \<times> string) list \<Rightarrow> bool" where
  "limiter_represents l hits \<longleftrightarrow>
     represents (li_global_10s l) (10 * SECOND) (map fst hits)
     \<and> (\<forall>key. case li_per_secret l key of
          None \<Rightarrow> hits_of key hits = []
        | Some c \<Rightarrow> represents (sc_window_60s c) (60 * SECOND) (hits_of key hits)
            \<and> represents (sc_window_10s c) (10 * SECOND) (hits_of key hits))"

text \<open>What the limiter should answer: the decision computed from the history alone.\<close>

definition decision_of :: "rate_limit_config \<Rightarrow> nat \<times> nat \<times> nat \<Rightarrow> rate_decision" where
  "decision_of config = (\<lambda>(n60, n10, nt).
     \<lparr>rd_class = classify config (of_nat n10) (of_nat nt), rd_per_secret_10s = of_nat n10,
      rd_total_10s = of_nat nt, rd_per_secret_60s = of_nat n60,
      rd_anomaly_score = anomaly_score config (of_nat n10) (of_nat nt)\<rparr>)"

definition counts_of :: "int \<Rightarrow> string \<Rightarrow> (int \<times> string) list \<Rightarrow> nat \<times> nat \<times> nat" where
  "counts_of now key hits =
     (length (recent now (60 * SECOND) (hits_of key hits)),
      length (recent now (10 * SECOND) (hits_of key hits)),
      length (recent now (10 * SECOND) (map fst hits)))"

lemma limiter_new_represents: "limiter_represents (limiter_new c) []"
  by (simp add: limiter_represents_def limiter_new_def window_new_represents hits_of_def)

lemma hits_of_append [simp]:
  "hits_of key (hits @ [(now, k)]) = hits_of key hits @ (if k = key then [now] else [])"
  by (simp add: hits_of_def)

lemma hits_of_subset: "t \<in> set (hits_of key hits) \<Longrightarrow> t \<in> set (map fst hits)"
  by (force simp: hits_of_def)

lemma record_limiter_represents:
  assumes rep: "limiter_represents l hits" and now: "\<forall>t \<in> set (map fst hits). t \<le> now"
    and eq: "limiter_record now key l = (d, l')"
  shows "limiter_represents l' (hits @ [(now, key)]) \<and> li_config l' = li_config l
    \<and> d = decision_of (li_config l) (counts_of now key (hits @ [(now, key)]))"
proof -
  let ?c = "case li_per_secret l key of None \<Rightarrow> counters_new | Some c \<Rightarrow> c"
  have c: "represents (sc_window_60s ?c) (60 * SECOND) (hits_of key hits)"
    "represents (sc_window_10s ?c) (10 * SECOND) (hits_of key hits)"
    using rep by (auto simp: limiter_represents_def counters_new_def window_new_represents
        dest!: spec [of _ key] split: option.splits)
  have s: "0 \<le> 60 * SECOND" "0 \<le> 10 * SECOND" by (simp_all add: SECOND_def)
  have key: "\<forall>t \<in> set (hits_of key hits). t \<le> now" using now hits_of_subset by blast
  obtain n60 w60 n10 w10 nt g where r: "record_and_count now (sc_window_60s ?c) = (n60, w60)"
    "record_and_count now (sc_window_10s ?c) = (n10, w10)"
    "record_and_count now (li_global_10s l) = (nt, g)" by (meson surj_pair)
  have global: "represents (li_global_10s l) (10 * SECOND) (map fst hits)"
    using rep by (simp add: limiter_represents_def)
  note w = record_represents [OF c(1) s(1) key r(1)] record_represents [OF c(2) s(2) key r(2)]
    record_represents [OF global s(2) now r(3)]
  have d: "d = \<lparr>rd_class = classify (li_config l) n10 nt, rd_per_secret_10s = n10,
      rd_total_10s = nt, rd_per_secret_60s = n60,
      rd_anomaly_score = anomaly_score (li_config l) n10 nt\<rparr>"
    and l': "l' = l\<lparr>li_per_secret := (li_per_secret l)
        (key \<mapsto> \<lparr>sc_window_60s = w60, sc_window_10s = w10\<rparr>), li_global_10s := g\<rparr>"
    using eq r by (auto simp: limiter_record_def Let_def)
  have "case li_per_secret l' k of None \<Rightarrow> hits_of k (hits @ [(now, key)]) = []
      | Some c \<Rightarrow> represents (sc_window_60s c) (60 * SECOND) (hits_of k (hits @ [(now, key)]))
          \<and> represents (sc_window_10s c) (10 * SECOND) (hits_of k (hits @ [(now, key)]))" for k
    using rep [unfolded limiter_represents_def, THEN conjunct2, THEN spec, of k] w
    by (cases "k = key") (simp_all add: l' split: option.splits)
  then have "limiter_represents l' (hits @ [(now, key)])"
    using w by (simp add: limiter_represents_def l')
  then show ?thesis using w by (simp add: d l' counts_of_def decision_of_def)
qed

lemma run_represents:
  assumes "limiter_represents l hits" and "sorted (map fst (hits @ later))"
    and "limiter_run later l = (ds, l')"
  shows "limiter_represents l' (hits @ later) \<and> li_config l' = li_config l \<and> length ds = length later
    \<and> (\<forall>i < length later. ds ! i = decision_of (li_config l)
          (counts_of (fst (later ! i)) (snd (later ! i)) (hits @ take (Suc i) later)))"
  using assms
proof (induction later arbitrary: hits l ds)
  case (Cons h later)
  obtain now key where h: "h = (now, key)" by fastforce
  obtain d l1 where d: "limiter_record now key l = (d, l1)" by fastforce
  obtain ds1 where ds1: "limiter_run later l1 = (ds1, l')" "ds = d # ds1"
    using Cons.prems(3) h d by (auto split: prod.splits)
  have "\<forall>t \<in> set (map fst hits). t \<le> now"
    using Cons.prems(2) h by (auto simp: sorted_append)
  from record_limiter_represents [OF Cons.prems(1) this d]
  have l1: "limiter_represents l1 (hits @ [h])" "li_config l1 = li_config l"
    and here: "d = decision_of (li_config l) (counts_of now key (hits @ [h]))"
    using h by simp_all
  have "sorted (map fst ((hits @ [h]) @ later))" using Cons.prems(2) by simp
  note rest = Cons.IH [OF l1(1) this ds1(1)]
  have "ds ! i = decision_of (li_config l) (counts_of (fst ((h # later) ! i)) (snd ((h # later) ! i))
      (hits @ take (Suc i) (h # later)))" if "i < length (h # later)" for i
    using that here h ds1(2) rest l1(2) by (cases i) simp_all
  then show ?case using rest l1 ds1 by simp
qed simp

subsection \<open>Classification over the counts\<close>

text \<open>No product of the classification leaves \<open>u64\<close>.\<close>

definition no_wrap :: "rate_limit_config \<Rightarrow> nat \<Rightarrow> bool" where
  "no_wrap c n \<longleftrightarrow> unat (rl_per_secret_rps c) * 10 < 2 ^ 64 \<and> unat (rl_burst_total_10s c) * 3 < 2 ^ 64
     \<and> n * 100 < 2 ^ 64"

lemma unat_of_nat_64: "n < 2 ^ 64 \<Longrightarrow> unat (of_nat n :: u64) = n"
  by (simp add: unat_of_nat)

lemma unat_times_64: "unat (a :: u64) * unat b < 2 ^ 64 \<Longrightarrow> unat (a * b) = unat a * unat b"
  using unat_mult_lem [of a b] by simp

lemma classify_nat:
  assumes "no_wrap c n10" and "no_wrap c nt"
  shows "classify c (of_nat n10) (of_nat nt) =
    (if 10 * unat (rl_per_secret_rps c) < n10 \<or> unat (rl_burst_total_10s c) < nt then Alert
     else if 10 * unat (rl_per_secret_rps c) \<le> 2 * n10 \<or> 3 * unat (rl_burst_total_10s c) \<le> 4 * nt
     then Caution else Normal)"
proof -
  have u: "unat (of_nat n10 :: u64) = n10" "unat (of_nat nt :: u64) = nt"
    using assms by (auto simp: no_wrap_def intro!: unat_of_nat_64)
  have "unat (rl_per_secret_rps c * 10) = unat (rl_per_secret_rps c) * 10"
    "unat (rl_burst_total_10s c * 3) = unat (rl_burst_total_10s c) * 3"
    "unat ((of_nat n10 :: u64) * 2) = n10 * 2" "unat ((of_nat nt :: u64) * 4) = nt * 4"
    using assms u unat_times_64 [of "rl_per_secret_rps c" 10] unat_times_64 [of "rl_burst_total_10s c" 3]
      unat_times_64 [of "of_nat n10" 2] unat_times_64 [of "of_nat nt" 4]
    by (simp_all add: no_wrap_def)
  then show ?thesis
    using u by (simp add: classify_def Let_def per_secret_10s_limit_def word_less_nat_alt word_le_nat_alt
        mult.commute)
qed

lemma percent_nat:
  assumes "n * 100 < 2 ^ 64"
  shows "unat (percent_of (of_nat n) limit) = min 100 (n * 100 div unat limit)"
proof -
  have u: "unat (of_nat n :: u64) = n" using assms by (intro unat_of_nat_64) simp
  have m: "unat ((of_nat n :: u64) * 100) = n * 100"
    using assms u unat_times_64 [of "of_nat n" 100] by simp
  have "saturating_mul (of_nat n :: u64) 100 = of_nat n * 100"
    using assms by (simp add: saturating_mul_def u)
  then have "unat (saturating_mul (of_nat n) 100 div limit) = n * 100 div unat limit"
    using m by (simp add: unat_div)
  moreover have "unat (100 :: u64) = 100" by simp
  ultimately have "unat (min (saturating_mul (of_nat n) 100 div limit) 100) = min 100 (n * 100 div unat limit)"
    unfolding min_def word_le_nat_alt by (simp del: unat_numeral)
  then show ?thesis
    by (cases "limit = 0") (simp_all add: percent_of_def checked_div_def)
qed

lemma score_nat:
  assumes "no_wrap c n10" and "no_wrap c nt"
  shows "unat (anomaly_score c (of_nat n10) (of_nat nt)) =
    max (min 100 (n10 * 100 div (unat (rl_per_secret_rps c) * 10)))
        (min 100 (nt * 100 div unat (rl_burst_total_10s c)))"
proof -
  have l: "unat (per_secret_10s_limit c) = unat (rl_per_secret_rps c) * 10"
    using assms unat_times_64 [of "rl_per_secret_rps c" 10] by (simp add: no_wrap_def per_secret_10s_limit_def)
  have "n10 * 100 < 2 ^ 64" "nt * 100 < 2 ^ 64" using assms by (auto simp: no_wrap_def)
  note p = percent_nat [OF this(1), of "per_secret_10s_limit c", unfolded l]
    percent_nat [OF this(2), of "rl_burst_total_10s c"]
  have m: "unat (max a b) = max (unat a) (unat b)" for a b :: u64
    by (simp add: max_def word_le_nat_alt)
  have "unat (max (percent_of (of_nat n10) (per_secret_10s_limit c))
      (percent_of (of_nat nt) (rl_burst_total_10s c))) < 2 ^ 8"
    by (simp add: m p min_less_iff_disj)
  then show ?thesis by (simp add: anomaly_score_def unsigned_ucast_eq take_bit_nat_eq_self m p)
qed

lemma less_div_times: "0 < (b :: nat) \<Longrightarrow> k * b \<le> a \<Longrightarrow> k \<le> a div b"
  by (simp add: less_eq_div_iff_mult_less_eq)

lemma score_of_class:
  fixes n10 nt rps burst :: nat
  assumes "0 < rps" and "0 < burst"
  defines "score \<equiv> max (min 100 (n10 * 100 div (rps * 10))) (min 100 (nt * 100 div burst))"
  shows "10 * rps < n10 \<or> burst < nt \<Longrightarrow> score = 100"
    and "10 * rps \<le> 2 * n10 \<or> 3 * burst \<le> 4 * nt \<Longrightarrow> 50 \<le> score"
    and "\<not> (10 * rps \<le> 2 * n10 \<or> 3 * burst \<le> 4 * nt) \<Longrightarrow> score < 75"
proof -
  show "score = 100" if "10 * rps < n10 \<or> burst < nt"
    using that assms(1,2) less_div_times [of "rps * 10" 100 "n10 * 100"] less_div_times [of burst 100 "nt * 100"]
    by (auto simp: score_def)
  show "50 \<le> score" if "10 * rps \<le> 2 * n10 \<or> 3 * burst \<le> 4 * nt"
    using that assms(1,2) less_div_times [of "rps * 10" 50 "n10 * 100"] less_div_times [of burst 75 "nt * 100"]
    by (auto simp: score_def)
  show "score < 75" if "\<not> (10 * rps \<le> 2 * n10 \<or> 3 * burst \<le> 4 * nt)"
  proof -
    have "n10 * 100 div (rps * 10) < 75" "nt * 100 div burst < 75"
      using that assms(1,2) by (auto intro!: less_mult_imp_div_less)
    then show ?thesis by (simp add: score_def)
  qed
qed

subsection \<open>Properties\<close>

text \<open>
  C34. The limiter answers from the true history: over any run of hits whose clock readings do
  not decrease, every decision is the one computed from all hits so far, counting those of the
  last minute and the last ten seconds.
\<close>

theorem limiter_counts_history:
  assumes "limiter_run hits (limiter_new config) = (ds, l)" and "sorted (map fst hits)"
  shows "length ds = length hits
    \<and> (\<forall>i < length hits. ds ! i = decision_of config
          (counts_of (fst (hits ! i)) (snd (hits ! i)) (take (Suc i) hits)))"
  using run_represents [OF limiter_new_represents _ assms(1)] assms(2) by (simp add: limiter_new_def)

definition burst_hits :: "(int \<times> string) list" where
  "burst_hits = replicate 12 (5, ''KEY'') @ [(5 + 11 * SECOND, ''KEY'')]"

theorem limiter_counts_history_witness:
  "\<exists>ds l. limiter_run burst_hits (limiter_new \<lparr>rl_per_secret_rps = 1, rl_burst_total_10s = 50\<rparr>) = (ds, l)
    \<and> ds ! 12 = decision_of \<lparr>rl_per_secret_rps = 1, rl_burst_total_10s = 50\<rparr> (13, 1, 1)"
proof -
  let ?c = "\<lparr>rl_per_secret_rps = 1, rl_burst_total_10s = 50\<rparr>"
  obtain ds l where run: "limiter_run burst_hits (limiter_new ?c) = (ds, l)" by fastforce
  have s: "sorted (map fst burst_hits)" by code_simp
  have "12 < length burst_hits" by (simp add: burst_hits_def)
  moreover have "counts_of (fst (burst_hits ! 12)) (snd (burst_hits ! 12)) (take (Suc 12) burst_hits) = (13, 1, 1)"
    by code_simp
  ultimately have "ds ! 12 = decision_of ?c (13, 1, 1)"
    using limiter_counts_history [OF run s] by metis
  then show ?thesis using run by blast
qed

text \<open>
  Classification and score agree with the budgets: while no product leaves \<open>u64\<close>, a decision
  is an alert exactly when the secret exceeded ten seconds of its rate or all secrets exceeded
  the burst budget, a caution from half the rate or three quarters of the burst on, and the
  score is 100 for alerts, at least 50 for cautions and below 75 for normal requests.
\<close>

theorem alert_exactly_over_budget:
  assumes "no_wrap config n10" and "no_wrap config nt"
    and "0 < rl_per_secret_rps config" and "0 < rl_burst_total_10s config"
    and "d = decision_of config (n60, n10, nt)"
  shows "(rd_class d = Alert \<longleftrightarrow> 10 * unat (rl_per_secret_rps config) < n10
        \<or> unat (rl_burst_total_10s config) < nt)
    \<and> (rd_class d = Normal \<longleftrightarrow> 2 * n10 < 10 * unat (rl_per_secret_rps config)
        \<and> 4 * nt < 3 * unat (rl_burst_total_10s config))
    \<and> unat (rd_anomaly_score d) \<le> 100
    \<and> (rd_class d = Alert \<longrightarrow> unat (rd_anomaly_score d) = 100)
    \<and> (rd_class d = Caution \<longrightarrow> 50 \<le> unat (rd_anomaly_score d))
    \<and> (rd_class d = Normal \<longrightarrow> unat (rd_anomaly_score d) < 75)"
proof -
  have pos: "0 < unat (rl_per_secret_rps config)" "0 < unat (rl_burst_total_10s config)"
    using assms(3,4) by (simp_all add: word_less_nat_alt)
  have cl: "rd_class d = classify config (of_nat n10) (of_nat nt)"
    "rd_anomaly_score d = anomaly_score config (of_nat n10) (of_nat nt)"
    using assms(5) by (simp_all add: decision_of_def)
  show ?thesis
    using score_of_class [OF pos, of n10 nt] pos
    unfolding cl classify_nat [OF assms(1,2)] score_nat [OF assms(1,2)]
    by (auto simp: not_less not_le split: if_splits)
qed

theorem alert_exactly_over_budget_witness:
  "rd_class (decision_of config_default (60, 51, 60)) = Alert
    \<and> unat (rd_anomaly_score (decision_of config_default (60, 51, 60))) = 100
    \<and> rd_class (decision_of config_default (60, 24, 74)) = Normal
    \<and> unat (rd_anomaly_score (decision_of config_default (60, 24, 74))) < 75"
proof -
  have c: "unat (rl_per_secret_rps config_default) = 5" "unat (rl_burst_total_10s config_default) = 100"
    by (simp_all add: config_default_def DEFAULT_BURST_TOTAL_10S_def)
  have w: "no_wrap config_default 51" "no_wrap config_default 60" "no_wrap config_default 24"
    "no_wrap config_default 74" by (simp_all add: no_wrap_def c)
  have p: "0 < rl_per_secret_rps config_default" "0 < rl_burst_total_10s config_default"
    by (simp_all add: config_default_def DEFAULT_BURST_TOTAL_10S_def)
  show ?thesis
    using alert_exactly_over_budget [OF w(1,2) p refl, of 60] alert_exactly_over_budget [OF w(3,4) p refl, of 60]
    by (simp add: c)
qed

text \<open>
  The derived per-secret limit wraps: a configured rate of \<open>2 ^ 63\<close> requests per second, which
  parses, is enforced as a limit of zero requests in ten seconds, so already the first request
  is an alert, with score 1 (its share of the burst budget).
\<close>

theorem huge_rate_wraps_to_zero_limit:
  "per_secret_10s_limit (config_from_vars (Some ''9223372036854775808'') None) = 0
    \<and> map (\<lambda>d. (rd_class d, rd_anomaly_score d)) (fst (limiter_run [(0, ''KEY'')]
          (limiter_new (config_from_vars (Some ''9223372036854775808'') None))))
        = [(Alert, 1)]"
  by code_simp

end
