(* ===== verification/Rotation_Calendar.thy ===== *)
theory Rotation_Calendar
  imports Prelude
begin

text \<open>
  The calendar helpers of \<open>phantom-core/src/rotation_strategy.rs\<close> (UTC, proleptic Gregorian), and
  their correctness: the month computed for an instant is the month that contains it.

  Machine integers are \<open>int\<close> here: the \<open>i64\<close> and \<open>u32\<close> intermediate results stay in range for every
  \<open>u64\<close> instant (an instant is below \<open>2 ^ 64\<close> seconds, a day number below \<open>2 ^ 48\<close>), and every
  dividend is non-negative, so Rust's truncating division is \<open>div\<close>.
\<close>

subsection \<open>The helpers\<close>

definition days_from_civil :: "int \<Rightarrow> int \<Rightarrow> int \<Rightarrow> int" where
  "days_from_civil year month day =
     (let year = (if month \<le> 2 then year - 1 else year);
          era = year div 400;
          year_of_era = year - era * 400;
          day_of_year = (153 * (month + (if 2 < month then - 3 else 9)) + 2) div 5 + day - 1;
          day_of_era = year_of_era * 365 + year_of_era div 4 - year_of_era div 100 + day_of_year
      in era * 146097 + day_of_era - 719468)"

definition year_month_of :: "int \<Rightarrow> int \<times> int" where
  "year_month_of secs =
     (let days = secs div 86400 + 719468;
          era = days div 146097;
          day_of_era = days - era * 146097;
          year_of_era = (day_of_era - day_of_era div 1460 + day_of_era div 36524
            - day_of_era div 146096) div 365;
          day_of_year = day_of_era
            - (365 * year_of_era + year_of_era div 4 - year_of_era div 100);
          shifted_month = (5 * day_of_year + 2) div 153;
          month = (if shifted_month < 10 then shifted_month + 3 else shifted_month - 9);
          year = year_of_era + era * 400 + (if month \<le> 2 then 1 else 0)
      in (year, month))"

definition next_month :: "int \<Rightarrow> int \<Rightarrow> int \<times> int" where
  "next_month year month = (if month = 12 then (year + 1, 1) else (year, month + 1))"

definition previous_month :: "int \<Rightarrow> int \<Rightarrow> int \<times> int" where
  "previous_month year month = (if month = 1 then (year - 1, 12) else (year, month - 1))"

definition days_in_month :: "int \<Rightarrow> int \<Rightarrow> int" where
  "days_in_month year month =
     (case next_month year month of (next_year, nxt) \<Rightarrow>
        days_from_civil next_year nxt 1 - days_from_civil year month 1)"

subsection \<open>Years that begin in March\<close>

text \<open>The number of days before the first of March of a year, and before a month of such a year.\<close>

definition year_start :: "int \<Rightarrow> int" where
  "year_start y = 365 * y + y div 4 - y div 100 + y div 400"

definition month_offset :: "int \<Rightarrow> int" where
  "month_offset m = (153 * m + 2) div 5"

lemma year_start_era:
  assumes "0 \<le> r" and "r < 400"
  shows "year_start (400 * e + r) = 146097 * e + 365 * r + r div 4 - r div 100"
proof -
  have eq: "400 * e + r = r + (100 * e) * 4" "400 * e + r = r + (4 * e) * 100"
    "400 * e + r = r + e * 400" by simp_all
  have "(400 * e + r) div 4 = 100 * e + r div 4" unfolding eq(1) by (rule div_mult_self1) simp
  moreover have "(400 * e + r) div 100 = 4 * e + r div 100" unfolding eq(2) by (rule div_mult_self1) simp
  moreover have "(400 * e + r) div 400 = e + r div 400" unfolding eq(3) by (rule div_mult_self1) simp
  moreover have "r div 400 = 0" using assms by simp
  moreover have "365 * (400 * e + r) + (100 * e + a) - (4 * e + b) + (e + 0)
      = 146097 * e + 365 * r + a - b" for a b :: int by simp
  ultimately show ?thesis by (simp only: year_start_def)
qed

lemma div_step:
  fixes y n :: int
  assumes "0 < n"
  shows "(y + 1) div n = y div n + (if n dvd y + 1 then 1 else 0)"
proof (cases "y mod n = n - 1")
  case True
  moreover have "n * (y div n) + y mod n = y" by simp
  ultimately have "y + 1 = n * (y div n + 1) + 0" unfolding distrib_left by linarith
  then show ?thesis using int_div_pos_eq [of "y + 1" n "y div n + 1" 0] assms by simp
next
  case False
  then have r: "y + 1 = n * (y div n) + (y mod n + 1)" "0 \<le> y mod n + 1" "y mod n + 1 < n"
    using div_mult_mod_eq [of y n] pos_mod_bound [OF assms, of y] pos_mod_sign [OF assms, of y]
    by (simp_all add: algebra_simps)
  have "(y + 1) mod n \<noteq> 0" using int_mod_pos_eq [OF r] pos_mod_sign [OF assms, of y] by simp
  then show ?thesis using int_div_pos_eq [OF r] by (simp add: dvd_eq_mod_eq_0)
qed

lemma div_step_le: "0 < n \<Longrightarrow> (y + 1) div n \<le> y div n + (1 :: int)"
  by (simp add: div_step)

lemma year_start_step: "year_start y + 365 \<le> year_start (y + 1) \<and> year_start (y + 1) \<le> year_start y + 366"
proof -
  define a b c :: int where "a = (if 4 dvd y + 1 then 1 else 0)"
    and "b = (if 100 dvd y + 1 then 1 else 0)" and "c = (if 400 dvd y + 1 then 1 else 0)"
  have "(100 :: int) dvd y + 1 \<Longrightarrow> 4 dvd y + 1"
    by (rule dvd_trans [of _ 100]) simp_all
  moreover have "(400 :: int) dvd y + 1 \<Longrightarrow> 100 dvd y + 1"
    by (rule dvd_trans [of _ 400]) simp_all
  ultimately have "0 \<le> c" "c \<le> b" "b \<le> a" "a \<le> 1"
    unfolding a_def b_def c_def by auto
  moreover have "(y + 1) div 4 = y div 4 + a" "(y + 1) div 100 = y div 100 + b"
    "(y + 1) div 400 = y div 400 + c"
    unfolding a_def b_def c_def by (rule div_step, simp)+
  ultimately show ?thesis
    unfolding year_start_def by (intro conjI) simp_all
qed

lemma days_from_civil_eq:
  "days_from_civil y m d =
     (if m \<le> 2 then year_start (y - 1) + month_offset (m + 9) else year_start y + month_offset (m - 3))
     + d - 719469"
proof -
  have *: "z div 400 * 146097 + ((z - z div 400 * 400) * 365 + (z - z div 400 * 400) div 4
      - (z - z div 400 * 400) div 100) = year_start z" for z
  proof -
    have r: "z - z div 400 * 400 = z mod 400" by (simp add: minus_div_mult_eq_mod)
    have "year_start (400 * (z div 400) + z mod 400)
        = 146097 * (z div 400) + 365 * (z mod 400) + z mod 400 div 4 - z mod 400 div 100"
      by (rule year_start_era) simp_all
    then show ?thesis unfolding r by simp
  qed
  show ?thesis
    using * [of y] * [of "y - 1"] by (simp add: days_from_civil_def Let_def month_offset_def)
qed

subsection \<open>The year of a day\<close>

definition era_year :: "int \<Rightarrow> int" where
  "era_year d = d - d div 1460 + d div 36524 - d div 146096"

lemma era_year_step:
  assumes "0 \<le> d" and "d + 1 < 146097"
  shows "era_year d \<le> era_year (d + 1)"
proof (cases "d + 1 = 146096")
  case True
  then show ?thesis by (simp add: era_year_def)
next
  case False
  then have z: "d div 146096 = 0" "(d + 1) div 146096 = 0" using assms by simp_all
  moreover have "(d + 1) div 1460 \<le> d div 1460 + 1" by (rule div_step_le) simp
  moreover have "d div 36524 \<le> (d + 1) div 36524" by (rule zdiv_mono1) simp_all
  moreover have "d - p + q - 0 \<le> d + 1 - p' + q' - 0" if "p' \<le> p + 1" "q \<le> q'" for p p' q q' :: int
    using that by simp
  ultimately show ?thesis unfolding era_year_def z by blast
qed

lemma era_year_mono:
  assumes "0 \<le> d" and "d \<le> d'" and "d' < 146097"
  shows "era_year d \<le> era_year d'"
  using assms(2,3)
proof (induction d' rule: int_ge_induct)
  case (step i)
  then show ?case using era_year_step [of i] assms(1) by simp
qed simp

text \<open>The formula is right at the first and the last day of each of the 400 years.\<close>

lemma era_year_ends:
  "list_all (\<lambda>y. 365 * y \<le> era_year (year_start y)
     \<and> era_year (year_start (y + 1) - 1) < 365 * (y + 1)) [0..399]"
  by code_simp

lemma year_start_mono: "y \<le> z \<Longrightarrow> year_start y \<le> year_start z"
proof (induction z rule: int_ge_induct)
  case (step i)
  then show ?case using year_start_step [of i] by simp
qed simp

lemma year_containing:
  assumes "0 \<le> d" and "d < year_start (int n)"
  obtains y where "0 \<le> y" "y < int n" "year_start y \<le> d" "d < year_start (y + 1)"
  using assms(2)
proof (induction n arbitrary: thesis)
  case 0
  then show ?case using assms(1) by (simp add: year_start_def)
next
  case (Suc n)
  show ?case
  proof (cases "d < year_start (int n)")
    case True
    then show ?thesis using Suc.IH Suc.prems(1) by (metis less_trans lessI of_nat_less_iff)
  next
    case False
    then show ?thesis using Suc.prems(1) [of "int n"] Suc.prems(2) by (simp add: add.commute)
  qed
qed

lemma era_year_div:
  assumes "0 \<le> d" and "d < 146097"
  defines "y \<equiv> era_year d div 365"
  shows "0 \<le> y \<and> y < 400 \<and> year_start y \<le> d \<and> d < year_start (y + 1)"
proof -
  have "d < year_start (int 400)" using assms(2) by (simp add: year_start_def)
  then obtain z where z: "0 \<le> z" "z < int 400" "year_start z \<le> d" "d < year_start (z + 1)"
    using year_containing [OF assms(1)] by blast
  have "z \<in> set [0..399]" using z by simp
  then have ends: "365 * z \<le> era_year (year_start z)" "era_year (year_start (z + 1) - 1) < 365 * (z + 1)"
    using era_year_ends by (auto simp only: list_all_iff)
  have "0 \<le> year_start z" using year_start_mono [OF z(1)] by (simp add: year_start_def)
  then have "365 * z \<le> era_year d"
    using era_year_mono [OF _ z(3) assms(2)] ends(1) by simp
  moreover have "year_start (z + 1) \<le> 146097"
    using year_start_mono [of "z + 1" 400] z(2) by (simp add: year_start_def)
  then have "era_year d < 365 * (z + 1)"
    using era_year_mono [OF assms(1), of "year_start (z + 1) - 1"] z(4) ends(2) by simp
  ultimately have "y = z" unfolding y_def by simp
  then show ?thesis using z by simp
qed

subsection \<open>The month of a day\<close>

lemma day_before_next:
  fixes d m k :: int
  assumes "5 * d + 2 < 153 * m + 153" and "153 * m + 155 < 5 * k + 5"
  shows "d < k"
  using assms by linarith

lemma month_containing:
  assumes "0 \<le> d" and "d \<le> 365"
  defines "m \<equiv> (5 * d + 2) div 153"
  shows "0 \<le> m \<and> m \<le> 11 \<and> month_offset m \<le> d \<and> d < month_offset (m + 1)"
proof -
  have m: "153 * m \<le> 5 * d + 2" "5 * d + 2 < 153 * m + 153" unfolding m_def by presburger+
  have k: "5 * month_offset i \<le> 153 * i + 2" "153 * i + 2 < 5 * month_offset i + 5" for i
    unfolding month_offset_def by presburger+
  have "0 \<le> m" "m \<le> 11" "month_offset m \<le> d" using m k [of m] assms(1,2) by linarith+
  moreover have "d < month_offset (m + 1)"
    using day_before_next [OF m(2)] k(2) [of "m + 1"] by (simp add: distrib_left)
  ultimately have "0 \<le> m" "m \<le> 11" "month_offset m \<le> d" "d < month_offset (m + 1)"
    by simp_all
  then show ?thesis by simp
qed

text \<open>Months numbered from January of year 0.\<close>

definition month_index :: "int \<Rightarrow> int \<Rightarrow> int" where
  "month_index y m = 12 * y + m - 1"

definition month_start :: "int \<Rightarrow> int" where
  "month_start k = days_from_civil (k div 12) (k mod 12 + 1) 1"

lemma month_index_inverse:
  "1 \<le> m \<Longrightarrow> m \<le> 12 \<Longrightarrow> month_index y m div 12 = y \<and> month_index y m mod 12 + 1 = m"
  unfolding month_index_def by presburger

lemma month_start_index: "1 \<le> m \<Longrightarrow> m \<le> 12 \<Longrightarrow> month_start (month_index y m) = days_from_civil y m 1"
  using month_index_inverse [of m y] by (simp add: month_start_def)

lemma next_month_index:
  "1 \<le> m \<Longrightarrow> m \<le> 12 \<Longrightarrow> next_month y m = (y', m') \<Longrightarrow> 1 \<le> m' \<and> m' \<le> 12 \<and> month_index y' m' = month_index y m + 1"
  by (auto simp: next_month_def month_index_def split: if_splits)

lemma previous_month_index:
  "1 \<le> m \<Longrightarrow> m \<le> 12 \<Longrightarrow> previous_month y m = (y', m') \<Longrightarrow>
     1 \<le> m' \<and> m' \<le> 12 \<and> month_index y' m' = month_index y m - 1"
  by (auto simp: previous_month_def month_index_def split: if_splits)

lemma month_lengths:
  "days_from_civil y m 1 + 28 \<le> days_from_civil (fst (next_month y m)) (snd (next_month y m)) 1
    \<and> days_from_civil (fst (next_month y m)) (snd (next_month y m)) 1 \<le> days_from_civil y m 1 + 31"
  if "1 \<le> m" and "m \<le> 12"
proof -
  have m: "m = 1 \<or> m = 2 \<or> m = 3 \<or> m = 4 \<or> m = 5 \<or> m = 6 \<or> m = 7 \<or> m = 8 \<or> m = 9 \<or> m = 10 \<or> m = 11 \<or> m = 12"
    using that by presburger
  then show ?thesis
    using year_start_step [of "y - 1"]
    by (elim disjE) (simp_all add: next_month_def days_from_civil_eq month_offset_def)
qed

lemma month_start_step: "month_start k + 28 \<le> month_start (k + 1) \<and> month_start (k + 1) \<le> month_start k + 31"
proof -
  have m: "1 \<le> k mod 12 + 1" "k mod 12 + 1 \<le> 12" by presburger+
  have k: "month_index (k div 12) (k mod 12 + 1) = k" by (simp add: month_index_def)
  obtain y' m' where n: "next_month (k div 12) (k mod 12 + 1) = (y', m')" by fastforce
  from next_month_index [OF m n] month_lengths [OF m, of "k div 12"] show ?thesis
    using n month_start_index [of m' y'] by (simp add: month_start_def k)
qed

lemma days_in_month_start:
  "1 \<le> m \<Longrightarrow> m \<le> 12 \<Longrightarrow>
     days_in_month y m = month_start (month_index y m + 1) - month_start (month_index y m)"
  using next_month_index [of m y] month_start_index
  by (auto simp: days_in_month_def split: prod.splits) (metis month_start_index)

lemma year_month_contains:
  assumes "year_month_of secs = (y, m)"
  shows "1 \<le> m \<and> m \<le> 12 \<and> month_start (month_index y m) \<le> secs div 86400
    \<and> secs div 86400 < month_start (month_index y m + 1)"
proof -
  define days where "days = secs div 86400 + 719468"
  define era where "era = days div 146097"
  define doe where "doe = days - era * 146097"
  have doe: "0 \<le> doe" "doe < 146097" unfolding doe_def era_def by presburger+
  define yoe where "yoe = era_year doe div 365"
  have yoe: "0 \<le> yoe" "yoe < 400" "year_start yoe \<le> doe" "doe < year_start (yoe + 1)"
    using era_year_div [OF doe] by (simp_all add: yoe_def)
  define doy where "doy = doe - year_start yoe"
  have doy: "0 \<le> doy" "doy \<le> 365" using yoe year_start_step [of yoe] by (simp_all add: doy_def)
  define mp where "mp = (5 * doy + 2) div 153"
  have mp: "0 \<le> mp" "mp \<le> 11" "month_offset mp \<le> doy" "doy < month_offset (mp + 1)"
    using month_containing [OF doy] by (simp_all add: mp_def)
  have "year_start yoe = 365 * yoe + yoe div 4 - yoe div 100"
    using yoe(1,2) by (simp add: year_start_def)
  then have doy_eq: "doe - (365 * yoe + yoe div 4 - yoe div 100) = doy" by (simp add: doy_def)
  have "year_month_of secs =
      (let month = (if mp < 10 then mp + 3 else mp - 9) in (yoe + era * 400 + (if month \<le> 2 then 1 else 0), month))"
    by (simp only: year_month_of_def Let_def days_def [symmetric] era_def [symmetric]
        doe_def [symmetric] era_year_def [symmetric] yoe_def [symmetric] doy_eq mp_def [symmetric])
  then have ym: "m = (if mp < 10 then mp + 3 else mp - 9)" "y = yoe + era * 400 + (if m \<le> 2 then 1 else 0)"
    using assms by (auto simp: Let_def)
  have m: "1 \<le> m" "m \<le> 12" using ym(1) mp(1,2) by (auto split: if_splits)
  define Y where "Y = yoe + era * 400"
  have Y: "year_start Y + doy = days" "days < year_start (Y + 1)"
  proof -
    have s: "year_start Y = 146097 * era + year_start yoe"
      using year_start_era [OF yoe(1,2), of era] yoe(1,2)
      by (simp add: Y_def year_start_def add.commute mult.commute)
    then show "year_start Y + doy = days" by (simp add: doy_def doe_def)
    have "year_start (Y + 1) = 146097 * era + year_start (yoe + 1)"
    proof (cases "yoe = 399")
      case True
      then show ?thesis using year_start_era [of 0 "era + 1"] by (simp add: Y_def year_start_def algebra_simps)
    next
      case False
      then show ?thesis
        using year_start_era [of "yoe + 1" era] yoe(1,2) by (simp add: Y_def year_start_def algebra_simps)
    qed
    then show "days < year_start (Y + 1)" using yoe(4) by (simp add: doe_def)
  qed
  have start: "days_from_civil y m 1 = year_start Y + month_offset mp - 719468"
    using ym mp(1,2) by (auto simp: days_from_civil_eq Y_def split: if_splits)
  have "days < days_from_civil (fst (next_month y m)) (snd (next_month y m)) 1 + 719468"
  proof (cases "mp = 11")
    case True
    then have "m = 2" "y = Y + 1" using ym by (simp_all add: Y_def)
    then show ?thesis using Y(2) by (simp add: next_month_def days_from_civil_eq month_offset_def)
  next
    case False
    then have "days_from_civil (fst (next_month y m)) (snd (next_month y m)) 1
        = year_start Y + month_offset (mp + 1) - 719468"
      using ym mp(1,2) by (auto simp: next_month_def days_from_civil_eq Y_def add.commute split: if_splits)
    then show ?thesis using mp(4) Y(1) by simp
  qed
  moreover have "month_start (month_index y m + 1) = days_from_civil (fst (next_month y m)) (snd (next_month y m)) 1"
    using next_month_index [OF m, of y] month_start_index by (metis prod.collapse)
  ultimately show ?thesis
    using m start mp(3) Y(1) month_start_index [OF m, of y] by (simp add: days_def)
qed

end
