(* ===== verification/Rotation_Schedule.thy ===== *)
theory Rotation_Schedule
  imports Rotation_Calendar
begin

text \<open>
  \<open>phantom-core/src/rotation_strategy.rs\<close>: rotation schedules, their boundaries and next rotations,
  and the expiry checks.  Unix seconds are \<open>u64\<close>: they are \<open>int\<close> here, with \<open>wrap64\<close> where the
  release build computes modulo \<open>2 ^ 64\<close> and the saturating operations written out.
\<close>

definition wrap64 :: "int \<Rightarrow> int" where
  "wrap64 x = x mod 18446744073709551616"

definition sat_u64 :: "int \<Rightarrow> int" where
  "sat_u64 x = max 0 (min 18446744073709551615 x)"

definition sat_i64 :: "int \<Rightarrow> int" where
  "sat_i64 x = max (- 9223372036854775808) (min 9223372036854775807 x)"

definition DAY_SECS :: int where "DAY_SECS = 86400"

subsection \<open>Schedules\<close>

datatype rotation_strategy = Never | Daily | Weekly | Monthly | Interval int

datatype weekday = Monday | Tuesday | Wednesday | Thursday | Friday | Saturday | Sunday

fun iso_index :: "weekday \<Rightarrow> int" where
  "iso_index Monday = 0"
| "iso_index Tuesday = 1"
| "iso_index Wednesday = 2"
| "iso_index Thursday = 3"
| "iso_index Friday = 4"
| "iso_index Saturday = 5"
| "iso_index Sunday = 6"

fun interval_days :: "rotation_strategy \<Rightarrow> int option" where
  "interval_days (Interval days) = Some days"
| "interval_days _ = None"

record rotation_schedule =
  sch_strategy :: rotation_strategy
  sch_hour :: int
  sch_minute :: int
  sch_weekday :: weekday
  sch_day_of_month :: int
  sch_last_rotated :: "int option"

definition from_strategy :: "rotation_strategy \<Rightarrow> rotation_schedule" where
  "from_strategy strategy =
     \<lparr>sch_strategy = strategy,
      sch_hour = (case strategy of Daily \<Rightarrow> 2 | Weekly \<Rightarrow> 3 | _ \<Rightarrow> 0),
      sch_minute = 0, sch_weekday = Monday, sch_day_of_month = 1, sch_last_rotated = None\<rparr>"

definition last_or_epoch :: "rotation_schedule \<Rightarrow> int" where
  "last_or_epoch s = (case sch_last_rotated s of None \<Rightarrow> 0 | Some t \<Rightarrow> t)"

definition interval_due_at :: "rotation_schedule \<Rightarrow> int \<Rightarrow> int" where
  "interval_due_at s days = sat_u64 (last_or_epoch s + sat_u64 (days * DAY_SECS))"

definition slot_secs :: "rotation_schedule \<Rightarrow> int" where
  "slot_secs s = sch_hour s * 3600 + sch_minute s * 60"

definition monthly_slot :: "rotation_schedule \<Rightarrow> int \<Rightarrow> int \<Rightarrow> int" where
  "monthly_slot s year month =
     (let day = max 1 (min (sch_day_of_month s) (days_in_month year month));
          secs = sat_i64 (sat_i64 (days_from_civil year month day * 86400) + slot_secs s)
      in if secs < 0 then 0 else secs)"

definition last_boundary_before :: "rotation_schedule \<Rightarrow> int \<Rightarrow> int option" where
  "last_boundary_before s now_secs =
     (case sch_strategy s of
        Never \<Rightarrow> None
      | Interval days \<Rightarrow>
          (let due = interval_due_at s days in
           if due \<le> now_secs then Some due else Some (last_or_epoch s))
      | Daily \<Rightarrow>
          (let today_midnight = now_secs div 86400 * 86400;
               today_slot = wrap64 (today_midnight + slot_secs s)
           in if today_slot \<le> now_secs then Some today_slot
              else Some (sat_u64 (today_slot - 86400)))
      | Weekly \<Rightarrow>
          (let days_since_epoch = now_secs div 86400;
               current_weekday = (days_since_epoch + 3) mod 7;
               target_weekday = iso_index (sch_weekday s);
               days_ago = (current_weekday + 7 - target_weekday) mod 7;
               target_midnight = wrap64 (wrap64 (days_since_epoch - days_ago) * 86400);
               target_slot = wrap64 (target_midnight + slot_secs s)
           in if target_slot \<le> now_secs then Some target_slot
              else Some (sat_u64 (target_slot - 7 * 86400)))
      | Monthly \<Rightarrow>
          (case year_month_of now_secs of (year, month) \<Rightarrow>
             (let this_month = monthly_slot s year month in
              if this_month \<le> now_secs then Some this_month
              else (case previous_month year month of (year, month) \<Rightarrow>
                      Some (monthly_slot s year month)))))"

definition should_rotate_now :: "rotation_schedule \<Rightarrow> int \<Rightarrow> bool" where
  "should_rotate_now s now_secs =
     (if sch_strategy s = Never then False
      else (case last_boundary_before s now_secs of
              None \<Rightarrow> False
            | Some b \<Rightarrow> last_or_epoch s < b))"

text \<open>\<open>(now_secs as i64) - (boundary as i64)\<close>: both reinterpret the bits.\<close>

definition as_i64 :: "int \<Rightarrow> int" where
  "as_i64 x = (if x < 9223372036854775808 then x else x - 18446744073709551616)"

definition wrap_i64 :: "int \<Rightarrow> int" where
  "wrap_i64 x = as_i64 (wrap64 x)"

definition seconds_overdue :: "rotation_schedule \<Rightarrow> int \<Rightarrow> int option" where
  "seconds_overdue s now_secs =
     Option.bind (last_boundary_before s now_secs) (\<lambda>boundary.
     Option.bind (sch_last_rotated s) (\<lambda>last.
       if last < boundary then Some (wrap_i64 (as_i64 now_secs - as_i64 boundary)) else None))"

definition next_rotation_after :: "rotation_schedule \<Rightarrow> int \<Rightarrow> int option" where
  "next_rotation_after s now_secs =
     (case sch_strategy s of
        Never \<Rightarrow> None
      | Interval days \<Rightarrow> Some (max (interval_due_at s days) now_secs)
      | Daily \<Rightarrow>
          (let today_midnight = now_secs div 86400 * 86400;
               today_slot = wrap64 (today_midnight + slot_secs s)
           in if now_secs < today_slot then Some today_slot else Some (wrap64 (today_slot + 86400)))
      | Weekly \<Rightarrow>
          (let days_since_epoch = now_secs div 86400;
               current_weekday = (days_since_epoch + 3) mod 7;
               target_weekday = iso_index (sch_weekday s);
               days_until = (target_weekday + 7 - current_weekday) mod 7;
               candidate_day = days_since_epoch + days_until;
               candidate_slot = wrap64 (wrap64 (candidate_day * 86400) + slot_secs s)
           in if now_secs < candidate_slot then Some candidate_slot
              else Some (wrap64 (candidate_slot + 7 * 86400)))
      | Monthly \<Rightarrow>
          (case year_month_of now_secs of (year, month) \<Rightarrow>
             (let this_month = monthly_slot s year month in
              if now_secs < this_month then Some this_month
              else (case next_month year month of (year, month) \<Rightarrow>
                      (let slot = monthly_slot s year month in
                       if now_secs < slot then Some slot else None)))))"

subsection \<open>Enforcement and expiry\<close>

fun strategy_period_secs :: "rotation_strategy \<Rightarrow> int option" where
  "strategy_period_secs Never = None"
| "strategy_period_secs Daily = Some 86400"
| "strategy_period_secs Weekly = Some (7 * 86400)"
| "strategy_period_secs Monthly = Some (30 * 86400)"
| "strategy_period_secs (Interval days) = Some (sat_u64 (days * DAY_SECS))"

text \<open>The label of an overdue status is the strategy it is rendered from.\<close>

datatype enforcement_status =
  EnforcementDisabled | NoSchedule | NoAnchor | AnchorInFuture | EnforcementOk
| Overdue int rotation_strategy

fun is_blocked :: "enforcement_status \<Rightarrow> bool" where
  "is_blocked EnforcementDisabled = False"
| "is_blocked EnforcementOk = False"
| "is_blocked _ = True"

definition check_rotation_enforcement ::
  "bool \<Rightarrow> rotation_schedule option \<Rightarrow> int option \<Rightarrow> int \<Rightarrow> enforcement_status" where
  "check_rotation_enforcement enforce schedule anchor now_secs =
     (if \<not> enforce then EnforcementDisabled
      else (case schedule of
        None \<Rightarrow> NoSchedule
      | Some sched \<Rightarrow>
          (case strategy_period_secs (sch_strategy sched) of
             None \<Rightarrow> NoSchedule
           | Some period \<Rightarrow>
               (case anchor of
                  None \<Rightarrow> NoAnchor
                | Some anchor \<Rightarrow>
                    if now_secs < anchor then AnchorInFuture
                    else if period \<le> now_secs - anchor
                      then Overdue (now_secs - anchor) (sch_strategy sched)
                    else EnforcementOk))))"

datatype expiry_status = NoExpiry | ValidFor int | GraceFor int | ExpiredBy int

fun expiry_is_expired :: "expiry_status \<Rightarrow> bool" where
  "expiry_is_expired (ExpiredBy _) = True"
| "expiry_is_expired _ = False"

fun expiry_is_valid :: "expiry_status \<Rightarrow> bool" where
  "expiry_is_valid (ValidFor _) = True"
| "expiry_is_valid _ = False"

definition check_expiry :: "int \<Rightarrow> int \<Rightarrow> int \<Rightarrow> expiry_status" where
  "check_expiry expires_at grace_days now_secs =
     (if expires_at \<le> now_secs then ExpiredBy (now_secs - expires_at)
      else let days_remaining = (expires_at - now_secs) div 86400 in
        if days_remaining \<le> grace_days then GraceFor days_remaining else ValidFor days_remaining)"

text \<open>The verdicts by instants: remaining days are rounded down, so the grace period begins up to a day early.\<close>

lemma expiry_verdicts:
  "expiry_is_expired (check_expiry expires_at grace_days now) \<longleftrightarrow> expires_at \<le> now"
  "expiry_is_valid (check_expiry expires_at grace_days now) \<longleftrightarrow>
     now < expires_at \<and> now + (grace_days + 1) * 86400 \<le> expires_at"
  by (auto simp: check_expiry_def Let_def)

definition compute_new_expires_at :: "int \<Rightarrow> int \<Rightarrow> int" where
  "compute_new_expires_at rotation_window_days now_secs =
     wrap64 (now_secs + wrap64 (rotation_window_days * 86400))"

datatype grace_severity = GraceOk | GraceWarning int | GraceExpired int | GraceNoExpiry

fun is_doctor_warning :: "grace_severity \<Rightarrow> bool" where
  "is_doctor_warning (GraceWarning _) = True"
| "is_doctor_warning (GraceExpired _) = True"
| "is_doctor_warning _ = False"

definition check_grace_period :: "int option \<Rightarrow> int \<Rightarrow> int \<Rightarrow> grace_severity" where
  "check_grace_period expires_at grace_period_secs now_secs =
     (case expires_at of
        None \<Rightarrow> GraceNoExpiry
      | Some e \<Rightarrow>
          if e \<le> now_secs then GraceExpired (now_secs - e)
          else if e - now_secs \<le> grace_period_secs then GraceWarning ((e - now_secs) div 86400)
          else GraceOk)"

end
