(* ===== verification/Rotation_Claims.thy ===== *)
theory Rotation_Claims
  imports Rotation_Schedule
begin

text \<open>
  Schedules against the calendar: a schedule stands for the set of its slots, the boundary
  computed is the latest slot, the next rotation the first one to come, and a rotation is due
  exactly when a slot has passed since the last one.
\<close>

subsection \<open>Slots on a grid of periods\<close>

text \<open>
  One slot in every period, whatever the periods are: days, weeks or calendar months.
\<close>

locale slot_grid =
  fixes start slot :: "int \<Rightarrow> int"
  assumes slot_in: "start k \<le> slot k \<and> slot k < start (k + 1)"
begin

lemma start_mono: "j \<le> k \<Longrightarrow> start j \<le> start k"
proof (induction k rule: int_ge_induct)
  case (step i)
  then show ?case using slot_in [of i] by linarith
qed simp

lemma slot_mono: "j \<le> k \<Longrightarrow> slot j \<le> slot k"
  using slot_in [of j] slot_in [of k] start_mono [of "j + 1" k] by (cases "j = k") simp_all

lemma latest:
  assumes "start k \<le> now" and "now < start (k + 1)"
  defines "b \<equiv> if slot k \<le> now then slot k else slot (k - 1)"
  shows "b \<le> now \<and> (\<forall>j. slot j \<le> now \<longrightarrow> slot j \<le> b)"
proof -
  have "slot (k - 1) < start k" using slot_in [of "k - 1"] by simp
  moreover have "slot j \<le> b" if "slot j \<le> now" for j
  proof -
    have "start j < start (k + 1)" using slot_in [of j] that assms(2) by linarith
    then have "j \<le> k" using start_mono [of "k + 1" j] by linarith
    then show ?thesis
      using slot_mono [of j k] slot_mono [of j "k - 1"] that by (cases "j = k") (auto simp: b_def)
  qed
  ultimately show ?thesis using assms(1) by (auto simp: b_def)
qed

lemma first:
  assumes "start k \<le> now" and "now < start (k + 1)"
  defines "b \<equiv> if now < slot k then slot k else slot (k + 1)"
  shows "now < b \<and> (\<forall>j. now < slot j \<longrightarrow> b \<le> slot j)"
proof -
  have "start (k + 1) \<le> slot (k + 1)" using slot_in [of "k + 1"] by simp
  moreover have "b \<le> slot j" if "now < slot j" for j
  proof -
    have "start k < start (j + 1)" using slot_in [of j] that assms(1) by linarith
    then have "k \<le> j" using start_mono [of "j + 1" k] by linarith
    then show ?thesis
      using slot_mono [of k j] slot_mono [of "k + 1" j] that by (cases "j = k") (auto simp: b_def)
  qed
  ultimately show ?thesis using assms(2) by (auto simp: b_def)
qed

lemma boundary_and_next:
  assumes "\<And>t. P t \<longleftrightarrow> (\<exists>k. t = slot k)" and "start k \<le> now" and "now < start (k + 1)"
    and "lb = Some (if slot k \<le> now then slot k else slot (k - 1))"
    and "nr = Some (if now < slot k then slot k else slot (k + 1))"
  shows "\<exists>b n. lb = Some b \<and> P b \<and> b \<le> now \<and> (\<forall>t. P t \<and> t \<le> now \<longrightarrow> t \<le> b)
    \<and> nr = Some n \<and> P n \<and> now < n \<and> (\<forall>t. P t \<and> now < t \<longrightarrow> n \<le> t)"
  using latest [OF assms(2,3)] first [OF assms(2,3)] assms(1,4,5) by (auto split: if_splits)

end

subsection \<open>The three grids\<close>

definition time_of_day :: "rotation_schedule \<Rightarrow> int" where
  "time_of_day s = slot_secs s mod 86400"

definition week_start :: "rotation_schedule \<Rightarrow> int \<Rightarrow> int" where
  "week_start s k = 7 * k + iso_index (sch_weekday s) - 3"

definition month_day :: "rotation_schedule \<Rightarrow> int \<Rightarrow> int" where
  "month_day s k = month_start k
     + max 1 (min (sch_day_of_month s) (month_start (k + 1) - month_start k)) - 1"

lemma time_of_day: "0 \<le> time_of_day s \<and> time_of_day s < 86400"
  by (simp add: time_of_day_def)

interpretation daily: slot_grid "\<lambda>k. 86400 * k" "\<lambda>k. 86400 * k + time_of_day s" for s
  using time_of_day [of s] by unfold_locales auto

interpretation weekly: slot_grid "\<lambda>k. 86400 * week_start s k"
  "\<lambda>k. 86400 * week_start s k + time_of_day s" for s
  using time_of_day [of s] by unfold_locales (auto simp: week_start_def)

interpretation monthly: slot_grid "\<lambda>k. 86400 * month_start k"
  "\<lambda>k. 86400 * month_day s k + time_of_day s" for s
proof unfold_locales
  fix k
  have "month_start k \<le> month_day s k" "month_day s k + 1 \<le> month_start (k + 1)"
    using month_start_step [of k] by (auto simp: month_day_def)
  then show "86400 * month_start k \<le> 86400 * month_day s k + time_of_day s
      \<and> 86400 * month_day s k + time_of_day s < 86400 * month_start (k + 1)"
    using time_of_day [of s] by auto
qed

text \<open>The slots of a schedule, as instants of the calendar.\<close>

definition is_slot :: "rotation_schedule \<Rightarrow> int \<Rightarrow> bool" where
  "is_slot s t \<longleftrightarrow> t mod 86400 = slot_secs s \<and>
     (case sch_strategy s of
        Daily \<Rightarrow> True
      | Weekly \<Rightarrow> (t div 86400 + 3) mod 7 = iso_index (sch_weekday s)
      | Monthly \<Rightarrow> \<exists>y m. 1 \<le> m \<and> m \<le> 12 \<and> t div 86400
          = days_from_civil y m (max 1 (min (sch_day_of_month s) (days_in_month y m)))
      | _ \<Rightarrow> False)"

definition schedule_ok :: "rotation_schedule \<Rightarrow> bool" where
  "schedule_ok s \<longleftrightarrow> 0 \<le> sch_hour s \<and> sch_hour s < 24 \<and> 0 \<le> sch_minute s \<and> sch_minute s < 60"

lemma schedule_ok_time: "schedule_ok s \<Longrightarrow> time_of_day s = slot_secs s \<and> 0 \<le> slot_secs s \<and> slot_secs s < 86400"
  unfolding schedule_ok_def time_of_day_def slot_secs_def by simp

lemma iso_index_range: "0 \<le> iso_index w \<and> iso_index w < 7"
  by (cases w) simp_all

lemma month_day_civil:
  "1 \<le> m \<Longrightarrow> m \<le> 12 \<Longrightarrow>
     days_from_civil y m (max 1 (min (sch_day_of_month s) (days_in_month y m))) = month_day s (month_index y m)"
  using month_start_index [of m y] days_in_month_start [of m y]
  by (simp add: month_day_def days_from_civil_eq)

lemma slot_split: "t mod 86400 = c \<longleftrightarrow> t = 86400 * (t div 86400) + (c :: int)"
  by (simp only: minus_mult_div_eq_mod [symmetric] diff_eq_eq add.commute)

lemma is_slot_daily:
  "schedule_ok s \<Longrightarrow> sch_strategy s = Daily \<Longrightarrow> is_slot s t \<longleftrightarrow> (\<exists>k. t = 86400 * k + time_of_day s)"
  using schedule_ok_time [of s] by (auto simp: is_slot_def slot_split)

lemma is_slot_weekly:
  assumes "schedule_ok s" "sch_strategy s = Weekly"
  shows "is_slot s t \<longleftrightarrow> (\<exists>k. t = 86400 * week_start s k + time_of_day s)"
proof -
  let ?w = "iso_index (sch_weekday s)"
  have c: "time_of_day s = slot_secs s" "0 \<le> slot_secs s" "slot_secs s < 86400"
    using schedule_ok_time [OF assms(1)] by auto
  have w: "(d + 3) mod 7 = ?w \<longleftrightarrow> (\<exists>k. d = week_start s k)" for d
  proof
    assume "(d + 3) mod 7 = ?w"
    then have "d + 3 = 7 * ((d + 3) div 7) + ?w" by (metis mult_div_mod_eq)
    then show "\<exists>k. d = week_start s k" by (intro exI [of _ "(d + 3) div 7"]) (simp add: week_start_def)
  next
    assume "\<exists>k. d = week_start s k"
    then show "(d + 3) mod 7 = ?w" using iso_index_range [of "sch_weekday s"] by (auto simp: week_start_def)
  qed
  have "is_slot s t \<longleftrightarrow> t = 86400 * (t div 86400) + slot_secs s \<and> (\<exists>k. t div 86400 = week_start s k)"
    using assms(2) slot_split w by (simp add: is_slot_def)
  also have "\<dots> \<longleftrightarrow> (\<exists>k. t = 86400 * week_start s k + slot_secs s)"
    using c(2,3) by auto
  finally show ?thesis using c(1) by simp
qed

lemma is_slot_monthly:
  assumes "schedule_ok s" "sch_strategy s = Monthly"
  shows "is_slot s t \<longleftrightarrow> (\<exists>k. t = 86400 * month_day s k + time_of_day s)"
proof -
  have c: "time_of_day s = slot_secs s" "0 \<le> slot_secs s" "slot_secs s < 86400"
    using schedule_ok_time [OF assms(1)] by auto
  have w: "(\<exists>y m. 1 \<le> m \<and> m \<le> 12 \<and> d
      = days_from_civil y m (max 1 (min (sch_day_of_month s) (days_in_month y m))))
      \<longleftrightarrow> (\<exists>k. d = month_day s k)" for d
  proof
    assume "\<exists>k. d = month_day s k"
    then obtain k where k: "d = month_day s k" by blast
    have "1 \<le> k mod 12 + 1" "k mod 12 + 1 \<le> 12" "month_index (k div 12) (k mod 12 + 1) = k"
      by (simp_all add: month_index_def)
    then show "\<exists>y m. 1 \<le> m \<and> m \<le> 12 \<and> d
        = days_from_civil y m (max 1 (min (sch_day_of_month s) (days_in_month y m)))"
      using k month_day_civil by metis
  qed (use month_day_civil in blast)
  have "is_slot s t \<longleftrightarrow> t = 86400 * (t div 86400) + slot_secs s \<and> (\<exists>k. t div 86400 = month_day s k)"
    using assms(2) slot_split w by (simp add: is_slot_def)
  also have "\<dots> \<longleftrightarrow> (\<exists>k. t = 86400 * month_day s k + slot_secs s)"
    using c(2,3) by auto
  finally show ?thesis using c(1) by simp
qed

subsection \<open>The code finds the slots\<close>

lemma wrap64_id: "0 \<le> x \<Longrightarrow> x < 2 ^ 64 \<Longrightarrow> wrap64 x = x"
  by (simp add: wrap64_def)

lemma sat_u64_id: "0 \<le> x \<Longrightarrow> x < 2 ^ 64 \<Longrightarrow> sat_u64 x = x"
  by (simp add: sat_u64_def)

lemma sat_i64_id: "0 \<le> x \<Longrightarrow> x < 2 ^ 63 \<Longrightarrow> sat_i64 x = x"
  by (simp add: sat_i64_def)

lemma div_bounds:
  fixes a n :: int
  assumes "0 < n"
  shows "n * (a div n) \<le> a" and "a < n * (a div n) + n"
  using mult_div_mod_eq [of n a] pos_mod_bound [OF assms, of a] pos_mod_sign [OF assms, of a] by linarith+

lemma day_bounds: "86400 * (now div 86400) \<le> now" "now < 86400 * (now div 86400) + (86400 :: int)"
  by (rule div_bounds, simp)+

text \<open>What both functions return, in terms of the grid of the strategy.\<close>

lemma boundary_daily:
  assumes "schedule_ok s" "sch_strategy s = Daily" "86400 \<le> now" "now < 2 ^ 62"
  defines "k \<equiv> now div 86400"
  shows "last_boundary_before s now =
      Some (if 86400 * k + time_of_day s \<le> now then 86400 * k + time_of_day s
            else 86400 * (k - 1) + time_of_day s)"
    and "next_rotation_after s now =
      Some (if now < 86400 * k + time_of_day s then 86400 * k + time_of_day s
            else 86400 * (k + 1) + time_of_day s)"
proof -
  have c: "time_of_day s = slot_secs s" "0 \<le> slot_secs s" "slot_secs s < 86400"
    using schedule_ok_time [OF assms(1)] by auto
  have k: "86400 * k \<le> now" "now < 86400 * k + 86400" "1 \<le> k"
    using day_bounds [of now] assms(3) by (simp_all add: k_def)
  have w: "wrap64 (k * 86400 + slot_secs s) = k * 86400 + slot_secs s"
    "wrap64 (k * 86400 + slot_secs s + 86400) = k * 86400 + slot_secs s + 86400"
    "sat_u64 (k * 86400 + slot_secs s - 86400) = k * 86400 + slot_secs s - 86400"
    using k c(2,3) assms(4) by (auto intro!: wrap64_id sat_u64_id)
  show "last_boundary_before s now =
      Some (if 86400 * k + time_of_day s \<le> now then 86400 * k + time_of_day s
            else 86400 * (k - 1) + time_of_day s)"
    and "next_rotation_after s now =
      Some (if now < 86400 * k + time_of_day s then 86400 * k + time_of_day s
            else 86400 * (k + 1) + time_of_day s)"
    using assms(2) w c(1)
    by (simp_all add: last_boundary_before_def next_rotation_after_def Let_def k_def [symmetric] algebra_simps)
qed

lemma boundary_weekly:
  assumes "schedule_ok s" "sch_strategy s = Weekly" "1209600 \<le> now" "now < 2 ^ 62"
  defines "k \<equiv> (now div 86400 + 3 - iso_index (sch_weekday s)) div 7"
  defines "slot \<equiv> \<lambda>k. 86400 * week_start s k + time_of_day s"
  shows "86400 * week_start s k \<le> now \<and> now < 86400 * week_start s (k + 1)"
    and "last_boundary_before s now = Some (if slot k \<le> now then slot k else slot (k - 1))"
    and "next_rotation_after s now = Some (if now < slot k then slot k else slot (k + 1))"
proof -
  define d where "d = now div 86400"
  define w where "w = iso_index (sch_weekday s)"
  define r where "r = (d + 3 - w) mod 7"
  have c: "time_of_day s = slot_secs s" "0 \<le> slot_secs s" "slot_secs s < 86400"
    using schedule_ok_time [OF assms(1)] by auto
  have d: "86400 * d \<le> now" "now < 86400 * d + 86400" "14 \<le> d"
    using day_bounds [of now] assms(3) by (simp_all add: d_def)
  have w: "0 \<le> w" "w < 7" using iso_index_range by (simp_all add: w_def)
  have r: "0 \<le> r" "r < 7" by (simp_all add: r_def)
  have start: "week_start s k = d - r"
  proof -
    have "7 * ((d + 3 - w) div 7) + r = d + 3 - w" unfolding r_def by (rule mult_div_mod_eq)
    moreover have "week_start s k = 7 * ((d + 3 - w) div 7) + w - 3"
      by (simp add: week_start_def k_def d_def w_def)
    ultimately show ?thesis by linarith
  qed
  have step: "week_start s (k + 1) = d - r + 7" "week_start s (k - 1) = d - r - 7"
    using start by (simp_all add: week_start_def)
  show "86400 * week_start s k \<le> now \<and> now < 86400 * week_start s (k + 1)"
    unfolding start step using d r by simp
  have ago: "((d + 3) mod 7 + 7 - w) mod 7 = r"
  proof -
    have "((d + 3) mod 7 + 7 - w) mod 7 = ((d + 3) mod 7 + (7 - w)) mod 7" by (simp add: algebra_simps)
    also have "\<dots> = (d + 3 + (7 - w)) mod 7" by (simp only: mod_add_left_eq)
    also have "d + 3 + (7 - w) = d + 3 - w + 7" by simp
    also have "(d + 3 - w + 7) mod 7 = (d + 3 - w) mod 7" by (rule mod_add_self2)
    finally show ?thesis unfolding r_def .
  qed
  have until: "(w + 7 - (d + 3) mod 7) mod 7 = (if r = 0 then 0 else 7 - r)"
  proof -
    have "(w + 7 - (d + 3) mod 7) mod 7 = (w + 7 - (d + 3)) mod 7" by (simp only: mod_diff_right_eq)
    also have "w + 7 - (d + 3) = - (d + 3 - w) + 7" by simp
    also have "(- (d + 3 - w) + 7) mod 7 = (- (d + 3 - w)) mod 7" by (rule mod_add_self2)
    finally show ?thesis by (simp only: r_def zmod_zminus1_eq_if)
  qed
  have in_range: "wrap64 x = x" if "0 \<le> x" "x \<le> 86400 * (d + 20)" for x
    using that d(1) assms(4) by (intro wrap64_id) simp_all
  have earlier: "slot (k - 1) = slot k - 7 * 86400" by (simp add: slot_def start step)
  have "0 \<le> slot (k - 1)" "slot (k - 1) < 2 ^ 64"
    using d r c(2,3) assms(4) by (simp_all add: slot_def step c(1))
  then have "sat_u64 (slot k - 7 * 86400) = slot (k - 1)" unfolding earlier by (rule sat_u64_id)
  then have behind: "wrap64 (wrap64 (wrap64 (d - r) * 86400) + slot_secs s) = slot k"
    "sat_u64 (slot k - 7 * 86400) = slot (k - 1)"
    using in_range [of "d - r"] in_range [of "(d - r) * 86400"] in_range [of "(d - r) * 86400 + slot_secs s"]
      d r c(2,3) by (simp_all add: slot_def start c(1))
  show "last_boundary_before s now = Some (if slot k \<le> now then slot k else slot (k - 1))"
    using assms(2) behind
    by (simp add: last_boundary_before_def Let_def d_def [symmetric] w_def [symmetric] ago)
  have "slot k \<le> now" if "r \<noteq> 0" using that r d c(2,3) by (simp add: slot_def start c(1))
  moreover have "wrap64 (wrap64 ((d + (if r = 0 then 0 else 7 - r)) * 86400) + slot_secs s)
      = (if r = 0 then slot k else slot (k + 1))"
    using in_range [of "d * 86400"] in_range [of "d * 86400 + slot_secs s"]
      in_range [of "(d + (7 - r)) * 86400"] in_range [of "(d + (7 - r)) * 86400 + slot_secs s"]
      d r c(2,3) by (simp add: slot_def start step c(1))
  moreover have "slot (k + 1) = slot k + 7 * 86400" by (simp add: slot_def start step)
  then have "wrap64 (slot k + 7 * 86400) = slot (k + 1)"
    using in_range [of "slot k + 7 * 86400"] d r c(2,3) by (simp add: slot_def start c(1))
  moreover have "now < slot (k + 1)" using d r c(2,3) by (simp add: slot_def step c(1))
  ultimately show "next_rotation_after s now = Some (if now < slot k then slot k else slot (k + 1))"
    using assms(2)
    by (cases "r = 0") (auto simp: next_rotation_after_def Let_def d_def [symmetric] w_def [symmetric] until)
qed

lemma monthly_slot_grid:
  assumes "schedule_ok s" "1 \<le> m" "m \<le> 12" "0 \<le> month_day s (month_index y m)"
    and "month_day s (month_index y m) < 2 ^ 46"
  shows "monthly_slot s y m = 86400 * month_day s (month_index y m) + time_of_day s"
proof -
  let ?d = "month_day s (month_index y m)"
  have c: "time_of_day s = slot_secs s" "0 \<le> slot_secs s" "slot_secs s < 86400"
    using schedule_ok_time [OF assms(1)] by auto
  have "sat_i64 (?d * 86400) = ?d * 86400" "sat_i64 (?d * 86400 + slot_secs s) = ?d * 86400 + slot_secs s"
    using assms(4,5) c(2,3) by (auto intro!: sat_i64_id)
  then show ?thesis
    using month_day_civil [OF assms(2,3), of y s] assms(4) c by (simp add: monthly_slot_def Let_def)
qed

lemma month_day_range: "month_start k \<le> month_day s k \<and> month_day s k < month_start (k + 1)"
  using month_start_step [of k] by (auto simp: month_day_def)

lemma boundary_monthly:
  assumes "schedule_ok s" "sch_strategy s = Monthly" "5356800 \<le> now" "now < 2 ^ 62"
    and ym: "year_month_of now = (y, m)"
  defines "k \<equiv> month_index y m"
  defines "slot \<equiv> \<lambda>k. 86400 * month_day s k + time_of_day s"
  shows "86400 * month_start k \<le> now \<and> now < 86400 * month_start (k + 1)"
    and "last_boundary_before s now = Some (if slot k \<le> now then slot k else slot (k - 1))"
    and "next_rotation_after s now = Some (if now < slot k then slot k else slot (k + 1))"
proof -
  define d where "d = now div 86400"
  have d: "86400 * d \<le> now" "now < 86400 * d + 86400" "62 \<le> d"
    using day_bounds [of now] assms(3) by (simp_all add: d_def)
  have m: "1 \<le> m" "m \<le> 12" and k: "month_start k \<le> d" "d < month_start (k + 1)"
    using year_month_contains [OF ym] by (simp_all add: k_def d_def)
  then show in_month: "86400 * month_start k \<le> now \<and> now < 86400 * month_start (k + 1)"
    using d by auto
  have near: "0 \<le> month_day s j \<and> month_day s j < 2 ^ 46" if "j = k \<or> j = k - 1 \<or> j = k + 1" for j
    using that month_day_range [of j s] month_start_step [of k] month_start_step [of "k - 1"]
      month_start_step [of "k + 1"] k d assms(4) by auto
  have here: "monthly_slot s y m = slot k"
    using monthly_slot_grid [OF assms(1) m, of y] near [of k] by (simp add: k_def slot_def)
  obtain y0 m0 where p: "previous_month y m = (y0, m0)" by fastforce
  have before: "monthly_slot s y0 m0 = slot (k - 1)"
    using previous_month_index [OF m p] monthly_slot_grid [OF assms(1), of m0 y0] near [of "k - 1"]
    by (simp add: k_def slot_def)
  obtain y1 m1 where n: "next_month y m = (y1, m1)" by fastforce
  have after: "monthly_slot s y1 m1 = slot (k + 1)"
    using next_month_index [OF m n] monthly_slot_grid [OF assms(1), of m1 y1] near [of "k + 1"]
    by (simp add: k_def slot_def)
  show "last_boundary_before s now = Some (if slot k \<le> now then slot k else slot (k - 1))"
    using assms(2) by (simp add: last_boundary_before_def ym Let_def here p before)
  have "now < slot (k + 1)"
    using in_month month_day_range [of "k + 1" s] time_of_day [of s] by (auto simp: slot_def)
  then show "next_rotation_after s now = Some (if now < slot k then slot k else slot (k + 1))"
    using assms(2) by (simp add: next_rotation_after_def ym Let_def here n after)
qed

lemma schedule_core:
  assumes "schedule_ok s" and "sch_strategy s \<in> {Daily, Weekly, Monthly}"
    and "5356800 \<le> now" and "now < 2 ^ 62"
  shows "\<exists>b n. last_boundary_before s now = Some b \<and> is_slot s b \<and> b \<le> now
    \<and> (\<forall>t. is_slot s t \<and> t \<le> now \<longrightarrow> t \<le> b)
    \<and> next_rotation_after s now = Some n \<and> is_slot s n \<and> now < n
    \<and> (\<forall>t. is_slot s t \<and> now < t \<longrightarrow> n \<le> t)"
proof -
  consider "sch_strategy s = Daily" | "sch_strategy s = Weekly" | "sch_strategy s = Monthly"
    using assms(2) by auto
  then show ?thesis
  proof cases
    case 1
    have k: "86400 * (now div 86400) \<le> now" "now < 86400 * (now div 86400 + 1)"
      using day_bounds [of now] by (simp_all add: distrib_left)
    have "86400 \<le> now" using assms(3) by simp
    note b = boundary_daily [OF assms(1) 1 this assms(4)]
    show ?thesis
      by (rule daily.boundary_and_next [OF is_slot_daily [OF assms(1) 1] k b])
  next
    case 2
    have "1209600 \<le> now" using assms(3) by simp
    note b = boundary_weekly [OF assms(1) 2 this assms(4)]
    show ?thesis
      by (rule weekly.boundary_and_next [OF is_slot_weekly [OF assms(1) 2]
            conjunct1 [OF b(1)] conjunct2 [OF b(1)] b(2,3)])
  next
    case 3
    obtain y m where "year_month_of now = (y, m)" by fastforce
    note b = boundary_monthly [OF assms(1) 3 assms(3,4) this]
    show ?thesis
      by (rule monthly.boundary_and_next [OF is_slot_monthly [OF assms(1) 3]
            conjunct1 [OF b(1)] conjunct2 [OF b(1)] b(2,3)])
  qed
qed

subsection \<open>Properties\<close>

text \<open>
  C27. The boundary is the latest slot and the next rotation the first one to come: for a daily,
  weekly or monthly schedule with a valid time of day and an instant that is not itself a slot,
  \<open>last_boundary_before\<close> returns the greatest slot of the calendar strictly before the instant, and
  \<open>next_rotation_after\<close> the least slot after it.
\<close>

theorem boundaries_are_slots:
  assumes "schedule_ok s" and "sch_strategy s \<in> {Daily, Weekly, Monthly}"
    and "5356800 \<le> now" and "now < 2 ^ 62" and "\<not> is_slot s now"
  shows "\<exists>b n. last_boundary_before s now = Some b \<and> is_slot s b \<and> b < now
    \<and> (\<forall>t. is_slot s t \<and> t < now \<longrightarrow> t \<le> b)
    \<and> next_rotation_after s now = Some n \<and> is_slot s n \<and> now < n
    \<and> (\<forall>t. is_slot s t \<and> now < t \<longrightarrow> n \<le> t)"
proof -
  obtain b n where *: "last_boundary_before s now = Some b" "is_slot s b" "b \<le> now"
    "\<forall>t. is_slot s t \<and> t \<le> now \<longrightarrow> t \<le> b"
    "next_rotation_after s now = Some n" "is_slot s n" "now < n"
    "\<forall>t. is_slot s t \<and> now < t \<longrightarrow> n \<le> t"
    using schedule_core [OF assms(1-4)] by blast
  moreover have "b < now" using *(2,3) assms(5) by (metis order_le_less)
  ultimately show ?thesis by force
qed

definition month_end_schedule :: rotation_schedule where
  "month_end_schedule =
     \<lparr>sch_strategy = Monthly, sch_hour = 4, sch_minute = 30, sch_weekday = Monday,
      sch_day_of_month = 31, sch_last_rotated = Some 1700000000\<rparr>"

lemma midnight_no_slot: "\<not> is_slot month_end_schedule 1709251200"
  by (simp add: is_slot_def month_end_schedule_def slot_secs_def)

text \<open>On the first of March 2024: the last slot was on the 29th of February.\<close>

theorem boundaries_are_slots_witness:
  "last_boundary_before month_end_schedule 1709251200 = Some 1709181000
    \<and> next_rotation_after month_end_schedule 1709251200 = Some 1711859400
    \<and> is_slot month_end_schedule 1709181000 \<and> is_slot month_end_schedule 1711859400
    \<and> \<not> (\<exists>t. is_slot month_end_schedule t \<and> 1709181000 < t \<and> t < 1711859400)"
proof -
  have e: "last_boundary_before month_end_schedule 1709251200 = Some 1709181000"
    "next_rotation_after month_end_schedule 1709251200 = Some 1711859400" by code_simp+
  have "schedule_ok month_end_schedule" "sch_strategy month_end_schedule \<in> {Daily, Weekly, Monthly}"
    by (simp_all add: schedule_ok_def month_end_schedule_def)
  from boundaries_are_slots [OF this, of 1709251200] e midnight_no_slot
  have "is_slot month_end_schedule 1709181000" "is_slot month_end_schedule 1711859400"
    and all: "\<forall>t. is_slot month_end_schedule t \<and> t < 1709251200 \<longrightarrow> t \<le> 1709181000"
      "\<forall>t. is_slot month_end_schedule t \<and> 1709251200 < t \<longrightarrow> 1711859400 \<le> t" by auto
  moreover have "\<not> (\<exists>t. is_slot month_end_schedule t \<and> 1709181000 < t \<and> t < 1711859400)"
  proof
    assume "\<exists>t. is_slot month_end_schedule t \<and> 1709181000 < t \<and> t < 1711859400"
    then obtain t where t: "is_slot month_end_schedule t" "1709181000 < t" "t < 1711859400" by blast
    then have "t = 1709251200" using all by (meson linorder_neqE_linordered_idom not_le)
    then show False using t(1) midnight_no_slot by simp
  qed
  ultimately show ?thesis using e by blast
qed

text \<open>
  C30. A rotation is due exactly when it should be: for a calendar schedule, at an instant that is
  not itself a slot, when one of its slots lies after the last rotation and before that instant;
  for an interval since a recorded rotation, when that many days have passed since; a secret
  never rotated is due at once under every interval that is not longer than the time since 1970
  (the code counts from there, so longer ones are left out here).
\<close>

theorem rotation_due_exactly:
  assumes "schedule_ok s" and "5356800 \<le> now" and "now < 2 ^ 62" and "\<not> is_slot s now"
    and "0 \<le> last_or_epoch s" and "last_or_epoch s < 2 ^ 62"
    and "\<And>days. sch_strategy s = Interval days \<Longrightarrow> 0 < days \<and> days < 2 ^ 40"
    and "\<And>days. sch_strategy s = Interval days \<Longrightarrow> sch_last_rotated s = None \<Longrightarrow> days * 86400 \<le> now"
  shows "should_rotate_now s now \<longleftrightarrow>
    (case sch_strategy s of
       Never \<Rightarrow> False
     | Interval days \<Rightarrow>
         (case sch_last_rotated s of None \<Rightarrow> True | Some rotated \<Rightarrow> rotated + days * 86400 \<le> now)
     | _ \<Rightarrow> (\<exists>t. is_slot s t \<and> last_or_epoch s < t \<and> t < now))"
proof -
  have grid: "should_rotate_now s now \<longleftrightarrow> (\<exists>t. is_slot s t \<and> last_or_epoch s < t \<and> t < now)"
    if cal: "sch_strategy s \<in> {Daily, Weekly, Monthly}"
  proof -
    obtain b where b: "last_boundary_before s now = Some b" "is_slot s b" "b \<le> now"
      "\<forall>t. is_slot s t \<and> t \<le> now \<longrightarrow> t \<le> b"
      using schedule_core [OF assms(1) cal assms(2,3)] by blast
    have "should_rotate_now s now \<longleftrightarrow> last_or_epoch s < b"
      using b(1) cal by (auto simp: should_rotate_now_def)
    moreover have "b < now" using b(2,3) assms(4) by (metis order_le_less)
    ultimately show ?thesis using b(2,4) by (metis less_le_trans less_imp_le)
  qed
  show ?thesis
  proof (cases "sch_strategy s")
    case Never
    then show ?thesis by (simp add: should_rotate_now_def)
  next
    case (Interval days)
    have "0 < days" "days < 2 ^ 40" using assms(7) [OF Interval] by auto
    then have "interval_due_at s days = last_or_epoch s + days * 86400"
      using assms(5,6) by (simp add: interval_due_at_def DAY_SECS_def sat_u64_id)
    then have "should_rotate_now s now \<longleftrightarrow> last_or_epoch s + days * 86400 \<le> now"
      using Interval \<open>0 < days\<close> by (auto simp: should_rotate_now_def last_boundary_before_def Let_def)
    then show ?thesis
      using Interval assms(8) [OF Interval] by (simp add: last_or_epoch_def split: option.split)
  qed (use grid in simp_all)
qed

theorem rotation_due_exactly_witness:
  "should_rotate_now month_end_schedule 1709251200 \<and> is_slot month_end_schedule 1709181000
    \<and> last_or_epoch month_end_schedule < 1709181000"
proof -
  have ok: "schedule_ok month_end_schedule" by (simp add: schedule_ok_def month_end_schedule_def)
  have l: "last_or_epoch month_end_schedule = 1700000000" "sch_strategy month_end_schedule = Monthly"
    by (simp_all add: last_or_epoch_def month_end_schedule_def)
  have "last_boundary_before month_end_schedule 1709251200 = Some 1709181000" by code_simp
  moreover obtain b where "last_boundary_before month_end_schedule 1709251200 = Some b"
    "is_slot month_end_schedule b"
    using schedule_core [OF ok, of 1709251200] l(2) by auto
  ultimately have slot: "is_slot month_end_schedule 1709181000" by simp
  have "should_rotate_now month_end_schedule 1709251200 \<longleftrightarrow>
      (\<exists>t. is_slot month_end_schedule t \<and> last_or_epoch month_end_schedule < t \<and> t < 1709251200)"
    using rotation_due_exactly [OF ok, of 1709251200] midnight_no_slot by (simp add: l)
  moreover have "(1709181000 :: int) < 1709251200" "last_or_epoch month_end_schedule < 1709181000"
    by (simp_all add: l)
  ultimately show ?thesis using slot by blast
qed

subsection \<open>Where the code and its comments part\<close>

text \<open>
  A secret that was never rotated is not due under an interval longer than the time since 1970,
  although the comment on \<open>Interval\<close> calls it due now.
\<close>

theorem never_rotated_not_due:
  "\<not> should_rotate_now (from_strategy (Interval 30000)) 1760000000"
  by code_simp

text \<open>
  At a slot itself the code returns that slot, although the comment on \<open>last_boundary_before\<close> says
  strictly before.
\<close>

theorem boundary_at_a_slot:
  "last_boundary_before month_end_schedule 1709181000 = Some 1709181000"
  by code_simp

text \<open>
  In the first week of 1970, where a clock that cannot be read puts the code, the weekly boundary
  wraps below zero and back to a boundary after the given instant.
\<close>

theorem weekly_boundary_in_future:
  "last_boundary_before (from_strategy Weekly) 0 = Some 18446744073708698416"
  by code_simp

text \<open>The last day before the expiry is reported with no day remaining, not with at least one.\<close>

theorem grace_on_last_day: "check_expiry 1000 7 999 = GraceFor 0"
  by code_simp

end
