(* ===== verification/Text_Trim.thy ===== *)
theory Text_Trim
  imports Prelude
begin

text \<open>
  Trimming of strings.  A string is its UTF-8 bytes, and \<open>str::trim\<close> strips the characters of
  Unicode's White_Space property, so the white space is the list of their encodings.  Matching an
  encoding at either end of valid UTF-8 is matching the character, because UTF-8 synchronises.
  The lemmas say when nothing is stripped and that stripping leaves a segment.
\<close>

definition white_space :: "string list" where
  "white_space =
     [[CHR 0x09], [CHR 0x0A], [CHR 0x0B], [CHR 0x0C], [CHR 0x0D], [CHR 0x20],
      [CHR 0xC2, CHR 0x85], [CHR 0xC2, CHR 0xA0], [CHR 0xE1, CHR 0x9A, CHR 0x80],
      [CHR 0xE2, CHR 0x80, CHR 0x80], [CHR 0xE2, CHR 0x80, CHR 0x81],
      [CHR 0xE2, CHR 0x80, CHR 0x82], [CHR 0xE2, CHR 0x80, CHR 0x83],
      [CHR 0xE2, CHR 0x80, CHR 0x84], [CHR 0xE2, CHR 0x80, CHR 0x85],
      [CHR 0xE2, CHR 0x80, CHR 0x86], [CHR 0xE2, CHR 0x80, CHR 0x87],
      [CHR 0xE2, CHR 0x80, CHR 0x88], [CHR 0xE2, CHR 0x80, CHR 0x89],
      [CHR 0xE2, CHR 0x80, CHR 0x8A], [CHR 0xE2, CHR 0x80, CHR 0xA8],
      [CHR 0xE2, CHR 0x80, CHR 0xA9], [CHR 0xE2, CHR 0x80, CHR 0xAF],
      [CHR 0xE2, CHR 0x81, CHR 0x9F], [CHR 0xE3, CHR 0x80, CHR 0x80]]"

function strip_any :: "string list \<Rightarrow> string \<Rightarrow> string" where
  "strip_any ws s =
     (case List.find (\<lambda>w. w \<noteq> [] \<and> starts_with s w) ws of
        None \<Rightarrow> s
      | Some w \<Rightarrow> strip_any ws (drop (length w) s))"
  by pat_completeness auto
termination
proof (relation "measure (length \<circ> snd)")
  fix ws s w assume "List.find (\<lambda>w. w \<noteq> [] \<and> starts_with s w) ws = Some w"
  then have "w \<noteq> []" "starts_with s w" by (auto simp: find_Some_iff)
  then have "0 < length w" "0 < length s" by (auto simp: prefix_def)
  then show "((ws, drop (length w) s), ws, s) \<in> measure (length \<circ> snd)" by simp
qed simp

declare strip_any.simps [simp del]

definition trim_start :: "string \<Rightarrow> string" where
  "trim_start s = strip_any white_space s"

definition trim_end :: "string \<Rightarrow> string" where
  "trim_end s = rev (strip_any (map rev white_space) (rev s))"

definition trim :: "string \<Rightarrow> string" where
  "trim s = trim_end (trim_start s)"

text \<open>\<open>trim_start_matches\<close> and \<open>trim_end_matches\<close> with blanks.\<close>

definition is_blank :: "char \<Rightarrow> bool" where
  "is_blank c = (c = CHR '' '' \<or> c = CHR 0x09)"

definition blanks :: "string \<Rightarrow> nat" where
  "blanks s = length (takeWhile is_blank s)"

definition trim_blanks_end :: "string \<Rightarrow> string" where
  "trim_blanks_end s = rev (dropWhile is_blank (rev s))"

subsection \<open>Lemmas\<close>

lemma strip_any_id: "\<forall>w \<in> set ws. w = [] \<or> \<not> starts_with s w \<Longrightarrow> strip_any ws s = s"
  by (subst strip_any.simps) (auto simp: find_None_iff [THEN iffD2])

lemma strip_any_suffix: "\<exists>p. s = p @ strip_any ws s"
proof (induction ws s rule: strip_any.induct)
  case (1 ws s)
  show ?case
  proof (cases "List.find (\<lambda>w. w \<noteq> [] \<and> starts_with s w) ws")
    case None
    then show ?thesis by (subst strip_any.simps) simp
  next
    case (Some w)
    obtain p where "drop (length w) s = p @ strip_any ws (drop (length w) s)" using 1 [OF Some] by blast
    then have "s = (take (length w) s @ p) @ strip_any ws (drop (length w) s)"
      by (metis append.assoc append_take_drop_id)
    moreover have "strip_any ws s = strip_any ws (drop (length w) s)"
      using Some by (subst strip_any.simps) simp
    ultimately show ?thesis by metis
  qed
qed

lemma trim_start_suffix: "\<exists>p. s = p @ trim_start s"
  unfolding trim_start_def by (rule strip_any_suffix)

lemma trim_end_prefix: "\<exists>q. s = trim_end s @ q"
  unfolding trim_end_def using strip_any_suffix [of "rev s" "map rev white_space"]
  by (metis rev_append rev_rev_ident)

lemma trim_segment: "\<exists>p q. s = p @ trim s @ q"
  unfolding trim_def using trim_start_suffix trim_end_prefix by metis

lemma set_trim: "set (trim s) \<subseteq> set s"
  using trim_segment [of s] by (metis Un_subset_iff le_supE order_refl set_append)

text \<open>Printable ASCII text that is not surrounded by blanks is left alone.\<close>

lemma white_not_graphic: "list_all (list_all (\<lambda>c. \<not> is_ascii_graphic c)) white_space"
  by code_simp

lemma graphic_no_white:
  "w \<in> set white_space \<Longrightarrow> c \<in> set w \<Longrightarrow> \<not> is_ascii_graphic c"
  using white_not_graphic by (auto simp: list_all_iff)

lemma strip_graphic:
  assumes "\<forall>c \<in> set s. is_ascii_graphic c"
  shows "strip_any white_space s = s" "strip_any (map rev white_space) s = s"
proof -
  have n: "\<not> starts_with s w" if "w \<in> set white_space \<or> w \<in> set (map rev white_space)" "w \<noteq> []" for w
  proof
    assume "starts_with s w"
    then have "set w \<subseteq> set s" by (auto simp: prefix_def)
    moreover obtain c where "c \<in> set w" using \<open>w \<noteq> []\<close> by (cases w) auto
    moreover have "\<not> is_ascii_graphic d" if "d \<in> set w" for d
      using \<open>w \<in> set white_space \<or> _\<close> that graphic_no_white by auto
    ultimately show False using assms by auto
  qed
  show "strip_any white_space s = s" using n by (intro strip_any_id) blast
  show "strip_any (map rev white_space) s = s" using n by (intro strip_any_id) blast
qed

lemma trim_graphic:
  assumes "\<forall>c \<in> set s. is_ascii_graphic c"
  shows "trim s = s"
  using assms strip_graphic [of s] strip_graphic [of "rev s"]
  by (simp add: trim_def trim_start_def trim_end_def)

lemma trim_line:
  assumes "\<forall>c \<in> set s. is_ascii_graphic c" and "s \<noteq> []"
  shows "trim (s @ [CHR 0x0A]) = s"
proof -
  obtain c t where s: "s = c # t" using assms(2) by (cases s) auto
  have "strip_any white_space (s @ [CHR 0x0A]) = s @ [CHR 0x0A]"
  proof (rule strip_any_id, intro ballI)
    fix w assume w: "w \<in> set white_space"
    show "w = [] \<or> \<not> starts_with (s @ [CHR 0x0A]) w"
      using graphic_no_white [OF w, of c] assms(1) s by (cases w) auto
  qed
  moreover have "strip_any (map rev white_space) (CHR 0x0A # rev s) = strip_any (map rev white_space) (rev s)"
    by (subst strip_any.simps) (simp add: white_space_def)
  ultimately show ?thesis
    using strip_graphic(2) [of "rev s"] assms(1) by (simp add: trim_def trim_start_def trim_end_def)
qed

end
