(* ===== verification/Env_Scope.thy ===== *)
theory Env_Scope
  imports Text_Trim
begin

text \<open>
  \<open>phantom-core/src/env_scope.rs\<close>: environment names, the vault keys they scope, and the active
  environment selector.  The selector file is the result of reading it (an error, no file, or its
  text).
\<close>

definition DEFAULT_ENV :: string where "DEFAULT_ENV = ''default''"

definition namespaced_key :: "string \<Rightarrow> string \<Rightarrow> string" where
  "namespaced_key env name = env @ ''/'' @ name"

definition split_key :: "string \<Rightarrow> (string \<times> string) option" where
  "split_key key = split_once (CHR ''/'') key"

datatype env_error = BadLength | BadCharacter | SelectorUnreadable | SelectorNotUtf8

definition validate_env_name :: "string \<Rightarrow> (unit, env_error) result" where
  "validate_env_name name =
     (if name = [] \<or> 64 < length name then Err BadLength
      else if \<not> list_all (\<lambda>c. is_ascii_alphanumeric c \<or> c = CHR ''-'' \<or> c = CHR ''_'') name
        then Err BadCharacter
      else Ok ())"

text \<open>The selector: what \<open>read_regular_file\<close> returned, and whether the bytes are UTF-8.\<close>

definition read_active_env ::
  "(string \<Rightarrow> bool) \<Rightarrow> (string option, unit) result \<Rightarrow> (string, env_error) result" where
  "read_active_env is_utf8 file =
     and_then (map_err (\<lambda>_. SelectorUnreadable) file) (\<lambda>bytes.
     and_then (case bytes of
         None \<Rightarrow> Ok []
       | Some b \<Rightarrow> if is_utf8 b then Ok b else Err SelectorNotUtf8) (\<lambda>contents.
       let name = (if trim contents = [] then DEFAULT_ENV else trim contents) in
       and_then (validate_env_name name) (\<lambda>_. Ok name)))"

definition active_env_text :: "string \<Rightarrow> string" where
  "active_env_text env_name = env_name @ [CHR 0x0A]"

definition resolve_env ::
  "(string \<Rightarrow> bool) \<Rightarrow> (string option, unit) result \<Rightarrow> string option \<Rightarrow> (string, env_error) result" where
  "resolve_env is_utf8 file flag =
     (case flag of
        Some f \<Rightarrow> and_then (validate_env_name f) (\<lambda>_. Ok f)
      | None \<Rightarrow> read_active_env is_utf8 file)"

definition known_envs_from_keys :: "string list \<Rightarrow> string \<Rightarrow> string list" where
  "known_envs_from_keys keys current_env =
     btree_collect ([DEFAULT_ENV, current_env] @ List.map_filter (\<lambda>k. map_option fst (split_key k)) keys)"

subsection \<open>Lemmas\<close>

definition valid_env :: "string \<Rightarrow> bool" where
  "valid_env env \<longleftrightarrow> validate_env_name env = Ok ()"

lemma valid_env_iff: "valid_env env \<longleftrightarrow> env \<noteq> [] \<and> length env \<le> 64
    \<and> (\<forall>c \<in> set env. is_ascii_alphanumeric c \<or> c = CHR ''-'' \<or> c = CHR ''_'')"
  by (auto simp: valid_env_def validate_env_name_def list_all_iff split: if_splits)

lemma env_char_no_slash: "is_ascii_alphanumeric c \<or> c = CHR ''-'' \<or> c = CHR ''_'' \<Longrightarrow>
    c \<noteq> CHR ''/'' \<and> is_ascii_graphic c"
  by (auto simp: byte_defs)

lemma valid_env_no_slash: "valid_env env \<Longrightarrow> CHR ''/'' \<notin> set env"
  using env_char_no_slash by (auto simp: valid_env_iff)

lemma split_namespaced: "valid_env env \<Longrightarrow> split_key (namespaced_key env name) = Some (env, name)"
  using valid_env_no_slash by (simp add: split_key_def namespaced_key_def split_once_Some)

lemma namespaced_key_inj:
  "valid_env e \<Longrightarrow> valid_env f \<Longrightarrow> namespaced_key e n = namespaced_key f m \<longleftrightarrow> e = f \<and> n = m"
  using split_namespaced by (metis option.inject prod.inject)

lemma trim_valid: "valid_env env \<Longrightarrow> trim (active_env_text env) = env"
  using env_char_no_slash unfolding active_env_text_def by (intro trim_line) (auto simp: valid_env_iff)

lemma read_active_valid: "read_active_env u file = Ok env \<Longrightarrow> valid_env env"
  by (auto simp: read_active_env_def res_simps valid_env_def Let_def split: option.splits if_splits)

lemma resolve_valid: "resolve_env u file flag = Ok env \<Longrightarrow> valid_env env"
  using read_active_valid by (auto simp: resolve_env_def res_simps valid_env_def split: option.splits)

end
