(* ===== verification/Rotation_Gate.thy ===== *)
theory Rotation_Gate
  imports Env_Scope Rotation_Schedule Canonical_Json
begin

text \<open>
  The rotation gate: the per-secret overrides of \<open>phantom-core/src/config.rs\<close> it reads, the
  lifecycle metadata of \<open>phantom-vault/src/metadata.rs\<close> and \<open>phantom-vault/src/rotation_gate.rs\<close>.
  The vault is its metadata lookup, which may fail; the clock reading is an argument.  The
  messages are the code's strings.
\<close>

subsection \<open>Overrides and their schedules\<close>

datatype config_error = RotateEveryInvalid | SecretSection string config_error

record secret_override =
  so_rotate_every :: "string option"
  so_rotation_schedule :: "rotation_schedule option"
  so_enforce_rotation_on_access :: bool

record gate_config =
  gc_secrets :: "string \<Rightarrow> secret_override option"
  gc_rotation_policy :: "rotation_schedule option"

definition ascii_lower :: "char \<Rightarrow> char" where
  "ascii_lower c = (if is_ascii_uppercase c then char_of (byte_of c + 32) else c)"

definition to_ascii_lowercase :: "string \<Rightarrow> string" where
  "to_ascii_lowercase s = map ascii_lower s"

fun digits_value :: "string \<Rightarrow> int \<Rightarrow> int" where
  "digits_value [] acc = acc"
| "digits_value (c # s) acc = digits_value s (acc * 10 + (of_char c - 48))"

definition parse_rotate_every :: "string \<Rightarrow> (rotation_schedule, config_error) result" where
  "parse_rotate_every input =
     (let s = to_ascii_lowercase (trim input) in
      if s = [] \<or> last s \<notin> {CHR ''d'', CHR ''w''} then Err RotateEveryInvalid
      else let number = butlast s; days_per_unit = (if last s = CHR ''d'' then 1 else 7) in
      if number = [] \<or> \<not> list_all is_ascii_digit number then Err RotateEveryInvalid
      else let n = digits_value number 0; days = n * days_per_unit in
      if 18446744073709551616 \<le> n \<or> 18446744073709551616 \<le> days
         \<or> 18446744073709551616 \<le> days * 86400 \<or> days = 0
      then Err RotateEveryInvalid
      else Ok (from_strategy
        (if days = 1 then Daily else if days = 7 then Weekly else Interval days)))"

definition resolve_schedule ::
  "secret_override \<Rightarrow> (rotation_schedule option, config_error) result" where
  "resolve_schedule ov =
     (case so_rotation_schedule ov of
        Some sched \<Rightarrow> Ok (Some sched)
      | None \<Rightarrow>
          (case so_rotate_every ov of
             Some s \<Rightarrow> and_then (parse_rotate_every s) (\<lambda>sched. Ok (Some sched))
           | None \<Rightarrow> Ok None))"

definition get_rotation_schedule ::
  "gate_config \<Rightarrow> string \<Rightarrow> (rotation_schedule option, config_error) result" where
  "get_rotation_schedule cfg secret_name =
     (case gc_secrets cfg secret_name of
        None \<Rightarrow> Ok (gc_rotation_policy cfg)
      | Some ov \<Rightarrow>
          and_then (map_err (SecretSection secret_name) (resolve_schedule ov)) (\<lambda>resolved.
            case resolved of
              Some sched \<Rightarrow> Ok (Some sched)
            | None \<Rightarrow> Ok (gc_rotation_policy cfg)))"

subsection \<open>Lifecycle metadata\<close>

record rotation_policy =
  rp_days_ttl :: int
  rp_auto_rotate :: bool

datatype vault_mode = ReadWrite | ReadOnly

record secret_metadata =
  sm_created_at :: "int option"
  sm_rotated_at :: "int option"
  sm_expires_at :: "int option"
  sm_rotation_policy :: "rotation_policy option"
  sm_vault_mode :: vault_mode

definition metadata_new_now :: "int \<Rightarrow> secret_metadata" where
  "metadata_new_now now =
     \<lparr>sm_created_at = Some now, sm_rotated_at = None, sm_expires_at = None,
      sm_rotation_policy = None, sm_vault_mode = ReadWrite\<rparr>"

definition with_expiry :: "int \<Rightarrow> int \<Rightarrow> secret_metadata" where
  "with_expiry days now =
     \<lparr>sm_created_at = Some now, sm_rotated_at = Some now,
      sm_expires_at = Some (wrap64 (now + wrap64 (days * 86400))),
      sm_rotation_policy = Some \<lparr>rp_days_ttl = days, rp_auto_rotate = False\<rparr>,
      sm_vault_mode = ReadWrite\<rparr>"

definition record_rotation :: "int \<Rightarrow> secret_metadata \<Rightarrow> secret_metadata" where
  "record_rotation now m =
     m\<lparr>sm_rotated_at := Some now,
       sm_expires_at := (case sm_rotation_policy m of
           None \<Rightarrow> sm_expires_at m
         | Some policy \<Rightarrow> Some (wrap64 (now + wrap64 (rp_days_ttl policy * 86400)))),
       sm_vault_mode := ReadWrite\<rparr>"

definition is_expired_at :: "int \<Rightarrow> secret_metadata \<Rightarrow> bool" where
  "is_expired_at now m = (case sm_expires_at m of None \<Rightarrow> False | Some e \<Rightarrow> e \<le> now)"

definition days_remaining_at :: "int \<Rightarrow> secret_metadata \<Rightarrow> int option" where
  "days_remaining_at now m = map_option (\<lambda>e.
     let secs_left = e - now in
     if secs_left \<le> 0 then min (secs_left div 86400) (- 1) else secs_left div 86400) (sm_expires_at m)"

definition in_expiry_report :: "int \<Rightarrow> int \<Rightarrow> bool" where
  "in_expiry_report days_remaining warn_days =
     (days_remaining < 0 \<or> (0 < warn_days \<and> days_remaining \<le> as_i64 warn_days))"

definition ttl_status :: "int \<Rightarrow> secret_metadata \<Rightarrow> string" where
  "ttl_status now m =
     (if sm_expires_at m = None then ''no expiry''
      else if is_expired_at now m then ''EXPIRED''
      else let days = (case days_remaining_at now m of None \<Rightarrow> 0 | Some d \<Rightarrow> d) in
        if days = 0 then ''expires today''
        else if days = 1 then ''1 day remaining''
        else show_nat (nat days) @ '' days remaining'')"

definition is_expiring_soon :: "int \<Rightarrow> int \<Rightarrow> secret_metadata \<Rightarrow> bool" where
  "is_expiring_soon now warn_days m =
     (case days_remaining_at now m of
        None \<Rightarrow> False
      | Some days \<Rightarrow> 0 \<le> days \<and> days \<le> as_i64 warn_days)"

fun expiry_label :: "expiry_status \<Rightarrow> string" where
  "expiry_label NoExpiry = ''no expiry set''"
| "expiry_label (ValidFor days_remaining) = show_nat (nat days_remaining) @ '' day(s) remaining''"
| "expiry_label (GraceFor days_remaining) =
     ''WARNING: expires in '' @ show_nat (nat days_remaining) @ '' day(s)''"
| "expiry_label (ExpiredBy secs_overdue) =
     (let days = secs_overdue div 86400 in
      if days = 0 then ''EXPIRED (today)''
      else ''EXPIRED ('' @ show_nat (nat days) @ '' day(s) overdue)'')"

record expired_entry =
  ee_name :: string
  ee_expires_at :: int
  ee_secs_overdue :: int
  ee_status :: string

record expiry_report =
  er_expired :: "expired_entry list"
  er_no_expiry_policy :: "string list"
  er_ok_count :: nat
  er_no_expiry_count :: nat
  er_fail_closed :: bool
  er_pass :: bool

definition report_step ::
  "bool \<Rightarrow> int \<Rightarrow> string \<times> secret_metadata option \<Rightarrow> expiry_report \<Rightarrow> expiry_report" where
  "report_step fail_closed now entry r =
     (case Option.bind (snd entry) sm_expires_at of
        None \<Rightarrow> r\<lparr>er_no_expiry_count := Suc (er_no_expiry_count r),
          er_no_expiry_policy := er_no_expiry_policy r @ (if fail_closed then [fst entry] else [])\<rparr>
      | Some e \<Rightarrow>
          (case check_expiry e 0 now of
             ExpiredBy overdue \<Rightarrow>
               r\<lparr>er_expired := er_expired r @
                 [\<lparr>ee_name = fst entry, ee_expires_at = e, ee_secs_overdue = overdue,
                   ee_status = expiry_label (ExpiredBy overdue)\<rparr>]\<rparr>
           | _ \<Rightarrow> r\<lparr>er_ok_count := Suc (er_ok_count r)\<rparr>))"

definition expiry_enforce_report ::
  "(string \<times> secret_metadata option) list \<Rightarrow> bool \<Rightarrow> int \<Rightarrow> expiry_report" where
  "expiry_enforce_report entries fail_closed now =
     (let r = fold (report_step fail_closed now) entries
        \<lparr>er_expired = [], er_no_expiry_policy = [], er_ok_count = 0, er_no_expiry_count = 0,
         er_fail_closed = fail_closed, er_pass = False\<rparr>
      in r\<lparr>er_pass := (er_expired r = [] \<and> er_no_expiry_policy r = [])\<rparr>)"

subsection \<open>Messages\<close>

fun strategy_str :: "rotation_strategy \<Rightarrow> string" where
  "strategy_str Never = ''never''"
| "strategy_str Daily = ''daily''"
| "strategy_str Weekly = ''weekly''"
| "strategy_str Monthly = ''monthly''"
| "strategy_str (Interval _) = ''interval''"

fun to_label :: "rotation_strategy \<Rightarrow> string" where
  "to_label (Interval days) =
     (if days = 1 then ''every 1 day'' else ''every '' @ show_nat (nat days) @ '' days'')"
| "to_label s = strategy_str s"

text \<open>The command-line names; an interval has none.\<close>

definition strategy_from_str :: "string \<Rightarrow> rotation_strategy option" where
  "strategy_from_str s =
     (let l = to_ascii_lowercase s in
      if l = ''never'' then Some Never
      else if l = ''daily'' then Some Daily
      else if l = ''weekly'' then Some Weekly
      else if l = ''monthly'' then Some Monthly
      else None)"

definition weekday_from_str :: "string \<Rightarrow> weekday option" where
  "weekday_from_str s =
     (let l = to_ascii_lowercase s in
      if l \<in> {''monday'', ''mon''} then Some Monday
      else if l \<in> {''tuesday'', ''tue''} then Some Tuesday
      else if l \<in> {''wednesday'', ''wed''} then Some Wednesday
      else if l \<in> {''thursday'', ''thu''} then Some Thursday
      else if l \<in> {''friday'', ''fri''} then Some Friday
      else if l \<in> {''saturday'', ''sat''} then Some Saturday
      else if l \<in> {''sunday'', ''sun''} then Some Sunday
      else None)"

definition ordinal_suffix :: "int \<Rightarrow> string" where
  "ordinal_suffix day =
     (if day mod 100 \<in> {11, 12, 13} then ''th''
      else if day mod 10 = 1 then ''st''
      else if day mod 10 = 2 then ''nd''
      else if day mod 10 = 3 then ''rd''
      else ''th'')"

text \<open>\<open>{:02}\<close> and the derived \<open>Debug\<close> name of a weekday.\<close>

definition two_digits :: "int \<Rightarrow> string" where
  "two_digits n = (if n < 10 then ''0'' else []) @ show_nat (nat n)"

fun weekday_name :: "weekday \<Rightarrow> string" where
  "weekday_name Monday = ''Monday''"
| "weekday_name Tuesday = ''Tuesday''"
| "weekday_name Wednesday = ''Wednesday''"
| "weekday_name Thursday = ''Thursday''"
| "weekday_name Friday = ''Friday''"
| "weekday_name Saturday = ''Saturday''"
| "weekday_name Sunday = ''Sunday''"

definition describe_schedule :: "rotation_schedule \<Rightarrow> string" where
  "describe_schedule s =
     (let at = two_digits (sch_hour s) @ '':'' @ two_digits (sch_minute s) @ '' UTC'' in
      case sch_strategy s of
        Never \<Rightarrow> ''never''
      | Daily \<Rightarrow> ''daily@'' @ at
      | Weekly \<Rightarrow> ''weekly@'' @ weekday_name (sch_weekday s) @ '':'' @ at
      | Monthly \<Rightarrow> ''monthly@'' @ show_nat (nat (sch_day_of_month s))
          @ ordinal_suffix (sch_day_of_month s) @ '':'' @ at
      | Interval _ \<Rightarrow> to_label (sch_strategy s))"

definition overdue_description :: "rotation_schedule \<Rightarrow> int \<Rightarrow> string option" where
  "overdue_description s now_secs =
     Option.bind (seconds_overdue s now_secs) (\<lambda>secs.
       if secs \<le> 0 then None
       else let days = secs div 86400 in
         if days = 0 then Some ''less than 1 day past schedule''
         else if days = 1 then Some ''1 day past schedule''
         else Some (show_nat (nat days) @ '' days past schedule''))"

definition error_message :: "enforcement_status \<Rightarrow> string \<Rightarrow> string option" where
  "error_message status name =
     (let fix_text = ''Rotate the credential at its provider, then replace it from a trusted terminal with `phantom remove ''
            @ name @ ''` followed by `phantom add '' @ name
            @ ''`, or set `enforce_rotation_on_access = false` under [phantom.secrets.'' @ name
            @ ''] in .phantom.toml.'';
          secret = ''Secret '' @ [CHR 0x27] @ name @ [CHR 0x27]
      in case status of
        EnforcementDisabled \<Rightarrow> None
      | EnforcementOk \<Rightarrow> None
      | NoSchedule \<Rightarrow> Some (secret
          @ '' has enforce_rotation_on_access = true but no rotation schedule to enforce; set `rotate_every` (such as ''
          @ [CHR 0x22] @ ''90d'' @ [CHR 0x22] @ '') under [phantom.secrets.'' @ name
          @ ''] or a [phantom.rotation_policy]. Or set `enforce_rotation_on_access = false` under [phantom.secrets.''
          @ name @ ''] in .phantom.toml.'')
      | NoAnchor \<Rightarrow> Some (secret
          @ '' has rotation enforcement on, but its vault entry records no time it was stored or rotated, so its age is unknown. ''
          @ fix_text)
      | AnchorInFuture \<Rightarrow> Some (secret
          @ '' has rotation enforcement on, but its vault entry records a store or rotation time in the future, so its age is unknown. ''
          @ fix_text)
      | Overdue age strategy \<Rightarrow> Some (secret @ '' was stored or last rotated ''
          @ show_nat (nat (age div 86400)) @ '' '' @ (if age div 86400 = 1 then ''day'' else ''days'')
          @ '' ago (schedule: '' @ to_label strategy @ '') and is overdue for rotation. '' @ fix_text))"

subsection \<open>The gate\<close>

record gate_target =
  gt_key :: string
  gt_entry :: "string option"

datatype 'e rotation_gate_error = GateSchedule config_error | GateMetadata string 'e

definition rotation_anchor :: "secret_metadata option \<Rightarrow> int option" where
  "rotation_anchor metadata = Option.bind metadata (\<lambda>m.
     case (sm_created_at m, sm_rotated_at m) of
       (Some created, Some rotated) \<Rightarrow> Some (max created rotated)
     | (Some created, None) \<Rightarrow> Some created
     | (None, rotated) \<Rightarrow> rotated)"

definition injected_entry :: "string list \<Rightarrow> string \<Rightarrow> string \<Rightarrow> string option" where
  "injected_entry vault_names key active_env =
     (case List.find (\<lambda>name. name = namespaced_key active_env key) vault_names of
        Some name \<Rightarrow> Some name
      | None \<Rightarrow> if active_env = DEFAULT_ENV then List.find (\<lambda>name. name = key) vault_names else None)"

definition session_targets :: "string list \<Rightarrow> string \<Rightarrow> string list \<Rightarrow> gate_target list" where
  "session_targets vault_names active_env keys =
     map (\<lambda>key. \<lparr>gt_key = key, gt_entry = injected_entry vault_names key active_env\<rparr>) keys"

definition entry_key :: "string \<Rightarrow> string" where
  "entry_key entry = (case split_key entry of None \<Rightarrow> entry | Some (_, name) \<Rightarrow> name)"

definition entry_targets :: "string list \<Rightarrow> gate_target list" where
  "entry_targets entries = map (\<lambda>entry. \<lparr>gt_key = entry_key entry, gt_entry = Some entry\<rparr>) entries"

definition restore_targets :: "string list \<Rightarrow> gate_target list" where
  "restore_targets entries = map (\<lambda>entry. \<lparr>gt_key = entry_key entry, gt_entry = None\<rparr>) entries"

text \<open>The derived order of targets: the key, then no entry before any entry.\<close>

definition target_order :: "gate_target \<Rightarrow> string list" where
  "target_order t = gt_key t # (case gt_entry t of None \<Rightarrow> [] | Some e \<Rightarrow> [e])"

definition enforces :: "gate_config \<Rightarrow> string \<Rightarrow> bool" where
  "enforces cfg key = (case gc_secrets cfg key of None \<Rightarrow> False | Some ov \<Rightarrow> so_enforce_rotation_on_access ov)"

definition target_status ::
  "gate_config \<Rightarrow> (string \<Rightarrow> (secret_metadata option, 'e) result) \<Rightarrow> int \<Rightarrow> gate_target
     \<Rightarrow> (enforcement_status, 'e rotation_gate_error) result" where
  "target_status cfg get_metadata now_secs t =
     and_then (map_err GateSchedule (get_rotation_schedule cfg (gt_key t))) (\<lambda>schedule.
     and_then (case gt_entry t of
         None \<Rightarrow> Ok None
       | Some entry \<Rightarrow>
           and_then (map_err (GateMetadata (gt_key t)) (get_metadata entry)) (\<lambda>m. Ok (rotation_anchor m)))
       (\<lambda>anchor. Ok (check_rotation_enforcement True schedule anchor now_secs)))"

fun refuse_targets ::
  "gate_config \<Rightarrow> (string \<Rightarrow> (secret_metadata option, 'e) result) \<Rightarrow> int \<Rightarrow> gate_target list
     \<Rightarrow> string list \<Rightarrow> (string list, 'e rotation_gate_error) result" where
  "refuse_targets cfg get_metadata now_secs [] refusals = Ok refusals"
| "refuse_targets cfg get_metadata now_secs (t # ts) refusals =
     (if \<not> enforces cfg (gt_key t) then refuse_targets cfg get_metadata now_secs ts refusals
      else and_then (target_status cfg get_metadata now_secs t) (\<lambda>status.
        case error_message status (gt_key t) of
          None \<Rightarrow> refuse_targets cfg get_metadata now_secs ts refusals
        | Some message \<Rightarrow> refuse_targets cfg get_metadata now_secs ts
            (if message \<in> set refusals then refusals else refusals @ [message])))"

definition rotation_refusals ::
  "gate_config \<Rightarrow> (string \<Rightarrow> (secret_metadata option, 'e) result) \<Rightarrow> gate_target list \<Rightarrow> int
     \<Rightarrow> (string list, 'e rotation_gate_error) result" where
  "rotation_refusals cfg get_metadata targets now_secs =
     refuse_targets cfg get_metadata now_secs (remdups_adj (sort_key target_order targets)) []"

fun join_with :: "string \<Rightarrow> string list \<Rightarrow> string" where
  "join_with sep [] = []"
| "join_with sep [s] = s"
| "join_with sep (s # t # ss) = s @ sep @ join_with sep (t # ss)"

definition refusal_summary :: "string \<Rightarrow> string list \<Rightarrow> string option" where
  "refusal_summary action refusals =
     (if refusals = [] then None
      else Some (''Refusing to '' @ action @ '': rotation enforcement blocked ''
        @ show_nat (length refusals) @ '' secret(s).'' @ [CHR 0x0A] @ join_with [CHR 0x0A] refusals))"

fun read_only_entries ::
  "(string \<Rightarrow> (secret_metadata option, 'e) result) \<Rightarrow> string list \<Rightarrow> (string list, string) result" where
  "read_only_entries get_metadata [] = Ok []"
| "read_only_entries get_metadata (name # names) =
     (case get_metadata name of
        Inl _ \<Rightarrow> Err name
      | Inr m \<Rightarrow>
          (let rest = read_only_entries get_metadata names in
           case m of
             None \<Rightarrow> rest
           | Some x \<Rightarrow> if sm_vault_mode x = ReadOnly
               then and_then rest (\<lambda>ns. Ok (([CHR 0x27] @ name @ [CHR 0x27]) # ns)) else rest))"

definition read_only_refusal ::
  "(string \<Rightarrow> (secret_metadata option, 'e) result) \<Rightarrow> string list \<Rightarrow> string \<Rightarrow> string \<Rightarrow> string option" where
  "read_only_refusal get_metadata entries action remedy =
     (case read_only_entries get_metadata (btree_collect entries) of
        Inl name \<Rightarrow> Some (''Refusing to '' @ action
          @ '': could not read lifecycle metadata for '' @ [CHR 0x27] @ name @ [CHR 0x27] @ ''.'')
      | Inr read_only \<Rightarrow>
          if read_only = [] then None
          else Some (''Refusing to '' @ action @ '': '' @ show_nat (length read_only)
            @ '' secret(s) are read-only under their lifecycle policy: '' @ join_with '', '' read_only
            @ ''. '' @ remedy))"

end
