(* ===== verification/Gate_Claims.thy ===== *)
theory Gate_Claims
  imports Rotation_Gate
begin

text \<open>
  The rotation gate and the environment scopes against what they promise: access passes exactly
  when every enforced secret is provably inside its window, a session reads only entries of its
  own environment, and the expiry report partitions the secrets.
\<close>

subsection \<open>Lemmas of the gate\<close>

lemma check_rotation_passes:
  "\<not> is_blocked (check_rotation_enforcement True schedule anchor now) \<longleftrightarrow>
     (\<exists>sched period a. schedule = Some sched \<and> strategy_period_secs (sch_strategy sched) = Some period
        \<and> anchor = Some a \<and> a \<le> now \<and> now - a < period)"
  by (auto simp: check_rotation_enforcement_def split: option.splits)

lemma error_message_None: "error_message status name = None \<longleftrightarrow> \<not> is_blocked status"
  by (cases status) (simp_all add: error_message_def Let_def)

text \<open>A secret whose current value is known to be inside the window of its schedule.\<close>

definition in_window ::
  "gate_config \<Rightarrow> (string \<Rightarrow> (secret_metadata option, 'e) result) \<Rightarrow> int \<Rightarrow> string \<Rightarrow> string option \<Rightarrow> bool" where
  "in_window cfg get_metadata now key entry \<longleftrightarrow>
     (\<exists>sched period e m a. get_rotation_schedule cfg key = Ok (Some sched)
        \<and> strategy_period_secs (sch_strategy sched) = Some period
        \<and> entry = Some e \<and> get_metadata e = Ok (Some m) \<and> rotation_anchor (Some m) = Some a
        \<and> a \<le> now \<and> now - a < period)"

lemma anchor_None [simp]: "rotation_anchor None = None"
  by (simp add: rotation_anchor_def)

lemma target_status_passes:
  "(\<exists>status. target_status cfg gm now t = Ok status \<and> \<not> is_blocked status)
     \<longleftrightarrow> in_window cfg gm now (gt_key t) (gt_entry t)"
proof (cases "gt_entry t")
  case None
  then show ?thesis
    by (auto simp: target_status_def in_window_def res_simps check_rotation_passes)
next
  case (Some e)
  then show ?thesis
    by (cases "gm e"; cases "projr (gm e)")
      (auto simp: target_status_def in_window_def res_simps check_rotation_passes)
qed

lemma refuse_targets_Nil:
  "refuse_targets cfg gm now ts refusals = Ok [] \<longleftrightarrow>
     refusals = [] \<and> (\<forall>t \<in> set ts. enforces cfg (gt_key t)
        \<longrightarrow> in_window cfg gm now (gt_key t) (gt_entry t))"
proof (induction ts arbitrary: refusals)
  case (Cons t ts)
  show ?case
  proof (cases "enforces cfg (gt_key t)")
    case True
    show ?thesis
    proof (cases "target_status cfg gm now t")
      case (Inl e)
      then show ?thesis using True target_status_passes [of cfg gm now t] by auto
    next
      case (Inr status)
      have "in_window cfg gm now (gt_key t) (gt_entry t) \<longleftrightarrow> error_message status (gt_key t) = None"
        using target_status_passes [of cfg gm now t] Inr error_message_None by auto
      then show ?thesis using True Inr Cons by (auto split: option.splits)
    qed
  qed (use Cons in simp)
qed simp

lemma refusals_Nil:
  "rotation_refusals cfg gm targets now = Ok [] \<longleftrightarrow>
     (\<forall>t \<in> set targets. enforces cfg (gt_key t) \<longrightarrow> in_window cfg gm now (gt_key t) (gt_entry t))"
  by (simp add: rotation_refusals_def refuse_targets_Nil)

lemma find_name: "List.find (\<lambda>n. n = x) names = (if x \<in> set names then Some x else None)"
  by (induction names) auto

lemma injected_entry_Some:
  "injected_entry names key env = Some e \<longleftrightarrow> e \<in> set names \<and>
     (e = namespaced_key env key
      \<or> env = DEFAULT_ENV \<and> e = key \<and> namespaced_key env key \<notin> set names)"
  by (auto simp: injected_entry_def find_name)

subsection \<open>Lemmas of the report\<close>

definition expiry_of :: "string \<times> secret_metadata option \<Rightarrow> int option" where
  "expiry_of entry = Option.bind (snd entry) sm_expires_at"

definition expired_at :: "int \<Rightarrow> string \<times> secret_metadata option \<Rightarrow> bool" where
  "expired_at now entry = (case expiry_of entry of None \<Rightarrow> False | Some e \<Rightarrow> e \<le> now)"

definition expired_row :: "int \<Rightarrow> string \<times> secret_metadata option \<Rightarrow> expired_entry" where
  "expired_row now entry =
     \<lparr>ee_name = fst entry, ee_expires_at = the (expiry_of entry),
      ee_secs_overdue = now - the (expiry_of entry),
      ee_status = expiry_label (ExpiredBy (now - the (expiry_of entry)))\<rparr>"

lemma report_step_eq:
  "report_step fc now entry r = r
     \<lparr>er_expired := er_expired r @ (if expired_at now entry then [expired_row now entry] else []),
      er_no_expiry_policy := er_no_expiry_policy r
        @ (if fc \<and> expiry_of entry = None then [fst entry] else []),
      er_ok_count := er_ok_count r + (if expiry_of entry \<noteq> None \<and> \<not> expired_at now entry then 1 else 0),
      er_no_expiry_count := er_no_expiry_count r + (if expiry_of entry = None then 1 else 0)\<rparr>"
  by (auto simp: report_step_def expired_at_def expired_row_def expiry_of_def check_expiry_def Let_def
      split: option.splits)

lemma report_fold:
  "fold (report_step fc now) entries r = r
     \<lparr>er_expired := er_expired r @ map (expired_row now) (filter (expired_at now) entries),
      er_no_expiry_policy := er_no_expiry_policy r
        @ (if fc then map fst (filter (\<lambda>e. expiry_of e = None) entries) else []),
      er_ok_count := er_ok_count r
        + length (filter (\<lambda>e. expiry_of e \<noteq> None \<and> \<not> expired_at now e) entries),
      er_no_expiry_count := er_no_expiry_count r + length (filter (\<lambda>e. expiry_of e = None) entries)\<rparr>"
  by (induction entries arbitrary: r) (auto simp: report_step_eq)

lemma report_counts:
  "length (filter (expired_at now) entries)
     + length (filter (\<lambda>e. expiry_of e \<noteq> None \<and> \<not> expired_at now e) entries)
     + length (filter (\<lambda>e. expiry_of e = None) entries) = length entries"
  by (induction entries) (auto simp: expired_at_def)

subsection \<open>Properties\<close>

text \<open>
  C17. The rotation gate is exact and fails closed: no secret is refused precisely when every
  target whose secret enforces rotation has a readable schedule with a period and a vault entry
  whose metadata proves its value younger than that period.
\<close>

theorem rotation_gate_exact:
  "rotation_refusals cfg get_metadata targets now = Ok [] \<longleftrightarrow>
     (\<forall>t \<in> set targets. enforces cfg (gt_key t) \<longrightarrow>
        (\<exists>sched period e m a. get_rotation_schedule cfg (gt_key t) = Ok (Some sched)
          \<and> strategy_period_secs (sch_strategy sched) = Some period
          \<and> gt_entry t = Some e \<and> get_metadata e = Ok (Some m) \<and> rotation_anchor (Some m) = Some a
          \<and> a \<le> now \<and> now - a < period))"
  using refusals_Nil [of cfg get_metadata targets now] unfolding in_window_def .

definition sample_gate :: gate_config where
  "sample_gate =
     \<lparr>gc_secrets = [''API_KEY'' \<mapsto> \<lparr>so_rotate_every = Some '' 90D '', so_rotation_schedule = None,
         so_enforce_rotation_on_access = True\<rparr>],
      gc_rotation_policy = None\<rparr>"

definition sample_vault :: "string \<Rightarrow> (secret_metadata option, unit) result" where
  "sample_vault entry =
     (if entry = ''dev/API_KEY'' then Ok (Some (record_rotation 1700000000 (metadata_new_now 1600000000)))
      else if entry = ''API_KEY'' then Ok (Some (metadata_new_now 1600000000)) else Err ())"

definition sample_names :: "string list" where
  "sample_names = [''API_KEY'', ''dev/API_KEY'', ''prod/API_KEY'']"

theorem rotation_gate_exact_witness:
  "rotation_refusals sample_gate sample_vault (entry_targets [''dev/API_KEY'']) 1700086400 = Ok []
    \<and> rotation_refusals sample_gate sample_vault (entry_targets [''API_KEY'']) 1700086400 \<noteq> Ok []
    \<and> rotation_refusals sample_gate sample_vault (entry_targets [''prod/API_KEY'']) 1700086400 \<noteq> Ok []"
proof -
  have s: "get_rotation_schedule sample_gate ''API_KEY'' = Ok (Some (from_strategy (Interval 90)))"
    "enforces sample_gate ''API_KEY''" by code_simp+
  have k: "entry_key ''dev/API_KEY'' = ''API_KEY''" "entry_key ''API_KEY'' = ''API_KEY''"
    "entry_key ''prod/API_KEY'' = ''API_KEY''" by code_simp+
  have a: "rotation_anchor (Some (record_rotation 1700000000 (metadata_new_now 1600000000))) = Some 1700000000"
    "rotation_anchor (Some (metadata_new_now 1600000000)) = Some 1600000000" by code_simp+
  have p: "strategy_period_secs (sch_strategy (from_strategy (Interval 90))) = Some 7776000" by code_simp
  show ?thesis
    by (simp add: rotation_gate_exact entry_targets_def k s p sample_vault_def a)
qed

text \<open>
  A session hands out only fresh values of its own environment: when the gate refuses nothing,
  each enforced key resolves to a listed vault entry of the active environment, or to the bare
  legacy entry in the default environment only, and the value of exactly that entry is inside its
  rotation window; no entry of another environment is ever read.
\<close>

theorem session_reads_own_fresh_entries:
  assumes "resolve_env is_utf8 file flag = Ok env"
    and "rotation_refusals cfg get_metadata (session_targets names env keys) now = Ok []"
    and "key \<in> set keys" and "enforces cfg key"
  shows "\<exists>e. injected_entry names key env = Some e \<and> e \<in> set names
    \<and> in_window cfg get_metadata now key (Some e)
    \<and> (e = namespaced_key env key \<or> env = DEFAULT_ENV \<and> e = key)
    \<and> (CHR ''/'' \<notin> set key \<longrightarrow> (\<forall>other name. valid_env other \<longrightarrow> e = namespaced_key other name
          \<longrightarrow> other = env \<and> name = key))"
proof -
  have env: "valid_env env" using resolve_valid [OF assms(1)] .
  have "in_window cfg get_metadata now key (injected_entry names key env)"
    using assms(2-4) by (auto simp: refusals_Nil session_targets_def)
  then obtain e where e: "injected_entry names key env = Some e" "in_window cfg get_metadata now key (Some e)"
    by (auto simp: in_window_def)
  have own: "e \<in> set names" "e = namespaced_key env key \<or> env = DEFAULT_ENV \<and> e = key"
    using e(1) by (auto simp: injected_entry_Some)
  have "other = env \<and> name = key"
    if "CHR ''/'' \<notin> set key" "valid_env other" "e = namespaced_key other name" for other name
  proof -
    have "e \<noteq> key" using that(1,3) by (auto simp: namespaced_key_def)
    then have "namespaced_key env key = namespaced_key other name" using own(2) that(3) by metis
    then show ?thesis using namespaced_key_inj [OF env that(2), THEN iffD1] by blast
  qed
  then show ?thesis using e own by blast
qed

theorem session_reads_own_fresh_entries_witness:
  "injected_entry sample_names ''API_KEY'' ''dev'' = Some ''dev/API_KEY''
    \<and> in_window sample_gate sample_vault 1700086400 ''API_KEY'' (Some ''dev/API_KEY'')"
proof -
  have r: "resolve_env (\<lambda>_. True) (Ok None) (Some ''dev'') = Ok ''dev''" by code_simp
  have g: "rotation_refusals sample_gate sample_vault
      (session_targets sample_names ''dev'' [''API_KEY'']) 1700086400 = Ok []" by code_simp
  have k: "''API_KEY'' \<in> set [''API_KEY'']" "enforces sample_gate ''API_KEY''"
    "injected_entry sample_names ''API_KEY'' ''dev'' = Some ''dev/API_KEY''" by code_simp+
  from session_reads_own_fresh_entries [OF r g k(1,2)] k(3) show ?thesis by auto
qed

text \<open>
  Values of unknown age never pass: a restore or a cloud pull is let through exactly when none
  of the written entries belongs to a secret that enforces rotation.
\<close>

theorem restore_refuses_enforced:
  "rotation_refusals cfg get_metadata (restore_targets entries) now = Ok [] \<longleftrightarrow>
     \<not> (\<exists>e \<in> set entries. enforces cfg (entry_key e))"
  by (auto simp: refusals_Nil restore_targets_def in_window_def)

text \<open>
  The expiry report partitions the secrets: it lists exactly the expired ones, in order and
  with their delay, its three counts add up to all secrets, and it passes precisely when nothing
  has expired and, under \<open>fail_closed\<close>, every secret has an expiry.
\<close>

theorem expiry_report_partition:
  "er_expired (expiry_enforce_report entries fail_closed now)
      = map (expired_row now) (filter (expired_at now) entries)
    \<and> length (er_expired (expiry_enforce_report entries fail_closed now))
        + er_ok_count (expiry_enforce_report entries fail_closed now)
        + er_no_expiry_count (expiry_enforce_report entries fail_closed now) = length entries
    \<and> (er_pass (expiry_enforce_report entries fail_closed now) \<longleftrightarrow>
        \<not> (\<exists>e \<in> set entries. expired_at now e \<or> fail_closed \<and> expiry_of e = None))"
  using report_counts [of now entries]
  by (auto simp: expiry_enforce_report_def Let_def report_fold filter_empty_conv)

text \<open>
  The selector round trip: a valid environment name written to the selector is the one read
  back, and every name that is read or given by flag is valid, so its keys split back into it.
\<close>

theorem selector_round_trip:
  assumes "valid_env env" and "is_utf8 (active_env_text env)"
  shows "read_active_env is_utf8 (Ok (Some (active_env_text env))) = Ok env
    \<and> split_key (namespaced_key env name) = Some (env, name)"
proof -
  have "env \<noteq> []" "validate_env_name env = Ok ()"
    using assms(1) valid_env_iff [of env] valid_env_def [of env] by simp_all
  then show ?thesis
    using assms(2) trim_valid [OF assms(1)] split_namespaced [OF assms(1), of name]
    by (simp add: read_active_env_def Let_def)
qed

theorem selector_round_trip_witness:
  "read_active_env (\<lambda>_. True) (Ok (Some ([CHR ''q'', CHR ''a''] @ [CHR 0x0A]))) = Ok ''qa''
    \<and> split_key (namespaced_key ''qa'' ''a/b'') = Some (''qa'', ''a/b'')"
proof -
  have "valid_env ''qa''" by code_simp
  from selector_round_trip [OF this, of "\<lambda>_. True" "''a/b''"] show ?thesis by (simp add: active_env_text_def)
qed

end
