(* ===== verification/Token_Map.thy ===== *)
theory Token_Map
  imports Prelude "HOL-Library.AList"
begin

text \<open>
  \<open>phantom-core/src/token.rs\<close>: phantom tokens and the bidirectional map between secret names and
  tokens.  The random bytes of a new token are an argument.  The two hash maps are association
  lists with one entry per key; the order of the list is one order in which the map may be
  enumerated, and every caller sorts the names it reads.  The lemmas give the effect of each
  operation on both lookups and the invariant that links them.
\<close>

subsection \<open>Tokens\<close>

definition PHANTOM_PREFIX :: string where "PHANTOM_PREFIX = ''phm_''"

definition TOKEN_RANDOM_BYTES :: nat where "TOKEN_RANDOM_BYTES = 32"

datatype phantom_token = PhantomToken (token_str: string)

definition hex_digit :: "nat \<Rightarrow> char" where
  "hex_digit n = ''0123456789abcdef'' ! (n mod 16)"

definition hex_encode :: "u8 list \<Rightarrow> string" where
  "hex_encode bytes = concat (map (\<lambda>b. [hex_digit (unat b div 16), hex_digit (unat b)]) bytes)"

definition token_generate :: "u8 list \<Rightarrow> phantom_token" where
  "token_generate random = PhantomToken (PHANTOM_PREFIX @ hex_encode (take TOKEN_RANDOM_BYTES random))"

definition is_phantom_token :: "string \<Rightarrow> bool" where
  "is_phantom_token s = starts_with s PHANTOM_PREFIX"

definition token_parse :: "string \<Rightarrow> phantom_token option" where
  "token_parse s = (if starts_with s PHANTOM_PREFIX then Some (PhantomToken s) else None)"

subsection \<open>The map\<close>

record token_map =
  name_to_token :: "(string \<times> phantom_token) list"
  token_to_name :: "(string \<times> string) list"

definition token_map_new :: token_map where
  "token_map_new = \<lparr>name_to_token = [], token_to_name = []\<rparr>"

definition insert_with_token :: "string \<Rightarrow> phantom_token \<Rightarrow> token_map \<Rightarrow> token_map" where
  "insert_with_token name token m =
     m\<lparr>token_to_name := AList.update (token_str token) name (token_to_name m),
       name_to_token := AList.update name token (name_to_token m)\<rparr>"

definition token_map_insert :: "u8 list \<Rightarrow> string \<Rightarrow> token_map \<Rightarrow> phantom_token \<times> token_map" where
  "token_map_insert random name m =
     (let token = token_generate random in
      (token, m\<lparr>token_to_name := AList.update (token_str token) name (token_to_name m),
                name_to_token := AList.update name token (name_to_token m)\<rparr>))"

definition resolve_token :: "token_map \<Rightarrow> string \<Rightarrow> string option" where
  "resolve_token m s = map_of (token_to_name m) s"

definition get_token :: "token_map \<Rightarrow> string \<Rightarrow> phantom_token option" where
  "get_token m name = map_of (name_to_token m) name"

definition secret_names :: "token_map \<Rightarrow> string list" where
  "secret_names m = map fst (name_to_token m)"

definition token_map_len :: "token_map \<Rightarrow> nat" where
  "token_map_len m = length (name_to_token m)"

definition token_map_is_empty :: "token_map \<Rightarrow> bool" where
  "token_map_is_empty m = (name_to_token m = [])"

definition token_map_remove :: "string \<Rightarrow> token_map \<Rightarrow> phantom_token option \<times> token_map" where
  "token_map_remove name m =
     (case map_of (name_to_token m) name of
        None \<Rightarrow> (None, m)
      | Some token \<Rightarrow>
          (Some token, m\<lparr>name_to_token := AList.delete name (name_to_token m),
                         token_to_name := AList.delete (token_str token) (token_to_name m)\<rparr>))"

subsection \<open>Lemmas on tokens\<close>

lemma hex_digit_lower_hex: "is_lower_hex (hex_digit n)"
proof -
  have "hex_digit n \<in> set ''0123456789abcdef''" unfolding hex_digit_def by (rule nth_mem) simp
  then show ?thesis by (simp add: is_lower_hex_code)
qed

lemma set_hex_encode: "c \<in> set (hex_encode bs) \<Longrightarrow> is_lower_hex c"
  by (auto simp: hex_encode_def hex_digit_lower_hex)

lemma length_hex_encode: "length (hex_encode bs) = 2 * length bs"
  by (induction bs) (simp_all add: hex_encode_def)

lemma hex_digit_inj: "hex_digit m = hex_digit n \<Longrightarrow> m mod 16 = n mod 16"
proof -
  have "distinct ''0123456789abcdef''" by code_simp
  then show "hex_digit m = hex_digit n \<Longrightarrow> m mod 16 = n mod 16"
    unfolding hex_digit_def by (subst (asm) nth_eq_iff_index_eq) auto
qed

lemma two_hex_digits:
  fixes a b :: nat
  assumes "a div 16 mod 16 = b div 16 mod 16" "a mod 16 = b mod 16" "a < 256" "b < 256"
  shows "a = b"
proof -
  have "a div 16 < 16" "b div 16 < 16" using assms(3,4) by (simp_all add: less_mult_imp_div_less)
  then have "a div 16 = b div 16" using assms(1) by simp
  then show ?thesis using assms(2) by (metis div_mult_mod_eq)
qed

lemma hex_encode_inj: "hex_encode as = hex_encode bs \<Longrightarrow> as = bs"
proof (induction as arbitrary: bs)
  case (Cons a as)
  then obtain b bs' where bs: "bs = b # bs'" by (cases bs) (simp_all add: hex_encode_def)
  have "unat a div 16 mod 16 = unat b div 16 mod 16" "unat a mod 16 = unat b mod 16"
    using Cons.prems bs hex_digit_inj [of "unat a div 16" "unat b div 16"] hex_digit_inj [of "unat a" "unat b"]
    by (simp_all add: hex_encode_def)
  moreover have "unat a < 256" "unat b < 256" using unsigned_less [of a] unsigned_less [of b] by auto
  ultimately have "unat a = unat b" by (rule two_hex_digits)
  then have "a = b" by (simp only: unsigned_word_eqI)
  then show ?case using Cons bs by (simp add: hex_encode_def)
qed (cases bs, simp_all add: hex_encode_def)

lemma token_generate_inj:
  assumes "token_generate r = token_generate r'"
  shows "take TOKEN_RANDOM_BYTES r = take TOKEN_RANDOM_BYTES r'"
  using assms hex_encode_inj by (simp add: token_generate_def)

text \<open>A token that can stand in a dotenv value: the prefix and graphic characters that are
  neither quotes nor comment signs nor escapes.\<close>

definition token_char :: "char \<Rightarrow> bool" where
  "token_char c = (is_ascii_alphanumeric c \<or> c = CHR ''_'')"

definition plain_token :: "phantom_token \<Rightarrow> bool" where
  "plain_token t = (is_phantom_token (token_str t) \<and> list_all token_char (token_str t))"

lemma generated_plain: "plain_token (token_generate r)"
proof -
  have "token_char c" if "is_lower_hex c" for c
    using that by (auto simp: token_char_def byte_defs is_lower_hex_def)
  moreover have "list_all token_char PHANTOM_PREFIX" by code_simp
  ultimately show ?thesis
    using set_hex_encode by (auto simp: plain_token_def is_phantom_token_def token_generate_def list_all_iff)
qed

subsection \<open>Lemmas on the map\<close>

lemma get_new [simp]: "get_token token_map_new n = None" "resolve_token token_map_new s = None"
  by (simp_all add: get_token_def resolve_token_def token_map_new_def)

lemma get_insert_with [simp]:
  "get_token (insert_with_token name t m) n = (if n = name then Some t else get_token m n)"
  "resolve_token (insert_with_token name t m) s = (if s = token_str t then Some name else resolve_token m s)"
  by (simp_all add: get_token_def resolve_token_def insert_with_token_def update_conv')

lemma token_map_insert_eq:
  "token_map_insert r name m = (token_generate r, insert_with_token name (token_generate r) m)"
  by (simp add: token_map_insert_def insert_with_token_def Let_def)

lemma get_remove [simp]:
  "get_token (snd (token_map_remove name m)) n = (if n = name then None else get_token m n)"
  "resolve_token (snd (token_map_remove name m)) s =
     (if Some s = map_option token_str (get_token m name) then None else resolve_token m s)"
  by (auto simp: token_map_remove_def get_token_def resolve_token_def delete_conv' split: option.splits)

lemma set_secret_names: "n \<in> set (secret_names m) \<longleftrightarrow> get_token m n \<noteq> None"
  by (force simp: secret_names_def get_token_def map_of_eq_None_iff)

text \<open>Every name's token resolves to that name.\<close>

definition tokens_linked :: "token_map \<Rightarrow> bool" where
  "tokens_linked m \<longleftrightarrow> (\<forall>n t. get_token m n = Some t \<longrightarrow> resolve_token m (token_str t) = Some n)"

definition keys_distinct :: "token_map \<Rightarrow> bool" where
  "keys_distinct m \<longleftrightarrow> distinct (map fst (name_to_token m)) \<and> distinct (map fst (token_to_name m))"

lemma keys_distinct_new: "keys_distinct token_map_new"
  by (simp add: keys_distinct_def token_map_new_def)

lemma keys_distinct_insert: "keys_distinct m \<Longrightarrow> keys_distinct (insert_with_token n t m)"
  by (simp add: keys_distinct_def insert_with_token_def distinct_update)

lemma keys_distinct_remove: "keys_distinct m \<Longrightarrow> keys_distinct (snd (token_map_remove n m))"
  by (auto simp: keys_distinct_def token_map_remove_def distinct_delete split: option.splits)

lemma tokens_linked_new: "tokens_linked token_map_new"
  by (simp add: tokens_linked_def)

lemma tokens_linked_insert:
  "tokens_linked m \<Longrightarrow> resolve_token m (token_str t) = None \<Longrightarrow> tokens_linked (insert_with_token n t m)"
  unfolding tokens_linked_def get_insert_with by (metis option.distinct(1) option.inject)

lemma tokens_linked_remove: "tokens_linked m \<Longrightarrow> tokens_linked (snd (token_map_remove n m))"
  unfolding tokens_linked_def get_remove
  by (metis map_option_eq_Some option.distinct(1) option.inject phantom_token.expand)

end
