(* ===== verification/Dotenv_Parse.thy ===== *)
theory Dotenv_Parse
  imports Text_Trim Token_Map
begin

text \<open>
  The dotenv parser of \<open>phantom-core/src/dotenv.rs\<close>.  Source offsets are byte offsets.  The
  parser's loop is a recursion over the part of the source that is not read yet, whose first
  offset and line number it carries; each scanning function gets that part and its answer is
  relative to it, so the slice \<open>&content[cursor..]\<close> of the code is the argument here.
\<close>

abbreviation LF :: char where "LF \<equiv> CHR 0x0A"
abbreviation CR :: char where "CR \<equiv> CHR 0x0D"
abbreviation DQ :: char where "DQ \<equiv> CHR 0x22"
abbreviation SQ :: char where "SQ \<equiv> CHR 0x27"
abbreviation BACKSLASH :: char where "BACKSLASH \<equiv> CHR 0x5C"

definition UTF8_BOM :: string where "UTF8_BOM = [CHR 0xEF, CHR 0xBB, CHR 0xBF]"

definition substr :: "string \<Rightarrow> nat \<Rightarrow> nat \<Rightarrow> string" where
  "substr s a b = take (b - a) (drop a s)"

definition byte_at :: "string \<Rightarrow> nat \<Rightarrow> char option" where
  "byte_at s i = (if i < length s then Some (s ! i) else None)"

subsection \<open>Documents\<close>

datatype issue_kind =
  MissingEquals | EmptyKey | InvalidKey | UnexpectedByteOrderMark
| UnterminatedDoubleQuote | UnterminatedSingleQuote | UnexpectedCharactersAfterQuotedValue

record parse_issue =
  pi_line :: nat
  pi_column :: nat
  pi_kind :: issue_kind

record env_entry =
  en_key :: string
  en_value :: string
  en_is_phantom :: bool

record parsed_record =
  pr_entry :: env_entry
  pr_record_span :: "nat \<times> nat"
  pr_value_span :: "nat \<times> nat"

record dotenv_file =
  df_source :: string
  df_records :: "parsed_record list"
  df_issues :: "parse_issue list"

subsection \<open>Lines and quotes\<close>

text \<open>The content end and the post-newline end of the physical line a string starts with.\<close>

fun physical_line_bounds :: "string \<Rightarrow> nat \<times> nat" where
  "physical_line_bounds [] = (0, 0)"
| "physical_line_bounds (c # s) =
     (if c = LF then (0, 1)
      else if c = CR then (0, if starts_with s [LF] then 2 else 1)
      else (case physical_line_bounds s of (line_end, next_line) \<Rightarrow> (Suc line_end, Suc next_line)))"

fun find_closing_quote :: "char \<Rightarrow> string \<Rightarrow> nat option" where
  "find_closing_quote quote [] = None"
| "find_closing_quote quote (c # s) =
     (if quote = DQ \<and> c = BACKSLASH
      then (case s of [] \<Rightarrow> None | _ # t \<Rightarrow> map_option (\<lambda>i. i + 2) (find_closing_quote quote t))
      else if c = quote then Some 0
      else map_option Suc (find_closing_quote quote s))"

fun count_line_breaks :: "string \<Rightarrow> nat" where
  "count_line_breaks [] = 0"
| "count_line_breaks (c # s) =
     (if c = CR then Suc (case s of [] \<Rightarrow> 0 | d # t \<Rightarrow> if d = LF then count_line_breaks t else count_line_breaks s)
      else if c = LF then Suc (count_line_breaks s)
      else count_line_breaks s)"

definition count_consumed_lines :: "string \<Rightarrow> nat" where
  "count_consumed_lines s =
     count_line_breaks s + (if ends_with s [LF] \<or> ends_with s [CR] then 0 else 1)"

text \<open>Replace every CRLF by LF, then every CR by LF.\<close>

fun replace_crlf :: "string \<Rightarrow> string" where
  "replace_crlf [] = []"
| "replace_crlf (c # s) =
     (if c = CR then (case s of [] \<Rightarrow> [CR] | d # t \<Rightarrow> if d = LF then LF # replace_crlf t else CR # replace_crlf s)
      else c # replace_crlf s)"

definition normalize_line_endings :: "string \<Rightarrow> string" where
  "normalize_line_endings s = map (\<lambda>c. if c = CR then LF else c) (replace_crlf s)"

fun unescape_double_quoted :: "string \<Rightarrow> string" where
  "unescape_double_quoted [] = []"
| "unescape_double_quoted (c # s) =
     (if c \<noteq> BACKSLASH then c # unescape_double_quoted s
      else (case s of
          [] \<Rightarrow> [BACKSLASH]
        | d # t \<Rightarrow>
            (if d = CHR ''n'' then [LF]
             else if d = CHR ''r'' then [CR]
             else if d = CHR ''t'' then [CHR 0x09]
             else if d = BACKSLASH then [BACKSLASH]
             else if d = DQ then [DQ]
             else if d = SQ then [SQ]
             else [BACKSLASH, d]) @ unescape_double_quoted t))"

subsection \<open>Byte order marks\<close>

text \<open>The line and column of an offset that is \<open>remaining\<close> bytes ahead.\<close>

fun location_from :: "nat \<Rightarrow> nat \<Rightarrow> nat \<Rightarrow> string \<Rightarrow> nat \<times> nat" where
  "location_from remaining line column [] = (line, column)"
| "location_from remaining line column (c # s) =
     (if remaining = 0 then (line, column)
      else if c = CR then
        (case s of
           [] \<Rightarrow> (line + 1, 1)
         | d # t \<Rightarrow> if d = LF then location_from (remaining - 2) (line + 1) 1 t
             else location_from (remaining - 1) (line + 1) 1 s)
      else if c = LF then location_from (remaining - 1) (line + 1) 1 s
      else location_from (remaining - 1) line (column + 1) s)"

definition physical_location :: "string \<Rightarrow> nat \<Rightarrow> nat \<times> nat" where
  "physical_location source offset = location_from offset 1 1 source"

fun bom_offsets :: "nat \<Rightarrow> string \<Rightarrow> nat list" where
  "bom_offsets offset [] = []"
| "bom_offsets offset (c # s) =
     (if starts_with (c # s) UTF8_BOM then offset # bom_offsets (offset + 3) (drop 2 s)
      else bom_offsets (offset + 1) s)"

definition unexpected_bom_issues :: "string \<Rightarrow> parse_issue list" where
  "unexpected_bom_issues source =
     map (\<lambda>offset. case physical_location source offset of (line, column) \<Rightarrow>
            \<lparr>pi_line = line, pi_column = column, pi_kind = UnexpectedByteOrderMark\<rparr>)
       (filter (\<lambda>offset. offset \<noteq> 0) (bom_offsets 0 source))"

definition contains_bom :: "string \<Rightarrow> bool" where
  "contains_bom s = (bom_offsets 0 s \<noteq> [])"

subsection \<open>One record\<close>

text \<open>What a physical line starts with: nothing to read, a line that is no assignment, or a key
  and the offset of its equals sign.\<close>

datatype line_head = HeadSkip | HeadIssue nat issue_kind | HeadAssign string nat

definition key_char :: "char \<Rightarrow> bool" where
  "key_char c = (is_ascii_alphanumeric c \<or> c = CHR ''_'' \<or> c = CHR ''.'' \<or> c = CHR ''-'')"

definition read_head :: "string \<Rightarrow> line_head" where
  "read_head line =
     (let leading = blanks line; trimmed = drop leading line in
      if trimmed = [] \<or> starts_with trimmed ''#'' then HeadSkip
      else let working_start = (if starts_with trimmed ''export '' then leading + 7 else leading);
               working = drop working_start line in
      case find_byte (CHR ''='') working of
        None \<Rightarrow> HeadIssue (leading + 1) MissingEquals
      | Some eq_rel \<Rightarrow>
          (let key = trim (take eq_rel working) in
           if key = [] then HeadIssue (working_start + 1) EmptyKey
           else if contains_bom key then HeadSkip
           else if \<not> list_all key_char key then HeadIssue (working_start + 1) InvalidKey
           else HeadAssign key (working_start + eq_rel)))"

text \<open>The start of an inline comment: a \<open>#\<close> that white space precedes.  \<open>gap\<close> is whether the byte
  before the string counts as white space.\<close>

definition is_ascii_whitespace :: "char \<Rightarrow> bool" where
  "is_ascii_whitespace c = (c \<in> {CHR 0x09, CHR 0x0A, CHR 0x0C, CHR 0x0D, CHR '' ''})"

fun comment_start :: "bool \<Rightarrow> string \<Rightarrow> nat option" where
  "comment_start gap [] = None"
| "comment_start gap (c # s) =
     (if c = CHR ''#'' \<and> gap then Some 0 else map_option Suc (comment_start (is_ascii_whitespace c) s))"

text \<open>
  One turn of the loop.  \<open>rest\<close> is not empty and starts at \<open>cursor\<close>, in the given line.  The last
  two numbers of a result are how many bytes and lines were read.
\<close>

datatype step_result =
  Skipped "parse_issue option" nat nat
| Stopped parse_issue
| Parsed parsed_record "parse_issue option" nat nat

definition parsed :: "string \<Rightarrow> string \<Rightarrow> nat \<times> nat \<Rightarrow> nat \<times> nat \<Rightarrow> parsed_record" where
  "parsed key value record_span value_span =
     \<lparr>pr_entry = \<lparr>en_key = key, en_value = value, en_is_phantom = is_phantom_token value\<rparr>,
      pr_record_span = record_span, pr_value_span = value_span\<rparr>"

definition read_quoted :: "nat \<Rightarrow> nat \<Rightarrow> string \<Rightarrow> string \<Rightarrow> nat \<Rightarrow> char \<Rightarrow> step_result" where
  "read_quoted cursor line_number rest key value_start quote =
     (let inner_start = value_start + 1 in
      case find_closing_quote quote (drop inner_start rest) of
        None \<Rightarrow> Stopped \<lparr>pi_line = line_number, pi_column = value_start + 1,
          pi_kind = (if quote = DQ then UnterminatedDoubleQuote else UnterminatedSingleQuote)\<rparr>
      | Some len \<Rightarrow>
          (let close = inner_start + len;
               (line_end, next_line) = physical_line_bounds (drop close rest);
               closing_line_end = close + line_end; closing_next_line = close + next_line;
               trailing = substr rest (close + 1) closing_line_end;
               trailing_trimmed = drop (blanks trailing) trailing;
               issue = (if trailing_trimmed \<noteq> [] \<and> \<not> starts_with trailing_trimmed ''#''
                 then Some \<lparr>pi_line = line_number + count_line_breaks (take close rest), pi_column = 1,
                            pi_kind = UnexpectedCharactersAfterQuotedValue\<rparr>
                 else None);
               raw = substr rest inner_start close;
               value = (if quote = DQ then unescape_double_quoted (normalize_line_endings raw)
                        else normalize_line_endings raw)
           in Parsed (parsed key value (cursor, cursor + closing_next_line)
                (cursor + inner_start, cursor + close))
                issue closing_next_line (count_consumed_lines (take closing_next_line rest))))"

definition read_unquoted :: "nat \<Rightarrow> string \<Rightarrow> nat \<Rightarrow> string \<Rightarrow> nat \<Rightarrow> bool \<Rightarrow> step_result" where
  "read_unquoted cursor line next_line key value_start gap =
     (let raw = drop value_start line;
          candidate = (case comment_start gap raw of None \<Rightarrow> raw | Some i \<Rightarrow> take i raw);
          value = trim_blanks_end candidate
      in Parsed (parsed key value (cursor, cursor + next_line)
           (cursor + value_start, cursor + (value_start + length value)))
           None next_line 1)"

definition parse_step :: "nat \<Rightarrow> nat \<Rightarrow> string \<Rightarrow> step_result" where
  "parse_step cursor line_number rest =
     (case physical_line_bounds rest of (line_end, next_line) \<Rightarrow>
        (let line = take line_end rest in
         case read_head line of
           HeadSkip \<Rightarrow> Skipped None next_line 1
         | HeadIssue column kind \<Rightarrow>
             Skipped (Some \<lparr>pi_line = line_number, pi_column = column, pi_kind = kind\<rparr>) next_line 1
         | HeadAssign key eq \<Rightarrow>
             (let gap = blanks (drop (eq + 1) line); value_start = eq + 1 + gap in
              case byte_at rest value_start of
                Some quote \<Rightarrow>
                  if quote = DQ \<or> quote = SQ
                  then read_quoted cursor line_number rest key value_start quote
                  else read_unquoted cursor line next_line key value_start (0 < gap)
              | None \<Rightarrow> read_unquoted cursor line next_line key value_start (0 < gap))))"

subsection \<open>The loop reads on\<close>

lemma line_bounds_le:
  "fst (physical_line_bounds s) \<le> snd (physical_line_bounds s)"
  "snd (physical_line_bounds s) \<le> length s"
  by (induction s) (auto split: prod.splits simp: prefix_def)

lemma line_bounds_pos: "s \<noteq> [] \<Longrightarrow> 0 < snd (physical_line_bounds s)"
  by (cases s) (auto split: prod.splits)

lemma closing_quote_less: "find_closing_quote q s = Some n \<Longrightarrow> n < length s"
  by (induction q s arbitrary: n rule: find_closing_quote.induct)
    (force split: if_splits list.splits)+

lemma parse_step_reads:
  assumes "rest \<noteq> []"
  shows "parse_step cursor line_number rest = Skipped i n k \<Longrightarrow> 0 < n \<and> n \<le> length rest"
    and "parse_step cursor line_number rest = Parsed r i n k \<Longrightarrow> 0 < n \<and> n \<le> length rest"
proof -
  have q: "0 < n \<and> n \<le> length rest"
    if step: "read_quoted cursor line_number rest key vs quote = Parsed r i n k" for key vs quote
  proof -
    obtain len where len: "find_closing_quote quote (drop (vs + 1) rest) = Some len"
      using step by (auto simp: read_quoted_def Let_def split: option.splits)
    let ?c = "vs + 1 + len"
    have "n = ?c + snd (physical_line_bounds (drop ?c rest))"
      using step len by (auto simp: read_quoted_def Let_def split: prod.splits)
    moreover have "?c < length rest" using closing_quote_less [OF len] by simp
    ultimately show ?thesis using line_bounds_le(2) [of "drop ?c rest"] by simp
  qed
  have "0 < n \<and> n \<le> length rest" if "n = snd (physical_line_bounds rest)" for n
    using that line_bounds_le(2) line_bounds_pos [OF assms] by simp
  moreover have "read_quoted cursor line_number rest key vs quote \<noteq> Skipped i n k" for key vs quote
    by (auto simp: read_quoted_def Let_def split: option.splits prod.splits)
  ultimately show "parse_step cursor line_number rest = Skipped i n k \<Longrightarrow> 0 < n \<and> n \<le> length rest"
    and "parse_step cursor line_number rest = Parsed r i n k \<Longrightarrow> 0 < n \<and> n \<le> length rest"
    using q by (auto simp: parse_step_def read_unquoted_def Let_def
        split: prod.splits line_head.splits option.splits if_splits)
qed

fun option_list :: "'a option \<Rightarrow> 'a list" where
  "option_list None = []"
| "option_list (Some x) = [x]"

function parse_loop :: "nat \<Rightarrow> nat \<Rightarrow> string \<Rightarrow> parsed_record list \<times> parse_issue list" where
  "parse_loop cursor line_number rest =
     (if rest = [] then ([], [])
      else case parse_step cursor line_number rest of
          Skipped issue n k \<Rightarrow>
            (case parse_loop (cursor + n) (line_number + k) (drop n rest) of
               (records, issues) \<Rightarrow> (records, option_list issue @ issues))
        | Stopped issue \<Rightarrow> ([], [issue])
        | Parsed r issue n k \<Rightarrow>
            (case parse_loop (cursor + n) (line_number + k) (drop n rest) of
               (records, issues) \<Rightarrow> (r # records, option_list issue @ issues)))"
  by pat_completeness auto
termination
  by (relation "measure (\<lambda>(_, _, rest). length rest)") (auto dest: parse_step_reads)

declare parse_loop.simps [simp del]

definition bom_len :: "string \<Rightarrow> nat" where
  "bom_len content = (if starts_with content UTF8_BOM then length UTF8_BOM else 0)"

definition parse_str :: "string \<Rightarrow> dotenv_file" where
  "parse_str content =
     (case parse_loop (bom_len content) 1 (drop (bom_len content) content) of
        (records, issues) \<Rightarrow>
          \<lparr>df_source = content, df_records = records,
           df_issues = sort_key (\<lambda>i. [pi_line i, pi_column i]) (unexpected_bom_issues content @ issues)\<rparr>)"

end
