(* ===== verification/Dotenv_Rewrite.thy ===== *)
theory Dotenv_Rewrite
  imports Dotenv_Parse
begin

text \<open>
  The operations of \<open>phantom-core/src/dotenv.rs\<close> on a parsed document that produce a new source:
  the check before a mutation, the replacement of values by phantom tokens, the removal of a
  mapping, and the appending of new ones.
\<close>

datatype dotenv_error =
  Malformed parse_issue
| DuplicateMapping string
| NotExactlyOne string nat
| NotPhantom string
| InvalidAppendName
| MissingPreparedToken

definition entries :: "dotenv_file \<Rightarrow> env_entry list" where
  "entries f = map pr_entry (df_records f)"

definition entries_with_quote :: "dotenv_file \<Rightarrow> (env_entry \<times> char option) list" where
  "entries_with_quote f = map (\<lambda>r.
     (pr_entry r,
      if fst (pr_value_span r) = 0 then None
      else case byte_at (df_source f) (fst (pr_value_span r) - 1) of
          None \<Rightarrow> None
        | Some b \<Rightarrow> if b = DQ \<or> b = SQ then Some b else None)) (df_records f)"

text \<open>The first key that repeats an earlier one.\<close>

fun first_duplicate :: "string set \<Rightarrow> string list \<Rightarrow> string option" where
  "first_duplicate seen [] = None"
| "first_duplicate seen (k # ks) =
     (if k \<in> seen then Some k else first_duplicate (insert k seen) ks)"

definition validate_for_mutation :: "dotenv_file \<Rightarrow> (unit, dotenv_error) result" where
  "validate_for_mutation f =
     (case df_issues f of
        issue # _ \<Rightarrow> Err (Malformed issue)
      | [] \<Rightarrow> (case first_duplicate {} (map en_key (entries f)) of
            Some key \<Rightarrow> Err (DuplicateMapping key)
          | None \<Rightarrow> Ok ()))"

definition DOTENVX_ENCRYPTED_PREFIX :: string where "DOTENVX_ENCRYPTED_PREFIX = ''encrypted:''"

definition DOTENVX_PUBLIC_KEY_NAME :: string where "DOTENVX_PUBLIC_KEY_NAME = ''DOTENV_PUBLIC_KEY''"

definition is_dotenvx_public_key_name :: "string \<Rightarrow> bool" where
  "is_dotenvx_public_key_name key =
     (key = DOTENVX_PUBLIC_KEY_NAME
      \<or> starts_with key DOTENVX_PUBLIC_KEY_NAME
        \<and> starts_with (drop (length DOTENVX_PUBLIC_KEY_NAME) key) ''_'')"

definition dotenvx_encrypted_entry :: "dotenv_file \<Rightarrow> string option" where
  "dotenvx_encrypted_entry f =
     (if \<not> list_ex (\<lambda>e. is_dotenvx_public_key_name (en_key e)) (entries f) then None
      else map_option en_key
        (List.find (\<lambda>e. starts_with (trim_start (en_value e)) DOTENVX_ENCRYPTED_PREFIX) (entries f)))"

definition is_canonical_env_name :: "string \<Rightarrow> bool" where
  "is_canonical_env_name name =
     (case name of
        [] \<Rightarrow> False
      | c # cs \<Rightarrow> (is_ascii_uppercase c \<or> is_ascii_lowercase c \<or> c = CHR ''_'')
          \<and> list_all (\<lambda>c. is_ascii_alphanumeric c \<or> c = CHR ''_'') cs)"

fun preferred_line_ending :: "string \<Rightarrow> string" where
  "preferred_line_ending [] = [LF]"
| "preferred_line_ending (c # s) =
     (if c = CR then (if starts_with s [LF] then [CR, LF] else [CR])
      else if c = LF then [LF]
      else preferred_line_ending s)"

definition render_replacement :: "string \<Rightarrow> nat \<times> nat \<Rightarrow> string \<Rightarrow> string" where
  "render_replacement source span replacement =
     (if fst span = snd span \<and> byte_at source (snd span) = Some (CHR ''#'')
      then replacement @ '' '' else replacement)"

fun splice_from :: "string \<Rightarrow> nat \<Rightarrow> ((nat \<times> nat) \<times> string) list \<Rightarrow> string" where
  "splice_from source cursor [] = drop cursor source"
| "splice_from source cursor ((span, replacement) # rs) =
     substr source cursor (fst span) @ replacement @ splice_from source (snd span) rs"

definition splice_source :: "string \<Rightarrow> ((nat \<times> nat) \<times> string) list \<Rightarrow> string" where
  "splice_source source replacements = splice_from source 0 replacements"

definition replacement_of :: "dotenv_file \<Rightarrow> token_map \<Rightarrow> parsed_record \<Rightarrow> ((nat \<times> nat) \<times> string) option" where
  "replacement_of f tm r =
     map_option (\<lambda>token. (pr_value_span r, render_replacement (df_source f) (pr_value_span r) (token_str token)))
       (get_token tm (en_key (pr_entry r)))"

definition original_step ::
  "token_map \<Rightarrow> parsed_record \<Rightarrow> (string, string) btree_map \<Rightarrow> (string, string) btree_map" where
  "original_step tm r originals =
     (if get_token tm (en_key (pr_entry r)) \<noteq> None \<and> \<not> en_is_phantom (pr_entry r)
      then bt_insert (en_key (pr_entry r)) (en_value (pr_entry r)) originals else originals)"

definition rewrite_with_phantoms ::
  "dotenv_file \<Rightarrow> token_map \<Rightarrow> (string \<times> (string, string) btree_map, dotenv_error) result" where
  "rewrite_with_phantoms f tm =
     and_then (validate_for_mutation f) (\<lambda>_.
       Ok (splice_source (df_source f) (List.map_filter (replacement_of f tm) (df_records f)),
           fold (original_step tm) (df_records f) []))"

definition remove_phantom_mapping :: "dotenv_file \<Rightarrow> string \<Rightarrow> (string, dotenv_error) result" where
  "remove_phantom_mapping f name =
     and_then (validate_for_mutation f) (\<lambda>_.
       let matching = filter (\<lambda>r. en_key (pr_entry r) = name) (df_records f) in
       if length matching \<noteq> 1 then Err (NotExactlyOne name (length matching))
       else case List.find (\<lambda>r. en_key (pr_entry r) = name) (df_records f) of
           None \<Rightarrow> Err (NotExactlyOne name 0)
         | Some r \<Rightarrow>
             if \<not> en_is_phantom (pr_entry r) then Err (NotPhantom name)
             else Ok (splice_source (df_source f) [(pr_record_span r, [])]))"

text \<open>The appended lines, the last with a line ending only when the source had a terminal one.\<close>

fun append_absent :: "token_map \<Rightarrow> string \<Rightarrow> bool \<Rightarrow> string list \<Rightarrow> string" where
  "append_absent tm eol had_terminal_eol [] = []"
| "append_absent tm eol had_terminal_eol (name # names) =
     name @ ''='' @ (case get_token tm name of None \<Rightarrow> [] | Some token \<Rightarrow> token_str token)
       @ (if names \<noteq> [] \<or> had_terminal_eol then eol else [])
       @ append_absent tm eol had_terminal_eol names"

definition absent_names :: "dotenv_file \<Rightarrow> token_map \<Rightarrow> string list" where
  "absent_names f tm =
     sort (filter (\<lambda>name. name \<notin> set (map en_key (entries f))) (secret_names tm))"

definition upsert_with_phantoms ::
  "dotenv_file \<Rightarrow> token_map \<Rightarrow> (string \<times> (string, string) btree_map, dotenv_error) result" where
  "upsert_with_phantoms f tm =
     and_then (validate_for_mutation f) (\<lambda>_.
       let absent = absent_names f tm in
       if list_ex (\<lambda>name. \<not> is_canonical_env_name name) absent then Err InvalidAppendName
       else if list_ex (\<lambda>name. get_token tm name = None) absent then Err MissingPreparedToken
       else and_then (rewrite_with_phantoms f tm) (\<lambda>(rewritten, originals).
         if absent = [] then Ok (rewritten, originals)
         else let source = df_source f;
                  eol = preferred_line_ending source;
                  had_terminal_eol = (ends_with source [CR] \<or> ends_with source [LF]);
                  body = drop (bom_len source) source
              in Ok (rewritten @ (if body \<noteq> [] \<and> \<not> had_terminal_eol then eol else [])
                   @ append_absent tm eol had_terminal_eol absent, originals)))"

end
