(* ===== verification/Dotenv_Facts.thy ===== *)
theory Dotenv_Facts
  imports Dotenv_Rewrite
begin

text \<open>
  How the parser reads one record.  A record is a piece of text followed by the rest of the
  source: the lemmas give the two shapes of that text (an unquoted and a quoted value), show that
  reading it does not depend on what follows, and that its value can be exchanged.
\<close>

subsection \<open>Pieces of text\<close>

definition plain_line :: "string \<Rightarrow> bool" where
  "plain_line s \<longleftrightarrow> LF \<notin> set s \<and> CR \<notin> set s"

definition eol_ok :: "string \<Rightarrow> string \<Rightarrow> bool" where
  "eol_ok nl tail \<longleftrightarrow> nl = [] \<and> tail = [] \<or> nl = [LF] \<or> nl = [CR, LF] \<or> nl = [CR] \<and> \<not> starts_with tail [LF]"

definition same_start :: "string \<Rightarrow> string \<Rightarrow> bool" where
  "same_start s t \<longleftrightarrow> take 1 s = take 1 t"

lemma plain_line_append [simp]: "plain_line (a @ b) \<longleftrightarrow> plain_line a \<and> plain_line b"
  by (auto simp: plain_line_def)

lemma plain_line_Cons [simp]: "plain_line (c # b) \<longleftrightarrow> c \<noteq> LF \<and> c \<noteq> CR \<and> plain_line b"
  by (auto simp: plain_line_def)

lemma same_start_refl [simp]: "same_start s s"
  by (simp add: same_start_def)

lemma same_start_Nil: "same_start s t \<Longrightarrow> s = [] \<longleftrightarrow> t = []"
  by (cases s; cases t) (auto simp: same_start_def)

lemma same_start_append: "a \<noteq> [] \<Longrightarrow> same_start (a @ s) (a @ t)"
  by (cases a) (auto simp: same_start_def)

lemma same_start_prefix: "same_start s t \<Longrightarrow> starts_with s [c] \<longleftrightarrow> starts_with t [c]"
  by (cases s; cases t) (auto simp: same_start_def)

lemma eol_ok_same: "eol_ok nl tail \<Longrightarrow> same_start tail tail' \<Longrightarrow> eol_ok nl tail'"
  using same_start_Nil same_start_prefix by (auto simp: eol_ok_def)

lemma line_bounds_append:
  "plain_line a \<Longrightarrow> physical_line_bounds (a @ t) =
     (length a + fst (physical_line_bounds t), length a + snd (physical_line_bounds t))"
  by (induction a) (auto split: prod.splits)

lemma line_bounds_eol: "eol_ok nl tail \<Longrightarrow> physical_line_bounds (nl @ tail) = (0, length nl)"
  by (auto simp: eol_ok_def)

lemma line_bounds_line:
  "plain_line a \<Longrightarrow> eol_ok nl tail \<Longrightarrow> physical_line_bounds (a @ nl @ tail) = (length a, length a + length nl)"
  by (simp add: line_bounds_append line_bounds_eol)

lemma line_split:
  obtains a nl tail where "s = a @ nl @ tail" "plain_line a" "eol_ok nl tail"
proof (induction s arbitrary: thesis)
  case Nil
  then show ?case by (metis append.left_neutral eol_ok_def plain_line_def empty_iff empty_set)
next
  case (Cons c s)
  show ?case
  proof (cases "c = LF \<or> c = CR")
    case True
    show ?thesis
    proof (cases "c = CR \<and> starts_with s [LF]")
      case t: True
      then obtain u where "s = LF # u" by (auto simp: prefix_def)
      then show ?thesis using t Cons.prems [of "[]" "[CR, LF]" u] by (simp add: eol_ok_def plain_line_def)
    next
      case False
      then show ?thesis using True Cons.prems [of "[]" "[c]" s] by (auto simp: eol_ok_def plain_line_def)
    qed
  next
    case False
    obtain a nl tail where "s = a @ nl @ tail" "plain_line a" "eol_ok nl tail" using Cons.IH by blast
    then show ?thesis using False Cons.prems [of "c # a" nl tail] by simp
  qed
qed

lemma find_byte_Some:
  "find_byte c s = Some i \<longleftrightarrow> (\<exists>a b. s = a @ c # b \<and> length a = i \<and> c \<notin> set a)"
proof (induction s arbitrary: i)
  case (Cons x s)
  show ?case
  proof (cases "x = c")
    case True
    then show ?thesis by (auto simp: Cons_eq_append_conv)
  next
    case False
    then show ?thesis
      using Cons.IH by (auto simp: Cons_eq_append_conv) (metis length_Cons set_ConsD)+
  qed
qed simp

subsection \<open>Blanks\<close>

definition all_blank :: "string \<Rightarrow> bool" where
  "all_blank s \<longleftrightarrow> (\<forall>c \<in> set s. is_blank c)"

lemma blanks_append: "all_blank g \<Longrightarrow> blanks (g @ s) = length g + blanks s"
  by (induction g) (auto simp: all_blank_def blanks_def)

lemma blanks_nonblank: "s = [] \<or> \<not> is_blank (s ! 0) \<Longrightarrow> blanks s = 0"
  by (cases s) (auto simp: blanks_def)

lemma blanks_split:
  obtains g s' where "s = g @ s'" "all_blank g" "blanks s = length g" "s' = [] \<or> \<not> is_blank (s' ! 0)"
proof
  show "s = takeWhile is_blank s @ dropWhile is_blank s" by simp
  show "all_blank (takeWhile is_blank s)" by (auto simp: all_blank_def dest: set_takeWhileD)
  show "blanks s = length (takeWhile is_blank s)" by (simp add: blanks_def)
  show "dropWhile is_blank s = [] \<or> \<not> is_blank (dropWhile is_blank s ! 0)"
    by (induction s) auto
qed

lemma trim_blanks_end_split:
  obtains b where "s = trim_blanks_end s @ b" "all_blank b"
    "trim_blanks_end s = [] \<or> \<not> is_blank (last (trim_blanks_end s))"
proof
  have "rev s = takeWhile is_blank (rev s) @ dropWhile is_blank (rev s)" by simp
  then show "s = trim_blanks_end s @ rev (takeWhile is_blank (rev s))"
    unfolding trim_blanks_end_def by (metis rev_append rev_rev_ident)
  show "all_blank (rev (takeWhile is_blank (rev s)))" by (auto simp: all_blank_def dest: set_takeWhileD)
  show "trim_blanks_end s = [] \<or> \<not> is_blank (last (trim_blanks_end s))"
    unfolding trim_blanks_end_def by (metis hd_dropWhile last_rev rev_is_Nil_conv)
qed

lemma trim_blanks_end_append:
  assumes "all_blank b" and "t \<noteq> []" and "\<not> is_blank (last t)"
  shows "trim_blanks_end (t @ b) = t"
proof -
  have "dropWhile is_blank (rev b @ rev t) = dropWhile is_blank (rev t)"
    using assms(1) by (intro dropWhile_append2) (auto simp: all_blank_def)
  also have "\<dots> = rev t" using assms(2,3) by (cases t rule: rev_cases) auto
  finally show ?thesis by (simp add: trim_blanks_end_def)
qed

subsection \<open>Comments\<close>

lemma comment_start_Some:
  "comment_start gap s = Some i \<Longrightarrow>
     \<exists>a b. s = a @ CHR ''#'' # b \<and> length a = i \<and> (if a = [] then gap else is_ascii_whitespace (last a))"
proof (induction gap s arbitrary: i rule: comment_start.induct)
  case (2 gap c s)
  show ?case
  proof (cases "c = CHR ''#'' \<and> gap")
    case True
    then have "c # s = [] @ CHR ''#'' # s \<and> length [] = i \<and> gap" using 2(2) by auto
    then show ?thesis by fastforce
  next
    case False
    then have "map_option Suc (comment_start (is_ascii_whitespace c) s) = Some i"
      using 2(2) by (simp split: if_splits)
    then obtain j where j: "comment_start (is_ascii_whitespace c) s = Some j" "i = Suc j" by auto
    from 2(1) [OF False j(1)] obtain a b where ab: "s = a @ CHR ''#'' # b" "length a = j"
      "if a = [] then is_ascii_whitespace c else is_ascii_whitespace (last a)" by auto
    then have "c # s = (c # a) @ CHR ''#'' # b \<and> length (c # a) = i \<and> is_ascii_whitespace (last (c # a))"
      using j(2) by (auto split: if_splits)
    then show ?thesis by (metis list.distinct(1))
  qed
qed simp

lemma comment_start_skip:
  "CHR ''#'' \<notin> set t \<Longrightarrow> t \<noteq> [] \<Longrightarrow>
     comment_start gap (t @ s) = map_option (\<lambda>i. i + length t) (comment_start (is_ascii_whitespace (last t)) s)"
proof (induction t arbitrary: gap)
  case (Cons c t)
  then show ?case
    by (cases "t = []") (auto simp: option.map_comp comp_def)
qed simp

subsection \<open>Closing quotes\<close>

definition closes :: "char \<Rightarrow> string \<Rightarrow> bool" where
  "closes q v \<longleftrightarrow> find_closing_quote q (v @ [q]) = Some (length v)"

lemma closing_quote_split:
  assumes "find_closing_quote q s = Some n"
  shows "\<exists>v t. s = v @ q # t \<and> length v = n \<and> (\<forall>t'. find_closing_quote q (v @ q # t') = Some n)"
  using assms
proof (induction q s arbitrary: n rule: find_closing_quote.induct)
  case (2 q c s)
  consider (escape) "q = DQ" "c = BACKSLASH" | (close) "\<not> (q = DQ \<and> c = BACKSLASH)" "c = q"
    | (other) "\<not> (q = DQ \<and> c = BACKSLASH)" "c \<noteq> q" by blast
  then show ?case
  proof cases
    case escape
    then obtain d u m where s: "s = d # u" "find_closing_quote q u = Some m" "n = m + 2"
      using 2(3) by (auto split: list.splits)
    obtain v t where "u = v @ q # t" "length v = m" "\<forall>t'. find_closing_quote q (v @ q # t') = Some m"
      using 2(1) [OF _ s(1,2)] escape by blast
    then have "c # s = (c # d # v) @ q # t \<and> length (c # d # v) = n
        \<and> (\<forall>t'. find_closing_quote q ((c # d # v) @ q # t') = Some n)"
      using s escape by auto
    then show ?thesis by blast
  next
    case close
    then have "n = 0" using 2(3) by (simp split: if_splits)
    then have "c # s = [] @ q # s \<and> length [] = n
        \<and> (\<forall>t'. find_closing_quote q ([] @ q # t') = Some n)"
      using close by auto
    then show ?thesis by blast
  next
    case other
    then have "map_option Suc (find_closing_quote q s) = Some n" using 2(3) by (simp split: if_splits)
    then obtain m where m: "find_closing_quote q s = Some m" "n = Suc m" by auto
    obtain v t where "s = v @ q # t" "length v = m" "\<forall>t'. find_closing_quote q (v @ q # t') = Some m"
      using 2(2) [OF other m(1)] by blast
    then have "c # s = (c # v) @ q # t \<and> length (c # v) = n
        \<and> (\<forall>t'. find_closing_quote q ((c # v) @ q # t') = Some n)"
      using m other by auto
    then show ?thesis by blast
  qed
qed simp

lemma closing_quote_plain:
  "q \<notin> set v \<Longrightarrow> BACKSLASH \<notin> set v \<Longrightarrow> q \<noteq> BACKSLASH \<Longrightarrow> find_closing_quote q (v @ q # t) = Some (length v)"
  by (induction v) auto

end
