(* ===== verification/Dotenv_Records.thy ===== *)
theory Dotenv_Records
  imports Dotenv_Facts
begin

text \<open>
  The two shapes of a record in the source, as an equivalence: what \<^const>\<open>parse_step\<close> reads is an
  unquoted or a quoted assignment, and every text of such a shape is read as one.  The exchange of
  a value and the independence of the rest of the source follow from the second half.
\<close>

subsection \<open>The head of a line\<close>

definition head_ok :: "string \<Rightarrow> string \<Rightarrow> bool" where
  "head_ok p key \<longleftrightarrow> p \<noteq> [] \<and> (\<forall>y. read_head (p @ CHR ''='' # y) = HeadAssign key (length p))"

lemma prefix_before: "c \<notin> set x \<Longrightarrow> prefix x (a @ c # y) \<longleftrightarrow> prefix x a"
proof (induction a arbitrary: x)
  case Nil
  then show ?case by (cases x) auto
next
  case (Cons d a)
  then show ?case by (cases x) auto
qed

lemma nth0_append: "u \<noteq> [] \<Longrightarrow> (u @ v) ! 0 = u ! 0"
  by (cases u) auto

lemma read_head_intro:
  assumes "all_blank g" and "e = [] \<and> \<not> starts_with a ''export '' \<or> e = ''export ''"
    and "e @ a \<noteq> []" and "\<not> is_blank ((e @ a) ! 0)" and "(e @ a) ! 0 \<noteq> CHR ''#''"
    and "CHR ''='' \<notin> set a" and "trim a \<noteq> []" and "\<not> contains_bom (trim a)"
    and "list_all key_char (trim a)"
  shows "read_head (g @ e @ a @ CHR ''='' # y) = HeadAssign (trim a) (length (g @ e @ a))"
proof -
  let ?t = "e @ a @ CHR ''='' # y"
  have z: "?t ! 0 = (e @ a) ! 0" using nth0_append [OF assms(3), of "CHR ''='' # y"] by simp
  have b: "blanks (g @ ?t) = length g"
    using z assms(4) by (simp add: blanks_append [OF assms(1)] blanks_nonblank)
  have h: "\<not> starts_with ?t ''#''"
    using z assms(3,5) by (cases ?t) (auto simp: prefix_Cons)
  have f: "find_byte (CHR ''='') (a @ CHR ''='' # y) = Some (length a)"
    using assms(6) find_byte_Some by blast
  have x: "starts_with ?t ''export '' \<longleftrightarrow> e = ''export ''"
    using assms(2) prefix_before [of "CHR ''=''" "''export ''" a y] by auto
  have d: "drop (if e = ''export '' then length g + 7 else length g) (g @ ?t) = a @ CHR ''='' # y"
    using assms(2) by auto
  show ?thesis
    using assms(2,3,7-9) b h f x d
    by (auto simp: read_head_def Let_def)
qed

lemma read_head_assign:
  assumes "read_head line = HeadAssign key eq"
  shows "\<exists>p y. line = p @ CHR ''='' # y \<and> length p = eq \<and> head_ok p key"
proof -
  obtain g t where line: "line = g @ t" "all_blank g" "blanks line = length g" "t = [] \<or> \<not> is_blank (t ! 0)"
    by (rule blanks_split)
  define e where "e = (if starts_with t ''export '' then ''export '' else [])"
  define w where "w = drop (length e) t"
  have t: "t = e @ w" by (auto simp: e_def w_def prefix_def)
  have ne: "t \<noteq> []" "\<not> starts_with t ''#''"
    using assms line by (auto simp: read_head_def Let_def split: if_splits)
  have "length e = (if starts_with t ''export '' then 7 else 0)" by (simp add: e_def)
  then have ws: "drop (if starts_with t ''export '' then length g + 7 else length g) line = w"
    by (simp add: line(1) w_def)
  obtain i where i: "find_byte (CHR ''='') w = Some i" "trim (take i w) = key" "key \<noteq> []"
    "\<not> contains_bom key" "list_all key_char key" "eq = length g + length e + i"
    using assms ne ws line(1,3)
    by (auto simp: read_head_def Let_def e_def split: if_splits option.splits)
  obtain a b where a: "w = a @ CHR ''='' # b" "length a = i" "CHR ''='' \<notin> set a"
    using i(1) find_byte_Some by blast
  have key: "key = trim a" using i(2) a by simp
  have "trim [] = []" by (rule trim_graphic) simp
  then have "a \<noteq> []" using i(3) key by auto
  then have z: "(e @ a) ! 0 = t ! 0" using t a(1) nth0_append [of "e @ a" "CHR ''='' # b"] by simp
  have "e = [] \<and> \<not> starts_with a ''export '' \<or> e = ''export ''"
  proof (cases "e = []")
    case True
    then have "\<not> starts_with t ''export ''" by (auto simp: e_def split: if_splits)
    then show ?thesis using True t a(1) prefix_before [of "CHR ''=''" "''export ''" a b] by auto
  qed (simp add: e_def split: if_splits)
  moreover have "(e @ a) ! 0 \<noteq> CHR ''#''" "\<not> is_blank ((e @ a) ! 0)"
    using z ne line(4) by (cases t; auto simp: prefix_Cons)+
  ultimately have "read_head (g @ e @ a @ CHR ''='' # y) = HeadAssign key (length (g @ e @ a))" for y
    using read_head_intro [OF line(2), of e a y] i(3-5) \<open>a \<noteq> []\<close> a(3) unfolding key by blast
  then have "head_ok (g @ e @ a) key" using \<open>a \<noteq> []\<close> by (simp add: head_ok_def)
  then show ?thesis using line(1) t a i(6)
    by (intro exI [of _ "g @ e @ a"] exI [of _ b]) simp
qed

subsection \<open>The two shapes\<close>

definition unquoted_value :: "bool \<Rightarrow> string \<Rightarrow> string" where
  "unquoted_value gap raw =
     trim_blanks_end (case comment_start gap raw of None \<Rightarrow> raw | Some i \<Rightarrow> take i raw)"

definition quoted_value :: "char \<Rightarrow> string \<Rightarrow> string" where
  "quoted_value q v =
     (if q = DQ then unescape_double_quoted (normalize_line_endings v) else normalize_line_endings v)"

definition unquoted_start :: "string \<Rightarrow> bool" where
  "unquoted_start raw \<longleftrightarrow> raw = [] \<or> \<not> is_blank (raw ! 0) \<and> raw ! 0 \<noteq> DQ \<and> raw ! 0 \<noteq> SQ"

definition trailing_ok :: "string \<Rightarrow> bool" where
  "trailing_ok t \<longleftrightarrow> drop (blanks t) t = [] \<or> starts_with (drop (blanks t) t) ''#''"

lemma byte_at_append: "byte_at (u @ s) (length u) = (case s of [] \<Rightarrow> None | c # _ \<Rightarrow> Some c)"
  by (cases s) (auto simp: byte_at_def)

lemma eol_first: "eol_ok nl tail \<Longrightarrow> nl @ tail = [] \<or> (nl @ tail) ! 0 = LF \<or> (nl @ tail) ! 0 = CR"
  by (auto simp: eol_ok_def)

lemma step_unquoted:
  assumes "head_ok p key" and "all_blank g" and "unquoted_start raw"
    and "plain_line (p @ CHR ''='' # g @ raw)" and "eol_ok nl tail"
  shows "parse_step c l (p @ CHR ''='' # g @ raw @ nl @ tail) =
    Parsed (parsed key (unquoted_value (g \<noteq> []) raw)
        (c, c + (length p + 1 + length g + length raw + length nl))
        (c + (length p + 1 + length g),
         c + (length p + 1 + length g + length (unquoted_value (g \<noteq> []) raw))))
      None (length p + 1 + length g + length raw + length nl) 1"
proof -
  let ?line = "p @ CHR ''='' # g @ raw" and ?rest = "p @ CHR ''='' # g @ raw @ nl @ tail"
  have lb: "physical_line_bounds ?rest = (length ?line, length ?line + length nl)"
    using line_bounds_line [OF assms(4,5)] by simp
  have tk: "take (length ?line) ?rest = ?line" by simp
  have h: "read_head ?line = HeadAssign key (length p)" using assms(1) by (simp add: head_ok_def)
  have b: "blanks (drop (length p + 1) ?line) = length g"
    using assms(3) blanks_nonblank [of raw] by (auto simp: blanks_append [OF assms(2)] unquoted_start_def)
  have "byte_at ?rest (length p + 1 + length g) = (case raw @ nl @ tail of [] \<Rightarrow> None | c # _ \<Rightarrow> Some c)"
    using byte_at_append [of "p @ CHR ''='' # g" "raw @ nl @ tail"] by simp
  then have q: "byte_at ?rest (length p + 1 + length g) \<noteq> Some DQ" "byte_at ?rest (length p + 1 + length g) \<noteq> Some SQ"
    using assms(3) eol_first [OF assms(5)] by (cases raw; cases "nl @ tail"; auto simp: unquoted_start_def)+
  have d: "drop (length p + 1 + length g) ?line = raw" by simp
  have "parse_step c l ?rest = read_unquoted c ?line (length ?line + length nl) key (length p + 1 + length g) (g \<noteq> [])"
    unfolding parse_step_def lb prod.case tk Let_def h line_head.case b
    using q by (auto split: option.splits)
  then show ?thesis
    unfolding read_unquoted_def Let_def d unquoted_value_def by (simp add: add.assoc)
qed

lemma step_quoted:
  assumes "head_ok p key" and "all_blank g" and "q = DQ \<or> q = SQ"
    and "plain_line (p @ CHR ''='' # g)" and "find_closing_quote q (v @ q # t @ nl @ tail) = Some (length v)"
    and "plain_line t" and "eol_ok nl tail"
  shows "\<exists>i k. parse_step c l (p @ CHR ''='' # g @ q # v @ q # t @ nl @ tail) =
    Parsed (parsed key (quoted_value q v)
        (c, c + (length p + 3 + length g + length v + length t + length nl))
        (c + (length p + 2 + length g), c + (length p + 2 + length g + length v)))
      i (length p + 3 + length g + length v + length t + length nl) k
    \<and> (i = None \<longleftrightarrow> trailing_ok t)"
proof -
  let ?s = "v @ q # t @ nl @ tail"
  let ?u = "p @ CHR ''='' # g @ [q]"
  let ?rest = "p @ CHR ''='' # g @ q # ?s"
  let ?vs = "length p + 1 + length g"
  have qp: "plain_line [q]" using assms(3) by (auto simp: plain_line_def)
  have lb: "physical_line_bounds ?rest =
      (length ?u + fst (physical_line_bounds ?s), length ?u + snd (physical_line_bounds ?s))"
    using line_bounds_append [of ?u ?s] assms(4) qp by simp
  have tk: "take (length ?u + fst (physical_line_bounds ?s)) ?rest =
      p @ CHR ''='' # g @ q # take (fst (physical_line_bounds ?s)) ?s" by simp
  let ?line = "p @ CHR ''='' # g @ q # take (fst (physical_line_bounds ?s)) ?s"
  have h: "read_head ?line = HeadAssign key (length p)" using assms(1) by (simp add: head_ok_def)
  have "\<not> is_blank q" using assms(3) by (auto simp: is_blank_def)
  then have b: "blanks (drop (length p + 1) ?line) = length g"
    by (simp add: blanks_append [OF assms(2)] blanks_nonblank)
  have at: "byte_at ?rest ?vs = Some q"
    using byte_at_append [of "p @ CHR ''='' # g" "q # ?s"] by simp
  have step: "parse_step c l ?rest = read_quoted c l ?rest key ?vs q"
    unfolding parse_step_def lb prod.case tk Let_def h line_head.case b at option.case
    using assms(3) by auto
  let ?close = "?vs + 1 + length v"
  have d: "drop (?vs + 1) ?rest = ?s" by simp
  have dc: "drop ?close ?rest = q # t @ nl @ tail" by simp
  have lc: "physical_line_bounds (q # t @ nl @ tail) = (1 + length t, 1 + length t + length nl)"
    using line_bounds_line [of "q # t" nl tail] qp assms(6,7) by simp
  have "drop (?close + 1) ?rest = drop 1 (drop ?close ?rest)" by (simp only: drop_drop add.commute)
  then have tr: "substr ?rest (?close + 1) (?close + (1 + length t)) = t"
    unfolding substr_def dc by simp
  have rw: "substr ?rest (?vs + 1) ?close = v" by (simp add: substr_def)
  show ?thesis
    unfolding step read_quoted_def Let_def d assms(5) option.case dc lc prod.case tr rw
    by (auto simp: trailing_ok_def quoted_value_def add.assoc numeral_3_eq_3)
qed

lemma parsed_shape:
  assumes "parse_step c l rest = Parsed r i n k"
  obtains (unquoted) p key g raw nl tail where
      "rest = p @ CHR ''='' # g @ raw @ nl @ tail" "head_ok p key" "all_blank g" "unquoted_start raw"
      "plain_line (p @ CHR ''='' # g @ raw)" "eol_ok nl tail"
    | (quoted) p key g q v t nl tail where
      "rest = p @ CHR ''='' # g @ q # v @ q # t @ nl @ tail" "head_ok p key" "all_blank g"
      "q = DQ \<or> q = SQ" "plain_line (p @ CHR ''='' # g)"
      "\<forall>t'. find_closing_quote q (v @ q # t') = Some (length v)" "plain_line t" "eol_ok nl tail"
proof -
  obtain line nl tail where rest: "rest = line @ nl @ tail" "plain_line line" "eol_ok nl tail"
    by (rule line_split)
  have lb: "physical_line_bounds rest = (length line, length line + length nl)"
    using line_bounds_line [OF rest(2,3)] rest(1) by simp
  have tk: "take (length line) rest = line" using rest(1) by simp
  obtain key eq where h: "read_head line = HeadAssign key eq"
    using assms by (auto simp: parse_step_def lb tk Let_def split: line_head.splits)
  obtain p y where p: "line = p @ CHR ''='' # y" "length p = eq" "head_ok p key"
    using read_head_assign [OF h] by blast
  obtain g raw where y: "y = g @ raw" "all_blank g" "blanks y = length g" "raw = [] \<or> \<not> is_blank (raw ! 0)"
    by (rule blanks_split)
  show thesis
  proof (cases "unquoted_start raw")
    case True
    then show ?thesis using unquoted [of p g raw nl tail key] rest p y by simp
  next
    case False
    then obtain q u where q: "raw = q # u" "q = DQ \<or> q = SQ"
      using y(4) by (cases raw) (auto simp: unquoted_start_def)
    have r: "rest = p @ CHR ''='' # g @ q # u @ nl @ tail" using rest(1) p(1) y(1) q(1) by simp
    have bl: "blanks (drop (eq + 1) line) = length g" using p y(3) by simp
    have at: "byte_at rest (eq + 1 + length g) = Some q"
      using byte_at_append [of "p @ CHR ''='' # g" "q # u @ nl @ tail"] r p(2) by simp
    have d: "drop (eq + 1 + length g + 1) rest = u @ nl @ tail" using r p(2) by simp
    have "read_quoted c l rest key (eq + 1 + length g) q = Parsed r i n k"
      using assms q(2) unfolding parse_step_def lb prod.case tk Let_def h line_head.case bl at option.case
      by (simp split: if_splits)
    then obtain m where "find_closing_quote q (u @ nl @ tail) = Some m"
      unfolding read_quoted_def Let_def d by (auto split: option.splits)
    then obtain v w where v: "u @ nl @ tail = v @ q # w" "\<forall>t'. find_closing_quote q (v @ q # t') = Some (length v)"
      using closing_quote_split by metis
    obtain t nl' tail' where t: "w = t @ nl' @ tail'" "plain_line t" "eol_ok nl' tail'"
      by (rule line_split)
    show ?thesis using quoted [of p g q v t nl' tail' key] r v t p y(1,2) q rest(2) by simp
  qed
qed

end
