(* ===== verification/Dotenv_Exchange.thy ===== *)
theory Dotenv_Exchange
  imports Dotenv_Records
begin

text \<open>
  Exchanging the value of a record by a token: the record is read back with the token as its
  value, whatever follows it.  The one condition is that the record holds no form feed: a form
  feed before \<open>#\<close> starts a comment but is not stripped from the value.
\<close>

subsection \<open>Token text\<close>

definition good_text :: "string \<Rightarrow> bool" where
  "good_text s \<longleftrightarrow> is_phantom_token s \<and> list_all token_char s"

lemma plain_token_text: "plain_token t \<longleftrightarrow> good_text (token_str t)"
  by (simp add: plain_token_def good_text_def)

lemma token_char_facts:
  "token_char c \<Longrightarrow> c \<noteq> CHR ''#'' \<and> c \<noteq> DQ \<and> c \<noteq> SQ \<and> c \<noteq> BACKSLASH \<and> c \<noteq> LF \<and> c \<noteq> CR
     \<and> c \<noteq> CHR 0x0C \<and> \<not> is_blank c \<and> \<not> is_ascii_whitespace c \<and> c \<notin> set UTF8_BOM"
  by (auto simp: token_char_def byte_defs is_blank_def is_ascii_whitespace_def UTF8_BOM_def)

lemma good_text_facts:
  assumes "good_text s"
  shows "s \<noteq> []" "CHR ''#'' \<notin> set s" "DQ \<notin> set s" "SQ \<notin> set s" "BACKSLASH \<notin> set s" "CR \<notin> set s"
    "plain_line s" "CHR 0x0C \<notin> set s" "\<not> is_blank (last s)" "\<not> is_ascii_whitespace (last s)"
    "unquoted_start (s @ x)" "set s \<inter> set UTF8_BOM = {}"
proof -
  have t: "token_char c" if "c \<in> set s" for c using assms that by (auto simp: good_text_def list_all_iff)
  show ne: "s \<noteq> []" using assms by (auto simp: good_text_def is_phantom_token_def PHANTOM_PREFIX_def)
  show "CHR ''#'' \<notin> set s" "DQ \<notin> set s" "SQ \<notin> set s" "BACKSLASH \<notin> set s" "CR \<notin> set s"
    "plain_line s" "CHR 0x0C \<notin> set s" "set s \<inter> set UTF8_BOM = {}"
    using token_char_facts [OF t] by (auto simp: plain_line_def)
  show "\<not> is_blank (last s)" "\<not> is_ascii_whitespace (last s)"
    using token_char_facts [OF t [of "last s"]] ne by auto
  have "token_char (s ! 0)" using t [of "s ! 0"] ne by simp
  then show "unquoted_start (s @ x)"
    using token_char_facts [of "s ! 0"] ne nth0_append [OF ne, of x] by (simp add: unquoted_start_def)
qed

lemma normalize_plain: "CR \<notin> set s \<Longrightarrow> normalize_line_endings s = s"
proof -
  have "CR \<notin> set s \<Longrightarrow> replace_crlf s = s" by (induction s) auto
  then show "CR \<notin> set s \<Longrightarrow> normalize_line_endings s = s"
    by (auto simp: normalize_line_endings_def intro!: map_idI)
qed

lemma unescape_plain: "BACKSLASH \<notin> set s \<Longrightarrow> unescape_double_quoted s = s"
  by (induction s) auto

lemma quoted_value_good: "good_text s \<Longrightarrow> quoted_value q s = s"
  using good_text_facts [of s] by (simp add: quoted_value_def normalize_plain unescape_plain)

subsection \<open>Unquoted values\<close>

lemma blank_facts: "is_blank c \<Longrightarrow> is_ascii_whitespace c \<and> c \<noteq> CHR ''#''"
  unfolding is_blank_def is_ascii_whitespace_def by (elim disjE) simp_all

lemma all_blank_append [simp]: "all_blank (a @ b) \<longleftrightarrow> all_blank a \<and> all_blank b"
  by (auto simp: all_blank_def)

lemma all_blank_space [simp]: "all_blank []" "all_blank '' ''"
  by (simp_all add: all_blank_def is_blank_def)

lemma comment_start_None: "CHR ''#'' \<notin> set s \<Longrightarrow> comment_start gap s = None"
  by (induction s arbitrary: gap) auto

lemma unquoted_value_good:
  assumes "good_text t" and "all_blank bl" and "cm = [] \<or> starts_with cm ''#'' \<and> bl \<noteq> []"
  shows "unquoted_value gap (t @ bl @ cm) = t"
proof -
  have nb: "CHR ''#'' \<notin> set bl" using assms(2) blank_facts by (metis all_blank_def)
  have trim: "trim_blanks_end (t @ bl) = t"
    using good_text_facts(1,9) [OF assms(1)] by (rule trim_blanks_end_append [OF assms(2)])
  show ?thesis
  proof (cases "cm = []")
    case True
    then have "comment_start gap (t @ bl @ cm) = None"
      using nb good_text_facts(2) [OF assms(1)] by (intro comment_start_None) auto
    then show ?thesis using True trim by (simp add: unquoted_value_def)
  next
    case False
    then obtain u where cm: "cm = CHR ''#'' # u" "bl \<noteq> []" using assms(3) by (auto simp: prefix_def)
    have "is_ascii_whitespace (last bl)"
      using assms(2) cm(2) last_in_set [of bl] blank_facts by (metis all_blank_def)
    then have "comment_start gap (t @ bl @ cm) = Some (length (t @ bl))"
      using comment_start_skip [of t gap "bl @ cm"] comment_start_skip [OF nb cm(2), of "is_ascii_whitespace (last t)" cm]
        good_text_facts(1,2) [OF assms(1)] by (simp add: cm(1))
    then have "(case comment_start gap (t @ bl @ cm) of None \<Rightarrow> t @ bl @ cm | Some i \<Rightarrow> take i (t @ bl @ cm)) = t @ bl"
      by simp
    then show ?thesis using trim by (simp only: unquoted_value_def)
  qed
qed

lemma unquoted_value_split:
  obtains bl cm where "raw = unquoted_value gap raw @ bl @ cm" "all_blank bl"
    "unquoted_value gap raw = [] \<or> \<not> is_blank (last (unquoted_value gap raw))"
    "cm = [] \<or> starts_with cm ''#''
       \<and> (if unquoted_value gap raw @ bl = [] then gap
          else is_ascii_whitespace (last (unquoted_value gap raw @ bl)))"
proof (cases "comment_start gap raw")
  case None
  then have v: "unquoted_value gap raw = trim_blanks_end raw" by (simp add: unquoted_value_def)
  obtain b where "raw = trim_blanks_end raw @ b" "all_blank b"
    "trim_blanks_end raw = [] \<or> \<not> is_blank (last (trim_blanks_end raw))"
    by (rule trim_blanks_end_split)
  then show ?thesis using that [of b "[]"] v by simp
next
  case (Some i)
  then obtain a b where a: "raw = a @ CHR ''#'' # b" "length a = i"
    "if a = [] then gap else is_ascii_whitespace (last a)"
    using comment_start_Some by blast
  have v: "unquoted_value gap raw = trim_blanks_end a" using Some a(1,2) by (simp add: unquoted_value_def)
  obtain bl where "a = trim_blanks_end a @ bl" "all_blank bl"
    "trim_blanks_end a = [] \<or> \<not> is_blank (last (trim_blanks_end a))"
    by (rule trim_blanks_end_split)
  then show ?thesis using that [of bl "CHR ''#'' # b"] v a by simp
qed

subsection \<open>Exchange\<close>

definition separator :: "string \<Rightarrow> string \<Rightarrow> string" where
  "separator v after = (if v = [] \<and> starts_with after ''#'' then '' '' else [])"

text \<open>
  A record \<open>a @ v @ b\<close> of \<open>n\<close> bytes with the value text \<open>v\<close>, before \<open>tail\<close>: it is read alike
  before every tail that starts alike, and with any token in place of the value.
\<close>

definition exchangeable ::
  "nat \<Rightarrow> parsed_record \<Rightarrow> nat \<Rightarrow> string \<Rightarrow> string \<Rightarrow> string \<Rightarrow> string \<Rightarrow> bool" where
  "exchangeable c r n a v b tail \<longleftrightarrow>
     a \<noteq> [] \<and> n = length (a @ v @ b) \<and> pr_record_span r = (c, c + n)
     \<and> pr_value_span r = (c + length a, c + length a + length v)
     \<and> (tail = [] \<or> b \<noteq> [] \<and> last b \<in> {LF, CR})
     \<and> (\<forall>c' l' tail'. same_start tail tail' \<longrightarrow>
          (\<exists>r' k'. parse_step c' l' (a @ v @ b @ tail') = Parsed r' None n k' \<and> pr_entry r' = pr_entry r))
     \<and> (\<forall>c' l' tail' t. same_start tail tail' \<longrightarrow> good_text t \<longrightarrow>
          (\<exists>r' k'. parse_step c' l' (a @ (t @ separator v (b @ tail)) @ b @ tail')
               = Parsed r' None (length (a @ (t @ separator v (b @ tail)) @ b)) k'
             \<and> pr_entry r' = \<lparr>en_key = en_key (pr_entry r), en_value = t, en_is_phantom = True\<rparr>))"

lemma eol_ends: "eol_ok nl tail \<Longrightarrow> tail = [] \<or> nl \<noteq> [] \<and> last nl \<in> {LF, CR}"
  by (auto simp: eol_ok_def)

lemma exchange_unquoted:
  assumes "head_ok p key" and "all_blank g" and "unquoted_start raw"
    and "plain_line (p @ CHR ''='' # g @ raw)" and "eol_ok nl tail" and "CHR 0x0C \<notin> set raw"
    and "parse_step c l (p @ CHR ''='' # g @ raw @ nl @ tail) = Parsed r None n k"
  shows "\<exists>a v b. p @ CHR ''='' # g @ raw @ nl @ tail = a @ v @ b @ tail \<and> exchangeable c r n a v b tail"
proof -
  define v where "v = unquoted_value (g \<noteq> []) raw"
  obtain bl cm where raw: "raw = v @ bl @ cm" "all_blank bl" "v = [] \<or> \<not> is_blank (last v)"
    "cm = [] \<or> starts_with cm ''#'' \<and> (if v @ bl = [] then g \<noteq> [] else is_ascii_whitespace (last (v @ bl)))"
    unfolding v_def by (rule unquoted_value_split)
  let ?a = "p @ CHR ''='' # g" and ?b = "bl @ cm @ nl"
  have vb: "bl = []" if "v = []"
    using that assms(3) raw(1,2) by (cases bl) (auto simp: unquoted_start_def all_blank_def)
  have sep: "separator v (bl @ cm @ nl @ tail) = (if v = [] \<and> cm \<noteq> [] then '' '' else [])"
    using vb raw(4) eol_first [OF assms(5)]
    by (cases "cm = []"; cases "nl @ tail") (auto simp: separator_def prefix_def)
  have wide: "bl \<noteq> []" if "cm \<noteq> []" "v \<noteq> []"
  proof
    assume "bl = []"
    then have "is_ascii_whitespace (last v)" using raw(4) that by auto
    moreover have "last v \<in> set raw" using raw(1) that(2) by simp
    ultimately show False
      using raw(3) that(2) assms(4,6) by (auto simp: is_ascii_whitespace_def is_blank_def plain_line_def)
  qed
  have uv: "unquoted_value (g \<noteq> []) (v @ bl @ cm) = v" using raw(1) v_def by simp
  have eq: "parse_step c' l' (?a @ v @ ?b @ tail') =
      Parsed (parsed key v (c', c' + length (?a @ v @ ?b)) (c' + length ?a, c' + length ?a + length v))
        None (length (?a @ v @ ?b)) 1"
    if "same_start tail tail'" for c' l' tail'
    using step_unquoted [OF assms(1-4) eol_ok_same [OF assms(5) that], of c' l'] raw(1)
    by (simp add: uv ac_simps)
  have r: "r = parsed key v (c, c + n) (c + length ?a, c + length ?a + length v)" "n = length (?a @ v @ ?b)"
    using eq [of tail c l] assms(7) raw(1) by auto
  have ex: "\<exists>r' k'. parse_step c' l' (?a @ (t @ separator v (?b @ tail)) @ ?b @ tail')
      = Parsed r' None (length (?a @ (t @ separator v (?b @ tail)) @ ?b)) k'
      \<and> pr_entry r' = \<lparr>en_key = key, en_value = t, en_is_phantom = True\<rparr>"
    if same: "same_start tail tail'" and good: "good_text t" for c' l' tail' t
  proof -
    let ?bl = "separator v (bl @ cm @ nl @ tail) @ bl"
    have ab: "all_blank ?bl" using raw(2) by (simp add: sep)
    have "cm = [] \<or> starts_with cm ''#'' \<and> ?bl \<noteq> []" using raw(4) wide by (auto simp: sep)
    then have val: "unquoted_value (g \<noteq> []) (t @ ?bl @ cm) = t"
      by (rule unquoted_value_good [OF good ab])
    have pl: "plain_line (p @ CHR ''='' # g @ t @ ?bl @ cm)"
      using assms(4) raw(1) good_text_facts(7) [OF good] by (auto simp: sep plain_line_def)
    have ph: "is_phantom_token t" using good by (simp add: good_text_def)
    obtain x y m where e: "parse_step c' l' (p @ CHR ''='' # g @ (t @ ?bl @ cm) @ nl @ tail')
          = Parsed (parsed key t x y) None m 1"
        "m = length p + 1 + length g + length (t @ ?bl @ cm) + length nl"
      using step_unquoted [OF assms(1,2) good_text_facts(11) [OF good, of "?bl @ cm"] pl
          eol_ok_same [OF assms(5) same], of c' l']
      unfolding val by blast
    have "?a @ (t @ separator v (?b @ tail)) @ ?b @ tail' = p @ CHR ''='' # g @ (t @ ?bl @ cm) @ nl @ tail'"
      "m = length (?a @ (t @ separator v (?b @ tail)) @ ?b)" by (simp_all add: e(2))
    moreover have "pr_entry (parsed key t x y) = \<lparr>en_key = key, en_value = t, en_is_phantom = True\<rparr>"
      by (simp add: parsed_def ph)
    ultimately show ?thesis using e(1) by metis
  qed
  have "exchangeable c r n ?a v ?b tail"
    unfolding exchangeable_def
  proof (intro conjI allI impI)
    show "?a \<noteq> []" by simp
    show "n = length (?a @ v @ ?b)" by (rule r(2))
    show "pr_record_span r = (c, c + n)" "pr_value_span r = (c + length ?a, c + length ?a + length v)"
      by (simp_all add: r(1) parsed_def)
    show "tail = [] \<or> ?b \<noteq> [] \<and> last ?b \<in> {LF, CR}" using eol_ends [OF assms(5)] by auto
  next
    fix c' l' tail' assume "same_start tail tail'"
    from eq [OF this] show "\<exists>r' k'. parse_step c' l' (?a @ v @ ?b @ tail') = Parsed r' None n k' \<and> pr_entry r' = pr_entry r"
      by (simp add: r parsed_def)
  next
    fix c' l' tail' t assume "same_start tail tail'" "good_text t"
    from ex [OF this] show "\<exists>r' k'. parse_step c' l' (?a @ (t @ separator v (?b @ tail)) @ ?b @ tail')
        = Parsed r' None (length (?a @ (t @ separator v (?b @ tail)) @ ?b)) k'
        \<and> pr_entry r' = \<lparr>en_key = en_key (pr_entry r), en_value = t, en_is_phantom = True\<rparr>"
      by (simp add: r(1) parsed_def)
  qed
  then show ?thesis using raw(1)
    by (intro exI [of _ ?a] exI [of _ v] exI [of _ ?b] conjI) simp_all
qed

lemma exchange_quoted:
  assumes "head_ok p key" and "all_blank g" and "q = DQ \<or> q = SQ" and "plain_line (p @ CHR ''='' # g)"
    and cl: "\<forall>t'. find_closing_quote q (v @ q # t') = Some (length v)"
    and "plain_line x" and "eol_ok nl tail"
    and "parse_step c l (p @ CHR ''='' # g @ q # v @ q # x @ nl @ tail) = Parsed r None n k"
  shows "\<exists>a b. p @ CHR ''='' # g @ q # v @ q # x @ nl @ tail = a @ v @ b @ tail \<and> exchangeable c r n a v b tail"
proof -
  let ?a = "p @ CHR ''='' # g @ [q]" and ?b = "q # x @ nl"
  let ?n = "\<lambda>w. length (?a @ w @ ?b)"
  have read: "\<exists>i k. parse_step c' l' (?a @ w @ ?b @ tail') =
      Parsed (parsed key (quoted_value q w) (c', c' + ?n w) (c' + length ?a, c' + length ?a + length w)) i (?n w) k
      \<and> (i = None \<longleftrightarrow> trailing_ok x)"
    if "same_start tail tail'" and "\<forall>t'. find_closing_quote q (w @ q # t') = Some (length w)" for c' l' tail' w
    using step_quoted [OF assms(1-4) that(2) [rule_format] assms(6) eol_ok_same [OF assms(7) that(1)], of c' l']
    by (simp add: ac_simps numeral_3_eq_3)
  have r: "r = parsed key (quoted_value q v) (c, c + n) (c + length ?a, c + length ?a + length v)"
    "n = ?n v" "trailing_ok x"
    using read [of tail v c l] cl assms(8) by auto
  have sep: "separator v (?b @ tail) = []" using assms(3) by (auto simp: separator_def)
  have "exchangeable c r n ?a v ?b tail"
    unfolding exchangeable_def
  proof (intro conjI allI impI)
    show "?a \<noteq> []" by simp
    show "n = length (?a @ v @ ?b)" by (rule r(2))
    show "pr_record_span r = (c, c + n)" "pr_value_span r = (c + length ?a, c + length ?a + length v)"
      by (simp_all add: r(1) parsed_def)
    show "tail = [] \<or> ?b \<noteq> [] \<and> last ?b \<in> {LF, CR}" using eol_ends [OF assms(7)] by auto
  next
    fix c' l' tail' assume "same_start tail tail'"
    from read [OF this cl, of c' l'] r
    show "\<exists>r' k'. parse_step c' l' (?a @ v @ ?b @ tail') = Parsed r' None n k' \<and> pr_entry r' = pr_entry r"
      by (auto simp: parsed_def)
  next
    fix c' l' tail' t assume s: "same_start tail tail'" and good: "good_text t"
    have q: "q \<noteq> BACKSLASH" "q \<notin> set t" using assms(3) good_text_facts(3,4) [OF good] by auto
    have "\<forall>t'. find_closing_quote q (t @ q # t') = Some (length t)"
      using closing_quote_plain [OF q(2) good_text_facts(5) [OF good] q(1)] by simp
    from read [OF s this, of c' l'] r(3)
    obtain k' where k: "parse_step c' l' (?a @ t @ ?b @ tail') =
        Parsed (parsed key t (c', c' + ?n t) (c' + length ?a, c' + length ?a + length t)) None (?n t) k'"
      unfolding quoted_value_good [OF good] by auto
    show "\<exists>r' k'. parse_step c' l' (?a @ (t @ separator v (?b @ tail)) @ ?b @ tail')
        = Parsed r' None (length (?a @ (t @ separator v (?b @ tail)) @ ?b)) k'
        \<and> pr_entry r' = \<lparr>en_key = en_key (pr_entry r), en_value = t, en_is_phantom = True\<rparr>"
      unfolding sep append_Nil2 k using good by (simp add: r(1) parsed_def good_text_def)
  qed
  then show ?thesis by (intro exI [of _ ?a] exI [of _ ?b] conjI) simp_all
qed

lemma parsed_exchangeable:
  assumes "parse_step c l rest = Parsed r None n k" and "CHR 0x0C \<notin> set rest"
  obtains a v b tail where "rest = a @ v @ b @ tail" "exchangeable c r n a v b tail"
  using assms(1)
proof (cases rule: parsed_shape)
  case (unquoted p key g raw nl tail)
  have "CHR 0x0C \<notin> set raw" using assms(2) unquoted(1) by auto
  from exchange_unquoted [OF unquoted(2-6) this] assms(1) unquoted(1) that show ?thesis by metis
next
  case (quoted p key g q v t nl tail)
  from exchange_quoted [OF quoted(2-8)] assms(1) quoted(1) that show ?thesis by metis
qed

text \<open>A skipped line is skipped before every tail that starts alike.\<close>

lemma skipped_local:
  assumes "parse_step c l rest = Skipped None n k"
  obtains b tail where "rest = b @ tail" "n = length b" "tail = [] \<or> b \<noteq> [] \<and> last b \<in> {LF, CR}"
    "\<And>c' l' tail'. same_start tail tail' \<Longrightarrow> parse_step c' l' (b @ tail') = Skipped None n k"
proof -
  obtain line nl tail where rest: "rest = line @ nl @ tail" "plain_line line" "eol_ok nl tail"
    by (rule line_split)
  have lb: "physical_line_bounds (line @ nl @ tail') = (length line, length line + length nl)"
    if "same_start tail tail'" for tail'
    using line_bounds_line [OF rest(2) eol_ok_same [OF rest(3) that]] .
  have h: "read_head line = HeadSkip" "n = length line + length nl" "k = 1"
    using assms rest(1) lb [of tail]
    by (auto simp: parse_step_def Let_def read_quoted_def read_unquoted_def
        split: line_head.splits option.splits if_splits prod.splits)
  have "parse_step c' l' ((line @ nl) @ tail') = Skipped None n k" if "same_start tail tail'" for c' l' tail'
    using lb [OF that] h by (simp add: parse_step_def)
  then show ?thesis using that [of "line @ nl" tail] rest(1) h eol_ends [OF rest(3)] by auto
qed

end
