(* ===== verification/Dotenv_Claims.thy ===== *)
theory Dotenv_Claims
  imports Dotenv_Exchange
begin

text \<open>
  The dotenv file as a whole: the spans of a parsed file, and what a file is read as after its
  values were replaced by tokens.  The loop of the parser is followed record by record with the
  exchange lemmas.
\<close>

subsection \<open>Spans\<close>

definition span_ok :: "string \<Rightarrow> nat \<Rightarrow> parsed_record \<Rightarrow> bool" where
  "span_ok content c r \<longleftrightarrow>
     c \<le> fst (pr_record_span r) \<and> fst (pr_record_span r) < fst (pr_value_span r)
     \<and> fst (pr_value_span r) \<le> snd (pr_value_span r) \<and> snd (pr_value_span r) \<le> snd (pr_record_span r)
     \<and> snd (pr_record_span r) \<le> length content
     \<and> en_value (pr_entry r) =
         (let value_text = substr content (fst (pr_value_span r)) (snd (pr_value_span r)) in
          case byte_at content (fst (pr_value_span r) - 1) of
            Some b \<Rightarrow> if b = DQ \<or> b = SQ then quoted_value b value_text else value_text
          | None \<Rightarrow> value_text)"

lemma byte_at_drop: "c \<le> length content \<Longrightarrow> byte_at content (c + i) = byte_at (drop c content) i"
  by (auto simp: byte_at_def)

lemma substr_drop: "substr content (c + a) (c + b) = substr (drop c content) a b"
  by (simp add: substr_def add.commute)

lemma substr_middle: "length u = a \<Longrightarrow> substr (u @ v @ w) a (a + length v) = v"
  by (auto simp: substr_def)

lemma parse_loop_Nil [simp]: "parse_loop c l [] = ([], [])"
  by (subst parse_loop.simps) simp

lemma parsed_span:
  assumes "parse_step c l rest = Parsed r i n k" and "rest = drop c content" and "c \<le> length content"
  shows "pr_record_span r = (c, c + n) \<and> span_ok content c r"
  using assms(1)
proof (cases rule: parsed_shape)
  case (unquoted p key g raw nl tail)
  let ?vs = "length p + 1 + length g"
  define v where "v = unquoted_value (g \<noteq> []) raw"
  obtain x where raw: "raw = v @ x" unfolding v_def by (rule unquoted_value_split [of raw "g \<noteq> []"]) auto
  have r: "r = parsed key v (c, c + n) (c + ?vs, c + (?vs + length v))"
    "n = ?vs + length raw + length nl"
    using step_unquoted [OF unquoted(2-6), of c l] assms(1) unquoted(1) by (auto simp: v_def)
  have len: "?vs + length raw + length nl \<le> length rest" using unquoted(1) by simp
  have "rest = (p @ CHR ''='' # g) @ v @ (x @ nl @ tail)" using unquoted(1) raw by simp
  then have t: "substr content (c + ?vs) (c + (?vs + length v)) = v"
    unfolding substr_drop assms(2) [symmetric] using substr_middle [of "p @ CHR ''='' # g" ?vs v "x @ nl @ tail"] by simp
  have "byte_at content (c + ?vs - 1) = byte_at rest (length p + length g)"
    using byte_at_drop [OF assms(3), of "length p + length g"] assms(2) by simp
  also have "\<dots> = Some (if g = [] then CHR ''='' else last g)"
  proof (cases g rule: rev_cases)
    case Nil
    then show ?thesis using byte_at_append [of p "CHR ''='' # raw @ nl @ tail"] unquoted(1) by simp
  next
    case (snoc h d)
    then show ?thesis
      using byte_at_append [of "p @ CHR ''='' # h" "d # raw @ nl @ tail"] unquoted(1) by simp
  qed
  finally have b: "byte_at content (c + ?vs - 1) = Some (if g = [] then CHR ''='' else last g)" .
  have "is_blank (last g)" if "g \<noteq> []" using unquoted(3) that by (simp add: all_blank_def)
  then have q: "(if g = [] then CHR ''='' else last g) \<noteq> DQ \<and> (if g = [] then CHR ''='' else last g) \<noteq> SQ"
    by (auto simp: is_blank_def)
  have "length v \<le> length raw" using raw by simp
  then show ?thesis using r(2) len assms(2,3) b q t
    by (simp add: r(1) parsed_def span_ok_def Let_def)
next
  case (quoted p key g q v t nl tail)
  let ?vs = "length p + 2 + length g"
  have r: "r = parsed key (quoted_value q v) (c, c + n) (c + ?vs, c + (?vs + length v))"
    "n = length p + 3 + length g + length v + length t + length nl"
    using step_quoted [OF quoted(2-5) quoted(6) [rule_format] quoted(7,8), of c l] assms(1) quoted(1)
    by (auto simp: add.assoc)
  have tx: "substr content (c + ?vs) (c + (?vs + length v)) = v"
    unfolding substr_drop assms(2) [symmetric] using quoted(1) by (simp add: substr_def)
  have "byte_at content (c + ?vs - 1) = byte_at rest (length p + 1 + length g)"
    using byte_at_drop [OF assms(3), of "length p + 1 + length g"] assms(2) by simp
  also have "\<dots> = Some q"
    using byte_at_append [of "p @ CHR ''='' # g" "q # v @ q # t @ nl @ tail"] quoted(1) by simp
  finally have b: "byte_at content (c + ?vs - 1) = Some q" .
  have "n \<le> length rest" using quoted(1) r(2) by simp
  then show ?thesis using r(2) assms(2,3) b quoted(4) tx
    by (simp add: r(1) parsed_def span_ok_def Let_def)
qed

lemma span_ok_mono: "span_ok content c r \<Longrightarrow> c' \<le> c \<Longrightarrow> span_ok content c' r"
  by (simp add: span_ok_def)

lemma parse_loop_spans:
  assumes "rest = drop c content" and "c \<le> length content"
  shows "list_all (span_ok content c) (fst (parse_loop c l rest))
    \<and> sorted_wrt (\<lambda>r s. snd (pr_record_span r) \<le> fst (pr_record_span s)) (fst (parse_loop c l rest))"
  using assms
proof (induction c l rest rule: parse_loop.induct)
  case (1 c l rest)
  show ?case
  proof (cases "rest = []")
    case True
    then show ?thesis by simp
  next
    case False
    show ?thesis
    proof (cases "parse_step c l rest")
      case (Skipped i n k)
      have n: "0 < n \<and> n \<le> length rest" using parse_step_reads(1) [OF False Skipped] .
      have "drop n rest = drop (c + n) content" "c + n \<le> length content"
        using 1(3,4) n by (auto simp: add.commute)
      from 1(1) [OF False Skipped this] show ?thesis
        using Skipped False span_ok_mono [of content "c + n" _ c]
        by (auto simp: parse_loop.simps [of c l rest] list_all_iff split: prod.splits)
    next
      case (Stopped i)
      then show ?thesis using False by (simp add: parse_loop.simps [of c l rest])
    next
      case (Parsed r i n k)
      have n: "0 < n \<and> n \<le> length rest" using parse_step_reads(2) [OF False Parsed] .
      have "drop n rest = drop (c + n) content" "c + n \<le> length content"
        using 1(3,4) n by (auto simp: add.commute)
      note IH = 1(2) [OF False Parsed this]
      have r: "pr_record_span r = (c, c + n)" "span_ok content c r"
        using parsed_span [OF Parsed 1(3,4)] by auto
      have "snd (pr_record_span r) \<le> fst (pr_record_span s)" if "span_ok content (c + n) s" for s
        using that r(1) by (simp add: span_ok_def)
      then show ?thesis using IH Parsed False r span_ok_mono [of content "c + n" _ c]
        by (auto simp: parse_loop.simps [of c l rest] list_all_iff split: prod.splits)
    qed
  qed
qed

subsection \<open>Byte order marks\<close>

lemma bom_offsets_Nil: "bom_offsets k s = [] \<longleftrightarrow> \<not> sublist UTF8_BOM s"
proof (induction k s rule: bom_offsets.induct)
  case (2 k c s)
  show ?case
  proof (cases "starts_with (c # s) UTF8_BOM")
    case True
    then show ?thesis by (simp add: prefix_imp_sublist)
  next
    case False
    then show ?thesis using 2(2) by (simp add: sublist_Cons_right)
  qed
qed (simp add: UTF8_BOM_def)

lemma bom_offsets_ge: "x \<in> set (bom_offsets k s) \<Longrightarrow> k \<le> x"
proof (induction k s rule: bom_offsets.induct)
  case (2 k c s)
  then show ?case by (auto split: if_splits dest: order_trans [rotated])
qed simp

lemma unexpected_bom_Nil:
  "unexpected_bom_issues content = [] \<longleftrightarrow> \<not> sublist UTF8_BOM (drop (bom_len content) content)"
proof (cases "starts_with content UTF8_BOM")
  case True
  then obtain s where c: "content = UTF8_BOM @ s" by (auto simp: prefix_def)
  have o: "bom_offsets 0 content = 0 # bom_offsets 3 s" using c by (simp add: UTF8_BOM_def)
  have "\<forall>x \<in> set (bom_offsets 3 s). x \<noteq> 0" using bom_offsets_ge [of _ 3 s] by force
  then have "unexpected_bom_issues content = [] \<longleftrightarrow> bom_offsets 3 s = []"
    unfolding unexpected_bom_issues_def o by (auto simp: filter_empty_conv)
  then show ?thesis using c by (simp add: bom_offsets_Nil bom_len_def)
next
  case False
  show ?thesis
  proof (cases content)
    case (Cons d s)
    have o: "bom_offsets 0 content = bom_offsets 1 s" using False Cons by simp
    have "\<forall>x \<in> set (bom_offsets 1 s). x \<noteq> 0" using bom_offsets_ge [of _ 1 s] by force
    then have "unexpected_bom_issues content = [] \<longleftrightarrow> bom_offsets 1 s = []"
      unfolding unexpected_bom_issues_def o by (auto simp: filter_empty_conv)
    then show ?thesis using o False bom_offsets_Nil [of 0 content] by (simp add: bom_offsets_Nil bom_len_def)
  qed (simp add: unexpected_bom_issues_def bom_len_def UTF8_BOM_def)
qed

lemma no_bom_append:
  assumes "\<not> sublist UTF8_BOM a" and "\<not> sublist UTF8_BOM b"
    and "a = [] \<or> b = [] \<or> last a \<notin> set UTF8_BOM \<or> b ! 0 \<notin> set UTF8_BOM"
  shows "\<not> sublist UTF8_BOM (a @ b)"
proof
  assume "sublist UTF8_BOM (a @ b)"
  then obtain x y where xy: "UTF8_BOM = x @ y" "suffix x a" "prefix y b"
    using assms(1,2) by (auto simp: sublist_append)
  have "x \<noteq> []" using xy assms(2) by (auto simp: prefix_imp_sublist)
  moreover have "y \<noteq> []" using xy assms(1) by (auto simp: suffix_imp_sublist)
  ultimately have "last a = last x" "b ! 0 = y ! 0" "a \<noteq> []" "b \<noteq> []"
    using xy(2,3) by (auto simp: suffix_def prefix_def nth0_append)
  moreover have "last x \<in> set UTF8_BOM" "y ! 0 \<in> set UTF8_BOM"
    using \<open>x \<noteq> []\<close> \<open>y \<noteq> []\<close> by (simp_all add: xy(1))
  ultimately show False using assms(3) by auto
qed

lemma no_bom_disjoint: "set s \<inter> set UTF8_BOM = {} \<Longrightarrow> \<not> sublist UTF8_BOM s"
  by (auto simp: sublist_def UTF8_BOM_def)

lemma no_bom_part: "\<not> sublist UTF8_BOM (a @ b @ c) \<Longrightarrow> \<not> sublist UTF8_BOM b"
  by (auto simp: sublist_append)

lemma no_bom_line: "\<not> sublist UTF8_BOM b \<Longrightarrow> \<not> sublist UTF8_BOM t \<Longrightarrow>
    t = [] \<or> b \<noteq> [] \<and> last b \<in> {LF, CR} \<Longrightarrow> \<not> sublist UTF8_BOM (b @ t)"
  by (rule no_bom_append) (auto simp: UTF8_BOM_def)

text \<open>A value exchanged by ASCII text brings no byte order mark with it.\<close>

lemma no_bom_exchange:
  assumes "\<not> sublist UTF8_BOM (a @ v @ b @ tail)" and "\<not> sublist UTF8_BOM t"
    and "t = [] \<or> b \<noteq> [] \<and> last b \<in> {LF, CR}" and "w \<noteq> []" and "set w \<inter> set UTF8_BOM = {}"
  shows "\<not> sublist UTF8_BOM (a @ w @ b @ t)"
proof -
  have "\<not> sublist UTF8_BOM a" "\<not> sublist UTF8_BOM b"
    using assms(1) no_bom_part [of "[]" a] no_bom_part [of "a @ v" b tail] by simp_all
  then have bt: "\<not> sublist UTF8_BOM (b @ t)" using no_bom_line assms(2,3) by blast
  have w: "last w \<notin> set UTF8_BOM" "w ! 0 \<notin> set UTF8_BOM"
    using assms(4,5) by (metis disjoint_iff last_in_set, metis disjoint_iff length_greater_0_conv nth_mem)
  have "\<not> sublist UTF8_BOM (w @ b @ t)"
    by (rule no_bom_append [OF no_bom_disjoint [OF assms(5)] bt]) (simp add: w(1))
  then show ?thesis
    by (rule no_bom_append [OF \<open>\<not> sublist UTF8_BOM a\<close>]) (simp add: w(2) nth0_append [OF assms(4)])
qed

subsection \<open>Rewriting, record by record\<close>

definition tokens_plain :: "token_map \<Rightarrow> bool" where
  "tokens_plain tm \<longleftrightarrow> (\<forall>name t. get_token tm name = Some t \<longrightarrow> plain_token t)"

definition tok_entry :: "token_map \<Rightarrow> env_entry \<Rightarrow> env_entry" where
  "tok_entry tm e =
     (case get_token tm (en_key e) of
        None \<Rightarrow> e
      | Some t \<Rightarrow> \<lparr>en_key = en_key e, en_value = token_str t, en_is_phantom = True\<rparr>)"

lemma splice_skip:
  assumes "m \<le> m'" and "reps = [] \<or> m' \<le> fst (fst (reps ! 0))"
  shows "splice_from source m reps = substr source m m' @ splice_from source m' reps"
proof (cases reps)
  case Nil
  have "drop m source = take (m' - m) (drop m source) @ drop (m' - m) (drop m source)"
    by (simp only: append_take_drop_id)
  then show ?thesis using Nil assms(1) by (simp add: substr_def)
next
  case (Cons r rs)
  obtain a b w where r: "r = ((a, b), w)" by (metis prod.exhaust)
  have "m' \<le> a" using assms(2) Cons r by simp
  then have "take (a - m) (drop m source)
      = take (m' - m) (drop m source) @ take (a - m') (drop m' source)"
    using assms(1) take_add [of "m' - m" "a - m'" "drop m source"] by simp
  then show ?thesis using Cons r by (simp add: substr_def)
qed

lemma first_replacement:
  assumes "list_all (span_ok content c) rs"
  shows "List.map_filter (replacement_of f tm) rs = []
    \<or> c \<le> fst (fst (List.map_filter (replacement_of f tm) rs ! 0))"
proof -
  have "c \<le> fst (fst x)" if x: "x \<in> set (List.map_filter (replacement_of f tm) rs)" for x
  proof -
    obtain r where "r \<in> set rs" "replacement_of f tm r = Some x"
      using x by (auto simp: List.map_filter_def)
    then have "span_ok content c r" "fst x = pr_value_span r"
      using assms by (auto simp: replacement_of_def list_all_iff)
    then show ?thesis by (simp add: span_ok_def)
  qed
  then show ?thesis by (metis length_greater_0_conv nth_mem)
qed

lemma render_separator:
  assumes "drop c source = a @ v @ after"
  shows "render_replacement source (c + length a, c + length a + length v) t = t @ separator v after"
proof -
  have "byte_at source (c + length a + length v) = (case after of [] \<Rightarrow> None | x # _ \<Rightarrow> Some x)"
  proof (cases "c \<le> length source")
    case True
    then show ?thesis
      using byte_at_drop [of c source "length a + length v"] byte_at_append [of "a @ v" after] assms
      by (simp add: add.assoc)
  next
    case False
    then have "a @ v @ after = []" using assms by simp
    then show ?thesis using False by (simp add: byte_at_def)
  qed
  then show ?thesis by (cases after) (auto simp: render_replacement_def separator_def)
qed

lemma splice_record:
  assumes "drop c source = a @ v @ b @ tail" and "n = length (a @ v @ b)"
    and "list_all (span_ok source (c + n)) rs"
  shows "splice_from source c (((c + length a, c + length a + length v), w) # List.map_filter (replacement_of f tm) rs)
      = a @ w @ b @ splice_from source (c + n) (List.map_filter (replacement_of f tm) rs)"
    and "splice_from source c (List.map_filter (replacement_of f tm) rs)
      = (a @ v @ b) @ splice_from source (c + n) (List.map_filter (replacement_of f tm) rs)"
proof -
  let ?reps = "List.map_filter (replacement_of f tm) rs"
  have f: "?reps = [] \<or> c + n \<le> fst (fst (?reps ! 0))" by (rule first_replacement [OF assms(3)])
  have 1: "substr source c (c + length a) = a"
    using substr_drop [of source c 0 "length a"] assms(1) by (simp add: substr_def)
  have 2: "substr source (c + length a + length v) (c + n) = b"
    using substr_drop [of source c "length a + length v" n] assms(1,2)
    by (simp add: substr_def add.assoc)
  have "splice_from source (c + length a + length v) ?reps = b @ splice_from source (c + n) ?reps"
    using splice_skip [OF _ f, of "c + length a + length v" source] 2 assms(2) by simp
  then show "splice_from source c (((c + length a, c + length a + length v), w) # ?reps)
      = a @ w @ b @ splice_from source (c + n) ?reps"
    using 1 by simp
  have "substr source c (c + n) = a @ v @ b"
    using substr_drop [of source c 0 n] assms(1,2) by (simp add: substr_def)
  then show "splice_from source c ?reps = (a @ v @ b) @ splice_from source (c + n) ?reps"
    using splice_skip [OF _ f, of c source] by simp
qed

definition reparsed :: "token_map \<Rightarrow> string \<Rightarrow> string \<Rightarrow> parsed_record list \<Rightarrow> bool" where
  "reparsed tm rest rest' rs \<longleftrightarrow>
     same_start rest rest' \<and> \<not> sublist UTF8_BOM rest' \<and> CHR 0x0C \<notin> set rest'
     \<and> (\<forall>c l. \<exists>rs'. parse_loop c l rest' = (rs', [])
          \<and> map pr_entry rs' = map (tok_entry tm) (map pr_entry rs))"

lemma reparsed_skip:
  assumes "reparsed tm tail tail' rs" and "\<not> sublist UTF8_BOM (b @ tail)" and "CHR 0x0C \<notin> set b"
    and "b \<noteq> []" and "tail = [] \<or> last b \<in> {LF, CR}"
    and "\<And>c l. parse_step c l (b @ tail') = Skipped None (length b) k"
  shows "reparsed tm (b @ tail) (b @ tail') rs"
proof -
  have "tail = [] \<longleftrightarrow> tail' = []" using assms(1) same_start_Nil by (auto simp: reparsed_def)
  then have "\<not> sublist UTF8_BOM (b @ tail')"
    using no_bom_part [of "[]" b tail] assms(1,2,4,5) by (intro no_bom_line) (auto simp: reparsed_def)
  moreover have "parse_loop c l (b @ tail') = parse_loop (c + length b) (l + k) tail'" for c l
    using assms(4,6) by (subst parse_loop.simps) (auto split: prod.splits)
  ultimately show ?thesis using assms(1,3) same_start_append [OF assms(4)] by (simp add: reparsed_def)
qed

lemma reparsed_record:
  assumes "reparsed tm tail tail' rs" and "\<not> sublist UTF8_BOM (a @ v @ b @ tail)" and "a \<noteq> []"
    and "tail = [] \<or> b \<noteq> [] \<and> last b \<in> {LF, CR}" and "CHR 0x0C \<notin> set (a @ w @ b)"
    and "w = v \<or> w \<noteq> [] \<and> set w \<inter> set UTF8_BOM = {}"
    and step: "\<And>c l. \<exists>r' k'. parse_step c l (a @ w @ b @ tail') = Parsed r' None (length (a @ w @ b)) k'
        \<and> pr_entry r' = tok_entry tm (pr_entry r)"
  shows "reparsed tm (a @ v @ b @ tail) (a @ w @ b @ tail') (r # rs)"
proof -
  have t: "tail = [] \<longleftrightarrow> tail' = []" "\<not> sublist UTF8_BOM tail'"
    using assms(1) same_start_Nil by (auto simp: reparsed_def)
  have "\<not> sublist UTF8_BOM (a @ w @ b @ tail')"
    using assms(6)
  proof
    assume "w = v"
    have "\<not> sublist UTF8_BOM (a @ v @ b)" using assms(2) no_bom_part [of "[]" "a @ v @ b" tail] by simp
    moreover have "tail' = [] \<or> a @ v @ b \<noteq> [] \<and> last (a @ v @ b) \<in> {LF, CR}" using assms(4) t(1) by auto
    ultimately have "\<not> sublist UTF8_BOM ((a @ v @ b) @ tail')" by (rule no_bom_line [OF _ t(2)])
    then show ?thesis using \<open>w = v\<close> by simp
  next
    assume w: "w \<noteq> [] \<and> set w \<inter> set UTF8_BOM = {}"
    have "tail' = [] \<or> b \<noteq> [] \<and> last b \<in> {LF, CR}" using assms(4) t(1) by auto
    then show ?thesis using no_bom_exchange [OF assms(2) t(2)] w by simp
  qed
  moreover have "\<exists>rs'. parse_loop c l (a @ w @ b @ tail') = (rs', [])
      \<and> map pr_entry rs' = map (tok_entry tm) (map pr_entry (r # rs))" for c l
  proof -
    let ?n = "length (a @ w @ b)"
    obtain r' k' where r': "parse_step c l (a @ w @ b @ tail') = Parsed r' None ?n k'"
      "pr_entry r' = tok_entry tm (pr_entry r)" using step by blast
    obtain rs' where "parse_loop (c + ?n) (l + k') tail' = (rs', [])"
      "map pr_entry rs' = map (tok_entry tm) (map pr_entry rs)"
      using assms(1) unfolding reparsed_def by blast
    moreover have "drop ?n (a @ w @ b @ tail') = tail'" by simp
    ultimately show ?thesis using r' assms(3)
      by (subst parse_loop.simps) (simp del: length_append)
  qed
  ultimately show ?thesis
    using assms(1,3,5) by (auto simp: reparsed_def intro: same_start_append)
qed

lemma rewrite_loop:
  assumes "parse_loop c l rest = (rs, [])" and "rest = drop c (df_source f)" and "c \<le> length (df_source f)"
    and "CHR 0x0C \<notin> set rest" and "\<not> sublist UTF8_BOM rest" and tp: "tokens_plain tm"
  shows "reparsed tm rest (splice_from (df_source f) c (List.map_filter (replacement_of f tm) rs)) rs"
  using assms(1-5)
proof (induction c l rest arbitrary: rs rule: parse_loop.induct)
  case (1 c l rest)
  let ?src = "df_source f" and ?reps = "List.map_filter (replacement_of f tm)"
  show ?case
  proof (cases "rest = []")
    case True
    then have "drop c ?src = []" "rs = []" using 1(3,4) by auto
    then show ?thesis using True 1(7) by (simp add: reparsed_def List.map_filter_def)
  next
    case ne: False
    show ?thesis
    proof (cases "parse_step c l rest")
      case (Skipped i n k)
      then have i: "i = None" and loop: "parse_loop (c + n) (l + k) (drop n rest) = (rs, [])"
        using 1(3) ne by (cases i; auto simp: parse_loop.simps [of c l rest] split: prod.splits)+
      obtain b tail where b: "rest = b @ tail" "n = length b" "tail = [] \<or> b \<noteq> [] \<and> last b \<in> {LF, CR}"
        "\<And>c' l' tail'. same_start tail tail' \<Longrightarrow> parse_step c' l' (b @ tail') = Skipped None n k"
        using skipped_local Skipped i by metis
      have n: "0 < n \<and> n \<le> length rest" using parse_step_reads(1) [OF ne Skipped] .
      have tl: "drop n rest = drop (c + n) ?src" "c + n \<le> length ?src"
        using 1(4,5) n by (auto simp: add.commute)
      have "reparsed tm tail (splice_from ?src (c + n) (?reps rs)) rs"
        using 1(1) [OF ne Skipped loop tl] 1(6,7) b(1,2) no_bom_part [of b tail "[]"] by auto
      moreover have "splice_from ?src c (?reps rs) = b @ splice_from ?src (c + n) (?reps rs)"
        using splice_record(2) [of c ?src b "[]" "[]" tail n rs f tm] parse_loop_spans [OF tl, of "l + k"] loop 1(4) b(1,2)
        by simp
      ultimately show ?thesis
        using reparsed_skip [of tm tail "splice_from ?src (c + n) (?reps rs)" rs b k] 1(6,7) b n
        by (simp add: reparsed_def)
    next
      case (Stopped i)
      then show ?thesis using 1(3) ne by (simp add: parse_loop.simps [of c l rest])
    next
      case (Parsed r i n k)
      obtain rs1 where i: "i = None" "rs = r # rs1" and loop: "parse_loop (c + n) (l + k) (drop n rest) = (rs1, [])"
        using 1(3) ne Parsed by (cases i) (auto simp: parse_loop.simps [of c l rest] split: prod.splits)
      obtain a v b tail where rest: "rest = a @ v @ b @ tail" and ex: "exchangeable c r n a v b tail"
        using parsed_exchangeable Parsed i(1) 1(6) by metis
      have n: "n = length (a @ v @ b)" and tail: "tail = [] \<or> b \<noteq> [] \<and> last b \<in> {LF, CR}"
        and span: "pr_value_span r = (c + length a, c + length a + length v)" and a: "a \<noteq> []"
        using ex by (simp_all add: exchangeable_def)
      have tl: "drop n rest = drop (c + n) ?src" "c + n \<le> length ?src"
        using 1(4,5) parse_step_reads(2) [OF ne Parsed] by (auto simp: add.commute)
      let ?tail' = "splice_from ?src (c + n) (?reps rs1)"
      have dr: "drop n rest = tail" using rest n by simp
      have IH: "reparsed tm tail ?tail' rs1"
        using 1(2) [OF ne Parsed loop tl] 1(6,7) rest no_bom_part [of "a @ v @ b" tail "[]"] unfolding dr by auto
      then have same: "same_start tail ?tail'" by (simp add: reparsed_def)
      have sp: "list_all (span_ok ?src (c + n)) rs1" using parse_loop_spans [OF tl, of "l + k"] loop by simp
      have src: "drop c ?src = a @ v @ b @ tail" using 1(4) rest by simp
      note rec = reparsed_record [OF IH 1(7) [unfolded rest] a tail]
      show ?thesis
      proof (cases "get_token tm (en_key (pr_entry r))")
        case None
        then have "splice_from ?src c (?reps rs) = a @ v @ b @ ?tail'"
          using splice_record(2) [OF src n sp] by (simp add: i(2) replacement_of_def List.map_filter_simps)
        moreover have "tok_entry tm (pr_entry r) = pr_entry r" using None by (simp add: tok_entry_def)
        ultimately show ?thesis
          using rec [of v r] ex same 1(6) rest n by (simp add: i(2) exchangeable_def)
      next
        case (Some t)
        let ?w = "token_str t @ separator v (b @ tail)"
        have good: "good_text (token_str t)" using tp Some by (auto simp: tokens_plain_def plain_token_text)
        have "splice_from ?src c (?reps rs) = a @ ?w @ b @ ?tail'"
          using splice_record(1) [OF src n sp, of ?w f tm] render_separator [OF src]
          by (simp add: i(2) replacement_of_def List.map_filter_simps Some span)
        moreover have "tok_entry tm (pr_entry r)
            = \<lparr>en_key = en_key (pr_entry r), en_value = token_str t, en_is_phantom = True\<rparr>"
          using Some by (simp add: tok_entry_def)
        moreover have "CHR 0x0C \<notin> set (a @ ?w @ b)" "?w \<noteq> []" "set ?w \<inter> set UTF8_BOM = {}"
          using 1(6) rest good_text_facts(1,8,12) [OF good]
          by (auto simp: separator_def UTF8_BOM_def split: if_splits)
        ultimately show ?thesis
          using rec [of ?w r] ex same good rest by (simp add: i(2) exchangeable_def)
      qed
    qed
  qed
qed

subsection \<open>The file as a whole\<close>

lemma sort_key_Nil: "sort_key k xs = [] \<longleftrightarrow> xs = []"
  using length_sort [of k xs] by (metis length_0_conv)

lemma parse_str_issues:
  "df_issues (parse_str content) = [] \<longleftrightarrow> \<not> sublist UTF8_BOM (drop (bom_len content) content)
     \<and> snd (parse_loop (bom_len content) 1 (drop (bom_len content) content)) = []"
  by (auto simp: parse_str_def sort_key_Nil unexpected_bom_Nil split: prod.splits)

lemma parse_str_fields [simp]:
  "df_source (parse_str content) = content"
  "df_records (parse_str content) = fst (parse_loop (bom_len content) 1 (drop (bom_len content) content))"
  by (auto simp: parse_str_def split: prod.splits)

lemma bom_len_le: "bom_len content \<le> length content"
  by (auto simp: bom_len_def prefix_def)

lemma first_duplicate_None:
  "first_duplicate seen ks = None \<longleftrightarrow> distinct ks \<and> set ks \<inter> seen = {}"
  by (induction ks arbitrary: seen) auto

lemma validate_Ok:
  "validate_for_mutation f = Ok () \<longleftrightarrow> df_issues f = [] \<and> distinct (map en_key (entries f))"
  using first_duplicate_None [of "{}" "map en_key (entries f)"]
  by (auto simp: validate_for_mutation_def split: list.splits option.splits)

lemma bom_len_splice:
  assumes "\<not> sublist UTF8_BOM rest'" and "content = bom @ rest" and "length bom = bom_len content"
  shows "bom_len (bom @ rest') = bom_len content"
proof (cases "starts_with content UTF8_BOM")
  case True
  then have "length bom = length UTF8_BOM" using assms(3) by (simp add: bom_len_def)
  then have "bom = UTF8_BOM" using True assms(2)
    by (metis append_eq_append_conv prefix_def)
  then show ?thesis using True by (simp add: bom_len_def)
next
  case False
  then have "bom = []" using assms(3) by (simp add: bom_len_def)
  then show ?thesis using False assms(1) by (auto simp: bom_len_def dest: prefix_imp_sublist)
qed

lemma map_of_originals:
  "map_of (fold (original_step tm) rs m) = map_of m ++ map_of (rev (map (\<lambda>r. (en_key (pr_entry r), en_value (pr_entry r)))
     (filter (\<lambda>r. get_token tm (en_key (pr_entry r)) \<noteq> None \<and> \<not> en_is_phantom (pr_entry r)) rs)))"
  by (induction rs arbitrary: m) (auto simp: original_step_def map_add_def fun_eq_iff split: option.splits)

lemma map_of_rev_distinct:
  assumes "distinct (map fst l)"
  shows "map_of (rev l) = map_of l"
proof -
  have "distinct (map fst (rev l))" using assms by (simp only: rev_map [symmetric] distinct_rev)
  then show ?thesis using assms map_of_inject_set [of "rev l" l] by simp
qed

lemma tok_entry_key [simp]: "en_key (tok_entry tm e) = en_key e"
  by (simp add: tok_entry_def split: option.splits)

lemma rewrite_facts:
  assumes "rewrite_with_phantoms (parse_str content) tm = Ok (out, originals)"
    and "tokens_plain tm" and "CHR 0x0C \<notin> set content"
  shows "df_issues (parse_str out) = []"
    and "entries (parse_str out) = map (tok_entry tm) (entries (parse_str content))"
    and "CHR 0x0C \<notin> set out"
proof -
  let ?f = "parse_str content" and ?b = "bom_len content"
  let ?rest = "drop ?b content"
  define rs where "rs = df_records ?f"
  have v: "validate_for_mutation ?f = Ok ()"
    and out: "out = splice_source content (List.map_filter (replacement_of ?f tm) rs)"
    using assms(1) unfolding rewrite_with_phantoms_def and_then_Ok rs_def by auto
  then have "df_issues ?f = []" using validate_Ok by blast
  then have nb: "\<not> sublist UTF8_BOM ?rest" and "snd (parse_loop ?b 1 ?rest) = []"
    using parse_str_issues [of content] by blast+
  then have loop: "parse_loop ?b 1 ?rest = (rs, [])" by (simp add: rs_def prod_eq_iff)
  let ?rest' = "splice_from content ?b (List.map_filter (replacement_of ?f tm) rs)"
  have ff: "CHR 0x0C \<notin> set ?rest" using assms(3) by (metis in_set_dropD)
  have re: "reparsed tm ?rest ?rest' rs"
    by (rule rewrite_loop [OF loop, of ?f tm, unfolded parse_str_fields(1)])
      (rule refl bom_len_le ff nb assms(2))+
  have sp: "list_all (span_ok content ?b) rs"
    using parse_loop_spans [OF refl bom_len_le, of content 1] loop by simp
  have out': "out = take ?b content @ ?rest'"
    unfolding out splice_source_def
    using splice_skip [OF _ first_replacement [OF sp], of 0 content ?f tm] by (simp add: substr_def)
  have c: "content = take ?b content @ ?rest" by simp
  have l: "length (take ?b content) = ?b" using bom_len_le by simp
  have "\<not> sublist UTF8_BOM ?rest'" using re unfolding reparsed_def by blast
  then have bl: "bom_len out = ?b" unfolding out' by (rule bom_len_splice [OF _ c l])
  have dr: "drop ?b out = ?rest'" unfolding out' using l by simp
  obtain rs' where rs': "parse_loop ?b 1 ?rest' = (rs', [])"
    "map pr_entry rs' = map (tok_entry tm) (map pr_entry rs)"
    using re unfolding reparsed_def by blast
  show "df_issues (parse_str out) = []"
    using re rs'(1) by (simp add: parse_str_issues bl dr reparsed_def)
  show "entries (parse_str out) = map (tok_entry tm) (entries (parse_str content))"
    using rs' loop by (simp add: entries_def bl dr)
  show "CHR 0x0C \<notin> set out"
    using re assms(3) unfolding out' by (auto simp: reparsed_def dest: in_set_takeD)
qed

subsection \<open>Properties\<close>

text \<open>
  C33. Parsed spans are exact: whatever the file, its records lie in source order, do not overlap
  and stay inside the file, each value span lies inside its record, and the value of a record is
  what its span holds, decoded by the quote in front of it.
\<close>

theorem dotenv_spans_exact:
  "list_all (span_ok content 0) (df_records (parse_str content))
    \<and> sorted_wrt (\<lambda>r s. snd (pr_record_span r) \<le> fst (pr_record_span s)) (df_records (parse_str content))"
  using parse_loop_spans [OF refl bom_len_le, of content 1] span_ok_mono [of content "bom_len content" _ 0]
  by (auto simp: list_all_iff)

text \<open>
  C15. Protecting a file loses nothing and leaks nothing: when a file without form feeds is
  rewritten with well-formed tokens, the new file parses without issues to the same keys in the
  same order, with the token as the value of every key that has one and every other value
  unchanged; the replaced real values are exactly the ones handed back for the vault, and a
  second rewrite finds none left.
\<close>

theorem rewrite_reparses:
  assumes "rewrite_with_phantoms (parse_str content) tm = Ok (out, originals)"
    and "tokens_plain tm" and "CHR 0x0C \<notin> set content"
  shows "df_issues (parse_str out) = []
    \<and> entries (parse_str out) = map (tok_entry tm) (entries (parse_str content))
    \<and> map_of originals = map_of (map (\<lambda>e. (en_key e, en_value e))
        (filter (\<lambda>e. get_token tm (en_key e) \<noteq> None \<and> \<not> en_is_phantom e) (entries (parse_str content))))
    \<and> (\<exists>again. rewrite_with_phantoms (parse_str out) tm = Ok (again, []))"
proof (intro conjI)
  note facts = rewrite_facts [OF assms]
  show "df_issues (parse_str out) = []" by (rule facts(1))
  show e: "entries (parse_str out) = map (tok_entry tm) (entries (parse_str content))" by (rule facts(2))
  let ?es = "entries (parse_str content)"
  have v: "validate_for_mutation (parse_str content) = Ok ()"
    and o: "originals = fold (original_step tm) (df_records (parse_str content)) []"
    using assms(1) by (auto simp: rewrite_with_phantoms_def res_simps)
  have d: "distinct (map en_key ?es)" using v validate_Ok by blast
  let ?l = "map (\<lambda>e. (en_key e, en_value e))
      (filter (\<lambda>e. get_token tm (en_key e) \<noteq> None \<and> \<not> en_is_phantom e) ?es)"
  have "map_of originals = map_of (rev ?l)"
    unfolding o map_of_originals by (simp add: entries_def filter_map comp_def)
  moreover have "distinct (map fst ?l)"
    using d by (simp add: comp_def distinct_map_filter)
  ultimately show "map_of originals = map_of ?l" by (simp only: map_of_rev_distinct)
  have "validate_for_mutation (parse_str out) = Ok ()"
    using d facts(1) by (simp add: validate_Ok e comp_def)
  moreover have f: "fold (original_step tm) rs [] = []"
    if "map pr_entry rs = map (tok_entry tm) es" for rs es
    using that
  proof (induction rs arbitrary: es)
    case (Cons r rs)
    then obtain x xs where "es = x # xs" "pr_entry r = tok_entry tm x" "map pr_entry rs = map (tok_entry tm) xs"
      by (cases es) auto
    moreover have "original_step tm r [] = []"
      using calculation(2) by (auto simp: original_step_def tok_entry_def split: option.splits)
    ultimately show ?case using Cons.IH by simp
  qed simp
  ultimately show "\<exists>again. rewrite_with_phantoms (parse_str out) tm = Ok (again, [])"
    using f [OF e [unfolded entries_def]] by (simp add: rewrite_with_phantoms_def)
qed

definition sample_env :: string where
  "sample_env = ''A=abc #x'' @ [LF] @ ''B='' @ [DQ] @ ''x'' @ [LF] @ ''y'' @ [DQ, CR, LF] @ ''C= #z''"

definition sample_tokens :: token_map where
  "sample_tokens = insert_with_token ''C'' (PhantomToken ''phm_2'')
     (insert_with_token ''A'' (PhantomToken ''phm_1'') token_map_new)"

definition protected_env :: string where
  "protected_env = ''A=phm_1 #x'' @ [LF] @ ''B='' @ [DQ] @ ''x'' @ [LF] @ ''y'' @ [DQ, CR, LF] @ ''C= phm_2 #z''"

lemma sample_tokens_plain: "tokens_plain sample_tokens"
proof -
  have "plain_token (PhantomToken ''phm_1'')" "plain_token (PhantomToken ''phm_2'')" by code_simp+
  then show ?thesis by (simp add: tokens_plain_def sample_tokens_def)
qed

lemma sample_rewrite:
  "rewrite_with_phantoms (parse_str sample_env) sample_tokens
     = Ok (protected_env, [(''A'', ''abc''), (''C'', [])])"
  by code_simp

text \<open>A comment, a value over two lines and an empty value before a comment.\<close>

theorem rewrite_reparses_witness:
  "df_issues (parse_str protected_env) = []
    \<and> entries (parse_str protected_env) =
      [\<lparr>en_key = ''A'', en_value = ''phm_1'', en_is_phantom = True\<rparr>,
       \<lparr>en_key = ''B'', en_value = ''x'' @ [LF] @ ''y'', en_is_phantom = False\<rparr>,
       \<lparr>en_key = ''C'', en_value = ''phm_2'', en_is_phantom = True\<rparr>]
    \<and> (\<exists>again. rewrite_with_phantoms (parse_str protected_env) sample_tokens = Ok (again, []))"
proof -
  have ff: "CHR 0x0C \<notin> set sample_env" by code_simp
  have e: "map (tok_entry sample_tokens) (entries (parse_str sample_env)) =
      [\<lparr>en_key = ''A'', en_value = ''phm_1'', en_is_phantom = True\<rparr>,
       \<lparr>en_key = ''B'', en_value = ''x'' @ [LF] @ ''y'', en_is_phantom = False\<rparr>,
       \<lparr>en_key = ''C'', en_value = ''phm_2'', en_is_phantom = True\<rparr>]" by code_simp
  show ?thesis using rewrite_reparses [OF sample_rewrite sample_tokens_plain ff] unfolding e by blast
qed

text \<open>
  The form feed is needed: it counts as white space before a comment but not at the end of a
  value, so the value is replaced together with it and the token runs into the comment.
\<close>

theorem form_feed_joins_comment:
  "case rewrite_with_phantoms (parse_str (''A=k'' @ [CHR 0x0C] @ ''#c'')) sample_tokens of
     Inl _ \<Rightarrow> False
   | Inr (out, _) \<Rightarrow> entries (parse_str out) = [\<lparr>en_key = ''A'', en_value = ''phm_1#c'', en_is_phantom = True\<rparr>]"
  by code_simp

end
