(* ===== verification/Leak_Windows.thy ===== *)
theory Leak_Windows
  imports Prelude
begin

unbundle bit_operations_syntax

text \<open>
  Partial-run matching of \<open>phantom-proxy/src/interceptor.rs\<close>: which 12-byte windows of a managed
  value are eligible, the 65,536-bit prefilter of their rolling hashes, the scan of a text for runs
  of such windows, and the point up to which a stream is final.  The lemmas show that the rolling
  hash and the filter lose nothing: a run is exactly a maximal stretch covered by eligible windows.
  The order of the managed values is that of a hash map, so it is an argument.
\<close>

definition PARTIAL_MIN_RUN :: nat where "PARTIAL_MIN_RUN = 12"
definition PARTIAL_MIN_VALUE_LEN :: nat where "PARTIAL_MIN_VALUE_LEN = 16"
definition PUBLIC_PREFIX_SCAN :: nat where "PUBLIC_PREFIX_SCAN = 16"
definition PARTIAL_FILTER_WORDS :: nat where "PARTIAL_FILTER_WORDS = 1024"
definition WINDOW_HASH_BASE :: u64 where "WINDOW_HASH_BASE = 0x100000001b3"

definition is_token_like :: "string \<Rightarrow> bool" where
  "is_token_like value \<longleftrightarrow>
     PARTIAL_MIN_VALUE_LEN \<le> length value
     \<and> list_all (\<lambda>b. is_ascii_alphanumeric b \<or> b \<in> set ''-_.+/=~'') value"

definition rposition :: "('a \<Rightarrow> bool) \<Rightarrow> 'a list \<Rightarrow> nat option" where
  "rposition p xs = find (\<lambda>i. p (xs ! i)) (rev [0..<length xs])"

definition public_prefix_len :: "string \<Rightarrow> nat" where
  "public_prefix_len value =
     (let head = take (min (length value) PUBLIC_PREFIX_SCAN) value in
      case rposition (\<lambda>b. b = CHR ''-'' \<or> b = CHR ''_'') head of Some i \<Rightarrow> i + 1 | None \<Rightarrow> 0)"

definition partial_window_starts :: "string \<Rightarrow> nat list" where
  "partial_window_starts value =
     (let eligible = is_token_like value \<and> PARTIAL_MIN_RUN \<le> length value;
          first = public_prefix_len value - (PARTIAL_MIN_RUN - 1);
          last = (if eligible then length value - PARTIAL_MIN_RUN + 1 else 0)
      in [min first last..<last])"

definition window_hash :: "string \<Rightarrow> u64" where
  "window_hash window = fold (\<lambda>b h. h * WINDOW_HASH_BASE + (word_of_nat (byte_of b) + 1)) window 0"

definition WINDOW_HASH_TOP :: u64 where
  "WINDOW_HASH_TOP = fold (\<lambda>_ p. p * WINDOW_HASH_BASE) [0..<PARTIAL_MIN_RUN - 1] 1"

definition roll_hash :: "u64 \<Rightarrow> char \<Rightarrow> char \<Rightarrow> u64" where
  "roll_hash hash outgoing incoming =
     (hash - (word_of_nat (byte_of outgoing) + 1) * WINDOW_HASH_TOP) * WINDOW_HASH_BASE
       + (word_of_nat (byte_of incoming) + 1)"

definition partial_bit :: "u64 \<Rightarrow> nat" where
  "partial_bit hash = unat (drop_bit 48 (hash * 0x9E3779B97F4A7C15))"

subsection \<open>The analyzer and its filter\<close>

type_synonym vault_values = "(string \<times> string) list"

record leak_analyzer =
  vault_values :: vault_values
  partial_filter :: "u64 list option"

definition window_at :: "string \<Rightarrow> nat \<Rightarrow> string" where
  "window_at value start = take PARTIAL_MIN_RUN (drop start value)"

definition mark_bit :: "nat \<Rightarrow> u64 list \<Rightarrow> u64 list" where
  "mark_bit b bits = bits[b div 64 := bits ! (b div 64) OR push_bit (b mod 64) 1]"

definition filter_has :: "u64 list \<Rightarrow> nat \<Rightarrow> bool" where
  "filter_has bits b = (bits ! (b div 64) AND push_bit (b mod 64) 1 \<noteq> 0)"

definition with_partial_filter :: "vault_values \<Rightarrow> leak_analyzer" where
  "with_partial_filter vs =
     (let (bits, present) =
        fold (\<lambda>(value, _). fold (\<lambda>start (bits, _).
            (mark_bit (partial_bit (window_hash (window_at value start))) bits, True))
          (partial_window_starts value))
        vs (replicate PARTIAL_FILTER_WORDS 0, False)
      in \<lparr>vault_values = vs, partial_filter = (if present then Some bits else None)\<rparr>)"

definition has_partial_matching :: "leak_analyzer \<Rightarrow> bool" where
  "has_partial_matching an = (partial_filter an \<noteq> None)"

definition vault_name :: "leak_analyzer \<Rightarrow> nat \<Rightarrow> string" where
  "vault_name an index = snd (vault_values an ! index)"

definition value_has_window :: "string \<Rightarrow> string \<Rightarrow> bool" where
  "value_has_window value window =
     list_ex (\<lambda>start. window_at value start = window) (partial_window_starts value)"

definition verify_partial_window :: "leak_analyzer \<Rightarrow> string \<Rightarrow> nat option" where
  "verify_partial_window an window =
     find (\<lambda>i. value_has_window (fst (vault_values an ! i)) window) [0..<length (vault_values an)]"

type_synonym run = "nat \<times> nat \<times> nat"

fun push_run :: "run \<Rightarrow> run list \<Rightarrow> run list" where
  "push_run (start, end', index) runs =
     (if runs \<noteq> [] \<and> start \<le> fst (snd (last runs))
      then butlast runs @
        [(fst (last runs), max (fst (snd (last runs))) end', snd (snd (last runs)))]
      else runs @ [(start, end', index)])"

function partial_scan ::
  "leak_analyzer \<Rightarrow> u64 list \<Rightarrow> string \<Rightarrow> u64 \<Rightarrow> nat \<Rightarrow> run list \<Rightarrow> run list" where
  "partial_scan an bits input hash start runs =
     (let runs' =
        (if filter_has bits (partial_bit hash)
         then case verify_partial_window an (window_at input start) of
             Some index \<Rightarrow> push_run (start, start + PARTIAL_MIN_RUN, index) runs
           | None \<Rightarrow> runs
         else runs);
        next_byte = start + PARTIAL_MIN_RUN
      in if length input \<le> next_byte then runs'
         else partial_scan an bits input (roll_hash hash (input ! start) (input ! next_byte))
           (start + 1) runs')"
  by pat_completeness auto
termination
  by (relation "measure (\<lambda>(_, _, input, _, start, _). length input - start)") auto

declare partial_scan.simps [simp del]

definition partial_runs :: "leak_analyzer \<Rightarrow> string \<Rightarrow> run list" where
  "partial_runs an input =
     (case partial_filter an of None \<Rightarrow> []
      | Some bits \<Rightarrow>
          if length input < PARTIAL_MIN_RUN then []
          else partial_scan an bits input (window_hash (take PARTIAL_MIN_RUN input)) 0 [])"

definition window_starts_with :: "string \<Rightarrow> string \<Rightarrow> bool" where
  "window_starts_with value s =
     list_ex (\<lambda>start. starts_with (window_at value start) s) (partial_window_starts value)"

definition partial_hold_start :: "leak_analyzer \<Rightarrow> string \<Rightarrow> nat" where
  "partial_hold_start an input =
     (if partial_filter an = None then length input
      else case find (\<lambda>j. list_ex (\<lambda>(value, _). window_starts_with value (drop j input)) (vault_values an))
             [length input - (PARTIAL_MIN_RUN - 1)..<length input] of
          Some j \<Rightarrow> j | None \<Rightarrow> length input)"

subsection \<open>Eligible windows\<close>

definition eligible :: "vault_values \<Rightarrow> string \<Rightarrow> bool" where
  "eligible vs window = list_ex (\<lambda>(value, _). value_has_window value window) vs"

definition hit :: "vault_values \<Rightarrow> string \<Rightarrow> nat \<Rightarrow> bool" where
  "hit vs input start \<longleftrightarrow>
     start + PARTIAL_MIN_RUN \<le> length input \<and> eligible vs (window_at input start)"

lemma window_starts_fit:
  "start \<in> set (partial_window_starts value) \<Longrightarrow>
     is_token_like value \<and> start + PARTIAL_MIN_RUN \<le> length value"
  by (auto simp: partial_window_starts_def Let_def split: if_splits)

lemma eligibleE:
  assumes "eligible vs w"
  obtains v n start where "(v, n) \<in> set vs" "is_token_like v"
    "start \<in> set (partial_window_starts v)"
    "start + PARTIAL_MIN_RUN \<le> length v" "w = window_at v start"
  using assms window_starts_fit by (fastforce simp: eligible_def value_has_window_def list_ex_iff)

lemma eligible_length: "eligible vs w \<Longrightarrow> length w = PARTIAL_MIN_RUN"
  by (erule eligibleE) (simp add: window_at_def)

lemma eligible_bytes:
  assumes "eligible vs w" and "b \<in> set w"
  shows "is_ascii_alphanumeric b \<or> b \<in> set ''-_.+/=~''"
  using assms by (elim eligibleE) (auto simp: window_at_def is_token_like_def list_all_iff
      dest!: in_set_takeD in_set_dropD)

lemma verify_Some: "verify_partial_window an w = Some i \<Longrightarrow>
    i < length (vault_values an) \<and> eligible (vault_values an) w"
  by (fastforce simp: verify_partial_window_def find_Some_iff eligible_def list_ex_iff
      in_set_conv_nth case_prod_beta)

lemma verify_None: "verify_partial_window an w = None \<longleftrightarrow> \<not> eligible (vault_values an) w"
proof -
  have "eligible (vault_values an) w \<longleftrightarrow> (\<exists>i < length (vault_values an). value_has_window (fst (vault_values an ! i)) w)"
    unfolding eligible_def list_ex_iff case_prod_beta by (metis in_set_conv_nth)
  then show ?thesis by (auto simp: verify_partial_window_def find_None_iff)
qed

subsection \<open>The filter holds every eligible window\<close>

definition all_windows :: "vault_values \<Rightarrow> string list" where
  "all_windows vs = concat (map (\<lambda>(value, _). map (window_at value) (partial_window_starts value)) vs)"

lemma eligible_all_windows: "eligible vs w \<longleftrightarrow> w \<in> set (all_windows vs)"
  by (auto simp: eligible_def all_windows_def value_has_window_def list_ex_iff)

abbreviation window_bit :: "string \<Rightarrow> nat" where
  "window_bit w \<equiv> partial_bit (window_hash w)"

lemma filter_fold_value:
  "fold (\<lambda>start (bits, _). (mark_bit (window_bit (window_at value start)) bits, True)) starts (bits, p)
     = (fold (\<lambda>w. mark_bit (window_bit w)) (map (window_at value) starts) bits, p \<or> starts \<noteq> [])"
  by (induction starts arbitrary: bits p) auto

lemma filter_fold:
  "fold (\<lambda>(value, _). fold (\<lambda>start (bits, _).
        (mark_bit (window_bit (window_at value start)) bits, True)) (partial_window_starts value))
      vs (bits, p)
     = (fold (\<lambda>w. mark_bit (window_bit w)) (all_windows vs) bits, p \<or> all_windows vs \<noteq> [])"
  by (induction vs arbitrary: bits p) (auto simp: filter_fold_value all_windows_def)

lemma filter_has_iff: "filter_has bits b \<longleftrightarrow> bit (bits ! (b div 64)) (b mod 64)"
  by (simp add: filter_has_def push_bit_eq_mult and_exp_eq_0_iff_not_bit)

lemma length_mark_bit [simp]: "length (mark_bit b bits) = length bits"
  by (simp add: mark_bit_def)

lemma filter_has_mark:
  "b div 64 < length bits \<Longrightarrow> filter_has (mark_bit b bits) b"
  by (simp add: filter_has_iff mark_bit_def bit_or_iff bit_exp_iff possible_bit_def)

lemma filter_has_mono:
  assumes "filter_has bits c"
  shows "filter_has (mark_bit b bits) c"
proof (cases "b div 64 < length bits \<and> c div 64 = b div 64")
  case True
  then show ?thesis using assms by (simp add: filter_has_iff mark_bit_def bit_or_iff)
next
  case False
  then have "mark_bit b bits ! (c div 64) = bits ! (c div 64)"
    by (cases "b div 64 < length bits") (auto simp: mark_bit_def list_update_beyond)
  then show ?thesis using assms by (simp add: filter_has_iff)
qed

lemma filter_has_fold_mono:
  "filter_has bits c \<Longrightarrow> filter_has (fold (\<lambda>w. mark_bit (window_bit w)) ws bits) c"
  by (induction ws arbitrary: bits) (auto simp: filter_has_mono)

lemma partial_bit_word: "partial_bit h div 64 < PARTIAL_FILTER_WORDS"
proof -
  have "take_bit LENGTH(64) (unat (h * 0x9E3779B97F4A7C15)) < 2 ^ LENGTH(64)"
    by (rule take_bit_nat_less_exp)
  then have "take_bit LENGTH(64) (unat (h * 0x9E3779B97F4A7C15)) div 2 ^ 48 div 64 < 1024" by simp
  then show ?thesis
    unfolding partial_bit_def unsigned_drop_bit_eq PARTIAL_FILTER_WORDS_def
    by (simp only: drop_bit_eq_div [where 'a = nat])
qed

lemma filter_fold_complete:
  "w \<in> set ws \<Longrightarrow> length bits = PARTIAL_FILTER_WORDS \<Longrightarrow>
     filter_has (fold (\<lambda>w. mark_bit (window_bit w)) ws bits) (window_bit w)"
proof (induction ws arbitrary: bits)
  case (Cons u ws)
  then show ?case
    by (cases "u = w")
      (auto simp: filter_has_fold_mono [OF filter_has_mark] partial_bit_word)
qed simp

lemma vault_values_with_partial_filter [simp]: "vault_values (with_partial_filter vs) = vs"
  by (simp add: with_partial_filter_def filter_fold)

lemma partial_filter_None:
  "partial_filter (with_partial_filter vs) = None \<longleftrightarrow> all_windows vs = []"
  by (simp add: with_partial_filter_def filter_fold)

lemma no_filter_no_window:
  "partial_filter (with_partial_filter vs) = None \<Longrightarrow> \<not> eligible vs w"
  by (simp add: partial_filter_None eligible_all_windows)

lemma filter_complete:
  assumes "partial_filter (with_partial_filter vs) = Some bits" and "eligible vs w"
  shows "filter_has bits (window_bit w)"
  using assms filter_fold_complete [of w "all_windows vs" "replicate PARTIAL_FILTER_WORDS 0"]
  by (auto simp: with_partial_filter_def filter_fold eligible_all_windows split: if_splits)

subsection \<open>The rolling hash\<close>

lemma hash_fold:
  "fold (\<lambda>b h. h * B + g b) w (h :: u64) = h * B ^ length w + fold (\<lambda>b h. h * B + g b) w 0"
proof (induction w arbitrary: h)
  case (Cons b w)
  show ?case using Cons [of "h * B + g b"] Cons [of "g b"] by (simp add: algebra_simps)
qed simp

lemma hash_top: "WINDOW_HASH_TOP = WINDOW_HASH_BASE ^ (PARTIAL_MIN_RUN - 1)"
proof -
  have "fold (\<lambda>_ p. p * B) [0..<n] p = p * B ^ n" for B p :: u64 and n
    by (induction n arbitrary: p) (simp_all add: algebra_simps)
  then show ?thesis by (simp add: WINDOW_HASH_TOP_def)
qed

lemma roll_hash_window:
  assumes "length w + 1 = PARTIAL_MIN_RUN"
  shows "roll_hash (window_hash (a # w)) a b = window_hash (w @ [b])"
proof -
  have "window_hash (a # w)
      = (word_of_nat (byte_of a) + 1) * WINDOW_HASH_TOP + window_hash w"
    using assms hash_fold [where w = w and h = "word_of_nat (byte_of a) + 1" and B = WINDOW_HASH_BASE]
    by (simp add: window_hash_def hash_top flip: assms)
  then show ?thesis by (simp add: roll_hash_def window_hash_def)
qed

lemma roll_hash_step:
  assumes "start + PARTIAL_MIN_RUN < length input"
  shows "roll_hash (window_hash (window_at input start)) (input ! start) (input ! (start + PARTIAL_MIN_RUN))
    = window_hash (window_at input (start + 1))"
proof -
  define w where "w = take (PARTIAL_MIN_RUN - 1) (drop (start + 1) input)"
  have "window_at input start = input ! start # w"
    using assms by (simp add: window_at_def w_def PARTIAL_MIN_RUN_def
        flip: Cons_nth_drop_Suc [of start input])
  moreover have "window_at input (start + 1) = w @ [input ! (start + PARTIAL_MIN_RUN)]"
    using assms take_Suc_conv_app_nth [of "PARTIAL_MIN_RUN - 1" "drop (start + 1) input"]
    by (simp add: window_at_def w_def PARTIAL_MIN_RUN_def add.commute)
  moreover have "length w + 1 = PARTIAL_MIN_RUN"
    using assms by (simp add: w_def PARTIAL_MIN_RUN_def)
  ultimately show ?thesis using roll_hash_window by simp
qed

subsection \<open>Runs\<close>

definition covered :: "run list \<Rightarrow> nat \<Rightarrow> bool" where
  "covered runs p \<longleftrightarrow> (\<exists>(s, e, _) \<in> set runs. s \<le> p \<and> p < e)"

text \<open>Runs in order, none empty, with at least one byte between two of them.\<close>

definition separated :: "run list \<Rightarrow> bool" where
  "separated runs \<longleftrightarrow> sorted_wrt (\<lambda>(_, e, _) (s, _, _). e < s) runs \<and> (\<forall>(s, e, _) \<in> set runs. s < e)"

definition starts_upto :: "nat \<Rightarrow> run list \<Rightarrow> bool" where
  "starts_upto n runs \<longleftrightarrow> (\<forall>(s, _, _) \<in> set runs. s \<le> n)"

definition ends_upto :: "nat \<Rightarrow> run list \<Rightarrow> bool" where
  "ends_upto n runs \<longleftrightarrow> (\<forall>(_, e, _) \<in> set runs. e \<le> n)"

lemmas runs_defs = covered_def separated_def starts_upto_def ends_upto_def

lemma covered_simps [simp]:
  "covered [] p = False"
  "covered ((s, e, i) # rs) p \<longleftrightarrow> (s \<le> p \<and> p < e) \<or> covered rs p"
  "covered (rs @ rs') p \<longleftrightarrow> covered rs p \<or> covered rs' p"
  by (auto simp: covered_def)

lemma separated_Nil [simp]: "separated []" by (simp add: separated_def)

lemma separated_Cons: "separated ((s, e, i) # rs) \<longleftrightarrow>
    s < e \<and> (\<forall>(s', _, _) \<in> set rs. e < s') \<and> separated rs"
  by (auto simp: separated_def)

lemma separated_snoc: "separated (rs @ [(s, e, i)]) \<longleftrightarrow>
    s < e \<and> (\<forall>(_, e', _) \<in> set rs. e' < s) \<and> separated rs"
  by (auto simp: separated_def sorted_wrt_append)

lemma covered_after: "\<forall>(s, _, _) \<in> set rs. e < s \<Longrightarrow> covered rs p \<Longrightarrow> e < p"
  by (fastforce simp: covered_def)

lemma push_run_snoc:
  "push_run (s, e, i) (rs @ [(s', e', i')])
     = (if s \<le> e' then rs @ [(s', max e' e, i')] else rs @ [(s', e', i'), (s, e, i)])"
  by simp

lemma push_run:
  assumes "separated runs" and "starts_upto s runs" and "s < e"
  shows "separated (push_run (s, e, i) runs)"
    and "covered (push_run (s, e, i) runs) p \<longleftrightarrow> covered runs p \<or> (s \<le> p \<and> p < e)"
    and "starts_upto s (push_run (s, e, i) runs)"
    and "ends_upto n runs \<Longrightarrow> e \<le> n \<Longrightarrow> ends_upto n (push_run (s, e, i) runs)"
proof -
  have "separated (push_run (s, e, i) runs)
    \<and> (\<forall>p. covered (push_run (s, e, i) runs) p \<longleftrightarrow> covered runs p \<or> (s \<le> p \<and> p < e))
    \<and> starts_upto s (push_run (s, e, i) runs)
    \<and> (ends_upto n runs \<longrightarrow> e \<le> n \<longrightarrow> ends_upto n (push_run (s, e, i) runs))"
  proof (cases runs rule: rev_cases)
    case Nil
    then show ?thesis using assms by (auto simp: runs_defs)
  next
    case (snoc rs r)
    obtain s' e' i' where r: "r = (s', e', i')" by (cases r)
    have before: "\<forall>(_, x, _) \<in> set rs. x < s'" and s': "s' < e'" "s' \<le> s" "separated rs"
      using assms(1,2) by (auto simp: snoc r separated_snoc starts_upto_def)
    show ?thesis
    proof (cases "s \<le> e'")
      case True
      then show ?thesis using before s' assms(2,3)
        unfolding snoc r push_run_snoc
        by (auto simp: separated_snoc starts_upto_def ends_upto_def max_def)
    next
      case False
      then have "\<forall>(_, x, _) \<in> set (rs @ [(s', e', i')]). x < s" using before s' by fastforce
      then have "separated ((rs @ [(s', e', i')]) @ [(s, e, i)])"
        using assms(1,3) unfolding separated_snoc [of "rs @ [(s', e', i')]"] snoc r by simp
      then show ?thesis using False assms(2)
        unfolding snoc r push_run_snoc by (auto simp: starts_upto_def ends_upto_def)
    qed
  qed
  then show "separated (push_run (s, e, i) runs)"
    and "covered (push_run (s, e, i) runs) p \<longleftrightarrow> covered runs p \<or> (s \<le> p \<and> p < e)"
    and "starts_upto s (push_run (s, e, i) runs)"
    and "ends_upto n runs \<Longrightarrow> e \<le> n \<Longrightarrow> ends_upto n (push_run (s, e, i) runs)"
    by auto
qed

subsection \<open>The scan\<close>

text \<open>The reference: verify every window, without hash or filter.\<close>

definition add_hit :: "leak_analyzer \<Rightarrow> string \<Rightarrow> nat \<Rightarrow> run list \<Rightarrow> run list" where
  "add_hit an input start runs =
     (case verify_partial_window an (window_at input start) of
        Some index \<Rightarrow> push_run (start, start + PARTIAL_MIN_RUN, index) runs
      | None \<Rightarrow> runs)"

lemma partial_scan_reference:
  assumes complete: "\<And>w. eligible (vault_values an) w \<Longrightarrow> filter_has bits (window_bit w)"
    and "start + PARTIAL_MIN_RUN \<le> length input"
  shows "partial_scan an bits input (window_hash (window_at input start)) start runs
    = fold (add_hit an input) [start..<length input - (PARTIAL_MIN_RUN - 1)] runs"
  using assms(2)
proof (induction "length input - start" arbitrary: start runs rule: less_induct)
  case less
  let ?w = "window_at input start"
  have step: "(if filter_has bits (window_bit ?w)
      then case verify_partial_window an ?w of
          Some index \<Rightarrow> push_run (start, start + PARTIAL_MIN_RUN, index) runs | None \<Rightarrow> runs
      else runs) = add_hit an input start runs"
    using complete [of ?w] verify_None [of an ?w]
    by (cases "verify_partial_window an ?w") (auto simp: add_hit_def)
  have upt: "[start..<length input - (PARTIAL_MIN_RUN - 1)]
      = start # [start + 1..<length input - (PARTIAL_MIN_RUN - 1)]"
    using less(2) by (simp add: PARTIAL_MIN_RUN_def upt_conv_Cons)
  show ?case
  proof (cases "length input \<le> start + PARTIAL_MIN_RUN")
    case True
    then have "[start + 1..<length input - (PARTIAL_MIN_RUN - 1)] = []"
      by (simp add: PARTIAL_MIN_RUN_def)
    then show ?thesis using True unfolding upt
      by (subst partial_scan.simps) (simp only: step Let_def if_True fold.simps o_apply id_apply)
  next
    case False
    have "partial_scan an bits input (window_hash (window_at input (start + 1))) (start + 1)
          (add_hit an input start runs)
        = fold (add_hit an input) [start + 1..<length input - (PARTIAL_MIN_RUN - 1)]
          (add_hit an input start runs)"
      using False by (intro less) (auto simp: PARTIAL_MIN_RUN_def)
    moreover have "\<not> length input \<le> start + PARTIAL_MIN_RUN" using False .
    moreover have "start + PARTIAL_MIN_RUN < length input" using False by simp
    ultimately show ?thesis unfolding upt
      by (subst partial_scan.simps)
        (simp only: roll_hash_step step Let_def if_False fold.simps o_apply)
  qed
qed

lemma partial_runs_reference:
  "partial_runs (with_partial_filter vs) input
     = fold (add_hit (with_partial_filter vs) input) [0..<length input - (PARTIAL_MIN_RUN - 1)] []"
proof (cases "partial_filter (with_partial_filter vs)")
  case None
  then have "add_hit (with_partial_filter vs) input start runs = runs" for start runs
    using no_filter_no_window [OF None] verify_None [of "with_partial_filter vs"]
    by (simp add: add_hit_def)
  then have "fold (add_hit (with_partial_filter vs) input) xs runs = runs" for xs runs
    by (induction xs arbitrary: runs) auto
  then show ?thesis using None by (simp add: partial_runs_def)
next
  case (Some bits)
  show ?thesis
  proof (cases "length input < PARTIAL_MIN_RUN")
    case True
    then show ?thesis using Some by (simp add: partial_runs_def PARTIAL_MIN_RUN_def)
  next
    case False
    then show ?thesis
      using Some partial_scan_reference [of "with_partial_filter vs" bits 0 input "[]"]
        filter_complete [OF Some]
      by (simp add: partial_runs_def window_at_def)
  qed
qed

lemma add_hits_runs:
  assumes "n + (PARTIAL_MIN_RUN - 1) \<le> length input \<or> n = 0"
    and r: "runs = fold (add_hit an input) [0..<n] []"
  shows "separated runs \<and> starts_upto n runs \<and> ends_upto (length input) runs
    \<and> (\<forall>p. covered runs p \<longleftrightarrow>
        (\<exists>s < n. hit (vault_values an) input s \<and> s \<le> p \<and> p < s + PARTIAL_MIN_RUN))"
  using assms(1) unfolding r
proof (induction n)
  case 0
  then show ?case by (simp add: runs_defs)
next
  case (Suc n)
  let ?r = "fold (add_hit an input) [0..<n] []"
  have fits: "n + PARTIAL_MIN_RUN \<le> length input" using Suc(2) by (simp add: PARTIAL_MIN_RUN_def)
  then have IH: "separated ?r" "starts_upto n ?r" "ends_upto (length input) ?r"
    "\<And>p. covered ?r p \<longleftrightarrow>
      (\<exists>s < n. hit (vault_values an) input s \<and> s \<le> p \<and> p < s + PARTIAL_MIN_RUN)"
    using Suc(1) by (auto simp: PARTIAL_MIN_RUN_def)
  have fold: "fold (add_hit an input) [0..<Suc n] [] = add_hit an input n ?r" by simp
  have mono: "starts_upto n rs \<Longrightarrow> starts_upto (Suc n) rs" for rs by (auto simp: starts_upto_def)
  show ?case
  proof (cases "verify_partial_window an (window_at input n)")
    case None
    then have "\<not> hit (vault_values an) input n" by (simp add: verify_None hit_def)
    then show ?thesis unfolding fold using None IH mono
      by (simp add: add_hit_def less_Suc_eq) blast
  next
    case (Some i)
    have h: "hit (vault_values an) input n" using verify_Some [OF Some] fits by (simp add: hit_def)
    have "n < n + PARTIAL_MIN_RUN" by (simp add: PARTIAL_MIN_RUN_def)
    note p = push_run [OF IH(1,2) this, where i = i]
    have "add_hit an input n ?r = push_run (n, n + PARTIAL_MIN_RUN, i) ?r"
      by (simp only: add_hit_def Some option.case)
    then show ?thesis
      unfolding fold
      using p(1) mono [OF p(3)] p(4) [OF IH(3) fits] h
      by (simp only: p(2) IH(4) less_Suc_eq) blast
  qed
qed

lemma partial_runs_exact:
  shows partial_runs_separated: "separated (partial_runs (with_partial_filter vs) input)"
    and partial_runs_ends: "ends_upto (length input) (partial_runs (with_partial_filter vs) input)"
    and partial_runs_covered: "covered (partial_runs (with_partial_filter vs) input) p \<longleftrightarrow>
      (\<exists>s. hit vs input s \<and> s \<le> p \<and> p < s + PARTIAL_MIN_RUN)"
proof -
  have "hit vs input s \<Longrightarrow> s < length input - (PARTIAL_MIN_RUN - 1)" for s
    unfolding hit_def PARTIAL_MIN_RUN_def by linarith
  moreover have "length input - (PARTIAL_MIN_RUN - 1) + (PARTIAL_MIN_RUN - 1) \<le> length input
      \<or> length input - (PARTIAL_MIN_RUN - 1) = 0"
    by linarith
  note add_hits_runs [OF this refl, of "with_partial_filter vs"]
  ultimately show "separated (partial_runs (with_partial_filter vs) input)"
    "ends_upto (length input) (partial_runs (with_partial_filter vs) input)"
    "covered (partial_runs (with_partial_filter vs) input) p \<longleftrightarrow>
      (\<exists>s. hit vs input s \<and> s \<le> p \<and> p < s + PARTIAL_MIN_RUN)"
    unfolding partial_runs_reference by (simp_all, blast)
qed

subsection \<open>What a stream may emit\<close>

lemma find_upt_Some:
  assumes "find P [a..<b] = Some h"
  shows "a \<le> h" and "h < b" and "P h" and "a \<le> j \<Longrightarrow> j < h \<Longrightarrow> \<not> P j"
proof -
  obtain i where i: "i < b - a" "h = a + i" "P h" "\<forall>k < i. \<not> P (a + k)"
    using assms unfolding find_Some_iff by fastforce
  then show "a \<le> h" "h < b" "P h" by auto
  assume "a \<le> j" "j < h"
  then have "j - a < i" "j = a + (j - a)" using i(2) by auto
  then show "\<not> P j" using i(4) by metis
qed

definition may_begin_window :: "leak_analyzer \<Rightarrow> string \<Rightarrow> bool" where
  "may_begin_window an s = list_ex (\<lambda>(v, _). window_starts_with v s) (vault_values an)"

lemma partial_hold_start_find:
  "partial_hold_start an input =
     (if partial_filter an = None then length input
      else case find (\<lambda>j. may_begin_window an (drop j input))
             [length input - (PARTIAL_MIN_RUN - 1)..<length input] of
          Some j \<Rightarrow> j | None \<Rightarrow> length input)"
  unfolding partial_hold_start_def may_begin_window_def ..

lemma hold_start_bounds:
  "partial_hold_start an input \<le> length input"
  "length input - partial_hold_start an input \<le> PARTIAL_MIN_RUN - 1"
proof -
  have "partial_hold_start an input \<le> length input
    \<and> length input - partial_hold_start an input \<le> PARTIAL_MIN_RUN - 1"
  proof (cases "find (\<lambda>j. may_begin_window an (drop j input))
      [length input - (PARTIAL_MIN_RUN - 1)..<length input]")
    case None
    then show ?thesis by (simp add: partial_hold_start_find)
  next
    case (Some h)
    then have "partial_hold_start an input \<in> {h, length input}"
      by (simp add: partial_hold_start_find)
    then show ?thesis using find_upt_Some(1,2) [OF Some] by auto
  qed
  then show "partial_hold_start an input \<le> length input"
    "length input - partial_hold_start an input \<le> PARTIAL_MIN_RUN - 1" by auto
qed

lemma hold_start_before:
  assumes "j < partial_hold_start an input" and "length input < j + PARTIAL_MIN_RUN"
    and "partial_filter an \<noteq> None"
  shows "\<not> may_begin_window an (drop j input)"
proof -
  have j: "length input - (PARTIAL_MIN_RUN - 1) \<le> j" "j < length input"
    using assms(1,2) hold_start_bounds(1) [of an input] by auto
  show ?thesis
  proof (cases "find (\<lambda>j. may_begin_window an (drop j input))
      [length input - (PARTIAL_MIN_RUN - 1)..<length input]")
    case None
    then show ?thesis using j by (auto simp: find_None_iff)
  next
    case (Some h)
    then have "j < h" using assms by (simp add: partial_hold_start_find)
    then show ?thesis using find_upt_Some(4) [OF Some j(1)] by simp
  qed
qed

text \<open>A window that starts before the hold point and is not complete never becomes a hit.\<close>

lemma hold_start_final:
  assumes "j < partial_hold_start (with_partial_filter vs) input"
    and "hit vs (input @ later) j"
  shows "j + PARTIAL_MIN_RUN \<le> length input"
proof (rule ccontr)
  assume "\<not> j + PARTIAL_MIN_RUN \<le> length input"
  then have short: "length input < j + PARTIAL_MIN_RUN" by simp
  have h: "eligible vs (window_at (input @ later) j)" using assms(2) by (simp add: hit_def)
  then have f: "partial_filter (with_partial_filter vs) \<noteq> None" using no_filter_no_window by blast
  have "starts_with (window_at (input @ later) j) (drop j input)"
    using short by (simp add: window_at_def)
  moreover obtain v n start where "(v, n) \<in> set vs" "start \<in> set (partial_window_starts v)"
    "window_at (input @ later) j = window_at v start"
    using h by (rule eligibleE)
  ultimately have "may_begin_window (with_partial_filter vs) (drop j input)"
    by (fastforce simp: may_begin_window_def window_starts_with_def list_ex_iff)
  then show False using hold_start_before [OF assms(1) short f] by simp
qed

end
