(* ===== verification/Response_Formats.thy ===== *)
theory Response_Formats
  imports Prelude
begin

text \<open>
  \<open>phantom-core/src/redact/response.rs\<close>: the byte grammars of credential formats that the buffered
  and the streaming scrubber share.  The lemmas give the two facts a scanner needs: a complete
  match is found at the earliest prefix that holds one, and an incomplete prefix is exactly a text
  that is no match yet but can be continued to one.
\<close>

datatype byte_class = Alnum | AlnumUnderscore | AlnumDashUnderscore | UpperAlnum | AlnumDash | HexLower

fun class_contains :: "byte_class \<Rightarrow> char \<Rightarrow> bool" where
  "class_contains Alnum b = is_ascii_alphanumeric b"
| "class_contains AlnumUnderscore b = (is_ascii_alphanumeric b \<or> b = CHR ''_'')"
| "class_contains AlnumDashUnderscore b = (is_ascii_alphanumeric b \<or> b = CHR ''-'' \<or> b = CHR ''_'')"
| "class_contains UpperAlnum b = (is_ascii_uppercase b \<or> is_ascii_digit b)"
| "class_contains AlnumDash b = (is_ascii_alphanumeric b \<or> b = CHR ''-'')"
| "class_contains HexLower b = (is_ascii_digit b \<or> b \<in> set ''abcdef'')"

datatype format_shape = Unbounded byte_class nat | Fixed byte_class nat | SendGrid

record format_spec =
  fs_label :: string
  fs_prefix :: string
  fs_shape :: format_shape

definition SENDGRID_LEN :: nat where "SENDGRID_LEN = 22 + 1 + 43"

fun shape_len :: "format_shape \<Rightarrow> nat" where
  "shape_len (Unbounded _ m) = m"
| "shape_len (Fixed _ len) = len"
| "shape_len SendGrid = SENDGRID_LEN"

definition minimum_match_len :: "format_spec \<Rightarrow> nat" where
  "minimum_match_len spec = length (fs_prefix spec) + shape_len (fs_shape spec)"

definition is_unbounded :: "format_spec \<Rightarrow> bool" where
  "is_unbounded spec = (case fs_shape spec of Unbounded _ _ \<Rightarrow> True | _ \<Rightarrow> False)"

definition continuation_contains :: "format_spec \<Rightarrow> char \<Rightarrow> bool" where
  "continuation_contains spec b =
     (case fs_shape spec of Unbounded class _ \<Rightarrow> class_contains class b | _ \<Rightarrow> False)"

definition sendgrid_prefix_is_incomplete :: "string \<Rightarrow> bool" where
  "sendgrid_prefix_is_incomplete rest =
     (if length rest \<le> 22 then list_all (class_contains AlnumDashUnderscore) rest
      else if rest ! 22 \<noteq> CHR ''.'' then False
      else length (drop 23 rest) < 43 \<and> list_all (class_contains AlnumDashUnderscore) (drop 23 rest))"

fun shape_incomplete :: "format_shape \<Rightarrow> string \<Rightarrow> bool" where
  "shape_incomplete (Unbounded class m) rest =
     (length rest < m \<and> list_all (class_contains class) rest)"
| "shape_incomplete (Fixed class len) rest =
     (length rest < len \<and> list_all (class_contains class) rest)"
| "shape_incomplete SendGrid rest = sendgrid_prefix_is_incomplete rest"

definition is_incomplete_prefix :: "format_spec \<Rightarrow> string \<Rightarrow> bool" where
  "is_incomplete_prefix spec candidate =
     (if length candidate \<le> length (fs_prefix spec) then starts_with (fs_prefix spec) candidate
      else if \<not> starts_with candidate (fs_prefix spec) then False
      else shape_incomplete (fs_shape spec) (drop (length (fs_prefix spec)) candidate))"

fun shape_match :: "format_shape \<Rightarrow> string \<Rightarrow> nat option" where
  "shape_match (Unbounded class m) rest =
     (let run = length (takeWhile (class_contains class) rest) in
      if m \<le> run then Some run else None)"
| "shape_match (Fixed class len) rest =
     (if len \<le> length rest \<and> list_all (class_contains class) (take len rest) then Some len else None)"
| "shape_match SendGrid rest =
     (if SENDGRID_LEN \<le> length rest \<and> list_all (class_contains AlnumDashUnderscore) (take 22 rest)
         \<and> rest ! 22 = CHR ''.''
         \<and> list_all (class_contains AlnumDashUnderscore) (take 43 (drop 23 rest))
      then Some SENDGRID_LEN else None)"

definition complete_prefix_len :: "format_spec \<Rightarrow> string \<Rightarrow> nat option" where
  "complete_prefix_len spec candidate =
     (if \<not> starts_with candidate (fs_prefix spec) then None
      else map_option (\<lambda>n. length (fs_prefix spec) + n)
        (shape_match (fs_shape spec) (drop (length (fs_prefix spec)) candidate)))"

subsection \<open>The catalog\<close>

definition FORMAT_SPECS :: "format_spec list" where
  "FORMAT_SPECS =
     [\<lparr>fs_label = ''sk_*'', fs_prefix = ''sk-'', fs_shape = Unbounded AlnumDashUnderscore 20\<rparr>,
      \<lparr>fs_label = ''sk_live_*'', fs_prefix = ''sk_live_'', fs_shape = Unbounded Alnum 20\<rparr>,
      \<lparr>fs_label = ''sk_test_*'', fs_prefix = ''sk_test_'', fs_shape = Unbounded Alnum 20\<rparr>,
      \<lparr>fs_label = ''ghp_*'', fs_prefix = ''ghp_'', fs_shape = Unbounded Alnum 36\<rparr>,
      \<lparr>fs_label = ''github_pat_*'', fs_prefix = ''github_pat_'', fs_shape = Unbounded AlnumUnderscore 80\<rparr>,
      \<lparr>fs_label = ''AKIA*'', fs_prefix = ''AKIA'', fs_shape = Fixed UpperAlnum 16\<rparr>,
      \<lparr>fs_label = ''AIza*'', fs_prefix = ''AIza'', fs_shape = Fixed AlnumDashUnderscore 35\<rparr>,
      \<lparr>fs_label = ''xoxb-*'', fs_prefix = ''xoxb-'', fs_shape = Unbounded AlnumDash 40\<rparr>,
      \<lparr>fs_label = ''xoxp-*'', fs_prefix = ''xoxp-'', fs_shape = Unbounded AlnumDash 40\<rparr>,
      \<lparr>fs_label = ''SG.*'', fs_prefix = ''SG.'', fs_shape = SendGrid\<rparr>,
      \<lparr>fs_label = ''AC*'', fs_prefix = ''AC'', fs_shape = Fixed HexLower 32\<rparr>,
      \<lparr>fs_label = ''phm_*'', fs_prefix = ''phm_'', fs_shape = Fixed HexLower 64\<rparr>]"

definition spec_ok :: "format_spec \<Rightarrow> bool" where
  "spec_ok spec \<longleftrightarrow> fs_prefix spec \<noteq> [] \<and> 0 < shape_len (fs_shape spec)"

lemma catalog_ok: "list_all spec_ok FORMAT_SPECS"
  by (simp add: FORMAT_SPECS_def spec_ok_def SENDGRID_LEN_def)

lemma spec_in_catalog: "spec \<in> set FORMAT_SPECS \<Longrightarrow> spec_ok spec"
  using catalog_ok by (simp add: list_all_iff)

subsection \<open>Matches\<close>

lemma shape_match_bounds:
  "shape_match shape rest = Some n \<Longrightarrow> shape_len shape \<le> n \<and> n \<le> length rest"
  by (cases shape) (auto simp: Let_def length_takeWhile_le split: if_splits)

lemma complete_bounds:
  assumes "complete_prefix_len spec c = Some n"
  shows "minimum_match_len spec \<le> n" and "n \<le> length c"
  using assms shape_match_bounds [of "fs_shape spec" "drop (length (fs_prefix spec)) c"]
  by (auto simp: complete_prefix_len_def minimum_match_len_def prefix_def split: if_splits)

lemma complete_pos: "spec_ok spec \<Longrightarrow> complete_prefix_len spec c = Some n \<Longrightarrow> 0 < n"
  using complete_bounds(1) [of spec c n] by (auto simp: spec_ok_def minimum_match_len_def)

lemma incomplete_len:
  assumes "is_incomplete_prefix spec c" and "spec_ok spec"
  shows "length c < minimum_match_len spec"
proof (cases "length c \<le> length (fs_prefix spec)")
  case True
  then show ?thesis using assms(2) by (simp add: spec_ok_def minimum_match_len_def)
next
  case False
  then show ?thesis using assms
    by (cases "fs_shape spec")
      (auto simp: is_incomplete_prefix_def minimum_match_len_def sendgrid_prefix_is_incomplete_def
        SENDGRID_LEN_def split: if_splits)
qed

text \<open>The left-to-right matches of one format.\<close>

function match_ranges_from :: "format_spec \<Rightarrow> nat \<Rightarrow> string \<Rightarrow> (nat \<times> nat) list" where
  "match_ranges_from spec cursor input =
     (if input = [] then []
      else case complete_prefix_len spec input of
          Some len \<Rightarrow>
            (cursor, cursor + len) #
              (if len = 0 then [] else match_ranges_from spec (cursor + len) (drop len input))
        | None \<Rightarrow> match_ranges_from spec (cursor + 1) (tl input))"
  by pat_completeness auto
termination
  by (relation "measure (\<lambda>(_, _, input). length input)") auto

declare match_ranges_from.simps [simp del]

definition match_ranges :: "format_spec \<Rightarrow> string \<Rightarrow> (nat \<times> nat) list" where
  "match_ranges spec input = match_ranges_from spec 0 input"

lemma match_ranges_from_unmatched:
  "input \<noteq> [] \<Longrightarrow> complete_prefix_len spec input = None \<Longrightarrow>
     match_ranges_from spec c input = match_ranges_from spec (c + 1) (tl input)"
  by (subst match_ranges_from.simps) simp

lemma match_ranges_from_matched:
  "input \<noteq> [] \<Longrightarrow> complete_prefix_len spec input = Some len \<Longrightarrow> 0 < len \<Longrightarrow>
     match_ranges_from spec c input
       = (c, c + len) # match_ranges_from spec (c + len) (drop len input)"
  by (subst match_ranges_from.simps) simp

lemma match_ranges_from_Nil [simp]: "match_ranges_from spec c [] = []"
  by (subst match_ranges_from.simps) simp

lemma match_ranges_sorted:
  assumes "spec_ok spec"
  shows "sorted_wrt (\<lambda>a b. snd a \<le> fst b) (match_ranges_from spec c input)
    \<and> (\<forall>r \<in> set (match_ranges_from spec c input). c \<le> fst r \<and> fst r < snd r \<and> snd r \<le> c + length input)"
proof (induction "length input" arbitrary: c input rule: less_induct)
  case less
  show ?case
  proof (cases "input = []")
    case True
    then show ?thesis by simp
  next
    case ne: False
    show ?thesis
    proof (cases "complete_prefix_len spec input")
      case None
      show ?thesis
        using less [of "tl input" "c + 1"] ne
        unfolding match_ranges_from_unmatched [OF ne None] by (cases input) fastforce+
    next
      case (Some len)
      have len: "0 < len" "len \<le> length input"
        using complete_pos [OF assms Some] complete_bounds(2) [OF Some] by auto
      show ?thesis
        using less [of "drop len input" "c + len"] ne len
        unfolding match_ranges_from_matched [OF ne Some len(1)] by fastforce
    qed
  qed
qed

text \<open>No match starts at a byte outside the ranges.\<close>

lemma match_ranges_rest:
  assumes "spec_ok spec" and "c \<le> p" and "p < c + length input"
    and "\<forall>(s, e) \<in> set (match_ranges_from spec c input). \<not> (s \<le> p \<and> p < e)"
  shows "complete_prefix_len spec (drop (p - c) input) = None"
  using assms(2-4)
proof (induction "length input" arbitrary: c input rule: less_induct)
  case less
  have ne: "input \<noteq> []" using less(2,3) by auto
  show ?case
  proof (cases "complete_prefix_len spec input")
    case None
    show ?thesis
    proof (cases "p = c")
      case False
      have eq: "match_ranges_from spec c input = match_ranges_from spec (c + 1) (tl input)"
        by (rule match_ranges_from_unmatched [OF ne None])
      have "complete_prefix_len spec (drop (p - (c + 1)) (tl input)) = None"
        using less(2-4) False ne unfolding eq by (intro less(1)) auto
      moreover have "drop (p - (c + 1)) (tl input) = drop (p - c) input"
        using False less(2) by (simp add: drop_Suc [symmetric] Suc_diff_Suc)
      ultimately show ?thesis by simp
    qed (use None in simp)
  next
    case (Some len)
    have len: "0 < len" "len \<le> length input"
      using complete_pos [OF assms(1) Some] complete_bounds(2) [OF Some] by auto
    note eq = match_ranges_from_matched [OF ne Some len(1), of c]
    have p: "c + len \<le> p" using less(2,4) unfolding eq by auto
    have "complete_prefix_len spec (drop (p - (c + len)) (drop len input)) = None"
      using less(3,4) p len ne unfolding eq by (intro less(1)) auto
    then show ?thesis using p by simp
  qed
qed

text \<open>A match survives any continuation.\<close>

lemma takeWhile_prefix: "prefix a b \<Longrightarrow> length (takeWhile P a) \<le> length (takeWhile P b)"
  by (auto simp: prefix_def takeWhile_append) (meson length_takeWhile_le trans_le_add1)

lemma shape_match_mono:
  assumes "shape_match shape a = Some n" and "prefix a b"
  shows "shape_match shape b \<noteq> None"
proof (cases shape)
  case (Unbounded cl m)
  then show ?thesis
    using assms(1) takeWhile_prefix [OF assms(2), of "class_contains cl"]
    by (auto simp: Let_def split: if_splits)
next
  case (Fixed cl m)
  then show ?thesis using assms by (auto simp: prefix_def split: if_splits)
next
  case SendGrid
  then show ?thesis using assms
    by (auto simp: prefix_def nth_append SENDGRID_LEN_def split: if_splits)
qed

lemma complete_mono:
  assumes "complete_prefix_len spec a = Some n" and "prefix a b"
  shows "complete_prefix_len spec b \<noteq> None"
proof -
  obtain m where m: "starts_with a (fs_prefix spec)"
    "shape_match (fs_shape spec) (drop (length (fs_prefix spec)) a) = Some m"
    using assms(1) by (auto simp: complete_prefix_len_def split: if_splits)
  have "prefix (drop (length (fs_prefix spec)) a) (drop (length (fs_prefix spec)) b)"
    using assms(2) m(1) by (auto simp: prefix_def)
  then have "shape_match (fs_shape spec) (drop (length (fs_prefix spec)) b) \<noteq> None"
    by (rule shape_match_mono [OF m(2)])
  moreover have "starts_with b (fs_prefix spec)" using m(1) assms(2) by (rule prefix_order.order_trans)
  ultimately show ?thesis by (auto simp: complete_prefix_len_def)
qed

subsection \<open>Incomplete prefixes\<close>

text \<open>The bytes of a match.\<close>

lemma class_no_bracket: "class_contains cl b \<Longrightarrow> b \<notin> set ''[]:*''"
  by (cases cl) (auto simp: byte_defs)

lemma list_all_class_bytes: "list_all (class_contains cl) s \<Longrightarrow> set s \<inter> set ''[]:*'' = {}"
  using class_no_bracket by (auto simp: list_all_iff)

lemma sendgrid_split:
  "length rest = SENDGRID_LEN \<Longrightarrow> rest = take 22 rest @ rest ! 22 # take 43 (drop 23 rest)"
  using id_take_nth_drop [of 22 rest] by (simp add: SENDGRID_LEN_def)

lemma shape_match_bytes:
  assumes "shape_match shape s = Some (length s)"
  shows "set s \<inter> set ''[]:*'' = {}"
proof (cases shape)
  case (Unbounded cl m)
  then have "length (takeWhile (class_contains cl) s) = length s"
    using assms by (auto simp: Let_def split: if_splits)
  then have "takeWhile (class_contains cl) s = s"
    by (metis order_refl takeWhile_eq_take take_all)
  then show ?thesis by (intro list_all_class_bytes [of cl]) (auto simp: list_all_iff takeWhile_eq_all_conv)
next
  case (Fixed cl m)
  then show ?thesis using assms by (intro list_all_class_bytes [of cl]) (auto split: if_splits)
next
  case SendGrid
  then have len: "length s = SENDGRID_LEN" and d: "s ! 22 = CHR ''.''"
    and parts: "list_all (class_contains AlnumDashUnderscore) (take 22 s)"
      "list_all (class_contains AlnumDashUnderscore) (take 43 (drop 23 s))"
    using assms by (simp_all del: class_contains.simps split: if_splits)
  have "set s = set (take 22 s @ s ! 22 # take 43 (drop 23 s))"
    using sendgrid_split [OF len] by (rule arg_cong)
  then show ?thesis using parts [THEN list_all_class_bytes] unfolding d by auto
qed

text \<open>A digit is in every class, so it can fill up whatever a candidate still needs.\<close>

lemma class_zero [simp]: "class_contains cl CHR ''0''"
  by (cases cl) (simp_all add: byte_defs)

fun completion :: "format_shape \<Rightarrow> string \<Rightarrow> string" where
  "completion (Unbounded cl m) rest = replicate (m - length rest) CHR ''0''"
| "completion (Fixed cl m) rest = replicate (m - length rest) CHR ''0''"
| "completion SendGrid rest =
     (if length rest \<le> 22
      then replicate (22 - length rest) CHR ''0'' @ CHR ''.'' # replicate 43 CHR ''0''
      else replicate (SENDGRID_LEN - length rest) CHR ''0'')"

text \<open>The test of the code does not look at the first part of a SendGrid key once the dot is there.\<close>

definition first_part_ok :: "format_shape \<Rightarrow> string \<Rightarrow> bool" where
  "first_part_ok shape rest \<longleftrightarrow>
     (shape = SendGrid \<longrightarrow> list_all (class_contains AlnumDashUnderscore) (take 22 rest))"

lemma completion_matches:
  assumes "shape_incomplete shape rest" and "first_part_ok shape rest"
  shows "shape_match shape (rest @ completion shape rest) \<noteq> None"
proof (cases shape)
  case (Unbounded cl m)
  then have "takeWhile (class_contains cl) (rest @ completion shape rest) = rest @ completion shape rest"
    using assms by (auto simp: list_all_iff takeWhile_eq_all_conv)
  then show ?thesis using assms by (simp add: Unbounded)
next
  case (Fixed cl m)
  then show ?thesis using assms by (auto simp: list_all_iff)
next
  case SendGrid
  note inc = assms(1) [unfolded SendGrid shape_incomplete.simps sendgrid_prefix_is_incomplete_def]
    assms(2) [unfolded first_part_ok_def]
  show ?thesis
  proof (cases "length rest \<le> 22")
    case True
    then show ?thesis using inc
      by (auto simp: SendGrid SENDGRID_LEN_def nth_append list_all_iff simp del: class_contains.simps)
  next
    case False
    then show ?thesis using inc
      by (auto simp: SendGrid SENDGRID_LEN_def nth_append list_all_iff simp del: class_contains.simps
          split: if_splits)
  qed
qed

lemma shape_incomplete_no_match:
  assumes "shape_incomplete shape rest"
  shows "shape_match shape rest = None"
proof (cases shape)
  case (Unbounded cl m)
  then show ?thesis
    using assms length_takeWhile_le [of "class_contains cl" rest] by (simp add: Let_def)
qed (use assms in \<open>auto simp: sendgrid_prefix_is_incomplete_def SENDGRID_LEN_def split: if_splits\<close>)

lemma takeWhile_stop: "length (takeWhile P (a @ b)) \<le> length (takeWhile P a) \<or> (\<forall>x \<in> set a. P x)"
  by (auto simp: takeWhile_append)

lemma shape_viable:
  assumes "shape_match shape rest = None" and "shape_match shape (rest @ ext) \<noteq> None"
  shows "shape_incomplete shape rest \<and> first_part_ok shape rest"
proof (cases shape)
  case (Unbounded cl m)
  then have "length (takeWhile (class_contains cl) rest) < m"
    "m \<le> length (takeWhile (class_contains cl) (rest @ ext))"
    using assms by (auto simp: Let_def split: if_splits)
  then have all: "\<forall>x \<in> set rest. class_contains cl x"
    using takeWhile_stop [of "class_contains cl" rest ext] by linarith
  then have tw: "takeWhile (class_contains cl) rest = rest" by (simp add: takeWhile_eq_all_conv)
  show ?thesis unfolding tw using tw all \<open>length (takeWhile (class_contains cl) rest) < m\<close>
    by (simp add: Unbounded list_all_iff first_part_ok_def del: takeWhile_eq_all_conv)
next
  case (Fixed cl m)
  then show ?thesis using assms
    by (auto simp: first_part_ok_def not_le split: if_splits)
next
  case SendGrid
  then show ?thesis using assms
    by (auto simp: first_part_ok_def sendgrid_prefix_is_incomplete_def SENDGRID_LEN_def nth_append
        list_all_append simp del: class_contains.simps split: if_splits)
qed

lemma starts_with_cut:
  "starts_with (c @ ext) p \<Longrightarrow> length c \<le> length p \<Longrightarrow> starts_with p c"
  by (metis prefix_length_prefix prefixI)

lemma viable_is_incomplete:
  assumes "complete_prefix_len spec c = None" and "complete_prefix_len spec (c @ ext) \<noteq> None"
  shows "is_incomplete_prefix spec c
    \<and> first_part_ok (fs_shape spec) (drop (length (fs_prefix spec)) c)"
proof (cases "length c \<le> length (fs_prefix spec)")
  case True
  have "starts_with (c @ ext) (fs_prefix spec)"
    using assms(2) by (simp add: complete_prefix_len_def split: if_splits)
  from starts_with_cut [OF this True] have "starts_with (fs_prefix spec) c" .
  then show ?thesis using True by (simp add: is_incomplete_prefix_def first_part_ok_def)
next
  case False
  have "starts_with (c @ ext) (fs_prefix spec)"
    using assms(2) by (simp add: complete_prefix_len_def split: if_splits)
  then have p: "starts_with c (fs_prefix spec)"
    using False prefix_length_prefix [of "fs_prefix spec" "c @ ext" c] by simp
  then have "shape_incomplete (fs_shape spec) (drop (length (fs_prefix spec)) c)
    \<and> first_part_ok (fs_shape spec) (drop (length (fs_prefix spec)) c)"
    using assms False by (intro shape_viable [of _ _ ext]) (auto simp: complete_prefix_len_def split: if_splits)
  then show ?thesis using False p by (simp add: is_incomplete_prefix_def)
qed

lemma incomplete_is_viable:
  assumes "spec_ok spec" and "is_incomplete_prefix spec c"
    and "first_part_ok (fs_shape spec) (drop (length (fs_prefix spec)) c)"
  shows "complete_prefix_len spec c = None \<and> (\<exists>ext. complete_prefix_len spec (c @ ext) \<noteq> None)"
proof (cases "length c \<le> length (fs_prefix spec)")
  case True
  have "shape_incomplete (fs_shape spec) []" and "first_part_ok (fs_shape spec) []"
    using assms(1) by (cases "fs_shape spec",
        auto simp: spec_ok_def sendgrid_prefix_is_incomplete_def first_part_ok_def)
  then have m: "shape_match (fs_shape spec) [] = None"
    "shape_match (fs_shape spec) (completion (fs_shape spec) []) \<noteq> None"
    using shape_incomplete_no_match completion_matches by fastforce+
  obtain p where p: "fs_prefix spec = c @ p" using assms(2) True by (auto simp: is_incomplete_prefix_def prefix_def)
  have "complete_prefix_len spec (c @ (p @ completion (fs_shape spec) [])) \<noteq> None"
    using m(2) p by (auto simp: complete_prefix_len_def)
  moreover have "complete_prefix_len spec c = None"
  proof (cases "starts_with c (fs_prefix spec)")
    case True
    then have "c = fs_prefix spec" using p by (auto simp: prefix_def)
    then show ?thesis using m(1) by (simp add: complete_prefix_len_def)
  qed (simp add: complete_prefix_len_def)
  ultimately show ?thesis by blast
next
  case False
  let ?rest = "drop (length (fs_prefix spec)) c"
  have p: "starts_with c (fs_prefix spec)" "shape_incomplete (fs_shape spec) ?rest"
    using assms(2) False by (auto simp: is_incomplete_prefix_def split: if_splits)
  have "complete_prefix_len spec (c @ completion (fs_shape spec) ?rest) \<noteq> None"
    using completion_matches [OF p(2) assms(3)] p(1) False by (auto simp: complete_prefix_len_def)
  moreover have "complete_prefix_len spec c = None"
    using shape_incomplete_no_match [OF p(2)] by (simp add: complete_prefix_len_def)
  ultimately show ?thesis by blast
qed

end
