(* ===== verification/Utf8_Text.thy ===== *)
theory Utf8_Text
  imports Prelude
begin

text \<open>
  UTF-8 as \<open>std::str::from_utf8\<close> checks it and as \<open>str::is_char_boundary\<close> reads it.  The lemmas
  cut a valid text at a boundary and join valid texts.
\<close>

definition is_cont :: "char \<Rightarrow> bool" where
  "is_cont b = (128 \<le> byte_of b \<and> byte_of b < 192)"

definition byte_between :: "nat \<Rightarrow> nat \<Rightarrow> char \<Rightarrow> bool" where
  "byte_between lo hi b = (lo \<le> byte_of b \<and> byte_of b \<le> hi)"

text \<open>The length of the encoded scalar value at the start of a text.\<close>

fun second_ok :: "nat \<Rightarrow> char \<Rightarrow> bool" where
  "second_ok lead b =
     (if lead = 0xE0 then byte_between 0xA0 0xBF b
      else if lead = 0xED then byte_between 0x80 0x9F b
      else if lead = 0xF0 then byte_between 0x90 0xBF b
      else if lead = 0xF4 then byte_between 0x80 0x8F b
      else is_cont b)"

definition scalar_width :: "nat \<Rightarrow> nat option" where
  "scalar_width lead =
     (if lead < 0x80 then Some 1
      else if 0xC2 \<le> lead \<and> lead \<le> 0xDF then Some 2
      else if 0xE0 \<le> lead \<and> lead \<le> 0xEF then Some 3
      else if 0xF0 \<le> lead \<and> lead \<le> 0xF4 then Some 4
      else None)"

fun scalar_len :: "string \<Rightarrow> nat option" where
  "scalar_len [] = None"
| "scalar_len (b # rest) =
     (case scalar_width (byte_of b) of
        None \<Rightarrow> None
      | Some n \<Rightarrow>
          if n \<le> length rest + 1 \<and> (n = 1 \<or> second_ok (byte_of b) (rest ! 0))
            \<and> list_all is_cont (drop 1 (take (n - 1) rest))
          then Some n else None)"

lemma scalar_len_bounds: "scalar_len s = Some n \<Longrightarrow> 0 < n \<and> n \<le> length s"
  by (cases s) (auto simp: scalar_width_def split: option.splits if_splits)

function valid_utf8 :: "string \<Rightarrow> bool" where
  "valid_utf8 s =
     (if s = [] then True
      else case scalar_len s of None \<Rightarrow> False | Some n \<Rightarrow> valid_utf8 (drop n s))"
  by pat_completeness auto
termination
  by (relation "measure length") (auto dest: scalar_len_bounds)

declare valid_utf8.simps [simp del]

definition is_char_boundary :: "string \<Rightarrow> nat \<Rightarrow> bool" where
  "is_char_boundary text i =
     (i = 0 \<or> (if length text \<le> i then i = length text else \<not> is_cont (text ! i)))"

subsection \<open>Scalar values\<close>

lemma second_cont: "second_ok lead b \<Longrightarrow> is_cont b"
  by (auto simp: is_cont_def byte_between_def split: if_splits)

lemma scalar_len_shape:
  assumes "scalar_len s = Some n"
  shows "\<not> is_cont (s ! 0)" and "\<And>i. 0 < i \<Longrightarrow> i < n \<Longrightarrow> is_cont (s ! i)"
proof -
  obtain b rest where s: "s = b # rest" using assms by (cases s) auto
  have w: "scalar_width (byte_of b) = Some n" "n \<le> length rest + 1"
    "n = 1 \<or> second_ok (byte_of b) (rest ! 0)" "list_all is_cont (drop 1 (take (n - 1) rest))"
    using assms by (auto simp: s split: option.splits if_splits)
  show "\<not> is_cont (s ! 0)" using w(1) by (auto simp: s is_cont_def scalar_width_def split: if_splits)
  fix i assume i: "0 < i" "i < n"
  show "is_cont (s ! i)"
  proof (cases "i = 1")
    case True
    then show ?thesis using w(3) i second_cont by (auto simp: s)
  next
    case False
    then have "Suc (i - 2) = i - 1" using i by simp
    then have "drop 1 (take (n - 1) rest) ! (i - 2) = rest ! (i - 1)" using i w(2) by simp
    moreover have "i - 2 < length (drop 1 (take (n - 1) rest))" using False i w(2) by simp
    ultimately have "is_cont (rest ! (i - 1))" using w(4) by (metis list_all_length)
    then show ?thesis using i by (simp add: s)
  qed
qed

lemma scalar_len_cut:
  assumes "scalar_len s = Some n" and "take n t = take n s"
  shows "scalar_len t = Some n"
proof -
  obtain b rest where s: "s = b # rest" using assms by (cases s) auto
  have n: "0 < n" "n \<le> length s" using scalar_len_bounds [OF assms(1)] by auto
  then have "length (take n t) = n" using assms(2) by simp
  then have len: "n \<le> length t" by simp
  obtain c more' where t: "t = c # more'" using len n by (cases t) auto
  have eq: "c = b" "take (n - 1) more' = take (n - 1) rest"
    using assms(2) n by (auto simp: s t take_Cons')
  have "more' ! 0 = rest ! 0" if "n \<noteq> 1"
  proof -
    have "0 < n - 1" using that n by simp
    then show ?thesis using eq(2) by (metis nth_take)
  qed
  then show ?thesis using assms(1) len eq by (auto simp: s t split: option.splits if_splits)
qed

subsection \<open>Valid texts\<close>

lemma valid_utf8_Nil [simp]: "valid_utf8 []" by (simp add: valid_utf8.simps)

lemma valid_utf8_step: "s \<noteq> [] \<Longrightarrow> valid_utf8 s \<longleftrightarrow>
    (\<exists>n. scalar_len s = Some n \<and> valid_utf8 (drop n s))"
  by (subst valid_utf8.simps) (auto split: option.splits)

lemma valid_utf8_append: "valid_utf8 a \<Longrightarrow> valid_utf8 b \<Longrightarrow> valid_utf8 (a @ b)"
proof (induction "length a" arbitrary: a rule: less_induct)
  case less
  show ?case
  proof (cases "a = []")
    case False
    then obtain n where n: "scalar_len a = Some n" "valid_utf8 (drop n a)"
      using less(2) valid_utf8_step by blast
    have b: "0 < n" "n \<le> length a" using scalar_len_bounds [OF n(1)] by auto
    have "scalar_len (a @ b) = Some n" by (rule scalar_len_cut [OF n(1)]) (use b in simp)
    moreover have "valid_utf8 (drop n (a @ b))" using less(1) [of "drop n a"] n(2) less(3) b by simp
    ultimately show ?thesis using False valid_utf8_step [of "a @ b"] by blast
  qed (use less in simp)
qed

lemma valid_utf8_cut:
  assumes "valid_utf8 s" and "is_char_boundary s i"
  shows "valid_utf8 (take i s) \<and> valid_utf8 (drop i s)"
  using assms
proof (induction "length s" arbitrary: s i rule: less_induct)
  case less
  show ?case
  proof (cases "i = 0 \<or> length s \<le> i")
    case True
    then show ?thesis using less(2,3) by (auto simp: is_char_boundary_def split: if_splits)
  next
    case False
    then have i: "0 < i" "i < length s" "\<not> is_cont (s ! i)"
      using less(3) by (auto simp: is_char_boundary_def)
    obtain n where n: "scalar_len s = Some n" "valid_utf8 (drop n s)"
      using less(2) i valid_utf8_step [of s] by fastforce
    have b: "0 < n" "n \<le> length s" using scalar_len_bounds [OF n(1)] by auto
    have ni: "n \<le> i" using scalar_len_shape(2) [OF n(1) i(1)] i(3) by force
    have "is_char_boundary (drop n s) (i - n)"
      using i ni b by (auto simp: is_char_boundary_def)
    then have IH: "valid_utf8 (take (i - n) (drop n s))" "valid_utf8 (drop i s)"
      using less(1) [of "drop n s" "i - n"] n(2) b ni by auto
    have "scalar_len (take i s) = Some n" by (rule scalar_len_cut [OF n(1)]) (use ni in simp)
    moreover have "drop n (take i s) = take (i - n) (drop n s)" by (simp add: drop_take)
    moreover have "take i s \<noteq> []" using i by auto
    ultimately have "valid_utf8 (take i s)" using IH(1) valid_utf8_step [of "take i s"] by simp
    then show ?thesis using IH(2) by simp
  qed
qed

lemma valid_utf8_head: "valid_utf8 s \<Longrightarrow> s \<noteq> [] \<Longrightarrow> \<not> is_cont (s ! 0)"
  using valid_utf8_step scalar_len_shape(1) by blast

lemma valid_utf8_cancel:
  assumes "valid_utf8 (a @ b)" and "valid_utf8 a"
  shows "valid_utf8 b"
  using assms
proof (induction "length a" arbitrary: a rule: less_induct)
  case less
  show ?case
  proof (cases "a = []")
    case False
    then obtain n where n: "scalar_len a = Some n" "valid_utf8 (drop n a)"
      using less(3) valid_utf8_step by blast
    have b: "0 < n" "n \<le> length a" using scalar_len_bounds [OF n(1)] by auto
    have "scalar_len (a @ b) = Some n" by (rule scalar_len_cut [OF n(1)]) (use b in simp)
    then have "valid_utf8 (drop n a @ b)" using less(2) False b valid_utf8_step [of "a @ b"] by simp
    then show ?thesis using less(1) [of "drop n a"] n(2) b by simp
  qed (use less in simp)
qed

lemma ascii_scalar: "byte_of b < 128 \<Longrightarrow> scalar_len (b # rest) = Some 1"
  by (simp add: scalar_width_def)

lemma valid_utf8_ascii: "\<forall>b \<in> set s. byte_of b < 128 \<Longrightarrow> valid_utf8 s"
proof (induction s)
  case (Cons b s)
  then have "scalar_len (b # s) = Some 1" by (intro ascii_scalar) simp
  then show ?case using Cons valid_utf8_step [of "b # s"] by simp
qed simp

end
