(* ===== verification/Leak_Analyzer.thy ===== *)
theory Leak_Analyzer
  imports Leak_Windows Response_Formats Utf8_Text
begin

text \<open>
  The response analyzer of \<open>phantom-proxy/src/interceptor.rs\<close>: exact matches of managed values,
  partial runs, then credential formats, each replaced by a marker and reported as a leak event
  (\<open>phantom-core/src/audit.rs\<close>).  The clock is an argument.  The inductive relation \<open>redacted\<close> is
  the contract of every stage: the output keeps bytes of the input and replaces stretches by
  markers, and no kept byte starts something the stage looks for.
\<close>

subsection \<open>Leak events\<close>

datatype leak_severity = High | Medium

datatype leak_location = Body | Header string | StatusLine

record leak_event =
  le_ts :: u64
  le_location :: leak_location
  le_severity :: leak_severity
  le_secret_name :: "string option"
  le_pattern :: string
  le_match_count :: nat

definition format_pattern_label :: "string \<Rightarrow> string" where
  "format_pattern_label _ = ''vault-secret''"

definition redaction :: "string \<Rightarrow> string" where
  "redaction pattern = ''[REDACTED:'' @ pattern @ '']''"

text \<open>Count a hit on the first event that fits, or report a new one.\<close>

fun bump_event :: "(leak_event \<Rightarrow> bool) \<Rightarrow> leak_event \<Rightarrow> leak_event list \<Rightarrow> leak_event list" where
  "bump_event fits new [] = [new]"
| "bump_event fits new (e # es) =
     (if fits e then e\<lparr>le_match_count := le_match_count e + 1\<rparr> # es else e # bump_event fits new es)"

text \<open>The analyzer of a map from names to values, and of pairs of token and value.\<close>

definition analyzer_new :: "(string \<times> string) list \<Rightarrow> leak_analyzer" where
  "analyzer_new named_mappings = with_partial_filter (map (\<lambda>(name, v). (v, name)) named_mappings)"

definition from_token_secret_pairs :: "(string \<times> string) list \<Rightarrow> leak_analyzer" where
  "from_token_secret_pairs pairs = with_partial_filter (map (\<lambda>(token, secret). (secret, token)) pairs)"

subsection \<open>Byte replacement\<close>

lemma scan_shrinks:
  "needle \<noteq> [] \<Longrightarrow> \<not> length haystack < length needle \<Longrightarrow>
     length haystack - length needle < length haystack \<and> length haystack - Suc 0 < length haystack"
  by (cases needle; cases haystack) auto

function count_from :: "string \<Rightarrow> string \<Rightarrow> nat" where
  "count_from haystack needle =
     (if needle = [] \<or> length haystack < length needle then 0
      else if starts_with haystack needle
      then 1 + count_from (drop (length needle) haystack) needle
      else count_from (tl haystack) needle)"
  by pat_completeness auto
termination by (relation "measure (\<lambda>(h, _). length h)") (auto dest: scan_shrinks)

declare count_from.simps [simp del]

definition count_occurrences :: "string \<Rightarrow> string \<Rightarrow> nat" where
  "count_occurrences haystack needle = (if needle = [] then 0 else count_from haystack needle)"

function replace_from :: "string \<Rightarrow> string \<Rightarrow> string \<Rightarrow> string" where
  "replace_from haystack needle replacement =
     (if haystack = [] then []
      else if needle \<noteq> [] \<and> starts_with haystack needle
      then replacement @ replace_from (drop (length needle) haystack) needle replacement
      else hd haystack # replace_from (tl haystack) needle replacement)"
  by pat_completeness auto
termination by (relation "measure (\<lambda>(h, _, _). length h)") auto

declare replace_from.simps [simp del]

definition replace_bytes :: "string \<Rightarrow> string \<Rightarrow> string \<Rightarrow> string" where
  "replace_bytes haystack needle replacement =
     (if needle = [] then haystack else replace_from haystack needle replacement)"

definition slice :: "nat \<Rightarrow> nat \<Rightarrow> 'a list \<Rightarrow> 'a list" where
  "slice a b xs = take (b - a) (drop a xs)"

subsection \<open>Partial runs\<close>

fun widen_start :: "string \<Rightarrow> nat \<Rightarrow> nat" where
  "widen_start text' 0 = 0"
| "widen_start text' (Suc n) = (if is_char_boundary text' (Suc n) then Suc n else widen_start text' n)"

function widen_end :: "string \<Rightarrow> nat \<Rightarrow> nat" where
  "widen_end text' n =
     (if n < length text' \<and> \<not> is_char_boundary text' n then widen_end text' (n + 1) else n)"
  by pat_completeness auto
termination by (relation "measure (\<lambda>(t, n). length t - n)") auto

declare widen_end.simps [simp del]

definition partial_event :: "u64 \<Rightarrow> leak_location \<Rightarrow> string \<Rightarrow> leak_event" where
  "partial_event now location name =
     \<lparr>le_ts = now, le_location = location, le_severity = High, le_secret_name = Some name,
      le_pattern = format_pattern_label [], le_match_count = 1\<rparr>"

fun redact_run :: "leak_analyzer \<Rightarrow> bool \<Rightarrow> leak_location \<Rightarrow> u64 \<Rightarrow> string \<Rightarrow> run
    \<Rightarrow> string \<times> nat \<times> leak_event list \<Rightarrow> string \<times> nat \<times> leak_event list" where
  "redact_run an char_boundary location now input (start, end', index) (output, cursor, events) =
     (let s = (if char_boundary then widen_start input start else start);
          e = (if char_boundary then widen_end input end' else end');
          s' = max s cursor;
          name = vault_name an index
      in if e \<le> s' then (output, cursor, events)
         else (output @ slice cursor s' input @ redaction (format_pattern_label []), e,
           bump_event (\<lambda>ev. le_pattern ev = ''vault-secret'' \<and> le_secret_name ev = Some name)
             (partial_event now location name) events))"

definition redact_partial_runs :: "leak_analyzer \<Rightarrow> string \<Rightarrow> bool \<Rightarrow> leak_location \<Rightarrow> u64
    \<Rightarrow> leak_event list \<Rightarrow> (string \<times> leak_event list) option" where
  "redact_partial_runs an input char_boundary location now events =
     (let runs = partial_runs an input in
      if runs = [] then None
      else let (output, cursor, events') =
             fold (redact_run an char_boundary location now input) runs ([], 0, events)
           in Some (output @ drop cursor input, events'))"

subsection \<open>The scanners\<close>

definition vault_step :: "leak_location \<Rightarrow> u64 \<Rightarrow> string \<times> string
    \<Rightarrow> string \<times> leak_event list \<Rightarrow> string \<times> leak_event list" where
  "vault_step location now = (\<lambda>(secret, name) (result, events).
     if secret = [] then (result, events)
     else let count = count_occurrences result secret in
       if 0 < count then
         (let pattern = format_pattern_label secret in
          (replace_bytes result secret (redaction pattern),
           events @ [\<lparr>le_ts = now, le_location = location, le_severity = High,
             le_secret_name = Some name, le_pattern = pattern, le_match_count = count\<rparr>]))
       else (result, events))"

fun replace_ranges :: "string \<Rightarrow> string \<Rightarrow> (nat \<times> nat) list \<Rightarrow> nat \<Rightarrow> string" where
  "replace_ranges result replacement [] cursor = drop cursor result"
| "replace_ranges result replacement ((s, e) # ranges) cursor =
     slice cursor s result @ replacement @ replace_ranges result replacement ranges e"

definition format_step :: "leak_analyzer \<Rightarrow> leak_location \<Rightarrow> u64 \<Rightarrow> format_spec
    \<Rightarrow> string \<times> leak_event list \<Rightarrow> string \<times> leak_event list" where
  "format_step an location now spec = (\<lambda>(result, events).
     let matches = match_ranges spec result in
     if matches = [] then (result, events)
     else
       let vault_confirmed = list_ex (\<lambda>(s, e).
             list_ex (\<lambda>(secret, _). secret = slice s e result) (vault_values an)) matches;
           severity = (if vault_confirmed then High else Medium);
           scrubbed = replace_ranges result (redaction (fs_label spec)) matches 0
       in if scrubbed \<noteq> result then
            (scrubbed,
             if list_ex (\<lambda>e. le_pattern e = fs_label spec) events then events
             else events @ [\<lparr>le_ts = now, le_location = location, le_severity = severity,
               le_secret_name = None, le_pattern = fs_label spec, le_match_count = length matches\<rparr>])
          else (result, events))"

definition scan_str :: "leak_analyzer \<Rightarrow> string \<Rightarrow> leak_location \<Rightarrow> u64 \<Rightarrow> string \<times> leak_event list" where
  "scan_str an input location now =
     (let (result, events) = fold (vault_step location now) (vault_values an) (input, []);
          (result', events') =
            (case redact_partial_runs an result True location now events of
               Some (next_result, next_events) \<Rightarrow>
                 (if valid_utf8 next_result then next_result else result, next_events)
             | None \<Rightarrow> (result, events))
      in fold (format_step an location now) FORMAT_SPECS (result', events'))"

definition scan_bytes_vault_only ::
  "leak_analyzer \<Rightarrow> string \<Rightarrow> leak_location \<Rightarrow> u64 \<Rightarrow> string \<times> leak_event list" where
  "scan_bytes_vault_only an input location now =
     (let (result, events) = fold (vault_step location now) (vault_values an) (input, [])
      in case redact_partial_runs an result False location now events of
           Some r \<Rightarrow> r | None \<Rightarrow> (result, events))"

definition analyze_body :: "leak_analyzer \<Rightarrow> string \<Rightarrow> u64 \<Rightarrow> string \<times> leak_event list" where
  "analyze_body an body now =
     (if valid_utf8 body then scan_str an body Body now else scan_bytes_vault_only an body Body now)"

definition analyze_header :: "leak_analyzer \<Rightarrow> string \<Rightarrow> string \<Rightarrow> u64 \<Rightarrow> string \<times> leak_event list" where
  "analyze_header an header_name hvalue now = scan_str an hvalue (Header header_name) now"

definition analyze_status_line :: "leak_analyzer \<Rightarrow> string \<Rightarrow> u64 \<Rightarrow> string \<times> leak_event list" where
  "analyze_status_line an status now = scan_str an status StatusLine now"

subsection \<open>Exact managed values\<close>

definition managed_exact_name :: "leak_analyzer \<Rightarrow> string \<Rightarrow> string option" where
  "managed_exact_name an candidate =
     map_option snd (find (\<lambda>(v, _). v = candidate) (vault_values an))"

definition is_managed_prefix :: "leak_analyzer \<Rightarrow> string \<Rightarrow> bool" where
  "is_managed_prefix an candidate \<longleftrightarrow>
     candidate \<noteq> [] \<and> list_ex (\<lambda>(v, _). length candidate < length v \<and> starts_with v candidate)
       (vault_values an)"

text \<open>\<open>Iterator::max_by_key\<close> keeps the last of several maxima.\<close>

fun last_max :: "('a \<Rightarrow> nat) \<Rightarrow> 'a list \<Rightarrow> 'a option" where
  "last_max key [] = None"
| "last_max key (x # xs) =
     (case last_max key xs of None \<Rightarrow> Some x | Some y \<Rightarrow> if key y < key x then Some x else Some y)"

definition managed_prefix_match :: "leak_analyzer \<Rightarrow> string \<Rightarrow> (nat \<times> string) option" where
  "managed_prefix_match an candidate =
     last_max fst (List.map_filter (\<lambda>(v, name).
       if v \<noteq> [] \<and> starts_with candidate v then Some (length v, name) else None) (vault_values an))"

definition max_managed_value_len :: "leak_analyzer \<Rightarrow> nat" where
  "max_managed_value_len an = fold (\<lambda>(v, _) m. max m (length v)) (vault_values an) 0"

end
