(* ===== verification/Leak_Redact.thy ===== *)
theory Leak_Redact
  imports Leak_Analyzer
begin

text \<open>
  The contract of a redaction stage and the lemmas that every stage of the analyzer meets it.
  \<open>redacted M P input output\<close>: the output is the input with stretches replaced by markers of \<open>M\<close>,
  and \<open>P\<close> holds of the rest of the input at every byte that was kept.  A text without brackets that
  occurs in such an output, and in no marker, stood in the input where \<open>P\<close> held.
\<close>

inductive redacted :: "string set \<Rightarrow> (string \<Rightarrow> bool) \<Rightarrow> string \<Rightarrow> string \<Rightarrow> bool" for M P where
  red_nil: "redacted M P [] []"
| red_keep: "P (c # t) \<Longrightarrow> redacted M P t out \<Longrightarrow> redacted M P (c # t) (c # out)"
| red_mark: "m \<in> M \<Longrightarrow> redacted M P t out \<Longrightarrow> redacted M P (x @ t) (m @ out)"

lemma redacted_same: "(\<And>t'. suffix t' t \<Longrightarrow> t' \<noteq> [] \<Longrightarrow> P t') \<Longrightarrow> redacted M P t t"
  by (induction t) (auto intro!: red_nil red_keep simp: suffix_Cons)

lemma sublist_split:
  assumes "sublist w (a @ c # b)" and "c \<notin> set w"
  shows "sublist w a \<or> sublist w b"
proof -
  obtain w1 w2 where w: "w = w1 @ w2" and *: "sublist w a \<or> sublist w (c # b) \<or> suffix w1 a \<and> prefix w2 (c # b)"
    using assms(1) unfolding sublist_append by blast
  have nil: "u = []" if "prefix u (c # b)" "c \<notin> set u" for u
    using that by (cases u) auto
  show ?thesis
    using * nil [of w] nil [of w2] assms(2) unfolding w
    by (auto simp: sublist_Cons_right suffix_imp_sublist)
qed

definition marker_free :: "string set \<Rightarrow> string \<Rightarrow> bool" where
  "marker_free M w \<longleftrightarrow> w \<noteq> [] \<and> CHR ''['' \<notin> set w \<and> CHR '']'' \<notin> set w
     \<and> (\<forall>m \<in> M. \<exists>x. m = CHR ''['' # x @ '']'' \<and> \<not> sublist w x)"

lemma redacted_prefix:
  assumes "redacted M P t out" and "prefix w out" and "CHR ''['' \<notin> set w"
    and "\<forall>m \<in> M. \<exists>x. m = CHR ''['' # x"
  shows "prefix w t"
  using assms(1-3)
proof (induction arbitrary: w)
  case (red_keep c t out)
  then show ?case by (cases w) auto
next
  case (red_mark m t out x)
  then obtain y where "m = CHR ''['' # y" using assms(4) by blast
  then show ?case using red_mark by (cases w) auto
qed simp

lemma redacted_sublist:
  assumes "redacted M P t out" and "sublist w out" and "marker_free M w"
  shows "\<exists>t'. suffix t' t \<and> prefix w t' \<and> P t'"
  using assms(1,2)
proof (induction)
  case red_nil
  then show ?case using assms(3) by (simp add: marker_free_def)
next
  case (red_keep c t out)
  show ?case
  proof (cases "prefix w (c # out)")
    case True
    have "redacted M P (c # t) (c # out)" by (rule redacted.red_keep [OF red_keep(1,2)])
    moreover have "CHR ''['' \<notin> set w" "\<forall>m \<in> M. \<exists>x. m = CHR ''['' # x"
      using assms(3) by (auto simp: marker_free_def)
    ultimately have "prefix w (c # t)" using redacted_prefix [OF _ True] by simp
    then show ?thesis using red_keep(1) by (intro exI [of _ "c # t"]) simp
  next
    case False
    then have "sublist w out" using red_keep(4) by (simp add: sublist_Cons_right)
    then obtain t' where "suffix t' t" "prefix w t'" "P t'" using red_keep(3) by blast
    then show ?thesis by (intro exI [of _ t'] conjI suffix_ConsI)
  qed
next
  case (red_mark m t out x)
  have w: "w \<noteq> []" "CHR ''['' \<notin> set w" "CHR '']'' \<notin> set w"
    using assms(3) by (simp_all add: marker_free_def)
  obtain y where y: "m = CHR ''['' # y @ '']''" "\<not> sublist w y"
    using assms(3) red_mark(1) unfolding marker_free_def by blast
  have "sublist w ([] @ CHR ''['' # (y @ CHR '']'' # out))" using red_mark(4) y(1) by simp
  from sublist_split [OF this w(2)] w(1) have "sublist w (y @ CHR '']'' # out)" by simp
  from sublist_split [OF this w(3)] y(2) have "sublist w out" by blast
  then obtain t' where "suffix t' t" "prefix w t'" "P t'" using red_mark(3) by blast
  then show ?case by (intro exI [of _ t'] conjI suffix_appendI)
qed

lemma redacted_sublist_input:
  "redacted M P t out \<Longrightarrow> sublist w out \<Longrightarrow> marker_free M w \<Longrightarrow> sublist w t"
  using redacted_sublist 
  by (meson sublist_order.order_trans prefix_imp_sublist suffix_imp_sublist)

lemma redacted_mono:
  "redacted M P t out \<Longrightarrow> (\<And>t. P t \<Longrightarrow> Q t) \<Longrightarrow> redacted M Q t out"
  by (induction rule: redacted.induct) (auto intro: redacted.intros)

lemma slice_drop: "a \<le> b \<Longrightarrow> drop a xs = slice a b xs @ drop b xs"
  by (simp add: slice_def) (metis append_take_drop_id drop_drop le_add_diff_inverse2)

lemma redacted_keeps:
  assumes "\<And>p. a \<le> p \<Longrightarrow> p < b \<Longrightarrow> P (drop p input)" and "a \<le> b" and "b \<le> length input"
    and "redacted M P (drop b input) out"
  shows "redacted M P (drop a input) (slice a b input @ out)"
  using assms
proof (induction "b - a" arbitrary: a)
  case 0
  then show ?case by (simp add: slice_def)
next
  case (Suc n)
  then have a: "a < b" "drop a input = input ! a # drop (a + 1) input"
    by (auto simp: Cons_nth_drop_Suc)
  have "slice a b input = input ! a # slice (a + 1) b input"
    using a by (simp add: slice_def Suc_diff_Suc [symmetric])
  moreover have "redacted M P (drop (a + 1) input) (slice (a + 1) b input @ out)"
    using Suc a by auto
  ultimately show ?case using Suc(3) [of a] a by (simp add: red_keep)
qed

subsection \<open>Exact values\<close>

lemma count_zero_replace:
  "count_from h n = 0 \<Longrightarrow> n \<noteq> [] \<Longrightarrow> replace_from h n r = h"
proof (induction "length h" arbitrary: h rule: less_induct)
  case less
  show ?case
  proof (cases "h = []")
    case False
    have no: "\<not> starts_with h n"
    proof
      assume "starts_with h n"
      moreover from this have "\<not> length h < length n" by (auto dest: prefix_length_le)
      ultimately have "count_from h n > 0" using less(3) by (subst count_from.simps) simp
      then show False using less(2) by simp
    qed
    have "count_from (tl h) n = 0"
    proof (cases "length h < length n")
      case True
      then have "length (tl h) < length n" by simp
      then show ?thesis by (subst count_from.simps) simp
    next
      case ge: False
      have "count_from h n = count_from (tl h) n" using ge no less(3) by (subst count_from.simps) simp
      then show ?thesis using less(2) by simp
    qed
    then have "replace_from (tl h) n r = tl h" using less False by simp
    then show ?thesis using False no by (subst replace_from.simps) simp
  qed (simp add: replace_from.simps)
qed

lemma replace_from_Nil [simp]: "replace_from [] n r = []"
  by (subst replace_from.simps) simp

lemma replace_from_match:
  "h \<noteq> [] \<Longrightarrow> n \<noteq> [] \<Longrightarrow> starts_with h n \<Longrightarrow>
     replace_from h n r = r @ replace_from (drop (length n) h) n r"
  by (subst replace_from.simps) simp

lemma replace_from_skip:
  "\<not> starts_with (c # h) n \<Longrightarrow> replace_from (c # h) n r = c # replace_from h n r"
  by (subst replace_from.simps) simp

lemma replace_from_cases [case_names Nil match skip]:
  assumes "h = [] \<Longrightarrow> R" and "\<And>t. h = n @ t \<Longrightarrow> n \<noteq> [] \<Longrightarrow> R"
    and "\<And>c t. h = c # t \<Longrightarrow> \<not> starts_with (c # t) n \<Longrightarrow> R" and "n \<noteq> []"
  shows R
  using assms by (cases h) (auto simp: prefix_def)

lemma redacted_replace:
  assumes "n \<noteq> []"
  shows "redacted {r} (\<lambda>t. \<not> starts_with t n) h (replace_from h n r)"
proof (induction "length h" arbitrary: h rule: less_induct)
  case less
  show ?case
  proof (cases rule: replace_from_cases [where h = h and n = n])
    case Nil
    then show ?thesis by (simp add: red_nil)
  next
    case (match t)
    then have "redacted {r} (\<lambda>t. \<not> starts_with t n) t (replace_from t n r)"
      using less [of t] by simp
    then show ?thesis using match replace_from_match [of "n @ t" n r] red_mark by simp
  next
    case (skip c t)
    then show ?thesis using less [of t] replace_from_skip [where c = c and h = t and n = n and r = r] red_keep by simp
  qed (rule assms)
qed

lemma valid_replace:
  assumes n: "n \<noteq> []" "valid_utf8 n" and r: "valid_utf8 r"
  shows "valid_utf8 (u @ h) \<Longrightarrow> valid_utf8 (u @ replace_from h n r)"
proof (induction "length h" arbitrary: u h rule: less_induct)
  case less
  show ?case
  proof (cases rule: replace_from_cases [where h = h and n = n])
    case Nil
    then show ?thesis using less by simp
  next
    case (match t)
    have "\<not> is_cont ((u @ h) ! length u)" using valid_utf8_head [OF n(2,1)] n(1)
      by (simp add: match nth_append)
    then have "is_char_boundary (u @ h) (length u)"
      using n(1) by (simp add: is_char_boundary_def match)
    from valid_utf8_cut [OF less(2) this] have u: "valid_utf8 u" and nt: "valid_utf8 (n @ t)"
      by (simp_all add: match)
    have "valid_utf8 t" using valid_utf8_cancel [OF nt n(2)] .
    then have "valid_utf8 (replace_from t n r)" using less(1) [of t "[]"] n(1) by (simp add: match)
    then show ?thesis using match replace_from_match [of "n @ t" n r] u r
      by (simp add: valid_utf8_append)
  next
    case (skip c t)
    then show ?thesis using less(1) [of t "u @ [c]"] less(2) replace_from_skip [where c = c and h = t and n = n and r = r] by simp
  qed (rule n(1))
qed

text \<open>One managed value: every byte where it starts is gone.\<close>

lemma vault_step_text:
  "secret \<noteq> [] \<Longrightarrow> fst (vault_step loc now (secret, name) (t, es))
     = replace_from t secret (redaction ''vault-secret'')"
  using count_zero_replace [of t secret]
  by (auto simp: vault_step_def Let_def count_occurrences_def replace_bytes_def
      format_pattern_label_def)

lemma vault_step_empty: "vault_step loc now ([], name) s = s"
  by (simp add: vault_step_def split: prod.split)

abbreviation vault_marker :: string where
  "vault_marker \<equiv> redaction ''vault-secret''"

lemma vault_steps_sublist:
  assumes "sublist w (fst (fold (vault_step loc now) vs (t, es)))" and "marker_free {vault_marker} w"
  shows "sublist w t"
  using assms(1)
proof (induction vs arbitrary: t es)
  case (Cons sn vs)
  obtain s n where sn: "sn = (s, n)" by (cases sn)
  obtain t' es' where t': "vault_step loc now sn (t, es) = (t', es')" by (cases "vault_step loc now sn (t, es)")
  then have "sublist w t'" using Cons by simp
  show ?case
  proof (cases "s = []")
    case True
    then show ?thesis using t' \<open>sublist w t'\<close> by (simp add: sn vault_step_empty)
  next
    case False
    then have "t' = replace_from t s vault_marker"
      using t' vault_step_text [OF False, of loc now n t es] by (simp add: sn)
    then show ?thesis
      using redacted_sublist_input [OF redacted_replace [OF False, of vault_marker t]] assms(2)
        \<open>sublist w t'\<close> by simp
  qed
qed simp

lemma vault_steps_remove:
  assumes "(v, name) \<in> set vs" and "v \<noteq> []" and "marker_free {vault_marker} v"
  shows "\<not> sublist v (fst (fold (vault_step loc now) vs (t, es)))"
proof
  assume sub: "sublist v (fst (fold (vault_step loc now) vs (t, es)))"
  obtain vs1 vs2 where vs: "vs = vs1 @ (v, name) # vs2" using assms(1) by (meson split_list)
  obtain t1 es1 where t1: "fold (vault_step loc now) vs1 (t, es) = (t1, es1)"
    by (cases "fold (vault_step loc now) vs1 (t, es)")
  obtain t2 es2 where t2: "vault_step loc now (v, name) (t1, es1) = (t2, es2)"
    by (cases "vault_step loc now (v, name) (t1, es1)")
  have "t2 = replace_from t1 v vault_marker"
    using vault_step_text [OF assms(2), of loc now name t1 es1] t2 by simp
  moreover have "sublist v t2"
    using sub vault_steps_sublist [OF _ assms(3), of loc now vs2 t2 es2] by (simp add: vs t1 t2)
  ultimately obtain t' where "prefix v t'" "\<not> starts_with t' v"
    using redacted_sublist [OF redacted_replace [OF assms(2), of vault_marker t1] _ assms(3)] by auto
  then show False by simp
qed

lemma ascii_redaction:
  "\<forall>b \<in> set p. byte_of b < 128 \<Longrightarrow> valid_utf8 (redaction p)"
  by (rule valid_utf8_ascii) (auto simp: redaction_def byte_of_def)

lemma vault_marker_valid: "valid_utf8 vault_marker"
  by (rule ascii_redaction) (simp add: byte_of_def)

lemma vault_steps_valid:
  assumes "\<forall>(v, _) \<in> set vs. valid_utf8 v" and "valid_utf8 t"
  shows "valid_utf8 (fst (fold (vault_step loc now) vs (t, es)))"
  using assms
proof (induction vs arbitrary: t es)
  case (Cons sn vs)
  obtain s n where sn: "sn = (s, n)" by (cases sn)
  obtain t' es' where t': "vault_step loc now sn (t, es) = (t', es')" by (cases "vault_step loc now sn (t, es)")
  have "valid_utf8 t'"
  proof (cases "s = []")
    case True
    then show ?thesis using t' Cons(3) by (simp add: sn vault_step_empty)
  next
    case False
    then have "t' = replace_from t s vault_marker"
      using t' vault_step_text [OF False, of loc now n t es] by (simp add: sn)
    then show ?thesis
      using valid_replace [OF False _ vault_marker_valid, of "[]" t] Cons(2,3) by (simp add: sn)
  qed
  then show ?case using Cons t' by simp
qed simp

subsection \<open>Partial runs\<close>

text \<open>The text the loop over the runs writes.\<close>

fun run_output :: "string \<Rightarrow> bool \<Rightarrow> run list \<Rightarrow> nat \<Rightarrow> string" where
  "run_output input cb [] cursor = drop cursor input"
| "run_output input cb ((start, end', _) # runs) cursor =
     (let s = max (if cb then widen_start input start else start) cursor;
          e = (if cb then widen_end input end' else end')
      in if e \<le> s then run_output input cb runs cursor
         else slice cursor s input @ vault_marker @ run_output input cb runs e)"

lemma redact_runs_text:
  "fold (redact_run an cb loc now input) runs (out, cursor, es) = (out', cursor', es')
     \<Longrightarrow> out' @ drop cursor' input = out @ run_output input cb runs cursor"
proof (induction runs arbitrary: out cursor es)
  case (Cons r runs)
  obtain s e i where r: "r = (s, e, i)" by (cases r)
  show ?case using Cons(2) Cons(1) by (auto simp: r Let_def format_pattern_label_def split: if_splits)
qed simp

lemma widen_start_le: "widen_start t n \<le> n"
  by (induction t n rule: widen_start.induct) auto

lemma widen_start_boundary: "is_char_boundary t (widen_start t n)"
  by (induction t n rule: widen_start.induct) (auto simp: is_char_boundary_def)

lemma widen_end: "n \<le> length t \<Longrightarrow>
    n \<le> widen_end t n \<and> widen_end t n \<le> length t \<and> is_char_boundary t (widen_end t n)"
proof (induction t n rule: widen_end.induct)
  case (1 t n)
  show ?case
  proof (cases "n < length t \<and> \<not> is_char_boundary t n")
    case True
    then have "widen_end t n = widen_end t (n + 1)" by (subst widen_end.simps) simp
    then show ?thesis using 1 True by auto
  next
    case False
    then have "widen_end t n = n" by (subst widen_end.simps) auto
    moreover have "is_char_boundary t (length t)" by (simp add: is_char_boundary_def)
    ultimately show ?thesis using False 1(2) by (cases "n = length t") auto
  qed
qed

lemma run_output_redacted:
  assumes "separated runs" and "ends_upto (length input) runs"
    and "\<And>p. cursor \<le> p \<Longrightarrow> p < length input \<Longrightarrow> \<not> covered runs p \<Longrightarrow> P (drop p input)"
    and "cursor \<le> length input"
  shows "redacted {vault_marker} P (drop cursor input) (run_output input cb runs cursor)"
  using assms
proof (induction runs arbitrary: cursor)
  case Nil
  have "redacted {vault_marker} P (drop (length input) input) []" by (simp add: red_nil)
  then show ?case
    using redacted_keeps [of cursor "length input" P input "{vault_marker}" "[]"] Nil
    by (simp add: slice_def)
next
  case (Cons r runs)
  obtain st en i where r: "r = (st, en, i)" by (cases r)
  define s where "s = max (if cb then widen_start input st else st) cursor"
  define e where "e = (if cb then widen_end input en else en)"
  have sep: "st < en" "separated runs" "\<forall>(s', _, _) \<in> set runs. en < s'"
    using Cons(2) by (auto simp: r separated_Cons)
  have en: "en \<le> length input" "ends_upto (length input) runs"
    using Cons(3) by (auto simp: r ends_upto_def)
  have e: "en \<le> e" "e \<le> length input" using en(1) widen_end [of en input] by (auto simp: e_def)
  have s: "cursor \<le> s" "s \<le> max st cursor" using widen_start_le [of input st] by (auto simp: s_def)
  have before: "\<not> covered runs p" if "p \<le> en" for p using covered_after [OF sep(3), of p] that by auto
  show ?case
  proof (cases "e \<le> s")
    case True
    then have "en \<le> cursor" using s e sep(1) by auto
    then have "redacted {vault_marker} P (drop cursor input) (run_output input cb runs cursor)"
      using Cons(4,5) by (intro Cons(1) sep(2) en(2)) (auto simp: r)
    then show ?thesis using True by (simp add: r Let_def flip: s_def e_def)
  next
    case False
    have "redacted {vault_marker} P (drop e input) (run_output input cb runs e)"
      using Cons(4) e False s by (intro Cons(1) sep(2) en(2)) (auto simp: r)
    then have "redacted {vault_marker} P (drop s input) (vault_marker @ run_output input cb runs e)"
      using False slice_drop [of s e input] red_mark [of vault_marker] by simp
    moreover have "P (drop p input)" if "cursor \<le> p" "p < s" for p
      using that s e False sep(1) before [of p] by (intro Cons(4)) (auto simp: r)
    ultimately have "redacted {vault_marker} P (drop cursor input)
        (slice cursor s input @ vault_marker @ run_output input cb runs e)"
      using redacted_keeps [of cursor s P input] s False e by simp
    then show ?thesis using False by (simp add: r Let_def flip: s_def e_def)
  qed
qed

abbreviation no_window :: "vault_values \<Rightarrow> string \<Rightarrow> bool" where
  "no_window vs t \<equiv> \<not> eligible vs (take PARTIAL_MIN_RUN t)"

lemma hit_take: "hit vs input p \<longleftrightarrow> eligible vs (take PARTIAL_MIN_RUN (drop p input))"
  using eligible_length [of vs "take PARTIAL_MIN_RUN (drop p input)"]
  by (auto simp: hit_def window_at_def PARTIAL_MIN_RUN_def)

lemma uncovered_no_window:
  assumes "\<not> covered (partial_runs (with_partial_filter vs) input) p"
  shows "no_window vs (drop p input)"
  using assms partial_runs_covered [of vs input p] unfolding hit_take
  by (auto simp: PARTIAL_MIN_RUN_def)

text \<open>The stage as a function of the text.\<close>

definition partial_text :: "leak_analyzer \<Rightarrow> bool \<Rightarrow> string \<Rightarrow> string" where
  "partial_text an cb input = run_output input cb (partial_runs an input) 0"

lemma redact_partial_None:
  "redact_partial_runs an input cb loc now es = None \<Longrightarrow> partial_text an cb input = input"
  by (auto simp: redact_partial_runs_def partial_text_def Let_def split: if_splits prod.splits)

lemma redact_partial_Some:
  "redact_partial_runs an input cb loc now es = Some (out, es') \<Longrightarrow> out = partial_text an cb input"
  using redact_runs_text [of an cb loc now input "partial_runs an input" "[]" 0 es]
  by (auto simp: redact_partial_runs_def partial_text_def Let_def split: if_splits prod.splits)

lemma partial_text_redacted:
  "redacted {vault_marker} (no_window vs) input (partial_text (with_partial_filter vs) cb input)"
  using run_output_redacted [of "partial_runs (with_partial_filter vs) input" input 0 "no_window vs" cb]
  by (simp add: partial_text_def partial_runs_separated partial_runs_ends uncovered_no_window)

lemma valid_slice:
  assumes "valid_utf8 t" and "is_char_boundary t a" and "is_char_boundary t b" and "a \<le> b"
  shows "valid_utf8 (slice a b t)"
proof -
  have "valid_utf8 (take b t)" using valid_utf8_cut [OF assms(1,3)] by simp
  moreover have "is_char_boundary (take b t) a"
    using assms(2,4) by (auto simp: is_char_boundary_def split: if_splits)
  ultimately have "valid_utf8 (drop a (take b t))" using valid_utf8_cut by blast
  then show ?thesis by (simp add: slice_def drop_take)
qed

lemma run_output_valid:
  assumes "valid_utf8 input" and "is_char_boundary input cursor"
    and "ends_upto (length input) runs"
  shows "valid_utf8 (run_output input True runs cursor)"
  using assms(2,3)
proof (induction runs arbitrary: cursor)
  case Nil
  then show ?case using valid_utf8_cut [OF assms(1)] by simp
next
  case (Cons r runs)
  obtain st en i where r: "r = (st, en, i)" by (cases r)
  define s where "s = max (widen_start input st) cursor"
  have e: "is_char_boundary input (widen_end input en)" "ends_upto (length input) runs"
    using Cons(3) widen_end [of en input] by (auto simp: r ends_upto_def)
  have "is_char_boundary input s" using widen_start_boundary Cons(2) by (auto simp: s_def max_def)
  then have "valid_utf8 (slice cursor s input)"
    using valid_slice [OF assms(1) Cons(2)] by (simp add: s_def)
  then have "valid_utf8 (slice cursor s input @ vault_marker @ run_output input True runs (widen_end input en))"
    using Cons(1) [OF e] vault_marker_valid by (intro valid_utf8_append)
  then show ?case using Cons(1) [OF Cons(2) e(2)] by (simp add: r Let_def flip: s_def)
qed

lemma partial_text_valid:
  "valid_utf8 input \<Longrightarrow> valid_utf8 (partial_text (with_partial_filter vs) True input)"
  unfolding partial_text_def
  by (rule run_output_valid) (simp_all add: partial_runs_ends is_char_boundary_def)

subsection \<open>Formats\<close>

lemma replace_ranges_redacted:
  assumes "sorted_wrt (\<lambda>a b. snd a \<le> fst b) ranges"
    and "\<forall>r \<in> set ranges. c \<le> fst r \<and> fst r < snd r \<and> snd r \<le> length t" and "c \<le> length t"
    and "\<And>p. c \<le> p \<Longrightarrow> p < length t \<Longrightarrow> \<forall>(s, e) \<in> set ranges. \<not> (s \<le> p \<and> p < e) \<Longrightarrow> P (drop p t)"
  shows "redacted {m} P (drop c t) (replace_ranges t m ranges c)"
  using assms
proof (induction ranges arbitrary: c)
  case Nil
  have "redacted {m} P (drop (length t) t) []" by (simp add: red_nil)
  then show ?case using redacted_keeps [of c "length t" P t "{m}" "[]"] Nil by (simp add: slice_def)
next
  case (Cons r ranges)
  obtain s e where r: "r = (s, e)" by (cases r)
  have b: "c \<le> s" "s < e" "e \<le> length t" "\<forall>(s', _) \<in> set ranges. e \<le> s'"
    using Cons(2,3) by (auto simp: r)
  have "redacted {m} P (drop e t) (replace_ranges t m ranges e)"
    using Cons(2,3) b by (intro Cons(1) Cons(5)) (auto simp: r)
  then have "redacted {m} P (drop s t) (m @ replace_ranges t m ranges e)"
    using b slice_drop [of s e t] red_mark [of m] by simp
  moreover have "P (drop p t)" if "c \<le> p" "p < s" for p
    using that b by (intro Cons(5)) (fastforce simp: r)+
  ultimately show ?case using redacted_keeps [of c s P t] b by (simp add: r)
qed

lemma format_step_redacted:
  assumes "spec \<in> set FORMAT_SPECS"
  shows "redacted {redaction (fs_label spec)} (\<lambda>t. complete_prefix_len spec t = None) t
    (fst (format_step an loc now spec (t, es)))"
proof -
  have none: "complete_prefix_len spec (drop p t) = None"
    if "p < length t" "\<forall>(s, e) \<in> set (match_ranges spec t). \<not> (s \<le> p \<and> p < e)" for p
    using match_ranges_rest [OF spec_in_catalog [OF assms], of 0 p t] that
    by (simp add: match_ranges_def)
  have "redacted {redaction (fs_label spec)} (\<lambda>t. complete_prefix_len spec t = None) (drop 0 t)
      (replace_ranges t (redaction (fs_label spec)) (match_ranges spec t) 0)"
    using match_ranges_sorted [OF spec_in_catalog [OF assms], of 0 t]
    by (intro replace_ranges_redacted none) (auto simp: match_ranges_def)
  moreover have "fst (format_step an loc now spec (t, es))
      = replace_ranges t (redaction (fs_label spec)) (match_ranges spec t) 0"
    by (simp add: format_step_def Let_def)
  ultimately show ?thesis by simp
qed

lemma format_steps_sublist:
  assumes "sublist w (fst (fold (format_step an loc now) specs (t, es)))"
    and "set specs \<subseteq> set FORMAT_SPECS"
    and "\<forall>spec \<in> set specs. marker_free {redaction (fs_label spec)} w"
  shows "sublist w t"
  using assms
proof (induction specs arbitrary: t es)
  case (Cons spec specs)
  obtain t' es' where t': "format_step an loc now spec (t, es) = (t', es')"
    by (cases "format_step an loc now spec (t, es)")
  have "sublist w t'" using Cons t' by simp
  then show ?case
    using redacted_sublist_input [OF format_step_redacted [of spec t an loc now es]] Cons(3,4) t'
    by simp
qed simp

end
