(* ===== verification/Response_Buffered.thy ===== *)
theory Response_Buffered
  imports Leak_Redact Text_Trim
begin

text \<open>
  The buffered interface of \<open>phantom-proxy/src/response_scrubber.rs\<close> (content kinds, the line-wise
  scan of an event stream, headers) and the \<open>Interceptor\<close> of \<open>phantom-proxy/src/interceptor.rs\<close>.
  A hash map is an association list in its iteration order, which the code does not fix.  The base64
  encoder is an argument.  The byte loop of the interceptor may not end, so it is a partial function.
\<close>

abbreviation NL :: char where "NL \<equiv> CHR 0x0A"

subsection \<open>Content kinds\<close>

datatype content_kind = Sse | Json | Text | Other

definition ascii_lower :: "char \<Rightarrow> char" where
  "ascii_lower c = (if is_ascii_uppercase c then char_of (byte_of c + 32) else c)"

definition eq_ignore_ascii_case :: "string \<Rightarrow> string \<Rightarrow> bool" where
  "eq_ignore_ascii_case a b = (map ascii_lower a = map ascii_lower b)"

definition from_header :: "string option \<Rightarrow> content_kind" where
  "from_header content_type =
     (case content_type of
        None \<Rightarrow> Other
      | Some ct \<Rightarrow>
          let mime = trim (hd (split_on (CHR '';'') ct)) in
          if eq_ignore_ascii_case mime ''text/event-stream'' then Sse
          else if eq_ignore_ascii_case mime ''application/json'' \<or> ends_with mime ''+json''
            \<or> starts_with mime ''application/json'' then Json
          else if starts_with mime ''text/'' then Text
          else Other)"

subsection \<open>Scrub events\<close>

text \<open>The hits of the adaptive scrubber, which these operations leave empty, are left out.\<close>

record scrub_event =
  se_scrubbed :: bool
  se_leak_events :: "leak_event list"

definition from_events :: "leak_event list \<Rightarrow> scrub_event" where
  "from_events events = \<lparr>se_scrubbed = (events \<noteq> []), se_leak_events = events\<rparr>"

definition scrub_event_clean :: scrub_event where
  "scrub_event_clean = \<lparr>se_scrubbed = False, se_leak_events = []\<rparr>"

subsection \<open>Event streams\<close>

definition sse_line :: "leak_analyzer \<Rightarrow> u64 \<Rightarrow> string \<Rightarrow> string \<times> leak_event list" where
  "sse_line an now line =
     (if starts_with line ''data:''
      then let payload = drop 5 line; (scrubbed, events) = analyze_body an payload now
           in (''data:'' @ (if valid_utf8 scrubbed then scrubbed else payload), events)
      else let (scrubbed, events) = analyze_body an line now
           in (if valid_utf8 scrubbed then scrubbed else line, events))"

fun join_lines :: "string list \<Rightarrow> string" where
  "join_lines [] = []"
| "join_lines [line] = line"
| "join_lines (line # lines) = line @ NL # join_lines lines"

definition scrub_sse_body :: "leak_analyzer \<Rightarrow> string \<Rightarrow> u64 \<Rightarrow> string \<times> leak_event list" where
  "scrub_sse_body an body now =
     (if \<not> valid_utf8 body then analyze_body an body now
      else let lines = split_on NL body;
               n = length lines;
               last_real = (if ends_with body [NL] \<and> 0 < n then n - 1 else n);
               scrubbed = map (sse_line an now) (take last_real lines)
           in (join_lines (map fst scrubbed) @ (if ends_with body [NL] then [NL] else []),
               concat (map snd scrubbed)))"

definition scrub_buffered ::
  "leak_analyzer \<Rightarrow> string option \<Rightarrow> string \<Rightarrow> u64 \<Rightarrow> string \<times> scrub_event" where
  "scrub_buffered an content_type body now =
     (if body = [] then ([], scrub_event_clean)
      else let (scrubbed, events) =
             (case from_header content_type of
                Sse \<Rightarrow> scrub_sse_body an body now
              | _ \<Rightarrow> analyze_body an body now)
           in (scrubbed, from_events events))"

lemma scrub_buffered_text:
  "fst (scrub_buffered an content_type body now) =
     (if body = [] then []
      else if from_header content_type = Sse then fst (scrub_sse_body an body now)
      else fst (analyze_body an body now))"
  by (simp add: scrub_buffered_def case_prod_beta split: content_kind.split)

definition scrub_header :: "leak_analyzer \<Rightarrow> string \<Rightarrow> string \<Rightarrow> u64 \<Rightarrow> string \<times> scrub_event" where
  "scrub_header an name hvalue now =
     (let (scrubbed, events) = analyze_header an name hvalue now in (scrubbed, from_events events))"

subsection \<open>The interceptor\<close>

record interceptor =
  ic_token_map :: "(string \<times> string) list"
  ic_token_secret_keys :: "(string \<times> string) list"
  ic_named_secrets :: "(string \<times> string) list"

definition new_scoped_inner :: "(string \<times> string) list \<Rightarrow> (string \<times> string) list
    \<Rightarrow> (string \<times> string) list \<Rightarrow> interceptor" where
  "new_scoped_inner mappings token_secret_keys named_mappings =
     \<lparr>ic_token_map = mappings, ic_token_secret_keys = token_secret_keys,
      ic_named_secrets = named_mappings\<rparr>"

text \<open>A token belongs to a name only if exactly one name has its value.\<close>

definition new_with_named :: "(string \<times> string) list \<Rightarrow> (string \<times> string) list \<Rightarrow> interceptor" where
  "new_with_named mappings named_mappings =
     new_scoped_inner mappings
       (List.map_filter (\<lambda>(token, v).
          case map fst (filter (\<lambda>(_, named_value). named_value = v) named_mappings) of
            [name] \<Rightarrow> Some (token, name) | _ \<Rightarrow> None) mappings)
       named_mappings"

definition interceptor_new :: "(string \<times> string) list \<Rightarrow> interceptor" where
  "interceptor_new mappings = new_with_named mappings []"

definition new_scoped ::
  "(string \<times> string \<times> string) list \<Rightarrow> (string \<times> string) list \<Rightarrow> interceptor" where
  "new_scoped mappings named_mappings =
     new_scoped_inner (map (\<lambda>(token, _, v). (token, v)) mappings)
       (map (\<lambda>(token, name, _). (token, name)) mappings) named_mappings"

text \<open>Client-controlled text is never substituted, and no token resolves.\<close>

definition replace_in_str :: "interceptor \<Rightarrow> string \<Rightarrow> string \<times> bool" where
  "replace_in_str ic input = (input, False)"

definition replace_in_bytes :: "interceptor \<Rightarrow> string \<Rightarrow> string \<times> bool" where
  "replace_in_bytes ic input = (input, False)"

definition replace_in_str_for_secret :: "interceptor \<Rightarrow> string \<Rightarrow> string \<Rightarrow> string \<times> bool" where
  "replace_in_str_for_secret ic input secret_key = (input, False)"

definition replace_in_bytes_for_secret :: "interceptor \<Rightarrow> string \<Rightarrow> string \<Rightarrow> string \<times> bool" where
  "replace_in_bytes_for_secret ic input secret_key = (input, False)"

definition format_header_value :: "interceptor \<Rightarrow> string \<Rightarrow> string \<Rightarrow> string option" where
  "format_header_value ic fmt token = None"

definition ic_resolve :: "interceptor \<Rightarrow> string \<Rightarrow> string option" where
  "ic_resolve ic token = None"

definition contains_phantom_token :: "interceptor \<Rightarrow> string \<Rightarrow> bool" where
  "contains_phantom_token ic s = False"

definition contains_phantom_token_for_secret :: "interceptor \<Rightarrow> string \<Rightarrow> string \<Rightarrow> bool" where
  "contains_phantom_token_for_secret ic s secret_key = False"

definition ic_len :: "interceptor \<Rightarrow> nat" where
  "ic_len ic = length (ic_token_map ic)"

definition ic_is_empty :: "interceptor \<Rightarrow> bool" where
  "ic_is_empty ic = (ic_token_map ic = [])"

definition max_secret_len :: "interceptor \<Rightarrow> nat" where
  "max_secret_len ic = fold (\<lambda>(_, secret) m. max m (length secret)) (ic_token_map ic) 0"

text \<open>\<open>str::replace\<close>: an empty pattern matches at every character boundary.\<close>

function utf8_chars :: "string \<Rightarrow> string list" where
  "utf8_chars s =
     (if s = [] then []
      else let n = (case scalar_len s of Some n \<Rightarrow> n | None \<Rightarrow> 1)
           in take n s # utf8_chars (drop n s))"
  by pat_completeness auto
termination
  by (relation "measure length") (auto dest: scalar_len_bounds split: option.splits)

declare utf8_chars.simps [simp del]

definition str_replace :: "string \<Rightarrow> string \<Rightarrow> string \<Rightarrow> string" where
  "str_replace haystack needle replacement =
     (if needle = [] then replacement @ concat (map (\<lambda>c. c @ replacement) (utf8_chars haystack))
      else replace_from haystack needle replacement)"

definition format_header_for_secret_key :: "interceptor \<Rightarrow> string \<Rightarrow> string \<Rightarrow> string option" where
  "format_header_for_secret_key ic fmt secret_key =
     map_option (str_replace fmt ''{secret}'') (map_of (ic_named_secrets ic) secret_key)"

definition format_basic_auth_for_secret_key ::
  "(string \<Rightarrow> string option) \<Rightarrow> interceptor \<Rightarrow> string \<Rightarrow> string \<Rightarrow> string option" where
  "format_basic_auth_for_secret_key base64_encode ic username secret_key =
     (if CHR '':'' \<in> set username then None
      else Option.bind (map_of (ic_named_secrets ic) secret_key) (\<lambda>secret.
        map_option (\<lambda>encoded. ''Basic '' @ encoded) (base64_encode (username @ '':'' @ secret))))"

definition find_replace_str :: "string \<Rightarrow> (string \<times> string) list \<Rightarrow> string \<times> bool" where
  "find_replace_str input pairs =
     fold (\<lambda>(needle, replacement) (result, replaced).
         if sublist needle result then (str_replace result needle replacement, True)
         else (result, replaced))
       pairs (input, False)"

text \<open>One pass of the byte loop: \<open>rest\<close> is what lies at and after the index, \<open>out\<close> what is written.\<close>

partial_function (option) byte_pass ::
  "string \<Rightarrow> string \<Rightarrow> string \<Rightarrow> string \<Rightarrow> bool \<Rightarrow> (string \<times> bool) option" where
  [code]: "byte_pass needle replacement rest out replaced =
     (if rest = [] then Some (out, replaced)
      else if starts_with rest needle
      then byte_pass needle replacement (drop (length needle) rest) (out @ replacement) True
      else byte_pass needle replacement (tl rest) (out @ [hd rest]) replaced)"

fun byte_passes :: "(string \<times> string) list \<Rightarrow> string \<Rightarrow> bool \<Rightarrow> (string \<times> bool) option" where
  "byte_passes [] result replaced = Some (result, replaced)"
| "byte_passes ((needle, replacement) # pairs) result replaced =
     Option.bind (byte_pass needle replacement result [] replaced)
       (\<lambda>(result', replaced'). byte_passes pairs result' replaced')"

definition find_replace_bytes_via_str ::
  "string \<Rightarrow> (string \<times> string) list \<Rightarrow> (string \<times> bool) option" where
  "find_replace_bytes_via_str input pairs =
     (if valid_utf8 input then Some (find_replace_str input pairs) else byte_passes pairs input False)"

definition secret_pairs :: "interceptor \<Rightarrow> (string \<times> string) list" where
  "secret_pairs ic = map (\<lambda>(token, secret). (secret, token)) (ic_token_map ic)"

definition scrub_response_str :: "interceptor \<Rightarrow> string \<Rightarrow> string \<times> bool" where
  "scrub_response_str ic input = find_replace_str input (secret_pairs ic)"

definition scrub_response_bytes :: "interceptor \<Rightarrow> string \<Rightarrow> (string \<times> bool) option" where
  "scrub_response_bytes ic input = find_replace_bytes_via_str input (secret_pairs ic)"

definition to_response_scrubber_with_injected ::
  "interceptor \<Rightarrow> (string \<times> string) option \<Rightarrow> leak_analyzer" where
  "to_response_scrubber_with_injected ic injected =
     from_token_secret_pairs (ic_token_map ic @
       (case injected of Some (key, v) \<Rightarrow> if v \<noteq> [] then [(key, v)] else [] | None \<Rightarrow> []))"

definition to_response_scrubber :: "interceptor \<Rightarrow> leak_analyzer" where
  "to_response_scrubber ic = to_response_scrubber_with_injected ic None"

subsection \<open>The byte loop\<close>

lemma byte_pass_replaces:
  assumes "needle \<noteq> []"
  shows "\<exists>b. byte_pass needle replacement rest out replaced
    = Some (out @ replace_from rest needle replacement, b)"
proof (induction "length rest" arbitrary: rest out replaced rule: less_induct)
  case less
  show ?case
  proof (cases rule: replace_from_cases [where h = rest and n = needle])
    case Nil
    then show ?thesis by (subst byte_pass.simps) simp
  next
    case (match t)
    have "length t < length rest" using match by simp
    from less [OF this, of "out @ replacement" True] show ?thesis
      using match replace_from_match [of "needle @ t" needle replacement]
      by (subst byte_pass.simps) simp
  next
    case (skip c t)
    have "length t < length rest" using skip by simp
    from less [OF this, of "out @ [c]" replaced] show ?thesis
      using skip replace_from_skip [where c = c and h = t and n = needle and r = replacement]
      by (subst byte_pass.simps) simp
  qed (rule assms)
qed

text \<open>An empty needle never advances.\<close>

lemma byte_pass_stuck:
  assumes "byte_pass needle replacement rest out replaced = Some r"
  shows "needle = [] \<longrightarrow> rest = []"
proof (rule byte_pass.raw_induct [OF _ assms, of "\<lambda>needle _ rest _ _ _. needle = [] \<longrightarrow> rest = []"])
  fix pass and needle replacement rest out :: string and replaced r
  assume IH: "\<And>needle replacement rest out replaced r.
      pass needle replacement rest out replaced = Some r \<Longrightarrow> needle = [] \<longrightarrow> rest = []"
    and body: "(if rest = [] then Some (out, replaced)
      else if starts_with rest needle
      then pass needle replacement (drop (length needle) rest) (out @ replacement) True
      else pass needle replacement (tl rest) (out @ [hd rest]) replaced) = Some r"
  show "needle = [] \<longrightarrow> rest = []"
  proof
    assume "needle = []"
    then show "rest = []" using body IH [of needle replacement rest] by (cases r; cases "rest = []") auto
  qed
qed

subsection \<open>Valid text stays valid\<close>

lemma class_ascii: "class_contains cl b \<Longrightarrow> byte_of b < 128"
  by (cases cl) (auto simp: byte_defs)

lemma shape_match_ascii:
  assumes "shape_match shape s = Some n" and "b \<in> set (take n s)"
  shows "byte_of b < 128"
proof (cases shape)
  case (Unbounded cl m)
  then have "n = length (takeWhile (class_contains cl) s)"
    using assms(1) by (simp add: Let_def split: if_splits)
  then have "take n s = takeWhile (class_contains cl) s" by (metis takeWhile_eq_take)
  then show ?thesis using assms(2) class_ascii by (auto dest: set_takeWhileD)
next
  case (Fixed cl m)
  then show ?thesis using assms class_ascii by (auto simp: list_all_iff split: if_splits)
next
  case SendGrid
  then have len: "length (take n s) = SENDGRID_LEN" and d: "s ! 22 = CHR ''.''" and n: "n = SENDGRID_LEN"
    and parts: "list_all (class_contains AlnumDashUnderscore) (take 22 s)"
      "list_all (class_contains AlnumDashUnderscore) (take 43 (drop 23 s))"
    using assms(1) by (auto simp del: class_contains.simps split: if_splits)
  have "take n s = take 22 s @ s ! 22 # take 43 (drop 23 s)"
    using sendgrid_split [OF len] by (simp add: n SENDGRID_LEN_def drop_take min_def)
  then have "b \<in> set (take 22 s) \<or> b = s ! 22 \<or> b \<in> set (take 43 (drop 23 s))" using assms(2) by auto
  then show ?thesis using parts class_ascii d by (auto simp: list_all_iff byte_of_def simp del: class_contains.simps)
qed

lemma match_ascii:
  assumes "spec \<in> set FORMAT_SPECS" and "complete_prefix_len spec s = Some n" and "b \<in> set (take n s)"
  shows "byte_of b < 128"
proof -
  obtain rest m where m: "s = fs_prefix spec @ rest" "shape_match (fs_shape spec) rest = Some m"
    "n = length (fs_prefix spec) + m"
    using assms(2) by (auto simp: complete_prefix_len_def prefix_def split: if_splits)
  have "\<forall>b \<in> set (fs_prefix spec). byte_of b < 128"
    using assms(1) by (auto simp: FORMAT_SPECS_def byte_of_def)
  then show ?thesis using assms(3) shape_match_ascii [OF m(2)] by (auto simp: m(1,3))
qed

lemma boundary_of_head:
  assumes "p < length t" and "\<not> is_cont (t ! p)"
  shows "is_char_boundary t p"
  using assms by (simp add: is_char_boundary_def)

lemma ascii_not_cont: "byte_of b < 128 \<Longrightarrow> \<not> is_cont b"
  by (simp add: is_cont_def)

text \<open>Ranges of ASCII bytes lie on character boundaries, so replacing them keeps a text valid.\<close>

lemma replace_ranges_valid:
  assumes "sorted_wrt (\<lambda>a b. snd a \<le> fst b) ranges"
    and "\<forall>r \<in> set ranges. c \<le> fst r \<and> fst r < snd r \<and> snd r \<le> length t"
    and "\<forall>(s, e) \<in> set ranges. \<forall>b \<in> set (slice s e t). byte_of b < 128"
    and "valid_utf8 (drop c t)" and "valid_utf8 m"
  shows "valid_utf8 (replace_ranges t m ranges c)"
  using assms
proof (induction ranges arbitrary: c)
  case (Cons r ranges)
  obtain s e where r: "r = (s, e)" by (cases r)
  have b: "c \<le> s" "s < e" "e \<le> length t" using Cons(3) by (auto simp: r)
  have ascii: "\<forall>b \<in> set (slice s e t). byte_of b < 128" using Cons(4) by (auto simp: r)
  have "t ! s \<in> set (slice s e t)"
    using b by (auto simp: slice_def in_set_conv_nth intro!: exI [of _ 0])
  then have "\<not> is_cont (drop c t ! (s - c))" using ascii ascii_not_cont b by simp
  then have "is_char_boundary (drop c t) (s - c)" using b by (intro boundary_of_head) simp_all
  from valid_utf8_cut [OF Cons(5) this] have v: "valid_utf8 (slice c s t)" "valid_utf8 (drop s t)"
    using b by (simp_all add: slice_def)
  have "valid_utf8 (drop e t)"
    using v(2) valid_utf8_ascii [OF ascii] slice_drop [of s e t] b valid_utf8_cancel by simp
  then have "valid_utf8 (replace_ranges t m ranges e)"
    using Cons(2-4,6) b by (intro Cons(1)) (auto simp: r)
  then show ?case using v(1) Cons(6) by (simp add: r valid_utf8_append)
qed simp

lemma match_ranges_slices:
  assumes "spec_ok spec" and "(s, e) \<in> set (match_ranges_from spec c input)"
  shows "c \<le> s \<and> complete_prefix_len spec (drop (s - c) input) = Some (e - s)"
  using assms(2)
proof (induction "length input" arbitrary: c input rule: less_induct)
  case less
  show ?case
  proof (cases "input = []")
    case True
    then show ?thesis using less(2) by simp
  next
    case ne: False
    show ?thesis
    proof (cases "complete_prefix_len spec input")
      case None
      have "c + 1 \<le> s \<and> complete_prefix_len spec (drop (s - (c + 1)) (tl input)) = Some (e - s)"
        using less(2) ne unfolding match_ranges_from_unmatched [OF ne None] by (intro less(1)) auto
      moreover have "drop (s - (c + 1)) (tl input) = drop (s - c) input" if "c + 1 \<le> s"
        using that by (simp add: drop_Suc [symmetric] Suc_diff_Suc)
      ultimately show ?thesis by auto
    next
      case (Some len)
      have len: "0 < len" "len \<le> length input"
        using complete_pos [OF assms(1) Some] complete_bounds(2) [OF Some] by auto
      show ?thesis
      proof (cases "(s, e) = (c, c + len)")
        case False
        then have "(s, e) \<in> set (match_ranges_from spec (c + len) (drop len input))"
          using less(2) unfolding match_ranges_from_matched [OF ne Some len(1)] by auto
        then have "c + len \<le> s \<and> complete_prefix_len spec (drop (s - (c + len)) (drop len input)) = Some (e - s)"
          using len ne by (intro less(1)) auto
        then show ?thesis by auto
      qed (use Some in simp)
    qed
  qed
qed

lemma labels_ascii: "spec \<in> set FORMAT_SPECS \<Longrightarrow> \<forall>b \<in> set (fs_label spec). byte_of b < 128"
  by (auto simp: FORMAT_SPECS_def byte_of_def)

lemma format_step_valid:
  assumes "spec \<in> set FORMAT_SPECS" and "valid_utf8 t"
  shows "valid_utf8 (fst (format_step an loc now spec (t, es)))"
proof -
  have "\<forall>(s, e) \<in> set (match_ranges spec t). \<forall>b \<in> set (slice s e t). byte_of b < 128"
    using match_ranges_slices [OF spec_in_catalog [OF assms(1)], of _ _ 0 t] match_ascii [OF assms(1)]
    unfolding match_ranges_def slice_def by fastforce
  then have "valid_utf8 (replace_ranges t (redaction (fs_label spec)) (match_ranges spec t) 0)"
    using match_ranges_sorted [OF spec_in_catalog [OF assms(1)], of 0 t] assms(2)
      ascii_redaction [OF labels_ascii [OF assms(1)]]
    by (intro replace_ranges_valid) (auto simp: match_ranges_def)
  then show ?thesis using assms(2) by (simp add: format_step_def Let_def)
qed

lemma format_steps_valid:
  assumes "set specs \<subseteq> set FORMAT_SPECS" and "valid_utf8 t"
  shows "valid_utf8 (fst (fold (format_step an loc now) specs (t, es)))"
  using assms
proof (induction specs arbitrary: t es)
  case (Cons spec specs)
  obtain t' es' where t': "format_step an loc now spec (t, es) = (t', es')"
    by (cases "format_step an loc now spec (t, es)")
  then have "valid_utf8 t'" using format_step_valid [of spec t an loc now es] Cons(2,3) by simp
  then show ?case using Cons t' by simp
qed simp

end
