(* ===== verification/Leak_Claims.thy ===== *)
theory Leak_Claims
  imports Response_Buffered
begin

text \<open>
  What the analyzer of a buffered response promises: its runs are exactly the stretches covered by
  windows of managed values, no managed key and no 12-byte window of one is left in a scrubbed
  body, and no credential of a known format is left in a scrubbed text.
\<close>

subsection \<open>Texts that no marker holds\<close>

definition plain_bytes :: "string \<Rightarrow> bool" where
  "plain_bytes w \<longleftrightarrow> set w \<inter> set ''[]:*'' = {}"

lemma token_byte_plain: "is_ascii_alphanumeric b \<or> b \<in> set ''-_.+/=~'' \<Longrightarrow> b \<notin> set ''[]:*''"
  by (auto simp: byte_defs)

lemma token_like_plain: "is_token_like v \<Longrightarrow> plain_bytes v"
  using token_byte_plain by (auto simp: is_token_like_def plain_bytes_def list_all_iff)

lemma eligible_plain: "eligible vs w \<Longrightarrow> plain_bytes w"
  using eligible_bytes token_byte_plain by (auto simp: plain_bytes_def)

definition label_ok :: "string \<Rightarrow> bool" where
  "label_ok label \<longleftrightarrow> length label \<le> 12 \<and> (length label = 12 \<longrightarrow> label = ''vault-secret'' \<or> CHR ''*'' \<in> set label)"

lemma labels_ok: "label_ok ''vault-secret''" "spec \<in> set FORMAT_SPECS \<Longrightarrow> label_ok (fs_label spec)"
  by (auto simp: label_ok_def FORMAT_SPECS_def)

lemma plain_marker_free:
  assumes "plain_bytes w" and "12 \<le> length w" and "w \<noteq> ''vault-secret''" and "label_ok label"
  shows "marker_free {redaction label} w"
proof -
  have "\<not> sublist w (''REDACTED:'' @ label)"
  proof
    assume "sublist w (''REDACTED:'' @ label)"
    then have "sublist w (''REDACTED'' @ CHR '':'' # label)" by simp
    moreover have "CHR '':'' \<notin> set w" using assms(1) by (auto simp: plain_bytes_def)
    ultimately have "sublist w ''REDACTED'' \<or> sublist w label" by (rule sublist_split)
    moreover have "\<not> sublist w ''REDACTED''" using assms(2) sublist_length_le by fastforce
    ultimately have sub: "sublist w label" by simp
    then have "length w = length label" using assms(2,4) sublist_length_le [OF sub] by (simp add: label_ok_def)
    then have "w = label" using sub by (auto simp: sublist_def)
    then show False using assms \<open>length w = length label\<close> by (auto simp: label_ok_def plain_bytes_def)
  qed
  then show ?thesis using assms(1,2)
    by (auto simp: marker_free_def redaction_def plain_bytes_def)
qed

lemmas vault_marker_free = plain_marker_free [OF _ _ _ labels_ok(1)]

subsection \<open>The scanners\<close>

text \<open>The text after the exact and the partial stage.\<close>

definition exact_text :: "leak_analyzer \<Rightarrow> leak_location \<Rightarrow> u64 \<Rightarrow> string \<Rightarrow> string" where
  "exact_text an loc now body = fst (fold (vault_step loc now) (vault_values an) (body, []))"

lemma scan_bytes_text:
  "fst (scan_bytes_vault_only an body loc now) = partial_text an False (exact_text an loc now body)"
  by (auto simp: scan_bytes_vault_only_def exact_text_def split: prod.split option.split
      dest: redact_partial_None redact_partial_Some)

lemma scan_str_text:
  assumes "valid_utf8 body" and "\<forall>(v, _) \<in> set vs. valid_utf8 v"
  obtains es where "scan_str (with_partial_filter vs) body loc now
    = fold (format_step (with_partial_filter vs) loc now) FORMAT_SPECS
        (partial_text (with_partial_filter vs) True (exact_text (with_partial_filter vs) loc now body), es)"
proof -
  let ?an = "with_partial_filter vs"
  obtain t es where t: "fold (vault_step loc now) vs (body, []) = (t, es)"
    by (cases "fold (vault_step loc now) vs (body, [])")
  then have et: "exact_text ?an loc now body = t" by (simp add: exact_text_def)
  have valid: "valid_utf8 (partial_text ?an True t)"
    using partial_text_valid vault_steps_valid [OF assms(2,1), of loc now "[]"] t by simp
  show thesis
  proof (cases "redact_partial_runs ?an t True loc now es")
    case None
    then show thesis using that t et redact_partial_None [OF None]
      by (simp add: scan_str_def)
  next
    case (Some r)
    obtain out es' where "r = (out, es')" by (cases r)
    then show thesis using that t et redact_partial_Some [of ?an t True loc now es out es'] Some valid
      by (simp add: scan_str_def)
  qed
qed

text \<open>What a scrubbed body can hold was in the text the stages started from.\<close>

lemma analyze_body_sublist:
  assumes "sublist w (fst (analyze_body (with_partial_filter vs) body now))"
    and "plain_bytes w" and "12 \<le> length w" and "w \<noteq> ''vault-secret''"
    and "\<forall>(v, _) \<in> set vs. valid_utf8 v"
  obtains cb where "sublist w
    (partial_text (with_partial_filter vs) cb (exact_text (with_partial_filter vs) Body now body))"
proof (cases "valid_utf8 body")
  case True
  obtain es where "scan_str (with_partial_filter vs) body Body now
    = fold (format_step (with_partial_filter vs) Body now) FORMAT_SPECS
        (partial_text (with_partial_filter vs) True (exact_text (with_partial_filter vs) Body now body), es)"
    using scan_str_text [OF True assms(5)] by blast
  then have "sublist w (fst (fold (format_step (with_partial_filter vs) Body now) FORMAT_SPECS
      (partial_text (with_partial_filter vs) True (exact_text (with_partial_filter vs) Body now body), es)))"
    using assms(1) True by (simp add: analyze_body_def)
  from format_steps_sublist [OF this] plain_marker_free [OF assms(2-4) labels_ok(2)]
  show thesis by (intro that [of True]) auto
next
  case False
  then show thesis using assms(1) that scan_bytes_text by (simp add: analyze_body_def)
qed

lemma partial_text_hides:
  assumes "eligible vs w" and "w \<noteq> ''vault-secret''"
  shows "\<not> sublist w (partial_text (with_partial_filter vs) cb t)"
proof
  have "12 \<le> length w" using eligible_length [OF assms(1)] by (simp add: PARTIAL_MIN_RUN_def)
  note mf = vault_marker_free [OF eligible_plain [OF assms(1)] this assms(2)]
  assume "sublist w (partial_text (with_partial_filter vs) cb t)"
  then obtain t' where "prefix w t'" "no_window vs t'"
    using redacted_sublist [OF partial_text_redacted _ mf] by blast
  then show False using assms(1) eligible_length [OF assms(1)] by (auto simp: prefix_def)
qed

lemma token_like_facts:
  assumes "is_token_like v"
  shows "v \<noteq> []" and "plain_bytes v" and "12 \<le> length v" and "v \<noteq> ''vault-secret''"
  using assms token_like_plain by (auto simp: is_token_like_def PARTIAL_MIN_VALUE_LEN_def)

lemma analyzed_body_hides:
  assumes "(v, name) \<in> set vs" and "is_token_like v" and "\<forall>(u, _) \<in> set vs. valid_utf8 u"
  shows "\<not> sublist v (fst (analyze_body (with_partial_filter vs) body now))
    \<and> (\<forall>start \<in> set (partial_window_starts v). window_at v start \<noteq> ''vault-secret'' \<longrightarrow>
        \<not> sublist (window_at v start) (fst (analyze_body (with_partial_filter vs) body now)))"
proof (intro conjI ballI impI)
  note tok = token_like_facts [OF assms(2)]
  note mf = vault_marker_free [OF tok(2-4)]
  show "\<not> sublist v (fst (analyze_body (with_partial_filter vs) body now))"
  proof
    assume "sublist v (fst (analyze_body (with_partial_filter vs) body now))"
    then obtain cb where "sublist v (partial_text (with_partial_filter vs) cb
        (exact_text (with_partial_filter vs) Body now body))"
      using analyze_body_sublist tok(2-4) assms(3) by blast
    then have "sublist v (exact_text (with_partial_filter vs) Body now body)"
      using redacted_sublist_input [OF partial_text_redacted _ mf] by blast
    then show False
      using vault_steps_remove [OF assms(1) tok(1) mf] by (simp add: exact_text_def)
  qed
next
  fix start assume start: "start \<in> set (partial_window_starts v)" and
    ne: "window_at v start \<noteq> ''vault-secret''"
  have el: "eligible vs (window_at v start)"
    using assms(1) start by (auto simp: eligible_def value_has_window_def list_ex_iff)
  have "12 \<le> length (window_at v start)" using eligible_length [OF el] by (simp add: PARTIAL_MIN_RUN_def)
  then show "\<not> sublist (window_at v start) (fst (analyze_body (with_partial_filter vs) body now))"
    using analyze_body_sublist [OF _ eligible_plain [OF el] _ ne assms(3)] partial_text_hides [OF el ne]
    by blast
qed

text \<open>A concrete body: a key, its last 13 bytes, and a window of another value.\<close>

definition sample_values :: vault_values where
  "sample_values = [(''sk-live-0123456789abcdef'', ''API_KEY''), (''p@ss'', ''DB'')]"

lemma scan_str_valid:
  assumes "valid_utf8 body" and "\<forall>(u, _) \<in> set vs. valid_utf8 u"
  shows "valid_utf8 (fst (scan_str (with_partial_filter vs) body loc now))"
proof -
  let ?an = "with_partial_filter vs"
  obtain es where s: "scan_str ?an body loc now = fold (format_step ?an loc now) FORMAT_SPECS
      (partial_text ?an True (exact_text ?an loc now body), es)"
    using scan_str_text [OF assms] by blast
  have "valid_utf8 (exact_text ?an loc now body)"
    using vault_steps_valid [OF assms(2,1)] by (simp add: exact_text_def)
  then show ?thesis unfolding s by (intro format_steps_valid partial_text_valid) simp_all
qed

lemma analyze_body_valid:
  "valid_utf8 body \<Longrightarrow> \<forall>(u, _) \<in> set vs. valid_utf8 u \<Longrightarrow>
     valid_utf8 (fst (analyze_body (with_partial_filter vs) body now))"
  by (simp add: analyze_body_def scan_str_valid)

text \<open>The lines of an event stream.\<close>

lemma split_on_parts:
  assumes "valid_utf8 t" and "byte_of c < 128" and "line \<in> set (split_on c t)"
  shows "valid_utf8 line"
  using assms(1,3)
proof (induction "length t" arbitrary: t rule: less_induct)
  case less
  show ?case
  proof (cases "c \<in> set t")
    case False
    then have "split_on c t = [t]" by (induction t) auto
    then show ?thesis using less by simp
  next
    case True
    then obtain a b where t: "t = a @ c # b" "c \<notin> set a" by (meson split_list_first)
    have "split_on c (a @ c # b) = a # split_on c b" using t(2) by (induction a) auto
    then have line: "line = a \<or> line \<in> set (split_on c b)" using less(3) by (simp add: t(1))
    have "is_char_boundary t (length a)"
      using ascii_not_cont [OF assms(2)] by (intro boundary_of_head) (auto simp: t(1))
    from valid_utf8_cut [OF less(2) this] have v: "valid_utf8 a" "valid_utf8 (c # b)"
      by (simp_all add: t(1))
    have "valid_utf8 b" using v(2) valid_utf8_cancel [of "[c]" b] valid_utf8_ascii [of "[c]"] assms(2) by simp
    then show ?thesis using line v(1) less(1) [of b] by (auto simp: t(1))
  qed
qed

lemma sublist_join_lines:
  assumes "sublist w (join_lines lines)" and "NL \<notin> set w" and "w \<noteq> []"
  shows "\<exists>line \<in> set lines. sublist w line"
  using assms(1)
proof (induction lines rule: join_lines.induct)
  case (3 line l lines)
  then have "sublist w line \<or> sublist w (join_lines (l # lines))"
    using sublist_split [OF _ assms(2), of line "join_lines (l # lines)"] by simp
  then show ?case using 3 by auto
qed (use assms(3) in auto)

lemma sse_line_sublist:
  assumes "sublist w (fst (sse_line (with_partial_filter vs) now line))" and "valid_utf8 line"
    and "\<forall>(u, _) \<in> set vs. valid_utf8 u" and "CHR '':'' \<notin> set w" and "12 \<le> length w"
  shows "\<exists>part. sublist w (fst (analyze_body (with_partial_filter vs) part now))"
proof (cases "starts_with line ''data:''")
  case True
  then obtain payload where line: "line = ''data:'' @ payload" by (auto simp: prefix_def)
  have "valid_utf8 payload"
    using assms(2) valid_utf8_cancel [of "''data:''" payload] valid_utf8_ascii [of "''data:''"]
    by (simp add: line byte_of_def)
  then have "valid_utf8 (fst (analyze_body (with_partial_filter vs) payload now))"
    using analyze_body_valid assms(3) by blast
  then have "fst (sse_line (with_partial_filter vs) now line)
      = ''data'' @ CHR '':'' # fst (analyze_body (with_partial_filter vs) payload now)"
    by (simp add: sse_line_def line case_prod_beta)
  then have "sublist w ''data'' \<or> sublist w (fst (analyze_body (with_partial_filter vs) payload now))"
    using sublist_split [OF _ assms(4)] assms(1) by metis
  moreover have "\<not> sublist w ''data''" using assms(5) sublist_length_le by fastforce
  ultimately show ?thesis by blast
next
  case False
  then have "fst (sse_line (with_partial_filter vs) now line)
      = fst (analyze_body (with_partial_filter vs) line now)"
    using analyze_body_valid [OF assms(2,3)] by (simp add: sse_line_def case_prod_beta)
  then show ?thesis using assms(1) by auto
qed

text \<open>Whatever the content type, a scrubbed body holds what some analyzed part holds.\<close>

lemma scrub_buffered_sublist:
  assumes "sublist w (fst (scrub_buffered (with_partial_filter vs) content_type body now))"
    and "\<forall>(u, _) \<in> set vs. valid_utf8 u"
    and "CHR '':'' \<notin> set w" and "NL \<notin> set w" and "12 \<le> length w"
  shows "\<exists>part. sublist w (fst (analyze_body (with_partial_filter vs) part now))"
proof (cases "body \<noteq> [] \<and> from_header content_type = Sse \<and> valid_utf8 body")
  case False
  have "w \<noteq> []" using assms(5) by auto
  then show ?thesis using assms(1) False
    by (auto simp: scrub_buffered_text scrub_sse_body_def split: if_splits)
next
  case True
  define lines where "lines = take (if ends_with body [NL] \<and> 0 < length (split_on NL body)
    then length (split_on NL body) - 1 else length (split_on NL body)) (split_on NL body)"
  have out: "fst (scrub_buffered (with_partial_filter vs) content_type body now)
      = join_lines (map (\<lambda>line. fst (sse_line (with_partial_filter vs) now line)) lines)
        @ (if ends_with body [NL] then [NL] else [])"
    using True by (simp add: scrub_buffered_text scrub_sse_body_def Let_def lines_def comp_def)
  have w: "w \<noteq> []" using assms(5) by auto
  have "sublist w (join_lines (map (\<lambda>line. fst (sse_line (with_partial_filter vs) now line)) lines))"
    using assms(1) sublist_split [OF _ assms(4), of "join_lines (map (\<lambda>line. fst (sse_line (with_partial_filter vs) now line)) lines)" "[]"] w
    unfolding out by (auto split: if_splits)
  from sublist_join_lines [OF this assms(4) w]
  obtain line where "line \<in> set lines" "sublist w (fst (sse_line (with_partial_filter vs) now line))"
    by auto
  moreover have "valid_utf8 line" if "line \<in> set lines"
  proof -
    have "line \<in> set (split_on NL body)" using that unfolding lines_def by (rule in_set_takeD)
    moreover have "byte_of NL < 128" by (simp add: byte_of_def)
    ultimately show ?thesis using True split_on_parts by blast
  qed
  ultimately show ?thesis using sse_line_sublist [OF _ _ assms(2,3,5)] by blast
qed

lemma token_byte_line: "is_ascii_alphanumeric b \<or> b \<in> set ''-_.+/=~'' \<Longrightarrow> b \<noteq> NL \<and> b \<noteq> CHR '':''"
  by (auto simp: byte_defs)

text \<open>The windows looked for are those that reach past the public prefix of a token-like value.\<close>

lemma window_starts_exact:
  assumes "is_token_like v"
  shows "start \<in> set (partial_window_starts v) \<longleftrightarrow>
    start + 12 \<le> length v \<and> public_prefix_len v < start + 12"
proof -
  have "12 \<le> length v" using assms by (simp add: is_token_like_def PARTIAL_MIN_VALUE_LEN_def)
  then show ?thesis
    using assms by (auto simp: partial_window_starts_def Let_def PARTIAL_MIN_RUN_def)
qed

text \<open>
  C16. A buffered response of any content type, event streams included, and of any bytes leaves the
  scrubber without a token-like managed value, and without any window of twelve consecutive bytes
  of one that reaches past its public prefix.  Two kinds of windows are excepted: those that lie
  entirely inside the public prefix (up to the last dash or underscore of the value's head), which
  the code keeps on purpose so that masked forms stay readable, and a window that spells
  \<open>vault-secret\<close>, the word of the marker itself.
\<close>

theorem buffered_hides_keys:
  assumes "(v, name) \<in> set vs" and "is_token_like v" and "\<forall>(u, _) \<in> set vs. valid_utf8 u"
  shows "\<not> sublist v (fst (scrub_buffered (with_partial_filter vs) content_type body now))
    \<and> (\<forall>start. start + 12 \<le> length v \<and> public_prefix_len v < start + 12
        \<and> window_at v start \<noteq> ''vault-secret'' \<longrightarrow>
        \<not> sublist (window_at v start) (fst (scrub_buffered (with_partial_filter vs) content_type body now)))"
proof (intro conjI allI impI notI)
  have bytes: "b \<noteq> NL \<and> b \<noteq> CHR '':''" if "b \<in> set v" for b
    using assms(2) that by (intro token_byte_line) (auto simp: is_token_like_def list_all_iff)
  then have "CHR '':'' \<notin> set v" "NL \<notin> set v" by blast+
  note v = this token_like_facts(3) [OF assms(2)]
  assume "sublist v (fst (scrub_buffered (with_partial_filter vs) content_type body now))"
  from scrub_buffered_sublist [OF this assms(3) v] show False
    using analyzed_body_hides [OF assms] by blast
next
  fix start
  assume "start + 12 \<le> length v \<and> public_prefix_len v < start + 12 \<and> window_at v start \<noteq> ''vault-secret''"
  then have start: "start \<in> set (partial_window_starts v)" and ne: "window_at v start \<noteq> ''vault-secret''"
    using window_starts_exact [OF assms(2)] by auto
  assume sub: "sublist (window_at v start) (fst (scrub_buffered (with_partial_filter vs) content_type body now))"
  have el: "eligible vs (window_at v start)"
    using assms(1) start by (auto simp: eligible_def value_has_window_def list_ex_iff)
  have "b \<noteq> NL \<and> b \<noteq> CHR '':''" if "b \<in> set (window_at v start)" for b
    using eligible_bytes [OF el that] by (rule token_byte_line)
  then have "CHR '':'' \<notin> set (window_at v start)" "NL \<notin> set (window_at v start)" by blast+
  note w = this eligible_length [OF el, THEN eq_refl [OF sym], unfolded PARTIAL_MIN_RUN_def]
  from scrub_buffered_sublist [OF sub assms(3) w] show False
    using analyzed_body_hides [OF assms] start ne by blast
qed

lemma buffered_hides_keys_witness:
  "\<not> sublist ''sk-live-0123456789abcdef''
      (fst (scrub_buffered (with_partial_filter sample_values) (Some ''text/event-stream'')
        ''data:key=3456789abcdef;'' 7))
   \<and> \<not> sublist ''3456789abcde''
      (fst (scrub_buffered (with_partial_filter sample_values) (Some ''text/event-stream'')
        ''data:key=3456789abcdef;'' 7))"
proof -
  have m: "(''sk-live-0123456789abcdef'', ''API_KEY'') \<in> set sample_values"
    by (simp add: sample_values_def)
  have t: "is_token_like ''sk-live-0123456789abcdef''"
    by (simp add: is_token_like_def PARTIAL_MIN_VALUE_LEN_def byte_defs)
  have u: "\<forall>(u, _) \<in> set sample_values. valid_utf8 u"
    using valid_utf8_ascii by (auto simp: sample_values_def byte_of_def)
  have w: "11 + 12 \<le> length ''sk-live-0123456789abcdef''"
    "public_prefix_len ''sk-live-0123456789abcdef'' < 11 + 12"
    "window_at ''sk-live-0123456789abcdef'' 11 = ''3456789abcde''" by code_simp+
  then have "window_at ''sk-live-0123456789abcdef'' 11 \<noteq> ''vault-secret''" by simp
  then show ?thesis using buffered_hides_keys [OF m t u] w by metis
qed

subsection \<open>Known formats\<close>

lemma catalog_bytes:
  "spec \<in> set FORMAT_SPECS \<Longrightarrow> plain_bytes (fs_prefix spec) \<and> 12 < minimum_match_len spec"
  by (auto simp: FORMAT_SPECS_def plain_bytes_def minimum_match_len_def SENDGRID_LEN_def)

lemma match_plain:
  assumes "spec \<in> set FORMAT_SPECS" and "complete_prefix_len spec w = Some (length w)"
  shows "plain_bytes w" and "12 \<le> length w" and "w \<noteq> ''vault-secret''"
proof -
  obtain rest where w: "w = fs_prefix spec @ rest"
    using assms(2) by (auto simp: complete_prefix_len_def prefix_def split: if_splits)
  then have "shape_match (fs_shape spec) rest = Some (length rest)"
    using assms(2) by (auto simp: complete_prefix_len_def)
  then show "plain_bytes w"
    using shape_match_bytes catalog_bytes [OF assms(1)] unfolding w plain_bytes_def by fastforce
  have "12 < length w" using complete_bounds(1) [OF assms(2)] catalog_bytes [OF assms(1)] by simp
  then show "12 \<le> length w" "w \<noteq> ''vault-secret''" by auto
qed

text \<open>
  A UTF-8 body that passes the analyzer holds no complete credential of a catalogued format,
  managed or not: what the replacements leave standing never joins up to one.
\<close>

theorem scrubbed_text_has_no_known_format:
  assumes "valid_utf8 body" and "\<forall>(u, _) \<in> set vs. valid_utf8 u"
    and "spec \<in> set FORMAT_SPECS" and "complete_prefix_len spec w = Some (length w)"
  shows "\<not> sublist w (fst (analyze_body (with_partial_filter vs) body now))"
proof
  let ?step = "format_step (with_partial_filter vs) Body now"
  note plain = match_plain [OF assms(3,4)]
  have mf: "marker_free {redaction (fs_label s)} w" if "s \<in> set FORMAT_SPECS" for s
    using plain_marker_free [OF plain labels_ok(2) [OF that]] .
  assume sub: "sublist w (fst (analyze_body (with_partial_filter vs) body now))"
  obtain t es where "scan_str (with_partial_filter vs) body Body now = fold ?step FORMAT_SPECS (t, es)"
    using scan_str_text [OF assms(1,2)] by blast
  then have sub: "sublist w (fst (fold ?step FORMAT_SPECS (t, es)))"
    using sub assms(1) by (simp add: analyze_body_def)
  obtain s1 s2 where specs: "FORMAT_SPECS = s1 @ spec # s2" using assms(3) by (meson split_list)
  obtain t1 es1 where t1: "fold ?step s1 (t, es) = (t1, es1)" by (cases "fold ?step s1 (t, es)")
  obtain t2 es2 where t2: "?step spec (t1, es1) = (t2, es2)" by (cases "?step spec (t1, es1)")
  have "sublist w (fst (fold ?step s2 (t2, es2)))" using sub by (simp add: specs t1 t2)
  then have "sublist w t2"
    by (rule format_steps_sublist) (auto simp: specs intro!: mf)
  then obtain t' where "prefix w t'" "complete_prefix_len spec t' = None"
    using redacted_sublist [OF format_step_redacted [OF assms(3)] _ mf [OF assms(3)]] t2
    by (metis fst_conv)
  then show False using complete_mono [OF assms(4)] by blast
qed

lemma scrubbed_text_has_no_known_format_witness:
  "\<not> sublist ''AKIA0123456789ABCDEF''
      (fst (analyze_body (with_partial_filter sample_values) ''id=AKIA0123456789ABCDEF'' 7))"
proof -
  have b: "valid_utf8 ''id=AKIA0123456789ABCDEF''" by (rule valid_utf8_ascii) (simp add: byte_of_def)
  have u: "\<forall>(u, _) \<in> set sample_values. valid_utf8 u"
    using valid_utf8_ascii by (auto simp: sample_values_def byte_of_def)
  have s: "\<lparr>fs_label = ''AKIA*'', fs_prefix = ''AKIA'', fs_shape = Fixed UpperAlnum 16\<rparr> \<in> set FORMAT_SPECS"
    by (simp add: FORMAT_SPECS_def)
  show ?thesis
    by (rule scrubbed_text_has_no_known_format [OF b u s])
      (simp add: complete_prefix_len_def byte_defs)
qed

subsection \<open>Runs\<close>

text \<open>
  C29. The scan of a text, with its rolling 64-bit hash and its 65,536-bit filter, finds exactly the
  bytes that lie in a 12-byte window of a managed value: runs in order, with a gap between any two,
  inside the text, and a byte is in a run if and only if some window around it is eligible.
\<close>

theorem partial_runs_cover_windows:
  "separated (partial_runs (with_partial_filter vs) input)
    \<and> ends_upto (length input) (partial_runs (with_partial_filter vs) input)
    \<and> (covered (partial_runs (with_partial_filter vs) input) p \<longleftrightarrow>
        (\<exists>s. s \<le> p \<and> p < s + PARTIAL_MIN_RUN \<and> s + PARTIAL_MIN_RUN \<le> length input
          \<and> eligible vs (window_at input s)))"
  using partial_runs_covered [of vs input p]
  by (auto simp: partial_runs_separated partial_runs_ends hit_def)

subsection \<open>Candidates\<close>

text \<open>
  A candidate that is not a match but can be continued to one of a catalogued format is always
  reported as incomplete, so a stream never lets go of it; and what is reported as incomplete can be
  continued to a match, except for a SendGrid text whose first part was never of the right bytes.
\<close>

theorem incomplete_prefix_exact:
  assumes "spec \<in> set FORMAT_SPECS"
  shows "complete_prefix_len spec c = None \<and> (\<exists>ext. complete_prefix_len spec (c @ ext) \<noteq> None)
    \<longleftrightarrow> is_incomplete_prefix spec c
      \<and> first_part_ok (fs_shape spec) (drop (length (fs_prefix spec)) c)"
  using incomplete_is_viable [OF spec_in_catalog [OF assms], of c] viable_is_incomplete [of spec c]
  by blast

lemma incomplete_prefix_exact_witness:
  "\<exists>ext. complete_prefix_len
      \<lparr>fs_label = ''AKIA*'', fs_prefix = ''AKIA'', fs_shape = Fixed UpperAlnum 16\<rparr> (''AKIA07'' @ ext) \<noteq> None"
proof -
  let ?s = "\<lparr>fs_label = ''AKIA*'', fs_prefix = ''AKIA'', fs_shape = Fixed UpperAlnum 16\<rparr>"
  have s: "?s \<in> set FORMAT_SPECS" by (simp add: FORMAT_SPECS_def)
  have "is_incomplete_prefix ?s ''AKIA07''"
    and "first_part_ok (fs_shape ?s) (drop (length (fs_prefix ?s)) ''AKIA07'')"
    by (simp_all add: is_incomplete_prefix_def first_part_ok_def byte_defs)
  then show ?thesis using incomplete_prefix_exact [OF s, of "''AKIA07''"] by blast
qed

lemma sendgrid_overheld:
  "is_incomplete_prefix \<lparr>fs_label = ''SG.*'', fs_prefix = ''SG.'', fs_shape = SendGrid\<rparr>
     (''SG.'' @ replicate 22 CHR ''!'' @ ''.'')
   \<and> \<not> first_part_ok SendGrid (replicate 22 CHR ''!'' @ ''.'')"
  by (simp add: is_incomplete_prefix_def sendgrid_prefix_is_incomplete_def first_part_ok_def byte_defs
      nth_append list_all_iff)

subsection \<open>The byte loop of the interceptor\<close>

text \<open>
  C39. The interceptor's byte loop over one pattern fails to return exactly when the pattern is empty
  and something is left to scan: an empty secret and a body that is not UTF-8 never return.
\<close>

theorem byte_pass_terminates:
  "byte_pass needle replacement rest out replaced = None \<longleftrightarrow> needle = [] \<and> rest \<noteq> []"
proof (cases "needle = [] \<and> rest \<noteq> []")
  case True
  then have "byte_pass needle replacement rest out replaced \<noteq> Some r" for r
    using byte_pass_stuck by blast
  then show ?thesis using True by (cases "byte_pass needle replacement rest out replaced") auto
next
  case False
  have "\<exists>r. byte_pass needle replacement rest out replaced = Some r"
  proof (cases "needle = []")
    case True
    then show ?thesis using False by (subst byte_pass.simps) simp
  qed (use byte_pass_replaces in blast)
  then show ?thesis using False by auto
qed

lemma empty_secret_loops:
  "scrub_response_bytes (interceptor_new [(''phm_x'', [])]) [CHR 0xFF] = None"
proof -
  have "byte_pass [] ''phm_x'' [CHR 0xFF] [] False = None"
    using byte_pass_stuck by (cases "byte_pass [] ''phm_x'' [CHR 0xFF] [] False") blast+
  moreover have "\<not> valid_utf8 [CHR 0xFF]"
    by (subst valid_utf8.simps) (simp add: scalar_width_def byte_of_def)
  ultimately show ?thesis
    by (simp add: scrub_response_bytes_def find_replace_bytes_via_str_def secret_pairs_def
        interceptor_new_def new_with_named_def new_scoped_inner_def)
qed

end
