(* ===== verification/Stream_Scrubber.thy ===== *)
theory Stream_Scrubber
  imports Response_Buffered
begin

text \<open>
  The streaming scrubber of \<open>phantom-proxy/src/response_scrubber.rs\<close>: the exact stage, which holds
  back what may still become a managed value or a known format and suppresses the rest of an
  unbounded credential, and the partial stage, which holds back what may still become a run.  The
  three fields of the state that the exact stage owns (what the legacy interface calls the carry)
  are the record \<open>carry\<close>.  The clock is an argument.
\<close>

subsection \<open>State\<close>

record carry =
  pending :: string
  suppressing :: "nat option"
  suppression_prefix :: string

record scrub_state =
  exact :: carry
  partial_tail :: string
  partial_tail_marked :: nat
  partial_tail_index :: nat
  partial_in_run :: bool

definition with_carry :: "string \<Rightarrow> nat option \<Rightarrow> string \<Rightarrow> scrub_state" where
  "with_carry pend supp supp_prefix =
     \<lparr>exact = \<lparr>pending = pend, suppressing = supp, suppression_prefix = supp_prefix\<rparr>,
      partial_tail = [], partial_tail_marked = 0, partial_tail_index = 0, partial_in_run = False\<rparr>"

definition scrub_state_new :: scrub_state where
  "scrub_state_new = with_carry [] None []"

definition buffered_len :: "scrub_state \<Rightarrow> nat" where
  "buffered_len st = length (pending (exact st)) + length (suppression_prefix (exact st))
     + length (partial_tail st)"

definition is_suppressing :: "scrub_state \<Rightarrow> bool" where
  "is_suppressing st = (suppressing (exact st) \<noteq> None)"

definition clear_suppression :: "carry \<Rightarrow> carry" where
  "clear_suppression c = c\<lparr>suppression_prefix := [], suppressing := None\<rparr>"

definition from_legacy_carry :: "string \<Rightarrow> scrub_state" where
  "from_legacy_carry legacy =
     (case find (\<lambda>i. let spec = FORMAT_SPECS ! i in
          is_unbounded spec \<and> length legacy = minimum_match_len spec
          \<and> complete_prefix_len spec legacy = Some (length legacy)) [0..<length FORMAT_SPECS] of
        Some i \<Rightarrow> with_carry [] (Some i) legacy
      | None \<Rightarrow> with_carry legacy None [])"

definition into_legacy_carry :: "scrub_state \<Rightarrow> string" where
  "into_legacy_carry st =
     (if suppressing (exact st) \<noteq> None then suppression_prefix (exact st) else pending (exact st))"

definition stream_buffer_bound :: "leak_analyzer \<Rightarrow> nat" where
  "stream_buffer_bound an =
     (let unmanaged_bound = fold (\<lambda>spec m. max m (minimum_match_len spec)) FORMAT_SPECS 0;
          exact_bound = max (max_managed_value_len an - 1) unmanaged_bound;
          partial_bound = (if has_partial_matching an then PARTIAL_MIN_RUN - 1 else 0)
      in exact_bound + partial_bound)"

subsection \<open>The exact stage\<close>

definition redact_pending_prefix :: "carry \<Rightarrow> nat \<Rightarrow> string \<Rightarrow> leak_severity \<Rightarrow> string option \<Rightarrow> u64
    \<Rightarrow> leak_event list \<Rightarrow> string \<Rightarrow> carry \<times> string \<times> leak_event list" where
  "redact_pending_prefix c match_len pattern severity secret_name now events output =
     (c\<lparr>pending := drop match_len (pending c)\<rparr>,
      output @ redaction pattern,
      bump_event (\<lambda>ev. le_location ev = Body \<and> le_severity ev = severity \<and> le_pattern ev = pattern
          \<and> le_secret_name ev = secret_name)
        \<lparr>le_ts = now, le_location = Body, le_severity = severity, le_secret_name = secret_name,
         le_pattern = pattern, le_match_count = 1\<rparr> events)"

text \<open>The first format of the catalog with a complete match, and the length of the match.\<close>

definition first_complete :: "string \<Rightarrow> (nat \<times> nat) option" where
  "first_complete cand =
     map_option (\<lambda>i. (i, the (complete_prefix_len (FORMAT_SPECS ! i) cand)))
       (find (\<lambda>i. complete_prefix_len (FORMAT_SPECS ! i) cand \<noteq> None) [0..<length FORMAT_SPECS])"

definition any_incomplete :: "string \<Rightarrow> bool" where
  "any_incomplete cand = list_ex (\<lambda>spec. is_incomplete_prefix spec cand) FORMAT_SPECS"

lemma first_complete_Some:
  assumes "first_complete cand = Some (i, n)"
  shows "i < length FORMAT_SPECS" and "complete_prefix_len (FORMAT_SPECS ! i) cand = Some n"
    and "0 < n" and "n \<le> length cand"
proof -
  show i: "i < length FORMAT_SPECS" and m: "complete_prefix_len (FORMAT_SPECS ! i) cand = Some n"
    using assms by (auto simp: first_complete_def find_Some_iff)
  show "0 < n" using complete_pos [OF spec_in_catalog m] i by simp
  show "n \<le> length cand" using complete_bounds(2) [OF m] .
qed

lemma first_complete_None:
  "first_complete cand = None \<longleftrightarrow> (\<forall>spec \<in> set FORMAT_SPECS. complete_prefix_len spec cand = None)"
  unfolding first_complete_def find_None_iff option.map_disc_iff
  by (metis atLeastLessThan_iff in_set_conv_nth le0 set_upt)

lemma last_max_in: "last_max key xs = Some x \<Longrightarrow> x \<in> set xs"
  by (induction xs) (auto split: option.splits if_splits)

lemma last_max_None: "last_max key xs = None \<longleftrightarrow> xs = []"
  by (cases xs) (auto split: option.splits)

lemma managed_prefix_match_Some:
  "managed_prefix_match an cand = Some (n, name) \<Longrightarrow> 0 < n \<and> n \<le> length cand"
  by (auto simp: managed_prefix_match_def map_filter_def dest!: last_max_in
      simp: prefix_length_le split: if_splits)

lemma managed_prefix_match_None:
  "managed_prefix_match an cand = None \<longleftrightarrow>
     (\<forall>(v, _) \<in> set (vault_values an). v = [] \<or> \<not> starts_with cand v)"
  by (auto simp: managed_prefix_match_def last_max_None map_filter_def filter_empty_conv)

function drain_stream_pending :: "leak_analyzer \<Rightarrow> u64 \<Rightarrow> bool \<Rightarrow> carry \<Rightarrow> string \<Rightarrow> leak_event list
    \<Rightarrow> carry \<times> string \<times> leak_event list" where
  "drain_stream_pending an now finish c output events =
     (if pending c = [] then (c, output, events)
      else case managed_exact_name an (pending c) of
        Some name \<Rightarrow>
          if \<not> finish \<and> is_managed_prefix an (pending c) then (c, output, events)
          else (case redact_pending_prefix c (length (pending c)) ''vault-secret'' High (Some name) now
                  events output of
                (c', output', events') \<Rightarrow> drain_stream_pending an now finish c' output' events')
      | None \<Rightarrow>
        if \<not> finish \<and> is_managed_prefix an (pending c) then (c, output, events)
        else (case managed_prefix_match an (pending c) of
          Some (match_len, name) \<Rightarrow>
            (case redact_pending_prefix c match_len ''vault-secret'' High (Some name) now events output of
              (c', output', events') \<Rightarrow> drain_stream_pending an now finish c' output' events')
        | None \<Rightarrow>
          (case first_complete (pending c) of
            Some (spec_index, match_len) \<Rightarrow>
              (let spec = FORMAT_SPECS ! spec_index;
                   suppress = (\<not> finish \<and> is_unbounded spec \<and> match_len = length (pending c));
                   supp_prefix = take (minimum_match_len spec) (pending c)
               in case redact_pending_prefix c match_len (fs_label spec) Medium None now events output of
                 (c', output', events') \<Rightarrow>
                   if suppress then
                     (c'\<lparr>suppressing := Some spec_index, suppression_prefix := supp_prefix\<rparr>, output', events')
                   else drain_stream_pending an now finish c' output' events')
          | None \<Rightarrow>
              if \<not> finish \<and> any_incomplete (pending c) then (c, output, events)
              else drain_stream_pending an now finish (c\<lparr>pending := tl (pending c)\<rparr>)
                (output @ [hd (pending c)]) events)))"
  by pat_completeness auto
termination
  by (relation "measure (\<lambda>(_, _, _, c, _, _). length (pending c))")
    (auto simp: redact_pending_prefix_def dest: managed_prefix_match_Some first_complete_Some(3))

declare drain_stream_pending.simps [simp del]

fun process_byte :: "leak_analyzer \<Rightarrow> u64 \<Rightarrow> char \<Rightarrow> carry \<times> string \<times> leak_event list
    \<Rightarrow> carry \<times> string \<times> leak_event list" where
  "process_byte an now b (c, output, events) =
     (case suppressing c of
        Some i \<Rightarrow>
          if continuation_contains (FORMAT_SPECS ! i) b then (c, output, events)
          else drain_stream_pending an now False
            (let c' = clear_suppression c in c'\<lparr>pending := pending c' @ [b]\<rparr>) output events
      | None \<Rightarrow> drain_stream_pending an now False (c\<lparr>pending := pending c @ [b]\<rparr>) output events)"

definition exact_stage :: "leak_analyzer \<Rightarrow> u64 \<Rightarrow> bool \<Rightarrow> string \<Rightarrow> carry
    \<Rightarrow> carry \<times> string \<times> leak_event list" where
  "exact_stage an now finish input c =
     (case fold (process_byte an now) input (c, [], []) of
        (c', output, events) \<Rightarrow>
          if finish then drain_stream_pending an now True (clear_suppression c') output events
          else (c', output, events))"

subsection \<open>The partial stage\<close>

definition record_partial_event :: "u64 \<Rightarrow> string \<Rightarrow> leak_event list \<Rightarrow> leak_event list" where
  "record_partial_event now name events =
     bump_event (\<lambda>ev. le_location ev = Body \<and> le_severity ev = High \<and> le_pattern ev = ''vault-secret''
         \<and> le_secret_name ev = Some name)
       \<lparr>le_ts = now, le_location = Body, le_severity = High, le_secret_name = Some name,
        le_pattern = ''vault-secret'', le_match_count = 1\<rparr> events"

record stage_loop =
  sl_output :: string
  sl_cursor :: nat
  sl_carried :: "nat \<times> nat"
  sl_last_marked :: bool
  sl_events :: "leak_event list"

fun stage_runs :: "leak_analyzer \<Rightarrow> u64 \<Rightarrow> string \<Rightarrow> nat \<Rightarrow> bool \<Rightarrow> run list \<Rightarrow> stage_loop \<Rightarrow> stage_loop" where
  "stage_runs an now buf final_len in_run [] l = l"
| "stage_runs an now buf final_len in_run ((start, end', index) # runs) l =
     (if final_len \<le> start then l
      else
        let kept = sl_output l @ slice (sl_cursor l) start buf;
            marked = \<not> (start = 0 \<and> in_run)
        in stage_runs an now buf final_len in_run runs
          \<lparr>sl_output = (if marked then kept @ ''[REDACTED:vault-secret]'' else kept),
           sl_cursor = min end' final_len,
           sl_carried = (if final_len < end' then (end' - final_len, index) else sl_carried l),
           sl_last_marked = (final_len \<le> end'),
           sl_events = (if marked then record_partial_event now (vault_name an index) (sl_events l)
             else sl_events l)\<rparr>)"

definition stage_all_runs :: "leak_analyzer \<Rightarrow> scrub_state \<Rightarrow> string \<Rightarrow> run list" where
  "stage_all_runs an st buf =
     fold push_run (partial_runs an buf)
       (if 0 < partial_tail_marked st then [(0, partial_tail_marked st, partial_tail_index st)] else [])"

definition partial_stage :: "leak_analyzer \<Rightarrow> u64 \<Rightarrow> scrub_state \<Rightarrow> string \<Rightarrow> bool \<Rightarrow> leak_event list
    \<Rightarrow> scrub_state \<times> string \<times> leak_event list" where
  "partial_stage an now st input finish events =
     (if \<not> has_partial_matching an then (st, input, events)
      else
        let buf = partial_tail st @ input;
            runs = stage_all_runs an st buf;
            final_len = (if finish then length buf else partial_hold_start an buf)
        in if final_len = 0 then (st\<lparr>partial_tail := buf\<rparr>, [], events)
           else
             let l = stage_runs an now buf final_len (partial_in_run st) runs
                   \<lparr>sl_output = [], sl_cursor = 0, sl_carried = (0, 0), sl_last_marked = False,
                    sl_events = events\<rparr>;
                 pending_bytes = (sl_cursor l < final_len);
                 output = (if pending_bytes then sl_output l @ slice (sl_cursor l) final_len buf
                   else sl_output l);
                 tail_bytes = drop final_len buf
             in (st\<lparr>partial_in_run := (if pending_bytes then False else sl_last_marked l),
                    partial_tail := tail_bytes,
                    partial_tail_marked := min (fst (sl_carried l)) (length tail_bytes),
                    partial_tail_index := snd (sl_carried l)\<rparr>,
                 output, sl_events l))"

definition process_stream_bytes :: "leak_analyzer \<Rightarrow> u64 \<Rightarrow> scrub_state \<Rightarrow> string \<Rightarrow> bool
    \<Rightarrow> scrub_state \<times> string \<times> leak_event list" where
  "process_stream_bytes an now st input finish =
     (case exact_stage an now finish input (exact st) of
        (c, output, events) \<Rightarrow> partial_stage an now (st\<lparr>exact := c\<rparr>) output finish events)"

subsection \<open>The interface\<close>

definition scrub_stream_chunk :: "leak_analyzer \<Rightarrow> u64 \<Rightarrow> scrub_state \<Rightarrow> string
    \<Rightarrow> scrub_state \<times> string \<times> scrub_event" where
  "scrub_stream_chunk an now st chunk =
     (case process_stream_bytes an now st chunk False of
        (st', output, events) \<Rightarrow> (st', output, from_events events))"

definition finish_stream :: "leak_analyzer \<Rightarrow> u64 \<Rightarrow> scrub_state \<Rightarrow> string \<times> scrub_event" where
  "finish_stream an now st =
     (case process_stream_bytes an now st [] True of
        (_, output, events) \<Rightarrow> (output, from_events events))"

definition scrub_chunk :: "leak_analyzer \<Rightarrow> u64 \<Rightarrow> string \<Rightarrow> string \<Rightarrow> string \<times> string \<times> scrub_event" where
  "scrub_chunk an now legacy chunk =
     (case scrub_stream_chunk an now (from_legacy_carry legacy) chunk of
        (st, output, event) \<Rightarrow>
          (case partial_stage an now st [] True [] of
            (st', flushed, events) \<Rightarrow>
              (into_legacy_carry st', output @ flushed,
               if events = [] then event else from_events (se_leak_events event @ events))))"

definition flush_carry :: "leak_analyzer \<Rightarrow> u64 \<Rightarrow> string \<Rightarrow> string \<times> scrub_event" where
  "flush_carry an now legacy = finish_stream an now (from_legacy_carry legacy)"

text \<open>A whole stream: chunks with the time each arrives, then the end.\<close>

fun stream_output :: "leak_analyzer \<Rightarrow> scrub_state \<Rightarrow> (u64 \<times> string) list \<Rightarrow> u64 \<Rightarrow> string" where
  "stream_output an st [] fin = fst (finish_stream an fin st)"
| "stream_output an st ((now, chunk) # chunks) fin =
     (case scrub_stream_chunk an now st chunk of
        (st', output, _) \<Rightarrow> output @ stream_output an st' chunks fin)"

end
