(* ===== verification/Stream_Exact.thy ===== *)
theory Stream_Exact
  imports Stream_Scrubber
begin

text \<open>
  The exact stage against its contract: what it writes for a stream is a redaction of the stream in
  which no kept byte begins a managed value or a complete credential of a known format, it does not
  depend on how the stream was cut into chunks, and what it retains is bounded.
\<close>

subsection \<open>Output does not depend on what was written before\<close>

text \<open>One round of the loop: the text written, the carry after it, and whether the loop goes on.\<close>

definition drain_round :: "leak_analyzer \<Rightarrow> bool \<Rightarrow> carry \<Rightarrow> string \<times> carry \<times> bool" where
  "drain_round an fin c =
     (let rest = \<lambda>n. c\<lparr>pending := drop n (pending c)\<rparr> in
      if managed_exact_name an (pending c) \<noteq> None
      then (vault_marker, rest (length (pending c)), True)
      else case managed_prefix_match an (pending c) of
        Some (n, _) \<Rightarrow> (vault_marker, rest n, True)
      | None \<Rightarrow>
         (case first_complete (pending c) of
            Some (i, n) \<Rightarrow>
              let suppress = (\<not> fin \<and> is_unbounded (FORMAT_SPECS ! i) \<and> n = length (pending c)) in
              (redaction (fs_label (FORMAT_SPECS ! i)),
               if suppress then (rest n)\<lparr>suppressing := Some i,
                 suppression_prefix := take (minimum_match_len (FORMAT_SPECS ! i)) (pending c)\<rparr>
               else rest n, \<not> suppress)
          | None \<Rightarrow> ([hd (pending c)], rest 1, True)))"

definition drain_stops :: "leak_analyzer \<Rightarrow> bool \<Rightarrow> carry \<Rightarrow> bool" where
  "drain_stops an fin c \<longleftrightarrow> pending c = [] \<or> \<not> fin \<and> is_managed_prefix an (pending c)
     \<or> \<not> fin \<and> managed_exact_name an (pending c) = None \<and> managed_prefix_match an (pending c) = None
        \<and> first_complete (pending c) = None \<and> any_incomplete (pending c)"

lemma drain_done:
  "drain_stops an fin c \<Longrightarrow> drain_stream_pending an now fin c out es = (c, out, es)"
  by (subst drain_stream_pending.simps) (auto simp: drain_stops_def split: option.splits)

lemma drain_step:
  assumes "\<not> drain_stops an fin c" and "drain_round an fin c = (o1, c1, go)"
  shows "\<exists>es1. drain_stream_pending an now fin c out es
    = (if go then drain_stream_pending an now fin c1 (out @ o1) es1 else (c1, out @ o1, es1))"
    and "go \<Longrightarrow> length (pending c1) < length (pending c)"
proof -
  have ne: "pending c \<noteq> []" "fin \<or> \<not> is_managed_prefix an (pending c)"
    using assms(1) by (auto simp: drain_stops_def)
  show "\<exists>es1. drain_stream_pending an now fin c out es
    = (if go then drain_stream_pending an now fin c1 (out @ o1) es1 else (c1, out @ o1, es1))"
    using assms ne
    by (subst drain_stream_pending.simps)
      (auto simp: drain_round_def drain_stops_def redact_pending_prefix_def Let_def drop_Suc
        split: option.splits prod.splits if_splits)
  show "go \<Longrightarrow> length (pending c1) < length (pending c)"
    using assms(2) ne
    by (auto simp: drain_round_def Let_def diff_less
        split: option.splits prod.splits if_splits
        dest: managed_prefix_match_Some first_complete_Some(3))
qed

text \<open>The rounds of one call, and the bytes of one call, without events.\<close>

inductive drains :: "leak_analyzer \<Rightarrow> bool \<Rightarrow> carry \<Rightarrow> string \<Rightarrow> carry \<Rightarrow> bool" for an fin where
  drains_stop: "drain_stops an fin c \<Longrightarrow> drains an fin c [] c"
| drains_go: "\<not> drain_stops an fin c \<Longrightarrow> drain_round an fin c = (o1, c1, True) \<Longrightarrow>
    drains an fin c1 o2 c2 \<Longrightarrow> drains an fin c (o1 @ o2) c2"
| drains_halt: "\<not> drain_stops an fin c \<Longrightarrow> drain_round an fin c = (o1, c1, False) \<Longrightarrow>
    drains an fin c o1 c1"

lemma drain_drains:
  "drain_stream_pending an now fin c out es = (c', out', es') \<Longrightarrow>
     \<exists>w. out' = out @ w \<and> drains an fin c w c'"
proof (induction "length (pending c)" arbitrary: c out es rule: less_induct)
  case less
  show ?case
  proof (cases "drain_stops an fin c")
    case True
    then show ?thesis using less(2) drain_done [OF True] by (auto intro: drains_stop)
  next
    case False
    obtain o1 c1 go where r: "drain_round an fin c = (o1, c1, go)" by (cases "drain_round an fin c")
    obtain es1 where e: "drain_stream_pending an now fin c out es
        = (if go then drain_stream_pending an now fin c1 (out @ o1) es1 else (c1, out @ o1, es1))"
      using drain_step(1) [OF False r] by blast
    show ?thesis
    proof (cases go)
      case True
      then have shorter: "length (pending c1) < length (pending c)"
        and rest: "drain_stream_pending an now fin c1 (out @ o1) es1 = (c', out', es')"
        using drain_step(2) [OF False r] e less(2) by auto
      obtain w where w: "out' = (out @ o1) @ w" "drains an fin c1 w c'"
        using less(1) [OF shorter rest] by blast
      have "drains an fin c (o1 @ w) c'" by (rule drains_go [OF False _ w(2)]) (simp add: r True)
      then show ?thesis using w(1) by (intro exI [of _ "o1 @ w"]) simp
    next
      case no: False
      then have eq: "c' = c1" "out' = out @ o1" using less(2) e by auto
      have "drains an fin c o1 c1" by (rule drains_halt [OF False]) (simp add: r no)
      then show ?thesis using eq by (intro exI [of _ o1]) simp
    qed
  qed
qed

lemma drains_unique:
  "drains an fin c w c' \<Longrightarrow> drains an fin c w2 c2' \<Longrightarrow> w2 = w \<and> c2' = c'"
proof (induction arbitrary: w2 c2' rule: drains.induct)
  case (drains_stop c)
  from drains_stop(2) show ?case by cases (use drains_stop(1) in auto)
next
  case (drains_go c o1 c1 o2 c2)
  from drains_go(5) show ?case
  proof cases
    case (drains_go p1 d1 p2)
    then have "p1 = o1" "d1 = c1" using drains_go.hyps(2) by simp_all
    then show ?thesis using drains_go(1,4) drains_go.IH by simp
  qed (use drains_go.hyps(1,2) in simp_all)
next
  case (drains_halt c o1 c1)
  from drains_halt(3) show ?case by cases (use drains_halt(1,2) in simp_all)
qed

definition push_byte :: "carry \<Rightarrow> char \<Rightarrow> carry" where
  "push_byte c b =
     (let c' = (if suppressing c = None then c else clear_suppression c)
      in c'\<lparr>pending := pending c' @ [b]\<rparr>)"

definition suppresses :: "carry \<Rightarrow> char \<Rightarrow> bool" where
  "suppresses c b =
     (case suppressing c of Some i \<Rightarrow> continuation_contains (FORMAT_SPECS ! i) b | None \<Rightarrow> False)"

inductive consumes :: "leak_analyzer \<Rightarrow> carry \<Rightarrow> string \<Rightarrow> string \<Rightarrow> carry \<Rightarrow> bool" for an where
  consumes_nil: "consumes an c [] [] c"
| consumes_suppressed: "suppresses c b \<Longrightarrow> consumes an c bs w c' \<Longrightarrow> consumes an c (b # bs) w c'"
| consumes_byte: "\<not> suppresses c b \<Longrightarrow> drains an False (push_byte c b) w1 c1 \<Longrightarrow>
    consumes an c1 bs w2 c2 \<Longrightarrow> consumes an c (b # bs) (w1 @ w2) c2"

lemma process_byte_split:
  "process_byte an now b (c, out, es) =
     (if suppresses c b then (c, out, es) else drain_stream_pending an now False (push_byte c b) out es)"
  by (auto simp: suppresses_def push_byte_def Let_def split: option.split)

lemma fold_consumes:
  "fold (process_byte an now) bs (c, out, es) = (c', out', es') \<Longrightarrow>
     \<exists>w. out' = out @ w \<and> consumes an c bs w c'"
proof (induction bs arbitrary: c out es)
  case (Cons b bs)
  show ?case
  proof (cases "suppresses c b")
    case True
    then have "fold (process_byte an now) bs (c, out, es) = (c', out', es')"
      using Cons(2) by (simp only: fold.simps o_apply process_byte_split if_True)
    then show ?thesis using Cons(1) consumes_suppressed [OF True] by blast
  next
    case False
    obtain c1 o1 e1 where d: "drain_stream_pending an now False (push_byte c b) out es = (c1, o1, e1)"
      by (cases "drain_stream_pending an now False (push_byte c b) out es")
    obtain w1 where w1: "o1 = out @ w1" "drains an False (push_byte c b) w1 c1"
      using drain_drains [OF d] by blast
    have "fold (process_byte an now) bs (c1, o1, e1) = (c', out', es')"
      using Cons(2) False d by (simp only: fold.simps o_apply process_byte_split if_False)
    then obtain w2 where "out' = o1 @ w2" "consumes an c1 bs w2 c'" using Cons(1) by blast
    then show ?thesis using w1 False consumes_byte by (intro exI [of _ "w1 @ w2"]) simp
  qed
qed (auto intro: consumes_nil)

lemma consumes_append:
  "consumes an c a w1 c1 \<Longrightarrow> consumes an c1 b w2 c2 \<Longrightarrow> consumes an c (a @ b) (w1 @ w2) c2"
  by (induction rule: consumes.induct) (auto intro: consumes.intros)

lemma consumes_unique:
  "consumes an c bs w c' \<Longrightarrow> consumes an c bs w2 c2' \<Longrightarrow> w2 = w \<and> c2' = c'"
proof (induction arbitrary: w2 c2' rule: consumes.induct)
  case (consumes_nil c)
  then show ?case by cases simp_all
next
  case (consumes_suppressed c b bs w c')
  note sup = consumes_suppressed.hyps(1) and IH = consumes_suppressed.IH
  from consumes_suppressed.prems show ?case
  proof cases
    case consumes_suppressed
    then show ?thesis using IH by simp
  qed (use sup in simp)
next
  case (consumes_byte c b w1 c1 bs w2 c2)
  note outer = consumes_byte.hyps(2) and IH = consumes_byte.IH
  from consumes_byte.prems show ?case
  proof cases
    case (consumes_byte p1 d1 p2)
    have "p1 = w1 \<and> d1 = c1" by (rule drains_unique [OF outer consumes_byte(3)])
    then show ?thesis using consumes_byte(1,4) IH by simp
  qed (use consumes_byte.hyps(1) in simp)
qed

subsection \<open>One round\<close>

definition markers :: "string set" where
  "markers = insert vault_marker ((\<lambda>spec. redaction (fs_label spec)) ` set FORMAT_SPECS)"

text \<open>What must not begin at a byte that is written.\<close>

definition begins_nothing :: "vault_values \<Rightarrow> string \<Rightarrow> bool" where
  "begins_nothing vs t \<longleftrightarrow>
     (\<forall>(v, _) \<in> set vs. v = [] \<or> \<not> starts_with t v)
     \<and> (\<forall>spec \<in> set FORMAT_SPECS. complete_prefix_len spec t = None)"

lemma drain_round_cases:
  assumes "\<not> drain_stops an fin c" and "drain_round an fin c = (o1, c1, go)"
  obtains (marker) n where "o1 \<in> markers" "pending c1 = drop n (pending c)"
      "go \<Longrightarrow> c1 = c\<lparr>pending := drop n (pending c)\<rparr>"
      "\<not> go \<Longrightarrow> pending c1 = [] \<and> \<not> fin \<and> (\<exists>i < length FORMAT_SPECS. suppressing c1 = Some i
        \<and> suppression_prefix c1 = take (minimum_match_len (FORMAT_SPECS ! i)) (pending c)
        \<and> minimum_match_len (FORMAT_SPECS ! i) \<le> length (pending c))"
  | (byte) "go" "pending c \<noteq> []" "o1 = [hd (pending c)]" "c1 = c\<lparr>pending := tl (pending c)\<rparr>"
      "fin \<or> \<not> is_managed_prefix an (pending c)" "managed_prefix_match an (pending c) = None"
      "first_complete (pending c) = None" "fin \<or> \<not> any_incomplete (pending c)"
proof -
  have ne: "pending c \<noteq> []" "fin \<or> \<not> is_managed_prefix an (pending c)"
    using assms(1) by (auto simp: drain_stops_def)
  show thesis
  proof (cases "managed_exact_name an (pending c) = None")
    case False
    then show thesis using assms(2)
      by (intro marker [of "length (pending c)"]) (auto simp: drain_round_def markers_def)
  next
    case exact: True
    show thesis
    proof (cases "managed_prefix_match an (pending c)")
      case (Some r)
      then show thesis using assms(2) exact
        by (intro marker [of "fst r"]) (auto simp: drain_round_def markers_def split: prod.splits)
    next
      case pre: None
      show thesis
      proof (cases "first_complete (pending c)")
        case None
        then show thesis using assms exact pre ne
          by (intro byte) (auto simp: drain_round_def drain_stops_def drop_Suc)
      next
        case (Some r)
        obtain i n where r: "r = (i, n)" by (cases r)
        note f = first_complete_Some [OF Some [unfolded r]]
        have "minimum_match_len (FORMAT_SPECS ! i) \<le> length (pending c)"
          using complete_bounds(1) [OF f(2)] f(4) by simp
        then show thesis using assms(2) exact pre Some f
          by (intro marker [of n])
            (auto simp: drain_round_def markers_def r Let_def split: if_splits)
      qed
    qed
  qed
qed

text \<open>A byte is only written when nothing can begin there, whatever follows.\<close>

lemma byte_begins_nothing:
  assumes "pending c \<noteq> []" and "fin \<or> \<not> is_managed_prefix an (pending c)"
    and "managed_prefix_match an (pending c) = None" and "first_complete (pending c) = None"
    and "fin \<or> \<not> any_incomplete (pending c)" and "fin \<Longrightarrow> input = []"
  shows "begins_nothing (vault_values an) (pending c @ input)"
  unfolding begins_nothing_def
proof (intro conjI ballI)
  fix vn assume vn: "vn \<in> set (vault_values an)"
  obtain v n where [simp]: "vn = (v, n)" by (cases vn)
  have "v = [] \<or> \<not> starts_with (pending c @ input) v"
  proof (rule ccontr)
    assume "\<not> ?thesis"
    then have v: "v \<noteq> []" "starts_with (pending c @ input) v" by auto
    have "\<not> starts_with (pending c) v" using assms(3) vn v(1) by (auto simp: managed_prefix_match_None)
    then have longer: "length (pending c) < length v"
      using v(2) prefix_length_prefix [of v "pending c @ input" "pending c"] by fastforce
    then have "\<not> fin" using assms(6) v(2) prefix_length_le by fastforce
    moreover have "starts_with v (pending c)"
      using v(2) longer prefix_length_prefix [of "pending c" "pending c @ input" v] by simp
    then have "is_managed_prefix an (pending c)"
      using vn longer assms(1) by (auto simp: is_managed_prefix_def list_ex_iff intro!: bexI [of _ vn])
    ultimately show False using assms(2) by simp
  qed
  then show "case vn of (v, _) \<Rightarrow> v = [] \<or> \<not> starts_with (pending c @ input) v" by simp
next
  fix spec assume spec: "spec \<in> set FORMAT_SPECS"
  have none: "complete_prefix_len spec (pending c) = None"
    using assms(4) spec by (simp add: first_complete_None)
  show "complete_prefix_len spec (pending c @ input) = None"
  proof (rule ccontr)
    assume some: "complete_prefix_len spec (pending c @ input) \<noteq> None"
    then have "is_incomplete_prefix spec (pending c)" using viable_is_incomplete [OF none] by blast
    then have "any_incomplete (pending c)" using spec by (auto simp: any_incomplete_def list_ex_iff)
    then show False using assms(5,6) none some by auto
  qed
qed

subsection \<open>The carry between two bytes\<close>

text \<open>What the exact stage holds back: a candidate that is still open, or the shortest credential
  of the format whose continuation is being suppressed.\<close>

definition carry_inv :: "leak_analyzer \<Rightarrow> carry \<Rightarrow> bool" where
  "carry_inv an c \<longleftrightarrow>
     (case suppressing c of
        None \<Rightarrow> suppression_prefix c = []
          \<and> (pending c = [] \<or> is_managed_prefix an (pending c) \<or> any_incomplete (pending c))
      | Some i \<Rightarrow> i < length FORMAT_SPECS \<and> pending c = []
          \<and> length (suppression_prefix c) = minimum_match_len (FORMAT_SPECS ! i))"

lemma drains_inv:
  assumes "drains an fin c w c'" and "suppressing c = None" and "suppression_prefix c = []"
  shows "carry_inv an c'" and "fin \<Longrightarrow> pending c' = [] \<and> suppressing c' = None"
proof -
  have "carry_inv an c' \<and> (fin \<longrightarrow> pending c' = [] \<and> suppressing c' = None)"
    using assms
  proof (induction rule: drains.induct)
    case (drains_stop c)
    then show ?case by (auto simp: carry_inv_def drain_stops_def)
  next
    case (drains_go c o1 c1 o2 c2)
    from drains_go.hyps(1,2) have "suppressing c1 = None \<and> suppression_prefix c1 = []"
      by (cases rule: drain_round_cases) (use drains_go.prems in simp_all)
    then show ?case using drains_go.IH by simp
  next
    case (drains_halt c o1 c1)
    from drains_halt.hyps show ?case
      by (cases rule: drain_round_cases) (auto simp: carry_inv_def)
  qed
  then show "carry_inv an c'" "fin \<Longrightarrow> pending c' = [] \<and> suppressing c' = None" by auto
qed

lemma push_byte_fields:
  "suppressing (push_byte c b) = None"
  "carry_inv an c \<Longrightarrow> suppression_prefix (push_byte c b) = []"
  "pending (push_byte c b) = pending c @ [b]"
  by (auto simp: push_byte_def Let_def clear_suppression_def carry_inv_def)

lemma consumes_inv:
  "consumes an c bs w c' \<Longrightarrow> carry_inv an c \<Longrightarrow> carry_inv an c'"
proof (induction rule: consumes.induct)
  case (consumes_byte c b w1 c1 bs w2 c2)
  then show ?case using drains_inv(1) [OF consumes_byte.hyps(2)] by (simp add: push_byte_fields)
qed simp_all

lemma carry_inv_new: "carry_inv an (exact scrub_state_new)"
  by (simp add: carry_inv_def scrub_state_new_def with_carry_def)

subsection \<open>The contract\<close>

text \<open>The rest of the output redacts what the carry holds followed by the rest of the input; while a
  credential is suppressed, its first bytes may be gone.\<close>

definition continues :: "leak_analyzer \<Rightarrow> carry \<Rightarrow> string \<Rightarrow> string \<Rightarrow> bool" where
  "continues an c input r \<longleftrightarrow>
     (if suppressing c = None
      then redacted markers (begins_nothing (vault_values an)) (pending c @ input) r
      else pending c = [] \<and>
        (\<exists>x y. input = x @ y \<and> redacted markers (begins_nothing (vault_values an)) y r))"

lemma drains_redacted:
  assumes "drains an fin c w c'" and "suppressing c = None" and "fin \<Longrightarrow> input = []"
    and "continues an c' input r"
  shows "redacted markers (begins_nothing (vault_values an)) (pending c @ input) (w @ r)"
  using assms
proof (induction rule: drains.induct)
  case (drains_stop c)
  then show ?case by (simp add: continues_def)
next
  case (drains_go c o1 c1 o2 c2)
  let ?red = "redacted markers (begins_nothing (vault_values an))"
  from drains_go.hyps(1,2) show ?case
  proof (cases rule: drain_round_cases)
    case (marker n)
    then have "?red (drop n (pending c) @ input) (o2 @ r)"
      using drains_go.IH drains_go.prems by simp
    then have "?red (take n (pending c) @ (drop n (pending c) @ input)) (o1 @ (o2 @ r))"
      by (rule red_mark [OF marker(1)])
    then show ?thesis by (simp flip: append_assoc)
  next
    case byte
    have "?red (tl (pending c) @ input) (o2 @ r)"
      using drains_go.IH drains_go.prems byte by simp
    moreover have "begins_nothing (vault_values an) (pending c @ input)"
      using byte drains_go.prems(2) by (intro byte_begins_nothing [of _ fin]) auto
    ultimately show ?thesis using byte(2,3) red_keep [of _ "hd (pending c)" "tl (pending c) @ input"]
      by (cases "pending c") auto
  qed
next
  case (drains_halt c o1 c1)
  let ?red = "redacted markers (begins_nothing (vault_values an))"
  from drains_halt.hyps show ?case
  proof (cases rule: drain_round_cases)
    case (marker n)
    then obtain x y where xy: "input = x @ y" "?red y r"
      using drains_halt.prems(3) by (auto simp: continues_def)
    have "?red ((pending c @ x) @ y) (o1 @ r)" by (rule red_mark [OF marker(1) xy(2)])
    then show ?thesis by (simp add: xy(1))
  qed simp
qed

lemma consumes_redacted:
  assumes "consumes an c bs w c'" and "carry_inv an c" and "continues an c' input r"
  shows "continues an c (bs @ input) (w @ r)"
  using assms
proof (induction rule: consumes.induct)
  case (consumes_suppressed c b bs w c')
  then have "continues an c (bs @ input) (w @ r)" "suppressing c \<noteq> None"
    by (auto simp: suppresses_def split: option.splits)
  then obtain x y where xy: "pending c = []" "bs @ input = x @ y"
    "redacted markers (begins_nothing (vault_values an)) y (w @ r)"
    by (auto simp: continues_def)
  then have "(b # bs) @ input = (b # x) @ y" by simp
  with xy(3) have "\<exists>x y. (b # bs) @ input = x @ y
      \<and> redacted markers (begins_nothing (vault_values an)) y (w @ r)" by blast
  then show ?case using xy(1) \<open>suppressing c \<noteq> None\<close> by (simp only: continues_def if_False simp_thms)
next
  case (consumes_byte c b w1 c1 bs w2 c2)
  have "carry_inv an c1"
    using drains_inv(1) [OF consumes_byte.hyps(2)] consumes_byte.prems by (simp add: push_byte_fields)
  then have "continues an c1 (bs @ input) (w2 @ r)" using consumes_byte.IH consumes_byte.prems by simp
  then have "redacted markers (begins_nothing (vault_values an))
      (pending (push_byte c b) @ (bs @ input)) (w1 @ (w2 @ r))"
    by (intro drains_redacted [OF consumes_byte.hyps(2)]) (auto simp: push_byte_fields)
  then have red: "redacted markers (begins_nothing (vault_values an))
      (pending c @ ((b # bs) @ input)) ((w1 @ w2) @ r)" by (simp add: push_byte_fields)
  show ?case
  proof (cases "suppressing c = None")
    case False
    then have "pending c = []" using consumes_byte.prems(1) by (auto simp: carry_inv_def)
    moreover from this have "\<exists>x y. (b # bs) @ input = x @ y
        \<and> redacted markers (begins_nothing (vault_values an)) y ((w1 @ w2) @ r)"
      using red by (intro exI [of _ "[]"] exI [of _ "(b # bs) @ input"]) simp
    ultimately show ?thesis using False by (simp only: continues_def if_False simp_thms)
  qed (use red in \<open>simp add: continues_def\<close>)
qed simp

text \<open>The text the exact stage writes for a whole body.\<close>

inductive exact_body :: "leak_analyzer \<Rightarrow> string \<Rightarrow> string \<Rightarrow> bool" for an where
  "consumes an (exact scrub_state_new) body w1 c1 \<Longrightarrow>
     drains an True (clear_suppression c1) w2 c2 \<Longrightarrow> exact_body an body (w1 @ w2)"

lemma exact_body_unique:
  assumes "exact_body an body e" and "exact_body an body e'"
  shows "e' = e"
proof -
  obtain w1 c1 w2 c2 where e: "e = w1 @ w2" "consumes an (exact scrub_state_new) body w1 c1"
    "drains an True (clear_suppression c1) w2 c2"
    using assms(1) by (auto elim: exact_body.cases)
  obtain x1 d1 x2 d2 where e': "e' = x1 @ x2" "consumes an (exact scrub_state_new) body x1 d1"
    "drains an True (clear_suppression d1) x2 d2"
    using assms(2) by (auto elim: exact_body.cases)
  have "x1 = w1 \<and> d1 = c1" by (rule consumes_unique [OF e(2) e'(2)])
  moreover from this have "x2 = w2 \<and> d2 = c2" using drains_unique [OF e(3)] e'(3) by simp
  ultimately show ?thesis using e(1) e'(1) by simp
qed

lemma exact_body_redacted:
  assumes "exact_body an body e"
  shows "redacted markers (begins_nothing (vault_values an)) body e"
proof -
  obtain w1 c1 w2 c2 where e: "e = w1 @ w2" "consumes an (exact scrub_state_new) body w1 c1"
    "drains an True (clear_suppression c1) w2 c2"
    using assms by (auto elim: exact_body.cases)
  have "carry_inv an c1" using consumes_inv [OF e(2) carry_inv_new] .
  moreover have clear: "suppressing (clear_suppression c1) = None"
    "suppression_prefix (clear_suppression c1) = []" "pending (clear_suppression c1) = pending c1"
    by (simp_all add: clear_suppression_def)
  moreover have "continues an c2 [] []"
    using drains_inv(2) [OF e(3)] clear by (simp add: continues_def red_nil)
  then have "redacted markers (begins_nothing (vault_values an)) (pending c1) w2"
    using drains_redacted [OF e(3), of "[]" "[]"] clear by simp
  ultimately have "continues an c1 [] w2"
    by (auto simp: continues_def carry_inv_def split: option.splits)
  then have "continues an (exact scrub_state_new) body e"
    using consumes_redacted [OF e(2) carry_inv_new] e(1) by fastforce
  then show ?thesis by (simp add: continues_def scrub_state_new_def with_carry_def)
qed

subsection \<open>What is retained\<close>

lemma fold_max_ge: "x \<in> set xs \<Longrightarrow> g x \<le> fold (\<lambda>x m. max m (g x)) xs (b :: nat)"
proof (induction xs arbitrary: b)
  case (Cons y xs)
  have "b \<le> fold (\<lambda>x m. max m (g x)) xs b" for b
  proof (induction xs arbitrary: b)
    case (Cons z zs)
    have "b \<le> max b (g z)" by simp
    also have "\<dots> \<le> fold (\<lambda>x m. max m (g x)) zs (max b (g z))" by (rule Cons)
    finally show ?case by simp
  qed simp
  from this [of "max b (g y)"] have "g y \<le> fold (\<lambda>x m. max m (g x)) (y # xs) b" by simp
  then show ?case using Cons by auto
qed simp

lemma carry_bounded:
  assumes "carry_inv an c"
  shows "length (pending c) + length (suppression_prefix c)
    \<le> max (max_managed_value_len an - 1) (fold (\<lambda>spec m. max m (minimum_match_len spec)) FORMAT_SPECS 0)"
    (is "_ \<le> max ?m ?u")
proof (cases "suppressing c")
  case (Some i)
  then show ?thesis using assms fold_max_ge [of "FORMAT_SPECS ! i" FORMAT_SPECS minimum_match_len 0]
    by (auto simp: carry_inv_def)
next
  case None
  have "length (pending c) \<le> ?m" if "is_managed_prefix an (pending c)"
  proof -
    obtain v n where v: "(v, n) \<in> set (vault_values an)" "length (pending c) < length v"
      using \<open>is_managed_prefix an (pending c)\<close> by (auto simp: is_managed_prefix_def list_ex_iff)
    have "max_managed_value_len an = fold (\<lambda>x m. max m (length (fst x))) (vault_values an) 0"
      unfolding max_managed_value_len_def by (rule arg_cong [of _ _ "\<lambda>f. fold f _ _"]) (auto simp: fun_eq_iff)
    then have "length v \<le> max_managed_value_len an"
      using fold_max_ge [OF v(1), of "\<lambda>x. length (fst x)" 0] by simp
    then show ?thesis using v(2) by simp
  qed
  moreover have "length (pending c) \<le> ?u" if "any_incomplete (pending c)"
  proof -
    obtain spec where s: "spec \<in> set FORMAT_SPECS" "is_incomplete_prefix spec (pending c)"
      using \<open>any_incomplete (pending c)\<close> by (auto simp: any_incomplete_def list_ex_iff)
    then show ?thesis using incomplete_len [OF s(2) spec_in_catalog [OF s(1)]]
        fold_max_ge [OF s(1), of minimum_match_len 0] by linarith
  qed
  ultimately show ?thesis using assms None by (auto simp: carry_inv_def)
qed

end
