(* ===== verification/Stream_Partial.thy ===== *)
theory Stream_Partial
  imports Stream_Scrubber
begin

text \<open>
  The partial stage against its specification.  The locale \<open>run_finder\<close> is what the stage relies on:
  runs that cover exactly the windows a text hits, and a hold point that no unfinished window
  precedes.  Under these laws the stage, fed in any pieces, writes byte by byte what \<open>emit\<close> says of
  the whole text: a marker where a marked stretch begins, nothing inside it, the byte elsewhere.
\<close>

definition mark :: "(string \<Rightarrow> nat \<Rightarrow> bool) \<Rightarrow> nat \<Rightarrow> string \<Rightarrow> nat \<Rightarrow> bool" where
  "mark hits w t p \<longleftrightarrow> (\<exists>s. hits t s \<and> s \<le> p \<and> p < s + w)"

definition emit :: "(nat \<Rightarrow> bool) \<Rightarrow> bool \<Rightarrow> string \<Rightarrow> nat \<Rightarrow> string" where
  "emit marked first t p =
     (if marked p then (if (if p = 0 then first else marked (p - 1)) then [] else vault_marker)
      else [t ! p])"

definition emits :: "(nat \<Rightarrow> bool) \<Rightarrow> bool \<Rightarrow> string \<Rightarrow> nat \<Rightarrow> nat \<Rightarrow> string" where
  "emits marked first t a b = concat (map (emit marked first t) [a..<b])"

lemma emits_split: "a \<le> b \<Longrightarrow> b \<le> c \<Longrightarrow>
    emits marked first t a c = emits marked first t a b @ emits marked first t b c"
  using upt_add_eq_append [of a b "c - b"] by (simp add: emits_def)

lemma emits_empty [simp]: "emits marked first t a a = []"
  by (simp add: emits_def)

lemma emits_plain:
  assumes "\<forall>p. a \<le> p \<longrightarrow> p < b \<longrightarrow> \<not> marked p" and "b \<le> length t"
  shows "emits marked first t a b = slice a b t"
proof (cases "a \<le> b")
  case True
  have "emits marked first t a b = map ((!) t) [a..<b]"
    using assms(1) by (induction b) (auto simp: emits_def emit_def)
  also have "\<dots> = slice a b t"
    using assms(2) True by (intro nth_equalityI) (auto simp: slice_def)
  finally show ?thesis .
qed (simp add: emits_def slice_def)

lemma emits_inside:
  assumes "\<forall>p. a \<le> p \<longrightarrow> p < b \<longrightarrow> marked p \<and> p \<noteq> 0 \<and> marked (p - 1)"
  shows "emits marked first t a b = []"
  using assms by (induction b) (auto simp: emits_def emit_def)

lemma emits_cong:
  assumes "\<And>p. a \<le> p \<Longrightarrow> p < b \<Longrightarrow> emit marked first t p = emit marked' first' t' p"
  shows "emits marked first t a b = emits marked' first' t' a b"
proof -
  have "map (emit marked first t) [a..<b] = map (emit marked' first' t') [a..<b]"
    by (rule map_cong) (auto intro: assms)
  then show ?thesis by (simp only: emits_def)
qed

subsection \<open>The loop over the runs\<close>

text \<open>What the loop has done when it stood at its cursor, and when it stops.\<close>

lemma stage_runs_emits:
  assumes "separated runs" and "ends_upto (length buf) runs" and "n \<le> length buf"
    and "sl_cursor l \<le> n" and "\<forall>(s, _, _) \<in> set runs. sl_cursor l < s \<or> sl_cursor l = 0 \<and> s = 0"
    and "\<And>q. sl_cursor l \<le> q \<Longrightarrow> q < n \<Longrightarrow> marked q \<longleftrightarrow> covered runs q"
    and "sl_last_marked l \<longleftrightarrow> 0 < sl_cursor l \<and> sl_cursor l = n"
    and "l' = stage_runs an now buf n in_run runs l"
  shows "sl_cursor l \<le> sl_cursor l' \<and> sl_cursor l' \<le> n
    \<and> sl_output l' @ slice (sl_cursor l') n buf
        = sl_output l @ emits marked in_run buf (sl_cursor l) n
    \<and> (\<forall>q. sl_cursor l' \<le> q \<longrightarrow> q < n \<longrightarrow> \<not> marked q)
    \<and> (sl_last_marked l' \<longleftrightarrow> 0 < sl_cursor l' \<and> sl_cursor l' = n)
    \<and> (sl_cursor l < sl_cursor l' \<longrightarrow> sl_cursor l' = n \<longrightarrow> marked (n - 1))"
  using assms
proof (induction runs arbitrary: l)
  case Nil
  then show ?case by (simp add: emits_plain)
next
  case (Cons r runs)
  obtain s e i where r: "r = (s, e, i)" by (cases r)
  have sep: "s < e" "separated runs" "\<forall>(s', _, _) \<in> set runs. e < s'"
    using Cons(2) by (auto simp: r separated_Cons)
  have ends: "e \<le> length buf" "ends_upto (length buf) runs"
    using Cons(3) by (auto simp: r ends_upto_def)
  have start: "sl_cursor l < s \<or> sl_cursor l = 0 \<and> s = 0" using Cons(6) by (auto simp: r)
  then have cs: "sl_cursor l \<le> s" by auto
  have cov: "marked q \<longleftrightarrow> s \<le> q \<and> q < e \<or> covered runs q" if "sl_cursor l \<le> q" "q < n" for q
    using Cons(7) [OF that] by (simp add: r)
  have before: "\<not> covered runs q" if "q \<le> e" for q using covered_after [OF sep(3), of q] that by auto
  have free: "\<not> marked q" if "sl_cursor l \<le> q" "q < s" "q < n" for q
    using that cov [of q] before [of q] sep(1) by auto
  show ?case
  proof (cases "n \<le> s")
    case True
    then show ?thesis using Cons(4,5,8,9) free by (auto simp: r emits_plain)
  next
    case False
    define marked_now where "marked_now = (\<not> (s = 0 \<and> in_run))"
    define l1 where "l1 = \<lparr>sl_output = (if marked_now
          then (sl_output l @ slice (sl_cursor l) s buf) @ ''[REDACTED:vault-secret]''
          else sl_output l @ slice (sl_cursor l) s buf),
        sl_cursor = min e n,
        sl_carried = (if n < e then (e - n, i) else sl_carried l),
        sl_last_marked = (n \<le> e),
        sl_events = (if marked_now then record_partial_event now (vault_name an i) (sl_events l)
          else sl_events l)\<rparr>"
    have l': "l' = stage_runs an now buf n in_run runs l1"
      using Cons(9) False by (simp add: r Let_def l1_def marked_now_def)
    have c1: "sl_cursor l1 = min e n" by (simp add: l1_def)
    have IH: "sl_cursor l1 \<le> sl_cursor l' \<and> sl_cursor l' \<le> n
      \<and> sl_output l' @ slice (sl_cursor l') n buf
          = sl_output l1 @ emits marked in_run buf (sl_cursor l1) n
      \<and> (\<forall>q. sl_cursor l' \<le> q \<longrightarrow> q < n \<longrightarrow> \<not> marked q)
      \<and> (sl_last_marked l' \<longleftrightarrow> 0 < sl_cursor l' \<and> sl_cursor l' = n)
      \<and> (sl_cursor l1 < sl_cursor l' \<longrightarrow> sl_cursor l' = n \<longrightarrow> marked (n - 1))"
    proof (rule Cons(1) [OF sep(2) ends(2) Cons(4) _ _ _ _ l'])
      show "sl_cursor l1 \<le> n" by (simp add: c1)
      show "\<forall>(s', _, _) \<in> set runs. sl_cursor l1 < s' \<or> sl_cursor l1 = 0 \<and> s' = 0"
        using sep(3) by (auto simp: c1)
      show "marked q \<longleftrightarrow> covered runs q" if "sl_cursor l1 \<le> q" "q < n" for q
        using that cov [of q] sep(1) cs by (auto simp: c1)
      show "sl_last_marked l1 \<longleftrightarrow> 0 < sl_cursor l1 \<and> sl_cursor l1 = n"
        using sep(1) False by (auto simp: l1_def)
    qed
    have at: "marked q" if "s \<le> q" "q < e" "q < n" for q using that cov [of q] cs by auto
    have "emits marked in_run buf (sl_cursor l) s = slice (sl_cursor l) s buf"
      using free False Cons(4) by (intro emits_plain) auto
    moreover have "\<not> marked (s - 1)" if "s \<noteq> 0"
      using free [of "s - 1"] start False that by (cases s) auto
    then have "emits marked in_run buf s (s + 1) = (if marked_now then vault_marker else [])"
      using at [of s] sep(1) False by (auto simp: emits_def emit_def marked_now_def)
    moreover have "emits marked in_run buf (s + 1) (min e n) = []"
      using at by (intro emits_inside) auto
    moreover have "emits marked in_run buf (sl_cursor l) n
        = emits marked in_run buf (sl_cursor l) s @ emits marked in_run buf s (s + 1)
          @ emits marked in_run buf (s + 1) (min e n) @ emits marked in_run buf (min e n) n"
      using emits_split [of "sl_cursor l" s n] emits_split [of s "s + 1" n]
        emits_split [of "s + 1" "min e n" n] cs False sep(1) by simp
    ultimately have out: "sl_output l @ emits marked in_run buf (sl_cursor l) n
        = sl_output l1 @ emits marked in_run buf (sl_cursor l1) n"
      by (simp add: l1_def redaction_def)
    have "marked (n - 1)" if "sl_cursor l' = n"
    proof (cases "sl_cursor l1 < sl_cursor l'")
      case False
      then have "n \<le> e" using IH that by (simp add: c1)
      then show ?thesis using at [of "n - 1"] \<open>\<not> n \<le> s\<close> by simp
    qed (use IH that in simp)
    then show ?thesis using IH out cs c1 sep(1) False by auto
  qed
qed

lemma stage_runs_stop:
  "\<forall>(s, _, _) \<in> set runs. n \<le> s \<Longrightarrow> stage_runs an now buf n in_run runs l = l"
  by (cases runs) auto

lemma stage_runs_carried:
  assumes "separated runs"
  shows "sl_carried (stage_runs an now buf n in_run runs l)
    = (case find (\<lambda>(s, e, _). s < n \<and> n < e) runs of
         Some (_, e, i) \<Rightarrow> (e - n, i) | None \<Rightarrow> sl_carried l)"
  using assms
proof (induction runs arbitrary: l)
  case (Cons r runs)
  obtain s e i where r: "r = (s, e, i)" by (cases r)
  have sep: "separated runs" "\<forall>(s', _, _) \<in> set runs. e < s'" "s < e"
    using Cons(2) by (auto simp: r separated_Cons)
  show ?case
  proof (cases "s < n \<and> n < e")
    case True
    then have "\<forall>(s', _, _) \<in> set runs. n \<le> s'" using sep(2) by auto
    then show ?thesis using True by (simp add: r Let_def stage_runs_stop)
  next
    case False
    have "find (\<lambda>(s, e, _). s < n \<and> n < e) runs = None" if "n \<le> s"
      using that sep by (auto simp: find_None_iff)
    then show ?thesis using False Cons(1) [OF sep(1)]
      by (auto simp: r Let_def split: option.split)
  qed
qed simp

subsection \<open>Merging runs\<close>

lemma fold_push_run:
  assumes "separated acc" and "separated runs" and "ends_upto n acc" and "ends_upto n runs"
    and "\<forall>(s, _, _) \<in> set runs. starts_upto s acc"
  shows "separated (fold push_run runs acc) \<and> ends_upto n (fold push_run runs acc)
    \<and> (\<forall>p. covered (fold push_run runs acc) p \<longleftrightarrow> covered acc p \<or> covered runs p)"
  using assms
proof (induction runs arbitrary: acc)
  case (Cons r runs)
  obtain s e i where r: "r = (s, e, i)" by (cases r)
  have sep: "separated runs" "\<forall>(s', _, _) \<in> set runs. e < s'" "s < e"
    using Cons(3) by (auto simp: r separated_Cons)
  have up: "starts_upto s acc" and e: "e \<le> n" "ends_upto n runs"
    using Cons(5,6) by (auto simp: r ends_upto_def)
  note p = push_run [OF Cons(2) up sep(3), where i = i]
  have "\<forall>(s', _, _) \<in> set runs. starts_upto s' (push_run (s, e, i) acc)"
    using p(3) sep(2,3) by (fastforce simp: starts_upto_def)
  from Cons(1) [OF p(1) sep(1) p(4) [OF Cons(4) e(1)] e(2) this]
  show ?case by (simp add: r p(2) disj_assoc del: push_run.simps)
qed simp

lemma covered_stretch:
  assumes "separated runs" and "a < b" and "\<And>q. a \<le> q \<Longrightarrow> q < b \<Longrightarrow> covered runs q"
  shows "\<exists>(s, e, i) \<in> set runs. s \<le> a \<and> b \<le> e"
  using assms
proof (induction runs)
  case Nil
  then show ?case by (metis covered_simps(1) order_refl)
next
  case (Cons r runs)
  obtain s e i where r: "r = (s, e, i)" by (cases r)
  have sep: "separated runs" "\<forall>(s', _, _) \<in> set runs. e < s'" "s < e"
    using Cons(2) by (auto simp: r separated_Cons)
  have later: "e < q" if "covered runs q" for q using covered_after [OF sep(2) that] .
  show ?case
  proof (cases "s \<le> a \<and> a < e")
    case True
    have "b \<le> e"
    proof (rule ccontr)
      assume "\<not> b \<le> e"
      then have "covered (r # runs) e" using True by (intro Cons(4)) auto
      then show False using later [of e] by (auto simp: r)
    qed
    then show ?thesis using True by (auto simp: r)
  next
    case False
    have "covered runs a" using Cons(4) [of a] Cons(3) False by (auto simp: r)
    then have "e < a" using later by blast
    then have "covered runs q" if "a \<le> q" "q < b" for q using Cons(4) [OF that] that by (auto simp: r)
    then show ?thesis using Cons(1) [OF sep(1) Cons(3)] by auto
  qed
qed

lemma find_run:
  assumes "separated runs" and "(s, e, i) \<in> set runs" and "s < n" and "n < e"
  shows "find (\<lambda>(s, e, _). s < n \<and> n < e) runs = Some (s, e, i)"
  using assms
proof (induction runs)
  case (Cons r runs)
  obtain s' e' i' where r: "r = (s', e', i')" by (cases r)
  have "(s, e, i) \<in> set runs \<Longrightarrow> e' < n" using Cons(2,4) by (auto simp: r separated_Cons)
  then show ?case using Cons by (auto simp: r separated_Cons)
qed simp

subsection \<open>The stage under its laws\<close>

text \<open>
  \<open>X\<close> is what the stage was given so far, \<open>f\<close> how much of it is final.  The tail is the rest, the
  marks it carries are those of windows that began before \<open>f\<close>, and no such window can still come.
\<close>

definition stage_inv ::
  "(string \<Rightarrow> nat \<Rightarrow> bool) \<Rightarrow> nat \<Rightarrow> string \<Rightarrow> nat \<Rightarrow> scrub_state \<Rightarrow> bool" where
  "stage_inv hits w X f st \<longleftrightarrow>
     f \<le> length X \<and> partial_tail st = drop f X \<and> length X - f < w
     \<and> f + partial_tail_marked st \<le> length X
     \<and> (\<forall>p. f \<le> p \<longrightarrow> p < f + partial_tail_marked st \<longrightarrow> mark hits w X p)
     \<and> (\<forall>Y s. hits (X @ Y) s \<longrightarrow> s < f \<longrightarrow> s + w \<le> f + partial_tail_marked st)
     \<and> (partial_in_run st \<longleftrightarrow> 0 < f \<and> mark hits w X (f - 1))"

locale run_finder =
  fixes width :: nat
    and hits :: "string \<Rightarrow> nat \<Rightarrow> bool"
    and runs_of :: "string \<Rightarrow> run list"
    and hold :: "string \<Rightarrow> nat"
  assumes width_pos: "0 < width"
    and hits_append: "s + width \<le> length t \<Longrightarrow> hits (t @ u) s = hits t s"
    and hits_fit: "hits t s \<Longrightarrow> s + width \<le> length t"
    and hits_shift: "hits (u @ t) (length u + s) = hits t s"
    and runs_separated: "separated (runs_of t)"
    and runs_ends: "ends_upto (length t) (runs_of t)"
    and runs_covered: "covered (runs_of t) p \<longleftrightarrow> mark hits width t p"
    and hold_le: "hold t \<le> length t"
    and hold_tail: "length t - hold t < width"
    and hold_final: "j < hold t \<Longrightarrow> hits (t @ u) j \<Longrightarrow> j + width \<le> length t"
begin

lemma mark_append: "mark hits width X p \<Longrightarrow> mark hits width (X @ Y) p"
  using hits_append hits_fit unfolding mark_def by blast

lemma mark_final:
  assumes "stage_inv hits width X f st" and "p < f"
  shows "mark hits width (X @ Y) p \<longleftrightarrow> mark hits width X p"
proof
  assume "mark hits width (X @ Y) p"
  then obtain s where s: "hits (X @ Y) s" "s \<le> p" "p < s + width" by (auto simp: mark_def)
  then have "s + width \<le> length X" using assms by (fastforce simp: stage_inv_def)
  then show "mark hits width X p" using s hits_append by (auto simp: mark_def)
qed (rule mark_append)

lemma emit_final:
  assumes "stage_inv hits width X f st" and "p < f"
  shows "emit (mark hits width (X @ Y)) False (X @ Y) p = emit (mark hits width X) False X p"
proof -
  have "p < length X" using assms by (simp add: stage_inv_def)
  moreover have "mark hits width (X @ Y) (p - 1) \<longleftrightarrow> mark hits width X (p - 1)"
    using mark_final [OF assms(1), of "p - 1"] assms(2) by simp
  ultimately show ?thesis
    using mark_final [OF assms] by (simp add: emit_def nth_append)
qed

lemma all_runs:
  assumes "stage_inv hits width X f st"
    and "buf = partial_tail st @ input"
    and "all = fold push_run (runs_of buf)
      (if 0 < partial_tail_marked st then [(0, partial_tail_marked st, partial_tail_index st)] else [])"
  shows "separated all \<and> ends_upto (length buf) all
    \<and> (\<forall>q. covered all q \<longleftrightarrow> mark hits width (X @ input) (f + q))"
proof -
  let ?m = "partial_tail_marked st"
  let ?acc = "if 0 < ?m then [(0, ?m, partial_tail_index st)] else []"
  have f: "f \<le> length X" and tail: "partial_tail st = drop f X" and m: "f + ?m \<le> length X"
    and marked: "\<And>p. f \<le> p \<Longrightarrow> p < f + ?m \<Longrightarrow> mark hits width X p"
    and before: "\<And>Y s. hits (X @ Y) s \<Longrightarrow> s < f \<Longrightarrow> s + width \<le> f + ?m"
    using assms(1) by (auto simp: stage_inv_def)
  have whole: "X @ input = take f X @ buf" by (simp add: assms(2) tail)
  have shift: "hits (X @ input) (f + s) = hits buf s" for s
    using hits_shift [of "take f X" buf s] f by (simp add: whole)
  have len: "?m \<le> length buf" using m by (simp add: assms(2) tail)
  have "separated all \<and> ends_upto (length buf) all
    \<and> (\<forall>p. covered all p \<longleftrightarrow> covered ?acc p \<or> covered (runs_of buf) p)"
    unfolding assms(3)
    using len by (intro fold_push_run runs_separated runs_ends) (auto simp: runs_defs)
  moreover have "covered ?acc q \<or> covered (runs_of buf) q \<longleftrightarrow> mark hits width (X @ input) (f + q)" for q
  proof
    assume "covered ?acc q \<or> covered (runs_of buf) q"
    then show "mark hits width (X @ input) (f + q)"
    proof
      assume "covered ?acc q"
      then have "q < ?m" by (auto split: if_splits)
      then show ?thesis using mark_append [OF marked [of "f + q"]] by simp
    next
      assume "covered (runs_of buf) q"
      then obtain s where "hits buf s" "s \<le> q" "q < s + width" by (auto simp: runs_covered mark_def)
      then show ?thesis using shift [of s] unfolding mark_def by (intro exI [of _ "f + s"]) simp
    qed
  next
    assume "mark hits width (X @ input) (f + q)"
    then obtain s where s: "hits (X @ input) s" "s \<le> f + q" "f + q < s + width" by (auto simp: mark_def)
    show "covered ?acc q \<or> covered (runs_of buf) q"
    proof (cases "s < f")
      case True
      then have "q < ?m" using before [OF s(1)] s(3) by simp
      then show ?thesis by simp
    next
      case False
      then have "hits buf (s - f)" using shift [of "s - f"] s(1) by simp
      then have "mark hits width buf q" using s False unfolding mark_def by (intro exI [of _ "s - f"]) auto
      then show ?thesis by (simp add: runs_covered)
    qed
  qed
  ultimately show ?thesis by simp
qed

lemma whole_text:
  assumes "stage_inv hits width X f st" and "buf = partial_tail st @ input"
  shows "X @ input = take f X @ buf" and "length (X @ input) = f + length buf"
    and "hits ((X @ input) @ Y) (f + s) = hits (buf @ Y) s"
proof -
  show w: "X @ input = take f X @ buf" using assms by (simp add: stage_inv_def)
  show "length (X @ input) = f + length buf" using assms unfolding w by (simp add: stage_inv_def)
  have "length (take f X) = f" using assms(1) by (simp add: stage_inv_def)
  then show "hits ((X @ input) @ Y) (f + s) = hits (buf @ Y) s"
    unfolding w append_assoc using hits_shift [of "take f X" "buf @ Y" s] by simp
qed

lemma stage_output:
  assumes inv: "stage_inv hits width X f st" and buf: "buf = partial_tail st @ input"
    and all: "all = fold push_run (runs_of buf)
      (if 0 < partial_tail_marked st then [(0, partial_tail_marked st, partial_tail_index st)] else [])"
    and n: "n \<le> length buf"
    and l: "l = stage_runs an now buf n (partial_in_run st) all
      \<lparr>sl_output = [], sl_cursor = 0, sl_carried = (0, 0), sl_last_marked = False, sl_events = es\<rparr>"
  shows "(if sl_cursor l < n then sl_output l @ slice (sl_cursor l) n buf else sl_output l)
      = emits (mark hits width (X @ input)) False (X @ input) f (f + n)"
    and "0 < n \<Longrightarrow> (if sl_cursor l < n then False else sl_last_marked l)
      \<longleftrightarrow> mark hits width (X @ input) (f + n - 1)"
proof -
  let ?m = "mark hits width (X @ input)"
  note runs = all_runs [OF inv buf all]
  note w = whole_text [OF inv buf]
  have loop: "sl_cursor l \<le> n"
    "sl_output l @ slice (sl_cursor l) n buf = emits (covered all) (partial_in_run st) buf 0 n"
    "\<forall>q. sl_cursor l \<le> q \<longrightarrow> q < n \<longrightarrow> \<not> covered all q"
    "sl_last_marked l \<longleftrightarrow> 0 < sl_cursor l \<and> sl_cursor l = n"
    "0 < sl_cursor l \<Longrightarrow> sl_cursor l = n \<Longrightarrow> covered all (n - 1)"
    using stage_runs_emits [OF _ _ n _ _ _ _ l, of "covered all"] runs by auto
  have "emits (covered all) (partial_in_run st) buf 0 n = emits ?m False (X @ input) f (f + n)"
  proof -
    have "emit (covered all) (partial_in_run st) buf q = emit ?m False (X @ input) (f + q)"
      if "q < n" for q
    proof -
      have "f \<le> length X" and run: "partial_in_run st \<longleftrightarrow> 0 < f \<and> mark hits width X (f - 1)"
        using inv by (auto simp: stage_inv_def)
      then have "(X @ input) ! (f + q) = buf ! q" unfolding w(1) by (simp add: nth_append)
      moreover have "0 < f \<Longrightarrow> mark hits width X (f - 1) \<longleftrightarrow> ?m (f - 1)"
        using mark_final [OF inv, of "f - 1"] by simp
      moreover have "q \<noteq> 0 \<Longrightarrow> covered all (q - 1) \<longleftrightarrow> ?m (f + q - 1)" using runs by simp
      ultimately show ?thesis using runs run by (cases "q = 0") (auto simp: emit_def)
    qed
    then have "map (emit (covered all) (partial_in_run st) buf) [0..<n]
        = map (emit ?m False (X @ input)) (map ((+) f) [0..<n])" by simp
    also have "map ((+) f) [0..<n] = [f..<f + n]"
      using map_add_upt [of f n] by (simp add: add.commute cong: map_cong)
    finally show ?thesis by (simp only: emits_def)
  qed
  then show "(if sl_cursor l < n then sl_output l @ slice (sl_cursor l) n buf else sl_output l)
      = emits ?m False (X @ input) f (f + n)"
    using loop(1,2) by (cases "sl_cursor l = n") (auto simp: slice_def)
  assume "0 < n"
  have "(if sl_cursor l < n then False else sl_last_marked l) \<longleftrightarrow> covered all (n - 1)"
    using loop(1,3,4,5) \<open>0 < n\<close> by (cases "sl_cursor l = n") auto
  then show "(if sl_cursor l < n then False else sl_last_marked l) \<longleftrightarrow> ?m (f + n - 1)"
    using runs \<open>0 < n\<close> by (simp add: add_diff_assoc)
qed

lemma hits_final:
  assumes "stage_inv hits width X f st" and "buf = partial_tail st @ input"
    and "hits ((X @ input) @ Y) s" and "s < f + hold buf"
  shows "s + width \<le> length (X @ input)"
proof (cases "s < f")
  case True
  then show ?thesis using assms(1,3) by (fastforce simp: stage_inv_def)
next
  case False
  then have "hits (buf @ Y) (s - f)" using whole_text(3) [OF assms(1,2), of Y "s - f"] assms(3) by simp
  then have "s - f + width \<le> length buf" using hold_final [of "s - f" buf Y] assms(4) False by simp
  then show ?thesis using whole_text(2) [OF assms(1,2)] False by simp
qed

lemma stage_inv_held:
  assumes inv: "stage_inv hits width X f st" and buf: "buf = partial_tail st @ input"
    and "hold buf = 0"
  shows "stage_inv hits width (X @ input) f (st\<lparr>partial_tail := buf\<rparr>)"
proof -
  have len: "length (X @ input) = f + length buf" by (rule whole_text(2) [OF inv buf])
  have "length buf < width" using hold_tail [of buf] assms(3) by simp
  moreover have "buf = drop f (X @ input)"
    using inv whole_text(1) [OF inv buf] by (simp add: stage_inv_def)
  moreover have "0 < f \<Longrightarrow> mark hits width X (f - 1) \<longleftrightarrow> mark hits width (X @ input) (f - 1)"
    using mark_final [OF inv, of "f - 1" input] by simp
  ultimately show ?thesis
    using inv len mark_append [of X _ input] by (auto simp: stage_inv_def)
qed

lemma stage_inv_step:
  assumes inv: "stage_inv hits width X f st" and buf: "buf = partial_tail st @ input"
    and all: "all = fold push_run (runs_of buf)
      (if 0 < partial_tail_marked st then [(0, partial_tail_marked st, partial_tail_index st)] else [])"
    and n: "n = hold buf" "0 < n"
    and l: "l = stage_runs an now buf n (partial_in_run st) all
      \<lparr>sl_output = [], sl_cursor = 0, sl_carried = (0, 0), sl_last_marked = False, sl_events = es\<rparr>"
    and st': "partial_tail st' = drop n buf"
      "partial_tail_marked st' = min (fst (sl_carried l)) (length (drop n buf))"
      "partial_in_run st' = (if sl_cursor l < n then False else sl_last_marked l)"
  shows "stage_inv hits width (X @ input) (f + n) st'"
proof -
  let ?X = "X @ input" let ?m = "partial_tail_marked st'"
  note runs = all_runs [OF inv buf all]
  note w = whole_text [OF inv buf]
  have nb: "n \<le> length buf" using hold_le n by simp
  have ends: "e \<le> length buf" if "(s, e, i) \<in> set all" for s e i
    using runs that by (auto simp: ends_upto_def)
  have carried: "sl_carried l = (case find (\<lambda>(s, e, _). s < n \<and> n < e) all of
      Some (_, e, i) \<Rightarrow> (e - n, i) | None \<Rightarrow> (0, 0))"
    using runs unfolding l by (simp add: stage_runs_carried split: option.split)
  have marked: "?m = e - n" if "(s, e, i) \<in> set all" "s < n" "n < e" for s e i
    using find_run [OF _ that] runs ends [OF that(1)] by (simp add: st'(2) carried)
  have in_marked: "covered all q" if q: "n \<le> q" "q < n + ?m" for q
  proof -
    obtain s e i where "find (\<lambda>(s, e, _). s < n \<and> n < e) all = Some (s, e, i)"
      using q by (cases "find (\<lambda>(s, e, _). s < n \<and> n < e) all") (auto simp: st'(2) carried)
    then have r: "(s, e, i) \<in> set all" "s < n" "n < e" by (auto simp: find_Some_iff in_set_conv_nth)
    then have "s \<le> q" "q < e" using marked [OF r] q by auto
    then show ?thesis using r(1) unfolding covered_def by blast
  qed
  have "s + width \<le> f + n + ?m" if "hits (?X @ Y) s" "s < f + n" for Y s
  proof (rule ccontr)
    assume far: "\<not> s + width \<le> f + n + ?m"
    have fits: "s + width \<le> length ?X" using hits_final [OF inv buf that(1)] that(2) n(1) by simp
    have h: "hits ?X s" using that(1) unfolding hits_append [OF fits] .
    have "\<exists>(s0, e0, i) \<in> set all. s0 \<le> max s f - f \<and> s + width - f \<le> e0"
    proof (rule covered_stretch)
      show "separated all" using runs by simp
      show "max s f - f < s + width - f" using far width_pos by auto
      fix q assume "max s f - f \<le> q" "q < s + width - f"
      then have "mark hits width ?X (f + q)" using h unfolding mark_def by (intro exI [of _ s]) auto
      then show "covered all q" using runs by simp
    qed
    then obtain s0 e0 i where r: "(s0, e0, i) \<in> set all" "s0 \<le> max s f - f" "s + width - f \<le> e0" by auto
    then have "s0 < n" "n < e0" using that(2) n(2) far by auto
    then show False using marked [OF r(1)] r(3) far by simp
  qed
  moreover have "length ?X - (f + n) < width" using hold_tail [of buf] w(2) n(1) by simp
  moreover have "f + n + ?m \<le> length ?X" using w(2) nb by (auto simp: st'(2))
  moreover have "mark hits width ?X p" if "f + n \<le> p" "p < f + n + ?m" for p
    using in_marked [of "p - f"] runs that by auto
  moreover have "partial_tail st' = drop (f + n) ?X"
    using inv unfolding w(1) by (simp add: st'(1) stage_inv_def)
  moreover have "partial_in_run st' \<longleftrightarrow> mark hits width ?X (f + n - 1)"
    unfolding st'(3) by (rule stage_output(2) [OF inv buf all nb l n(2)])
  ultimately show ?thesis using w(2) nb n(2) by (auto simp: stage_inv_def)
qed

end

subsection \<open>The analyzer provides the laws\<close>

lemma hit_append: "s + PARTIAL_MIN_RUN \<le> length t \<Longrightarrow> hit vs (t @ u) s = hit vs t s"
  by (simp add: hit_def window_at_def)

lemma hit_shift: "hit vs (u @ t) (length u + s) = hit vs t s"
  by (simp add: hit_def window_at_def add.assoc)

interpretation windows: run_finder PARTIAL_MIN_RUN "hit vs" "partial_runs (with_partial_filter vs)"
    "partial_hold_start (with_partial_filter vs)" for vs
proof unfold_locales
  show "length t - partial_hold_start (with_partial_filter vs) t < PARTIAL_MIN_RUN" for t
    using hold_start_bounds(2) [of t "with_partial_filter vs"] by (simp add: PARTIAL_MIN_RUN_def)
  show "covered (partial_runs (with_partial_filter vs) t) p = mark (hit vs) PARTIAL_MIN_RUN t p" for t p
    by (simp add: partial_runs_covered mark_def)
  show "0 < PARTIAL_MIN_RUN" by (simp add: PARTIAL_MIN_RUN_def)
  show "j + PARTIAL_MIN_RUN \<le> length t"
    if "j < partial_hold_start (with_partial_filter vs) t" "hit vs (t @ u) j" for t u j
    using hold_start_final [OF that] .
qed (auto simp: hit_append hit_shift partial_runs_separated partial_runs_ends hold_start_bounds
  hit_def [of vs _ _, THEN iffD1])

abbreviation marks :: "vault_values \<Rightarrow> string \<Rightarrow> nat \<Rightarrow> bool" where
  "marks vs \<equiv> mark (hit vs) PARTIAL_MIN_RUN"

abbreviation stage_ok :: "vault_values \<Rightarrow> string \<Rightarrow> nat \<Rightarrow> scrub_state \<Rightarrow> bool" where
  "stage_ok vs \<equiv> stage_inv (hit vs) PARTIAL_MIN_RUN"

lemma stage_ok_new: "stage_ok vs [] 0 (with_carry p s q)"
  by (simp add: stage_inv_def with_carry_def PARTIAL_MIN_RUN_def)

lemma stage_ok_exact [simp]: "stage_ok vs X f (st\<lparr>exact := c\<rparr>) = stage_ok vs X f st"
  by (simp add: stage_inv_def)

text \<open>One call in the middle of a stream, and the last call.\<close>

lemma partial_stage_step:
  assumes an: "an = with_partial_filter vs" "has_partial_matching an"
    and inv: "stage_ok vs X f st"
    and step: "partial_stage an now st input False es = (st', out, es')"
  shows "exact st' = exact st
    \<and> (\<exists>n. stage_ok vs (X @ input) (f + n) st'
      \<and> out = emits (marks vs (X @ input)) False (X @ input) f (f + n))"
proof (cases "partial_hold_start an (partial_tail st @ input) = 0")
  case True
  then have "st' = st\<lparr>partial_tail := partial_tail st @ input\<rparr>" "out = []"
    using step an(2) by (auto simp: partial_stage_def)
  then show ?thesis
    using windows.stage_inv_held [OF inv refl, of input] True an(1)
    by (intro conjI exI [of _ 0]) simp_all
next
  case False
  define buf where "buf = partial_tail st @ input"
  define n where "n = partial_hold_start an buf"
  define l where "l = stage_runs an now buf n (partial_in_run st) (stage_all_runs an st buf)
    \<lparr>sl_output = [], sl_cursor = 0, sl_carried = (0, 0), sl_last_marked = False, sl_events = es\<rparr>"
  have pos: "0 < n" using False by (simp add: n_def buf_def)
  have res: "st' = st\<lparr>partial_in_run := (if sl_cursor l < n then False else sl_last_marked l),
      partial_tail := drop n buf, partial_tail_marked := min (fst (sl_carried l)) (length (drop n buf)),
      partial_tail_index := snd (sl_carried l)\<rparr>"
    "out = (if sl_cursor l < n then sl_output l @ slice (sl_cursor l) n buf else sl_output l)"
    using step an(2) pos
    by (auto simp: partial_stage_def Let_def split: if_splits simp flip: buf_def n_def l_def)
  have all: "stage_all_runs an st buf = fold push_run (partial_runs (with_partial_filter vs) buf)
      (if 0 < partial_tail_marked st then [(0, partial_tail_marked st, partial_tail_index st)] else [])"
    by (simp add: stage_all_runs_def an(1))
  have le: "n \<le> length buf" by (simp add: n_def hold_start_bounds)
  have "stage_ok vs (X @ input) (f + n) st'"
    by (rule windows.stage_inv_step [OF inv buf_def all _ pos l_def])
      (simp_all add: res n_def an(1))
  moreover have "out = emits (marks vs (X @ input)) False (X @ input) f (f + n)"
    unfolding res(2) by (rule windows.stage_output(1) [OF inv buf_def all le l_def])
  ultimately show ?thesis by (auto simp: res(1))
qed

lemma partial_stage_finish:
  assumes an: "an = with_partial_filter vs" "has_partial_matching an"
    and inv: "stage_ok vs X f st"
    and step: "partial_stage an now st input True es = (st', out, es')"
  shows "out = emits (marks vs (X @ input)) False (X @ input) f (length (X @ input))"
proof -
  define buf where "buf = partial_tail st @ input"
  define n where "n = length buf"
  define l where "l = stage_runs an now buf n (partial_in_run st) (stage_all_runs an st buf)
    \<lparr>sl_output = [], sl_cursor = 0, sl_carried = (0, 0), sl_last_marked = False, sl_events = es\<rparr>"
  have len: "length (X @ input) = f + n"
    using windows.whole_text(2) [OF inv buf_def] by (simp add: n_def)
  show ?thesis
  proof (cases "n = 0")
    case True
    then have "out = []" using step an(2) by (auto simp: partial_stage_def n_def buf_def)
    then show ?thesis using True unfolding len by simp
  next
    case False
    then have "buf \<noteq> []" by (simp add: n_def)
    then have out: "out = (if sl_cursor l < n then sl_output l @ slice (sl_cursor l) n buf else sl_output l)"
      using step an(2)
      by (auto simp: partial_stage_def Let_def split: if_splits simp flip: buf_def n_def l_def)
    have all: "stage_all_runs an st buf = fold push_run (partial_runs (with_partial_filter vs) buf)
        (if 0 < partial_tail_marked st then [(0, partial_tail_marked st, partial_tail_index st)] else [])"
      by (simp add: stage_all_runs_def an(1))
    show ?thesis unfolding out len
      by (rule windows.stage_output(1) [OF inv buf_def all _ l_def]) (simp add: n_def)
  qed
qed

subsection \<open>The buffered analyzer writes the same\<close>

lemma run_output_emits:
  assumes "separated runs" and "ends_upto (length t) runs" and "cursor \<le> length t"
    and "\<forall>(s, _, _) \<in> set runs. cursor < s \<or> cursor = 0 \<and> s = 0"
    and "\<And>q. cursor \<le> q \<Longrightarrow> q < length t \<Longrightarrow> marked q \<longleftrightarrow> covered runs q"
  shows "run_output t False runs cursor = emits marked False t cursor (length t)"
proof -
  let ?l = "\<lambda>out c. \<lparr>sl_output = out, sl_cursor = c, sl_carried = (0, 0),
    sl_last_marked = (0 < c \<and> c = length t), sl_events = []\<rparr>"
  have "sl_output (stage_runs an 0 t (length t) False runs l)
      @ slice (sl_cursor (stage_runs an 0 t (length t) False runs l)) (length t) t
    = sl_output l @ run_output t False runs (sl_cursor l)"
    if "separated runs" "ends_upto (length t) runs" "\<forall>(s, _, _) \<in> set runs. sl_cursor l \<le> s" for an l runs
    using that
  proof (induction runs arbitrary: l)
    case Nil
    then show ?case by (simp add: slice_def)
  next
    case (Cons r runs)
    obtain s e i where r: "r = (s, e, i)" by (cases r)
    have b: "s < e" "e \<le> length t" "separated runs" "ends_upto (length t) runs"
      "\<forall>(s', _, _) \<in> set runs. e \<le> s'" "sl_cursor l \<le> s"
      using Cons(2-4) by (auto simp: r separated_Cons ends_upto_def)
    define l1 where "l1 = \<lparr>sl_output = (sl_output l @ slice (sl_cursor l) s t) @ ''[REDACTED:vault-secret]'',
      sl_cursor = min e (length t),
      sl_carried = (if length t < e then (e - length t, i) else sl_carried l),
      sl_last_marked = (length t \<le> e),
      sl_events = record_partial_event 0 (vault_name an i) (sl_events l)\<rparr>"
    have step: "stage_runs an 0 t (length t) False (r # runs) l = stage_runs an 0 t (length t) False runs l1"
      using b by (simp add: r Let_def l1_def)
    have "run_output t False (r # runs) (sl_cursor l)
        = slice (sl_cursor l) s t @ vault_marker @ run_output t False runs e"
      using b by (simp add: r Let_def max_def)
    moreover have l1: "sl_cursor l1 = e" "sl_output l1 = sl_output l @ slice (sl_cursor l) s t @ vault_marker"
      using b by (simp_all add: l1_def redaction_def)
    moreover have "\<forall>(s', _, _) \<in> set runs. sl_cursor l1 \<le> s'" using b(5) l1(1) by auto
    note IH = Cons(1) [OF b(3,4) this]
    ultimately show ?case unfolding step using IH by simp
  qed
  from this [OF assms(1,2), of "?l [] cursor"] assms(4)
  have "run_output t False runs cursor = sl_output (stage_runs undefined 0 t (length t) False runs (?l [] cursor))
      @ slice (sl_cursor (stage_runs undefined 0 t (length t) False runs (?l [] cursor))) (length t) t"
    by fastforce
  also have "\<dots> = emits marked False t cursor (length t)"
    using stage_runs_emits [OF assms(1,2) order_refl _ _ _ _ refl, of "?l [] cursor" marked undefined 0 False]
      assms(3-5) by simp
  finally show ?thesis .
qed

lemma partial_text_emits:
  "partial_text (with_partial_filter vs) False X = emits (marks vs X) False X 0 (length X)"
  unfolding partial_text_def
  by (rule run_output_emits)
    (auto simp: partial_runs_separated partial_runs_ends windows.runs_covered)

end
