(* ===== verification/Stream_Claims.thy ===== *)
theory Stream_Claims
  imports Stream_Exact Stream_Partial Leak_Claims
begin

text \<open>
  What a whole stream promises, for every way to cut it into chunks: the output is the one of the
  body in a single piece, no managed key, no window of one and no credential of a known format
  leaves, the retained bytes stay under the published bound, and a clean body passes unchanged.
\<close>

subsection \<open>The invariant of a stream\<close>

text \<open>\<open>B\<close> is the body so far, \<open>out\<close> what was written so far.\<close>

definition stream_inv :: "vault_values \<Rightarrow> string \<Rightarrow> scrub_state \<Rightarrow> string \<Rightarrow> bool" where
  "stream_inv vs B st out \<longleftrightarrow>
     (\<exists>X. consumes (with_partial_filter vs) (exact scrub_state_new) B X (exact st)
       \<and> (if has_partial_matching (with_partial_filter vs)
          then \<exists>f. stage_ok vs X f st \<and> out = emits (marks vs X) False X 0 f
          else partial_tail st = [] \<and> out = X))"

lemma stream_inv_new: "stream_inv vs [] scrub_state_new []"
  unfolding stream_inv_def
  by (intro exI [of _ "[]"])
    (auto simp: consumes_nil scrub_state_new_def stage_ok_new with_carry_def
      intro!: exI [of _ 0] stage_ok_new [unfolded with_carry_def])

lemma emits_extend:
  assumes "stage_ok vs X f st" and "f \<le> g"
  shows "emits (marks vs X) False X 0 f @ emits (marks vs (X @ Y)) False (X @ Y) f g
    = emits (marks vs (X @ Y)) False (X @ Y) 0 g"
proof -
  have "emits (marks vs X) False X 0 f = emits (marks vs (X @ Y)) False (X @ Y) 0 f"
    by (rule emits_cong) (simp add: windows.emit_final [OF assms(1)])
  then show ?thesis using emits_split [of 0 f g] assms(2) by simp
qed

lemma exact_stage_consumes:
  assumes "exact_stage an now False input c = (c', out, es)"
  shows "consumes an c input out c'"
proof -
  have "fold (process_byte an now) input (c, [], []) = (c', out, es)"
    using assms by (simp add: exact_stage_def split: prod.splits)
  then show ?thesis using fold_consumes [of an now input c "[]" "[]"] by auto
qed

lemma exact_stage_finish:
  assumes "exact_stage an now True [] c = (c', out, es)"
  shows "drains an True (clear_suppression c) out c'"
  using assms drain_drains [of an now True "clear_suppression c" "[]" "[]" c' out es]
  by (auto simp: exact_stage_def)

lemma stream_inv_step:
  assumes "stream_inv vs B st out"
    and "process_stream_bytes (with_partial_filter vs) now st chunk False = (st', new_out, es)"
  shows "stream_inv vs (B @ chunk) st' (out @ new_out)"
proof -
  let ?an = "with_partial_filter vs"
  obtain X where X: "consumes ?an (exact scrub_state_new) B X (exact st)"
    and cases': "if has_partial_matching ?an
      then \<exists>f. stage_ok vs X f st \<and> out = emits (marks vs X) False X 0 f
      else partial_tail st = [] \<and> out = X"
    using assms(1) by (auto simp: stream_inv_def)
  obtain c e es0 where c: "exact_stage ?an now False chunk (exact st) = (c, e, es0)"
    by (cases "exact_stage ?an now False chunk (exact st)")
  have p: "partial_stage ?an now (st\<lparr>exact := c\<rparr>) e False es0 = (st', new_out, es)"
    using assms(2) by (simp add: process_stream_bytes_def c)
  have consumed: "consumes ?an (exact scrub_state_new) (B @ chunk) (X @ e) c"
    by (rule consumes_append [OF X exact_stage_consumes [OF c]])
  show ?thesis
  proof (cases "has_partial_matching ?an")
    case True
    then obtain f where f: "stage_ok vs X f st" "out = emits (marks vs X) False X 0 f"
      using cases' by auto
    have "stage_ok vs X f (st\<lparr>exact := c\<rparr>)" using f(1) by simp
    from partial_stage_step [OF refl True this p] obtain n where n: "exact st' = c"
      "stage_ok vs (X @ e) (f + n) st'"
      "new_out = emits (marks vs (X @ e)) False (X @ e) f (f + n)" by auto
    have "out @ new_out = emits (marks vs (X @ e)) False (X @ e) 0 (f + n)"
      unfolding f(2) n(3) by (rule emits_extend [OF f(1)]) simp
    then show ?thesis using True consumed n by (auto simp: stream_inv_def)
  next
    case False
    then show ?thesis using cases' p consumed by (auto simp: partial_stage_def stream_inv_def)
  qed
qed

lemma stream_inv_finish:
  assumes "stream_inv vs B st out"
  shows "\<exists>E. exact_body (with_partial_filter vs) B E
    \<and> out @ fst (finish_stream (with_partial_filter vs) now st)
      = partial_text (with_partial_filter vs) False E"
proof -
  let ?an = "with_partial_filter vs"
  obtain X where X: "consumes ?an (exact scrub_state_new) B X (exact st)"
    and cases': "if has_partial_matching ?an
      then \<exists>f. stage_ok vs X f st \<and> out = emits (marks vs X) False X 0 f
      else partial_tail st = [] \<and> out = X"
    using assms by (auto simp: stream_inv_def)
  obtain c e es0 where c: "exact_stage ?an now True [] (exact st) = (c, e, es0)"
    by (cases "exact_stage ?an now True [] (exact st)")
  obtain st' last_out es where p: "partial_stage ?an now (st\<lparr>exact := c\<rparr>) e True es0 = (st', last_out, es)"
    by (cases "partial_stage ?an now (st\<lparr>exact := c\<rparr>) e True es0")
  have fin: "fst (finish_stream ?an now st) = last_out"
    by (simp add: finish_stream_def process_stream_bytes_def c p)
  have body: "exact_body ?an B (X @ e)" using exact_body.intros [OF X exact_stage_finish [OF c]] .
  have "out @ last_out = partial_text ?an False (X @ e)"
  proof (cases "has_partial_matching ?an")
    case True
    then obtain f where f: "stage_ok vs X f st" "out = emits (marks vs X) False X 0 f"
      using cases' by auto
    have "stage_ok vs X f (st\<lparr>exact := c\<rparr>)" using f(1) by simp
    from partial_stage_finish [OF refl True this p]
    have "last_out = emits (marks vs (X @ e)) False (X @ e) f (length (X @ e))" .
    moreover have "f \<le> length (X @ e)" using f(1) by (simp add: stage_inv_def)
    ultimately show ?thesis using emits_extend [OF f(1)] f(2) by (simp add: partial_text_emits)
  next
    case False
    then have "partial_text ?an False t = t" for t
      by (simp add: partial_text_def partial_runs_def has_partial_matching_def)
    then show ?thesis using False cases' p by (auto simp: partial_stage_def)
  qed
  then show ?thesis using body fin by auto
qed

text \<open>The stream writes what the buffered analyzer's partial stage makes of the exact text.\<close>

lemma stream_output_exact:
  assumes "stream_inv vs B st out"
  shows "\<exists>E. exact_body (with_partial_filter vs) (B @ concat (map snd chunks)) E
    \<and> out @ stream_output (with_partial_filter vs) st chunks fin
      = partial_text (with_partial_filter vs) False E"
  using assms
proof (induction chunks arbitrary: B st out)
  case Nil
  then show ?case using stream_inv_finish by simp
next
  case (Cons nc chunks)
  obtain now chunk where nc: "nc = (now, chunk)" by (cases nc)
  obtain st' new_out es where p:
    "process_stream_bytes (with_partial_filter vs) now st chunk False = (st', new_out, es)"
    by (cases "process_stream_bytes (with_partial_filter vs) now st chunk False")
  from Cons(1) [OF stream_inv_step [OF Cons(2) p]] show ?case
    by (simp add: nc scrub_stream_chunk_def p)
qed

lemma stream_of_body:
  obtains E where "exact_body (with_partial_filter vs) (concat (map snd chunks)) E"
    and "stream_output (with_partial_filter vs) scrub_state_new chunks fin
      = partial_text (with_partial_filter vs) False E"
  using stream_output_exact [OF stream_inv_new, of vs chunks fin] by auto

subsection \<open>Chunks do not matter\<close>

text \<open>
  C12. Two ways to cut the same body into chunks give the same output, whatever the chunks and the
  times they arrive at: no run, no managed value and no format is missed or split at a boundary.
\<close>

theorem stream_chunking_irrelevant:
  assumes "concat (map snd chunks) = concat (map snd chunks')"
  shows "stream_output (with_partial_filter vs) scrub_state_new chunks fin
    = stream_output (with_partial_filter vs) scrub_state_new chunks' fin'"
proof -
  obtain E where E: "exact_body (with_partial_filter vs) (concat (map snd chunks)) E"
    "stream_output (with_partial_filter vs) scrub_state_new chunks fin
      = partial_text (with_partial_filter vs) False E" by (rule stream_of_body)
  obtain E' where E': "exact_body (with_partial_filter vs) (concat (map snd chunks')) E'"
    "stream_output (with_partial_filter vs) scrub_state_new chunks' fin'
      = partial_text (with_partial_filter vs) False E'" by (rule stream_of_body)
  have "E' = E" using exact_body_unique [OF E(1)] E'(1) assms by simp
  then show ?thesis using E(2) E'(2) by simp
qed

lemma stream_chunking_irrelevant_witness:
  "stream_output (with_partial_filter sample_values) scrub_state_new
      [(1, ''key=3456789''), (2, ''abcdef;'')] 3
    = stream_output (with_partial_filter sample_values) scrub_state_new [(9, ''key=3456789abcdef;'')] 9"
  by (rule stream_chunking_irrelevant) simp

subsection \<open>Nothing secret leaves\<close>

lemma plain_markers_free:
  assumes "plain_bytes w" and "12 \<le> length w" and "w \<noteq> ''vault-secret''"
  shows "marker_free markers w"
  using plain_marker_free [OF assms labels_ok(1)] plain_marker_free [OF assms labels_ok(2)]
  by (auto simp: marker_free_def markers_def)

lemma stream_sublist_body:
  assumes "sublist w (stream_output (with_partial_filter vs) scrub_state_new chunks fin)"
    and "plain_bytes w" and "12 \<le> length w" and "w \<noteq> ''vault-secret''"
  shows "\<exists>t. suffix t (concat (map snd chunks)) \<and> prefix w t \<and> begins_nothing vs t"
proof -
  obtain E where E: "exact_body (with_partial_filter vs) (concat (map snd chunks)) E"
    "stream_output (with_partial_filter vs) scrub_state_new chunks fin
      = partial_text (with_partial_filter vs) False E" by (rule stream_of_body)
  have "sublist w E"
    using assms(1) redacted_sublist_input [OF partial_text_redacted _ vault_marker_free [OF assms(2-4)]]
    unfolding E(2) by blast
  then show ?thesis
    using redacted_sublist [OF exact_body_redacted [OF E(1)] _ plain_markers_free [OF assms(2-4)]] by simp
qed

text \<open>
  C11. However a response is cut into chunks, and whatever its bytes, the streamed output holds no
  token-like managed value and no 12-byte window of one beyond its public prefix (a window that
  spells the word of the marker itself excepted).
\<close>

theorem stream_hides_keys:
  assumes "(v, name) \<in> set vs" and "is_token_like v"
  shows "\<not> sublist v (stream_output (with_partial_filter vs) scrub_state_new chunks fin)
    \<and> (\<forall>start \<in> set (partial_window_starts v). window_at v start \<noteq> ''vault-secret'' \<longrightarrow>
        \<not> sublist (window_at v start)
          (stream_output (with_partial_filter vs) scrub_state_new chunks fin))"
proof (intro conjI ballI impI)
  note tok = token_like_facts [OF assms(2)]
  show "\<not> sublist v (stream_output (with_partial_filter vs) scrub_state_new chunks fin)"
  proof
    assume "sublist v (stream_output (with_partial_filter vs) scrub_state_new chunks fin)"
    from stream_sublist_body [OF this tok(2-4)] show False
      using assms(1) tok(1) by (fastforce simp: begins_nothing_def)
  qed
next
  fix start assume start: "start \<in> set (partial_window_starts v)"
    and ne: "window_at v start \<noteq> ''vault-secret''"
  have el: "eligible vs (window_at v start)"
    using assms(1) start by (auto simp: eligible_def value_has_window_def list_ex_iff)
  obtain E where "stream_output (with_partial_filter vs) scrub_state_new chunks fin
      = partial_text (with_partial_filter vs) False E" by (rule stream_of_body)
  then show "\<not> sublist (window_at v start)
      (stream_output (with_partial_filter vs) scrub_state_new chunks fin)"
    using partial_text_hides [OF el ne] by simp
qed

lemma stream_hides_keys_witness:
  "\<not> sublist ''sk-live-0123456789abcdef''
      (stream_output (with_partial_filter sample_values) scrub_state_new
        [(1, ''sk-live-01234''), (2, ''56789abcdef'')] 3)"
proof -
  have m: "(''sk-live-0123456789abcdef'', ''API_KEY'') \<in> set sample_values"
    by (simp add: sample_values_def)
  have t: "is_token_like ''sk-live-0123456789abcdef''"
    by (simp add: is_token_like_def PARTIAL_MIN_VALUE_LEN_def byte_defs)
  show ?thesis using stream_hides_keys [OF m t] by blast
qed

text \<open>
  C28. However a response is cut into chunks, and whatever its bytes, the streamed output holds no
  complete credential of a catalogued format, managed or not.
\<close>

theorem stream_has_no_known_format:
  assumes "spec \<in> set FORMAT_SPECS" and "complete_prefix_len spec w = Some (length w)"
  shows "\<not> sublist w (stream_output (with_partial_filter vs) scrub_state_new chunks fin)"
proof
  assume sub: "sublist w (stream_output (with_partial_filter vs) scrub_state_new chunks fin)"
  obtain t where "prefix w t" "begins_nothing vs t"
    using stream_sublist_body [OF sub match_plain [OF assms]] by blast
  then have "complete_prefix_len spec t = None" using assms(1) by (auto simp: begins_nothing_def)
  then show False using complete_mono [OF assms(2) \<open>prefix w t\<close>] by simp
qed

lemma stream_has_no_known_format_witness:
  "\<not> sublist ''AKIA0123456789ABCDEF''
      (stream_output (with_partial_filter sample_values) scrub_state_new
        [(1, ''id=AK''), (2, ''IA0123456789ABC''), (3, ''DEF'')] 4)"
proof -
  have s: "\<lparr>fs_label = ''AKIA*'', fs_prefix = ''AKIA'', fs_shape = Fixed UpperAlnum 16\<rparr> \<in> set FORMAT_SPECS"
    by (simp add: FORMAT_SPECS_def)
  show ?thesis
    by (rule stream_has_no_known_format [OF s]) (simp add: complete_prefix_len_def byte_defs)
qed

subsection \<open>Bounded retention\<close>

fun stream_state :: "leak_analyzer \<Rightarrow> scrub_state \<Rightarrow> (u64 \<times> string) list \<Rightarrow> scrub_state" where
  "stream_state an st [] = st"
| "stream_state an st ((now, chunk) # chunks) =
     stream_state an (fst (scrub_stream_chunk an now st chunk)) chunks"

lemma stream_inv_state:
  "stream_inv vs B st out \<Longrightarrow>
     \<exists>B' out'. stream_inv vs B' (stream_state (with_partial_filter vs) st chunks) out'"
proof (induction chunks arbitrary: B st out)
  case (Cons nc chunks)
  obtain now chunk where nc: "nc = (now, chunk)" by (cases nc)
  obtain st' new_out es where p:
    "process_stream_bytes (with_partial_filter vs) now st chunk False = (st', new_out, es)"
    by (cases "process_stream_bytes (with_partial_filter vs) now st chunk False")
  from Cons(1) [OF stream_inv_step [OF Cons(2) p]] show ?case
    by (simp add: nc scrub_stream_chunk_def p)
qed auto

text \<open>
  C31. After any chunks the scanner retains no more bytes than the bound it publishes: the longest
  strict prefix of a managed value or the longest minimal credential, and eleven bytes of tail.
\<close>

theorem stream_buffer_bounded:
  "buffered_len (stream_state (with_partial_filter vs) scrub_state_new chunks)
    \<le> stream_buffer_bound (with_partial_filter vs)"
proof -
  let ?an = "with_partial_filter vs" let ?st = "stream_state (with_partial_filter vs) scrub_state_new chunks"
  obtain B out where inv: "stream_inv vs B ?st out" using stream_inv_state [OF stream_inv_new] by blast
  then have "carry_inv ?an (exact ?st)"
    using consumes_inv [OF _ carry_inv_new] by (auto simp: stream_inv_def)
  moreover have "length (partial_tail ?st) \<le> (if has_partial_matching ?an then PARTIAL_MIN_RUN - 1 else 0)"
    using inv by (auto simp: stream_inv_def stage_inv_def)
  ultimately show ?thesis
    using carry_bounded [of ?an "exact ?st"]
    by (simp add: buffered_len_def stream_buffer_bound_def Let_def)
qed

subsection \<open>A clean body\<close>

text \<open>Nothing managed or known begins anywhere in the body, and no window of a managed value is in it.\<close>

definition clean :: "vault_values \<Rightarrow> string \<Rightarrow> bool" where
  "clean vs body \<longleftrightarrow>
     list_all (\<lambda>p. begins_nothing vs (drop p body) \<and> \<not> hit vs body p) [0..<length body]"

lemma round_of_clean:
  assumes "\<not> drain_stops an fin c" and "begins_nothing (vault_values an) (pending c @ input)"
  shows "drain_round an fin c = ([hd (pending c)], c\<lparr>pending := drop 1 (pending c)\<rparr>, True)"
proof -
  have ne: "pending c \<noteq> []" using assms(1) by (simp add: drain_stops_def)
  have none: "v = [] \<or> \<not> starts_with (pending c) v" if "(v, n) \<in> set (vault_values an)" for v n
  proof -
    have "v = [] \<or> \<not> starts_with (pending c @ input) v"
      using assms(2) that by (auto simp: begins_nothing_def)
    then show ?thesis by (auto intro: prefix_append [THEN iffD2])
  qed
  have "managed_prefix_match an (pending c) = None" using none by (auto simp: managed_prefix_match_None)
  moreover have "managed_exact_name an (pending c) = None"
    using none ne by (auto simp: managed_exact_name_def find_None_iff)
  moreover have "complete_prefix_len spec (pending c) = None" if "spec \<in> set FORMAT_SPECS" for spec
  proof (cases "complete_prefix_len spec (pending c)")
    case (Some n)
    have "complete_prefix_len spec (pending c @ input) = None"
      using assms(2) that by (auto simp: begins_nothing_def)
    then show ?thesis using complete_mono [OF Some, of "pending c @ input"] by simp
  qed
  then have "first_complete (pending c) = None" by (simp add: first_complete_None)
  ultimately show ?thesis by (simp add: drain_round_def)
qed

lemma drains_clean:
  assumes "drains an fin c w c'"
    and "\<forall>p < length (pending c). begins_nothing (vault_values an) (drop p (pending c) @ input)"
  shows "w @ pending c' = pending c \<and> suppressing c' = suppressing c"
  using assms
proof (induction rule: drains.induct)
  case (drains_go c o1 c1 o2 c2)
  have ne: "pending c \<noteq> []" using drains_go.hyps(1) by (simp add: drain_stops_def)
  then have "begins_nothing (vault_values an) (pending c @ input)" using drains_go.prems by force
  from round_of_clean [OF drains_go.hyps(1) this] drains_go.hyps(2)
  have r: "o1 = [hd (pending c)]" "c1 = c\<lparr>pending := drop 1 (pending c)\<rparr>" by simp_all
  have "begins_nothing (vault_values an) (drop p (pending c1) @ input)" if "p < length (pending c1)" for p
    using drains_go.prems [rule_format, of "p + 1"] that by (simp add: r)
  then have "o2 @ pending c2 = drop 1 (pending c) \<and> suppressing c2 = suppressing c"
    using drains_go.IH by (simp add: r)
  then show ?case using ne by (cases "pending c") (auto simp: r)
next
  case (drains_halt c o1 c1)
  have "pending c \<noteq> []" using drains_halt.hyps(1) by (simp add: drain_stops_def)
  then have "begins_nothing (vault_values an) (pending c @ input)" using drains_halt.prems by force
  from round_of_clean [OF drains_halt.hyps(1) this] drains_halt.hyps(2) show ?case by simp
qed simp

lemma consumes_clean:
  assumes "consumes an c bs w c'" and "suppressing c = None"
    and "\<forall>p < length (pending c @ bs). begins_nothing (vault_values an) (drop p (pending c @ bs))"
  shows "w @ pending c' = pending c @ bs \<and> suppressing c' = None"
  using assms
proof (induction rule: consumes.induct)
  case (consumes_suppressed c b bs w c')
  then show ?case by (simp add: suppresses_def)
next
  case (consumes_byte c b w1 c1 bs w2 c2)
  have "\<forall>p < length (pending (push_byte c b)).
      begins_nothing (vault_values an) (drop p (pending (push_byte c b)) @ bs)"
  proof (intro allI impI)
    fix p assume "p < length (pending (push_byte c b))"
    then have "p < length (pending c @ b # bs)" "drop p (pending (push_byte c b)) @ bs = drop p (pending c @ b # bs)"
      by (simp_all add: push_byte_fields)
    then show "begins_nothing (vault_values an) (drop p (pending (push_byte c b)) @ bs)"
      using consumes_byte.prems(2) by simp
  qed
  from drains_clean [OF consumes_byte.hyps(2) this]
  have d: "w1 @ pending c1 = pending c @ [b]" "suppressing c1 = None" by (simp_all add: push_byte_fields)
  have whole: "pending c @ b # bs = w1 @ (pending c1 @ bs)" using d(1) by (metis append.assoc append_Cons append_Nil)
  have "begins_nothing (vault_values an) (drop p (pending c1 @ bs))" if "p < length (pending c1 @ bs)" for p
    using consumes_byte.prems(2) [rule_format, of "length w1 + p"] that unfolding whole by simp
  then show ?case using consumes_byte.IH d(2) unfolding whole by simp
qed simp

text \<open>
  C32. A body with nothing to redact passes the stream unchanged, byte for byte and complete, however
  it is cut into chunks.
\<close>

theorem stream_clean_unchanged:
  assumes "clean vs (concat (map snd chunks))"
  shows "stream_output (with_partial_filter vs) scrub_state_new chunks fin = concat (map snd chunks)"
proof -
  let ?an = "with_partial_filter vs"
  obtain body where body: "concat (map snd chunks) = body" by simp
  have none: "\<forall>p < length body. begins_nothing vs (drop p body)"
    using assms by (simp add: clean_def list_all_iff body)
  have no_hit: "\<not> hit vs body p" for p
    using assms by (auto simp: clean_def list_all_iff hit_def PARTIAL_MIN_RUN_def body)
  obtain E where E: "exact_body ?an body E"
    "stream_output ?an scrub_state_new chunks fin = partial_text ?an False E"
    using stream_of_body [of vs chunks fin] unfolding body by blast
  obtain w1 c1 w2 c2 where e: "E = w1 @ w2" "consumes ?an (exact scrub_state_new) body w1 c1"
    "drains ?an True (clear_suppression c1) w2 c2"
    using E(1) by (auto elim: exact_body.cases)
  have "w1 @ pending c1 = pending (exact scrub_state_new) @ body \<and> suppressing c1 = None"
    by (rule consumes_clean [OF e(2)]) (auto simp: scrub_state_new_def with_carry_def intro: none [rule_format])
  then have w1: "w1 @ pending c1 = body" by (simp add: scrub_state_new_def with_carry_def)
  have p: "pending (clear_suppression c1) = pending c1" "suppressing (clear_suppression c1) = None"
    "suppression_prefix (clear_suppression c1) = []"
    by (simp_all add: clear_suppression_def)
  have "begins_nothing vs (drop p (pending c1))" if "p < length (pending c1)" for p
    using none [rule_format, of "length w1 + p"] that unfolding w1 [symmetric] by simp
  then have "w2 @ pending c2 = pending c1" using drains_clean [OF e(3), of "[]"] p by simp
  then have "E = body" using e(1) w1 drains_inv(2) [OF e(3) p(2,3)] by auto
  moreover have "partial_text ?an False body = body"
  proof -
    have "\<not> covered (partial_runs ?an body) p" for p using partial_runs_covered no_hit by blast
    then have "partial_runs ?an body = []"
      using partial_runs_separated [of vs body]
      by (cases "partial_runs ?an body") (auto simp: separated_Cons)
    then show ?thesis by (simp add: partial_text_def)
  qed
  ultimately show ?thesis using E(2) by (simp add: body)
qed

lemma stream_clean_unchanged_witness:
  "stream_output (with_partial_filter sample_values) scrub_state_new [(1, ''{}''), (2, ''ok'')] 3 = ''{}ok''"
proof -
  have "clean sample_values (concat (map snd [(1 :: u64, ''{}''), (2, ''ok'')]))"
    by (simp add: clean_def begins_nothing_def sample_values_def FORMAT_SPECS_def complete_prefix_len_def
        hit_def PARTIAL_MIN_RUN_def upt_rec)
  from stream_clean_unchanged [OF this, of 3] show ?thesis by simp
qed

end
