(* ===== verification/Private_Dir.thy ===== *)
theory Private_Dir
  imports Prelude
begin

text \<open>
  The calls of the private state directory (\<open>phantom-core/src/fs/private_dir.rs\<close>) that the journal and
  the evidence store make, as they see them: a directory is a map from file names to contents, and
  the outcome of a call is an argument.  A call on an entry fails because the entry is refused (a
  symbolic link, a foreign owner, more than one link) or because of the system; only an entry that is
  not there is not found.  A replacement is atomic, so its failure leaves the old contents or, when
  only the last synchronisation failed, the new ones; a plain write may stop anywhere.
\<close>

datatype io_error = NotFound | InvalidData | AlreadyExists | OtherIo

datatype open_fault = Refused | Failed

fun fault_error :: "open_fault \<Rightarrow> io_error" where
  "fault_error Refused = InvalidData"
| "fault_error Failed = OtherIo"

lemma fault_error_found [simp]: "fault_error f \<noteq> NotFound"
  by (cases f) simp_all

type_synonym private_dir = "string \<Rightarrow> string option"

definition open_file :: "open_fault option \<Rightarrow> private_dir \<Rightarrow> string \<Rightarrow> (string, io_error) result" where
  "open_file fault d name =
     (case fault of
        Some f \<Rightarrow> Err (fault_error f)
      | None \<Rightarrow> ok_or (d name) NotFound)"

lemma open_file_Ok [res_simps]:
  "open_file fault d name = Inr c \<longleftrightarrow> fault = None \<and> d name = Some c"
  by (auto simp: open_file_def res_simps split: option.splits)

lemma open_file_missing: "open_file fault d name = Inl NotFound \<longleftrightarrow> fault = None \<and> d name = None"
  by (auto simp: open_file_def res_simps split: option.splits)

datatype replacement = Replaced | NotReplaced io_error | ReplacedUnsynced io_error

definition replace_file :: "replacement \<Rightarrow> private_dir \<Rightarrow> string \<Rightarrow> string
    \<Rightarrow> (unit, io_error) result \<times> private_dir" where
  "replace_file outcome d name contents =
     (case outcome of
        Replaced \<Rightarrow> (Ok (), d(name \<mapsto> contents))
      | NotReplaced e \<Rightarrow> (Err e, d)
      | ReplacedUnsynced e \<Rightarrow> (Err e, d(name \<mapsto> contents)))"

datatype write_outcome = Written | Torn nat io_error

definition write_all :: "write_outcome \<Rightarrow> private_dir \<Rightarrow> string \<Rightarrow> string \<Rightarrow> string
    \<Rightarrow> (unit, io_error) result \<times> private_dir" where
  "write_all outcome d name before bytes =
     (case outcome of
        Written \<Rightarrow> (Ok (), d(name \<mapsto> before @ bytes))
      | Torn n e \<Rightarrow> (Err e, d(name \<mapsto> before @ take n bytes)))"

end
