(* ===== verification/Session_Journal.thy ===== *)
theory Session_Journal
  imports Authority_Ids Canonical_Json Private_Dir
begin

text \<open>
  \<open>phantom-session/src/lib.rs\<close>: the value-free journal that coordinates one session.  A journal
  file holds the authenticated state of the session: its phase, the transition that was announced
  and not yet completed, and the completed ones.  The directory is a map from file names to
  contents; the outcome of every call to it is an argument (\<open>session_io\<close>), and a failed replacement
  leaves the old file or, when only the final synchronisation failed, the new one.  The hash
  functions and the JSON parser are the record \<open>session_host\<close>; the derived \<open>Serialize\<close>
  implementations are written out.
\<close>

subsection \<open>Phases, steps, transitions\<close>

datatype session_phase =
  Created | AuthorityEvaluated | AuthorityDenied | LeaseReserved | PermitActive | WorkerObserved
| PermitTerminal | RollbackResolved | EvidenceFinalized | ReceiptPersisted | Complete

datatype subsystem_step =
  RecordAuthority | ReserveLease | ActivatePermit | RecordWorker | TerminalizePermit
| ResolveRollback | FinalizeEvidence | PersistReceipt | MarkComplete

datatype step_intent =
  AuthorityDecision (intent_digest: sha256_digest)
| LeaseReservation (intent_digest: sha256_digest)
| PermitActivation (intent_digest: sha256_digest)
| WorkerProxyObservation (intent_digest: sha256_digest)
| PermitTerminalState (intent_digest: sha256_digest)
| RollbackDisposition (intent_digest: sha256_digest)
| FinalizedEvidence (intent_digest: sha256_digest)
| PersistedReceipt (intent_digest: sha256_digest)
| Completion (intent_digest: sha256_digest)

fun intent_step :: "step_intent \<Rightarrow> subsystem_step" where
  "intent_step (AuthorityDecision _) = RecordAuthority"
| "intent_step (LeaseReservation _) = ReserveLease"
| "intent_step (PermitActivation _) = ActivatePermit"
| "intent_step (WorkerProxyObservation _) = RecordWorker"
| "intent_step (PermitTerminalState _) = TerminalizePermit"
| "intent_step (RollbackDisposition _) = ResolveRollback"
| "intent_step (FinalizedEvidence _) = FinalizeEvidence"
| "intent_step (PersistedReceipt _) = PersistReceipt"
| "intent_step (Completion _) = MarkComplete"

datatype step_completion =
  AuthorityDecided (result_digest: sha256_digest)
| LeaseReservationDone (result_digest: sha256_digest)
| PermitActivationDone (result_digest: sha256_digest)
| WorkerProxyObserved (result_digest: sha256_digest)
| PermitTerminalStateDone (result_digest: sha256_digest)
| RollbackDisposed (result_digest: sha256_digest)
| EvidenceDone (result_digest: sha256_digest)
| ReceiptDone (result_digest: sha256_digest)
| Completed (result_digest: sha256_digest)

fun completion_step :: "step_completion \<Rightarrow> subsystem_step" where
  "completion_step (AuthorityDecided _) = RecordAuthority"
| "completion_step (LeaseReservationDone _) = ReserveLease"
| "completion_step (PermitActivationDone _) = ActivatePermit"
| "completion_step (WorkerProxyObserved _) = RecordWorker"
| "completion_step (PermitTerminalStateDone _) = TerminalizePermit"
| "completion_step (RollbackDisposed _) = ResolveRollback"
| "completion_step (EvidenceDone _) = FinalizeEvidence"
| "completion_step (ReceiptDone _) = PersistReceipt"
| "completion_step (Completed _) = MarkComplete"

record transition =
  tr_from :: session_phase
  tr_to :: session_phase
  tr_intent :: step_intent

datatype recovery_outcome =
  Clean session_phase u64
| Unfinished transition sha256_digest u64

datatype transition_result = NewTransition sha256_digest u64 | ExistingTransition sha256_digest u64

subsection \<open>State\<close>

record pending =
  pe_transition_id :: sha256_digest
  pe_transition :: transition

record completed =
  co_transition_id :: sha256_digest
  co_completion :: step_completion
  co_completion_id :: sha256_digest

record genesis_binding =
  gb_session_id :: session_id
  gb_workspace_identity_digest :: sha256_digest
  gb_action_intent_root_digest :: sha256_digest
  gb_store_id :: sha256_digest

record state_body =
  sb_version :: u8
  sb_genesis :: genesis_binding
  sb_generation :: u64
  sb_phase :: session_phase
  sb_pending :: "pending option"
  sb_completed :: "completed list"

record state_file =
  sf_body :: state_body
  sf_mac :: sha256_digest

record journal =
  jn_state :: string
  jn_lock :: string
  jn_genesis :: genesis_binding
  jn_key :: string

definition SESSION_VERSION :: u8 where
  "SESSION_VERSION = 3"

definition MAX_STATE :: nat where
  "MAX_STATE = 256 * 1024"

definition MAX_COMPLETED_TRANSITIONS :: nat where
  "MAX_COMPLETED_TRANSITIONS = 16"

subsection \<open>Errors and environment\<close>

datatype session_error =
  Unavailable | UnsafeStorage | StorageOverlap | InvalidKey | InvalidStoreId | Tampered | Truncated
| NonCanonical | Oversized | MissingState | StateAlreadyExists | GenesisMismatch
| GenerationMismatch | GenerationExhausted | TransitionLimit | Conflict | CompletionMismatch
| NoPending | IllegalTransition | CanonicalFault canonical_error | Io io_error

definition session_factory_open :: "(unit, session_error) result" where
  "session_factory_open = Err Unavailable"

definition journal_storage_error :: "io_error \<Rightarrow> session_error" where
  "journal_storage_error e = (if e = InvalidData then UnsafeStorage else Io e)"

datatype parse_fault = UnexpectedEof | Malformed

record session_host =
  sh_escape :: "string \<Rightarrow> string"
  sh_sha256 :: "string \<Rightarrow> string"
  sh_hmac :: "string \<Rightarrow> string \<Rightarrow> string option"
  sh_hex_encode :: "string \<Rightarrow> string"
  sh_from_slice :: "string \<Rightarrow> (state_file, parse_fault) result"

record session_io =
  sio_lock_open :: "io_error option"
  sio_lock :: "io_error option"
  sio_open :: "open_fault option"
  sio_metadata :: "io_error option"
  sio_read :: "io_error option"
  sio_replace :: replacement

fun checked :: "('e \<Rightarrow> session_error) \<Rightarrow> 'e option \<Rightarrow> (unit, session_error) result" where
  "checked f None = Ok ()"
| "checked f (Some e) = Err (f e)"

lemma checked_Ok [res_simps]: "checked f m = Inr u \<longleftrightarrow> m = None"
  by (cases m) auto

subsection \<open>Serialized forms\<close>

fun phase_value :: "session_phase \<Rightarrow> json" where
  "phase_value Created = JString ''created''"
| "phase_value AuthorityEvaluated = JString ''authority_evaluated''"
| "phase_value AuthorityDenied = JString ''authority_denied''"
| "phase_value LeaseReserved = JString ''lease_reserved''"
| "phase_value PermitActive = JString ''permit_active''"
| "phase_value WorkerObserved = JString ''worker_observed''"
| "phase_value PermitTerminal = JString ''permit_terminal''"
| "phase_value RollbackResolved = JString ''rollback_resolved''"
| "phase_value EvidenceFinalized = JString ''evidence_finalized''"
| "phase_value ReceiptPersisted = JString ''receipt_persisted''"
| "phase_value Complete = JString ''complete''"

definition digest_value :: "sha256_digest \<Rightarrow> json" where
  "digest_value d = JString (digest_str d)"

definition tagged :: "string \<Rightarrow> string \<Rightarrow> sha256_digest \<Rightarrow> json" where
  "tagged variant field d = JObject [(variant, JObject [(field, digest_value d)])]"

fun intent_value :: "step_intent \<Rightarrow> json" where
  "intent_value (AuthorityDecision d) = tagged ''authority_decision'' ''decision_digest'' d"
| "intent_value (LeaseReservation d) = tagged ''lease_reservation'' ''reservation_digest'' d"
| "intent_value (PermitActivation d) = tagged ''permit_activation'' ''activation_digest'' d"
| "intent_value (WorkerProxyObservation d) = tagged ''worker_proxy_observation'' ''observation_digest'' d"
| "intent_value (PermitTerminalState d) = tagged ''permit_terminal_state'' ''terminal_digest'' d"
| "intent_value (RollbackDisposition d) = tagged ''rollback_disposition'' ''disposition_digest'' d"
| "intent_value (FinalizedEvidence d) = tagged ''finalized_evidence'' ''evidence_digest'' d"
| "intent_value (PersistedReceipt d) = tagged ''persisted_receipt'' ''receipt_digest'' d"
| "intent_value (Completion d) = tagged ''completion'' ''completion_digest'' d"

fun completion_value :: "step_completion \<Rightarrow> json" where
  "completion_value (AuthorityDecided d) = tagged ''authority_decision'' ''result_digest'' d"
| "completion_value (LeaseReservationDone d) = tagged ''lease_reservation'' ''result_digest'' d"
| "completion_value (PermitActivationDone d) = tagged ''permit_activation'' ''result_digest'' d"
| "completion_value (WorkerProxyObserved d) = tagged ''worker_proxy_observation'' ''result_digest'' d"
| "completion_value (PermitTerminalStateDone d) = tagged ''permit_terminal_state'' ''result_digest'' d"
| "completion_value (RollbackDisposed d) = tagged ''rollback_disposition'' ''result_digest'' d"
| "completion_value (EvidenceDone d) = tagged ''finalized_evidence'' ''result_digest'' d"
| "completion_value (ReceiptDone d) = tagged ''persisted_receipt'' ''result_digest'' d"
| "completion_value (Completed d) = tagged ''completion'' ''result_digest'' d"

definition transition_value :: "transition \<Rightarrow> json" where
  "transition_value t = JObject
     [(''from'', phase_value (tr_from t)), (''to'', phase_value (tr_to t)),
      (''intent'', intent_value (tr_intent t))]"

definition genesis_value :: "genesis_binding \<Rightarrow> json" where
  "genesis_value g = JObject
     [(''session_id'', JString (session_id_str (gb_session_id g))),
      (''workspace_identity_digest'', digest_value (gb_workspace_identity_digest g)),
      (''action_intent_root_digest'', digest_value (gb_action_intent_root_digest g)),
      (''store_id'', digest_value (gb_store_id g))]"

fun pending_value :: "pending option \<Rightarrow> json" where
  "pending_value None = JNull"
| "pending_value (Some p) = JObject
     [(''transition_id'', digest_value (pe_transition_id p)),
      (''transition'', transition_value (pe_transition p))]"

definition completed_value :: "completed \<Rightarrow> json" where
  "completed_value c = JObject
     [(''transition_id'', digest_value (co_transition_id c)),
      (''completion'', completion_value (co_completion c)),
      (''completion_id'', digest_value (co_completion_id c))]"

definition body_value :: "state_body \<Rightarrow> json" where
  "body_value b = JObject
     [(''version'', JNumber (PosInt (ucast (sb_version b)))), (''genesis'', genesis_value (sb_genesis b)),
      (''generation'', JNumber (PosInt (sb_generation b))), (''phase'', phase_value (sb_phase b)),
      (''pending'', pending_value (sb_pending b)),
      (''completed'', JArray (map completed_value (sb_completed b)))]"

definition file_value :: "state_file \<Rightarrow> json" where
  "file_value f = JObject [(''body'', body_value (sf_body f)), (''mac'', digest_value (sf_mac f))]"

definition transition_identity :: "genesis_binding \<times> transition \<Rightarrow> json" where
  "transition_identity = (\<lambda>(g, t).
     JObject [(''genesis'', genesis_value g), (''transition'', transition_value t)])"

definition completion_identity :: "genesis_binding \<times> sha256_digest \<times> step_completion \<Rightarrow> json" where
  "completion_identity = (\<lambda>(g, i, c).
     JObject [(''genesis'', genesis_value g), (''transition_id'', digest_value i),
       (''completion'', completion_value c)])"

definition canonical :: "session_host \<Rightarrow> ('a \<Rightarrow> json) \<Rightarrow> 'a \<Rightarrow> (string, session_error) result" where
  "canonical h to_value x = map_err CanonicalFault (canonical_json_v1 (sh_escape h) to_value x)"

subsection \<open>Digests\<close>

abbreviation NUL :: string where "NUL \<equiv> [CHR 0x00]"

definition hex_digest :: "session_host \<Rightarrow> string \<Rightarrow> (sha256_digest, session_error) result" where
  "hex_digest h bytes = map_err (\<lambda>_. Tampered) (parse_sha256_digest (sh_hex_encode h bytes))"

definition session_mac ::
  "session_host \<Rightarrow> string \<Rightarrow> state_body \<Rightarrow> (sha256_digest, session_error) result" where
  "session_mac h key body =
     and_then (canonical h body_value body) (\<lambda>input.
     and_then (ok_or (sh_hmac h key (''phantom.session.state.v3'' @ NUL @ input)) InvalidKey) (\<lambda>tag.
       hex_digest h tag))"

definition transition_digest ::
  "session_host \<Rightarrow> genesis_binding \<Rightarrow> transition \<Rightarrow> (sha256_digest, session_error) result" where
  "transition_digest h g t =
     and_then (canonical h transition_identity (g, t)) (\<lambda>input.
       hex_digest h (sh_sha256 h (''phantom.session.transition.v3'' @ NUL @ input)))"

definition completion_digest :: "session_host \<Rightarrow> genesis_binding \<Rightarrow> sha256_digest
    \<Rightarrow> step_completion \<Rightarrow> (sha256_digest, session_error) result" where
  "completion_digest h g transition_id c =
     and_then (canonical h completion_identity (g, transition_id, c)) (\<lambda>input.
       hex_digest h (sh_sha256 h (''phantom.session.completion.v1'' @ NUL @ input)))"

subsection \<open>Validation\<close>

text \<open>The arms of the match; the variant of an intent is its step.\<close>

definition legal_arms :: "(session_phase \<times> session_phase \<times> subsystem_step) list" where
  "legal_arms =
     [(Created, AuthorityEvaluated, RecordAuthority),
      (Created, AuthorityDenied, RecordAuthority),
      (AuthorityEvaluated, LeaseReserved, ReserveLease),
      (LeaseReserved, PermitActive, ActivatePermit),
      (PermitActive, WorkerObserved, RecordWorker),
      (WorkerObserved, PermitTerminal, TerminalizePermit),
      (PermitTerminal, RollbackResolved, ResolveRollback),
      (AuthorityDenied, EvidenceFinalized, FinalizeEvidence),
      (RollbackResolved, EvidenceFinalized, FinalizeEvidence),
      (EvidenceFinalized, ReceiptPersisted, PersistReceipt),
      (ReceiptPersisted, Complete, MarkComplete)]"

definition validate :: "transition \<Rightarrow> session_phase \<Rightarrow> (unit, session_error) result" where
  "validate t current =
     (if tr_from t \<noteq> current then Err IllegalTransition
      else if (tr_from t, tr_to t, intent_step (tr_intent t)) \<in> set legal_arms then Ok () else Err IllegalTransition)"

fun check_completed :: "session_host \<Rightarrow> genesis_binding \<Rightarrow> completed list
    \<Rightarrow> (unit, session_error) result" where
  "check_completed h g [] = Ok ()"
| "check_completed h g (c # cs) =
     and_then (completion_digest h g (co_transition_id c) (co_completion c)) (\<lambda>d.
       if d \<noteq> co_completion_id c then Err Tampered else check_completed h g cs)"

definition validate_state_bindings :: "session_host \<Rightarrow> state_body \<Rightarrow> (unit, session_error) result" where
  "validate_state_bindings h body =
     and_then (case sb_pending body of
         None \<Rightarrow> Ok ()
       | Some p \<Rightarrow>
           and_then (transition_digest h (sb_genesis body) (pe_transition p)) (\<lambda>d.
             if d \<noteq> pe_transition_id p \<or> tr_from (pe_transition p) \<noteq> sb_phase body then Err Tampered
             else validate (pe_transition p) (sb_phase body)))
       (\<lambda>_. check_completed h (sb_genesis body) (sb_completed body))"

subsection \<open>Reading and writing the file\<close>

definition load :: "session_host \<Rightarrow> journal \<Rightarrow> session_io \<Rightarrow> private_dir
    \<Rightarrow> (state_body, session_error) result" where
  "load h j io d =
     and_then (map_err journal_storage_error (open_file (sio_open io) d (jn_state j))) (\<lambda>f.
     and_then (checked Io (sio_metadata io)) (\<lambda>_.
     if MAX_STATE < length f then Err Oversized
     else and_then (checked Io (sio_read io)) (\<lambda>_.
     let b = take (MAX_STATE + 1) f in
     if MAX_STATE < length b then Err Oversized
     else and_then (map_err (\<lambda>e. if e = UnexpectedEof then Truncated else Tampered)
         (sh_from_slice h b)) (\<lambda>sf.
     and_then (canonical h file_value sf) (\<lambda>again.
     if again \<noteq> b then Err NonCanonical
     else and_then (session_mac h (jn_key j) (sf_body sf)) (\<lambda>expected.
     if expected \<noteq> sf_mac sf then Err Tampered
     else if sb_version (sf_body sf) \<noteq> SESSION_VERSION \<or> sb_genesis (sf_body sf) \<noteq> jn_genesis j
       then Err GenesisMismatch
     else if MAX_COMPLETED_TRANSITIONS < length (sb_completed (sf_body sf)) then Err Oversized
     else and_then (validate_state_bindings h (sf_body sf)) (\<lambda>_. Ok (sf_body sf))))))))"

definition file_bytes :: "session_host \<Rightarrow> journal \<Rightarrow> state_body \<Rightarrow> (string, session_error) result" where
  "file_bytes h j body =
     and_then (session_mac h (jn_key j) body) (\<lambda>tag.
     and_then (canonical h file_value \<lparr>sf_body = body, sf_mac = tag\<rparr>) (\<lambda>b.
       if MAX_STATE < length b then Err Oversized else Ok b))"

definition write_state :: "session_host \<Rightarrow> journal \<Rightarrow> session_io \<Rightarrow> state_body \<Rightarrow> private_dir
    \<Rightarrow> (unit, session_error) result \<times> private_dir" where
  "write_state h j io body d =
     (case file_bytes h j body of
        Inl e \<Rightarrow> (Err e, d)
      | Inr b \<Rightarrow>
          (case replace_file (sio_replace io) d (jn_state j) b of
             (r, d') \<Rightarrow> (map_err journal_storage_error r, d')))"

definition lock :: "journal \<Rightarrow> session_io \<Rightarrow> private_dir
    \<Rightarrow> (unit, session_error) result \<times> private_dir" where
  "lock j io d =
     (case sio_lock_open io of
        Some e \<Rightarrow> (Err (journal_storage_error e), d)
      | None \<Rightarrow>
          (checked Io (sio_lock io), if d (jn_lock j) = None then d(jn_lock j \<mapsto> []) else d))"

subsection \<open>Operations\<close>

text \<open>
  The paths that \<open>prepare\<close> resolves are arguments: the kind of the root, the canonical components of
  the root and of the workspace, and whether the private directory could be opened.
\<close>

record session_paths =
  spa_root_real :: "(bool, io_error) result"
  spa_root :: "string list option"
  spa_workspace :: "string list option"
  spa_directory :: "io_error option"

definition ensure_real_dir :: "(bool, io_error) result \<Rightarrow> (unit, session_error) result" where
  "ensure_real_dir m = and_then (map_err Io m) (\<lambda>real. if real then Ok () else Err UnsafeStorage)"

definition prepare :: "session_paths \<Rightarrow> genesis_binding \<Rightarrow> string \<Rightarrow> (journal, session_error) result" where
  "prepare paths g key =
     (if list_all (\<lambda>b. b = CHR 0x00) key then Err InvalidKey
      else and_then (ensure_real_dir (spa_root_real paths)) (\<lambda>_.
        and_then (ok_or (spa_root paths) UnsafeStorage) (\<lambda>root.
        and_then (ok_or (spa_workspace paths) UnsafeStorage) (\<lambda>workspace.
        if prefix workspace root \<or> prefix root workspace then Err StorageOverlap
        else and_then (checked journal_storage_error (spa_directory paths)) (\<lambda>_.
          Ok \<lparr>jn_state = session_id_str (gb_session_id g) @ ''.json'',
              jn_lock = session_id_str (gb_session_id g) @ ''.lock'',
              jn_genesis = g, jn_key = key\<rparr>)))))"

definition initial_body :: "genesis_binding \<Rightarrow> state_body" where
  "initial_body g =
     \<lparr>sb_version = SESSION_VERSION, sb_genesis = g, sb_generation = 0, sb_phase = Created,
      sb_pending = None, sb_completed = []\<rparr>"

text \<open>The check for an existing file and the final \<open>load\<close> each meet their own \<open>session_io\<close>.\<close>

definition journal_bootstrap :: "session_host \<Rightarrow> session_paths \<Rightarrow> session_id \<Rightarrow> sha256_digest \<Rightarrow> sha256_digest
    \<Rightarrow> string \<Rightarrow> string \<Rightarrow> session_io \<Rightarrow> session_io \<Rightarrow> private_dir
    \<Rightarrow> (journal, session_error) result \<times> private_dir" where
  "journal_bootstrap h paths sid workspace_digest root_digest key store_id_bytes io io' d =
     (if list_all (\<lambda>b. b = CHR 0x00) store_id_bytes then (Err InvalidStoreId, d)
      else case and_then (hex_digest h store_id_bytes) (\<lambda>store_id.
             prepare paths \<lparr>gb_session_id = sid, gb_workspace_identity_digest = workspace_digest,
               gb_action_intent_root_digest = root_digest, gb_store_id = store_id\<rparr> key) of
        Inl e \<Rightarrow> (Err e, d)
      | Inr j \<Rightarrow>
          (case lock j io d of
             (Inl e, d') \<Rightarrow> (Err e, d')
           | (Inr _, d') \<Rightarrow>
               (case open_file (sio_open io) d' (jn_state j) of
                  Inr _ \<Rightarrow> (Err StateAlreadyExists, d')
                | Inl e \<Rightarrow>
                    if e \<noteq> NotFound then (Err (journal_storage_error e), d')
                    else case write_state h j io (initial_body (jn_genesis j)) d' of
                      (Inl e, d'') \<Rightarrow> (Err e, d'')
                    | (Inr _, d'') \<Rightarrow> (and_then (load h j io' d'') (\<lambda>_. Ok j), d''))))"

definition journal_open_existing :: "session_host \<Rightarrow> session_paths \<Rightarrow> genesis_binding \<Rightarrow> string
    \<Rightarrow> session_io \<Rightarrow> session_io \<Rightarrow> private_dir \<Rightarrow> (journal, session_error) result \<times> private_dir" where
  "journal_open_existing h paths g key io io' d =
     (case prepare paths g key of
        Inl e \<Rightarrow> (Err e, d)
      | Inr j \<Rightarrow>
          (case lock j io d of
             (Inl e, d') \<Rightarrow> (Err e, d')
           | (Inr _, d') \<Rightarrow>
               (case open_file (sio_open io) d' (jn_state j) of
                  Inl e \<Rightarrow> (Err (if e = NotFound then MissingState else journal_storage_error e), d')
                | Inr _ \<Rightarrow> (and_then (load h j io' d') (\<lambda>_. Ok j), d'))))"

definition intend :: "session_host \<Rightarrow> journal \<Rightarrow> session_io \<Rightarrow> u64 \<Rightarrow> transition \<Rightarrow> private_dir
    \<Rightarrow> (transition_result, session_error) result \<times> private_dir" where
  "intend h j io expected t d =
     (case transition_digest h (jn_genesis j) t of
        Inl e \<Rightarrow> (Err e, d)
      | Inr transition_id \<Rightarrow>
          (case lock j io d of
             (Inl e, d') \<Rightarrow> (Err e, d')
           | (Inr _, d') \<Rightarrow>
               (case load h j io d' of
                  Inl e \<Rightarrow> (Err e, d')
                | Inr s \<Rightarrow>
                    (case sb_pending s of
                       Some p \<Rightarrow>
                         (if pe_transition_id p = transition_id \<and> pe_transition p = t
                          then Ok (ExistingTransition transition_id (sb_generation s)) else Err Conflict, d')
                     | None \<Rightarrow>
                         if list_ex (\<lambda>c. co_transition_id c = transition_id) (sb_completed s)
                         then (Ok (ExistingTransition transition_id (sb_generation s)), d')
                         else if sb_generation s \<noteq> expected then (Err GenerationMismatch, d')
                         else case and_then (validate t (sb_phase s)) (\<lambda>_.
                             ok_or (checked_add (sb_generation s) 1) GenerationExhausted) of
                           Inl e \<Rightarrow> (Err e, d')
                         | Inr generation \<Rightarrow>
                             (case write_state h j io (s\<lparr>sb_pending := Some \<lparr>pe_transition_id = transition_id,
                                  pe_transition = t\<rparr>, sb_generation := generation\<rparr>) d' of
                                (r, d'') \<Rightarrow>
                                  (and_then r (\<lambda>_. Ok (NewTransition transition_id generation)), d''))))))"

definition complete :: "session_host \<Rightarrow> journal \<Rightarrow> session_io \<Rightarrow> u64 \<Rightarrow> sha256_digest
    \<Rightarrow> step_completion \<Rightarrow> private_dir \<Rightarrow> (transition_result, session_error) result \<times> private_dir" where
  "complete h j io expected transition_id c d =
     (case lock j io d of
        (Inl e, d') \<Rightarrow> (Err e, d')
      | (Inr _, d') \<Rightarrow>
          (case load h j io d' of
             Inl e \<Rightarrow> (Err e, d')
           | Inr s \<Rightarrow>
               (case find (\<lambda>x. co_transition_id x = transition_id) (sb_completed s) of
                  Some existing \<Rightarrow>
                    (if co_completion existing = c
                     then Ok (ExistingTransition transition_id (sb_generation s)) else Err Conflict, d')
                | None \<Rightarrow>
                    if sb_generation s \<noteq> expected then (Err GenerationMismatch, d')
                    else case sb_pending s of
                      None \<Rightarrow> (Err NoPending, d')
                    | Some p \<Rightarrow>
                        if pe_transition_id p \<noteq> transition_id then (Err Conflict, d')
                        else if intent_step (tr_intent (pe_transition p)) \<noteq> completion_step c
                        then (Err CompletionMismatch, d')
                        else if MAX_COMPLETED_TRANSITIONS \<le> length (sb_completed s)
                        then (Err TransitionLimit, d')
                        else case and_then (completion_digest h (jn_genesis j) transition_id c) (\<lambda>i.
                            and_then (ok_or (checked_add (sb_generation s) 1) GenerationExhausted)
                              (\<lambda>generation. Ok (i, generation))) of
                          Inl e \<Rightarrow> (Err e, d')
                        | Inr (completion_id, generation) \<Rightarrow>
                            (case write_state h j io (s\<lparr>sb_phase := tr_to (pe_transition p), sb_pending := None,
                                 sb_completed := sb_completed s @ [\<lparr>co_transition_id = pe_transition_id p,
                                   co_completion = c, co_completion_id = completion_id\<rparr>],
                                 sb_generation := generation\<rparr>) d' of
                               (r, d'') \<Rightarrow>
                                 (and_then r (\<lambda>_. Ok (NewTransition (pe_transition_id p) generation)), d'')))))"

definition recover :: "session_host \<Rightarrow> journal \<Rightarrow> session_io \<Rightarrow> private_dir
    \<Rightarrow> (recovery_outcome, session_error) result \<times> private_dir" where
  "recover h j io d =
     (case lock j io d of
        (Inl e, d') \<Rightarrow> (Err e, d')
      | (Inr _, d') \<Rightarrow>
          (and_then (load h j io d') (\<lambda>s.
             Ok (case sb_pending s of
                   Some p \<Rightarrow> Unfinished (pe_transition p) (pe_transition_id p) (sb_generation s)
                 | None \<Rightarrow> Clean (sb_phase s) (sb_generation s))), d'))"

end
