(* ===== verification/Faithful_Json.thy ===== *)
theory Faithful_Json
  imports Canonical_Json
begin

text \<open>
  Serializers whose canonical text determines the value: the shared part of the proofs that a file, a
  record or an identity commits to what it was written from.  Also: canonical text holds a byte only if
  the writer of string literals emits it.
\<close>

subsection \<open>Entries of equal objects\<close>

lemma normal_form_entry:
  assumes "normal_form (JObject es) = normal_form (JObject fs)"
    and "(k, v) \<in> set es" and "(k, w) \<in> set fs" and "distinct (map fst fs)"
  shows "normal_form v = normal_form w"
proof -
  let ?n = "\<lambda>e. (fst e, normal_form (snd e))"
  have "set (map ?n (sort_key fst es)) = set (map ?n (sort_key fst fs))"
    using assms(1) by (simp del: set_map)
  then have "?n ` set es = ?n ` set fs" by (simp only: set_map set_sort)
  moreover have "(k, normal_form v) \<in> ?n ` set es" using assms(2) by force
  ultimately obtain w' where "(k, w') \<in> set fs" "normal_form v = normal_form w'" by auto
  then show ?thesis using assms(3,4) by (metis eq_key_imp_eq_value)
qed

lemma normal_form_single [simp]: "normal_form (JObject [(k, v)]) = JObject [(k, normal_form v)]"
  by simp

text \<open>A serializer is faithful if its values agree up to the order of entries only when equal.\<close>

definition faithful :: "('a \<Rightarrow> json) \<Rightarrow> bool" where
  "faithful V \<longleftrightarrow> (\<forall>x. json_wf (V x)) \<and> (\<forall>x y. normal_form (V x) = normal_form (V y) \<longrightarrow> x = y)"

lemma faithfulI:
  "(\<And>x. json_wf (V x)) \<Longrightarrow> (\<And>x y. normal_form (V x) = normal_form (V y) \<Longrightarrow> x = y) \<Longrightarrow> faithful V"
  by (auto simp: faithful_def)

lemma faithful_wf [simp]: "faithful V \<Longrightarrow> json_wf (V x)"
  by (simp add: faithful_def)

lemma faithful_eq: "faithful V \<Longrightarrow> normal_form (V x) = normal_form (V y) \<longleftrightarrow> x = y"
  by (auto simp: faithful_def)

lemma faithful_list: "faithful V \<Longrightarrow> faithful (\<lambda>xs. JArray (map V xs))"
proof (rule faithfulI)
  fix xs ys
  assume V: "faithful V"
  show "json_wf (JArray (map V xs))" using V by simp
  assume "normal_form (JArray (map V xs)) = normal_form (JArray (map V ys))"
  then have "map (\<lambda>x. normal_form (V x)) xs = map (\<lambda>x. normal_form (V x)) ys"
    by (simp add: comp_def)
  then show "xs = ys" by (rule map_injective) (simp add: inj_def faithful_eq [OF V])
qed

text \<open>The canonical text under a faithful serializer determines the value.\<close>

lemma faithful_text_determines:
  assumes "faithful V" and "self_delimiting js"
    and "canonical_json_v1 js V x = Ok b" and "canonical_json_v1 js V y = Ok b"
  shows "x = y"
proof -
  have "write_canonical js (V x) = Ok b" "write_canonical js (V y) = Ok b"
    using assms(3,4) by (auto simp: canonical_json_v1_def)
  from canonical_text_injective [OF assms(2) _ _ this] have "normal_form (V x) = normal_form (V y)"
    using assms(1) by simp
  then show ?thesis using faithful_eq [OF assms(1)] by simp
qed

lemma faithful_unsigned: "faithful (\<lambda>n. JNumber (PosInt n))"
  by (rule faithfulI) simp_all

lemma faithful_text: "inj f \<Longrightarrow> faithful (\<lambda>x. JString (f x))"
  by (rule faithfulI) (simp_all add: inj_def)

subsection \<open>Bytes that canonical text never holds\<close>

lemma join_comma_set: "set (join_comma ss) \<subseteq> insert CHR '','' (\<Union> (set ` set ss))"
  by (induction ss rule: join_comma.induct) auto

lemma try_map_Ok_mem:
  "try_map f xs = Ok ys \<Longrightarrow> y \<in> set ys \<Longrightarrow> \<exists>x \<in> set xs. f x = Ok y"
  by (induction xs arbitrary: ys) (auto simp: res_simps)

definition punctuation :: "char set" where
  "punctuation = set ''nulltruefalse[]{},:'' \<union> number_chars"

lemma write_canonical_bytes:
  "(\<And>s. set (js s) \<subseteq> C) \<Longrightarrow> punctuation \<subseteq> C \<Longrightarrow> write_canonical js v = Ok b \<Longrightarrow> set b \<subseteq> C"
proof (induction js v arbitrary: b rule: write_canonical.induct)
  case (4 js n)
  then show ?case using show_number_chars [of n] by (auto simp: punctuation_def split: if_splits)
next
  case (6 js vs)
  then obtain ss where ss: "try_map (\<lambda>v. write_canonical js v) vs = Ok ss"
    "b = ''['' @ join_comma ss @ '']''" by (auto simp: res_simps)
  have "set s \<subseteq> C" if "s \<in> set ss" for s
    using try_map_Ok_mem [OF ss(1) that] 6 by blast
  moreover have "CHR '','' \<in> C" using "6.prems"(2) by (simp add: punctuation_def)
  ultimately have "set (join_comma ss) \<subseteq> C" using join_comma_set [of ss] by blast
  then show ?case using "6.prems"(2) by (simp add: ss(2) punctuation_def)
next
  case (7 js es)
  then obtain ss where ss: "try_map (\<lambda>e. and_then (write_canonical js (snd e))
      (\<lambda>s. Ok (js (fst e) @ '':'' @ s))) (sort_key fst es) = Ok ss"
    "b = ''{'' @ join_comma ss @ ''}''" by (auto simp: res_simps)
  have "set s \<subseteq> C" if s: "s \<in> set ss" for s
  proof -
    obtain e t where e: "e \<in> set (sort_key fst es)" "write_canonical js (snd e) = Ok t"
      "s = js (fst e) @ '':'' @ t"
      using try_map_Ok_mem [OF ss(1) s] by (auto simp: res_simps)
    then have "set t \<subseteq> C" using 7 by blast
    then show ?thesis using "7.prems"(1,2) by (simp add: e(3) punctuation_def)
  qed
  moreover have "CHR '','' \<in> C" using "7.prems"(2) by (simp add: punctuation_def)
  ultimately have "set (join_comma ss) \<subseteq> C" using join_comma_set [of ss] by blast
  then show ?case using "7.prems"(2) by (simp add: ss(2) punctuation_def)
qed (auto simp: punctuation_def)

lemma canonical_text_lacks:
  assumes "\<And>s. c \<notin> set (js s)" and "c \<notin> punctuation" and "canonical_json_v1 js V x = Ok b"
  shows "c \<notin> set b"
  using write_canonical_bytes [of js "- {c}" "V x" b] assms by (auto simp: canonical_json_v1_def)

end
