(* ===== verification/Session_Facts.thy ===== *)
theory Session_Facts
  imports Session_Journal Faithful_Json
begin

text \<open>
  The serialized forms of the session journal determine what they were written from, and what a
  successful \<open>load\<close> says about the file.
\<close>

subsection \<open>Faithful serializers\<close>

lemma faithful_digest: "faithful digest_value"
  by (rule faithfulI) (auto simp: digest_value_def intro: sha256_digest.expand)

lemma faithful_phase: "faithful phase_value"
proof (rule faithfulI)
  fix x y :: session_phase
  show "json_wf (phase_value x)" by (cases x) simp_all
  assume "normal_form (phase_value x) = normal_form (phase_value y)"
  then show "x = y" by (cases x; cases y; simp)
qed

lemma normal_form_tagged:
  "normal_form (tagged v f d) = JObject [(v, JObject [(f, digest_value d)])]"
  by (simp add: tagged_def digest_value_def)

lemma tagged_wf [simp]: "json_wf (tagged v f d)"
  by (simp add: tagged_def digest_value_def)

lemma digest_value_inj [simp]: "digest_value d = digest_value e \<longleftrightarrow> d = e"
  by (auto simp: digest_value_def intro: sha256_digest.expand)

lemma faithful_intent: "faithful intent_value"
proof (rule faithfulI)
  fix x y :: step_intent
  show "json_wf (intent_value x)" by (cases x) simp_all
  assume "normal_form (intent_value x) = normal_form (intent_value y)"
  then show "x = y" by (cases x; cases y; simp add: normal_form_tagged)
qed

lemma faithful_completion: "faithful completion_value"
proof (rule faithfulI)
  fix x y :: step_completion
  show "json_wf (completion_value x)" by (cases x) simp_all
  assume "normal_form (completion_value x) = normal_form (completion_value y)"
  then show "x = y" by (cases x; cases y; simp add: normal_form_tagged)
qed

lemma faithful_transition: "faithful transition_value"
proof (rule faithfulI)
  fix x y :: transition
  show "json_wf (transition_value x)"
    by (simp add: transition_value_def faithful_phase faithful_intent)
  assume eq: "normal_form (transition_value x) = normal_form (transition_value y)"
  note entry = normal_form_entry [OF eq [unfolded transition_value_def]]
  have "tr_from x = tr_from y" "tr_to x = tr_to y" "tr_intent x = tr_intent y"
    using entry [of "''from''"] entry [of "''to''"] entry [of "''intent''"]
      faithful_eq [OF faithful_phase] faithful_eq [OF faithful_intent] by simp_all
  then show "x = y" by simp
qed

lemma faithful_genesis: "faithful genesis_value"
proof (rule faithfulI)
  fix x y :: genesis_binding
  show "json_wf (genesis_value x)" by (simp add: genesis_value_def faithful_digest)
  assume eq: "normal_form (genesis_value x) = normal_form (genesis_value y)"
  note entry = normal_form_entry [OF eq [unfolded genesis_value_def]]
  have "gb_workspace_identity_digest x = gb_workspace_identity_digest y"
    "gb_action_intent_root_digest x = gb_action_intent_root_digest y" "gb_store_id x = gb_store_id y"
    using entry [of "''workspace_identity_digest''"] entry [of "''action_intent_root_digest''"]
      entry [of "''store_id''"] faithful_eq [OF faithful_digest] by simp_all
  moreover have "gb_session_id x = gb_session_id y"
    using entry [of "''session_id''"] by (simp add: session_id.expand)
  ultimately show "x = y" by simp
qed

lemma faithful_pending: "faithful pending_value"
proof (rule faithfulI)
  fix x y :: "pending option"
  show "json_wf (pending_value x)" by (cases x) (simp_all add: faithful_digest faithful_transition)
  assume eq: "normal_form (pending_value x) = normal_form (pending_value y)"
  show "x = y"
  proof (cases "x = None \<or> y = None")
    case True
    then show ?thesis using eq by (cases x; cases y) (auto simp del: sort_key_simps)
  next
    case False
    then obtain p q where xy: "x = Some p" "y = Some q" by auto
    note entry = normal_form_entry [OF eq [unfolded xy pending_value.simps]]
    have "pe_transition_id p = pe_transition_id q" "pe_transition p = pe_transition q"
      using entry [of "''transition_id''"] entry [of "''transition''"]
        faithful_eq [OF faithful_digest] faithful_eq [OF faithful_transition] by simp_all
    then show ?thesis by (simp add: xy)
  qed
qed

lemma faithful_completed: "faithful completed_value"
proof (rule faithfulI)
  fix x y :: completed
  show "json_wf (completed_value x)"
    by (simp add: completed_value_def faithful_digest faithful_completion)
  assume eq: "normal_form (completed_value x) = normal_form (completed_value y)"
  note entry = normal_form_entry [OF eq [unfolded completed_value_def]]
  have "co_transition_id x = co_transition_id y" "co_completion x = co_completion y"
    "co_completion_id x = co_completion_id y"
    using entry [of "''transition_id''"] entry [of "''completion''"] entry [of "''completion_id''"]
      faithful_eq [OF faithful_digest] faithful_eq [OF faithful_completion] by simp_all
  then show "x = y" by simp
qed

lemma faithful_body: "faithful body_value"
proof (rule faithfulI)
  fix x y :: state_body
  show "json_wf (body_value x)"
    using faithful_wf [OF faithful_list [OF faithful_completed]]
    by (simp add: body_value_def faithful_genesis faithful_phase faithful_pending faithful_completed)
  assume eq: "normal_form (body_value x) = normal_form (body_value y)"
  note entry = normal_form_entry [OF eq [unfolded body_value_def]]
  have "(ucast (sb_version x) :: u64) = ucast (sb_version y)" "sb_generation x = sb_generation y"
    using entry [of "''version''"] entry [of "''generation''"] by simp_all
  moreover from this(1) have "ucast (ucast (sb_version x) :: u64) = (ucast (ucast (sb_version y) :: u64) :: u8)"
    by simp
  then have "sb_version x = sb_version y" by (simp add: ucast_up_ucast_id is_up)
  moreover have "sb_genesis x = sb_genesis y" "sb_phase x = sb_phase y" "sb_pending x = sb_pending y"
    using entry [of "''genesis''"] entry [of "''phase''"] entry [of "''pending''"]
      faithful_eq [OF faithful_genesis] faithful_eq [OF faithful_phase]
      faithful_eq [OF faithful_pending] by simp_all
  moreover have "sb_completed x = sb_completed y"
    using entry [of "''completed''" "JArray (map completed_value (sb_completed x))"
        "JArray (map completed_value (sb_completed y))"]
      faithful_eq [OF faithful_list [OF faithful_completed]] by simp
  ultimately show "x = y" by simp
qed

lemma faithful_file: "faithful file_value"
proof (rule faithfulI)
  fix x y :: state_file
  show "json_wf (file_value x)" by (simp add: file_value_def faithful_body faithful_digest)
  assume eq: "normal_form (file_value x) = normal_form (file_value y)"
  note entry = normal_form_entry [OF eq [unfolded file_value_def]]
  have "sf_body x = sf_body y" "sf_mac x = sf_mac y"
    using entry [of "''body''"] entry [of "''mac''"]
      faithful_eq [OF faithful_body] faithful_eq [OF faithful_digest] by simp_all
  then show "x = y" by simp
qed

lemma faithful_transition_identity: "faithful transition_identity"
proof (rule faithfulI, unfold split_paired_all)
  fix g t g' t'
  show "json_wf (transition_identity (g, t))"
    by (simp add: transition_identity_def faithful_genesis faithful_transition)
  assume eq: "normal_form (transition_identity (g, t)) = normal_form (transition_identity (g', t'))"
  note entry = normal_form_entry [OF eq [unfolded transition_identity_def prod.case]]
  show "(g, t) = (g', t')"
    using entry [of "''genesis''"] entry [of "''transition''"]
      faithful_eq [OF faithful_genesis] faithful_eq [OF faithful_transition] by simp
qed

lemma faithful_completion_identity: "faithful completion_identity"
proof (rule faithfulI, unfold split_paired_all)
  fix g i c g' i' c'
  show "json_wf (completion_identity (g, i, c))"
    by (simp add: completion_identity_def faithful_genesis faithful_digest faithful_completion)
  assume eq: "normal_form (completion_identity (g, i, c)) = normal_form (completion_identity (g', i', c'))"
  note entry = normal_form_entry [OF eq [unfolded completion_identity_def prod.case]]
  show "(g, i, c) = (g', i', c')"
    using entry [of "''genesis''"] entry [of "''transition_id''"] entry [of "''completion''"]
      faithful_eq [OF faithful_genesis] faithful_eq [OF faithful_digest]
      faithful_eq [OF faithful_completion] by simp
qed

lemma canonical_determines:
  assumes "faithful V" and "self_delimiting (sh_escape h)"
    and "canonical h V x = Ok b" and "canonical h V y = Ok b"
  shows "x = y"
  using faithful_text_determines [OF assms(1,2)] assms(3,4)
  by (auto simp: canonical_def res_simps)

subsection \<open>What a load returns\<close>

definition reads :: "session_io \<Rightarrow> bool" where
  "reads io \<longleftrightarrow> sio_open io = None \<and> sio_metadata io = None \<and> sio_read io = None"

text \<open>The conditions on a body that a load checks after the file itself is authentic.\<close>

definition well_bound :: "session_host \<Rightarrow> journal \<Rightarrow> state_body \<Rightarrow> bool" where
  "well_bound h j s \<longleftrightarrow> sb_version s = SESSION_VERSION \<and> sb_genesis s = jn_genesis j
     \<and> length (sb_completed s) \<le> MAX_COMPLETED_TRANSITIONS \<and> validate_state_bindings h s = Ok ()"

lemma unit_Ok: "(\<exists>u. m = Inr u) \<longleftrightarrow> m = Inr ()"
  by simp

lemma load_Ok:
  "load h j io d = Ok s \<longleftrightarrow> reads io \<and> well_bound h j s
     \<and> (\<exists>f tag. d (jn_state j) = Some f \<and> sh_from_slice h f = Ok \<lparr>sf_body = s, sf_mac = tag\<rparr>
          \<and> session_mac h (jn_key j) s = Ok tag \<and> file_bytes h j s = Ok f)" (is "?l \<longleftrightarrow> ?r")
proof
  assume ?l
  then obtain f sf where f: "reads io" "d (jn_state j) = Some f" "\<not> MAX_STATE < length f"
    "sh_from_slice h (take (MAX_STATE + 1) f) = Ok sf"
    "canonical h file_value sf = Ok (take (MAX_STATE + 1) f)"
    "session_mac h (jn_key j) (sf_body sf) = Ok (sf_mac sf)" "s = sf_body sf"
    "well_bound h j s"
    by (auto simp: load_def res_simps Let_def reads_def well_bound_def split: if_splits)
  obtain body tag where sf: "sf = \<lparr>sf_body = body, sf_mac = tag\<rparr>" by (cases sf) simp
  have "take (MAX_STATE + 1) f = f" using f(3) by simp
  then have "sh_from_slice h f = Ok \<lparr>sf_body = s, sf_mac = tag\<rparr>" "session_mac h (jn_key j) s = Ok tag"
    "canonical h file_value \<lparr>sf_body = s, sf_mac = tag\<rparr> = Ok f" using f sf by auto
  moreover from this have "file_bytes h j s = Ok f" using f(3) by (simp add: file_bytes_def)
  ultimately show ?r using f by blast
next
  assume ?r
  then obtain f tag where f: "reads io" "well_bound h j s" "d (jn_state j) = Some f"
    "sh_from_slice h f = Ok \<lparr>sf_body = s, sf_mac = tag\<rparr>" "session_mac h (jn_key j) s = Ok tag"
    "file_bytes h j s = Ok f" by blast
  then have "\<not> MAX_STATE < length f" "canonical h file_value \<lparr>sf_body = s, sf_mac = tag\<rparr> = Ok f"
    by (auto simp: file_bytes_def res_simps split: if_splits)
  then show ?l using f
    by (auto simp: load_def res_simps Let_def reads_def well_bound_def)
qed

text \<open>The bytes of a file determine the body, whatever key it was written under.\<close>

lemma file_bytes_determine:
  assumes "self_delimiting (sh_escape h)" and "file_bytes h j s = Ok b" and "file_bytes h j' s' = Ok b"
  shows "s = s'"
proof -
  obtain m m' where "canonical h file_value \<lparr>sf_body = s, sf_mac = m\<rparr> = Ok b"
    "canonical h file_value \<lparr>sf_body = s', sf_mac = m'\<rparr> = Ok b"
    using assms(2,3) by (auto simp: file_bytes_def res_simps split: if_splits)
  from canonical_determines [OF faithful_file assms(1) this] show ?thesis by simp
qed

subsection \<open>The contract of the journal\<close>

text \<open>
  What the operations promise, on bodies alone: a transition is announced when none is pending, it
  is legal from the phase and its identifier is new; a completion of the same step is recorded for
  the pending one.
\<close>

definition transition_ids :: "state_body \<Rightarrow> sha256_digest list" where
  "transition_ids s = map co_transition_id (sb_completed s)"

inductive body_step :: "session_host \<Rightarrow> state_body \<Rightarrow> state_body \<Rightarrow> bool" for h where
  announcing: "sb_pending s = None \<Longrightarrow> transition_digest h (sb_genesis s) t = Ok i
    \<Longrightarrow> i \<notin> set (transition_ids s) \<Longrightarrow> validate t (sb_phase s) = Ok ()
    \<Longrightarrow> checked_add (sb_generation s) 1 = Some n
    \<Longrightarrow> body_step h s (s\<lparr>sb_pending := Some \<lparr>pe_transition_id = i, pe_transition = t\<rparr>,
          sb_generation := n\<rparr>)"
| recording: "sb_pending s = Some p \<Longrightarrow> pe_transition_id p \<notin> set (transition_ids s)
    \<Longrightarrow> intent_step (tr_intent (pe_transition p)) = completion_step c
    \<Longrightarrow> completion_digest h (sb_genesis s) (pe_transition_id p) c = Ok k
    \<Longrightarrow> checked_add (sb_generation s) 1 = Some n
    \<Longrightarrow> body_step h s (s\<lparr>sb_phase := tr_to (pe_transition p), sb_pending := None,
          sb_completed := sb_completed s @ [\<lparr>co_transition_id = pe_transition_id p,
            co_completion = c, co_completion_id = k\<rparr>], sb_generation := n\<rparr>)"

inductive_cases body_stepE: "body_step h s s'"

definition reachable_body :: "session_host \<Rightarrow> genesis_binding \<Rightarrow> state_body \<Rightarrow> bool" where
  "reachable_body h g s = (body_step h)\<^sup>*\<^sup>* (initial_body g) s"

lemma reachable_body_induct [consumes 1, case_names start step]:
  assumes "reachable_body h g s" and "P (initial_body g)"
    and "\<And>s s'. reachable_body h g s \<Longrightarrow> P s \<Longrightarrow> body_step h s s' \<Longrightarrow> P s'"
  shows "P s"
  using assms(1) unfolding reachable_body_def
  by (induction rule: rtranclp_induct) (use assms(2,3) in \<open>auto simp: reachable_body_def\<close>)

lemma reachable_body_start [simp]: "reachable_body h g (initial_body g)"
  by (simp add: reachable_body_def)

lemma reachable_body_step: "reachable_body h g s \<Longrightarrow> body_step h s s' \<Longrightarrow> reachable_body h g s'"
  by (auto simp: reachable_body_def)

lemma reachable_genesis: "reachable_body h g s \<Longrightarrow> sb_genesis s = g"
  by (induction rule: reachable_body_induct) (auto simp: initial_body_def elim!: body_stepE)

lemma body_step_ids:
  assumes "body_step h s s'"
  shows "set (transition_ids s) \<subseteq> set (transition_ids s')"
    and "distinct (transition_ids s) \<Longrightarrow> distinct (transition_ids s')"
  using assms by (auto simp: transition_ids_def elim!: body_stepE)

lemma reachable_distinct: "reachable_body h g s \<Longrightarrow> distinct (transition_ids s)"
  by (induction rule: reachable_body_induct)
    (auto simp: initial_body_def transition_ids_def dest: body_step_ids(2) [unfolded transition_ids_def])

subsection \<open>Tracks\<close>

text \<open>The two ways through a session: with authority granted and with authority denied.\<close>

definition granted_track :: "(subsystem_step \<times> session_phase) list" where
  "granted_track =
     [(RecordAuthority, AuthorityEvaluated), (ReserveLease, LeaseReserved),
      (ActivatePermit, PermitActive), (RecordWorker, WorkerObserved),
      (TerminalizePermit, PermitTerminal), (ResolveRollback, RollbackResolved),
      (FinalizeEvidence, EvidenceFinalized), (PersistReceipt, ReceiptPersisted),
      (MarkComplete, Complete)]"

definition denied_track :: "(subsystem_step \<times> session_phase) list" where
  "denied_track =
     [(RecordAuthority, AuthorityDenied), (FinalizeEvidence, EvidenceFinalized),
      (PersistReceipt, ReceiptPersisted), (MarkComplete, Complete)]"

definition phase_after :: "(subsystem_step \<times> session_phase) list \<Rightarrow> nat \<Rightarrow> session_phase" where
  "phase_after track n = (Created # map snd track) ! n"

definition follows :: "(subsystem_step \<times> session_phase) list \<Rightarrow> state_body \<Rightarrow> bool" where
  "follows track s \<longleftrightarrow>
     (let n = length (sb_completed s) in
        n \<le> length track
        \<and> map (\<lambda>c. completion_step (co_completion c)) (sb_completed s) = map fst (take n track)
        \<and> sb_phase s = phase_after track n
        \<and> (case sb_pending s of
              None \<Rightarrow> True
            | Some p \<Rightarrow> n < length track \<and> tr_from (pe_transition p) = sb_phase s
                \<and> intent_step (tr_intent (pe_transition p)) = fst (track ! n)
                \<and> tr_to (pe_transition p) = snd (track ! n)))"

definition expected_generation :: "state_body \<Rightarrow> nat" where
  "expected_generation s = 2 * length (sb_completed s) + (if sb_pending s = None then 0 else 1)"

lemma granted_arm:
  assumes "n \<le> length granted_track" and "(phase_after granted_track n, to, st) \<in> set legal_arms"
  shows "n < length granted_track \<and> (granted_track ! n = (st, to) \<or> n = 0 \<and> denied_track ! n = (st, to))"
proof -
  have "n \<in> set [0..<10]" using assms(1) by (simp add: granted_track_def)
  then show ?thesis using assms(2)
    by (auto simp: upt_rec granted_track_def denied_track_def phase_after_def legal_arms_def)
qed

lemma denied_arm:
  assumes "n \<le> length denied_track" and "(phase_after denied_track n, to, st) \<in> set legal_arms"
  shows "n < length denied_track \<and> (denied_track ! n = (st, to) \<or> n = 0 \<and> granted_track ! n = (st, to))"
proof -
  have "n \<in> set [0..<5]" using assms(1) by (simp add: denied_track_def)
  then show ?thesis using assms(2)
    by (auto simp: upt_rec granted_track_def denied_track_def phase_after_def legal_arms_def)
qed

lemma track_arm:
  assumes "track \<in> {granted_track, denied_track}" and "n \<le> length track"
    and "(phase_after track n, to, st) \<in> set legal_arms"
  shows "\<exists>track' \<in> {granted_track, denied_track}. n < length track' \<and> take n track' = take n track
    \<and> phase_after track' n = phase_after track n \<and> track' ! n = (st, to)"
proof -
  have other: "phase_after track' 0 = Created" for track' by (simp add: phase_after_def)
  show ?thesis
    using granted_arm [of n to st] denied_arm [of n to st] assms other
    by (auto simp: granted_track_def denied_track_def)
qed

lemma validate_arm:
  "validate t ph = Ok () \<Longrightarrow> tr_from t = ph \<and> (ph, tr_to t, intent_step (tr_intent t)) \<in> set legal_arms"
  by (auto simp: validate_def split: if_splits)

lemma follows_step:
  assumes "follows track s" and "track \<in> {granted_track, denied_track}" and "body_step h s s'"
  shows "\<exists>track' \<in> {granted_track, denied_track}. follows track' s'"
  using assms(3)
proof cases
  case (announcing t i n)
  note v = validate_arm [OF announcing(5)]
  have f: "length (sb_completed s) \<le> length track" "sb_phase s = phase_after track (length (sb_completed s))"
    "map (\<lambda>c. completion_step (co_completion c)) (sb_completed s) = map fst (take (length (sb_completed s)) track)"
    using assms(1) by (auto simp: follows_def Let_def)
  obtain track' where t': "track' \<in> {granted_track, denied_track}" "length (sb_completed s) < length track'"
    "take (length (sb_completed s)) track' = take (length (sb_completed s)) track"
    "phase_after track' (length (sb_completed s)) = sb_phase s"
    "track' ! length (sb_completed s) = (intent_step (tr_intent t), tr_to t)"
    using track_arm [OF assms(2) f(1)] v f(2) by metis
  then have "follows track' s'"
    using f v by (simp add: follows_def Let_def announcing(1))
  then show ?thesis using t'(1) by blast
next
  case (recording p c k n)
  let ?n = "length (sb_completed s)"
  have f: "?n < length track" "map (\<lambda>c. completion_step (co_completion c)) (sb_completed s) = map fst (take ?n track)"
    "completion_step c = fst (track ! ?n)" "tr_to (pe_transition p) = snd (track ! ?n)"
    using assms(1) recording(2,4) by (auto simp: follows_def Let_def)
  have "take (Suc ?n) track = take ?n track @ [track ! ?n]" using f(1) by (rule take_Suc_conv_app_nth)
  moreover have "phase_after track (Suc ?n) = snd (track ! ?n)" using f(1) by (simp add: phase_after_def)
  ultimately have "follows track s'"
    using f by (simp add: follows_def Let_def recording(1))
  then show ?thesis using assms(2) by blast
qed

lemma reachable_follows:
  "reachable_body h g s \<Longrightarrow> \<exists>track \<in> {granted_track, denied_track}. follows track s"
proof (induction rule: reachable_body_induct)
  case start
  have "follows granted_track (initial_body g)"
    by (simp add: follows_def initial_body_def phase_after_def)
  then show ?case by blast
next
  case (step s s')
  then show ?case using follows_step by blast
qed

lemma reachable_generation: "reachable_body h g s \<Longrightarrow> unat (sb_generation s) = expected_generation s"
proof (induction rule: reachable_body_induct)
  case start
  then show ?case by (simp add: initial_body_def expected_generation_def)
next
  case (step s s')
  note IH = \<open>unat (sb_generation s) = expected_generation s\<close>
  from \<open>body_step h s s'\<close> show ?case
  proof cases
    case (announcing t i n)
    then show ?thesis using IH checked_add_Some_unat [OF announcing(6)]
      by (simp add: expected_generation_def)
  next
    case (recording p c k n)
    then show ?thesis using IH checked_add_Some_unat [OF recording(6)]
      by (simp add: expected_generation_def)
  qed
qed

lemma reachable_small:
  assumes "reachable_body h g s"
  shows "length (sb_completed s) \<le> 9" and "sb_pending s \<noteq> None \<Longrightarrow> length (sb_completed s) < 9"
    and "checked_add (sb_generation s) 1 = Some (sb_generation s + 1)"
proof -
  obtain track where t: "track \<in> {granted_track, denied_track}" "follows track s"
    using reachable_follows [OF assms] by blast
  have len: "length track \<le> 9" using t(1) by (auto simp: granted_track_def denied_track_def)
  show n: "length (sb_completed s) \<le> 9" using t(2) len by (auto simp: follows_def Let_def)
  show "sb_pending s \<noteq> None \<Longrightarrow> length (sb_completed s) < 9"
    using t(2) len by (auto simp: follows_def Let_def)
  have "unat (sb_generation s) \<le> 19"
    using reachable_generation [OF assms] n by (simp add: expected_generation_def)
  then show "checked_add (sb_generation s) 1 = Some (sb_generation s + 1)"
    by (simp add: checked_add_def)
qed

end
