(* ===== verification/Session_Claims.thy ===== *)
theory Session_Claims
  imports Session_Facts
begin

text \<open>
  Runs of the session journal: any handles over one directory, with failing calls and lost
  synchronisations, refine the contract \<open>body_step\<close>; and the properties that follow.
\<close>

subsection \<open>Handles\<close>

definition state_name :: "session_id \<Rightarrow> string" where
  "state_name sid = session_id_str sid @ ''.json''"

definition lock_name :: "session_id \<Rightarrow> string" where
  "lock_name sid = session_id_str sid @ ''.lock''"

definition journal_of :: "genesis_binding \<Rightarrow> string \<Rightarrow> journal" where
  "journal_of g key = \<lparr>jn_state = state_name (gb_session_id g), jn_lock = lock_name (gb_session_id g),
     jn_genesis = g, jn_key = key\<rparr>"

lemma journal_of_simps [simp]:
  "jn_state (journal_of g key) = state_name (gb_session_id g)"
  "jn_lock (journal_of g key) = lock_name (gb_session_id g)"
  "jn_genesis (journal_of g key) = g" "jn_key (journal_of g key) = key"
  by (simp_all add: journal_of_def)

lemma names_differ [simp]:
  "state_name sid = state_name sid' \<longleftrightarrow> sid = sid'" "state_name sid \<noteq> lock_name sid'"
  "lock_name sid' \<noteq> state_name sid"
proof -
  have "last (state_name sid) \<noteq> last (lock_name sid')" by (simp add: state_name_def lock_name_def)
  then show "state_name sid \<noteq> lock_name sid'" "lock_name sid' \<noteq> state_name sid" by metis+
qed (auto simp: state_name_def session_id.expand)

lemma prepare_Ok: "prepare paths g key = Ok j \<Longrightarrow> j = journal_of g key"
  by (auto simp: prepare_def res_simps journal_of_def state_name_def lock_name_def split: if_splits)

lemma lock_keeps: "lock j io d = (r, d') \<Longrightarrow> n \<noteq> jn_lock j \<Longrightarrow> d' n = d n"
  by (auto simp: lock_def split: option.splits if_splits)

text \<open>The file text of a body depends on the handle only through its key.\<close>

lemma file_bytes_key: "jn_key j = jn_key j' \<Longrightarrow> file_bytes h j s = file_bytes h j' s"
  by (simp add: file_bytes_def)

lemma write_state_cases:
  assumes "write_state h j io s d = (r, d')"
  obtains e where "r = Err e" "d' = d"
  | b where "file_bytes h j s = Ok b" "d' = d(jn_state j \<mapsto> b)"
  using assms
  by (auto simp: write_state_def replace_file_def split: sum.splits replacement.splits)

lemma write_other: "write_state h j io s d = (r, d') \<Longrightarrow> n \<noteq> jn_state j \<Longrightarrow> d' n = d n"
  by (erule write_state_cases) auto

lemma state_kept:
  "lock (journal_of g key) io d = (r, d') \<Longrightarrow> d' (state_name sid) = d (state_name sid)"
  "write_state h (journal_of g key) io s d = (r, d') \<Longrightarrow> sid \<noteq> gb_session_id g
     \<Longrightarrow> d' (state_name sid) = d (state_name sid)"
  using lock_keeps [of "journal_of g key" io d r d' "state_name sid"]
    write_other [of h "journal_of g key" io s d r d' "state_name sid"] by auto

subsection \<open>Each operation keeps its file or takes one step of the contract\<close>

definition file_holds :: "session_host \<Rightarrow> journal \<Rightarrow> private_dir \<Rightarrow> state_body \<Rightarrow> bool" where
  "file_holds h j d s \<longleftrightarrow> (\<exists>f. d (jn_state j) = Some f \<and> file_bytes h j s = Ok f)"

lemma load_holds: "load h j io d = Ok s \<Longrightarrow> file_holds h j d s \<and> well_bound h j s"
  by (auto simp: load_Ok file_holds_def)

lemma find_id_None: "find (\<lambda>x. co_transition_id x = i) cs = None \<longleftrightarrow> i \<notin> set (map co_transition_id cs)"
  by (auto simp: find_None_iff)

lemma find_id_Some:
  "find (\<lambda>x. co_transition_id x = i) cs = Some c \<Longrightarrow> c \<in> set cs \<and> co_transition_id c = i"
  by (auto simp: find_Some_iff)

definition completions :: "state_body \<Rightarrow> (sha256_digest \<times> step_completion) list" where
  "completions s = map (\<lambda>c. (co_transition_id c, co_completion c)) (sb_completed s)"

lemma fst_completions [simp]: "map fst (completions s) = transition_ids s"
  by (simp add: completions_def transition_ids_def)

text \<open>An operation under its lock, up to the body that was loaded.\<close>

lemma locked_load:
  assumes "lock (journal_of g key) io d = (r0, d1)"
  obtains (refused) e where "and_then r0 (\<lambda>_. load h (journal_of g key) io d1) = Err e"
  | (loaded) s where "r0 = Ok ()" "load h (journal_of g key) io d1 = Ok s"
      "file_holds h (journal_of g key) d s" "well_bound h (journal_of g key) s" "sb_genesis s = g"
proof (cases "and_then r0 (\<lambda>_. load h (journal_of g key) io d1)")
  case (Inr s)
  then have *: "r0 = Ok ()" "load h (journal_of g key) io d1 = Ok s" by (auto simp: res_simps)
  have "d1 (state_name (gb_session_id g)) = d (state_name (gb_session_id g))"
    using lock_keeps [OF assms] by simp
  then show thesis using loaded [OF *] load_holds [OF *(2)] by (simp add: file_holds_def well_bound_def)
qed

text \<open>The identifier of a new announcement was free before and is pending after.\<close>

lemma intend_cases:
  assumes "intend h (journal_of g key) io expected t d = (res, d')"
  obtains (kept) "d' (state_name (gb_session_id g)) = d (state_name (gb_session_id g))"
      "\<And>i n. res \<noteq> Ok (NewTransition i n)"
  | (announced) s s' i where
      "file_holds h (journal_of g key) d s" "well_bound h (journal_of g key) s" "body_step h s s'"
      "file_holds h (journal_of g key) d' s'" "i \<notin> set (transition_ids s)" "sb_pending s = None"
      "sb_pending s' = Some \<lparr>pe_transition_id = i, pe_transition = t\<rparr>" "sb_completed s' = sb_completed s"
      "\<And>i' n'. res = Ok (NewTransition i' n') \<Longrightarrow> i' = i"
proof -
  let ?j = "journal_of g key" let ?n = "state_name (gb_session_id g)"
  obtain r0 d1 where lk: "lock ?j io d = (r0, d1)" by fastforce
  have same: "d1 ?n = d ?n" using lock_keeps [OF lk] by simp
  show thesis
  proof (cases "transition_digest h g t")
    case (Inl e)
    then show ?thesis using assms kept by (auto simp: intend_def)
  next
    case (Inr i)
    from lk show ?thesis
    proof (cases rule: locked_load [where h = h])
      case (refused e)
      then show ?thesis using assms Inr lk same kept
        by (cases r0; cases "load h ?j io d1") (auto simp: intend_def)
    next
      case (loaded s)
      let ?s' = "\<lambda>n. s\<lparr>sb_pending := Some \<lparr>pe_transition_id = i, pe_transition = t\<rparr>, sb_generation := n\<rparr>"
      note unf = intend_def transition_ids_def list_ex_iff
      show ?thesis
      proof (cases "\<exists>n. sb_pending s = None \<and> i \<notin> set (transition_ids s) \<and> sb_generation s = expected
          \<and> validate t (sb_phase s) = Ok () \<and> checked_add (sb_generation s) 1 = Some n")
        case False
        then have "d' = d1" "\<And>i n. res \<noteq> Ok (NewTransition i n)"
          using assms Inr lk loaded(1,2)
          by (auto simp: unf res_simps split: option.splits if_splits sum.splits)
        then show ?thesis using kept same by simp
      next
        case True
        then obtain n where n: "sb_pending s = None" "i \<notin> set (transition_ids s)"
          "sb_generation s = expected" "validate t (sb_phase s) = Ok ()"
          "checked_add (sb_generation s) 1 = Some n" by blast
        have free: "\<not> list_ex (\<lambda>c. co_transition_id c = i) (sb_completed s)"
          using n(2) by (auto simp: transition_ids_def list_ex_iff)
        obtain r2 d2 where w: "write_state h ?j io (?s' n) d1 = (r2, d2)" by fastforce
        have eq: "res = and_then r2 (\<lambda>_. Ok (NewTransition i n))" "d' = d2"
          using assms Inr lk loaded(1,2) n w free by (auto simp: intend_def)
        have step: "body_step h s (?s' n)" using n Inr loaded(5) by (intro body_step.announcing) auto
        show ?thesis using w
        proof (cases rule: write_state_cases)
          case (1 e)
          then show ?thesis using eq kept same by simp
        next
          case (2 b)
          then have "file_holds h ?j d' (?s' n)" using eq by (simp add: file_holds_def)
          then show ?thesis
          proof (rule announced [OF loaded(3,4) step _ n(2,1)])
            fix i' n' assume "res = Ok (NewTransition i' n')"
            then show "i' = i" using eq(1) by (auto simp: res_simps)
          qed simp_all
        qed
      qed
    qed
  qed
qed

text \<open>A new completion is for the pending transition; an existing one is in the file already.\<close>

lemma complete_cases:
  assumes "complete h (journal_of g key) io expected i c d = (res, d')"
  obtains (kept) "d' (state_name (gb_session_id g)) = d (state_name (gb_session_id g))"
      "\<And>i' n. res \<noteq> Ok (NewTransition i' n)"
      "\<And>i' n. res = Ok (ExistingTransition i' n) \<Longrightarrow>
         i' = i \<and> (\<exists>s. file_holds h (journal_of g key) d s \<and> (i, c) \<in> set (completions s))"
  | (recorded) s s' where
      "file_holds h (journal_of g key) d s" "well_bound h (journal_of g key) s" "body_step h s s'"
      "file_holds h (journal_of g key) d' s'" "i \<notin> set (transition_ids s)"
      "map_option pe_transition_id (sb_pending s) = Some i" "sb_pending s' = None"
      "completions s' = completions s @ [(i, c)]"
      "\<And>i' n'. res = Ok (NewTransition i' n') \<Longrightarrow> i' = i" "\<And>i' n'. res \<noteq> Ok (ExistingTransition i' n')"
proof -
  let ?j = "journal_of g key" let ?n = "state_name (gb_session_id g)"
  obtain r0 d1 where lk: "lock ?j io d = (r0, d1)" by fastforce
  have same: "d1 ?n = d ?n" using lock_keeps [OF lk] by simp
  from lk show thesis
  proof (cases rule: locked_load [where h = h])
    case (refused e)
    then show ?thesis using assms lk same kept
      by (cases r0; cases "load h ?j io d1") (auto simp: complete_def)
  next
    case (loaded s)
    let ?s' = "\<lambda>p k n. s\<lparr>sb_phase := tr_to (pe_transition p), sb_pending := None,
      sb_completed := sb_completed s @ [\<lparr>co_transition_id = pe_transition_id p, co_completion = c,
        co_completion_id = k\<rparr>], sb_generation := n\<rparr>"
    show ?thesis
    proof (cases "find (\<lambda>x. co_transition_id x = i) (sb_completed s)")
      case (Some x)
      then have "d' = d1" "\<And>i' n. res \<noteq> Ok (NewTransition i' n)"
        "\<And>i' n. res = Ok (ExistingTransition i' n) \<Longrightarrow> i' = i \<and> co_completion x = c"
        using assms lk loaded(1,2) by (auto simp: complete_def split: if_splits)
      moreover have "(i, co_completion x) \<in> set (completions s)"
        using find_id_Some [OF Some] by (auto simp: completions_def)
      ultimately show ?thesis using kept same loaded(3) by fastforce
    next
      case None
      note free = None [unfolded find_id_None, folded transition_ids_def]
      show ?thesis
      proof (cases "\<exists>p k n. sb_generation s = expected \<and> sb_pending s = Some p \<and> pe_transition_id p = i
          \<and> intent_step (tr_intent (pe_transition p)) = completion_step c
          \<and> length (sb_completed s) < MAX_COMPLETED_TRANSITIONS
          \<and> completion_digest h g i c = Ok k \<and> checked_add (sb_generation s) 1 = Some n")
        case False
        then have "d' = d1" "\<And>i n. res \<noteq> Ok (NewTransition i n)" "\<And>i n. res \<noteq> Ok (ExistingTransition i n)"
          using assms lk loaded(1,2) None
          by (auto simp: complete_def res_simps split: option.splits if_splits sum.splits)
        then show ?thesis using kept same by simp
      next
        case True
        then obtain p k n where n: "sb_generation s = expected" "sb_pending s = Some p"
          "pe_transition_id p = i" "intent_step (tr_intent (pe_transition p)) = completion_step c"
          "length (sb_completed s) < MAX_COMPLETED_TRANSITIONS"
          "completion_digest h g i c = Ok k" "checked_add (sb_generation s) 1 = Some n" by blast
        obtain r2 d2 where w: "write_state h ?j io (?s' p k n) d1 = (r2, d2)" by fastforce
        have eq: "res = and_then r2 (\<lambda>_. Ok (NewTransition i n))" "d' = d2"
          using assms lk loaded(1,2) None n w by (auto simp: complete_def split: option.splits)
        have step: "body_step h s (?s' p k n)"
          using n free loaded(5) by (intro body_step.recording) auto
        show ?thesis using w
        proof (cases rule: write_state_cases)
          case (1 e)
          then show ?thesis using eq kept same by simp
        next
          case (2 b)
          then have "file_holds h ?j d' (?s' p k n)" using eq by (simp add: file_holds_def)
          then show ?thesis
          proof (rule recorded [OF loaded(3,4) step _ free])
            fix i' n' assume "res = Ok (NewTransition i' n')"
            then show "i' = i" using eq(1) by (auto simp: res_simps)
          next
            fix i' n'
            show "res \<noteq> Ok (ExistingTransition i' n')" using eq(1) by (auto simp: res_simps)
          qed (use n(2,3) in \<open>simp_all add: completions_def\<close>)
        qed
      qed
    qed
  qed
qed

lemma journal_bootstrap_cases:
  assumes "journal_bootstrap h paths sid w r key bytes io io' d = (res, d')"
  obtains (kept) "\<And>sid'. d' (state_name sid') = d (state_name sid')"
  | (created) g where "gb_session_id g = sid" "d (state_name sid) = None"
      "file_holds h (journal_of g key) d' (initial_body g)"
      "\<And>sid'. sid' \<noteq> sid \<Longrightarrow> d' (state_name sid') = d (state_name sid')"
proof (cases "d' = d")
  case True
  then show thesis using kept by simp
next
  case False
  let ?g = "\<lambda>store_id. \<lparr>gb_session_id = sid, gb_workspace_identity_digest = w,
    gb_action_intent_root_digest = r, gb_store_id = store_id\<rparr>"
  obtain j where j: "and_then (hex_digest h bytes) (\<lambda>store_id. prepare paths (?g store_id) key) = Ok j"
    using False assms
    by (cases "and_then (hex_digest h bytes) (\<lambda>store_id. prepare paths (?g store_id) key)")
      (auto simp: journal_bootstrap_def split: if_splits)
  then obtain store_id where "j = journal_of (?g store_id) key"
    by (auto simp: res_simps dest: prepare_Ok)
  moreover define g where "g = ?g store_id"
  ultimately have g: "gb_session_id g = sid" and jg: "j = journal_of g key" by simp_all
  have "(case lock j io d of
         (Inl e, d1) \<Rightarrow> (Err e, d1)
       | (Inr _, d1) \<Rightarrow>
           (case open_file (sio_open io) d1 (jn_state j) of
              Inr _ \<Rightarrow> (Err StateAlreadyExists, d1)
            | Inl e \<Rightarrow>
                if e \<noteq> NotFound then (Err (journal_storage_error e), d1)
                else case write_state h j io (initial_body (jn_genesis j)) d1 of
                  (Inl e, d2) \<Rightarrow> (Err e, d2)
                | (Inr _, d2) \<Rightarrow> (and_then (load h j io' d2) (\<lambda>_. Ok j), d2)))
       = (res, d')"
    using assms False j by (simp add: journal_bootstrap_def split: if_splits)
  note b = this [unfolded jg journal_of_simps g]
  obtain r0 d1 where lk: "lock (journal_of g key) io d = (r0, d1)" by fastforce
  have same: "d1 (state_name sid') = d (state_name sid')" for sid' using lock_keeps [OF lk] by simp
  obtain r2 d2 where w: "write_state h (journal_of g key) io (initial_body g) d1 = (r2, d2)" by fastforce
  show thesis
  proof (cases "r0 = Ok () \<and> open_file (sio_open io) d1 (state_name sid) = Err NotFound")
    case False
    then have "d' = d1"
      using b lk by (cases r0; cases "open_file (sio_open io) d1 (state_name sid)") (auto split: if_splits)
    then show ?thesis using kept same by simp
  next
    case True
    then have d': "d' = d2" using b lk w by (cases r2) auto
    have free: "d (state_name sid) = None"
      using True same by (simp add: open_file_missing)
    show ?thesis using w
    proof (cases rule: write_state_cases)
      case (1 e)
      then show ?thesis using d' kept same by simp
    next
      case (2 b)
      then have "file_holds h (journal_of g key) d' (initial_body g)" using d' by (simp add: file_holds_def)
      then show ?thesis using created [OF g free] 2 d' g same by simp
    qed
  qed
qed

lemma journal_open_existing_keeps:
  "journal_open_existing h paths g key io io' d = (res, d') \<Longrightarrow> d' (state_name sid) = d (state_name sid)"
  by (auto simp: journal_open_existing_def split: sum.splits prod.splits dest!: prepare_Ok dest: state_kept(1))

lemma recover_keeps: "recover h (journal_of g key) io d = (res, d') \<Longrightarrow> d' (state_name sid) = d (state_name sid)"
  by (auto simp: recover_def split: sum.splits prod.splits dest: state_kept(1))

lemma both_kept:
  "lock (journal_of g key) io d = (r, d') \<Longrightarrow> write_state h (journal_of g key) io s d' = (r', d'')
    \<Longrightarrow> sid \<noteq> gb_session_id g \<Longrightarrow> d'' (state_name sid) = d (state_name sid)"
  by (metis state_kept)

lemma other_session_keeps:
  assumes "sid \<noteq> gb_session_id g"
  shows "intend h (journal_of g key) io expected t d = (res, d') \<Longrightarrow> d' (state_name sid) = d (state_name sid)"
    and "complete h (journal_of g key) io expected i c d = (res, d') \<Longrightarrow> d' (state_name sid) = d (state_name sid)"
  using assms
  by (auto simp: intend_def complete_def split: sum.splits prod.splits option.splits if_splits
      dest: state_kept(1) [where sid = sid] both_kept [where sid = sid])

subsection \<open>Runs\<close>

text \<open>
  Any number of handles over one directory; those of the observed session share its key.  The log
  holds what the handles of the session were told: new announcements, new completions and
  completions that were there already.
\<close>

datatype session_event =
  Announced sha256_digest | Recorded sha256_digest step_completion | Confirmed sha256_digest step_completion

fun announce_events :: "(transition_result, session_error) result \<Rightarrow> session_event list" where
  "announce_events (Inr (NewTransition i _)) = [Announced i]"
| "announce_events _ = []"

fun complete_events :: "step_completion \<Rightarrow> (transition_result, session_error) result \<Rightarrow> session_event list" where
  "complete_events c (Inr (NewTransition i _)) = [Recorded i c]"
| "complete_events c (Inr (ExistingTransition i _)) = [Confirmed i c]"
| "complete_events c (Inl _) = []"

inductive session_run ::
  "session_host \<Rightarrow> session_id \<Rightarrow> string \<Rightarrow> private_dir \<Rightarrow> session_event list \<Rightarrow> bool" for h sid key where
  run_start: "d (state_name sid) = None \<Longrightarrow> session_run h sid key d []"
| run_bootstrap: "session_run h sid key d evs \<Longrightarrow> (sid' = sid \<Longrightarrow> key' = key)
    \<Longrightarrow> journal_bootstrap h paths sid' w r key' bytes io io' d = (res, d') \<Longrightarrow> session_run h sid key d' evs"
| run_open: "session_run h sid key d evs
    \<Longrightarrow> journal_open_existing h paths g key' io io' d = (res, d') \<Longrightarrow> session_run h sid key d' evs"
| run_intend: "session_run h sid key d evs \<Longrightarrow> (gb_session_id g = sid \<Longrightarrow> key' = key)
    \<Longrightarrow> intend h (journal_of g key') io expected t d = (res, d')
    \<Longrightarrow> session_run h sid key d' (evs @ (if gb_session_id g = sid then announce_events res else []))"
| run_complete: "session_run h sid key d evs \<Longrightarrow> (gb_session_id g = sid \<Longrightarrow> key' = key)
    \<Longrightarrow> complete h (journal_of g key') io expected i c d = (res, d')
    \<Longrightarrow> session_run h sid key d' (evs @ (if gb_session_id g = sid then complete_events c res else []))"
| run_recover: "session_run h sid key d evs
    \<Longrightarrow> recover h (journal_of g key') io d = (res, d') \<Longrightarrow> session_run h sid key d' evs"

definition announced :: "session_event list \<Rightarrow> sha256_digest list" where
  "announced evs = [i. Announced i \<leftarrow> evs]"

definition recorded :: "session_event list \<Rightarrow> (sha256_digest \<times> step_completion) list" where
  "recorded evs = [(i, c). Recorded i c \<leftarrow> evs]"

definition confirmed :: "session_event list \<Rightarrow> (sha256_digest \<times> step_completion) list" where
  "confirmed evs = [(i, c). Confirmed i c \<leftarrow> evs]"

lemma log_simps [simp]:
  "announced [] = []" "recorded [] = []" "confirmed [] = []"
  "announced (es @ es') = announced es @ announced es'"
  "recorded (es @ es') = recorded es @ recorded es'"
  "confirmed (es @ es') = confirmed es @ confirmed es'"
  "announced [Announced i] = [i]" "recorded [Announced i] = []" "confirmed [Announced i] = []"
  "announced [Recorded i c] = []" "recorded [Recorded i c] = [(i, c)]" "confirmed [Recorded i c] = []"
  "announced [Confirmed i c] = []" "recorded [Confirmed i c] = []" "confirmed [Confirmed i c] = [(i, c)]"
  by (simp_all add: announced_def recorded_def confirmed_def)

text \<open>What the log says is in the file, each announcement and each completion once.\<close>

definition known_ids :: "state_body \<Rightarrow> sha256_digest list" where
  "known_ids s = transition_ids s @ (case sb_pending s of None \<Rightarrow> [] | Some p \<Rightarrow> [pe_transition_id p])"

definition logged :: "session_event list \<Rightarrow> state_body \<Rightarrow> bool" where
  "logged evs s \<longleftrightarrow> distinct (announced evs) \<and> distinct (map fst (recorded evs))
     \<and> set (announced evs) \<subseteq> set (known_ids s)
     \<and> set (recorded evs) \<union> set (confirmed evs) \<subseteq> set (completions s)"

definition session_inv :: "session_host \<Rightarrow> session_id \<Rightarrow> string \<Rightarrow> private_dir \<Rightarrow> session_event list \<Rightarrow> bool" where
  "session_inv h sid key d evs \<longleftrightarrow>
     d (state_name sid) = None \<and> evs = []
     \<or> (\<exists>g s. gb_session_id g = sid \<and> reachable_body h g s \<and> file_holds h (journal_of g key) d s \<and> logged evs s)"

lemma session_inv_same:
  "session_inv h sid key d evs \<Longrightarrow> d' (state_name sid) = d (state_name sid) \<Longrightarrow> session_inv h sid key d' evs"
  by (auto simp: session_inv_def file_holds_def)

lemma holds_same:
  assumes "self_delimiting (sh_escape h)" and "file_holds h (journal_of g key) d s"
    and "file_holds h (journal_of g' key') d s'" and "gb_session_id g = gb_session_id g'"
  shows "s = s'"
  using assms file_bytes_determine [OF assms(1)] by (auto simp: file_holds_def)

text \<open>The body that a handle of the session holds is the one the invariant speaks of.\<close>

lemma session_inv_body:
  assumes "self_delimiting (sh_escape h)" and "session_inv h (gb_session_id g) key d evs"
    and "file_holds h (journal_of g key) d s" and "well_bound h (journal_of g key) s"
  shows "reachable_body h g s \<and> logged evs s"
proof -
  obtain g' s' where s': "gb_session_id g' = gb_session_id g" "reachable_body h g' s'"
    "file_holds h (journal_of g' key) d s'" "logged evs s'"
    using assms(2,3) by (auto simp: session_inv_def file_holds_def)
  have same: "s' = s" by (rule holds_same [OF assms(1) s'(3) assms(3) s'(1)])
  have "sb_genesis s = g" using assms(4) by (simp add: well_bound_def)
  then have "g' = g" using reachable_genesis [OF s'(2)] unfolding same by simp
  then show ?thesis using s'(2,4) unfolding same by blast
qed

lemma session_inv_intend:
  assumes "self_delimiting (sh_escape h)" and "session_inv h (gb_session_id g) key d evs"
    and "intend h (journal_of g key) io expected t d = (res, d')"
  shows "session_inv h (gb_session_id g) key d' (evs @ announce_events res)"
  using assms(3)
proof (cases rule: intend_cases)
  case kept
  then have "announce_events res = []" by (cases res rule: announce_events.cases) auto
  then show ?thesis using session_inv_same [OF assms(2), of d'] kept(1) by simp
next
  case (announced s s' i)
  note b = session_inv_body [OF assms(1,2) announced(1,2)]
  have "logged (evs @ announce_events res) s'"
    using b announced(5-9)
    by (cases res rule: announce_events.cases)
      (auto simp: logged_def known_ids_def transition_ids_def completions_def)
  then show ?thesis
    using b reachable_body_step [OF _ announced(3)] announced(4) by (auto simp: session_inv_def)
qed

lemma session_inv_complete:
  assumes "self_delimiting (sh_escape h)" and "session_inv h (gb_session_id g) key d evs"
    and "complete h (journal_of g key) io expected i c d = (res, d')"
  shows "session_inv h (gb_session_id g) key d' (evs @ complete_events c res)"
  using assms(3)
proof (cases rule: complete_cases)
  case kept
  show ?thesis
  proof (cases "complete_events c res = []")
    case True
    then show ?thesis using session_inv_same [OF assms(2), of d'] kept(1) by simp
  next
    case False
    then obtain n where res: "res = Ok (ExistingTransition i n)"
      using kept(2,3) by (cases "(c, res)" rule: complete_events.cases) auto
    then obtain s where s: "file_holds h (journal_of g key) d s" "(i, c) \<in> set (completions s)"
      using kept(3) by blast
    obtain g' s' where s': "gb_session_id g' = gb_session_id g" "reachable_body h g' s'"
      "file_holds h (journal_of g' key) d s'" "logged evs s'"
      using assms(2) s(1) by (auto simp: session_inv_def file_holds_def)
    have "s' = s" using holds_same [OF assms(1) s'(3) s(1) s'(1)] .
    then have "logged (evs @ complete_events c res) s"
      using s'(4) s(2) res by (auto simp: logged_def)
    then have "session_inv h (gb_session_id g) key d (evs @ complete_events c res)"
      using s' \<open>s' = s\<close> by (auto simp: session_inv_def)
    then show ?thesis using session_inv_same kept(1) by blast
  qed
next
  case (recorded s s')
  note b = session_inv_body [OF assms(1,2) recorded(1,2)]
  have l: "distinct (announced evs)" "distinct (map fst (Session_Claims.recorded evs))"
    "set (announced evs) \<subseteq> set (known_ids s)"
    "set (Session_Claims.recorded evs) \<subseteq> set (completions s)" "set (confirmed evs) \<subseteq> set (completions s)"
    using b by (auto simp: logged_def)
  have "fst ` set (Session_Claims.recorded evs) \<subseteq> set (transition_ids s)"
    using image_mono [OF l(4), of fst] by (simp flip: fst_completions)
  then have new: "i \<notin> fst ` set (Session_Claims.recorded evs)" using recorded(5) by blast
  have "transition_ids s' = transition_ids s @ [i]"
    using arg_cong [OF recorded(8), of "map fst"] by simp
  then have k: "set (known_ids s) \<subseteq> set (known_ids s')"
    using recorded(6,7) by (auto simp: known_ids_def)
  have "logged (evs @ complete_events c res) s'"
    using l k new recorded(8-10)
    by (cases "(c, res)" rule: complete_events.cases) (auto simp: logged_def)
  then show ?thesis
    using b reachable_body_step [OF _ recorded(3)] recorded(4) by (auto simp: session_inv_def)
qed

lemma session_run_inv:
  assumes "session_run h sid key d evs" and "self_delimiting (sh_escape h)"
  shows "session_inv h sid key d evs"
  using assms(1)
proof induction
  case (run_start d)
  then show ?case by (simp add: session_inv_def)
next
  case (run_bootstrap d evs sid' key' paths w r bytes io io' res d')
  from run_bootstrap.hyps(3) show ?case
  proof (cases rule: journal_bootstrap_cases)
    case kept
    then show ?thesis using session_inv_same [OF run_bootstrap.IH, of d'] by blast
  next
    case (created g)
    show ?thesis
    proof (cases "sid' = sid")
      case True
      then have "evs = []" using run_bootstrap.IH created by (auto simp: session_inv_def file_holds_def)
      moreover have "logged [] (initial_body g)" by (simp add: logged_def)
      moreover have "key' = key" using run_bootstrap.hyps(2) True by simp
      ultimately show ?thesis using created True by (auto simp: session_inv_def)
    next
      case False
      then show ?thesis using created(4) [of sid] session_inv_same [OF run_bootstrap.IH, of d'] by simp
    qed
  qed
next
  case (run_intend d evs g key' io expected t res d')
  show ?case
  proof (cases "gb_session_id g = sid")
    case True
    have "session_inv h (gb_session_id g) key d evs" using run_intend.IH True by simp
    from session_inv_intend [OF assms(2) this] show ?thesis
      using run_intend.hyps(2,3) True by simp
  next
    case False
    then have "d' (state_name sid) = d (state_name sid)"
      using other_session_keeps(1) run_intend.hyps(3) by metis
    then show ?thesis using session_inv_same [OF run_intend.IH, of d'] False by simp
  qed
next
  case (run_complete d evs g key' io expected i c res d')
  show ?case
  proof (cases "gb_session_id g = sid")
    case True
    have "session_inv h (gb_session_id g) key d evs" using run_complete.IH True by simp
    from session_inv_complete [OF assms(2) this] show ?thesis
      using run_complete.hyps(2,3) True by simp
  next
    case False
    then have "d' (state_name sid) = d (state_name sid)"
      using other_session_keeps(2) run_complete.hyps(3) by metis
    then show ?thesis using session_inv_same [OF run_complete.IH, of d'] False by simp
  qed
next
  case (run_open d evs paths g key' io io' res d')
  show ?case using session_inv_same [OF run_open.IH, of d'] journal_open_existing_keeps [OF run_open.hyps(2)] by blast
next
  case (run_recover d evs g key' io res d')
  show ?case using session_inv_same [OF run_recover.IH, of d'] recover_keeps [OF run_recover.hyps(2)] by blast
qed

subsection \<open>Errors that never come\<close>

definition is_limit :: "session_error \<Rightarrow> bool" where
  "is_limit e \<longleftrightarrow> e = GenerationExhausted \<or> e = TransitionLimit"

lemma is_limit_simps [simp]:
  "\<not> is_limit Tampered" "\<not> is_limit Truncated" "\<not> is_limit NonCanonical" "\<not> is_limit Oversized"
  "\<not> is_limit GenesisMismatch" "\<not> is_limit GenerationMismatch" "\<not> is_limit Conflict"
  "\<not> is_limit CompletionMismatch" "\<not> is_limit NoPending" "\<not> is_limit IllegalTransition"
  "\<not> is_limit InvalidKey" "\<not> is_limit (CanonicalFault f)" "\<not> is_limit (Io io)"
  "\<not> is_limit (journal_storage_error io)"
  by (simp_all add: is_limit_def journal_storage_error_def)

definition unlimited :: "('a, session_error) result \<Rightarrow> bool" where
  "unlimited m = (case m of Inl e \<Rightarrow> \<not> is_limit e | Inr _ \<Rightarrow> True)"

lemma unlimitedD: "unlimited m \<Longrightarrow> m = Err e \<Longrightarrow> \<not> is_limit e"
  by (simp add: unlimited_def)

lemma unlimited_parts:
  "unlimited (Ok x)" "\<not> is_limit e \<Longrightarrow> unlimited (Err e)"
  "unlimited m \<Longrightarrow> (\<And>x. m = Ok x \<Longrightarrow> unlimited (f x)) \<Longrightarrow> unlimited (and_then m f)"
  "(\<And>x. \<not> is_limit (g x)) \<Longrightarrow> unlimited (map_err g n)" "\<not> is_limit e \<Longrightarrow> unlimited (ok_or o' e)"
  "(\<And>x. \<not> is_limit (k x)) \<Longrightarrow> unlimited (checked k c)"
  by (cases m; cases n; cases o'; cases c; simp add: unlimited_def)+

lemma unlimited_if: "(b \<Longrightarrow> unlimited m) \<Longrightarrow> (\<not> b \<Longrightarrow> unlimited m') \<Longrightarrow> unlimited (if b then m else m')"
  by simp

lemmas unlimited_intros = unlimited_parts unlimited_if

lemma digests_unlimited:
  "unlimited (canonical h V x)" "unlimited (hex_digest h b)"
  "unlimited (transition_digest h g t)" "unlimited (completion_digest h g i c)"
  "unlimited (session_mac h key s)" "unlimited (validate t ph)"
  unfolding canonical_def hex_digest_def transition_digest_def completion_digest_def session_mac_def
    validate_def
  by (intro unlimited_intros; simp)+

lemma check_completed_unlimited: "unlimited (check_completed h g cs)"
proof (induction cs)
  case (Cons c cs)
  then show ?case unfolding check_completed.simps by (intro unlimited_intros digests_unlimited) simp_all
qed (simp add: unlimited_parts)

lemma bindings_unlimited: "unlimited (validate_state_bindings h s)"
  unfolding validate_state_bindings_def
  by (cases "sb_pending s") (auto intro!: unlimited_intros digests_unlimited check_completed_unlimited)

lemma files_unlimited:
  "unlimited (load h j io d)" "unlimited (file_bytes h j s)" "unlimited (fst (lock j io d))"
  "unlimited (fst (write_state h j io s d))"
proof -
  show "unlimited (load h j io d)"
    unfolding load_def Let_def
    by (intro unlimited_intros digests_unlimited bindings_unlimited) simp_all
  show f: "unlimited (file_bytes h j s)"
    unfolding file_bytes_def by (intro unlimited_intros digests_unlimited) simp_all
  show "unlimited (fst (lock j io d))"
    by (auto simp: lock_def intro!: unlimited_intros split: option.splits)
  show "unlimited (fst (write_state h j io s d))"
    using unlimitedD [OF f]
    by (auto simp: write_state_def intro!: unlimited_intros split: sum.splits prod.splits)
qed

text \<open>So a limit can only be met over a loaded body.\<close>

lemma intend_limit:
  assumes "intend h (journal_of g key) io expected t d = (Err e, d')" and "is_limit e"
  obtains s where "file_holds h (journal_of g key) d s" "well_bound h (journal_of g key) s"
    "checked_add (sb_generation s) 1 = None"
proof -
  obtain r0 d1 where lk: "lock (journal_of g key) io d = (r0, d1)" by fastforce
  have calm: "unlimited r0" "unlimited (load h (journal_of g key) io d1)"
    using files_unlimited(3) [of "journal_of g key" io d] files_unlimited(1) lk by simp_all
  from lk show thesis
  proof (cases rule: locked_load [where h = h])
    case (refused e')
    then have False
      using assms lk calm digests_unlimited(3) [of h g t]
      by (cases r0; cases "load h (journal_of g key) io d1")
        (auto simp: intend_def unlimited_def split: sum.splits)
    then show ?thesis ..
  next
    case (loaded s)
    have "checked_add (sb_generation s) 1 = None"
    proof (rule ccontr)
      assume "checked_add (sb_generation s) 1 \<noteq> None"
      then obtain n where n: "checked_add (sb_generation s) 1 = Some n" by blast
      have w: "unlimited (fst (write_state h (journal_of g key) io s' d1))" for s'
        by (rule files_unlimited)
      show False
        using assms lk loaded(1,2) n digests_unlimited(3) [of h g t] digests_unlimited(6) [of t "sb_phase s"] w
        by (auto simp: intend_def res_simps unlimited_def
            split: option.splits if_splits sum.splits prod.splits) (metis fst_conv old.sum.simps(5))+
    qed
    then show ?thesis using that loaded(3,4) by blast
  qed
qed

lemma complete_limit:
  assumes "complete h (journal_of g key) io expected i c d = (Err e, d')" and "is_limit e"
  obtains s where "file_holds h (journal_of g key) d s" "well_bound h (journal_of g key) s"
    "checked_add (sb_generation s) 1 = None
     \<or> sb_pending s \<noteq> None \<and> MAX_COMPLETED_TRANSITIONS \<le> length (sb_completed s)"
proof -
  obtain r0 d1 where lk: "lock (journal_of g key) io d = (r0, d1)" by fastforce
  have calm: "unlimited r0" "unlimited (load h (journal_of g key) io d1)"
    using files_unlimited(3) [of "journal_of g key" io d] files_unlimited(1) lk by simp_all
  from lk show thesis
  proof (cases rule: locked_load [where h = h])
    case (refused e')
    then have False
      using assms lk calm
      by (cases r0; cases "load h (journal_of g key) io d1") (auto simp: complete_def unlimited_def)
    then show ?thesis ..
  next
    case (loaded s)
    have "checked_add (sb_generation s) 1 = None
      \<or> sb_pending s \<noteq> None \<and> MAX_COMPLETED_TRANSITIONS \<le> length (sb_completed s)"
    proof (rule ccontr)
      assume "\<not> ?thesis"
      then obtain n where n: "checked_add (sb_generation s) 1 = Some n"
        "sb_pending s = None \<or> \<not> MAX_COMPLETED_TRANSITIONS \<le> length (sb_completed s)" by auto
      have w: "unlimited (fst (write_state h (journal_of g key) io s' d1))" for s'
        by (rule files_unlimited)
      show False
        using assms lk loaded(1,2) n digests_unlimited(4) [of h g i c] w
        by (auto simp: complete_def res_simps unlimited_def
            split: option.splits if_splits sum.splits prod.splits) (metis fst_conv old.sum.simps(5))+
    qed
    then show ?thesis using that loaded(3,4) by blast
  qed
qed

subsection \<open>A sample\<close>

definition session_sample_digest :: sha256_digest where
  "session_sample_digest = Sha256Digest (replicate 64 CHR ''a'')"

definition sample_genesis :: genesis_binding where
  "sample_genesis = \<lparr>gb_session_id = SessionId ''ses_1'', gb_workspace_identity_digest = session_sample_digest,
     gb_action_intent_root_digest = session_sample_digest, gb_store_id = session_sample_digest\<rparr>"

definition session_sample_host :: session_host where
  "session_sample_host = \<lparr>sh_escape = quote_tilde, sh_sha256 = (\<lambda>_. []), sh_hmac = (\<lambda>_ _. Some []),
     sh_hex_encode = (\<lambda>_. replicate 64 CHR ''a''),
     sh_from_slice = (\<lambda>_. Ok \<lparr>sf_body = initial_body sample_genesis, sf_mac = session_sample_digest\<rparr>)\<rparr>"

definition session_sample_key :: string where
  "session_sample_key = replicate 32 CHR ''k''"

definition sample_transition :: transition where
  "sample_transition = \<lparr>tr_from = Created, tr_to = AuthorityEvaluated,
     tr_intent = AuthorityDecision session_sample_digest\<rparr>"

definition sample_announced :: state_body where
  "sample_announced = (initial_body sample_genesis)\<lparr>sb_pending := Some
     \<lparr>pe_transition_id = session_sample_digest, pe_transition = sample_transition\<rparr>, sb_generation := 1\<rparr>"

definition sample_io :: session_io where
  "sample_io = \<lparr>sio_lock_open = None, sio_lock = None, sio_open = None, sio_metadata = None,
     sio_read = None, sio_replace = Replaced\<rparr>"

definition sample_paths :: session_paths where
  "sample_paths = \<lparr>spa_root_real = Ok True, spa_root = Some [''home'', ''state''],
     spa_workspace = Some [''home'', ''work''], spa_directory = None\<rparr>"

lemma sample_delimited: "self_delimiting (sh_escape session_sample_host)"
  by (simp add: session_sample_host_def quote_tilde_delimiting)

lemma sample_texts:
  "case canonical session_sample_host file_value \<lparr>sf_body = initial_body sample_genesis, sf_mac = session_sample_digest\<rparr>
     of Inr b \<Rightarrow> length b < 3000 | Inl _ \<Rightarrow> False"
  "case canonical session_sample_host file_value \<lparr>sf_body = sample_announced, sf_mac = session_sample_digest\<rparr>
     of Inr b \<Rightarrow> length b < 3000 | Inl _ \<Rightarrow> False"
  "session_mac session_sample_host session_sample_key (initial_body sample_genesis) = Ok session_sample_digest"
  "session_mac session_sample_host session_sample_key sample_announced = Ok session_sample_digest"
  "transition_digest session_sample_host sample_genesis sample_transition = Ok session_sample_digest"
  by code_simp+

lemma sample_files:
  obtains b b' where
    "file_bytes session_sample_host (journal_of sample_genesis session_sample_key) (initial_body sample_genesis) = Ok b"
    "file_bytes session_sample_host (journal_of sample_genesis session_sample_key) sample_announced = Ok b'"
proof -
  have "3000 \<le> MAX_STATE" by (simp add: MAX_STATE_def)
  then show thesis
    using sample_texts that by (auto simp: file_bytes_def split: sum.splits)
qed


text \<open>A journal is created.\<close>

lemma sample_created:
  "\<exists>d. session_run session_sample_host (gb_session_id sample_genesis) session_sample_key d []
    \<and> load session_sample_host (journal_of sample_genesis session_sample_key) sample_io d = Ok (initial_body sample_genesis)"
proof -
  let ?j = "journal_of sample_genesis session_sample_key" and ?sid = "SessionId ''ses_1''"
  have sid: "gb_session_id sample_genesis = ?sid" by (simp add: sample_genesis_def)
  obtain b b' where b: "file_bytes session_sample_host ?j (initial_body sample_genesis) = Ok b"
    "file_bytes session_sample_host ?j sample_announced = Ok b'" by (rule sample_files)
  define d where "d = [lock_name ?sid \<mapsto> [], state_name ?sid \<mapsto> b]"
  have prep: "prepare sample_paths sample_genesis session_sample_key = Ok ?j"
    by (simp add: prepare_def sample_paths_def session_sample_key_def list_all_iff ensure_real_dir_def journal_of_def
        state_name_def lock_name_def sid)
  have hex: "hex_digest session_sample_host [CHR 0x01] = Ok session_sample_digest"
    by (simp add: hex_digest_def session_sample_host_def session_sample_digest_def parse_sha256_digest_def
        opaque_from_str_def valid_prefixed_hex_def SHA256_HEX_LEN_def byte_defs list_all_iff)
  have load: "load session_sample_host ?j sample_io d = Ok (initial_body sample_genesis)"
    using b(1) sample_texts(3)
    by (auto simp: load_Ok reads_def sample_io_def d_def sid session_sample_host_def well_bound_def
        initial_body_def MAX_COMPLETED_TRANSITIONS_def validate_state_bindings_def)
  have "session_run session_sample_host ?sid session_sample_key Map.empty []" by (rule run_start) simp
  moreover have "journal_bootstrap session_sample_host sample_paths ?sid session_sample_digest session_sample_digest session_sample_key [CHR 0x01]
      sample_io sample_io Map.empty = (Ok ?j, d)"
    using prep hex b(1) load
    by (simp add: journal_bootstrap_def sample_genesis_def [symmetric])
      (simp add: lock_def sample_io_def open_file_def write_state_def replace_file_def sid d_def)
  ultimately have "session_run session_sample_host ?sid session_sample_key d []" using run_bootstrap by blast
  then show ?thesis using load sid by auto
qed

text \<open>And one transition is announced.\<close>

lemma sample_run:
  "\<exists>d. session_run session_sample_host (SessionId ''ses_1'') session_sample_key d [Announced session_sample_digest]"
proof -
  let ?j = "journal_of sample_genesis session_sample_key"
  obtain d where d: "session_run session_sample_host (gb_session_id sample_genesis) session_sample_key d []"
    "load session_sample_host ?j sample_io d = Ok (initial_body sample_genesis)" using sample_created by blast
  let ?d = "d(lock_name (gb_session_id sample_genesis) := Some [])"
  obtain d1 where lk: "lock ?j sample_io d = (Ok (), d1)" by (auto simp: lock_def sample_io_def)
  have "open_file (sio_open sample_io) d1 (jn_state ?j) = open_file (sio_open sample_io) d (jn_state ?j)"
    using lock_keeps [OF lk, of "jn_state ?j"] by (simp add: open_file_def sample_io_def)
  then have "load session_sample_host ?j sample_io d1 = load session_sample_host ?j sample_io d"
    by (simp only: load_def)
  moreover obtain b' where "file_bytes session_sample_host ?j sample_announced = Ok b'" by (rule sample_files)
  moreover have "validate sample_transition Created = Ok ()"
    by (simp add: validate_def sample_transition_def legal_arms_def)
  ultimately obtain d' where "intend session_sample_host ?j sample_io 0 sample_transition d
      = (Ok (NewTransition session_sample_digest 1), d')"
    using sample_texts(5) d(2) lk
    by (auto simp: intend_def initial_body_def checked_add_def write_state_def replace_file_def
        sample_announced_def sample_io_def)
  from run_intend [OF d(1) _ this] show ?thesis by (auto simp: sample_genesis_def)
qed

subsection \<open>Properties\<close>

text \<open>
  C19. Whatever handles do to the directory, with calls that fail and synchronisations that are lost,
  the file of a session is absent or the text of a body that the contract reaches from the initial
  one: every operation takes one step of the contract or none.
\<close>

theorem session_run_refines:
  assumes "session_run h sid key d evs" and "self_delimiting (sh_escape h)"
  shows "d (state_name sid) = None
    \<or> (\<exists>g s b. gb_session_id g = sid \<and> (body_step h)\<^sup>*\<^sup>* (initial_body g) s
         \<and> file_bytes h (journal_of g key) s = Ok b \<and> d (state_name sid) = Some b)"
  using session_run_inv [OF assms] by (auto simp: session_inv_def reachable_body_def file_holds_def)

lemma session_run_refines_witness:
  "\<exists>d. d (state_name (SessionId ''ses_1'')) = None
    \<or> (\<exists>g s b. gb_session_id g = SessionId ''ses_1'' \<and> (body_step session_sample_host)\<^sup>*\<^sup>* (initial_body g) s
         \<and> file_bytes session_sample_host (journal_of g session_sample_key) s = Ok b
         \<and> d (state_name (SessionId ''ses_1'')) = Some b)"
proof -
  obtain d where "session_run session_sample_host (SessionId ''ses_1'') session_sample_key d [Announced session_sample_digest]"
    using sample_run by blast
  from session_run_refines [OF this sample_delimited] show ?thesis by blast
qed

text \<open>
  C14. What a handle loads in any run lies on one of the two tracks of a session: the completed steps
  are an initial part of it, the phase is the one after them, a pending transition is its next step,
  the generation counts the changes and no transition is completed twice.  So no permit is activated
  in a session whose authority was denied.
\<close>

theorem session_stays_on_track:
  assumes "session_run h (gb_session_id g) key d evs" and "self_delimiting (sh_escape h)"
    and "load h (journal_of g key) io d = Ok s"
  shows "(follows granted_track s \<or> follows denied_track s)
    \<and> unat (sb_generation s) = expected_generation s \<and> distinct (transition_ids s)"
proof -
  have "reachable_body h g s"
    using session_inv_body [OF assms(2) session_run_inv [OF assms(1,2)]] load_holds [OF assms(3)] by blast
  then show ?thesis using reachable_follows reachable_generation reachable_distinct by blast
qed

lemma session_stays_on_track_witness:
  "follows granted_track (initial_body sample_genesis) \<or> follows denied_track (initial_body sample_genesis)"
proof -
  obtain d where d: "session_run session_sample_host (gb_session_id sample_genesis) session_sample_key d []"
    "load session_sample_host (journal_of sample_genesis session_sample_key) sample_io d = Ok (initial_body sample_genesis)"
    using sample_created by blast
  show ?thesis using session_stays_on_track [OF d(1) sample_delimited d(2)] by blast
qed

text \<open>
  C8. In any run each transition is announced as new at most once and completed as new at most once,
  and all the handles that were told of a completion, new or existing, gave the same one.
\<close>

theorem session_steps_once:
  assumes "session_run h sid key d evs" and "self_delimiting (sh_escape h)"
  shows "distinct (announced evs) \<and> distinct (map fst (recorded evs))
    \<and> inj_on fst (set (recorded evs @ confirmed evs))"
proof -
  have "evs = [] \<or> (\<exists>g s. reachable_body h g s \<and> logged evs s)"
    using session_run_inv [OF assms] by (auto simp: session_inv_def)
  then show ?thesis
  proof
    assume "\<exists>g s. reachable_body h g s \<and> logged evs s"
    then obtain g s where s: "reachable_body h g s" "logged evs s" by blast
    have "inj_on fst (set (completions s))"
      using reachable_distinct [OF s(1)] by (simp add: distinct_map flip: fst_completions)
    then have "inj_on fst (set (recorded evs @ confirmed evs))"
      by (rule inj_on_subset) (use s(2) in \<open>auto simp: logged_def\<close>)
    then show ?thesis using s(2) by (simp add: logged_def)
  qed simp
qed

lemma session_steps_once_witness: "distinct (announced [Announced session_sample_digest])"
proof -
  obtain d where "session_run session_sample_host (SessionId ''ses_1'') session_sample_key d [Announced session_sample_digest]"
    using sample_run by blast
  from session_steps_once [OF this sample_delimited] show ?thesis by blast
qed

text \<open>
  The limits of the journal are never met: in no run does an announcement or a completion fail
  for an exhausted generation or for too many transitions.
\<close>

theorem session_limits_unmet:
  assumes "session_run h (gb_session_id g) key d evs" and "self_delimiting (sh_escape h)"
  shows "fst (intend h (journal_of g key) io expected t d) \<notin> {Err GenerationExhausted, Err TransitionLimit}
    \<and> fst (complete h (journal_of g key) io' expected' i c d) \<notin> {Err GenerationExhausted, Err TransitionLimit}"
proof -
  have small: "checked_add (sb_generation s) 1 \<noteq> None"
    "sb_pending s \<noteq> None \<Longrightarrow> \<not> MAX_COMPLETED_TRANSITIONS \<le> length (sb_completed s)"
    if "file_holds h (journal_of g key) d s" "well_bound h (journal_of g key) s" for s
  proof -
    have "reachable_body h g s" using session_inv_body [OF assms(2) session_run_inv [OF assms] that] by blast
    then show "checked_add (sb_generation s) 1 \<noteq> None"
      "sb_pending s \<noteq> None \<Longrightarrow> \<not> MAX_COMPLETED_TRANSITIONS \<le> length (sb_completed s)"
      using reachable_small [of h g s] by (auto simp: MAX_COMPLETED_TRANSITIONS_def)
  qed
  have "fst (intend h (journal_of g key) io expected t d) \<noteq> Err e" if "is_limit e" for e
    using intend_limit [OF _ that] small by (metis prod.collapse)
  moreover have "fst (complete h (journal_of g key) io' expected' i c d) \<noteq> Err e" if "is_limit e" for e
    using complete_limit [OF _ that] small by (metis prod.collapse)
  ultimately show ?thesis by (simp add: is_limit_def)
qed

lemma session_limits_unmet_witness:
  "\<exists>d. session_run session_sample_host (gb_session_id sample_genesis) session_sample_key d []
    \<and> fst (intend session_sample_host (journal_of sample_genesis session_sample_key) sample_io 0 sample_transition d)
      \<noteq> Err GenerationExhausted"
proof -
  obtain d where d: "session_run session_sample_host (gb_session_id sample_genesis) session_sample_key d []"
    using sample_created by blast
  from session_limits_unmet [OF d sample_delimited] show ?thesis using d by blast
qed

text \<open>
  C23. The file is authentic to the byte: a load returns a body only when the file holds exactly the
  bytes that writing this body under this key produces and its bindings are checked; and such a file
  is loaded, if the JSON parser reads back what was written.
\<close>

theorem journal_file_exact:
  assumes "\<And>tag b. session_mac h (jn_key j) s = Ok tag
      \<Longrightarrow> canonical h file_value \<lparr>sf_body = s, sf_mac = tag\<rparr> = Ok b
      \<Longrightarrow> sh_from_slice h b = Ok \<lparr>sf_body = s, sf_mac = tag\<rparr>"
    and "reads io"
  shows "load h j io d = Ok s \<longleftrightarrow>
    well_bound h j s \<and> (\<exists>b. file_bytes h j s = Ok b \<and> d (jn_state j) = Some b)"
proof
  assume "load h j io d = Ok s"
  then show "well_bound h j s \<and> (\<exists>b. file_bytes h j s = Ok b \<and> d (jn_state j) = Some b)"
    by (auto simp: load_Ok)
next
  assume r: "well_bound h j s \<and> (\<exists>b. file_bytes h j s = Ok b \<and> d (jn_state j) = Some b)"
  then obtain b where b: "file_bytes h j s = Ok b" "d (jn_state j) = Some b" by blast
  then obtain tag where "session_mac h (jn_key j) s = Ok tag"
    "canonical h file_value \<lparr>sf_body = s, sf_mac = tag\<rparr> = Ok b"
    by (auto simp: file_bytes_def res_simps split: if_splits)
  then show "load h j io d = Ok s" using assms b r by (auto simp: load_Ok)
qed

lemma journal_file_exact_witness:
  "\<exists>d. load session_sample_host (journal_of sample_genesis session_sample_key) sample_io d = Ok (initial_body sample_genesis)
    \<and> d \<noteq> Map.empty"
proof -
  let ?j = "journal_of sample_genesis session_sample_key" let ?s = "initial_body sample_genesis"
  obtain b where b: "file_bytes session_sample_host ?j ?s = Ok b" by (rule sample_files)
  have parser: "sh_from_slice session_sample_host b = Ok \<lparr>sf_body = ?s, sf_mac = tag\<rparr>"
    if "session_mac session_sample_host (jn_key ?j) ?s = Ok tag" for tag b
    using that sample_texts(3) by (simp add: session_sample_host_def)
  have "reads sample_io" by (simp add: reads_def sample_io_def)
  moreover have "well_bound session_sample_host ?j ?s"
    by (simp add: well_bound_def initial_body_def MAX_COMPLETED_TRANSITIONS_def validate_state_bindings_def)
  ultimately have "load session_sample_host ?j sample_io [jn_state ?j \<mapsto> b] = Ok ?s"
    using journal_file_exact [of session_sample_host ?j ?s sample_io "[jn_state ?j \<mapsto> b]"] parser b by auto
  then show ?thesis by (intro exI [of _ "[jn_state ?j \<mapsto> b]"]) (simp add: fun_eq_iff)
qed

end
