(* ===== verification/Evidence_Log.thy ===== *)
theory Evidence_Log
  imports Authority_Ids Canonical_Json Private_Dir
begin

text \<open>
  The records of \<open>phantom-evidence/src/lib.rs\<close>: events, the state machine that replays them into a
  summary, the records of the log with their chain of message authentication codes, and the decoder
  of a log file.  The hash functions, the hexadecimal codec and the JSON parser are the record
  \<open>evidence_host\<close>; the derived \<open>Serialize\<close> implementations are written out.
\<close>

subsection \<open>Events\<close>

datatype authority_denial =
  NoVerifier | InvalidIntent | InsufficientAuthority | AuthorityExpired | AuthorityRevoked | AuthorityReplay

datatype worker_result = WorkerSucceeded | WorkerFailed | WorkerTimedOut | WorkerRevoked

datatype rollback_result = RollbackApplied | RollbackFailed | RollbackNotRequired

datatype final_outcome =
  OutcomeSucceeded | OutcomeDenied | OutcomeFailed | OutcomeTimedOut | OutcomeRevoked | OutcomeRolledBack

datatype authority_decision =
  Denied sha256_digest authority_denial
| Granted sha256_digest grant_id sha256_digest

datatype evidence_event =
  SessionStarted workspace_id action_id sha256_digest
| AuthorityDecision authority_decision
| LeaseBound grant_id sha256_digest lease_id sha256_digest
| ProxyUseAggregate lease_id u64 u64 u64 u64 u64
| WorkerCompleted worker_result "sha256_digest option"
| RollbackCompleted rollback_result "sha256_digest option"
| FinalOutcome final_outcome sha256_digest

record proxy_use_totals =
  pt_aggregates :: u64
  pt_attempted_requests :: u64
  pt_forwarded_requests :: u64
  pt_denied_requests :: u64
  pt_request_bytes :: u64
  pt_response_bytes :: u64

record evidence_summary =
  es_workspace_id :: "workspace_id option"
  es_action_id :: "action_id option"
  es_intent_digest :: "sha256_digest option"
  es_authority_digest :: "sha256_digest option"
  es_authority_denial :: "authority_denial option"
  es_grant_id :: "grant_id option"
  es_grant_digest :: "sha256_digest option"
  es_lease_id :: "lease_id option"
  es_lease_digest :: "sha256_digest option"
  es_proxy_use :: proxy_use_totals
  es_worker_result :: "worker_result option"
  es_worker_result_digest :: "sha256_digest option"
  es_rollback_result :: "rollback_result option"
  es_rollback_digest :: "sha256_digest option"
  es_final_outcome :: "final_outcome option"
  es_final_outcome_digest :: "sha256_digest option"

record log_record =
  lr_schema_version :: u8
  lr_session_id :: session_id
  lr_sequence :: u64
  lr_observed_at_unix_ms :: u64
  lr_event :: evidence_event
  lr_previous_mac :: sha256_digest
  lr_mac :: sha256_digest

record replay_state =
  rp_summary :: evidence_summary
  rp_last_timestamp :: "u64 option"
  rp_started :: bool
  rp_authority_decided :: bool
  rp_authority_granted :: bool
  rp_lease_bound :: bool
  rp_worker_completed :: bool
  rp_rollback_completed :: bool
  rp_finalized :: bool

definition EVIDENCE_SCHEMA_VERSION :: u8 where
  "EVIDENCE_SCHEMA_VERSION = 1"

definition GENESIS_MAC :: sha256_digest where
  "GENESIS_MAC = Sha256Digest (replicate 64 CHR ''0'')"

definition MAX_LOG_BYTES :: nat where
  "MAX_LOG_BYTES = 16 * 1024 * 1024"

definition MAX_RECORDS :: nat where
  "MAX_RECORDS = 10000"

subsection \<open>Errors and environment\<close>

datatype signer_error = SigningDenied | SignerUnavailable

datatype evidence_error =
  StorageInsideWorkspace | InvalidStorageBoundary | UnsafeStorage | Truncated | NonCanonical | Tampered
| ReplayOrSequence | UnexpectedSequence | IdempotencyConflict | InvalidLifecycle | SessionFinalized
| SessionNotStarted | SessionNotFinalized | TimestampRegression | AggregateOverflow | SequenceExhausted
| LogTooLarge | RecordLimitExceeded | TemporaryFileExhausted | InvalidKey | InvalidDigest
| UnverifiedSignature | ReceiptConflict | ClockBeforeEpoch | ClockOverflow
| Signer signer_error | CanonicalFault canonical_error | Io io_error

record evidence_hashes =
  eh_escape :: "string \<Rightarrow> string"
  eh_sha256 :: "string \<Rightarrow> string"
  eh_hmac :: "string \<Rightarrow> string \<Rightarrow> string option"
  eh_hex_encode :: "string \<Rightarrow> string"
  eh_hex_decode :: "string \<Rightarrow> string option"
  eh_record_from_slice :: "string \<Rightarrow> log_record option"

subsection \<open>Replay\<close>

definition proxy_totals_default :: proxy_use_totals where
  "proxy_totals_default = \<lparr>pt_aggregates = 0, pt_attempted_requests = 0, pt_forwarded_requests = 0,
     pt_denied_requests = 0, pt_request_bytes = 0, pt_response_bytes = 0\<rparr>"

definition summary_default :: evidence_summary where
  "summary_default = \<lparr>es_workspace_id = None, es_action_id = None, es_intent_digest = None,
     es_authority_digest = None, es_authority_denial = None, es_grant_id = None, es_grant_digest = None,
     es_lease_id = None, es_lease_digest = None, es_proxy_use = proxy_totals_default,
     es_worker_result = None, es_worker_result_digest = None, es_rollback_result = None,
     es_rollback_digest = None, es_final_outcome = None, es_final_outcome_digest = None\<rparr>"

definition replay_default :: replay_state where
  "replay_default = \<lparr>rp_summary = summary_default, rp_last_timestamp = None, rp_started = False,
     rp_authority_decided = False, rp_authority_granted = False, rp_lease_bound = False,
     rp_worker_completed = False, rp_rollback_completed = False, rp_finalized = False\<rparr>"

fun can_finalize_as :: "replay_state \<Rightarrow> final_outcome \<Rightarrow> bool" where
  "can_finalize_as st OutcomeDenied = (\<not> rp_authority_granted st)"
| "can_finalize_as st OutcomeSucceeded =
     (rp_rollback_completed st \<and> es_worker_result (rp_summary st) = Some WorkerSucceeded
      \<and> es_rollback_result (rp_summary st) = Some RollbackNotRequired)"
| "can_finalize_as st OutcomeTimedOut =
     (rp_rollback_completed st \<and> es_worker_result (rp_summary st) = Some WorkerTimedOut)"
| "can_finalize_as st OutcomeRevoked =
     (rp_rollback_completed st \<and> es_worker_result (rp_summary st) = Some WorkerRevoked)"
| "can_finalize_as st OutcomeRolledBack = (es_rollback_result (rp_summary st) = Some RollbackApplied)"
| "can_finalize_as st OutcomeFailed =
     (rp_rollback_completed st
      \<and> (es_worker_result (rp_summary st) = Some WorkerFailed
         \<or> es_rollback_result (rp_summary st) = Some RollbackFailed))"

definition can_finalize :: "replay_state \<Rightarrow> final_outcome \<Rightarrow> bool" where
  "can_finalize st outcome = (if \<not> rp_authority_decided st then False else can_finalize_as st outcome)"

fun event_allowed :: "replay_state \<Rightarrow> evidence_event \<Rightarrow> bool" where
  "event_allowed st (SessionStarted _ _ _) = (\<not> rp_started st)"
| "event_allowed st (AuthorityDecision _) = (rp_started st \<and> \<not> rp_authority_decided st)"
| "event_allowed st (LeaseBound gid gdigest _ _) =
     (rp_authority_granted st \<and> \<not> rp_lease_bound st \<and> es_grant_id (rp_summary st) = Some gid
      \<and> es_grant_digest (rp_summary st) = Some gdigest)"
| "event_allowed st (ProxyUseAggregate lid attempted forwarded denied _ _) =
     (rp_lease_bound st \<and> \<not> rp_worker_completed st \<and> es_lease_id (rp_summary st) = Some lid
      \<and> (case checked_add forwarded denied of None \<Rightarrow> False | Some requests \<Rightarrow> requests \<le> attempted))"
| "event_allowed st (WorkerCompleted _ digest) =
     (rp_lease_bound st \<and> \<not> rp_worker_completed st \<and> digest \<noteq> None)"
| "event_allowed st (RollbackCompleted result digest) =
     (rp_worker_completed st \<and> \<not> rp_rollback_completed st
      \<and> (if result = RollbackNotRequired then digest = None else digest \<noteq> None))"
| "event_allowed st (FinalOutcome outcome _) = can_finalize st outcome"

definition validate_next :: "replay_state \<Rightarrow> evidence_event \<Rightarrow> u64 \<Rightarrow> (unit, evidence_error) result" where
  "validate_next st event timestamp =
     (if rp_finalized st then Err SessionFinalized
      else if (case rp_last_timestamp st of None \<Rightarrow> False | Some latest \<Rightarrow> timestamp < latest)
        then Err TimestampRegression
      else if event_allowed st event then Ok () else Err InvalidLifecycle)"

definition add_total :: "u64 \<Rightarrow> u64 \<Rightarrow> (u64, evidence_error) result" where
  "add_total left right = ok_or (checked_add left right) AggregateOverflow"

definition add_aggregate :: "proxy_use_totals \<Rightarrow> u64 \<Rightarrow> u64 \<Rightarrow> u64 \<Rightarrow> u64 \<Rightarrow> u64
    \<Rightarrow> (proxy_use_totals, evidence_error) result" where
  "add_aggregate t attempted forwarded denied req_bytes resp_bytes =
     and_then (add_total (pt_aggregates t) 1) (\<lambda>n.
     and_then (add_total (pt_attempted_requests t) attempted) (\<lambda>a.
     and_then (add_total (pt_forwarded_requests t) forwarded) (\<lambda>f.
     and_then (add_total (pt_denied_requests t) denied) (\<lambda>d.
     and_then (add_total (pt_request_bytes t) req_bytes) (\<lambda>q.
     and_then (add_total (pt_response_bytes t) resp_bytes) (\<lambda>p.
       Ok \<lparr>pt_aggregates = n, pt_attempted_requests = a, pt_forwarded_requests = f,
           pt_denied_requests = d, pt_request_bytes = q, pt_response_bytes = p\<rparr>))))))"

fun apply_event :: "replay_state \<Rightarrow> evidence_event \<Rightarrow> (replay_state, evidence_error) result" where
  "apply_event st (SessionStarted wid aid intent) =
     Ok (st\<lparr>rp_started := True, rp_summary := (rp_summary st)\<lparr>es_workspace_id := Some wid,
       es_action_id := Some aid, es_intent_digest := Some intent\<rparr>\<rparr>)"
| "apply_event st (AuthorityDecision (Denied digest reason)) =
     Ok (st\<lparr>rp_authority_decided := True, rp_summary := (rp_summary st)\<lparr>es_authority_digest := Some digest,
       es_authority_denial := Some reason\<rparr>\<rparr>)"
| "apply_event st (AuthorityDecision (Granted digest gid gdigest)) =
     Ok (st\<lparr>rp_authority_decided := True, rp_authority_granted := True,
       rp_summary := (rp_summary st)\<lparr>es_authority_digest := Some digest, es_grant_id := Some gid,
         es_grant_digest := Some gdigest\<rparr>\<rparr>)"
| "apply_event st (LeaseBound _ _ lid ldigest) =
     Ok (st\<lparr>rp_lease_bound := True, rp_summary := (rp_summary st)\<lparr>es_lease_id := Some lid,
       es_lease_digest := Some ldigest\<rparr>\<rparr>)"
| "apply_event st (ProxyUseAggregate _ attempted forwarded denied req_bytes resp_bytes) =
     and_then (add_aggregate (es_proxy_use (rp_summary st)) attempted forwarded denied req_bytes resp_bytes)
       (\<lambda>totals. Ok (st\<lparr>rp_summary := (rp_summary st)\<lparr>es_proxy_use := totals\<rparr>\<rparr>))"
| "apply_event st (WorkerCompleted result digest) =
     Ok (st\<lparr>rp_worker_completed := True, rp_summary := (rp_summary st)\<lparr>es_worker_result := Some result,
       es_worker_result_digest := digest\<rparr>\<rparr>)"
| "apply_event st (RollbackCompleted result digest) =
     Ok (st\<lparr>rp_rollback_completed := True, rp_summary := (rp_summary st)\<lparr>es_rollback_result := Some result,
       es_rollback_digest := digest\<rparr>\<rparr>)"
| "apply_event st (FinalOutcome outcome digest) =
     Ok (st\<lparr>rp_finalized := True, rp_summary := (rp_summary st)\<lparr>es_final_outcome := Some outcome,
       es_final_outcome_digest := Some digest\<rparr>\<rparr>)"

definition apply_next :: "replay_state \<Rightarrow> evidence_event \<Rightarrow> u64 \<Rightarrow> (replay_state, evidence_error) result" where
  "apply_next st event timestamp =
     and_then (validate_next st event timestamp) (\<lambda>_.
       apply_event (st\<lparr>rp_last_timestamp := Some timestamp\<rparr>) event)"

fun replay_from :: "session_id \<Rightarrow> nat \<Rightarrow> replay_state \<Rightarrow> log_record list
    \<Rightarrow> (replay_state, evidence_error) result" where
  "replay_from sid index st [] = Ok st"
| "replay_from sid index st (r # rs) =
     (if lr_session_id r \<noteq> sid then Err ReplayOrSequence
      else and_then (ok_or (word_try_from index) SequenceExhausted) (\<lambda>n.
        if lr_sequence r \<noteq> n then Err ReplayOrSequence
        else and_then (apply_next st (lr_event r) (lr_observed_at_unix_ms r)) (\<lambda>st'.
          replay_from sid (index + 1) st' rs)))"

definition replay :: "session_id \<Rightarrow> log_record list \<Rightarrow> (replay_state, evidence_error) result" where
  "replay sid records = replay_from sid 0 replay_default records"

subsection \<open>Serialized forms\<close>

definition digest_json :: "sha256_digest \<Rightarrow> json" where
  "digest_json d = JString (digest_str d)"

definition optional_json :: "('a \<Rightarrow> json) \<Rightarrow> 'a option \<Rightarrow> json" where
  "optional_json f x = (case x of None \<Rightarrow> JNull | Some v \<Rightarrow> f v)"

definition u64_json :: "u64 \<Rightarrow> json" where
  "u64_json n = JNumber (PosInt n)"

fun denial_json :: "authority_denial \<Rightarrow> json" where
  "denial_json NoVerifier = JString ''no_verifier''"
| "denial_json InvalidIntent = JString ''invalid_intent''"
| "denial_json InsufficientAuthority = JString ''insufficient_authority''"
| "denial_json AuthorityExpired = JString ''expired''"
| "denial_json AuthorityRevoked = JString ''revoked''"
| "denial_json AuthorityReplay = JString ''replay''"

fun worker_json :: "worker_result \<Rightarrow> json" where
  "worker_json WorkerSucceeded = JString ''succeeded''"
| "worker_json WorkerFailed = JString ''failed''"
| "worker_json WorkerTimedOut = JString ''timed_out''"
| "worker_json WorkerRevoked = JString ''revoked''"

fun rollback_json :: "rollback_result \<Rightarrow> json" where
  "rollback_json RollbackApplied = JString ''applied''"
| "rollback_json RollbackFailed = JString ''failed''"
| "rollback_json RollbackNotRequired = JString ''not_required''"

fun outcome_json :: "final_outcome \<Rightarrow> json" where
  "outcome_json OutcomeSucceeded = JString ''succeeded''"
| "outcome_json OutcomeDenied = JString ''denied''"
| "outcome_json OutcomeFailed = JString ''failed''"
| "outcome_json OutcomeTimedOut = JString ''timed_out''"
| "outcome_json OutcomeRevoked = JString ''revoked''"
| "outcome_json OutcomeRolledBack = JString ''rolled_back''"

fun decision_json :: "authority_decision \<Rightarrow> json" where
  "decision_json (Denied digest reason) = JObject
     [(''result'', JString ''denied''), (''authority_digest'', digest_json digest),
      (''reason'', denial_json reason)]"
| "decision_json (Granted digest gid gdigest) = JObject
     [(''result'', JString ''granted''), (''authority_digest'', digest_json digest),
      (''grant_id'', JString (grant_id_str gid)), (''grant_digest'', digest_json gdigest)]"

fun event_json :: "evidence_event \<Rightarrow> json" where
  "event_json (SessionStarted wid aid intent) = JObject
     [(''kind'', JString ''session_started''), (''workspace_id'', JString (workspace_id_str wid)),
      (''action_id'', JString (action_id_str aid)), (''intent_digest'', digest_json intent)]"
| "event_json (AuthorityDecision decision) = JObject
     [(''kind'', JString ''authority_decision''), (''decision'', decision_json decision)]"
| "event_json (LeaseBound gid gdigest lid ldigest) = JObject
     [(''kind'', JString ''lease_bound''), (''grant_id'', JString (grant_id_str gid)),
      (''grant_digest'', digest_json gdigest), (''lease_id'', JString (lease_id_str lid)),
      (''lease_digest'', digest_json ldigest)]"
| "event_json (ProxyUseAggregate lid attempted forwarded denied req_bytes resp_bytes) = JObject
     [(''kind'', JString ''proxy_use_aggregate''), (''lease_id'', JString (lease_id_str lid)),
      (''attempted_requests'', u64_json attempted), (''forwarded_requests'', u64_json forwarded),
      (''denied_requests'', u64_json denied), (''request_bytes'', u64_json req_bytes),
      (''response_bytes'', u64_json resp_bytes)]"
| "event_json (WorkerCompleted result digest) = JObject
     [(''kind'', JString ''worker_completed''), (''result'', worker_json result),
      (''result_digest'', optional_json digest_json digest)]"
| "event_json (RollbackCompleted result digest) = JObject
     [(''kind'', JString ''rollback_completed''), (''result'', rollback_json result),
      (''rollback_digest'', optional_json digest_json digest)]"
| "event_json (FinalOutcome outcome digest) = JObject
     [(''kind'', JString ''final_outcome''), (''outcome'', outcome_json outcome),
      (''outcome_digest'', digest_json digest)]"

fun event_kind :: "evidence_event \<Rightarrow> string" where
  "event_kind (SessionStarted _ _ _) = ''session_started''"
| "event_kind (AuthorityDecision _) = ''authority_decision''"
| "event_kind (LeaseBound _ _ _ _) = ''lease_bound''"
| "event_kind (ProxyUseAggregate _ _ _ _ _ _) = ''proxy_use_aggregate''"
| "event_kind (WorkerCompleted _ _) = ''worker_completed''"
| "event_kind (RollbackCompleted _ _) = ''rollback_completed''"
| "event_kind (FinalOutcome _ _) = ''final_outcome''"

text \<open>The fields of a record that its code is computed over, and the whole record.\<close>

definition unsigned_fields :: "log_record \<Rightarrow> (string \<times> json) list" where
  "unsigned_fields r =
     [(''schema_version'', u64_json (ucast (lr_schema_version r))),
      (''session_id'', JString (session_id_str (lr_session_id r))),
      (''sequence'', u64_json (lr_sequence r)),
      (''observed_at_unix_ms'', u64_json (lr_observed_at_unix_ms r)),
      (''event'', event_json (lr_event r)), (''previous_mac'', digest_json (lr_previous_mac r))]"

definition unsigned_json :: "log_record \<Rightarrow> json" where
  "unsigned_json r = JObject (unsigned_fields r)"

definition record_json :: "log_record \<Rightarrow> json" where
  "record_json r = JObject (unsigned_fields r @ [(''mac'', digest_json (lr_mac r))])"

definition evidence_text ::
  "('h) evidence_hashes_scheme \<Rightarrow> ('a \<Rightarrow> json) \<Rightarrow> 'a \<Rightarrow> (string, evidence_error) result" where
  "evidence_text h to_value x = map_err CanonicalFault (canonical_json_v1 (eh_escape h) to_value x)"

subsection \<open>Codes and digests\<close>

definition RECORD_MAC_DOMAIN :: string where
  "RECORD_MAC_DOMAIN = ''phantom.execution-evidence.record.v1'' @ [CHR 0x00]"

definition EVENT_DIGEST_DOMAIN :: string where
  "EVENT_DIGEST_DOMAIN = ''phantom.execution-evidence.event.v1'' @ [CHR 0x00]"

definition APPEND_WITNESS_DOMAIN :: string where
  "APPEND_WITNESS_DOMAIN = ''phantom.execution-evidence.append-witness.v1'' @ [CHR 0x00]"

definition compute_mac :: "('h) evidence_hashes_scheme \<Rightarrow> string \<Rightarrow> string \<Rightarrow> string
    \<Rightarrow> (sha256_digest, evidence_error) result" where
  "compute_mac h key domain payload =
     and_then (ok_or (eh_hmac h key (domain @ payload)) InvalidKey) (\<lambda>tag.
       map_err (\<lambda>_. InvalidDigest) (parse_sha256_digest (eh_hex_encode h tag)))"

definition verify_mac :: "('h) evidence_hashes_scheme \<Rightarrow> string \<Rightarrow> string \<Rightarrow> string \<Rightarrow> sha256_digest
    \<Rightarrow> (unit, evidence_error) result" where
  "verify_mac h key domain payload expected =
     and_then (ok_or (eh_hex_decode h (digest_str expected)) Tampered) (\<lambda>bytes.
     and_then (ok_or (eh_hmac h key (domain @ payload)) InvalidKey) (\<lambda>tag.
       if tag = bytes then Ok () else Err Tampered))"

text \<open>The hexadecimal form of a SHA-256 value always has the shape of a digest (the \<open>expect\<close>).\<close>

definition sha256_domain_digest :: "('h) evidence_hashes_scheme \<Rightarrow> string \<Rightarrow> string \<Rightarrow> sha256_digest" where
  "sha256_domain_digest h domain bytes = Sha256Digest (eh_hex_encode h (eh_sha256 h (domain @ bytes)))"

definition event_digest ::
  "('h) evidence_hashes_scheme \<Rightarrow> evidence_event \<Rightarrow> (sha256_digest, evidence_error) result" where
  "event_digest h event =
     and_then (evidence_text h event_json event) (\<lambda>text.
       Ok (sha256_domain_digest h EVENT_DIGEST_DOMAIN text))"

definition witness_json :: "session_id \<times> u64 \<times> sha256_digest \<Rightarrow> json" where
  "witness_json = (\<lambda>(sid, sequence, mac). JObject
     [(''session_id'', JString (session_id_str sid)), (''sequence'', u64_json sequence),
      (''record_mac'', digest_json mac)])"

definition append_witness :: "('h) evidence_hashes_scheme \<Rightarrow> session_id \<Rightarrow> u64 \<Rightarrow> sha256_digest
    \<Rightarrow> (sha256_digest, evidence_error) result" where
  "append_witness h sid sequence mac =
     and_then (evidence_text h witness_json (sid, sequence, mac)) (\<lambda>text.
       Ok (sha256_domain_digest h APPEND_WITNESS_DOMAIN text))"

subsection \<open>The log\<close>

abbreviation LINE_FEED :: char where "LINE_FEED \<equiv> CHR 0x0A"

definition decode_line :: "('h) evidence_hashes_scheme \<Rightarrow> session_id \<Rightarrow> string \<Rightarrow> nat \<Rightarrow> sha256_digest
    \<Rightarrow> string \<Rightarrow> (log_record, evidence_error) result" where
  "decode_line h sid key index previous line =
     (if MAX_RECORDS \<le> index then Err RecordLimitExceeded
      else if line = [] then Err Truncated
      else and_then (ok_or (eh_record_from_slice h line) Tampered) (\<lambda>r.
      and_then (evidence_text h record_json r) (\<lambda>again.
      if again \<noteq> line then Err NonCanonical
      else and_then (ok_or (word_try_from index) SequenceExhausted) (\<lambda>n.
      if lr_schema_version r \<noteq> EVIDENCE_SCHEMA_VERSION \<or> lr_session_id r \<noteq> sid \<or> lr_sequence r \<noteq> n
        \<or> lr_previous_mac r \<noteq> previous then Err ReplayOrSequence
      else and_then (evidence_text h unsigned_json r) (\<lambda>unsigned_bytes.
      and_then (verify_mac h key RECORD_MAC_DOMAIN unsigned_bytes (lr_mac r)) (\<lambda>_. Ok r))))))"

fun decode_lines :: "('h) evidence_hashes_scheme \<Rightarrow> session_id \<Rightarrow> string \<Rightarrow> nat \<Rightarrow> sha256_digest
    \<Rightarrow> string list \<Rightarrow> (log_record list, evidence_error) result" where
  "decode_lines h sid key index previous [] = Ok []"
| "decode_lines h sid key index previous (line # lines) =
     and_then (decode_line h sid key index previous line) (\<lambda>r.
     and_then (decode_lines h sid key (index + 1) (lr_mac r) lines) (\<lambda>rs. Ok (r # rs)))"

definition decode_records :: "('h) evidence_hashes_scheme \<Rightarrow> session_id \<Rightarrow> string \<Rightarrow> string
    \<Rightarrow> (log_record list, evidence_error) result" where
  "decode_records h sid key bytes =
     (if bytes = [] then Ok []
      else if last bytes \<noteq> LINE_FEED then Err Truncated
      else and_then (decode_lines h sid key 0 GENESIS_MAC (split_on LINE_FEED (butlast bytes))) (\<lambda>rs.
        and_then (replay sid rs) (\<lambda>_. Ok rs)))"

text \<open>The record that an append writes, and its line.\<close>

definition next_previous_mac :: "log_record list \<Rightarrow> sha256_digest" where
  "next_previous_mac records = (if records = [] then GENESIS_MAC else lr_mac (last records))"

definition build_record :: "('h) evidence_hashes_scheme \<Rightarrow> session_id \<Rightarrow> string \<Rightarrow> log_record list
    \<Rightarrow> evidence_event \<Rightarrow> u64 \<Rightarrow> u64 \<Rightarrow> (log_record, evidence_error) result" where
  "build_record h sid key records event observed sequence =
     (let r = \<lparr>lr_schema_version = EVIDENCE_SCHEMA_VERSION, lr_session_id = sid, lr_sequence = sequence,
        lr_observed_at_unix_ms = observed, lr_event = event,
        lr_previous_mac = next_previous_mac records, lr_mac = GENESIS_MAC\<rparr>
      in and_then (evidence_text h unsigned_json r) (\<lambda>unsigned_bytes.
         and_then (compute_mac h key RECORD_MAC_DOMAIN unsigned_bytes) (\<lambda>mac. Ok (r\<lparr>lr_mac := mac\<rparr>))))"

definition record_line :: "('h) evidence_hashes_scheme \<Rightarrow> log_record \<Rightarrow> (string, evidence_error) result" where
  "record_line h r = and_then (evidence_text h record_json r) (\<lambda>text. Ok (text @ [LINE_FEED]))"

end
