(* ===== verification/Evidence_Store.thy ===== *)
theory Evidence_Store
  imports Evidence_Log Utf8_Text Text_Trim
begin

text \<open>
  The store of \<open>phantom-evidence/src/lib.rs\<close>: the key, the appends, the receipts.  The two private
  directories are maps of files; the outcome of every call to them, the clock and the random bytes of
  one operation are the record \<open>evidence_io\<close>.  A signer is a record of its methods.
\<close>

subsection \<open>Receipts\<close>

record receipt_payload =
  py_schema_version :: u8
  py_session_id :: session_id
  py_event_count :: u64
  py_chain_head :: sha256_digest
  py_summary :: evidence_summary

datatype receipt_trust = UnsignedUntrusted | CallerAsserted installation_id string

datatype receipt_trust_state = StateUnsignedUntrusted | StateCallerAsserted

record session_receipt =
  sr_payload :: receipt_payload
  sr_payload_digest :: sha256_digest
  sr_local_integrity_mac :: sha256_digest
  sr_trust :: receipt_trust

definition trust_state :: "session_receipt \<Rightarrow> receipt_trust_state" where
  "trust_state r = (case sr_trust r of UnsignedUntrusted \<Rightarrow> StateUnsignedUntrusted
                                     | CallerAsserted _ _ \<Rightarrow> StateCallerAsserted)"

definition totals_json :: "proxy_use_totals \<Rightarrow> json" where
  "totals_json t = JObject
     [(''aggregates'', u64_json (pt_aggregates t)),
      (''attempted_requests'', u64_json (pt_attempted_requests t)),
      (''forwarded_requests'', u64_json (pt_forwarded_requests t)),
      (''denied_requests'', u64_json (pt_denied_requests t)),
      (''request_bytes'', u64_json (pt_request_bytes t)),
      (''response_bytes'', u64_json (pt_response_bytes t))]"

definition summary_json :: "evidence_summary \<Rightarrow> json" where
  "summary_json s = JObject
     [(''workspace_id'', optional_json (\<lambda>i. JString (workspace_id_str i)) (es_workspace_id s)),
      (''action_id'', optional_json (\<lambda>i. JString (action_id_str i)) (es_action_id s)),
      (''intent_digest'', optional_json digest_json (es_intent_digest s)),
      (''authority_digest'', optional_json digest_json (es_authority_digest s)),
      (''authority_denial'', optional_json denial_json (es_authority_denial s)),
      (''grant_id'', optional_json (\<lambda>i. JString (grant_id_str i)) (es_grant_id s)),
      (''grant_digest'', optional_json digest_json (es_grant_digest s)),
      (''lease_id'', optional_json (\<lambda>i. JString (lease_id_str i)) (es_lease_id s)),
      (''lease_digest'', optional_json digest_json (es_lease_digest s)),
      (''proxy_use'', totals_json (es_proxy_use s)),
      (''worker_result'', optional_json worker_json (es_worker_result s)),
      (''worker_result_digest'', optional_json digest_json (es_worker_result_digest s)),
      (''rollback_result'', optional_json rollback_json (es_rollback_result s)),
      (''rollback_digest'', optional_json digest_json (es_rollback_digest s)),
      (''final_outcome'', optional_json outcome_json (es_final_outcome s)),
      (''final_outcome_digest'', optional_json digest_json (es_final_outcome_digest s))]"

definition payload_json :: "receipt_payload \<Rightarrow> json" where
  "payload_json p = JObject
     [(''schema_version'', u64_json (ucast (py_schema_version p))),
      (''session_id'', JString (session_id_str (py_session_id p))),
      (''event_count'', u64_json (py_event_count p)), (''chain_head'', digest_json (py_chain_head p)),
      (''summary'', summary_json (py_summary p))]"

fun trust_json :: "receipt_trust \<Rightarrow> json" where
  "trust_json UnsignedUntrusted = JObject [(''state'', JString ''unsigned_untrusted'')]"
| "trust_json (CallerAsserted signer signature_hex) = JObject
     [(''state'', JString ''caller_asserted''), (''signer_id'', JString (installation_id_str signer)),
      (''algorithm'', JString ''digest_signature64_v1''), (''signature_hex'', JString signature_hex)]"

definition receipt_json :: "session_receipt \<Rightarrow> json" where
  "receipt_json r = JObject
     [(''payload'', payload_json (sr_payload r)), (''payload_digest'', digest_json (sr_payload_digest r)),
      (''local_integrity_mac'', digest_json (sr_local_integrity_mac r)),
      (''trust'', trust_json (sr_trust r))]"

record evidence_host = evidence_hashes +
  eh_receipt_from_slice :: "string \<Rightarrow> session_receipt option"

definition canonical_bytes :: "evidence_host \<Rightarrow> session_receipt \<Rightarrow> (string, evidence_error) result" where
  "canonical_bytes h r = evidence_text h receipt_json r"

definition RECEIPT_MAC_DOMAIN :: string where
  "RECEIPT_MAC_DOMAIN = ''phantom.execution-evidence.receipt.v1'' @ [CHR 0x00]"

definition RECEIPT_DIGEST_DOMAIN :: string where
  "RECEIPT_DIGEST_DOMAIN = ''phantom.execution-evidence.payload-digest.v1'' @ [CHR 0x00]"

definition SIGNING_ASSERTION_DOMAIN :: string where
  "SIGNING_ASSERTION_DOMAIN = ''phantom.execution-evidence.signing-assertion.v1'' @ [CHR 0x00]"

definition assertion_json :: "u8 \<times> sha256_digest \<times> installation_id \<Rightarrow> json" where
  "assertion_json = (\<lambda>(version, digest, signer). JObject
     [(''schema_version'', u64_json (ucast version)), (''payload_digest'', digest_json digest),
      (''signer_id'', JString (installation_id_str signer)),
      (''algorithm'', JString ''digest_signature64_v1'')])"

definition signing_assertion_digest_for_schema :: "evidence_host \<Rightarrow> u8 \<Rightarrow> sha256_digest \<Rightarrow> installation_id
    \<Rightarrow> (sha256_digest, evidence_error) result" where
  "signing_assertion_digest_for_schema h version digest signer =
     and_then (evidence_text h assertion_json (version, digest, signer)) (\<lambda>text.
       Ok (sha256_domain_digest h SIGNING_ASSERTION_DOMAIN text))"

definition signing_assertion_digest :: "evidence_host \<Rightarrow> sha256_digest \<Rightarrow> installation_id
    \<Rightarrow> (sha256_digest, evidence_error) result" where
  "signing_assertion_digest h digest signer =
     signing_assertion_digest_for_schema h EVIDENCE_SCHEMA_VERSION digest signer"

subsection \<open>Signers\<close>

record evidence_signer =
  sg_signer_id :: installation_id
  sg_sign :: "sha256_digest \<Rightarrow> (string, signer_error) result"
  sg_verify :: "sha256_digest \<Rightarrow> string \<Rightarrow> bool"

datatype signing_boundary = NoVerifiedSigner | AssertedBy evidence_signer

definition deny_all_evidence_signer :: evidence_signer where
  "deny_all_evidence_signer =
     \<lparr>sg_signer_id = InstallationId (''ins_'' @ replicate 32 CHR ''0''),
      sg_sign = (\<lambda>_. Err SigningDenied), sg_verify = (\<lambda>_ _. False)\<rparr>"

subsection \<open>Files\<close>

record evidence_store =
  ev_log_name :: string
  ev_session_id :: session_id

record evidence_world =
  ew_phantom :: private_dir
  ew_evidence :: private_dir

record read_io =
  ri_open :: "open_fault option"
  ri_stat :: "open_fault option"
  ri_private :: bool
  ri_metadata :: "open_fault option"
  ri_read :: "open_fault option"

record evidence_io =
  ei_lock_open :: "open_fault option"
  ei_lock_existing :: read_io
  ei_lock :: "open_fault option"
  ei_key :: read_io
  ei_log :: read_io
  ei_receipt :: read_io
  ei_clock :: "nat option"
  ei_random :: string
  ei_key_create :: "open_fault option"
  ei_key_write :: write_outcome
  ei_append_open :: "open_fault option"
  ei_append_create :: "open_fault option"
  ei_append_metadata :: "open_fault option"
  ei_append_is_file :: bool
  ei_append_write :: write_outcome
  ei_receipt_check :: "open_fault option"
  ei_receipt_replace :: replacement
  ei_receipt_sync :: "open_fault option"

definition LOCK_FILE :: string where "LOCK_FILE = ''evidence.lock''"
definition KEY_FILE :: string where "KEY_FILE = ''evidence-integrity.key''"
definition MAX_KEY_BYTES :: nat where "MAX_KEY_BYTES = 1024"

definition evidence_storage_error :: "io_error \<Rightarrow> evidence_error" where
  "evidence_storage_error e = (if e = InvalidData then UnsafeStorage else Io e)"

fun io_call :: "open_fault option \<Rightarrow> (unit, evidence_error) result" where
  "io_call None = Ok ()"
| "io_call (Some f) = Err (Io (fault_error f))"

lemma io_call_Ok [res_simps]: "io_call f = Inr u \<longleftrightarrow> f = None"
  by (cases f) auto

definition read_bounded :: "read_io \<Rightarrow> string \<Rightarrow> nat \<Rightarrow> (string, evidence_error) result" where
  "read_bounded io contents max_bytes =
     and_then (io_call (ri_metadata io)) (\<lambda>_.
     if max_bytes < length contents then Err LogTooLarge
     else and_then (io_call (ri_read io)) (\<lambda>_.
       let bytes = take (max_bytes + 1) contents in
       if max_bytes < length bytes then Err LogTooLarge else Ok bytes))"

definition read_private_file_bounded :: "read_io \<Rightarrow> private_dir \<Rightarrow> string \<Rightarrow> nat
    \<Rightarrow> (string, evidence_error) result" where
  "read_private_file_bounded io d name max_bytes =
     and_then (map_err evidence_storage_error (open_file (ri_open io) d name)) (\<lambda>contents.
       read_bounded io contents max_bytes)"

definition open_existing_private_readonly :: "read_io \<Rightarrow> private_dir \<Rightarrow> string
    \<Rightarrow> (string, evidence_error) result" where
  "open_existing_private_readonly io d name =
     and_then (map_err evidence_storage_error (open_file (ri_open io) d name)) (\<lambda>contents.
     and_then (io_call (ri_stat io)) (\<lambda>_.
       if ri_private io then Ok contents else Err UnsafeStorage))"

definition read_existing_private_file_bounded :: "read_io \<Rightarrow> private_dir \<Rightarrow> string \<Rightarrow> nat
    \<Rightarrow> (string, evidence_error) result" where
  "read_existing_private_file_bounded io d name max_bytes =
     and_then (open_existing_private_readonly io d name) (\<lambda>contents. read_bounded io contents max_bytes)"

definition unix_millis :: "evidence_io \<Rightarrow> (u64, evidence_error) result" where
  "unix_millis io =
     and_then (ok_or (ei_clock io) ClockBeforeEpoch) (\<lambda>millis.
       ok_or (word_try_from millis) ClockOverflow)"

subsection \<open>The key and the lock\<close>

definition validated_integrity_key :: "string \<Rightarrow> (string, evidence_error) result" where
  "validated_integrity_key raw =
     (if list_all (\<lambda>b. b = CHR 0x00) raw then Err InvalidKey else Ok raw)"

definition parse_key :: "evidence_host \<Rightarrow> string \<Rightarrow> (string, evidence_error) result" where
  "parse_key h bytes =
     (if \<not> valid_utf8 bytes then Err InvalidKey
      else and_then (ok_or (eh_hex_decode h (trim bytes)) InvalidKey) (\<lambda>decoded.
        if length decoded \<noteq> 32 then Err InvalidKey else validated_integrity_key decoded))"

definition acquire_lock :: "evidence_io \<Rightarrow> evidence_world
    \<Rightarrow> (unit, evidence_error) result \<times> evidence_world" where
  "acquire_lock io w =
     (case ei_lock_open io of
        Some f \<Rightarrow> (Err (evidence_storage_error (fault_error f)), w)
      | None \<Rightarrow>
          (io_call (ei_lock io),
           if ew_phantom w LOCK_FILE = None
           then w\<lparr>ew_phantom := (ew_phantom w)(LOCK_FILE \<mapsto> [])\<rparr> else w))"

definition acquire_existing_read_lock :: "evidence_io \<Rightarrow> evidence_world
    \<Rightarrow> (unit, evidence_error) result" where
  "acquire_existing_read_lock io w =
     and_then (open_existing_private_readonly (ei_lock_existing io) (ew_phantom w) LOCK_FILE)
       (\<lambda>_. io_call (ei_lock io))"

definition load_existing_key :: "evidence_host \<Rightarrow> evidence_io \<Rightarrow> evidence_world
    \<Rightarrow> (string, evidence_error) result" where
  "load_existing_key h io w =
     and_then (read_private_file_bounded (ei_key io) (ew_phantom w) KEY_FILE MAX_KEY_BYTES) (parse_key h)"

definition load_existing_key_readonly :: "evidence_host \<Rightarrow> evidence_io \<Rightarrow> evidence_world
    \<Rightarrow> (string, evidence_error) result" where
  "load_existing_key_readonly h io w =
     and_then (read_existing_private_file_bounded (ei_key io) (ew_phantom w) KEY_FILE MAX_KEY_BYTES)
       (parse_key h)"

definition load_or_create_key :: "evidence_host \<Rightarrow> evidence_io \<Rightarrow> evidence_world
    \<Rightarrow> (string, evidence_error) result \<times> evidence_world" where
  "load_or_create_key h io w =
     (case read_private_file_bounded (ei_key io) (ew_phantom w) KEY_FILE MAX_KEY_BYTES of
        Inr bytes \<Rightarrow> (parse_key h bytes, w)
      | Inl e \<Rightarrow>
          if e \<noteq> Io NotFound then (Err e, w)
          else case validated_integrity_key (ei_random io) of
            Inl e' \<Rightarrow> (Err e', w)
          | Inr key \<Rightarrow>
              (case ei_key_create io of
                 Some f \<Rightarrow> (Err (evidence_storage_error (fault_error f)), w)
               | None \<Rightarrow>
                   (case write_all (ei_key_write io) (ew_phantom w) KEY_FILE [] (eh_hex_encode h key) of
                      (r, d) \<Rightarrow> (and_then (map_err Io r) (\<lambda>_. Ok key), w\<lparr>ew_phantom := d\<rparr>))))"

subsection \<open>Opening a store\<close>

record evidence_paths =
  ep_home_directory :: "bool option"
  ep_workspace :: "string list option"
  ep_phantom :: "io_error option"
  ep_evidence :: "io_error option"
  ep_evidence_canonical :: "string list option"

definition ensure_existing_private_root :: "bool option \<Rightarrow> (unit, evidence_error) result" where
  "ensure_existing_private_root metadata =
     and_then (ok_or metadata InvalidStorageBoundary) (\<lambda>directory.
       if directory then Ok () else Err InvalidStorageBoundary)"

fun directory_call :: "io_error option \<Rightarrow> (unit, evidence_error) result" where
  "directory_call None = Ok ()"
| "directory_call (Some e) = Err (evidence_storage_error e)"

definition checked_store :: "evidence_paths \<Rightarrow> session_id \<Rightarrow> (evidence_store, evidence_error) result" where
  "checked_store paths sid =
     and_then (ensure_existing_private_root (ep_home_directory paths)) (\<lambda>_.
     and_then (ok_or (ep_workspace paths) InvalidStorageBoundary) (\<lambda>workspace.
     and_then (directory_call (ep_phantom paths)) (\<lambda>_.
     and_then (directory_call (ep_evidence paths)) (\<lambda>_.
     and_then (ok_or (ep_evidence_canonical paths) InvalidStorageBoundary) (\<lambda>evidence.
     if prefix workspace evidence \<or> prefix evidence workspace then Err StorageInsideWorkspace
     else Ok \<lparr>ev_log_name = session_id_str sid @ ''.jsonl'', ev_session_id = sid\<rparr>)))))"

definition evidence_open :: "evidence_host \<Rightarrow> evidence_paths \<Rightarrow> session_id \<Rightarrow> evidence_io \<Rightarrow> evidence_world
    \<Rightarrow> (evidence_store, evidence_error) result \<times> evidence_world" where
  "evidence_open h paths sid io w =
     (case checked_store paths sid of
        Inl e \<Rightarrow> (Err e, w)
      | Inr store \<Rightarrow>
          (case acquire_lock io w of
             (Inl e, w') \<Rightarrow> (Err e, w')
           | (Inr _, w') \<Rightarrow>
               (case load_or_create_key h io w' of
                  (r, w'') \<Rightarrow> (and_then r (\<lambda>_. Ok store), w''))))"

subsection \<open>The log file\<close>

definition load_records :: "evidence_host \<Rightarrow> evidence_store \<Rightarrow> evidence_io \<Rightarrow> string \<Rightarrow> evidence_world
    \<Rightarrow> (log_record list, evidence_error) result" where
  "load_records h st io key w =
     (case read_private_file_bounded (ei_log io) (ew_evidence w) (ev_log_name st) MAX_LOG_BYTES of
        Inl e \<Rightarrow> if e = Io NotFound then Ok [] else Err e
      | Inr bytes \<Rightarrow> decode_records h (ev_session_id st) key bytes)"

definition load_records_readonly :: "evidence_host \<Rightarrow> evidence_store \<Rightarrow> evidence_io \<Rightarrow> string
    \<Rightarrow> evidence_world \<Rightarrow> (log_record list, evidence_error) result" where
  "load_records_readonly h st io key w =
     and_then (read_existing_private_file_bounded (ei_log io) (ew_evidence w) (ev_log_name st) MAX_LOG_BYTES)
       (decode_records h (ev_session_id st) key)"

definition append_open :: "evidence_store \<Rightarrow> evidence_io \<Rightarrow> evidence_world
    \<Rightarrow> (string, evidence_error) result \<times> evidence_world" where
  "append_open st io w =
     (case open_file (ei_append_open io) (ew_evidence w) (ev_log_name st) of
        Inr contents \<Rightarrow> (Ok contents, w)
      | Inl e \<Rightarrow>
          if e \<noteq> NotFound then (Err (evidence_storage_error e), w)
          else (case ei_append_create io of
              Some f \<Rightarrow> (Err (evidence_storage_error (fault_error f)), w)
            | None \<Rightarrow> (Ok [], w\<lparr>ew_evidence := (ew_evidence w)(ev_log_name st \<mapsto> [])\<rparr>)))"

definition append_line :: "evidence_store \<Rightarrow> evidence_io \<Rightarrow> string \<Rightarrow> evidence_world
    \<Rightarrow> (unit, evidence_error) result \<times> evidence_world" where
  "append_line st io line w =
     (case append_open st io w of
        (Inl e, w') \<Rightarrow> (Err e, w')
      | (Inr contents, w') \<Rightarrow>
          (case io_call (ei_append_metadata io) of
             Inl e \<Rightarrow> (Err e, w')
           | Inr _ \<Rightarrow>
               if \<not> ei_append_is_file io then (Err UnsafeStorage, w')
               else if MAX_LOG_BYTES < length contents + length line then (Err LogTooLarge, w')
               else case write_all (ei_append_write io) (ew_evidence w') (ev_log_name st) contents line of
                 (r, d) \<Rightarrow> (map_err Io r, w'\<lparr>ew_evidence := d\<rparr>)))"

definition ensure_record_capacity :: "nat \<Rightarrow> (unit, evidence_error) result" where
  "ensure_record_capacity count = (if MAX_RECORDS \<le> count then Err RecordLimitExceeded else Ok ())"

text \<open>Everything an append computes before it touches the file.\<close>

definition prepare_append :: "evidence_host \<Rightarrow> session_id \<Rightarrow> string \<Rightarrow> log_record list \<Rightarrow> evidence_event
    \<Rightarrow> u64 \<Rightarrow> (u64 \<times> sha256_digest \<times> sha256_digest \<times> string, evidence_error) result" where
  "prepare_append h sid key records event observed =
     and_then (replay sid records) (\<lambda>state.
     and_then (validate_next state event observed) (\<lambda>_.
     and_then (ensure_record_capacity (length records)) (\<lambda>_.
     and_then (event_digest h event) (\<lambda>digest.
     and_then (ok_or (word_try_from (length records)) SequenceExhausted) (\<lambda>sequence.
     and_then (build_record h sid key records event observed sequence) (\<lambda>record.
     and_then (append_witness h sid sequence (lr_mac record)) (\<lambda>witness.
     and_then (record_line h record) (\<lambda>line. Ok (sequence, digest, witness, line)))))))))"

definition append_new :: "evidence_host \<Rightarrow> evidence_store \<Rightarrow> evidence_io \<Rightarrow> string \<Rightarrow> log_record list
    \<Rightarrow> evidence_event \<Rightarrow> u64 \<Rightarrow> evidence_world
    \<Rightarrow> (u64 \<times> sha256_digest \<times> sha256_digest, evidence_error) result \<times> evidence_world" where
  "append_new h st io key records event observed w =
     (case prepare_append h (ev_session_id st) key records event observed of
        Inl e \<Rightarrow> (Err e, w)
      | Inr (sequence, digest, witness, line) \<Rightarrow>
          (case append_line st io line w of
             (r, w') \<Rightarrow> (and_then r (\<lambda>_. Ok (sequence, digest, witness)), w')))"

subsection \<open>Operations\<close>

datatype append_once_result =
  AppendedNew u64 sha256_digest sha256_digest
| AppendedExisting u64 sha256_digest sha256_digest

definition append_internal :: "evidence_host \<Rightarrow> evidence_store \<Rightarrow> evidence_io \<Rightarrow> evidence_event
    \<Rightarrow> u64 option \<Rightarrow> evidence_world \<Rightarrow> (u64, evidence_error) result \<times> evidence_world" where
  "append_internal h st io event observed w =
     (case acquire_lock io w of
        (Inl e, w') \<Rightarrow> (Err e, w')
      | (Inr _, w') \<Rightarrow>
          (case and_then (case observed of Some t \<Rightarrow> Ok t | None \<Rightarrow> unix_millis io) (\<lambda>t.
              and_then (load_existing_key h io w') (\<lambda>key.
              and_then (load_records h st io key w') (\<lambda>records. Ok (t, key, records)))) of
             Inl e \<Rightarrow> (Err e, w')
           | Inr (t, key, records) \<Rightarrow>
               (case append_new h st io key records event t w' of
                  (r, w'') \<Rightarrow> (and_then r (\<lambda>(sequence, _, _). Ok sequence), w''))))"

definition evidence_append :: "evidence_host \<Rightarrow> evidence_store \<Rightarrow> evidence_io \<Rightarrow> evidence_event
    \<Rightarrow> evidence_world \<Rightarrow> (u64, evidence_error) result \<times> evidence_world" where
  "evidence_append h st io event w = append_internal h st io event None w"

text \<open>A sequence number on a 64-bit target is an index.\<close>

definition append_once :: "evidence_host \<Rightarrow> evidence_store \<Rightarrow> evidence_io \<Rightarrow> u64 \<Rightarrow> evidence_event
    \<Rightarrow> evidence_world \<Rightarrow> (append_once_result, evidence_error) result \<times> evidence_world" where
  "append_once h st io expected_sequence event w =
     (case acquire_lock io w of
        (Inl e, w') \<Rightarrow> (Err e, w')
      | (Inr _, w') \<Rightarrow>
          (case and_then (load_existing_key h io w') (\<lambda>key.
              and_then (load_records h st io key w') (\<lambda>records.
              and_then (event_digest h event) (\<lambda>digest. Ok (key, records, digest)))) of
             Inl e \<Rightarrow> (Err e, w')
           | Inr (key, records, requested) \<Rightarrow>
               (let index = unat expected_sequence in
                if index < length records then
                  (and_then (event_digest h (lr_event (records ! index))) (\<lambda>existing.
                     if existing \<noteq> requested \<or> lr_event (records ! index) \<noteq> event
                     then Err IdempotencyConflict
                     else and_then (append_witness h (ev_session_id st) expected_sequence
                         (lr_mac (records ! index)))
                       (\<lambda>witness. Ok (AppendedExisting expected_sequence requested witness))), w')
                else if index \<noteq> length records then (Err UnexpectedSequence, w')
                else case unix_millis io of
                  Inl e \<Rightarrow> (Err e, w')
                | Inr t \<Rightarrow>
                    (case append_new h st io key records event t w' of
                       (r, w'') \<Rightarrow>
                         (and_then r (\<lambda>(sequence, digest, witness).
                            Ok (AppendedNew sequence digest witness)), w'')))))"

definition event_count :: "evidence_host \<Rightarrow> evidence_store \<Rightarrow> evidence_io \<Rightarrow> evidence_world
    \<Rightarrow> (u64, evidence_error) result \<times> evidence_world" where
  "event_count h st io w =
     (case acquire_lock io w of
        (Inl e, w') \<Rightarrow> (Err e, w')
      | (Inr _, w') \<Rightarrow>
          (and_then (load_existing_key h io w') (\<lambda>key.
           and_then (load_records h st io key w') (\<lambda>records.
             ok_or (word_try_from (length records)) SequenceExhausted)), w'))"

subsection \<open>Receipts of a session\<close>

definition rebuild_unsigned_receipt :: "evidence_host \<Rightarrow> session_id \<Rightarrow> string \<Rightarrow> log_record list
    \<Rightarrow> (session_receipt, evidence_error) result" where
  "rebuild_unsigned_receipt h sid key records =
     and_then (replay sid records) (\<lambda>state.
     if \<not> rp_finalized state then Err SessionNotFinalized
     else and_then (ok_or (word_try_from (length records)) SequenceExhausted) (\<lambda>count.
     if records = [] then Err SessionNotStarted
     else let payload = \<lparr>py_schema_version = EVIDENCE_SCHEMA_VERSION, py_session_id = sid,
            py_event_count = count, py_chain_head = lr_mac (last records),
            py_summary = rp_summary state\<rparr>
       in and_then (evidence_text h payload_json payload) (\<lambda>bytes.
          and_then (compute_mac h key RECEIPT_MAC_DOMAIN bytes) (\<lambda>mac.
            Ok \<lparr>sr_payload = payload, sr_payload_digest = sha256_domain_digest h RECEIPT_DIGEST_DOMAIN bytes,
                sr_local_integrity_mac = mac, sr_trust = UnsignedUntrusted\<rparr>))))"

definition same_evidence :: "session_receipt \<Rightarrow> session_receipt \<Rightarrow> bool" where
  "same_evidence a b \<longleftrightarrow> sr_payload a = sr_payload b \<and> sr_payload_digest a = sr_payload_digest b
     \<and> sr_local_integrity_mac a = sr_local_integrity_mac b"

definition verify_local_receipt :: "evidence_host \<Rightarrow> evidence_store \<Rightarrow> evidence_io \<Rightarrow> session_receipt
    \<Rightarrow> evidence_world \<Rightarrow> (unit, evidence_error) result" where
  "verify_local_receipt h st io receipt w =
     and_then (acquire_existing_read_lock io w) (\<lambda>_.
     and_then (load_existing_key_readonly h io w) (\<lambda>key.
     and_then (load_records_readonly h st io key w) (\<lambda>records.
     and_then (rebuild_unsigned_receipt h (ev_session_id st) key records) (\<lambda>rebuilt.
       if same_evidence receipt rebuilt then Ok () else Err Tampered))))"

definition receipt_name :: "evidence_store \<Rightarrow> string \<Rightarrow> string" where
  "receipt_name st suff = session_id_str (ev_session_id st) @ ''.receipt.'' @ suff @ ''.json''"

definition caller_asserted_receipt_name :: "evidence_store \<Rightarrow> installation_id \<Rightarrow> string" where
  "caller_asserted_receipt_name st signer = receipt_name st (installation_id_str signer)"

definition check_asserted_receipt :: "evidence_host \<Rightarrow> session_receipt \<Rightarrow> evidence_signer \<Rightarrow> string
    \<Rightarrow> (session_receipt, evidence_error) result" where
  "check_asserted_receipt h expected signer bytes =
     and_then (ok_or (eh_receipt_from_slice h bytes) Tampered) (\<lambda>receipt.
     and_then (canonical_bytes h receipt) (\<lambda>again.
     if again \<noteq> bytes then Err NonCanonical
     else if \<not> same_evidence receipt expected then Err ReceiptConflict
     else case sr_trust receipt of
       UnsignedUntrusted \<Rightarrow> Err ReceiptConflict
     | CallerAsserted stored signature_hex \<Rightarrow>
         if stored \<noteq> sg_signer_id signer then Err ReceiptConflict
         else and_then (ok_or (eh_hex_decode h signature_hex) Tampered) (\<lambda>signature.
           if length signature \<noteq> 64 then Err Tampered
           else and_then (signing_assertion_digest h (sr_payload_digest receipt) (sg_signer_id signer))
             (\<lambda>digest. if sg_verify signer digest signature then Ok receipt else Err ReceiptConflict))))"

definition load_existing_asserted_receipt :: "evidence_host \<Rightarrow> evidence_store \<Rightarrow> evidence_io
    \<Rightarrow> session_receipt \<Rightarrow> evidence_signer \<Rightarrow> evidence_world
    \<Rightarrow> (session_receipt option, evidence_error) result" where
  "load_existing_asserted_receipt h st io expected signer w =
     (case read_private_file_bounded (ei_receipt io) (ew_evidence w)
         (caller_asserted_receipt_name st (sg_signer_id signer)) MAX_LOG_BYTES of
        Inl e \<Rightarrow> if e = Io NotFound then Ok None else Err e
      | Inr bytes \<Rightarrow> and_then (check_asserted_receipt h expected signer bytes) (\<lambda>r. Ok (Some r)))"

definition atomic_private_write :: "evidence_io \<Rightarrow> private_dir \<Rightarrow> string \<Rightarrow> string
    \<Rightarrow> (unit, evidence_error) result \<times> private_dir" where
  "atomic_private_write io d name bytes =
     (case open_file (ei_receipt_check io) d name of
        Inl e \<Rightarrow>
          if e \<noteq> NotFound then (Err (evidence_storage_error e), d)
          else (case replace_file (ei_receipt_replace io) d name bytes of
              (r, d') \<Rightarrow> (map_err (\<lambda>e. if e = AlreadyExists then TemporaryFileExhausted
                              else evidence_storage_error e) r, d'))
      | Inr _ \<Rightarrow>
          (case replace_file (ei_receipt_replace io) d name bytes of
             (r, d') \<Rightarrow> (map_err (\<lambda>e. if e = AlreadyExists then TemporaryFileExhausted
                             else evidence_storage_error e) r, d')))"

definition write_receipt :: "evidence_store \<Rightarrow> evidence_io \<Rightarrow> string \<Rightarrow> string \<Rightarrow> evidence_world
    \<Rightarrow> (unit, evidence_error) result \<times> evidence_world" where
  "write_receipt st io name bytes w =
     (case atomic_private_write io (ew_evidence w) name bytes of
        (r, d) \<Rightarrow> (and_then r (\<lambda>_. io_call (ei_receipt_sync io)), w\<lparr>ew_evidence := d\<rparr>))"

definition persist_receipt :: "evidence_host \<Rightarrow> evidence_store \<Rightarrow> evidence_io \<Rightarrow> session_receipt
    \<Rightarrow> evidence_world \<Rightarrow> (unit, evidence_error) result \<times> evidence_world" where
  "persist_receipt h st io receipt w =
     (case canonical_bytes h receipt of
        Inl e \<Rightarrow> (Err e, w)
      | Inr bytes \<Rightarrow>
          (case sr_trust receipt of
             UnsignedUntrusted \<Rightarrow> write_receipt st io (receipt_name st ''unsigned'') bytes w
           | CallerAsserted signer _ \<Rightarrow>
               (case read_private_file_bounded (ei_receipt io) (ew_evidence w)
                   (caller_asserted_receipt_name st signer) MAX_LOG_BYTES of
                  Inr existing \<Rightarrow> (if existing = bytes then Ok () else Err ReceiptConflict, w)
                | Inl e \<Rightarrow>
                    if e \<noteq> Io NotFound then (Err e, w)
                    else write_receipt st io (caller_asserted_receipt_name st signer) bytes w)))"

definition sign_receipt :: "evidence_host \<Rightarrow> evidence_signer \<Rightarrow> session_receipt
    \<Rightarrow> (session_receipt, evidence_error) result" where
  "sign_receipt h signer receipt =
     and_then (signing_assertion_digest h (sr_payload_digest receipt) (sg_signer_id signer)) (\<lambda>digest.
     and_then (map_err Signer (sg_sign signer digest)) (\<lambda>signature.
     if \<not> sg_verify signer digest signature then Err UnverifiedSignature
     else Ok (receipt\<lparr>sr_trust := CallerAsserted (sg_signer_id signer) (eh_hex_encode h signature)\<rparr>)))"

definition evidence_receipt :: "evidence_host \<Rightarrow> evidence_store \<Rightarrow> evidence_io \<Rightarrow> signing_boundary
    \<Rightarrow> evidence_world \<Rightarrow> (session_receipt, evidence_error) result \<times> evidence_world" where
  "evidence_receipt h st io boundary w =
     (case acquire_lock io w of
        (Inl e, w') \<Rightarrow> (Err e, w')
      | (Inr _, w') \<Rightarrow>
          (case and_then (load_existing_key h io w') (\<lambda>key.
              and_then (load_records h st io key w') (\<lambda>records.
                rebuild_unsigned_receipt h (ev_session_id st) key records)) of
             Inl e \<Rightarrow> (Err e, w')
           | Inr receipt \<Rightarrow>
               (case (case boundary of
                   NoVerifiedSigner \<Rightarrow> Ok (receipt, True)
                 | AssertedBy signer \<Rightarrow>
                     and_then (load_existing_asserted_receipt h st io receipt signer w') (\<lambda>existing.
                       case existing of
                         Some r \<Rightarrow> Ok (r, False)
                       | None \<Rightarrow> and_then (sign_receipt h signer receipt) (\<lambda>r. Ok (r, True)))) of
                  Inl e \<Rightarrow> (Err e, w')
                | Inr (r, fresh) \<Rightarrow>
                    if \<not> fresh then (Ok r, w')
                    else (case persist_receipt h st io r w' of
                        (p, w'') \<Rightarrow> (and_then p (\<lambda>_. Ok r), w'')))))"

end
