(* ===== verification/Evidence_Facts.thy ===== *)
theory Evidence_Facts
  imports Evidence_Store Faithful_Json
begin

text \<open>
  Facts of the evidence log: its serialized records determine the records, decoding goes line by line,
  so a longer file holds a longer list of records, and what an append writes.
\<close>

subsection \<open>Serialized records\<close>

lemma faithful_digest_json: "faithful digest_json"
  by (rule faithfulI) (auto simp: digest_json_def intro: sha256_digest.expand)

lemma digest_json_inj [simp]: "digest_json d = digest_json e \<longleftrightarrow> d = e"
  by (auto simp: digest_json_def intro: sha256_digest.expand)

lemma digest_json_forms [simp]:
  "json_wf (digest_json d)" "normal_form (digest_json d) = digest_json d" "digest_json d \<noteq> JNull"
  "JNull \<noteq> digest_json d"
  by (simp_all add: digest_json_def)

lemma u64_json_forms [simp]:
  "json_wf (u64_json n)" "normal_form (u64_json n) = u64_json n" "u64_json m = u64_json n \<longleftrightarrow> m = n"
  by (simp_all add: u64_json_def)

lemma optional_digest_forms [simp]:
  "json_wf (optional_json digest_json x)"
  "normal_form (optional_json digest_json x) = optional_json digest_json x"
  "optional_json digest_json x = optional_json digest_json y \<longleftrightarrow> x = y"
  by (auto simp: optional_json_def split: option.splits)

lemma faithful_denial: "faithful denial_json"
proof (rule faithfulI)
  fix x y :: authority_denial
  show "json_wf (denial_json x)" by (cases x) simp_all
  assume "normal_form (denial_json x) = normal_form (denial_json y)"
  then show "x = y" by (cases x; cases y; simp)
qed

lemma faithful_worker: "faithful worker_json"
proof (rule faithfulI)
  fix x y :: worker_result
  show "json_wf (worker_json x)" by (cases x) simp_all
  assume "normal_form (worker_json x) = normal_form (worker_json y)"
  then show "x = y" by (cases x; cases y; simp)
qed

lemma faithful_rollback: "faithful rollback_json"
proof (rule faithfulI)
  fix x y :: rollback_result
  show "json_wf (rollback_json x)" by (cases x) simp_all
  assume "normal_form (rollback_json x) = normal_form (rollback_json y)"
  then show "x = y" by (cases x; cases y; simp)
qed

lemma faithful_outcome: "faithful outcome_json"
proof (rule faithfulI)
  fix x y :: final_outcome
  show "json_wf (outcome_json x)" by (cases x) simp_all
  assume "normal_form (outcome_json x) = normal_form (outcome_json y)"
  then show "x = y" by (cases x; cases y; simp)
qed

lemma faithful_decision: "faithful decision_json"
proof (rule faithfulI)
  fix x y :: authority_decision
  show "json_wf (decision_json x)" by (cases x) (simp_all add: faithful_denial)
  assume eq: "normal_form (decision_json x) = normal_form (decision_json y)"
  show "x = y"
  proof (cases x; cases y)
    fix d r e s assume xy: "x = Denied d r" "y = Denied e s"
    note entry = normal_form_entry [OF eq [unfolded xy decision_json.simps]]
    show ?thesis using entry [of "''authority_digest''"] entry [of "''reason''"]
      faithful_eq [OF faithful_denial] by (simp add: xy)
  next
    fix d r e g f assume xy: "x = Denied d r" "y = Granted e g f"
    show ?thesis using normal_form_entry [OF eq [unfolded xy decision_json.simps],
      of "''result''" "JString ''denied''" "JString ''granted''"] by simp
  next
    fix d r e g f assume xy: "x = Granted e g f" "y = Denied d r"
    show ?thesis using normal_form_entry [OF eq [unfolded xy decision_json.simps],
      of "''result''" "JString ''granted''" "JString ''denied''"] by simp
  next
    fix d g f e g' f' assume xy: "x = Granted d g f" "y = Granted e g' f'"
    note entry = normal_form_entry [OF eq [unfolded xy decision_json.simps]]
    show ?thesis using entry [of "''authority_digest''"] entry [of "''grant_id''"]
      entry [of "''grant_digest''"] by (simp add: xy grant_id.expand)
  qed
qed

text \<open>Events of different kinds differ in their \<open>kind\<close> entry.\<close>

lemma event_json_object:
  obtains es where "event_json e = JObject es" "(''kind'', JString (event_kind e)) \<in> set es"
    "distinct (map fst es)"
  by (cases e) auto

lemma event_json_kind:
  assumes "normal_form (event_json x) = normal_form (event_json y)"
  shows "event_kind x = event_kind y"
proof -
  obtain es where es: "event_json x = JObject es" "(''kind'', JString (event_kind x)) \<in> set es"
    by (rule event_json_object)
  obtain fs where fs: "event_json y = JObject fs" "(''kind'', JString (event_kind y)) \<in> set fs"
    "distinct (map fst fs)" by (rule event_json_object)
  show ?thesis using normal_form_entry [OF assms [unfolded es(1) fs(1)] es(2) fs(2,3)] by simp
qed

lemma faithful_event: "faithful event_json"
proof (rule faithfulI)
  fix x y :: evidence_event
  show "json_wf (event_json x)"
    by (cases x) (simp_all add: faithful_decision faithful_worker faithful_rollback faithful_outcome)
  assume eq: "normal_form (event_json x) = normal_form (event_json y)"
  note kind = event_json_kind [OF eq]
  show "x = y"
  proof (cases x)
    case x: (SessionStarted w a i)
    then obtain w' a' i' where y: "y = SessionStarted w' a' i'" using kind by (cases y) auto
    note entry = normal_form_entry [OF eq [unfolded x y event_json.simps]]
    show ?thesis using entry [of "''workspace_id''"] entry [of "''action_id''"]
      entry [of "''intent_digest''"] by (simp add: x y workspace_id.expand action_id.expand)
  next
    case x: (AuthorityDecision d)
    then obtain d' where y: "y = AuthorityDecision d'" using kind by (cases y) auto
    note entry = normal_form_entry [OF eq [unfolded x y event_json.simps]]
    show ?thesis using entry [of "''decision''"] faithful_eq [OF faithful_decision] by (simp add: x y)
  next
    case x: (LeaseBound g d l e)
    then obtain g' d' l' e' where y: "y = LeaseBound g' d' l' e'" using kind by (cases y) auto
    note entry = normal_form_entry [OF eq [unfolded x y event_json.simps]]
    show ?thesis using entry [of "''grant_id''"] entry [of "''grant_digest''"]
      entry [of "''lease_id''"] entry [of "''lease_digest''"]
      by (simp add: x y grant_id.expand lease_id.expand)
  next
    case x: (ProxyUseAggregate l a f d q p)
    then obtain l' a' f' d' q' p' where y: "y = ProxyUseAggregate l' a' f' d' q' p'"
      using kind by (cases y) auto
    note entry = normal_form_entry [OF eq [unfolded x y event_json.simps]]
    show ?thesis using entry [of "''lease_id''"] entry [of "''attempted_requests''"]
      entry [of "''forwarded_requests''"] entry [of "''denied_requests''"]
      entry [of "''request_bytes''"] entry [of "''response_bytes''"]
      by (simp add: x y lease_id.expand)
  next
    case x: (WorkerCompleted r d)
    then obtain r' d' where y: "y = WorkerCompleted r' d'" using kind by (cases y) auto
    note entry = normal_form_entry [OF eq [unfolded x y event_json.simps]]
    show ?thesis using entry [of "''result''"] entry [of "''result_digest''"]
      faithful_eq [OF faithful_worker] by (simp add: x y)
  next
    case x: (RollbackCompleted r d)
    then obtain r' d' where y: "y = RollbackCompleted r' d'" using kind by (cases y) auto
    note entry = normal_form_entry [OF eq [unfolded x y event_json.simps]]
    show ?thesis using entry [of "''result''"] entry [of "''rollback_digest''"]
      faithful_eq [OF faithful_rollback] by (simp add: x y)
  next
    case x: (FinalOutcome o' d)
    then obtain o2 d' where y: "y = FinalOutcome o2 d'" using kind by (cases y) auto
    note entry = normal_form_entry [OF eq [unfolded x y event_json.simps]]
    show ?thesis using entry [of "''outcome''"] entry [of "''outcome_digest''"]
      faithful_eq [OF faithful_outcome] by (simp add: x y)
  qed
qed

lemma ucast_u8_u64 [simp]: "(ucast (a :: u8) :: u64) = ucast b \<longleftrightarrow> a = b"
proof
  assume "(ucast a :: u64) = ucast b"
  then have "ucast (ucast a :: u64) = (ucast (ucast b :: u64) :: u8)" by simp
  then show "a = b" by (simp add: ucast_up_ucast_id is_up)
qed simp

lemma faithful_record: "faithful record_json"
proof (rule faithfulI)
  fix x y :: log_record
  show "json_wf (record_json x)"
    by (simp add: record_json_def unsigned_fields_def faithful_event)
  assume eq: "normal_form (record_json x) = normal_form (record_json y)"
  note entry = normal_form_entry [OF eq [unfolded record_json_def unsigned_fields_def append.simps]]
  have "lr_schema_version x = lr_schema_version y" "lr_session_id x = lr_session_id y"
    "lr_sequence x = lr_sequence y" "lr_observed_at_unix_ms x = lr_observed_at_unix_ms y"
    using entry [of "''schema_version''"] entry [of "''session_id''"] entry [of "''sequence''"]
      entry [of "''observed_at_unix_ms''"] by (simp_all add: session_id.expand)
  moreover have "lr_event x = lr_event y" "lr_previous_mac x = lr_previous_mac y" "lr_mac x = lr_mac y"
    using entry [of "''event''"] entry [of "''previous_mac''"] entry [of "''mac''"]
      faithful_eq [OF faithful_event] by simp_all
  ultimately show "x = y" by simp
qed

text \<open>The literals of the JSON writer, as far as the log relies on them.\<close>

definition line_literals :: "(string \<Rightarrow> string) \<Rightarrow> bool" where
  "line_literals js \<longleftrightarrow> self_delimiting js \<and> (\<forall>s. LINE_FEED \<notin> set (js s))"

lemma evidence_text_determines:
  "line_literals (eh_escape h) \<Longrightarrow> faithful V \<Longrightarrow> evidence_text h V x = Ok b
    \<Longrightarrow> evidence_text h V y = Ok b \<Longrightarrow> x = y"
  using faithful_text_determines [of V "eh_escape h" x b y]
  by (auto simp: evidence_text_def res_simps line_literals_def)

lemma evidence_text_line: "line_literals (eh_escape h) \<Longrightarrow> evidence_text h V x = Ok b \<Longrightarrow> LINE_FEED \<notin> set b"
  using canonical_text_lacks [of LINE_FEED "eh_escape h" V x b]
  by (auto simp: evidence_text_def res_simps line_literals_def punctuation_def number_chars_def)

subsection \<open>Lines and records\<close>

definition log_lines :: "string \<Rightarrow> string list" where
  "log_lines b = (if b = [] then [] else split_on LINE_FEED (butlast b))"

definition whole_lines :: "string \<Rightarrow> bool" where
  "whole_lines b \<longleftrightarrow> b = [] \<or> last b = LINE_FEED"

text \<open>The bytes are the records' lines, whatever key they were written under.\<close>

definition log_holds :: "('h) evidence_hashes_scheme \<Rightarrow> string \<Rightarrow> log_record list \<Rightarrow> bool" where
  "log_holds h b rs \<longleftrightarrow> whole_lines b \<and> map (evidence_text h record_json) rs = map Ok (log_lines b)"

lemma split_on_nonempty [simp]: "split_on c s \<noteq> []"
  by (induction s) (auto split: list.splits)

lemma split_on_append: "split_on c (a @ c # b) = split_on c a @ split_on c b"
  by (induction a) (auto split: list.splits)

lemma split_on_clean: "c \<notin> set s \<Longrightarrow> split_on c s = [s]"
  by (induction s) auto

lemma log_lines_append: "whole_lines b \<Longrightarrow> m \<noteq> [] \<Longrightarrow> log_lines (b @ m) = log_lines b @ log_lines m"
proof (cases b rule: rev_cases)
  case (snoc a c)
  assume "whole_lines b" "m \<noteq> []"
  then have "butlast (b @ m) = a @ LINE_FEED # butlast m" using snoc by (simp add: whole_lines_def butlast_append)
  then show ?thesis using \<open>m \<noteq> []\<close> snoc by (simp add: log_lines_def split_on_append)
qed (simp add: log_lines_def)

lemma whole_lines_append: "whole_lines b \<Longrightarrow> whole_lines (b @ m) \<longleftrightarrow> whole_lines m"
  by (cases "m = []") (auto simp: whole_lines_def last_append)

lemma decode_line_Ok:
  "decode_line h sid key i prev line = Ok r \<longleftrightarrow> i < MAX_RECORDS \<and> line \<noteq> []
     \<and> eh_record_from_slice h line = Some r \<and> evidence_text h record_json r = Ok line
     \<and> lr_schema_version r = EVIDENCE_SCHEMA_VERSION \<and> lr_session_id r = sid
     \<and> word_try_from i = Some (lr_sequence r) \<and> lr_previous_mac r = prev
     \<and> (\<exists>u. evidence_text h unsigned_json r = Ok u
           \<and> verify_mac h key RECORD_MAC_DOMAIN u (lr_mac r) = Ok ())"
  by (auto simp: decode_line_def res_simps not_le split: if_splits)

lemma decode_lines_text:
  "decode_lines h sid key i prev ls = Ok rs \<Longrightarrow> map (evidence_text h record_json) rs = map Ok ls"
  by (induction ls arbitrary: i prev rs) (auto simp: res_simps decode_line_Ok)

lemma decode_lines_length: "decode_lines h sid key i prev ls = Ok rs \<Longrightarrow> length rs = length ls"
  by (drule decode_lines_text, drule map_eq_imp_length_eq)

lemma and_then_assoc: "and_then (and_then m f) g = and_then m (\<lambda>x. and_then (f x) g)"
  by (cases m) simp_all

lemma decode_lines_snoc:
  "decode_lines h sid key i prev (ls @ [l]) =
     and_then (decode_lines h sid key i prev ls) (\<lambda>rs.
     and_then (decode_line h sid key (i + length ls) (if rs = [] then prev else lr_mac (last rs)) l) (\<lambda>r.
       Ok (rs @ [r])))"
proof (induction ls arbitrary: i prev)
  case (Cons k ls)
  show ?case
  proof (cases "decode_line h sid key i prev k")
    case (Inr r)
    then show ?thesis
      by (cases "decode_lines h sid key (i + 1) (lr_mac r) ls")
        (auto simp: Cons decode_lines_length and_then_assoc)
  qed simp
qed (auto simp: next_previous_mac_def)

lemma decode_records_Ok:
  "decode_records h sid key b = Ok rs \<longleftrightarrow> whole_lines b
     \<and> decode_lines h sid key 0 GENESIS_MAC (log_lines b) = Ok rs \<and> is_ok (replay sid rs)"
proof (cases "b = []")
  case True
  then show ?thesis
    by (auto simp: decode_records_def whole_lines_def log_lines_def replay_def)
next
  case False
  then show ?thesis
    by (auto simp: decode_records_def whole_lines_def log_lines_def res_simps is_ok_iff)
qed

lemma decode_records_holds: "decode_records h sid key b = Ok rs \<Longrightarrow> log_holds h b rs"
  by (auto simp: decode_records_Ok log_holds_def decode_lines_text)

lemma texts_prefix:
  assumes "line_literals (eh_escape h)" and "map (evidence_text h record_json) rs = map Ok ls"
    and "map (evidence_text h record_json) rs' = map Ok (ls @ ms)"
  shows "prefix rs rs'"
proof -
  have len: "length rs = length ls" "length ls \<le> length rs'"
    using arg_cong [OF assms(2), of length] arg_cong [OF assms(3), of length] by simp_all
  have "map (evidence_text h record_json) (take (length ls) rs') = map Ok ls"
    using assms(3) by (metis append_eq_conv_conj length_map map_append take_map)
  moreover have "inj_on (evidence_text h record_json) (set rs \<union> set (take (length ls) rs'))"
  proof (rule inj_onI)
    fix x y
    assume x: "x \<in> set rs \<union> set (take (length ls) rs')"
      and eq: "evidence_text h record_json x = evidence_text h record_json y"
    have "evidence_text h record_json x \<in> set (map (evidence_text h record_json) rs)
        \<union> set (map (evidence_text h record_json) (take (length ls) rs'))" using x by auto
    then obtain b where "evidence_text h record_json x = Ok b"
      using assms(2) calculation by auto
    then show "x = y" using evidence_text_determines [OF assms(1) faithful_record] eq by metis
  qed
  ultimately have "rs = take (length ls) rs'" using assms(2) by (metis inj_on_map_eq_map)
  then show ?thesis by (metis take_is_prefix)
qed

text \<open>What a longer file holds extends what the shorter one holds.\<close>

lemma holds_prefix:
  assumes "line_literals (eh_escape h)" and "log_holds h b rs" and "log_holds h (b @ m) rs'"
  shows "prefix rs rs'"
proof -
  have "\<exists>ms. log_lines (b @ m) = log_lines b @ ms"
    using assms(2) log_lines_append [of b m] by (cases "m = []") (auto simp: log_holds_def)
  then obtain ms where "log_lines (b @ m) = log_lines b @ ms" ..
  then show ?thesis using texts_prefix [OF assms(1), of rs "log_lines b" rs' ms] assms(2,3)
    by (simp add: log_holds_def)
qed

lemma holds_snoc:
  assumes "log_holds h b rs" and "record_line h r = Ok l" and "line_literals (eh_escape h)"
  shows "log_holds h (b @ l) (rs @ [r])"
proof -
  obtain t where t: "evidence_text h record_json r = Ok t" "l = t @ [LINE_FEED]"
    using assms(2) by (auto simp: record_line_def res_simps)
  have "log_lines l = [t]" using evidence_text_line [OF assms(3) t(1)]
    by (simp add: t(2) log_lines_def split_on_clean)
  then show ?thesis using assms(1) log_lines_append [of b l] t
    by (auto simp: log_holds_def whole_lines_append) (simp_all add: whole_lines_def)
qed

lemma holds_torn:
  assumes "log_holds h b rs" and "record_line h r = Ok l" and "line_literals (eh_escape h)"
    and "0 < n" and "n < length l"
  shows "\<not> whole_lines (b @ take n l)"
proof -
  obtain t where t: "evidence_text h record_json r = Ok t" "l = t @ [LINE_FEED]"
    using assms(2) by (auto simp: record_line_def res_simps)
  have n: "take n l = take n t" "take n t \<noteq> []" using assms(4,5) t(2) by auto
  then have "last (take n t) \<in> set t" by (metis in_set_takeD last_in_set)
  then have "last (take n t) \<noteq> LINE_FEED" using evidence_text_line [OF assms(3) t(1)] by auto
  then show ?thesis using n by (auto simp: whole_lines_def last_append)
qed

end
