(* ===== verification/Evidence_Runs.thy ===== *)
theory Evidence_Runs
  imports Evidence_Facts
begin

text \<open>
  Runs of the evidence store: any number of handles over the two private directories, with failing
  calls and torn writes.  Each operation leaves the key, and leaves the log of a session or extends it
  by (a part of) one line that was computed from what the log held.
\<close>

subsection \<open>Handles and files\<close>

definition store_of :: "session_id \<Rightarrow> evidence_store" where
  "store_of sid = \<lparr>ev_log_name = session_id_str sid @ ''.jsonl'', ev_session_id = sid\<rparr>"

definition log_name :: "session_id \<Rightarrow> string" where
  "log_name sid = session_id_str sid @ ''.jsonl''"

definition log_bytes :: "session_id \<Rightarrow> evidence_world \<Rightarrow> string" where
  "log_bytes sid w = (case ew_evidence w (log_name sid) of None \<Rightarrow> [] | Some b \<Rightarrow> b)"

lemma store_of_simps [simp]:
  "ev_log_name (store_of sid) = log_name sid" "ev_session_id (store_of sid) = sid"
  by (simp_all add: store_of_def log_name_def)

lemma checked_store_Ok: "checked_store paths sid = Ok st \<Longrightarrow> st = store_of sid"
  by (auto simp: checked_store_def res_simps store_of_def split: if_splits)

lemma log_name_eq [simp]: "log_name sid = log_name sid' \<longleftrightarrow> sid = sid'"
  by (auto simp: log_name_def session_id.expand)

lemma receipt_name_other [simp]: "receipt_name st s \<noteq> log_name sid" "log_name sid \<noteq> receipt_name st s"
proof -
  have "last (receipt_name st s) \<noteq> last (log_name sid)" by (simp add: receipt_name_def log_name_def)
  then show "receipt_name st s \<noteq> log_name sid" "log_name sid \<noteq> receipt_name st s" by metis+
qed

lemma key_not_lock [simp]: "KEY_FILE \<noteq> LOCK_FILE" "LOCK_FILE \<noteq> KEY_FILE"
  by (simp_all add: KEY_FILE_def LOCK_FILE_def)

definition io_clear :: "read_io \<Rightarrow> bool" where
  "io_clear io \<longleftrightarrow> ri_open io = None \<and> ri_metadata io = None \<and> ri_read io = None"

lemma read_private_Ok:
  "read_private_file_bounded io d name m = Ok b \<longleftrightarrow> io_clear io \<and> d name = Some b \<and> length b \<le> m"
proof (cases "d name")
  case (Some c)
  then show ?thesis
    by (cases "m < length c") (auto simp: read_private_file_bounded_def read_bounded_def res_simps
        io_clear_def Let_def)
qed (auto simp: read_private_file_bounded_def res_simps)

lemma storage_error_missing: "evidence_storage_error e = Io NotFound \<longleftrightarrow> e = NotFound"
  by (auto simp: evidence_storage_error_def)

lemma io_call_found [simp]: "io_call f \<noteq> Inl (Io NotFound)"
  by (cases f) auto

lemma read_bounded_found: "read_bounded io c m \<noteq> Inl (Io NotFound)"
proof
  assume "read_bounded io c m = Inl (Io NotFound)"
  then show False
    using io_call_found [of "ri_metadata io"] io_call_found [of "ri_read io"]
    by (auto simp: read_bounded_def res_simps Let_def split: if_splits)
qed

lemma read_private_missing:
  "read_private_file_bounded io d name m = Inl (Io NotFound) \<longleftrightarrow> ri_open io = None \<and> d name = None"
  by (auto simp: read_private_file_bounded_def res_simps read_bounded_found storage_error_missing
      open_file_missing) (metis storage_error_missing open_file_missing)+

lemma load_existing_key_Ok:
  "load_existing_key h io w = Ok key \<Longrightarrow> \<exists>kb. ew_phantom w KEY_FILE = Some kb
     \<and> length kb \<le> MAX_KEY_BYTES \<and> parse_key h kb = Ok key"
  by (auto simp: load_existing_key_def res_simps read_private_Ok)

lemma decode_nothing [simp]: "decode_records h sid key [] = Ok []"
  by (simp add: decode_records_def)

lemma load_records_Ok:
  "load_records h (store_of sid) io key w = Ok rs \<Longrightarrow>
     decode_records h sid key (log_bytes sid w) = Ok rs \<and> length (log_bytes sid w) \<le> MAX_LOG_BYTES"
  by (auto simp: load_records_def log_bytes_def read_private_Ok read_private_missing
      split: sum.splits if_splits option.splits)

subsection \<open>What one operation changes\<close>

definition keeps_files :: "session_id \<Rightarrow> evidence_world \<Rightarrow> evidence_world \<Rightarrow> bool" where
  "keeps_files sid w w' \<longleftrightarrow>
     (\<forall>kb. ew_phantom w KEY_FILE = Some kb \<longrightarrow> ew_phantom w' KEY_FILE = Some kb)
     \<and> (ew_phantom w LOCK_FILE \<noteq> None \<longrightarrow> ew_phantom w' LOCK_FILE \<noteq> None)
     \<and> (ew_evidence w (log_name sid) \<noteq> None \<longrightarrow> ew_evidence w' (log_name sid) \<noteq> None)"

lemma keeps_refl [simp]: "keeps_files sid w w"
  by (simp add: keeps_files_def)

lemma keeps_trans: "keeps_files sid w w' \<Longrightarrow> keeps_files sid w' w'' \<Longrightarrow> keeps_files sid w w''"
  by (simp add: keeps_files_def)

text \<open>The log gains a part of a line that was prepared from what it held.\<close>

definition log_advances :: "evidence_host \<Rightarrow> session_id \<Rightarrow> evidence_world \<Rightarrow> evidence_world \<Rightarrow> bool" where
  "log_advances h sid w w' \<longleftrightarrow> (\<exists>kb key rs e t a l k. ew_phantom w KEY_FILE = Some kb
     \<and> parse_key h kb = Ok key \<and> decode_records h sid key (log_bytes sid w) = Ok rs
     \<and> prepare_append h sid key rs e t = Ok (fst a, fst (snd a), snd (snd a), l)
     \<and> log_bytes sid w' = log_bytes sid w @ take k l)"

definition log_moves :: "evidence_host \<Rightarrow> session_id \<Rightarrow> evidence_world \<Rightarrow> evidence_world \<Rightarrow> bool" where
  "log_moves h sid w w' \<longleftrightarrow> keeps_files sid w w'
     \<and> (log_bytes sid w' = log_bytes sid w \<or> log_advances h sid w w')"

lemma acquire_lock_effect:
  assumes "acquire_lock io w = (r, w')"
  shows "ew_evidence w' = ew_evidence w" and "ew_phantom w' KEY_FILE = ew_phantom w KEY_FILE"
    and "ew_phantom w LOCK_FILE \<noteq> None \<or> r = Ok () \<Longrightarrow> ew_phantom w' LOCK_FILE \<noteq> None"
    and "keeps_files sid w w'" and "log_bytes sid w' = log_bytes sid w"
  using assms by (auto simp: acquire_lock_def keeps_files_def log_bytes_def split: option.splits if_splits)

lemma load_or_create_key_effect:
  assumes "load_or_create_key h io w = (r, w')"
  shows "ew_evidence w' = ew_evidence w" and "keeps_files sid w w'"
proof -
  have "\<forall>kb. ew_phantom w KEY_FILE = Some kb \<longrightarrow> w' = w" 
    using assms by (auto simp: load_or_create_key_def read_private_missing split: sum.splits if_splits)
  moreover have "ew_evidence w' = ew_evidence w \<and> (\<forall>n. n \<noteq> KEY_FILE \<longrightarrow> ew_phantom w' n = ew_phantom w n)"
    using assms by (auto simp: load_or_create_key_def write_all_def
        split: sum.splits if_splits option.splits write_outcome.splits)
  ultimately show "ew_evidence w' = ew_evidence w" "keeps_files sid w w'"
    by (auto simp: keeps_files_def)
qed

lemma write_all_effect:
  "write_all oc d n b l = (r, d') \<Longrightarrow> \<exists>k. d' = d(n \<mapsto> b @ take k l) \<and> (r = Ok () \<longrightarrow> take k l = l)"
  by (auto simp: write_all_def split: write_outcome.splits intro: exI [of _ "length l"])

lemma append_open_effect:
  assumes "append_open (store_of sid) io w = (r, w')"
  shows "ew_phantom w' = ew_phantom w" and "n \<noteq> log_name sid \<Longrightarrow> ew_evidence w' n = ew_evidence w n"
    and "log_bytes sid w' = log_bytes sid w"
    and "ew_evidence w (log_name sid) \<noteq> None \<Longrightarrow> ew_evidence w' (log_name sid) \<noteq> None"
    and "r = Ok c \<Longrightarrow> c = log_bytes sid w"
  using assms by (auto simp: append_open_def log_bytes_def res_simps open_file_missing
      split: sum.splits if_splits option.splits)

lemma append_line_effect:
  assumes "append_line (store_of sid) io l w = (r, w')"
  obtains k where "ew_phantom w' = ew_phantom w"
    and "\<And>n. n \<noteq> log_name sid \<Longrightarrow> ew_evidence w' n = ew_evidence w n"
    and "ew_evidence w (log_name sid) \<noteq> None \<Longrightarrow> ew_evidence w' (log_name sid) \<noteq> None"
    and "log_bytes sid w' = log_bytes sid w @ take k l" and "r = Ok () \<Longrightarrow> take k l = l"
proof -
  obtain r0 w0 where op: "append_open (store_of sid) io w = (r0, w0)" by fastforce
  note effect = append_open_effect [OF op]
  show thesis
  proof (cases "\<exists>c. r0 = Ok c \<and> io_call (ei_append_metadata io) = Ok () \<and> ei_append_is_file io
      \<and> length c + length l \<le> MAX_LOG_BYTES")
    case True
    then have ok: "r0 = Ok (log_bytes sid w)" "io_call (ei_append_metadata io) = Ok ()"
      "ei_append_is_file io" "\<not> MAX_LOG_BYTES < length (log_bytes sid w) + length l" using effect(5) by auto
    obtain r1 d where wr: "write_all (ei_append_write io) (ew_evidence w0) (log_name sid) (log_bytes sid w) l = (r1, d)"
      by fastforce
    have "r = map_err Io r1" "w' = w0\<lparr>ew_evidence := d\<rparr>"
      using assms by (simp_all add: append_line_def op ok wr)
    moreover obtain k where "d = (ew_evidence w0)(log_name sid \<mapsto> log_bytes sid w @ take k l)"
      "r1 = Ok () \<longrightarrow> take k l = l" using write_all_effect [OF wr] by blast
    ultimately show ?thesis using that [of k] effect by (auto simp: log_bytes_def res_simps)
  next
    case False
    then have "w' = w0" "r \<noteq> Ok ()"
      using assms op by (auto simp: append_line_def not_less split: sum.splits if_splits)
    then show ?thesis using that [of 0] effect by simp
  qed
qed

lemma append_new_effect:
  assumes "append_new h (store_of sid) io key rs e t w = (r, w')"
  obtains (refused) x where "prepare_append h sid key rs e t = Err x" "r = Err x" "w' = w"
  | (wrote) s d wi l k where "prepare_append h sid key rs e t = Ok (s, d, wi, l)"
      "ew_phantom w' = ew_phantom w" "\<And>n. n \<noteq> log_name sid \<Longrightarrow> ew_evidence w' n = ew_evidence w n"
      "ew_evidence w (log_name sid) \<noteq> None \<Longrightarrow> ew_evidence w' (log_name sid) \<noteq> None"
      "log_bytes sid w' = log_bytes sid w @ take k l" "\<And>x. r = Ok x \<Longrightarrow> x = (s, d, wi) \<and> take k l = l"
proof (cases "prepare_append h sid key rs e t")
  case (Inl x)
  then show ?thesis using assms refused by (simp add: append_new_def)
next
  case (Inr a)
  then obtain s d wi l where a: "prepare_append h sid key rs e t = Ok (s, d, wi, l)" by (cases a) auto
  obtain r0 w0 where ap: "append_line (store_of sid) io l w = (r0, w0)" by fastforce
  have r: "r = and_then r0 (\<lambda>_. Ok (s, d, wi))" "w' = w0"
    using assms by (auto simp: append_new_def a ap)
  then have "r0 = Ok () \<and> x = (s, d, wi)" if "r = Ok x" for x
    using that r(1) by (cases r0) auto
  then show ?thesis using append_line_effect [OF ap] wrote [OF a] r(2) by metis
qed

lemma append_new_moves:
  assumes "append_new h (store_of sid) io key rs e t w = (r, w')" and "load_existing_key h io' w = Ok key"
    and "decode_records h sid key (log_bytes sid w) = Ok rs"
  shows "log_moves h sid' w w'"
  using assms(1)
proof (cases rule: append_new_effect)
  case refused
  then show ?thesis by (simp add: log_moves_def)
next
  case (wrote s d wi l k)
  have keeps: "keeps_files sid' w w'" using wrote(2,3,4) by (cases "sid' = sid") (auto simp: keeps_files_def)
  show ?thesis
  proof (cases "sid' = sid")
    case True
    obtain kb where "ew_phantom w KEY_FILE = Some kb" "parse_key h kb = Ok key"
      using load_existing_key_Ok [OF assms(2)] by blast
    then have "log_advances h sid w w'"
      unfolding log_advances_def using assms(3) wrote(1,5)
      by (intro exI [of _ kb] exI [of _ key] exI [of _ rs] exI [of _ e] exI [of _ t]
          exI [of _ "(s, d, wi)"] exI [of _ l] exI [of _ k]) simp
    then show ?thesis using keeps True by (simp add: log_moves_def)
  next
    case False
    then show ?thesis using keeps wrote(3) by (simp add: log_moves_def log_bytes_def)
  qed
qed

lemma moves_after_lock:
  assumes "acquire_lock io w = (r, w1)" and "log_moves h sid w1 w2"
  shows "log_moves h sid w w2"
proof -
  have "keeps_files sid w w2"
    using assms(2) keeps_trans [OF acquire_lock_effect(4) [OF assms(1)]] by (simp add: log_moves_def)
  then show ?thesis using assms(2) acquire_lock_effect(2,5) [OF assms(1)]
    by (auto simp: log_moves_def log_advances_def)
qed

lemma moves_lock: "acquire_lock io w = (r, w1) \<Longrightarrow> log_moves h sid w w1"
  using acquire_lock_effect [of io w r w1] by (simp add: log_moves_def)

lemma open_moves:
  assumes "evidence_open h paths sid' io w = (r, w')"
  shows "log_moves h sid w w'"
proof -
  obtain r1 w1 where lk: "acquire_lock io w = (r1, w1)" by fastforce
  obtain r2 w2 where ky: "load_or_create_key h io w1 = (r2, w2)" by fastforce
  have "log_moves h sid w1 w2"
    using load_or_create_key_effect [OF ky] by (simp add: log_moves_def log_bytes_def)
  then show ?thesis using assms lk ky moves_after_lock [OF lk] moves_lock [OF lk]
    by (auto simp: evidence_open_def log_moves_def split: sum.splits)
qed

text \<open>The common start of the operations that load under the lock.\<close>

lemma append_moves:
  assumes "append_internal h (store_of sid') io e observed w = (r, w')"
  shows "log_moves h sid w w'"
proof -
  obtain r1 w1 where lk: "acquire_lock io w = (r1, w1)" by fastforce
  show ?thesis
  proof (cases "w' = w1")
    case False
    then obtain t key rs r2 where *: "load_existing_key h io w1 = Ok key"
      "load_records h (store_of sid') io key w1 = Ok rs" "append_new h (store_of sid') io key rs e t w1 = (r2, w')"
      using assms lk by (auto simp: append_internal_def res_simps split: sum.splits prod.splits)
    show ?thesis using moves_after_lock [OF lk append_new_moves [OF *(3,1)]] load_records_Ok [OF *(2)] by simp
  qed (use moves_lock [OF lk] in simp)
qed

lemma append_once_moves:
  assumes "append_once h (store_of sid') io n e w = (r, w')"
  shows "log_moves h sid w w'"
proof -
  obtain r1 w1 where lk: "acquire_lock io w = (r1, w1)" by fastforce
  show ?thesis
  proof (cases "w' = w1")
    case False
    then obtain t key rs r2 where *: "load_existing_key h io w1 = Ok key"
      "load_records h (store_of sid') io key w1 = Ok rs" "append_new h (store_of sid') io key rs e t w1 = (r2, w')"
      using assms lk
      by (auto simp: append_once_def Let_def res_simps split: sum.splits prod.splits if_splits)
    show ?thesis using moves_after_lock [OF lk append_new_moves [OF *(3,1)]] load_records_Ok [OF *(2)] by simp
  qed (use moves_lock [OF lk] in simp)
qed

lemma write_receipt_effect:
  assumes "write_receipt st io (receipt_name st s) b w = (r, w')"
  shows "ew_phantom w' = ew_phantom w" and "ew_evidence w' (log_name sid) = ew_evidence w (log_name sid)"
proof -
  have "snd (replace_file oc d (receipt_name st s) c) (log_name sid) = d (log_name sid)" for oc d c
    by (simp add: replace_file_def split: replacement.splits)
  then have "snd (atomic_private_write io d (receipt_name st s) b) (log_name sid) = d (log_name sid)" for d
    by (simp add: atomic_private_write_def split: sum.splits prod.splits) (metis snd_conv)
  then show "ew_phantom w' = ew_phantom w" "ew_evidence w' (log_name sid) = ew_evidence w (log_name sid)"
    using assms by (auto simp: write_receipt_def split: prod.splits) (metis snd_conv)
qed

lemma persist_receipt_effect:
  assumes "persist_receipt h st io x w = (r, w')"
  shows "ew_phantom w' = ew_phantom w" and "ew_evidence w' (log_name sid) = ew_evidence w (log_name sid)"
  using assms write_receipt_effect [of st io _ _ w r w']
  by (auto simp: persist_receipt_def caller_asserted_receipt_name_def
      split: sum.splits receipt_trust.splits if_splits)

lemma receipt_moves:
  assumes "evidence_receipt h (store_of sid') io boundary w = (r, w')"
  shows "log_moves h sid w w'"
proof -
  obtain r1 w1 where lk: "acquire_lock io w = (r1, w1)" by fastforce
  have "w' = w1 \<or> (\<exists>x r2. persist_receipt h (store_of sid') io x w1 = (r2, w'))"
    using assms lk by (auto simp: evidence_receipt_def split: sum.splits prod.splits if_splits)
  then have "ew_phantom w' = ew_phantom w1 \<and> ew_evidence w' (log_name sid) = ew_evidence w1 (log_name sid)"
    using persist_receipt_effect by blast
  then have "log_moves h sid w1 w'" by (simp add: log_moves_def keeps_files_def log_bytes_def)
  then show ?thesis by (rule moves_after_lock [OF lk])
qed

subsection \<open>Runs\<close>

inductive evidence_step :: "evidence_host \<Rightarrow> evidence_world \<Rightarrow> evidence_world \<Rightarrow> bool" for h where
  opened: "evidence_open h paths sid io w = (r1, w') \<Longrightarrow> evidence_step h w w'"
| appended: "evidence_append h (store_of sid) io e w = (r2, w') \<Longrightarrow> evidence_step h w w'"
| appended_once: "append_once h (store_of sid) io n e w = (r3, w') \<Longrightarrow> evidence_step h w w'"
| counted: "event_count h (store_of sid) io w = (r4, w') \<Longrightarrow> evidence_step h w w'"
| receipted: "evidence_receipt h (store_of sid) io boundary w = (r5, w') \<Longrightarrow> evidence_step h w w'"

definition evidence_run :: "evidence_host \<Rightarrow> evidence_world \<Rightarrow> evidence_world \<Rightarrow> bool" where
  "evidence_run h = (evidence_step h)\<^sup>*\<^sup>*"

lemma step_moves:
  assumes "evidence_step h w w'"
  shows "log_moves h sid w w'"
  using assms
proof cases
  case (counted sid' io r)
  then show ?thesis using moves_lock by (auto simp: event_count_def split: prod.splits sum.splits)
qed (auto simp: evidence_append_def intro: open_moves append_moves append_once_moves receipt_moves)

lemma evidence_run_induct [consumes 1, case_names start step]:
  assumes "evidence_run h w w'" and "P w"
    and "\<And>u v. evidence_run h w u \<Longrightarrow> P u \<Longrightarrow> log_moves h sid u v \<Longrightarrow> P v"
  shows "P w'"
  using assms(1) unfolding evidence_run_def
  by (induction rule: rtranclp_induct) (use assms(2,3) step_moves in \<open>auto simp: evidence_run_def\<close>)

lemma run_keeps: "evidence_run h w w' \<Longrightarrow> keeps_files sid w w'"
  by (induction rule: evidence_run_induct [where sid = sid]) (auto simp: log_moves_def intro: keeps_trans)

lemma moves_extend: "log_moves h sid w w' \<Longrightarrow> \<exists>m. log_bytes sid w' = log_bytes sid w @ m"
  by (auto simp: log_moves_def log_advances_def)

lemma run_extends: "evidence_run h w w' \<Longrightarrow> \<exists>m. log_bytes sid w' = log_bytes sid w @ m"
proof (induction rule: evidence_run_induct [where sid = sid])
  case (step u v)
  then show ?case using moves_extend [of h sid u v] by auto
qed simp

end
