(* ===== verification/Evidence_History.thy ===== *)
theory Evidence_History
  imports Evidence_Log
begin

text \<open>
  The histories of a session that the replay of the evidence log accepts as complete, described without
  the replay: an event list is a denied or a granted session, and its summary is read off it.
\<close>

subsection \<open>Complete histories\<close>

type_synonym proxy_use = "u64 \<times> u64 \<times> u64 \<times> u64 \<times> u64"

definition use_event :: "lease_id \<Rightarrow> proxy_use \<Rightarrow> evidence_event" where
  "use_event lid = (\<lambda>(attempted, forwarded, denied, req_bytes, resp_bytes).
     ProxyUseAggregate lid attempted forwarded denied req_bytes resp_bytes)"

definition use_sound :: "proxy_use \<Rightarrow> bool" where
  "use_sound = (\<lambda>(attempted, forwarded, denied, _, _). unat forwarded + unat denied \<le> unat attempted)"

definition sums :: "proxy_use list \<Rightarrow> nat list" where
  "sums us = [length us, (\<Sum>(a, f, d, q, p) \<leftarrow> us. unat a), (\<Sum>(a, f, d, q, p) \<leftarrow> us. unat f),
     (\<Sum>(a, f, d, q, p) \<leftarrow> us. unat d), (\<Sum>(a, f, d, q, p) \<leftarrow> us. unat q), (\<Sum>(a, f, d, q, p) \<leftarrow> us. unat p)]"

definition totals_plus :: "proxy_use_totals \<Rightarrow> nat list \<Rightarrow> proxy_use_totals" where
  "totals_plus t ns = \<lparr>pt_aggregates = pt_aggregates t + of_nat (ns ! 0),
     pt_attempted_requests = pt_attempted_requests t + of_nat (ns ! 1),
     pt_forwarded_requests = pt_forwarded_requests t + of_nat (ns ! 2),
     pt_denied_requests = pt_denied_requests t + of_nat (ns ! 3),
     pt_request_bytes = pt_request_bytes t + of_nat (ns ! 4),
     pt_response_bytes = pt_response_bytes t + of_nat (ns ! 5)\<rparr>"

definition totals_list :: "proxy_use_totals \<Rightarrow> nat list" where
  "totals_list t = [unat (pt_aggregates t), unat (pt_attempted_requests t), unat (pt_forwarded_requests t),
     unat (pt_denied_requests t), unat (pt_request_bytes t), unat (pt_response_bytes t)]"

definition sums_fit :: "proxy_use_totals \<Rightarrow> proxy_use list \<Rightarrow> bool" where
  "sums_fit t us \<longleftrightarrow> list_all (\<lambda>(m, n). m + n < 2 ^ 64) (zip (totals_list t) (sums us))"

fun outcome_fits :: "worker_result \<Rightarrow> rollback_result \<Rightarrow> final_outcome \<Rightarrow> bool" where
  "outcome_fits wr rr OutcomeSucceeded = (wr = WorkerSucceeded \<and> rr = RollbackNotRequired)"
| "outcome_fits wr rr OutcomeDenied = False"
| "outcome_fits wr rr OutcomeFailed = (wr = WorkerFailed \<or> rr = RollbackFailed)"
| "outcome_fits wr rr OutcomeTimedOut = (wr = WorkerTimedOut)"
| "outcome_fits wr rr OutcomeRevoked = (wr = WorkerRevoked)"
| "outcome_fits wr rr OutcomeRolledBack = (rr = RollbackApplied)"

inductive history :: "evidence_event list \<Rightarrow> evidence_summary \<Rightarrow> bool" where
  denied_session:
    "history [SessionStarted wid aid intent, AuthorityDecision (Denied ad reason), FinalOutcome OutcomeDenied od]
       (summary_default\<lparr>es_workspace_id := Some wid, es_action_id := Some aid, es_intent_digest := Some intent,
          es_authority_digest := Some ad, es_authority_denial := Some reason,
          es_final_outcome := Some OutcomeDenied, es_final_outcome_digest := Some od\<rparr>)"
| granted_session:
    "list_all use_sound us \<Longrightarrow> sums_fit proxy_totals_default us \<Longrightarrow> (rd = None \<longleftrightarrow> rr = RollbackNotRequired)
     \<Longrightarrow> outcome_fits wr rr outcome
     \<Longrightarrow> history ([SessionStarted wid aid intent, AuthorityDecision (Granted ad gid gd), LeaseBound gid gd lid ld]
           @ map (use_event lid) us
           @ [WorkerCompleted wr (Some wd), RollbackCompleted rr rd, FinalOutcome outcome od])
       \<lparr>es_workspace_id = Some wid, es_action_id = Some aid, es_intent_digest = Some intent,
        es_authority_digest = Some ad, es_authority_denial = None, es_grant_id = Some gid,
        es_grant_digest = Some gd, es_lease_id = Some lid, es_lease_digest = Some ld,
        es_proxy_use = totals_plus proxy_totals_default (sums us), es_worker_result = Some wr,
        es_worker_result_digest = Some wd, es_rollback_result = Some rr, es_rollback_digest = rd,
        es_final_outcome = Some outcome, es_final_outcome_digest = Some od\<rparr>"

fun numbered_from :: "session_id \<Rightarrow> nat \<Rightarrow> log_record list \<Rightarrow> bool" where
  "numbered_from sid i [] = True"
| "numbered_from sid i (r # rs) =
     (lr_session_id r = sid \<and> unat (lr_sequence r) = i \<and> numbered_from sid (i + 1) rs)"

subsection \<open>The events of a replay\<close>

fun conclude :: "replay_state \<Rightarrow> evidence_event list \<Rightarrow> evidence_summary option" where
  "conclude st [] = (if rp_finalized st then Some (rp_summary st) else None)"
| "conclude st (e # es) =
     (if rp_finalized st \<or> \<not> event_allowed st e then None
      else case apply_event st e of Inl x \<Rightarrow> None | Inr st' \<Rightarrow> conclude st' es)"

lemma can_finalize_time [simp]: "can_finalize (st\<lparr>rp_last_timestamp := t\<rparr>) x = can_finalize st x"
  by (cases x) (simp_all add: can_finalize_def)

lemma event_allowed_time [simp]: "event_allowed (st\<lparr>rp_last_timestamp := t\<rparr>) e = event_allowed st e"
  by (cases e) simp_all

lemma apply_event_time:
  "apply_event (st\<lparr>rp_last_timestamp := t\<rparr>) e = and_then (apply_event st e) (\<lambda>x. Ok (x\<lparr>rp_last_timestamp := t\<rparr>))"
proof (cases e)
  case (AuthorityDecision d)
  then show ?thesis by (cases d) simp_all
next
  case (ProxyUseAggregate l a f d q p)
  then show ?thesis
    by (cases "add_aggregate (es_proxy_use (rp_summary st)) a f d q p") simp_all
qed simp_all

lemma apply_event_keeps_time: "apply_event st e = Ok st' \<Longrightarrow> rp_last_timestamp st' = rp_last_timestamp st"
proof (cases e)
  case (AuthorityDecision d)
  then show "apply_event st e = Ok st' \<Longrightarrow> rp_last_timestamp st' = rp_last_timestamp st"
    by (cases d) auto
qed (auto simp: res_simps)

lemma conclude_time [simp]: "conclude (st\<lparr>rp_last_timestamp := t\<rparr>) es = conclude st es"
proof (induction es arbitrary: st)
  case (Cons e es)
  then show ?case by (cases "apply_event st e") (simp_all add: apply_event_time)
qed simp

definition later :: "u64 option \<Rightarrow> log_record list \<Rightarrow> bool" where
  "later t rs \<longleftrightarrow> sorted ((case t of None \<Rightarrow> [] | Some x \<Rightarrow> [x]) @ map lr_observed_at_unix_ms rs)"

lemma later_Cons: "later t (r # rs) \<longleftrightarrow>
    (case t of None \<Rightarrow> True | Some x \<Rightarrow> x \<le> lr_observed_at_unix_ms r) \<and> later (Some (lr_observed_at_unix_ms r)) rs"
  by (cases t) (auto simp: later_def)

lemma number_of_index: "word_try_from i = Some (n :: u64) \<longleftrightarrow> unat n = i"
  by (auto simp: word_try_from_def Let_def)

lemma replay_concludes:
  "(\<exists>st'. replay_from sid i st rs = Ok st' \<and> rp_finalized st' \<and> rp_summary st' = sm) \<longleftrightarrow>
     numbered_from sid i rs \<and> later (rp_last_timestamp st) rs \<and> conclude st (map lr_event rs) = Some sm"
proof (induction rs arbitrary: i st)
  case Nil
  then show ?case by (cases "rp_last_timestamp st") (auto simp: later_def)
next
  case (Cons r rs)
  let ?t = "lr_observed_at_unix_ms r"
  show ?case
  proof (cases "lr_session_id r = sid \<and> unat (lr_sequence r) = i")
    case True
    then have n: "word_try_from i = Some (lr_sequence r)" by (simp add: number_of_index)
    show ?thesis
    proof (cases "apply_next st (lr_event r) ?t")
      case (Inl x)
      then have "\<not> (later (rp_last_timestamp st) (r # rs) \<and> conclude st (map lr_event (r # rs)) = Some sm)"
        by (auto simp: apply_next_def validate_next_def res_simps later_Cons apply_event_time not_le
            split: if_splits option.splits sum.splits)
      then show ?thesis using True n Inl by simp
    next
      case (Inr st1)
      then have ok: "\<not> rp_finalized st" "event_allowed st (lr_event r)"
        "case rp_last_timestamp st of None \<Rightarrow> True | Some x \<Rightarrow> x \<le> ?t"
        and ap: "apply_event (st\<lparr>rp_last_timestamp := Some ?t\<rparr>) (lr_event r) = Ok st1"
        by (auto simp: apply_next_def validate_next_def res_simps split: if_splits option.splits)
      obtain st0 where st0: "apply_event st (lr_event r) = Ok st0" "st1 = st0\<lparr>rp_last_timestamp := Some ?t\<rparr>"
        using ap by (auto simp: apply_event_time res_simps)
      then show ?thesis using True n Inr Cons.IH [of "i + 1" st1] ok
        by (auto simp: later_Cons)
    qed
  qed (auto simp: res_simps number_of_index split: if_splits)
qed

subsection \<open>Stages of a session\<close>

definition flags :: "replay_state \<Rightarrow> bool list" where
  "flags st = [rp_started st, rp_authority_decided st, rp_authority_granted st, rp_lease_bound st,
     rp_worker_completed st, rp_rollback_completed st, rp_finalized st]"

lemma flags_iff: "flags st = [a, b, c, d, e, f, g] \<longleftrightarrow> rp_started st = a \<and> rp_authority_decided st = b
    \<and> rp_authority_granted st = c \<and> rp_lease_bound st = d \<and> rp_worker_completed st = e
    \<and> rp_rollback_completed st = f \<and> rp_finalized st = g"
  by (auto simp: flags_def)

lemma conclude_finalized: "rp_finalized st \<Longrightarrow> conclude st es = Some sm \<longleftrightarrow> es = [] \<and> sm = rp_summary st"
  by (cases es) auto

lemma rolled_stage:
  assumes "flags st = [True, True, True, True, True, True, False]"
    and "es_worker_result (rp_summary st) = Some wr" and "es_rollback_result (rp_summary st) = Some rr"
  shows "conclude st es = Some sm \<longleftrightarrow> (\<exists>out od. es = [FinalOutcome out od] \<and> outcome_fits wr rr out
     \<and> sm = (rp_summary st)\<lparr>es_final_outcome := Some out, es_final_outcome_digest := Some od\<rparr>)"
proof (cases es)
  case (Cons e es')
  have fits: "can_finalize st out = outcome_fits wr rr out" for out
    using assms by (cases out) (auto simp: can_finalize_def flags_iff)
  show ?thesis using assms Cons by (cases e) (auto simp: flags_iff fits conclude_finalized)
qed (use assms in \<open>auto simp: flags_iff\<close>)

lemma worker_stage:
  assumes "flags st = [True, True, True, True, True, False, False]"
    and "es_worker_result (rp_summary st) = Some wr" and "es_rollback_result (rp_summary st) = None"
  shows "conclude st es = Some sm \<longleftrightarrow> (\<exists>rr rd out od. es = [RollbackCompleted rr rd, FinalOutcome out od]
     \<and> (rd = None \<longleftrightarrow> rr = RollbackNotRequired) \<and> outcome_fits wr rr out
     \<and> sm = (rp_summary st)\<lparr>es_rollback_result := Some rr, es_rollback_digest := rd,
          es_final_outcome := Some out, es_final_outcome_digest := Some od\<rparr>)"
proof (cases es)
  case (Cons e es')
  have none: "\<not> can_finalize st out" for out
    using assms by (cases out) (auto simp: can_finalize_def flags_iff)
  show ?thesis
  proof (cases e)
    case (RollbackCompleted rr rd)
    let ?st = "st\<lparr>rp_rollback_completed := True, rp_summary := (rp_summary st)\<lparr>es_rollback_result := Some rr,
       es_rollback_digest := rd\<rparr>\<rparr>"
    have "conclude ?st es' = Some sm \<longleftrightarrow> (\<exists>out od. es' = [FinalOutcome out od] \<and> outcome_fits wr rr out
     \<and> sm = (rp_summary ?st)\<lparr>es_final_outcome := Some out, es_final_outcome_digest := Some od\<rparr>)"
      by (rule rolled_stage) (use assms in \<open>auto simp: flags_iff\<close>)
    then show ?thesis using assms Cons RollbackCompleted by (auto simp: flags_iff)
  qed (use assms Cons none in \<open>auto simp: flags_iff\<close>)
qed (use assms in \<open>auto simp: flags_iff\<close>)

definition tail_summary :: "evidence_summary \<Rightarrow> proxy_use list \<Rightarrow> worker_result \<Rightarrow> sha256_digest \<Rightarrow> rollback_result
    \<Rightarrow> sha256_digest option \<Rightarrow> final_outcome \<Rightarrow> sha256_digest \<Rightarrow> evidence_summary" where
  "tail_summary sm us wr wd rr rd out od = sm\<lparr>es_proxy_use := totals_plus (es_proxy_use sm) (sums us),
     es_worker_result := Some wr, es_worker_result_digest := Some wd, es_rollback_result := Some rr,
     es_rollback_digest := rd, es_final_outcome := Some out, es_final_outcome_digest := Some od\<rparr>"

definition leased_tail :: "lease_id \<Rightarrow> evidence_summary \<Rightarrow> evidence_event list \<Rightarrow> evidence_summary \<Rightarrow> bool" where
  "leased_tail lid sm es sm' \<longleftrightarrow> (\<exists>us wr wd rr rd out od.
     es = map (use_event lid) us @ [WorkerCompleted wr (Some wd), RollbackCompleted rr rd, FinalOutcome out od]
     \<and> list_all use_sound us \<and> sums_fit (es_proxy_use sm) us \<and> (rd = None \<longleftrightarrow> rr = RollbackNotRequired)
     \<and> outcome_fits wr rr out \<and> sm' = tail_summary sm us wr wd rr rd out od)"

lemma add_total_Ok: "add_total m n = Ok k \<longleftrightarrow> unat m + unat n < 2 ^ 64 \<and> k = m + n"
  by (auto simp: add_total_def res_simps checked_add_def)

lemma sums_Cons: "sums ((a, f, d, q, p) # us) =
    [Suc (sums us ! 0), unat a + sums us ! 1, unat f + sums us ! 2, unat d + sums us ! 3,
     unat q + sums us ! 4, unat p + sums us ! 5]"
  by (simp add: sums_def)

lemma add_aggregate_Ok: "add_aggregate t a f d q p = Ok t' \<longleftrightarrow> sums_fit t [(a, f, d, q, p)]
    \<and> t' = totals_plus t (sums [(a, f, d, q, p)])"
  by (auto simp: add_aggregate_def res_simps add_total_Ok sums_fit_def sums_def totals_list_def
      totals_plus_def)

lemma totals_plus_Cons:
  "totals_plus (totals_plus t (sums [u])) (sums us) = totals_plus t (sums (u # us))"
  by (cases u) (simp add: totals_plus_def sums_def)

lemma sums_fit_Cons: "sums_fit t (u # us) \<longleftrightarrow> sums_fit t [u] \<and> sums_fit (totals_plus t (sums [u])) us"
proof -
  have *: "unat m + n < 18446744073709551616 \<Longrightarrow> unat (m + of_nat n) = unat m + n" for m :: u64 and n
    by (simp add: unat_word_ariths unat_of_nat)
  have **: "unat m + unat n < 18446744073709551616 \<Longrightarrow> unat (m + n) = unat m + unat n" for m n :: u64
    by (simp add: unat_word_ariths)
  obtain a f d q p where u: "u = (a, f, d, q, p)" by (cases u)
  show ?thesis
    by (auto simp: u sums_fit_def sums_def totals_list_def totals_plus_def * ** add.assoc)
qed

lemma add_aggregate_if: "add_aggregate t a f d q p =
    (if sums_fit t [(a, f, d, q, p)] then Ok (totals_plus t (sums [(a, f, d, q, p)])) else Err AggregateOverflow)"
proof (cases "add_aggregate t a f d q p")
  case (Inl x)
  then have "x = AggregateOverflow" by (auto simp: add_aggregate_def res_simps add_total_def)
  then show ?thesis using Inl add_aggregate_Ok [of t a f d q p] by auto
next
  case (Inr t')
  then show ?thesis using add_aggregate_Ok [of t a f d q p t'] by auto
qed

lemma no_uses: "totals_plus t (sums []) = t" "sums_fit t []"
proof -
  have "unat x < 18446744073709551616" for x :: u64 using unsigned_less [of x] by simp
  then show "sums_fit t []" by (simp add: sums_fit_def sums_def totals_list_def)
qed (simp add: totals_plus_def sums_def)

lemma use_allowed:
  "(case checked_add f d of None \<Rightarrow> False | Some requests \<Rightarrow> requests \<le> a) = use_sound (a, f, d, q, p)"
proof -
  have "unat (f + d) = unat f + unat d" if "unat f + unat d < 2 ^ 64" using that by (simp add: unat_word_ariths)
  moreover have "unat a < 2 ^ 64" using unsigned_less [of a] by simp
  ultimately show ?thesis by (auto simp: use_sound_def checked_add_def word_le_nat_alt)
qed

lemma leased_tailI:
  assumes "es = map (use_event lid) us @ [WorkerCompleted wr (Some wd), RollbackCompleted rr rd, FinalOutcome out od]"
    and "list_all use_sound us" and "sums_fit (es_proxy_use sm) us" and "rd = None \<longleftrightarrow> rr = RollbackNotRequired"
    and "outcome_fits wr rr out" and "sm' = tail_summary sm us wr wd rr rd out od"
  shows "leased_tail lid sm es sm'"
  unfolding leased_tail_def using assms by blast

lemma leased_tail_use:
  "leased_tail lid sm (ProxyUseAggregate l a f d q p # es) sm' \<longleftrightarrow>
     l = lid \<and> use_sound (a, f, d, q, p) \<and> sums_fit (es_proxy_use sm) [(a, f, d, q, p)]
     \<and> leased_tail lid (sm\<lparr>es_proxy_use := totals_plus (es_proxy_use sm) (sums [(a, f, d, q, p)])\<rparr>) es sm'"
    (is "?l \<longleftrightarrow> l = lid \<and> use_sound ?u \<and> sums_fit ?t [?u] \<and> leased_tail lid ?sm es sm'")
proof
  assume ?l
  then obtain us0 wr wd rr rd out od where t:
    "ProxyUseAggregate l a f d q p # es = map (use_event lid) us0
       @ [WorkerCompleted wr (Some wd), RollbackCompleted rr rd, FinalOutcome out od]"
    "list_all use_sound us0" "sums_fit ?t us0" "rd = None \<longleftrightarrow> rr = RollbackNotRequired"
    "outcome_fits wr rr out" "sm' = tail_summary sm us0 wr wd rr rd out od"
    by (auto simp: leased_tail_def)
  then obtain us where us: "us0 = ?u # us" "l = lid"
    by (cases us0) (auto simp: use_event_def split: prod.splits)
  have fit: "sums_fit ?t [?u]" "sums_fit (totals_plus ?t (sums [?u])) us"
    using t(3) sums_fit_Cons [of ?t ?u us] us(1) by auto
  have "sm' = tail_summary ?sm us wr wd rr rd out od"
    by (simp add: t(6) us(1) tail_summary_def totals_plus_Cons)
  then have "leased_tail lid ?sm es sm'"
    using t us(1) fit(2) by (intro leased_tailI [where us = us]) (auto simp: use_event_def)
  then show "l = lid \<and> use_sound ?u \<and> sums_fit ?t [?u] \<and> leased_tail lid ?sm es sm'"
    using us t(2) fit(1) by simp
next
  assume l: "l = lid \<and> use_sound ?u \<and> sums_fit ?t [?u] \<and> leased_tail lid ?sm es sm'"
  then obtain us wr wd rr rd out od where t:
    "es = map (use_event lid) us @ [WorkerCompleted wr (Some wd), RollbackCompleted rr rd, FinalOutcome out od]"
    "list_all use_sound us" "sums_fit (totals_plus ?t (sums [?u])) us" "rd = None \<longleftrightarrow> rr = RollbackNotRequired"
    "outcome_fits wr rr out" "sm' = tail_summary ?sm us wr wd rr rd out od"
    by (auto simp: leased_tail_def)
  have "sums_fit ?t (?u # us)" using l t(3) sums_fit_Cons by blast
  moreover have "sm' = tail_summary sm (?u # us) wr wd rr rd out od"
    by (simp add: t(6) tail_summary_def totals_plus_Cons)
  ultimately show ?l using t l by (intro leased_tailI [where us = "?u # us"]) (auto simp: use_event_def)
qed

lemma leased_tail_worker:
  "leased_tail lid sm (WorkerCompleted wr d # es) sm' \<longleftrightarrow>
     (\<exists>wd rr rd out od. d = Some wd \<and> es = [RollbackCompleted rr rd, FinalOutcome out od]
       \<and> (rd = None \<longleftrightarrow> rr = RollbackNotRequired) \<and> outcome_fits wr rr out
       \<and> sm' = sm\<lparr>es_worker_result := Some wr, es_worker_result_digest := Some wd, es_rollback_result := Some rr,
            es_rollback_digest := rd, es_final_outcome := Some out, es_final_outcome_digest := Some od\<rparr>)"
proof -
  have us: "WorkerCompleted wr d # es = map (use_event lid) us
        @ [WorkerCompleted wr' (Some wd), RollbackCompleted rr rd, FinalOutcome out od]
      \<longleftrightarrow> us = [] \<and> wr' = wr \<and> d = Some wd \<and> es = [RollbackCompleted rr rd, FinalOutcome out od]"
    for us wr' wd rr rd out od
    by (cases us) (auto simp: use_event_def split: prod.splits)
  show ?thesis unfolding leased_tail_def us by (auto simp: no_uses tail_summary_def)
qed

lemma leased_tail_head:
  "leased_tail lid sm (e # es) sm' \<Longrightarrow> event_kind e \<in> {''proxy_use_aggregate'', ''worker_completed''}"
  "\<not> leased_tail lid sm [] sm'"
  by (auto simp: leased_tail_def Cons_eq_append_conv use_event_def)

lemma leased_stage:
  assumes "flags st = [True, True, True, True, False, False, False]" and "es_lease_id (rp_summary st) = Some lid"
    and "es_worker_result (rp_summary st) = None" and "es_rollback_result (rp_summary st) = None"
  shows "conclude st es = Some sm \<longleftrightarrow> leased_tail lid (rp_summary st) es sm"
  using assms
proof (induction es arbitrary: st)
  case Nil
  then show ?case by (simp add: flags_iff leased_tail_head)
next
  case (Cons e es)
  have none: "\<not> can_finalize st out" for out
    using Cons.prems by (cases out) (auto simp: can_finalize_def flags_iff)
  note head = leased_tail_head(1) [of lid "rp_summary st" e es sm]
  show ?case
  proof (cases e)
    case e: (ProxyUseAggregate l a f d q p)
    let ?t = "totals_plus (es_proxy_use (rp_summary st)) (sums [(a, f, d, q, p)])"
    have "conclude (st\<lparr>rp_summary := (rp_summary st)\<lparr>es_proxy_use := ?t\<rparr>\<rparr>) es = Some sm
        \<longleftrightarrow> leased_tail lid ((rp_summary st)\<lparr>es_proxy_use := ?t\<rparr>) es sm"
      using Cons.IH [of "st\<lparr>rp_summary := (rp_summary st)\<lparr>es_proxy_use := ?t\<rparr>\<rparr>"] Cons.prems
      by (simp add: flags_iff)
    then show ?thesis using Cons.prems
      by (auto simp: e flags_iff leased_tail_use add_aggregate_if use_allowed [where q = q and p = p])
  next
    case e: (WorkerCompleted wr d)
    show ?thesis
    proof (cases d)
      case (Some wd)
      have "conclude st (e # es) = Some sm \<longleftrightarrow> conclude (st\<lparr>rp_worker_completed := True,
          rp_summary := (rp_summary st)\<lparr>es_worker_result := Some wr, es_worker_result_digest := d\<rparr>\<rparr>) es = Some sm"
        using Cons.prems by (simp add: e Some flags_iff)
      also have "\<dots> \<longleftrightarrow> leased_tail lid (rp_summary st) (e # es) sm"
        using Cons.prems by (subst worker_stage) (auto simp: e flags_iff leased_tail_worker Some)
      finally show ?thesis .
    qed (use Cons.prems in \<open>simp add: e flags_iff leased_tail_worker\<close>)
  qed (use Cons.prems none head in \<open>auto simp: flags_iff\<close>)
qed

lemma granted_stage:
  assumes "flags st = [True, True, True, False, False, False, False]"
    and "es_grant_id (rp_summary st) = Some gid" and "es_grant_digest (rp_summary st) = Some gd"
    and "es_worker_result (rp_summary st) = None" and "es_rollback_result (rp_summary st) = None"
  shows "conclude st es = Some sm \<longleftrightarrow> (\<exists>lid ld es'. es = LeaseBound gid gd lid ld # es'
     \<and> leased_tail lid ((rp_summary st)\<lparr>es_lease_id := Some lid, es_lease_digest := Some ld\<rparr>) es' sm)"
proof (cases es)
  case (Cons e es')
  have none: "\<not> can_finalize st out" for out
    using assms by (cases out) (auto simp: can_finalize_def flags_iff)
  show ?thesis
  proof (cases e)
    case e: (LeaseBound g d lid ld)
    have "conclude (st\<lparr>rp_lease_bound := True, rp_summary := (rp_summary st)\<lparr>es_lease_id := Some lid,
        es_lease_digest := Some ld\<rparr>\<rparr>) es' = Some sm
      \<longleftrightarrow> leased_tail lid ((rp_summary st)\<lparr>es_lease_id := Some lid, es_lease_digest := Some ld\<rparr>) es' sm"
      using assms by (subst leased_stage [where lid = lid]) (auto simp: flags_iff)
    then show ?thesis using assms Cons e by (auto simp: flags_iff)
  qed (use assms Cons none in \<open>auto simp: flags_iff\<close>)
qed (use assms in \<open>simp add: flags_iff\<close>)

lemma denied_stage:
  assumes "flags st = [True, True, False, False, False, False, False]" and "es_rollback_result (rp_summary st) = None"
  shows "conclude st es = Some sm \<longleftrightarrow> (\<exists>od. es = [FinalOutcome OutcomeDenied od]
     \<and> sm = (rp_summary st)\<lparr>es_final_outcome := Some OutcomeDenied, es_final_outcome_digest := Some od\<rparr>)"
proof (cases es)
  case (Cons e es')
  have only: "can_finalize st out \<longleftrightarrow> out = OutcomeDenied" for out
    using assms by (cases out) (auto simp: can_finalize_def flags_iff)
  show ?thesis using assms Cons by (cases e) (auto simp: flags_iff only conclude_finalized)
qed (use assms in \<open>simp add: flags_iff\<close>)

definition decided_tail :: "evidence_summary \<Rightarrow> evidence_event list \<Rightarrow> evidence_summary \<Rightarrow> bool" where
  "decided_tail sm es sm' \<longleftrightarrow>
     (\<exists>ad reason od. es = [AuthorityDecision (Denied ad reason), FinalOutcome OutcomeDenied od]
        \<and> sm' = sm\<lparr>es_authority_digest := Some ad, es_authority_denial := Some reason,
             es_final_outcome := Some OutcomeDenied, es_final_outcome_digest := Some od\<rparr>)
     \<or> (\<exists>ad gid gd lid ld es'. es = AuthorityDecision (Granted ad gid gd) # LeaseBound gid gd lid ld # es'
        \<and> leased_tail lid (sm\<lparr>es_authority_digest := Some ad, es_grant_id := Some gid, es_grant_digest := Some gd,
             es_lease_id := Some lid, es_lease_digest := Some ld\<rparr>) es' sm')"

lemma started_stage:
  assumes "flags st = [True, False, False, False, False, False, False]"
    and "es_worker_result (rp_summary st) = None" and "es_rollback_result (rp_summary st) = None"
  shows "conclude st es = Some sm \<longleftrightarrow> decided_tail (rp_summary st) es sm"
proof (cases es)
  case (Cons e es')
  show ?thesis
  proof (cases e)
    case e: (AuthorityDecision d)
    show ?thesis
    proof (cases d)
      case (Denied ad reason)
      have "conclude (st\<lparr>rp_authority_decided := True, rp_summary := (rp_summary st)\<lparr>es_authority_digest := Some ad,
          es_authority_denial := Some reason\<rparr>\<rparr>) es' = Some sm
        \<longleftrightarrow> (\<exists>od. es' = [FinalOutcome OutcomeDenied od] \<and> sm = (rp_summary st)\<lparr>es_authority_digest := Some ad,
          es_authority_denial := Some reason, es_final_outcome := Some OutcomeDenied, es_final_outcome_digest := Some od\<rparr>)"
        using assms by (subst denied_stage) (auto simp: flags_iff)
      then show ?thesis using assms Cons e Denied by (auto simp: flags_iff decided_tail_def)
    next
      case (Granted ad gid gd)
      have "conclude (st\<lparr>rp_authority_decided := True, rp_authority_granted := True,
          rp_summary := (rp_summary st)\<lparr>es_authority_digest := Some ad, es_grant_id := Some gid,
            es_grant_digest := Some gd\<rparr>\<rparr>) es' = Some sm
        \<longleftrightarrow> (\<exists>lid ld es''. es' = LeaseBound gid gd lid ld # es''
          \<and> leased_tail lid ((rp_summary st)\<lparr>es_authority_digest := Some ad, es_grant_id := Some gid,
              es_grant_digest := Some gd, es_lease_id := Some lid, es_lease_digest := Some ld\<rparr>) es'' sm)"
        using assms by (subst granted_stage) (auto simp: flags_iff)
      then show ?thesis using assms Cons e Granted by (auto simp: flags_iff decided_tail_def)
    qed
  qed (use assms Cons in \<open>auto simp: flags_iff decided_tail_def can_finalize_def\<close>)
qed (use assms in \<open>simp add: flags_iff decided_tail_def\<close>)

lemma initial_stage:
  "conclude replay_default es = Some sm \<longleftrightarrow> (\<exists>wid aid intent es'. es = SessionStarted wid aid intent # es'
     \<and> decided_tail (summary_default\<lparr>es_workspace_id := Some wid, es_action_id := Some aid,
          es_intent_digest := Some intent\<rparr>) es' sm)"
proof (cases es)
  case (Cons e es')
  show ?thesis
  proof (cases e)
    case e: (SessionStarted wid aid intent)
    let ?sm = "summary_default\<lparr>es_workspace_id := Some wid, es_action_id := Some aid, es_intent_digest := Some intent\<rparr>"
    have "conclude (replay_default\<lparr>rp_started := True, rp_summary := ?sm\<rparr>) es' = Some sm \<longleftrightarrow> decided_tail ?sm es' sm"
      by (subst started_stage) (auto simp: flags_iff replay_default_def summary_default_def)
    then show ?thesis using Cons e by (simp add: replay_default_def)
  qed (use Cons in \<open>auto simp: replay_default_def can_finalize_def\<close>)
qed (simp add: replay_default_def)

lemma history_cases:
  "history es sm \<longleftrightarrow> (\<exists>wid aid intent es'. es = SessionStarted wid aid intent # es'
     \<and> decided_tail (summary_default\<lparr>es_workspace_id := Some wid, es_action_id := Some aid,
          es_intent_digest := Some intent\<rparr>) es' sm)" (is "?l \<longleftrightarrow> ?r")
proof
  assume ?l
  then show ?r
  proof cases
    case denied_session
    then show ?thesis by (simp add: decided_tail_def)
  next
    case (granted_session us rd rr wr outcome wid aid intent ad gid gd lid ld wd od)
    have "leased_tail lid (summary_default\<lparr>es_workspace_id := Some wid, es_action_id := Some aid,
        es_intent_digest := Some intent, es_authority_digest := Some ad, es_grant_id := Some gid,
        es_grant_digest := Some gd, es_lease_id := Some lid, es_lease_digest := Some ld\<rparr>)
        (map (use_event lid) us @ [WorkerCompleted wr (Some wd), RollbackCompleted rr rd, FinalOutcome outcome od]) sm"
      using granted_session
      by (intro leased_tailI [where us = us]) (simp_all add: summary_default_def tail_summary_def)
    then show ?thesis using granted_session(1) by (simp add: decided_tail_def)
  qed
next
  assume ?r
  then obtain wid aid intent es' where e: "es = SessionStarted wid aid intent # es'"
    "decided_tail (summary_default\<lparr>es_workspace_id := Some wid, es_action_id := Some aid,
          es_intent_digest := Some intent\<rparr>) es' sm" by blast
  from e(2) show ?l unfolding decided_tail_def
  proof (elim disjE exE conjE)
    fix ad reason od
    assume "es' = [AuthorityDecision (Denied ad reason), FinalOutcome OutcomeDenied od]"
      "sm = summary_default\<lparr>es_workspace_id := Some wid, es_action_id := Some aid, es_intent_digest := Some intent,
        es_authority_digest := Some ad, es_authority_denial := Some reason,
        es_final_outcome := Some OutcomeDenied, es_final_outcome_digest := Some od\<rparr>"
    then show ?thesis using denied_session e(1) by simp
  next
    fix ad gid gd lid ld es2
    assume "es' = AuthorityDecision (Granted ad gid gd) # LeaseBound gid gd lid ld # es2"
      "leased_tail lid (summary_default\<lparr>es_workspace_id := Some wid, es_action_id := Some aid,
        es_intent_digest := Some intent, es_authority_digest := Some ad, es_grant_id := Some gid,
        es_grant_digest := Some gd, es_lease_id := Some lid, es_lease_digest := Some ld\<rparr>) es2 sm"
    then show ?thesis unfolding leased_tail_def e(1)
      using granted_session by (fastforce simp: summary_default_def tail_summary_def)
  qed
qed

lemma concludes_history: "conclude replay_default es = Some sm \<longleftrightarrow> history es sm"
  by (simp only: initial_stage history_cases)

lemma finalized_history:
  "replay sid rs = Ok st \<Longrightarrow> rp_finalized st \<Longrightarrow> history (map lr_event rs) (rp_summary st)"
  using replay_concludes [of sid 0 replay_default rs "rp_summary st"] concludes_history
  by (auto simp: replay_def)

end
