(* ===== verification/Evidence_Appends.thy ===== *)
theory Evidence_Appends
  imports Evidence_Runs Evidence_History
begin

text \<open>
  What the operations of the evidence store write and accept: the record an append adds, the entry that
  \<open>append_once\<close> reports, the key and the log that a receipt rests on, and the log after an append.
\<close>

subsection \<open>What an append writes\<close>

lemma prepare_append_Ok:
  assumes "prepare_append h sid key rs e t = Ok (s, d, wi, l)"
  obtains r st where "replay sid rs = Ok st" "validate_next st e t = Ok ()" "length rs < MAX_RECORDS"
    "event_digest h e = Ok d" "word_try_from (length rs) = Some s"
    "build_record h sid key rs e t s = Ok r" "append_witness h sid s (lr_mac r) = Ok wi" "record_line h r = Ok l"
  using assms that
  by (auto simp: prepare_append_def res_simps ensure_record_capacity_def split: if_splits)

lemma build_record_Ok:
  assumes "build_record h sid key rs e t s = Ok r"
  shows "lr_schema_version r = EVIDENCE_SCHEMA_VERSION" "lr_session_id r = sid" "lr_sequence r = s"
    "lr_observed_at_unix_ms r = t" "lr_event r = e" "lr_previous_mac r = next_previous_mac rs"
    "\<exists>u. evidence_text h unsigned_json r = Ok u \<and> compute_mac h key RECORD_MAC_DOMAIN u = Ok (lr_mac r)"
  using assms
  by (auto simp: build_record_def Let_def res_simps evidence_text_def canonical_json_v1_def
      unsigned_json_def unsigned_fields_def)

text \<open>A position of the log, with what \<open>append_once\<close> reports of it.\<close>

definition log_entry :: "evidence_host \<Rightarrow> session_id \<Rightarrow> log_record list \<Rightarrow> u64 \<Rightarrow> evidence_event
    \<Rightarrow> sha256_digest \<Rightarrow> sha256_digest \<Rightarrow> bool" where
  "log_entry h sid rs n e d wi \<longleftrightarrow> unat n < length rs \<and> lr_event (rs ! unat n) = e
     \<and> event_digest h e = Ok d \<and> append_witness h sid n (lr_mac (rs ! unat n)) = Ok wi"

lemma log_entry_prefix: "log_entry h sid rs n e d wi \<Longrightarrow> prefix rs rs' \<Longrightarrow> log_entry h sid rs' n e d wi"
  by (auto simp: log_entry_def prefix_def nth_append)

lemma append_new_holds:
  assumes "append_new h (store_of sid) io key rs e t w = (Ok (s, d, wi), w')"
    and "log_holds h (log_bytes sid w) rs" and "line_literals (eh_escape h)"
  obtains rs' where "log_holds h (log_bytes sid w') rs'" "log_entry h sid rs' s e d wi" "unat s = length rs"
    "prefix rs rs'"
  using assms(1)
proof (cases rule: append_new_effect)
  case (wrote s0 d0 wi0 l k)
  then have same: "prepare_append h sid key rs e t = Ok (s, d, wi, l)" "log_bytes sid w' = log_bytes sid w @ l"
    by auto
  obtain r st where r: "event_digest h e = Ok d" "word_try_from (length rs) = Some s"
    "build_record h sid key rs e t s = Ok r" "append_witness h sid s (lr_mac r) = Ok wi" "record_line h r = Ok l"
    using prepare_append_Ok [OF same(1)] by metis
  have s: "unat s = length rs" using r(2) by (auto simp: word_try_from_def Let_def split: if_splits)
  have "log_entry h sid (rs @ [r]) s e d wi"
    using r(1,4) s build_record_Ok(5) [OF r(3)] by (simp add: log_entry_def)
  then show ?thesis using that holds_snoc [OF assms(2) r(5) assms(3)] s same(2) by auto
qed simp

lemma records_held:
  "load_records h (store_of sid) io key w = Ok rs \<Longrightarrow> log_holds h (log_bytes sid w) rs"
  using load_records_Ok decode_records_holds by blast

fun once_sequence :: "append_once_result \<Rightarrow> u64" where
  "once_sequence (AppendedNew s _ _) = s" | "once_sequence (AppendedExisting s _ _) = s"

fun as_existing :: "append_once_result \<Rightarrow> append_once_result" where
  "as_existing (AppendedNew s d wi) = AppendedExisting s d wi"
| "as_existing (AppendedExisting s d wi) = AppendedExisting s d wi"

lemma append_once_Ok:
  assumes "append_once h (store_of sid) io n e w = (Ok a, w')" and "line_literals (eh_escape h)"
  obtains rs d wi where "log_holds h (log_bytes sid w') rs" "log_entry h sid rs n e d wi"
    "as_existing a = AppendedExisting n d wi"
proof -
  obtain r1 w1 where lk: "acquire_lock io w = (r1, w1)" by fastforce
  obtain key rs d where ld: "r1 = Ok ()" "load_existing_key h io w1 = Ok key"
    "load_records h (store_of sid) io key w1 = Ok rs" "event_digest h e = Ok d"
    using assms(1) lk by (auto simp: append_once_def res_simps split: sum.splits)
  note holds = records_held [OF ld(3)]
  note op = assms(1) [unfolded append_once_def lk prod.case ld sum.case and_then.simps Let_def]
  show thesis
  proof (cases "unat n < length rs")
    case True
    then have "w' = w1" "lr_event (rs ! unat n) = e"
      using op by (auto simp: res_simps split: if_splits)
    moreover obtain wi where "append_witness h sid n (lr_mac (rs ! unat n)) = Ok wi" "a = AppendedExisting n d wi"
      using op True by (auto simp: res_simps split: if_splits)
    ultimately show ?thesis using that [of rs d wi] holds True ld(4) by (simp add: log_entry_def)
  next
    case False
    then have n: "unat n = length rs" using op by (auto split: if_splits)
    then obtain t r2 where ap: "append_new h (store_of sid) io key rs e t w1 = (r2, w')"
      "and_then r2 (\<lambda>(s, d, wi). Ok (AppendedNew s d wi)) = Ok a"
      using op by (auto split: sum.splits prod.splits)
    then obtain s d' wi where new: "r2 = Ok (s, d', wi)" "a = AppendedNew s d' wi"
      by (cases r2) (auto split: prod.splits)
    obtain rs' where "log_holds h (log_bytes sid w') rs'" "log_entry h sid rs' s e d' wi" "unat s = length rs"
      using append_new_holds [OF ap(1) [unfolded new(1)] holds assms(2)] by metis
    moreover from this(3) have "s = n" using n by (simp add: word_unat_eq_iff)
    ultimately show ?thesis using that [of rs' d' wi] new(2) by simp
  qed
qed

lemma run_prefix:
  assumes "line_literals (eh_escape h)" and "log_holds h (log_bytes sid w) rs"
    and "evidence_run h w w'" and "log_holds h (log_bytes sid w') rs'"
  shows "prefix rs rs'"
  using run_extends [OF assms(3), of sid] holds_prefix [OF assms(1,2)] assms(4) by auto

subsection \<open>Receipts\<close>

lemma rebuild_Ok:
  assumes "rebuild_unsigned_receipt h sid key rs = Ok x"
  obtains st where "replay sid rs = Ok st" "rp_finalized st" "rs \<noteq> []"
    "sr_payload x = \<lparr>py_schema_version = EVIDENCE_SCHEMA_VERSION, py_session_id = sid,
       py_event_count = of_nat (length rs), py_chain_head = lr_mac (last rs), py_summary = rp_summary st\<rparr>"
  using assms that
  by (auto simp: rebuild_unsigned_receipt_def Let_def res_simps word_try_from_Some split: if_splits)

lemma same_evidence_equiv:
  "same_evidence x x" "same_evidence x y \<Longrightarrow> same_evidence y x"
  "same_evidence x y \<Longrightarrow> same_evidence y z \<Longrightarrow> same_evidence x z"
  by (simp_all add: same_evidence_def)

lemma check_asserted_same: "check_asserted_receipt h x signer b = Ok r \<Longrightarrow> same_evidence r x"
  by (auto simp: check_asserted_receipt_def res_simps split: if_splits receipt_trust.splits)

lemma sign_receipt_same: "sign_receipt h signer x = Ok r \<Longrightarrow> same_evidence r x"
  by (auto simp: sign_receipt_def res_simps same_evidence_def split: if_splits)

lemma load_existing_same:
  "load_existing_asserted_receipt h st io x signer w = Ok (Some r) \<Longrightarrow> same_evidence r x"
  by (auto simp: load_existing_asserted_receipt_def res_simps check_asserted_same split: sum.splits if_splits)

text \<open>A receipt was issued for what the files hold: \<open>x\<close> is rebuilt from the key and the log.\<close>

definition receipt_basis :: "evidence_host \<Rightarrow> session_id \<Rightarrow> evidence_world \<Rightarrow> session_receipt \<Rightarrow> bool" where
  "receipt_basis h sid w x \<longleftrightarrow> (\<exists>kb key rs. ew_phantom w KEY_FILE = Some kb \<and> length kb \<le> MAX_KEY_BYTES
     \<and> parse_key h kb = Ok key \<and> length (log_bytes sid w) \<le> MAX_LOG_BYTES
     \<and> decode_records h sid key (log_bytes sid w) = Ok rs \<and> rebuild_unsigned_receipt h sid key rs = Ok x
     \<and> ew_phantom w LOCK_FILE \<noteq> None \<and> ew_evidence w (log_name sid) \<noteq> None)"

lemma receipt_Ok:
  assumes "evidence_receipt h (store_of sid) io boundary w = (Ok r, w')"
  obtains x where "receipt_basis h sid w' x" "same_evidence r x"
proof -
  obtain r1 w1 where lk: "acquire_lock io w = (r1, w1)" by fastforce
  obtain key rs x where ld: "r1 = Ok ()" "load_existing_key h io w1 = Ok key"
    "load_records h (store_of sid) io key w1 = Ok rs" "rebuild_unsigned_receipt h sid key rs = Ok x"
    using assms lk by (auto simp: evidence_receipt_def res_simps split: sum.splits)
  note op = assms [unfolded evidence_receipt_def lk prod.case ld sum.case and_then.simps store_of_simps]
  let ?m = "case boundary of NoVerifiedSigner \<Rightarrow> Ok (x, True)
      | AssertedBy signer \<Rightarrow>
          and_then (load_existing_asserted_receipt h (store_of sid) io x signer w1) (\<lambda>existing.
            case existing of Some r \<Rightarrow> Ok (r, False)
            | None \<Rightarrow> and_then (sign_receipt h signer x) (\<lambda>r. Ok (r, True)))"
  obtain fresh where got: "?m = Ok (r, fresh)"
  proof (cases ?m)
    case (Inl e)
    then show ?thesis using op by simp
  next
    case (Inr p)
    obtain r0 fresh where p: "p = (r0, fresh)" by (cases p)
    have "r0 = r" using op unfolding Inr p by (cases fresh) (auto simp: res_simps split: prod.splits)
    then show ?thesis using that Inr p by simp
  qed
  have same: "same_evidence r x"
  proof (cases boundary)
    case (AssertedBy signer)
    then obtain existing where ex: "load_existing_asserted_receipt h (store_of sid) io x signer w1 = Ok existing"
      "(case existing of Some r \<Rightarrow> Ok (r, False)
        | None \<Rightarrow> and_then (sign_receipt h signer x) (\<lambda>r. Ok (r, True))) = Ok (r, fresh)"
      using got by (simp add: and_then_Ok) blast
    show ?thesis
    proof (cases existing)
      case None
      then have "sign_receipt h signer x = Ok r" using ex(2) by (cases "sign_receipt h signer x") simp_all
      then show ?thesis by (rule sign_receipt_same)
    qed (use ex in \<open>auto intro: load_existing_same\<close>)
  qed (use got in \<open>simp add: same_evidence_equiv\<close>)
  have w': "w' = w1 \<or> (\<exists>y r2. persist_receipt h (store_of sid) io y w1 = (r2, w'))"
    using op [unfolded got sum.case prod.case] by (cases fresh) (auto split: prod.splits)
  then have kept: "ew_phantom w' = ew_phantom w1" "ew_evidence w' (log_name sid) = ew_evidence w1 (log_name sid)"
    using persist_receipt_effect by blast+
  obtain kb where kb: "ew_phantom w1 KEY_FILE = Some kb" "length kb \<le> MAX_KEY_BYTES" "parse_key h kb = Ok key"
    using load_existing_key_Ok [OF ld(2)] by blast
  note recs = load_records_Ok [OF ld(3)]
  have "rs \<noteq> []" using rebuild_Ok [OF ld(4)] by metis
  then have "log_bytes sid w1 \<noteq> []" using recs by auto
  then have "ew_evidence w1 (log_name sid) \<noteq> None" by (auto simp: log_bytes_def split: option.splits)
  moreover have "ew_phantom w1 LOCK_FILE \<noteq> None" using acquire_lock_effect(3) [OF lk] ld(1) by blast
  moreover have "log_bytes sid w' = log_bytes sid w1" using kept(2) by (simp add: log_bytes_def)
  ultimately have "receipt_basis h sid w' x"
    unfolding receipt_basis_def using kept kb recs ld(4)
    by (intro exI [of _ kb] exI [of _ key] exI [of _ rs]) simp
  then show ?thesis using that same by blast
qed

lemma finalized_refuses: "replay sid rs = Ok st \<Longrightarrow> rp_finalized st \<Longrightarrow> prepare_append h sid key rs e t = Err SessionFinalized"
  by (simp add: prepare_append_def validate_next_def)

lemma basis_move:
  assumes "receipt_basis h sid w x" and "log_moves h sid w w'"
  shows "receipt_basis h sid w' x \<and> log_bytes sid w' = log_bytes sid w"
proof -
  obtain kb key rs where b: "ew_phantom w KEY_FILE = Some kb" "parse_key h kb = Ok key"
    "decode_records h sid key (log_bytes sid w) = Ok rs" "rebuild_unsigned_receipt h sid key rs = Ok x"
    using assms(1) by (auto simp: receipt_basis_def)
  obtain st where "replay sid rs = Ok st" "rp_finalized st" using rebuild_Ok [OF b(4)] by metis
  then have "prepare_append h sid key rs e t = Err SessionFinalized" for e t by (rule finalized_refuses)
  then have "\<not> log_advances h sid w w'" using b by (auto simp: log_advances_def)
  then have "log_bytes sid w' = log_bytes sid w" using assms(2) by (simp add: log_moves_def)
  then show ?thesis using assms by (auto simp: receipt_basis_def log_moves_def keeps_files_def)
qed

lemma basis_run:
  assumes "receipt_basis h sid w x" and "evidence_run h w w'"
  shows "receipt_basis h sid w' x \<and> log_bytes sid w' = log_bytes sid w"
  using assms(2) by (induction rule: evidence_run_induct [where sid = sid]) (use assms(1) basis_move in auto)

text \<open>The calls of a verification succeed.\<close>

definition opens_private :: "read_io \<Rightarrow> bool" where
  "opens_private io \<longleftrightarrow> ri_open io = None \<and> ri_stat io = None \<and> ri_private io"

definition verifiable :: "evidence_io \<Rightarrow> bool" where
  "verifiable io \<longleftrightarrow> opens_private (ei_lock_existing io) \<and> ei_lock io = None
     \<and> io_clear (ei_key io) \<and> opens_private (ei_key io) \<and> io_clear (ei_log io) \<and> opens_private (ei_log io)"

lemma read_existing_Ok:
  "read_existing_private_file_bounded io d name m = Ok b \<longleftrightarrow>
     io_clear io \<and> opens_private io \<and> d name = Some b \<and> length b \<le> m"
  using read_private_Ok [of io d name m b]
  by (auto simp: read_existing_private_file_bounded_def open_existing_private_readonly_def
      read_private_file_bounded_def opens_private_def io_clear_def res_simps split: if_splits)

lemma basis_verifies:
  assumes "receipt_basis h sid w x" and "verifiable io"
  shows "verify_local_receipt h (store_of sid) io y w = (if same_evidence y x then Ok () else Err Tampered)"
proof -
  obtain kb key rs b where f: "ew_phantom w KEY_FILE = Some kb" "length kb \<le> MAX_KEY_BYTES" "parse_key h kb = Ok key"
    "ew_evidence w (log_name sid) = Some b" "length b \<le> MAX_LOG_BYTES" "decode_records h sid key b = Ok rs"
    "rebuild_unsigned_receipt h sid key rs = Ok x" "ew_phantom w LOCK_FILE \<noteq> None"
    using assms(1) by (auto simp: receipt_basis_def log_bytes_def)
  have "acquire_existing_read_lock io w = Ok ()"
    using assms(2) f(8) by (auto simp: acquire_existing_read_lock_def open_existing_private_readonly_def
        verifiable_def opens_private_def res_simps)
  moreover have "read_existing_private_file_bounded (ei_key io) (ew_phantom w) KEY_FILE MAX_KEY_BYTES = Ok kb"
    "read_existing_private_file_bounded (ei_log io) (ew_evidence w) (log_name sid) MAX_LOG_BYTES = Ok b"
    using assms(2) f by (simp_all add: read_existing_Ok verifiable_def)
  ultimately show ?thesis using f
    by (simp add: verify_local_receipt_def load_existing_key_readonly_def load_records_readonly_def)
qed

subsection \<open>Torn appends\<close>

text \<open>The codes that the log compares survive their hexadecimal form.\<close>

definition codes_decode :: "evidence_host \<Rightarrow> bool" where
  "codes_decode h \<longleftrightarrow> (\<forall>k m t. eh_hmac h k m = Some t \<longrightarrow> eh_hex_decode h (eh_hex_encode h t) = Some t)"

lemma compute_verifies:
  "codes_decode h \<Longrightarrow> compute_mac h key domain m = Ok t \<Longrightarrow> verify_mac h key domain m t = Ok ()"
  by (auto simp: compute_mac_def verify_mac_def res_simps codes_decode_def parse_sha256_digest_Ok)

lemma record_text_nonempty: "evidence_text h record_json r = Ok x \<Longrightarrow> x \<noteq> []"
  by (auto simp: evidence_text_def canonical_json_v1_def record_json_def res_simps)

lemma replay_from_snoc:
  "replay_from sid i st (rs @ [r]) = and_then (replay_from sid i st rs) (\<lambda>st'. replay_from sid (i + length rs) st' [r])"
proof (induction rs arbitrary: i st)
  case (Cons a rs)
  show ?case
    by (cases "word_try_from i :: u64 option"; cases "apply_next st (lr_event a) (lr_observed_at_unix_ms a)")
      (simp_all add: Cons del: replay_from.simps(1) add: replay_from.simps)
qed simp

lemma replay_snoc:
  assumes "replay sid rs = Ok st" and "lr_session_id r = sid" and "word_try_from (length rs) = Some (lr_sequence r)"
  shows "replay sid (rs @ [r]) = apply_next st (lr_event r) (lr_observed_at_unix_ms r)"
  using assms
  by (simp add: replay_def replay_from_snoc)
    (cases "apply_next st (lr_event r) (lr_observed_at_unix_ms r)"; simp)

lemma previous_mac: "next_previous_mac rs = (if rs = [] then GENESIS_MAC else lr_mac (last rs))"
  by (simp add: next_previous_mac_def)

lemma decode_snoc:
  assumes "decode_records h sid key b = Ok rs" and "line_literals (eh_escape h)" and "record_line h r = Ok l"
    and "decode_line h sid key (length rs) (next_previous_mac rs) (butlast l) = Ok r"
  shows "decode_records h sid key (b @ l) = and_then (replay sid (rs @ [r])) (\<lambda>_. Ok (rs @ [r]))"
proof -
  have b: "whole_lines b" "decode_lines h sid key 0 GENESIS_MAC (log_lines b) = Ok rs"
    using assms(1) by (auto simp: decode_records_Ok)
  obtain t where t: "evidence_text h record_json r = Ok t" "l = t @ [LINE_FEED]"
    using assms(3) by (auto simp: record_line_def res_simps)
  have line: "butlast l = t" by (simp add: t(2))
  have lines: "log_lines (b @ l) = log_lines b @ [t]"
    using log_lines_append [OF b(1), of l] evidence_text_line [OF assms(2) t(1)]
    by (simp add: t(2)) (simp add: log_lines_def split_on_clean)
  have "decode_lines h sid key 0 GENESIS_MAC (log_lines (b @ l)) = Ok (rs @ [r])"
    using assms(4) b(2) decode_lines_length [OF b(2)]
    unfolding lines decode_lines_snoc previous_mac line by simp
  then show ?thesis by (simp add: decode_records_def t(2) log_lines_def)
qed

text \<open>
  The totals can overflow: the check of an append does not see it, so the event is accepted and written,
  and no load of the log succeeds from then on.
\<close>

lemma overflow_only_by_uses:
  assumes "validate_next st e t = Ok ()" and "apply_next st e t = Err x"
  shows "x = AggregateOverflow \<and> (\<exists>lid u. e = use_event lid u \<and> \<not> sums_fit (es_proxy_use (rp_summary st)) [u])"
proof (cases e)
  case (AuthorityDecision d)
  then show ?thesis using assms by (cases d) (simp_all add: apply_next_def)
next
  case e: (ProxyUseAggregate l a f d q p)
  have "e = use_event l (a, f, d, q, p)" by (simp add: e use_event_def)
  moreover have "x = AggregateOverflow" "\<not> sums_fit (es_proxy_use (rp_summary st)) [(a, f, d, q, p)]"
    using assms by (auto simp: e apply_next_def add_aggregate_if split: if_splits)
  ultimately show ?thesis by blast
qed (use assms in \<open>simp_all add: apply_next_def\<close>)

end
