(* ===== verification/Evidence_Sample.thy ===== *)
theory Evidence_Sample
  imports Evidence_Appends
begin

text \<open>
  A concrete evidence store for the witnesses: a writer of string literals, hash functions that are
  constant, and the log of a denied session with its worlds.
\<close>

subsection \<open>A sample\<close>

text \<open>A writer of string literals that doubles every byte and spells the line feed.\<close>

definition quote_line :: "string \<Rightarrow> string" where
  "quote_line s = CHR 0x22 # concat (map (\<lambda>c. if c = LINE_FEED then ''%%'' else [CHR ''~'', c]) s) @ [CHR 0x22]"

lemma quote_line_split:
  "concat (map (\<lambda>c. if c = LINE_FEED then ''%%'' else [CHR ''~'', c]) a) @ CHR 0x22 # r =
     concat (map (\<lambda>c. if c = LINE_FEED then ''%%'' else [CHR ''~'', c]) b) @ CHR 0x22 # r' \<Longrightarrow> a = b \<and> r = r'"
proof (induction a arbitrary: b)
  case Nil
  then show ?case by (cases b) (auto split: if_splits)
next
  case (Cons x a)
  then show ?case by (cases b) (auto split: if_splits)
qed

lemma quote_line_literals: "line_literals quote_line"
  unfolding line_literals_def self_delimiting_def
proof (intro conjI allI impI)
  fix a b r r'
  show "\<exists>t. quote_line a = CHR 0x22 # t" by (simp add: quote_line_def)
  show "LINE_FEED \<notin> set (quote_line a)" by (auto simp: quote_line_def split: if_splits)
  assume "quote_line a @ r = quote_line b @ r'"
  then have "a = b \<and> r = r'" by (intro quote_line_split) (simp add: quote_line_def)
  then show "a = b" "r = r'" by simp_all
qed

definition evidence_sample_digest :: sha256_digest where
  "evidence_sample_digest = Sha256Digest (replicate 64 CHR ''a'')"

definition sample_session :: session_id where
  "sample_session = SessionId ''ses_1''"

fun sample_event :: "nat \<Rightarrow> evidence_event" where
  "sample_event 0 = SessionStarted (WorkspaceId ''wsp_1'') (ActionId ''act_1'') evidence_sample_digest"
| "sample_event (Suc 0) = AuthorityDecision (Denied evidence_sample_digest NoVerifier)"
| "sample_event (Suc (Suc n)) = FinalOutcome OutcomeDenied evidence_sample_digest"

lemma sample_event_two [simp]: "sample_event 2 = FinalOutcome OutcomeDenied evidence_sample_digest"
  by (simp add: numeral_2_eq_2)

definition sample_record :: "nat \<Rightarrow> log_record" where
  "sample_record i = \<lparr>lr_schema_version = EVIDENCE_SCHEMA_VERSION, lr_session_id = sample_session,
     lr_sequence = of_nat i, lr_observed_at_unix_ms = 0, lr_event = sample_event i,
     lr_previous_mac = (if i = 0 then GENESIS_MAC else evidence_sample_digest), lr_mac = evidence_sample_digest\<rparr>"

definition evidence_sample_host :: evidence_host where
  "evidence_sample_host = \<lparr>eh_escape = quote_line, eh_sha256 = (\<lambda>_. []),
     eh_hmac = (\<lambda>_ _. Some (replicate 32 CHR 0x01)), eh_hex_encode = (\<lambda>_. replicate 64 CHR ''a''),
     eh_hex_decode = (\<lambda>_. Some (replicate 32 CHR 0x01)),
     eh_record_from_slice = (\<lambda>t. find (\<lambda>r. canonical_json_v1 quote_line record_json r = Ok t)
        (map sample_record [0, 1, 2])),
     eh_receipt_from_slice = (\<lambda>_. None)\<rparr>"

abbreviation evidence_sample_key :: string where "evidence_sample_key \<equiv> replicate 32 CHR 0x01"

definition calm_read :: read_io where
  "calm_read = \<lparr>ri_open = None, ri_stat = None, ri_private = True, ri_metadata = None, ri_read = None\<rparr>"

definition calm_io :: evidence_io where
  "calm_io = \<lparr>ei_lock_open = None, ei_lock_existing = calm_read, ei_lock = None, ei_key = calm_read, ei_log = calm_read,
     ei_receipt = calm_read, ei_clock = Some 0, ei_random = [], ei_key_create = None, ei_key_write = Written,
     ei_append_open = None, ei_append_create = None, ei_append_metadata = None,
     ei_append_is_file = True, ei_append_write = Written,
     ei_receipt_check = None, ei_receipt_replace = Replaced, ei_receipt_sync = None\<rparr>"

lemma sample_host_simps [simp]:
  "eh_escape evidence_sample_host = quote_line"
  "eh_hmac evidence_sample_host k m = Some (replicate 32 CHR 0x01)"
  "eh_hex_encode evidence_sample_host b = replicate 64 CHR ''a''"
  "eh_hex_decode evidence_sample_host b = Some (replicate 32 CHR 0x01)"
  "eh_record_from_slice evidence_sample_host t =
     find (\<lambda>r. canonical_json_v1 quote_line record_json r = Ok t) (map sample_record [0, 1, 2])"
  by (simp_all add: evidence_sample_host_def)

lemma sample_line_lengths:
  "\<forall>i \<in> {0, 1, 2}. case canonical_json_v1 quote_line record_json (sample_record i) of
     Inr b \<Rightarrow> length b < 3000 | Inl _ \<Rightarrow> False"
  by code_simp

lemma evidence_text_ok: "is_ok (evidence_text h V x) = is_ok (reject_floats (V x))"
  by (cases "write_canonical (eh_escape h) (V x)")
    (auto simp: evidence_text_def canonical_json_v1_def reject_floats_iff_written [of _ "eh_escape h"])

lemma sample_digest_parsed: "parse_sha256_digest (replicate 64 CHR ''a'') = Ok evidence_sample_digest"
  by (simp add: evidence_sample_digest_def parse_sha256_digest_def opaque_from_str_def valid_prefixed_hex_def
      SHA256_HEX_LEN_def byte_defs list_all_iff)

lemma sample_mac:
  "compute_mac evidence_sample_host key domain m = Ok evidence_sample_digest"
  "verify_mac evidence_sample_host key domain m x = Ok ()"
  by (simp_all add: compute_mac_def verify_mac_def sample_digest_parsed)

definition sample_line :: "nat \<Rightarrow> string" where
  "sample_line i = (case canonical_json_v1 quote_line record_json (sample_record i) of
     Inr b \<Rightarrow> b @ [LINE_FEED] | Inl _ \<Rightarrow> [])"

lemma sample_text:
  assumes "i \<in> {0, 1, 2}"
  shows "canonical_json_v1 quote_line record_json (sample_record i) = Ok (butlast (sample_line i))"
    and "record_line evidence_sample_host (sample_record i) = Ok (sample_line i)"
    and "length (sample_line i) \<le> 3000" and "length (sample_line i) \<noteq> 0"
  using sample_line_lengths assms
  by (auto simp: sample_line_def record_line_def evidence_text_def res_simps split: sum.splits)

lemma sample_records_differ:
  assumes "i \<in> {0, 1, 2}" and "j \<in> {0, 1, 2}"
  shows "canonical_json_v1 quote_line record_json (sample_record j) = Ok (butlast (sample_line i)) \<longleftrightarrow> j = i"
proof
  assume "canonical_json_v1 quote_line record_json (sample_record j) = Ok (butlast (sample_line i))"
  then have "sample_record j = sample_record i"
    using faithful_text_determines [OF faithful_record _ _ sample_text(1) [OF assms(1)]] quote_line_literals
    by (simp add: line_literals_def)
  then have "sample_event j = sample_event i" by (simp add: sample_record_def)
  then show "j = i" using assms by auto
qed (use sample_text(1) [OF assms(1)] in simp)

lemma sample_parse:
  "i \<in> {0, 1, 2} \<Longrightarrow> eh_record_from_slice evidence_sample_host (butlast (sample_line i)) = Some (sample_record i)"
  using sample_records_differ [of i 0] sample_records_differ [of i 1] sample_records_differ [of i 2]
  by auto

definition sample_log :: "nat \<Rightarrow> log_record list" where
  "sample_log n = map sample_record [0..<n]"

definition sample_bytes :: "nat \<Rightarrow> string" where
  "sample_bytes n = concat (map sample_line [0..<n])"

definition sample_state :: "nat \<Rightarrow> replay_state" where
  "sample_state n = (case replay sample_session (sample_log n) of Inr st \<Rightarrow> st | Inl _ \<Rightarrow> replay_default)"

lemma sample_replay: "n \<in> {0, 1, 2, 3} \<Longrightarrow> replay sample_session (sample_log n) = Ok (sample_state n)"
  and sample_next: "n \<in> {0, 1, 2} \<Longrightarrow> validate_next (sample_state n) (sample_event n) 0 = Ok ()"
  and sample_final: "rp_finalized (sample_state 3)"
  unfolding sample_state_def by (auto simp: sample_log_def sample_record_def sample_session_def replay_def replay_default_def
      apply_next_def validate_next_def can_finalize_def upt_rec word_try_from_def summary_default_def)

lemma sample_log_length [simp]: "length (sample_log n) = n"
  by (simp add: sample_log_def)

lemma sample_log_Suc: "sample_log (Suc n) = sample_log n @ [sample_record n]"
  by (simp add: sample_log_def)

lemma sample_previous: "next_previous_mac (sample_log n) = lr_previous_mac (sample_record n)"
  by (cases n) (simp_all add: next_previous_mac_def sample_log_def sample_record_def)

lemma sample_index: "n \<in> {0, 1, 2, 3} \<Longrightarrow> word_try_from n = Some (of_nat n :: u64)"
  by (auto simp: word_try_from_Some)

lemma sample_texts_ok:
  "is_ok (evidence_text evidence_sample_host unsigned_json r)"
  "is_ok (evidence_text evidence_sample_host event_json e)"
  "is_ok (evidence_text evidence_sample_host witness_json w)"
proof -
  have opt: "is_ok (reject_floats (optional_json digest_json x))" for x
    by (cases x) (simp_all add: optional_json_def digest_json_def)
  have "is_ok (reject_floats (decision_json d))" for d
  proof (cases d)
    case (Denied a r)
    then show ?thesis by (cases r) (simp_all add: digest_json_def)
  qed (simp add: digest_json_def)
  moreover have "is_ok (reject_floats (worker_json wr))" for wr by (cases wr) simp_all
  moreover have "is_ok (reject_floats (rollback_json rr))" for rr by (cases rr) simp_all
  moreover have "is_ok (reject_floats (outcome_json oc))" for oc by (cases oc) simp_all
  ultimately have ev: "is_ok (reject_floats (event_json e))" for e
    using opt by (cases e) (auto simp: is_ok_iff digest_json_def u64_json_def)
  show "is_ok (evidence_text evidence_sample_host event_json e)" by (simp add: evidence_text_ok ev)
  show "is_ok (evidence_text evidence_sample_host unsigned_json r)"
    using ev [of "lr_event r"] unfolding evidence_text_ok
    by (auto simp: unsigned_json_def unsigned_fields_def is_ok_iff digest_json_def u64_json_def)
  show "is_ok (evidence_text evidence_sample_host witness_json w)"
    by (cases w) (simp add: evidence_text_ok witness_json_def digest_json_def u64_json_def)
qed

lemma sample_digests:
  "event_digest evidence_sample_host e = Ok evidence_sample_digest"
  "append_witness evidence_sample_host sid n m = Ok evidence_sample_digest"
  using sample_texts_ok(2) [of e] sample_texts_ok(3) [of "(sid, n, m)"]
  by (auto simp: event_digest_def append_witness_def is_ok_iff sha256_domain_digest_def evidence_sample_digest_def)

lemma sample_build:
  assumes "n \<in> {0, 1, 2}"
  shows "build_record evidence_sample_host sample_session key (sample_log n) (sample_event n) 0 (of_nat n)
    = Ok (sample_record n)"
proof -
  obtain u where "evidence_text evidence_sample_host unsigned_json \<lparr>lr_schema_version = EVIDENCE_SCHEMA_VERSION,
    lr_session_id = sample_session, lr_sequence = of_nat n, lr_observed_at_unix_ms = 0,
    lr_event = sample_event n, lr_previous_mac = next_previous_mac (sample_log n), lr_mac = GENESIS_MAC\<rparr> = Ok u"
    using sample_texts_ok(1) by (auto simp: is_ok_iff)
  then show ?thesis by (simp add: build_record_def sample_mac) (simp add: sample_previous sample_record_def)
qed

lemma sample_prepare:
  assumes "n \<in> {0, 1, 2}"
  shows "prepare_append evidence_sample_host sample_session key (sample_log n) (sample_event n) 0 =
    Ok (of_nat n, evidence_sample_digest, evidence_sample_digest, sample_line n)"
proof -
  have "n < MAX_RECORDS" "n \<in> {0, 1, 2, 3}" using assms by (auto simp: MAX_RECORDS_def)
  then show ?thesis using sample_replay [of n] sample_next [OF assms] sample_index [of n] sample_build [OF assms]
      sample_text(2) [OF assms]
    by (simp add: prepare_append_def ensure_record_capacity_def sample_digests)
qed

lemma sample_decode: "n \<in> {0, 1, 2, 3} \<Longrightarrow>
    decode_records evidence_sample_host sample_session key (sample_bytes n) = Ok (sample_log n)"
proof (induction n)
  case (Suc n)
  then have n: "n \<in> {0, 1, 2}" by auto
  have prep: "record_line evidence_sample_host (sample_record n) = Ok (sample_line n)" by (rule sample_text(2) [OF n])
  then have body: "evidence_text evidence_sample_host record_json (sample_record n) = Ok (butlast (sample_line n))"
    by (auto simp: record_line_def res_simps dest: sym)
  obtain u where u: "evidence_text evidence_sample_host unsigned_json (sample_record n) = Ok u"
    using sample_texts_ok(1) by (auto simp: is_ok_iff)
  have "decode_line evidence_sample_host sample_session key (length (sample_log n))
      (next_previous_mac (sample_log n)) (butlast (sample_line n)) = Ok (sample_record n)"
    using body record_text_nonempty [OF body] sample_parse [OF n] u sample_index [of n] n
    by (simp add: decode_line_Ok sample_mac sample_previous del: sample_host_simps(5))
      (auto simp: sample_record_def MAX_RECORDS_def)
  moreover have "decode_records evidence_sample_host sample_session key (sample_bytes n) = Ok (sample_log n)"
    using Suc by auto
  ultimately have "decode_records evidence_sample_host sample_session key (sample_bytes n @ sample_line n) =
      and_then (replay sample_session (sample_log n @ [sample_record n])) (\<lambda>_. Ok (sample_log n @ [sample_record n]))"
    using decode_snoc [OF _ _ prep] quote_line_literals by simp
  then show ?case using sample_replay [OF Suc.prems] by (simp add: sample_log_Suc) (simp add: sample_bytes_def)
qed (simp add: sample_bytes_def sample_log_def)

subsection \<open>Sample worlds\<close>

text \<open>The key is in place and the log holds the first records; the lock file is there or not.\<close>

definition sample_world :: "bool \<Rightarrow> nat \<Rightarrow> evidence_world" where
  "sample_world locked n = \<lparr>ew_phantom = (if locked then [KEY_FILE \<mapsto> ''k'', LOCK_FILE \<mapsto> []] else [KEY_FILE \<mapsto> ''k'']),
     ew_evidence = (if n = 0 then Map.empty else [log_name sample_session \<mapsto> sample_bytes n])\<rparr>"

lemma sample_bytes_length: "n \<le> 3 \<Longrightarrow> length (sample_bytes n) \<le> 9000"
  using sample_text(3) [of 0] sample_text(3) [of 1] sample_text(3) [of 2]
  by (auto simp: sample_bytes_def le_Suc_eq numeral_3_eq_3 numeral_2_eq_2)

lemma sample_lock: "acquire_lock calm_io (sample_world b n) = (Ok (), sample_world True n)"
  by (auto simp: acquire_lock_def calm_io_def sample_world_def fun_upd_twist)

lemma calm_reads [simp]: "io_clear (ei_key calm_io)" "io_clear (ei_log calm_io)" "io_clear (ei_receipt calm_io)"
  "verifiable calm_io" "unix_millis calm_io = Ok 0"
  by (simp_all add: calm_io_def calm_read_def io_clear_def verifiable_def opens_private_def unix_millis_def word_try_from_def)

lemma sample_load_key: "load_existing_key evidence_sample_host calm_io (sample_world True n) = Ok evidence_sample_key"
proof -
  have "read_private_file_bounded (ei_key calm_io) (ew_phantom (sample_world True n)) KEY_FILE MAX_KEY_BYTES = Ok ''k''"
    by (simp add: read_private_Ok sample_world_def MAX_KEY_BYTES_def)
  moreover have "valid_utf8 ''k''" by code_simp
  ultimately show ?thesis
    by (simp add: load_existing_key_def parse_key_def validated_integrity_key_def list_all_iff)
qed

lemma sample_load:
  assumes "n \<in> {0, 1, 2, 3}"
  shows "load_records evidence_sample_host (store_of sample_session) calm_io key (sample_world b n) = Ok (sample_log n)"
proof (cases "n = 0")
  case True
  then have "read_private_file_bounded (ei_log calm_io) (ew_evidence (sample_world b n)) (log_name sample_session)
      MAX_LOG_BYTES = Inl (Io NotFound)"
    by (simp add: read_private_missing sample_world_def calm_io_def calm_read_def)
  then show ?thesis using True by (simp add: load_records_def sample_log_def)
next
  case False
  have "length (sample_bytes n) \<le> MAX_LOG_BYTES" using sample_bytes_length [of n] assms by (auto simp: MAX_LOG_BYTES_def)
  then have "read_private_file_bounded (ei_log calm_io) (ew_evidence (sample_world b n)) (log_name sample_session)
      MAX_LOG_BYTES = Ok (sample_bytes n)"
    using False by (simp add: read_private_Ok sample_world_def)
  then show ?thesis using sample_decode [OF assms] by (simp add: load_records_def)
qed

lemma sample_append_line:
  assumes "n \<in> {0, 1, 2}"
  shows "append_line (store_of sample_session) calm_io (sample_line n) (sample_world True n) = (Ok (), sample_world True (Suc n))"
proof -
  have len: "\<not> MAX_LOG_BYTES < length (sample_bytes n) + length (sample_line n)"
    using sample_bytes_length [of n] sample_text(3) [OF assms] assms by (auto simp: MAX_LOG_BYTES_def)
  have bytes: "sample_bytes (Suc n) = sample_bytes n @ sample_line n" by (simp add: sample_bytes_def)
  show ?thesis using len
    by (cases "n = 0") (auto simp: append_line_def append_open_def open_file_def calm_io_def sample_world_def
        write_all_def bytes, simp add: sample_bytes_def)
qed

lemma sample_append_new:
  assumes "n \<in> {0, 1, 2}"
  shows "append_new evidence_sample_host (store_of sample_session) calm_io key (sample_log n) (sample_event n) 0
     (sample_world True n) = (Ok (of_nat n, evidence_sample_digest, evidence_sample_digest), sample_world True (Suc n))"
  using sample_prepare [OF assms] sample_append_line [OF assms] by (simp add: append_new_def)

lemma sample_append_once:
  assumes "n \<in> {0, 1, 2}"
  shows "append_once evidence_sample_host (store_of sample_session) calm_io (of_nat n) (sample_event n) (sample_world b n)
     = (Ok (AppendedNew (of_nat n) evidence_sample_digest evidence_sample_digest), sample_world True (Suc n))"
proof -
  have "n \<in> {0, 1, 2, 3}" "unat (of_nat n :: u64) = n" using assms by auto
  then show ?thesis using sample_load [of n] sample_append_new [OF assms]
    by (simp add: append_once_def sample_lock sample_load_key sample_digests)
qed

lemma sample_append_twice:
  assumes "n \<in> {0, 1, 2}"
  shows "append_once evidence_sample_host (store_of sample_session) calm_io (of_nat n) (sample_event n)
      (sample_world True (Suc n))
     = (Ok (AppendedExisting (of_nat n) evidence_sample_digest evidence_sample_digest), sample_world True (Suc n))"
proof -
  have "Suc n \<in> {0, 1, 2, 3}" "unat (of_nat n :: u64) = n" using assms by auto
  moreover have "lr_event (sample_log (Suc n) ! n) = sample_event n"
    by (simp add: sample_log_Suc nth_append sample_record_def)
  ultimately show ?thesis using sample_load [of "Suc n"]
    by (simp add: append_once_def sample_lock sample_load_key sample_digests)
qed

lemma sample_appended:
  assumes "n \<in> {0, 1, 2}"
  shows "evidence_append evidence_sample_host (store_of sample_session) calm_io (sample_event n) (sample_world b n)
     = (Ok (of_nat n), sample_world True (Suc n))"
proof -
  have "n \<in> {0, 1, 2, 3}" using assms by auto
  then show ?thesis using sample_load [of n] sample_append_new [OF assms]
    by (simp add: evidence_append_def append_internal_def sample_lock sample_load_key)
qed

lemma sample_leaves_ok:
  "is_ok (reject_floats (digest_json d))" "is_ok (reject_floats (JString t))" "is_ok (reject_floats (u64_json n))"
  "is_ok (reject_floats (denial_json a))" "is_ok (reject_floats (worker_json wr))"
  "is_ok (reject_floats (rollback_json rr))" "is_ok (reject_floats (outcome_json oc))"
proof -
  show "is_ok (reject_floats (denial_json a))" by (cases a) simp_all
  show "is_ok (reject_floats (worker_json wr))" by (cases wr) simp_all
  show "is_ok (reject_floats (rollback_json rr))" by (cases rr) simp_all
  show "is_ok (reject_floats (outcome_json oc))" by (cases oc) simp_all
qed (simp_all add: digest_json_def u64_json_def)

lemma sample_payload_ok: "is_ok (reject_floats (payload_json p))"
proof -
  have opt: "is_ok (reject_floats (optional_json f x))" if "\<And>y. is_ok (reject_floats (f y))" for f :: "'a \<Rightarrow> json" and x
    using that by (cases x) (simp_all add: optional_json_def)
  have "is_ok (reject_floats (totals_json t))" for t by (simp add: totals_json_def u64_json_def)
  then have "is_ok (reject_floats (summary_json sm))" for sm
    using opt [of "\<lambda>i. JString (workspace_id_str i)" "es_workspace_id sm"]
      opt [of "\<lambda>i. JString (action_id_str i)" "es_action_id sm"]
      opt [of "\<lambda>i. JString (grant_id_str i)" "es_grant_id sm"]
      opt [of "\<lambda>i. JString (lease_id_str i)" "es_lease_id sm"]
      opt [of digest_json "es_intent_digest sm"] opt [of digest_json "es_authority_digest sm"]
      opt [of digest_json "es_grant_digest sm"] opt [of digest_json "es_lease_digest sm"]
      opt [of digest_json "es_worker_result_digest sm"] opt [of digest_json "es_rollback_digest sm"]
      opt [of digest_json "es_final_outcome_digest sm"] opt [of denial_json "es_authority_denial sm"]
      opt [of worker_json "es_worker_result sm"] opt [of rollback_json "es_rollback_result sm"]
      opt [of outcome_json "es_final_outcome sm"] sample_leaves_ok
    by (simp add: summary_json_def is_ok_iff)
  then show ?thesis using sample_leaves_ok(1) [of "py_chain_head p"]
    by (simp add: payload_json_def is_ok_iff u64_json_def)
qed

lemma sample_rebuild: "\<exists>x. rebuild_unsigned_receipt evidence_sample_host sample_session key (sample_log 3) = Ok x
    \<and> sr_trust x = UnsignedUntrusted"
proof -
  let ?p = "\<lparr>py_schema_version = EVIDENCE_SCHEMA_VERSION, py_session_id = sample_session, py_event_count = 3,
    py_chain_head = lr_mac (last (sample_log 3)), py_summary = rp_summary (sample_state 3)\<rparr>"
  obtain b where "evidence_text evidence_sample_host payload_json ?p = Ok b"
    using sample_payload_ok [of ?p] evidence_text_ok [of evidence_sample_host payload_json ?p]
    by (auto simp: is_ok_iff)
  moreover have "sample_log 3 \<noteq> []" by (simp add: sample_log_def)
  moreover have "word_try_from 3 = Some (3 :: u64)" using sample_index [of 3] by simp
  ultimately show ?thesis using sample_replay [of 3] sample_final
    by (simp add: rebuild_unsigned_receipt_def Let_def sample_mac)
qed

lemma sample_receipt: "\<exists>r w. evidence_receipt evidence_sample_host (store_of sample_session) calm_io NoVerifiedSigner
    (sample_world True 3) = (Ok r, w)"
proof -
  obtain x where x: "rebuild_unsigned_receipt evidence_sample_host sample_session evidence_sample_key (sample_log 3) = Ok x"
    "sr_trust x = UnsignedUntrusted" using sample_rebuild by blast
  have "is_ok (reject_floats (receipt_json x))"
    using sample_payload_ok [of "sr_payload x"] sample_leaves_ok(1) x(2) by (simp add: receipt_json_def is_ok_iff)
  then obtain b where b: "canonical_bytes evidence_sample_host x = Ok b"
    using evidence_text_ok [of evidence_sample_host receipt_json x] by (auto simp: canonical_bytes_def is_ok_iff)
  have "\<exists>w. persist_receipt evidence_sample_host (store_of sample_session) calm_io x (sample_world True 3) = (Ok (), w)"
    using x(2) b
    by (simp add: persist_receipt_def write_receipt_def atomic_private_write_def open_file_def calm_io_def
        sample_world_def replace_file_def)
  then show ?thesis using sample_load [of 3] x(1)
    by (auto simp: evidence_receipt_def sample_lock sample_load_key)
qed

end
