(* ===== verification/Evidence_Claims.thy ===== *)
theory Evidence_Claims
  imports Evidence_Sample
begin

text \<open>
  What the evidence store promises: appended records stay where the append said, a retried append is
  recognised, the accepted histories are those of a session, and a receipt stays valid for good.
\<close>

subsection \<open>Appends\<close>

text \<open>
  C9. A retried append is recognised.  If \<open>append_once\<close> succeeded for sequence \<open>n\<close> and event \<open>e\<close>,
  then after any run of any handles, with failing calls and torn writes, a further success for \<open>n\<close> is
  for the same event, and reports the existing record with the same digest and witness.
\<close>

theorem append_once_recognised:
  assumes "line_literals (eh_escape h)"
    and "append_once h (store_of sid) io n e w = (Ok a, w1)"
    and "evidence_run h w1 w2"
    and "append_once h (store_of sid) io' n e' w2 = (Ok b, w3)"
  shows "e' = e \<and> b = as_existing a"
proof -
  obtain rs d wi where a: "log_holds h (log_bytes sid w1) rs" "log_entry h sid rs n e d wi"
    "as_existing a = AppendedExisting n d wi" using append_once_Ok [OF assms(2,1)] .
  obtain r1 w4 where lk: "acquire_lock io' w2 = (r1, w4)" by fastforce
  obtain key rs2 d2 where ld: "r1 = Ok ()" "load_existing_key h io' w4 = Ok key"
    "load_records h (store_of sid) io' key w4 = Ok rs2" "event_digest h e' = Ok d2"
    using assms(4) lk by (auto simp: append_once_def res_simps split: sum.splits)
  have "prefix rs rs2"
    using run_prefix [OF assms(1) a(1) assms(3)] records_held [OF ld(3)] acquire_lock_effect(5) [OF lk] by simp
  note entry = log_entry_prefix [OF a(2) this]
  note op = assms(4) [unfolded append_once_def lk prod.case ld sum.case and_then.simps Let_def]
  show ?thesis using op entry a(3) ld(4)
    by (auto simp: log_entry_def res_simps split: if_splits)
qed

theorem append_once_recognised_witness:
  "append_once evidence_sample_host (store_of sample_session) calm_io 0 (sample_event 0) (sample_world False 0)
     = (Ok (AppendedNew 0 evidence_sample_digest evidence_sample_digest), sample_world True 1)
   \<and> (\<exists>b w. append_once evidence_sample_host (store_of sample_session) calm_io 0 (sample_event 0) (sample_world True 1) = (Ok b, w)
        \<and> b = AppendedExisting 0 evidence_sample_digest evidence_sample_digest)"
proof -
  have h: "line_literals (eh_escape evidence_sample_host)" by (simp add: quote_line_literals)
  have a: "append_once evidence_sample_host (store_of sample_session) calm_io 0 (sample_event 0) (sample_world False 0)
     = (Ok (AppendedNew 0 evidence_sample_digest evidence_sample_digest), sample_world True 1)"
    using sample_append_once [of 0 False] by simp
  have r: "evidence_run evidence_sample_host (sample_world True 1) (sample_world True 1)" by (simp add: evidence_run_def)
  obtain b w where b: "append_once evidence_sample_host (store_of sample_session) calm_io 0 (sample_event 0) (sample_world True 1)
      = (Ok b, w)" using sample_append_twice [of 0] by simp
  show ?thesis using append_once_recognised [OF h a r b] a b by simp
qed

text \<open>
  C22. The log only grows at its end.  An append that succeeds on a log holding \<open>rs\<close> reports the index
  \<open>length rs\<close>, and whatever any run does afterwards, every later load starts with \<open>rs\<close> followed by
  the appended event.
\<close>

theorem evidence_append_only:
  assumes "line_literals (eh_escape h)"
    and "load_records h (store_of sid) io0 key0 w = Ok rs"
    and "evidence_append h (store_of sid) io e w = (Ok s, w1)"
    and "evidence_run h w1 w2"
    and "load_records h (store_of sid) io1 key1 w2 = Ok rs'"
  shows "unat s = length rs \<and> length rs < length rs' \<and> take (length rs) rs' = rs
    \<and> lr_event (rs' ! length rs) = e"
proof -
  obtain r1 w3 where lk: "acquire_lock io w = (r1, w3)" by fastforce
  obtain t key rs3 d wi where ld: "load_records h (store_of sid) io key w3 = Ok rs3"
    "append_new h (store_of sid) io key rs3 e t w3 = (Ok (s, d, wi), w1)"
    using assms(3) lk
    by (auto simp: evidence_append_def append_internal_def res_simps split: sum.splits prod.splits)
  have "log_bytes sid w3 = log_bytes sid w" using acquire_lock_effect(5) [OF lk] by simp
  then have "prefix rs rs3" "prefix rs3 rs"
    using records_held [OF ld(1)] records_held [OF assms(2)] holds_prefix [OF assms(1), of "log_bytes sid w" _ "[]"]
    by simp_all
  then have rs: "rs3 = rs" by (rule prefix_order.antisym [rotated])
  obtain rs4 where rs4: "log_holds h (log_bytes sid w1) rs4" "log_entry h sid rs4 s e d wi" "unat s = length rs"
    "prefix rs rs4" using append_new_holds [OF ld(2) records_held [OF ld(1)] assms(1)] rs by metis
  have "prefix rs4 rs'" using run_prefix [OF assms(1) rs4(1) assms(4)] records_held [OF assms(5)] by simp
  then show ?thesis using rs4(2,3,4)
    by (auto simp: log_entry_def prefix_def nth_append)
qed

theorem evidence_append_only_witness:
  "evidence_append evidence_sample_host (store_of sample_session) calm_io (sample_event 1) (sample_world True 1)
     = (Ok 1, sample_world True 2)
   \<and> load_records evidence_sample_host (store_of sample_session) calm_io evidence_sample_key (sample_world True 2) = Ok (sample_log 2)
   \<and> lr_event (sample_log 2 ! 1) = sample_event 1"
proof -
  have h: "line_literals (eh_escape evidence_sample_host)" by (simp add: quote_line_literals)
  have l1: "load_records evidence_sample_host (store_of sample_session) calm_io evidence_sample_key (sample_world True 1) = Ok (sample_log 1)"
    by (rule sample_load) simp
  have l2: "load_records evidence_sample_host (store_of sample_session) calm_io evidence_sample_key (sample_world True 2) = Ok (sample_log 2)"
    by (rule sample_load) simp
  have a: "evidence_append evidence_sample_host (store_of sample_session) calm_io (sample_event 1) (sample_world True 1)
     = (Ok 1, sample_world True 2)" using sample_appended [of 1 True] by (simp add: numeral_2_eq_2)
  have r: "evidence_run evidence_sample_host (sample_world True 2) (sample_world True 2)" by (simp add: evidence_run_def)
  show ?thesis using evidence_append_only [OF h l1 a r l2] a l2 by simp
qed

subsection \<open>Histories\<close>

text \<open>
  C20. The logs that replay to a finalized session are exactly these: the records belong to the session
  and are numbered from zero, their times never go back, and the events are one denied or one granted
  session -- start, decision, and for a granted one the lease of that grant, the uses of that lease, the
  worker's result, the rollback and an outcome that fits both -- whose totals fit 64 bits.  The summary
  is the one read off that history.
\<close>

theorem accepted_histories:
  "(\<exists>st. replay sid rs = Ok st \<and> rp_finalized st \<and> rp_summary st = sm) \<longleftrightarrow>
     numbered_from sid 0 rs \<and> sorted (map lr_observed_at_unix_ms rs) \<and> history (map lr_event rs) sm"
proof -
  have "rp_last_timestamp replay_default = None" by (simp add: replay_default_def)
  then show ?thesis using replay_concludes [of sid 0 replay_default rs sm]
    by (simp add: replay_def concludes_history later_def)
qed

subsection \<open>Receipts\<close>

text \<open>
  C10. A receipt stays valid.  Once a receipt was issued for a session, no run of any handles changes
  the session's log again, and a verification whose calls succeed accepts exactly the receipts with
  the payload, the digest and the code of the one issued.
\<close>

theorem receipt_stays_valid:
  assumes "evidence_receipt h (store_of sid) io boundary w = (Ok r, w1)"
    and "evidence_run h w1 w2" and "verifiable io'"
  shows "log_bytes sid w2 = log_bytes sid w1
    \<and> verify_local_receipt h (store_of sid) io' y w2 = (if same_evidence y r then Ok () else Err Tampered)"
proof -
  obtain x where x: "receipt_basis h sid w1 x" "same_evidence r x" using receipt_Ok [OF assms(1)] .
  have "same_evidence y x \<longleftrightarrow> same_evidence y r" using x(2) by (auto simp: same_evidence_def)
  then show ?thesis using basis_run [OF x(1) assms(2)] basis_verifies [OF _ assms(3), of h sid w2 x y]
    by auto
qed

theorem receipt_stays_valid_witness:
  "\<exists>r w. evidence_receipt evidence_sample_host (store_of sample_session) calm_io NoVerifiedSigner (sample_world True 3) = (Ok r, w)
    \<and> verify_local_receipt evidence_sample_host (store_of sample_session) calm_io r w = Ok ()
    \<and> verify_local_receipt evidence_sample_host (store_of sample_session) calm_io
        (r\<lparr>sr_payload := (sr_payload r)\<lparr>py_event_count := py_event_count (sr_payload r) + 1\<rparr>\<rparr>) w = Err Tampered"
proof -
  obtain r w where r: "evidence_receipt evidence_sample_host (store_of sample_session) calm_io NoVerifiedSigner
    (sample_world True 3) = (Ok r, w)" using sample_receipt by blast
  have run: "evidence_run evidence_sample_host w w" by (simp add: evidence_run_def)
  let ?r = "r\<lparr>sr_payload := (sr_payload r)\<lparr>py_event_count := py_event_count (sr_payload r) + 1\<rparr>\<rparr>"
  have "\<not> same_evidence ?r r"
    by (cases "sr_payload r") (auto simp: same_evidence_def)
  then have "verify_local_receipt evidence_sample_host (store_of sample_session) calm_io r w = Ok ()"
    "verify_local_receipt evidence_sample_host (store_of sample_session) calm_io ?r w = Err Tampered"
    using receipt_stays_valid [OF r run calm_reads(4)] same_evidence_equiv(1) [of r] by simp_all
  with r show ?thesis by (intro exI [of _ r] exI [of _ w]) simp
qed

text \<open>
  C26. A receipt tells the session's story.  The payload of an issued receipt counts the records of
  the log, names the code of the last one, and its summary is that of a complete history of exactly
  the events of the log.
\<close>

theorem receipt_tells_history:
  assumes "evidence_receipt h (store_of sid) io boundary w = (Ok r, w1)"
  shows "\<exists>rs. log_holds h (log_bytes sid w1) rs \<and> history (map lr_event rs) (py_summary (sr_payload r))
    \<and> py_event_count (sr_payload r) = of_nat (length rs) \<and> py_chain_head (sr_payload r) = lr_mac (last rs)
    \<and> py_session_id (sr_payload r) = sid"
proof -
  obtain x where x: "receipt_basis h sid w1 x" "same_evidence r x" using receipt_Ok [OF assms] .
  then obtain key rs where rs: "decode_records h sid key (log_bytes sid w1) = Ok rs"
    "rebuild_unsigned_receipt h sid key rs = Ok x" by (auto simp: receipt_basis_def)
  obtain st where st: "replay sid rs = Ok st" "rp_finalized st"
    "sr_payload x = \<lparr>py_schema_version = EVIDENCE_SCHEMA_VERSION, py_session_id = sid,
       py_event_count = of_nat (length rs), py_chain_head = lr_mac (last rs), py_summary = rp_summary st\<rparr>"
    using rebuild_Ok [OF rs(2)] by metis
  have "sr_payload r = sr_payload x" using x(2) by (simp add: same_evidence_def)
  then show ?thesis
    using finalized_history [OF st(1,2)] decode_records_holds [OF rs(1)] st(3) by auto
qed

theorem receipt_tells_history_witness:
  "\<exists>r w sm. evidence_receipt evidence_sample_host (store_of sample_session) calm_io NoVerifiedSigner (sample_world True 3) = (Ok r, w)
    \<and> py_session_id (sr_payload r) = sample_session \<and> sm = py_summary (sr_payload r)
    \<and> (\<exists>rs :: log_record list. history (map lr_event rs) sm)"
proof -
  obtain r w where r: "evidence_receipt evidence_sample_host (store_of sample_session) calm_io NoVerifiedSigner
    (sample_world True 3) = (Ok r, w)" using sample_receipt by blast
  obtain rs :: "log_record list" where "history (map lr_event rs) (py_summary (sr_payload r))"
    "py_session_id (sr_payload r) = sample_session"
    using receipt_tells_history [OF r] by blast
  then show ?thesis using r by (intro exI [of _ r] exI [of _ w] exI [of _ "py_summary (sr_payload r)"]) auto
qed

subsection \<open>Torn appends\<close>

text \<open>
  C21. What a torn append leaves.  The line of an append was written to the log up to \<open>k\<close> bytes.  If
  nothing was written the log still holds \<open>rs\<close>; if a part was, every load reports the truncation; and
  if all of it was, the log holds the new record after \<open>rs\<close>, unless replaying the event overflows the
  totals.
\<close>

theorem torn_append_outcome:
  assumes "line_literals (eh_escape h)" and "codes_decode h"
    and "decode_records h sid key b = Ok rs" and "replay sid rs = Ok st"
    and "prepare_append h sid key rs e t = Ok (s, d, wi, l)"
    and "build_record h sid key rs e t s = Ok r" and "eh_record_from_slice h (butlast l) = Some r"
  shows "decode_records h sid key (b @ take k l) =
    (if k = 0 then Ok rs else if k < length l then Err Truncated
     else and_then (apply_next st e t) (\<lambda>_. Ok (rs @ [r])))"
proof -
  obtain st' where p: "length rs < MAX_RECORDS" "word_try_from (length rs) = Some s" "record_line h r = Ok l"
    using prepare_append_Ok [OF assms(5)] assms(6) by (metis sum.inject(2))
  obtain x where x: "evidence_text h record_json r = Ok x" "l = x @ [LINE_FEED]"
    using p(3) by (auto simp: record_line_def res_simps)
  note r = build_record_Ok [OF assms(6)]
  have "x \<noteq> []" by (rule record_text_nonempty [OF x(1)])
  then have line: "decode_line h sid key (length rs) (next_previous_mac rs) (butlast l) = Ok r"
    using x assms(7) p(1,2) r compute_verifies [OF assms(2)] by (auto simp: decode_line_Ok)
  note holds = decode_records_holds [OF assms(3)]
  consider "k = 0" | "0 < k" "k < length l" | "length l \<le> k" "k \<noteq> 0" by linarith
  then show ?thesis
  proof cases
    case 1
    then show ?thesis using assms(3) by simp
  next
    case 2
    then have "\<not> whole_lines (b @ take k l)" using holds_torn [OF holds p(3) assms(1)] by blast
    then show ?thesis using 2 by (simp add: decode_records_def whole_lines_def)
  next
    case 3
    then show ?thesis using decode_snoc [OF assms(3,1) p(3) line] replay_snoc [OF assms(4)] p(2) r x(2)
      by auto
  qed
qed

theorem torn_append_outcome_witness:
  "decode_records evidence_sample_host sample_session evidence_sample_key (sample_bytes 1 @ take 5 (sample_line 1)) = Err Truncated
   \<and> decode_records evidence_sample_host sample_session evidence_sample_key (sample_bytes 1 @ sample_line 1)
      = Ok (sample_log 1 @ [sample_record 1])"
proof -
  have h: "line_literals (eh_escape evidence_sample_host)" "codes_decode evidence_sample_host"
    by (simp_all add: quote_line_literals codes_decode_def)
  have d: "decode_records evidence_sample_host sample_session evidence_sample_key (sample_bytes 1) = Ok (sample_log 1)"
    "replay sample_session (sample_log 1) = Ok (sample_state 1)"
    using sample_decode [of 1] sample_replay [of 1] by simp_all
  note p = sample_prepare [of 1 evidence_sample_key] sample_build [of 1 evidence_sample_key] sample_parse [of 1]
  note outcome = torn_append_outcome [OF h d p(1) p(2) p(3)]
  have "\<exists>st. apply_next (sample_state 1) (sample_event 1) 0 = Ok st"
    using sample_next [of 1] by (simp add: apply_next_def)
  moreover have "5 < length (sample_line 1)" by code_simp
  ultimately show ?thesis using outcome [of 5] outcome [of "length (sample_line 1)"] by auto
qed

text \<open>
  An instance of the overflow: a use that counts all requests a 64-bit number can hold was recorded, the
  check of an append accepts the next use, and replaying it overflows.
\<close>

definition overflow_event :: "nat \<Rightarrow> evidence_event" where
  "overflow_event n = [SessionStarted (WorkspaceId ''wsp_1'') (ActionId ''act_1'') evidence_sample_digest,
     AuthorityDecision (Granted evidence_sample_digest (GrantId ''gra_1'') evidence_sample_digest),
     LeaseBound (GrantId ''gra_1'') evidence_sample_digest (LeaseId ''lea_1'') evidence_sample_digest,
     ProxyUseAggregate (LeaseId ''lea_1'') (- 1) 0 0 0 0,
     ProxyUseAggregate (LeaseId ''lea_1'') 1 0 0 0 0] ! n"

definition overflow_log :: "log_record list" where
  "overflow_log = map (\<lambda>i. (sample_record i)\<lparr>lr_event := overflow_event i\<rparr>) [0, 1, 2, 3]"

lemma overflow_accepted:
  "case replay sample_session overflow_log of
     Inl x \<Rightarrow> False
   | Inr st \<Rightarrow> validate_next st (overflow_event 4) 0 = Ok ()
       \<and> apply_next st (overflow_event 4) 0 = Err AggregateOverflow"
  by code_simp

end
