(* ===== verification/Credential_Redact.thy ===== *)
theory Credential_Redact
  imports Response_Buffered "HOL-Library.Product_Lexorder"
begin

text \<open>
  \<open>phantom-core/src/redact/mod.rs\<close> and the index of \<open>response.rs\<close>: the credential shapes of logs and
  of staged code, the scans for them, the spans that a log redactor scrubs and the scrubbing of a
  text.  Slicing a text off a character boundary is a panic, so redaction returns an option.
\<close>

subsection \<open>The catalog\<close>

record credential_pattern =
  cp_prefix :: string
  cp_label :: string
  cp_min_tail :: nat
  cp_upper_alnum_only :: bool

definition CREDENTIAL_PATTERNS :: "credential_pattern list" where
  "CREDENTIAL_PATTERNS =
     [\<lparr>cp_prefix = ''sk-'', cp_label = ''OpenAI API key'', cp_min_tail = 20, cp_upper_alnum_only = False\<rparr>,
      \<lparr>cp_prefix = ''sk_live_'', cp_label = ''Stripe live key'', cp_min_tail = 16, cp_upper_alnum_only = False\<rparr>,
      \<lparr>cp_prefix = ''sk_test_'', cp_label = ''Stripe test key'', cp_min_tail = 16, cp_upper_alnum_only = False\<rparr>,
      \<lparr>cp_prefix = ''ghp_'', cp_label = ''GitHub personal token'', cp_min_tail = 30, cp_upper_alnum_only = False\<rparr>,
      \<lparr>cp_prefix = ''github_pat_'', cp_label = ''GitHub PAT'', cp_min_tail = 30, cp_upper_alnum_only = False\<rparr>,
      \<lparr>cp_prefix = ''glpat-'', cp_label = ''GitLab PAT'', cp_min_tail = 20, cp_upper_alnum_only = False\<rparr>,
      \<lparr>cp_prefix = ''xoxb-'', cp_label = ''Slack bot token'', cp_min_tail = 20, cp_upper_alnum_only = False\<rparr>,
      \<lparr>cp_prefix = ''xoxp-'', cp_label = ''Slack user token'', cp_min_tail = 20, cp_upper_alnum_only = False\<rparr>,
      \<lparr>cp_prefix = ''AKIA'', cp_label = ''AWS access key'', cp_min_tail = 16, cp_upper_alnum_only = True\<rparr>,
      \<lparr>cp_prefix = ''xapp-'', cp_label = ''Slack app token'', cp_min_tail = 20, cp_upper_alnum_only = False\<rparr>,
      \<lparr>cp_prefix = ''xoxa-'', cp_label = ''Slack app token'', cp_min_tail = 20, cp_upper_alnum_only = False\<rparr>,
      \<lparr>cp_prefix = ''xoxs-'', cp_label = ''Slack session token'', cp_min_tail = 20, cp_upper_alnum_only = False\<rparr>,
      \<lparr>cp_prefix = ''xoxr-'', cp_label = ''Slack refresh token'', cp_min_tail = 20, cp_upper_alnum_only = False\<rparr>,
      \<lparr>cp_prefix = ''gho_'', cp_label = ''GitHub OAuth token'', cp_min_tail = 30, cp_upper_alnum_only = False\<rparr>,
      \<lparr>cp_prefix = ''ghu_'', cp_label = ''GitHub user token'', cp_min_tail = 30, cp_upper_alnum_only = False\<rparr>,
      \<lparr>cp_prefix = ''ghs_'', cp_label = ''GitHub installation token'', cp_min_tail = 30, cp_upper_alnum_only = False\<rparr>,
      \<lparr>cp_prefix = ''ghr_'', cp_label = ''GitHub refresh token'', cp_min_tail = 30, cp_upper_alnum_only = False\<rparr>,
      \<lparr>cp_prefix = ''ASIA'', cp_label = ''AWS temporary access key'', cp_min_tail = 16, cp_upper_alnum_only = True\<rparr>,
      \<lparr>cp_prefix = ''sk_'', cp_label = ''Secret API key'', cp_min_tail = 16, cp_upper_alnum_only = False\<rparr>,
      \<lparr>cp_prefix = ''pk_'', cp_label = ''Publishable API key'', cp_min_tail = 16, cp_upper_alnum_only = False\<rparr>,
      \<lparr>cp_prefix = ''rk_'', cp_label = ''Restricted API key'', cp_min_tail = 16, cp_upper_alnum_only = False\<rparr>,
      \<lparr>cp_prefix = ''whsec_'', cp_label = ''Webhook signing secret'', cp_min_tail = 16, cp_upper_alnum_only = False\<rparr>,
      \<lparr>cp_prefix = ''shpat_'', cp_label = ''Shopify access token'', cp_min_tail = 16, cp_upper_alnum_only = False\<rparr>,
      \<lparr>cp_prefix = ''Bearer '', cp_label = ''Bearer credential'', cp_min_tail = 1, cp_upper_alnum_only = False\<rparr>]"

record credential_match =
  cm_pattern :: credential_pattern
  cm_span :: "nat \<times> nat"

definition tail_byte :: "credential_pattern \<Rightarrow> char \<Rightarrow> bool" where
  "tail_byte pattern b =
     (if cp_upper_alnum_only pattern then is_ascii_uppercase b \<or> is_ascii_digit b
      else is_ascii_alphanumeric b \<or> b = CHR ''_'' \<or> b = CHR ''-''
        \<or> (cp_prefix pattern = ''Bearer '' \<and> b \<in> set ''.+/=~''))"

text \<open>\<open>Iterator::min_by_key\<close> on the length of the prefix: the first of the shortest.\<close>

fun min_by_prefix_len :: "credential_pattern list \<Rightarrow> credential_pattern option" where
  "min_by_prefix_len [] = None"
| "min_by_prefix_len (p # ps) =
     (case min_by_prefix_len ps of
        None \<Rightarrow> Some p
      | Some q \<Rightarrow> if length (cp_prefix q) < length (cp_prefix p) then Some q else Some p)"

definition known_value_prefix :: "string \<Rightarrow> string option" where
  "known_value_prefix value' =
     map_option cp_prefix (min_by_prefix_len
       (filter (\<lambda>p. cp_prefix p \<noteq> ''ASIA''
            \<or> cp_min_tail p \<le> length (takeWhile (tail_byte p) (drop (length (cp_prefix p)) value')))
         (filter (\<lambda>p. starts_with value' (cp_prefix p)) CREDENTIAL_PATTERNS)))"

subsection \<open>The scan\<close>

text \<open>The table that the loop over the catalog fills: entry by first byte, in catalog order.\<close>

definition index_by_first_byte :: "('a \<Rightarrow> string) \<Rightarrow> 'a list \<Rightarrow> char \<Rightarrow> 'a list" where
  "index_by_first_byte prefix_of catalog =
     fold (\<lambda>x index. index (prefix_of x ! 0 := index (prefix_of x ! 0) @ [x])) catalog (\<lambda>_. [])"

definition patterns_by_first_byte :: "char \<Rightarrow> credential_pattern list" where
  "patterns_by_first_byte = index_by_first_byte cp_prefix CREDENTIAL_PATTERNS"

definition specs_by_first_byte :: "char \<Rightarrow> format_spec list" where
  "specs_by_first_byte = index_by_first_byte fs_prefix FORMAT_SPECS"

abbreviation name_byte :: "char \<Rightarrow> bool" where
  "name_byte b \<equiv> is_ascii_digit b \<or> is_ascii_uppercase b"

text \<open>The inner loop at one position: the match, if any, and the next position.\<close>

fun try_patterns :: "string \<Rightarrow> bool \<Rightarrow> nat \<Rightarrow> credential_pattern list \<Rightarrow> credential_match option \<times> nat" where
  "try_patterns input code start [] = (None, start + 1)"
| "try_patterns input code start (pattern # patterns) =
     (if code \<and> cp_prefix pattern = ''Bearer '' then try_patterns input code start patterns
      else if \<not> starts_with (drop start input) (cp_prefix pattern) then try_patterns input code start patterns
      else
        let tail_start = start + length (cp_prefix pattern);
            tail = takeWhile (tail_byte pattern) (drop tail_start input);
            end' = tail_start + length tail
        in if length tail < cp_min_tail pattern then try_patterns input code start patterns
           else if code \<and> \<not> list_ex name_byte tail then (None, end')
           else (Some \<lparr>cm_pattern = pattern, cm_span = (start, end')\<rparr>, end'))"

text \<open>The finished table, for evaluation too.\<close>

lemma index_by_first_byte_filter [code]: "index_by_first_byte f xs b = filter (\<lambda>x. f x ! 0 = b) xs"
proof -
  have "fold (\<lambda>x index. index (f x ! 0 := index (f x ! 0) @ [x])) xs g b = g b @ filter (\<lambda>x. f x ! 0 = b) xs" for g
    by (induction xs arbitrary: g) auto
  then show ?thesis by (simp add: index_by_first_byte_def)
qed

lemma patterns_nonempty: "p \<in> set CREDENTIAL_PATTERNS \<Longrightarrow> cp_prefix p \<noteq> []"
  by (auto simp: CREDENTIAL_PATTERNS_def)

lemma try_patterns_next:
  "\<forall>p \<in> set ps. cp_prefix p \<noteq> [] \<Longrightarrow> start < snd (try_patterns input code start ps)"
  by (induction ps) (auto simp: Let_def)

lemma bucket_next: "start < snd (try_patterns input code start (patterns_by_first_byte b))"
  by (rule try_patterns_next) (auto simp: patterns_by_first_byte_def index_by_first_byte_filter patterns_nonempty)

function matches_from :: "string \<Rightarrow> bool \<Rightarrow> nat \<Rightarrow> credential_match list" where
  "matches_from input code start =
     (if \<not> start < length input then []
      else if 0 < start \<and> is_ascii_alphanumeric (input ! (start - 1)) then matches_from input code (start + 1)
      else case try_patterns input code start (patterns_by_first_byte (input ! start)) of
          (None, next') \<Rightarrow> matches_from input code next'
        | (Some m, next') \<Rightarrow> m # matches_from input code next')"
  by pat_completeness auto
termination
  by (relation "measure (\<lambda>(input, _, start). length input - start)")
    (auto dest!: arg_cong [where f = snd] intro!: diff_less_mono2 bucket_next)

declare matches_from.simps [simp del]

definition matches :: "string \<Rightarrow> bool \<Rightarrow> credential_match list" where
  "matches input code = matches_from input code 0"

subsection \<open>Spans\<close>

definition format_spans :: "string \<Rightarrow> (nat \<times> nat) list" where
  "format_spans input = concat (map (\<lambda>cursor.
     List.map_filter (\<lambda>spec. map_option (\<lambda>len. (cursor, cursor + len))
         (complete_prefix_len spec (drop cursor input)))
       (specs_by_first_byte (input ! cursor))) [0..<length input])"

fun merge_span :: "(nat \<times> nat) list \<Rightarrow> nat \<times> nat \<Rightarrow> (nat \<times> nat) list" where
  "merge_span merged (start, end') =
     (if merged \<noteq> [] \<and> start \<le> snd (last merged)
      then butlast merged @ [(fst (last merged), max (snd (last merged)) end')]
      else merged @ [(start, end')])"

definition credential_spans :: "string \<Rightarrow> (nat \<times> nat) list" where
  "credential_spans input =
     foldl merge_span [] (sort (map cm_span (matches input False) @ format_spans input))"

text \<open>\<open>&input[a..b]\<close> on a \<open>str\<close>.\<close>

definition str_slice :: "string \<Rightarrow> nat \<Rightarrow> nat \<Rightarrow> string option" where
  "str_slice input a b =
     (if a \<le> b \<and> b \<le> length input \<and> is_char_boundary input a \<and> is_char_boundary input b
      then Some (slice a b input) else None)"

fun redact_spans :: "string \<Rightarrow> (nat \<times> nat) list \<Rightarrow> nat \<Rightarrow> string \<Rightarrow> string option" where
  "redact_spans input [] copied output =
     map_option (\<lambda>rest. output @ rest) (str_slice input copied (length input))"
| "redact_spans input ((start, end') # spans) copied output =
     (case str_slice input copied start of
        None \<Rightarrow> None
      | Some kept \<Rightarrow> redact_spans input spans end' (output @ kept @ ''[REDACTED]''))"

datatype cow_text = Borrowed string | Owned string

fun cow_str :: "cow_text \<Rightarrow> string" where
  "cow_str (Borrowed s) = s"
| "cow_str (Owned s) = s"

definition redact_text :: "string \<Rightarrow> cow_text option" where
  "redact_text input =
     (let spans = credential_spans input in
      if spans = [] then Some (Borrowed input)
      else map_option Owned (redact_spans input spans 0 []))"

subsection \<open>Code policies\<close>

definition code_credential_matches :: "string \<Rightarrow> credential_match list" where
  "code_credential_matches input = matches input True"

definition staged_code_patterns :: "credential_pattern list" where
  "staged_code_patterns = take 9 CREDENTIAL_PATTERNS"

text \<open>The loop that extends the cached tail: its end and its last byte that is no identifier byte.\<close>

fun key_run :: "credential_pattern \<Rightarrow> nat \<Rightarrow> string \<Rightarrow> nat option \<Rightarrow> nat \<times> nat option" where
  "key_run pattern run_end [] last_key = (run_end, last_key)"
| "key_run pattern run_end (b # rest) last_key =
     (if tail_byte pattern b
      then key_run pattern (run_end + 1) rest (if name_byte b then Some run_end else last_key)
      else (run_end, last_key))"

fun staged_step :: "string \<Rightarrow> credential_pattern \<Rightarrow> nat
    \<Rightarrow> nat \<times> nat option \<times> credential_match list \<Rightarrow> nat \<times> nat option \<times> credential_match list" where
  "staged_step input pattern start (run_end, last_key, found) =
     (if (0 < start \<and> is_ascii_alphanumeric (input ! (start - 1)))
         \<or> \<not> starts_with (drop start input) (cp_prefix pattern)
      then (run_end, last_key, found)
      else
        let tail_start = start + length (cp_prefix pattern);
            (run_end', last_key') =
              (if run_end < tail_start then key_run pattern tail_start (drop tail_start input) None
               else (run_end, last_key));
            len = run_end' - tail_start
        in (run_end', last_key',
            if cp_min_tail pattern \<le> len \<and> (case last_key' of None \<Rightarrow> False | Some index \<Rightarrow> tail_start \<le> index)
            then found @ [\<lparr>cm_pattern = pattern, cm_span = (start, tail_start + len)\<rparr>] else found))"

definition staged_family :: "string \<Rightarrow> credential_pattern \<Rightarrow> credential_match list \<Rightarrow> credential_match list" where
  "staged_family input pattern found =
     snd (snd (fold (staged_step input pattern) [0..<length input] (0, None, found)))"

definition staged_code_credential_matches :: "string \<Rightarrow> credential_match list" where
  "staged_code_credential_matches input = fold (staged_family input) staged_code_patterns []"

end
