(* ===== verification/Redact_Facts.thy ===== *)
theory Redact_Facts
  imports Credential_Redact
begin

text \<open>
  Lemmas on \<open>Credential_Redact\<close>: where the scan of a log finds a credential, what coalescing keeps,
  why redaction slices only at character boundaries, and what the cache of the staged scan holds.
\<close>

subsection \<open>Credentials of the log policy\<close>

text \<open>A credential shape at a position: after a byte that is no letter or digit, the whole run.\<close>

definition at_boundary :: "string \<Rightarrow> nat \<Rightarrow> bool" where
  "at_boundary input start \<longleftrightarrow> start = 0 \<or> \<not> is_ascii_alphanumeric (input ! (start - 1))"

definition tail_of :: "credential_pattern \<Rightarrow> string \<Rightarrow> nat \<Rightarrow> string" where
  "tail_of p input start = takeWhile (tail_byte p) (drop (start + length (cp_prefix p)) input)"

definition end_of :: "credential_pattern \<Rightarrow> string \<Rightarrow> nat \<Rightarrow> nat" where
  "end_of p input start = start + length (cp_prefix p) + length (tail_of p input start)"

definition credential_at :: "credential_pattern \<Rightarrow> string \<Rightarrow> nat \<Rightarrow> bool" where
  "credential_at p input start \<longleftrightarrow> p \<in> set CREDENTIAL_PATTERNS \<and> start < length input
     \<and> at_boundary input start \<and> starts_with (drop start input) (cp_prefix p)
     \<and> cp_min_tail p \<le> length (tail_of p input start)"

lemma bucket_set:
  "start < length input \<Longrightarrow> starts_with (drop start input) (cp_prefix p) \<Longrightarrow> p \<in> set CREDENTIAL_PATTERNS
     \<Longrightarrow> p \<in> set (patterns_by_first_byte (input ! start))"
  using patterns_nonempty [of p]
  by (cases "cp_prefix p") (auto simp: patterns_by_first_byte_def index_by_first_byte_filter prefix_def
      Cons_nth_drop_Suc [symmetric])

text \<open>Looking only at the bucket of the first byte is looking at the whole catalog.\<close>

lemma try_patterns_filter:
  assumes "start < length input" and "\<forall>p \<in> set ps. cp_prefix p \<noteq> []"
  shows "try_patterns input code start (filter (\<lambda>p. cp_prefix p ! 0 = input ! start) ps)
    = try_patterns input code start ps"
  using assms(2)
proof (induction ps)
  case (Cons p ps)
  have "cp_prefix p ! 0 = input ! start" if "starts_with (drop start input) (cp_prefix p)"
    using that Cons(2) assms(1)
    by (cases "cp_prefix p") (auto simp: prefix_def Cons_nth_drop_Suc [symmetric])
  then show ?case using Cons by (auto simp: Let_def)
qed simp

lemma try_patterns_index:
  "start < length input \<Longrightarrow>
     try_patterns input code start (patterns_by_first_byte (input ! start))
       = try_patterns input code start CREDENTIAL_PATTERNS"
  by (simp add: patterns_by_first_byte_def index_by_first_byte_filter try_patterns_filter patterns_nonempty)

lemma try_patterns_log:
  "try_patterns input False start ps =
     (case find (\<lambda>p. starts_with (drop start input) (cp_prefix p)
            \<and> cp_min_tail p \<le> length (tail_of p input start)) ps of
        None \<Rightarrow> (None, start + 1)
      | Some p \<Rightarrow> (Some \<lparr>cm_pattern = p, cm_span = (start, end_of p input start)\<rparr>, end_of p input start))"
  by (induction ps) (auto simp: Let_def tail_of_def end_of_def)

lemma end_of_after: "p \<in> set CREDENTIAL_PATTERNS \<Longrightarrow> start < end_of p input start"
  using patterns_nonempty [of p] by (simp add: end_of_def)

lemma end_of_bound:
  "credential_at p input start \<Longrightarrow> end_of p input start \<le> length input"
proof -
  assume "credential_at p input start"
  then have "start < length input" "prefix (cp_prefix p) (drop start input)" by (auto simp: credential_at_def)
  from this(2) have "length (cp_prefix p) \<le> length input - start" using prefix_length_le by fastforce
  then show ?thesis using \<open>start < length input\<close>
      length_takeWhile_le [of "tail_byte p" "drop (start + length (cp_prefix p)) input"]
    by (simp add: end_of_def tail_of_def)
qed

definition match_at :: "credential_pattern \<Rightarrow> string \<Rightarrow> nat \<Rightarrow> credential_match" where
  "match_at p input start = \<lparr>cm_pattern = p, cm_span = (start, end_of p input start)\<rparr>"

lemma log_step:
  assumes "start < length input" and "at_boundary input start"
  obtains (found) p where "credential_at p input start" and "start < end_of p input start"
      and "matches_from input False start = match_at p input start # matches_from input False (end_of p input start)"
    | (none) "\<And>p. \<not> credential_at p input start"
      and "matches_from input False start = matches_from input False (start + 1)"
proof -
  let ?Q = "\<lambda>p. starts_with (drop start input) (cp_prefix p) \<and> cp_min_tail p \<le> length (tail_of p input start)"
  have eq: "matches_from input False start
      = (case try_patterns input False start CREDENTIAL_PATTERNS of
          (None, next') \<Rightarrow> matches_from input False next'
        | (Some m, next') \<Rightarrow> m # matches_from input False next')"
    using assms try_patterns_index [OF assms(1)]
    by (subst matches_from.simps) (auto simp: at_boundary_def)
  show thesis
  proof (cases "find ?Q CREDENTIAL_PATTERNS")
    case None
    then have "\<not> credential_at p input start" for p by (auto simp: find_None_iff credential_at_def)
    then show thesis using none eq None by (simp add: try_patterns_log)
  next
    case (Some p)
    then have "credential_at p input start" using assms by (auto simp: find_Some_iff credential_at_def)
    then show thesis using found [of p] end_of_after [of p start input] eq Some
      by (simp add: try_patterns_log match_at_def credential_at_def)
  qed
qed

lemma log_skip: "start < length input \<Longrightarrow> \<not> at_boundary input start \<Longrightarrow>
    matches_from input False start = matches_from input False (start + 1)"
  by (subst matches_from.simps) (simp add: at_boundary_def)

lemma log_end: "\<not> start < length input \<Longrightarrow> matches_from input False start = []"
  by (subst matches_from.simps) simp

lemma log_matches_are:
  "m \<in> set (matches_from input False start) \<Longrightarrow> \<exists>p s. credential_at p input s \<and> m = match_at p input s"
proof (induction "length input - start" arbitrary: start rule: less_induct)
  case less
  have st: "start < length input" using less(2) log_end by fastforce
  show ?case
  proof (cases "at_boundary input start")
    case True
    from st True show ?thesis
    proof (cases rule: log_step)
      case (found p)
      then show ?thesis using less(1) [of "end_of p input start"] less(2) st by auto
    next
      case none
      then show ?thesis using less(1) [of "start + 1"] less(2) st by auto
    qed
  next
    case False
    then show ?thesis using less(1) [of "start + 1"] less(2) st log_skip [OF st False] by auto
  qed
qed

lemma log_matches_cover:
  assumes "credential_at p input i" and "start \<le> i"
  shows "\<exists>q s. match_at q input s \<in> set (matches_from input False start)
    \<and> credential_at q input s \<and> s \<le> i \<and> i < end_of q input s"
  using assms(2)
proof (induction "length input - start" arbitrary: start rule: less_induct)
  case less
  have st: "start < length input" using less(2) assms(1) by (simp add: credential_at_def)
  show ?case
  proof (cases "at_boundary input start")
    case True
    from st True show ?thesis
    proof (cases rule: log_step)
      case (found q)
      show ?thesis
      proof (cases "i < end_of q input start")
        case True
        then show ?thesis using found less(2) by (intro exI [of _ q] exI [of _ start]) simp
      next
        case False
        then have "end_of q input start \<le> i" "length input - end_of q input start < length input - start"
          using found(2) st by auto
        from less(1) [OF this(2,1)] show ?thesis using found(3) by auto
      qed
    next
      case none
      then have "start + 1 \<le> i" using assms(1) less(2) by (metis add.commute le_neq_implies_less plus_1_eq_Suc Suc_leI)
      then show ?thesis using less(1) [of "start + 1"] none st by auto
    qed
  next
    case False
    then have "start \<noteq> i" using assms(1) by (auto simp: credential_at_def)
    then have "start + 1 \<le> i" using less(2) by simp
    then show ?thesis using less(1) [of "start + 1"] st log_skip [OF st False] by auto
  qed
qed

text \<open>A credential that starts inside a match ends inside it, unless it is a bearer header.\<close>

abbreviation plain_byte :: "char \<Rightarrow> bool" where
  "plain_byte b \<equiv> is_ascii_alphanumeric b \<or> b = CHR ''_'' \<or> b = CHR ''-''"

lemma byte_in_credential:
  assumes "credential_at p input i" and "i \<le> k" and "k < end_of p input i"
  shows "input ! k \<in> set (cp_prefix p) \<or> tail_byte p (input ! k)"
proof (cases "k < i + length (cp_prefix p)")
  case True
  obtain r where "drop i input = cp_prefix p @ r" using assms(1) by (auto simp: credential_at_def prefix_def)
  moreover have ki: "k - i < length (cp_prefix p)" using True assms(2) by simp
  ultimately have "drop i input ! (k - i) = cp_prefix p ! (k - i)" by (simp only: nth_append if_True)
  then show ?thesis using ki assms by (auto simp: credential_at_def)
next
  case False
  define j where "j = k - (i + length (cp_prefix p))"
  have j: "j < length (tail_of p input i)" "k = i + length (cp_prefix p) + j"
    using False assms(3) by (auto simp: j_def end_of_def)
  then have "tail_of p input i ! j = input ! k"
    using end_of_bound [OF assms(1)] by (simp add: tail_of_def takeWhile_nth end_of_def)
  moreover have "tail_of p input i ! j \<in> set (tail_of p input i)" using j(1) by (rule nth_mem)
  ultimately show ?thesis by (auto simp: tail_of_def dest: set_takeWhileD)
qed

lemma run_stops:
  assumes "end_of q input s < length input"
  shows "\<not> tail_byte q (input ! end_of q input s)"
proof -
  let ?xs = "drop (s + length (cp_prefix q)) input"
  have "length (takeWhile (tail_byte q) ?xs) < length ?xs"
    using assms by (simp add: end_of_def tail_of_def)
  from nth_length_takeWhile [OF this] show ?thesis using assms by (simp add: end_of_def tail_of_def)
qed

lemma log_catalog_bytes:
  "list_all (\<lambda>p. (cp_prefix p = ''Bearer '' \<or> list_all plain_byte (cp_prefix p))
      \<and> list_all (\<lambda>b. byte_of b < 128) (cp_prefix p)
      \<and> (cp_upper_alnum_only p \<longrightarrow> list_all is_ascii_uppercase (cp_prefix p))) CREDENTIAL_PATTERNS"
  by code_simp

lemma prefix_bytes:
  "p \<in> set CREDENTIAL_PATTERNS \<Longrightarrow> cp_prefix p \<noteq> ''Bearer '' \<Longrightarrow> b \<in> set (cp_prefix p) \<Longrightarrow> plain_byte b"
  using log_catalog_bytes by (auto simp: list_all_iff)

lemma prefix_ascii: "p \<in> set CREDENTIAL_PATTERNS \<Longrightarrow> b \<in> set (cp_prefix p) \<Longrightarrow> byte_of b < 128"
  using log_catalog_bytes by (auto simp: list_all_iff)

lemma upper_prefix_bytes:
  "p \<in> set CREDENTIAL_PATTERNS \<Longrightarrow> cp_upper_alnum_only p \<Longrightarrow> b \<in> set (cp_prefix p) \<Longrightarrow> is_ascii_uppercase b"
  using log_catalog_bytes by (auto simp: list_all_iff)

lemma upper_alone:
  "list_all (\<lambda>q. cp_upper_alnum_only q \<longrightarrow>
      list_all (\<lambda>p. prefix (cp_prefix p) (cp_prefix q) \<or> prefix (cp_prefix q) (cp_prefix p) \<longrightarrow> p = q)
        CREDENTIAL_PATTERNS) CREDENTIAL_PATTERNS"
  by (simp add: CREDENTIAL_PATTERNS_def)

lemma credential_ends_inside:
  assumes q: "credential_at q input s" and p: "credential_at p input i"
    and i: "s \<le> i" "i < end_of q input s" and nb: "cp_prefix p \<noteq> ''Bearer ''"
  shows "end_of p input i \<le> end_of q input s"
proof (cases "cp_upper_alnum_only q")
  case False
  show ?thesis
  proof (rule ccontr)
    assume "\<not> ?thesis"
    then have lt: "end_of q input s < end_of p input i" by simp
    then have "plain_byte (input ! end_of q input s)"
      using byte_in_credential [OF p _ lt] i(2) prefix_bytes [of p] nb p
      by (auto simp: credential_at_def tail_byte_def is_ascii_alphanumeric_def split: if_splits)
    then have "tail_byte q (input ! end_of q input s)" using False by (auto simp: tail_byte_def)
    then show False using run_stops [of q input s] lt end_of_bound [OF p] by simp
  qed
next
  case True
  have "i = s"
  proof (rule ccontr)
    assume "i \<noteq> s"
    then have "0 < i" "s \<le> i - 1" "i - 1 < end_of q input s" using i by auto
    then have "is_ascii_alphanumeric (input ! (i - 1))"
      using byte_in_credential [OF q, of "i - 1"] upper_prefix_bytes [of q] q True
      by (auto simp: credential_at_def tail_byte_def is_ascii_alphanumeric_def)
    then show False using p \<open>0 < i\<close> by (simp add: credential_at_def at_boundary_def)
  qed
  then have "prefix (cp_prefix p) (cp_prefix q) \<or> prefix (cp_prefix q) (cp_prefix p)"
    using p q prefix_same_cases unfolding credential_at_def by blast
  then have "p = q" using upper_alone p q True by (auto simp: list_all_iff credential_at_def)
  then show ?thesis using \<open>i = s\<close> by simp
qed

subsection \<open>Coalescing\<close>

definition inside :: "nat \<times> nat \<Rightarrow> nat \<times> nat \<Rightarrow> bool" where
  "inside r m \<longleftrightarrow> fst m \<le> fst r \<and> snd r \<le> snd m"

definition spans_union :: "(nat \<times> nat) list \<Rightarrow> nat set" where
  "spans_union spans = (\<Union>(s, e) \<in> set spans. {s..<e})"

lemma spans_union_mem: "k \<in> spans_union spans \<longleftrightarrow> (\<exists>s e. (s, e) \<in> set spans \<and> s \<le> k \<and> k < e)"
  by (force simp: spans_union_def)

definition spans_apart :: "(nat \<times> nat) list \<Rightarrow> bool" where
  "spans_apart spans \<longleftrightarrow> sorted_wrt (\<lambda>a b. snd a < fst b) spans \<and> list_all (\<lambda>(s, e). s < e) spans"

lemma spans_union_append [simp]: "spans_union (a @ b) = spans_union a \<union> spans_union b"
  by (simp add: spans_union_def)

lemma spans_union_Nil [simp]: "spans_union [] = {}"
  by (simp add: spans_union_def)

lemma spans_union_Cons [simp]: "spans_union ((s, e) # r) = {s..<e} \<union> spans_union r"
  by (simp add: spans_union_def)

lemma merge_span_facts:
  assumes ok: "spans_apart merged" "s < e" "\<forall>m \<in> set merged. fst m \<le> s"
  shows "spans_apart (merge_span merged (s, e))
    \<and> spans_union (merge_span merged (s, e)) = spans_union merged \<union> {s..<e}
    \<and> (\<forall>r \<in> insert (s, e) (set merged). \<exists>m \<in> set (merge_span merged (s, e)). inside r m)
    \<and> (\<forall>m \<in> set (merge_span merged (s, e)). fst m \<le> s)"
proof (cases "merged = []")
  case True
  then show ?thesis using ok by (simp add: spans_apart_def inside_def)
next
  case False
  then obtain ms a b where m: "merged = ms @ [(a, b)]" by (cases merged rule: rev_cases) auto
  have ms: "a < b" "a \<le> s" "\<forall>m \<in> set ms. snd m < a"
    using ok by (auto simp: m spans_apart_def sorted_wrt_append)
  show ?thesis
  proof (cases "s \<le> b")
    case True
    then have "merge_span merged (s, e) = ms @ [(a, max b e)]" by (simp add: m)
    then show ?thesis using ok ms True
      by (auto simp: m spans_apart_def sorted_wrt_append inside_def)
  next
    case no: False
    then have "merge_span merged (s, e) = merged @ [(s, e)]" by (simp add: m)
    then show ?thesis using ok ms no
      by (auto simp: m spans_apart_def sorted_wrt_append inside_def)
  qed
qed

lemma inside_trans: "inside r m \<Longrightarrow> inside m n \<Longrightarrow> inside r n"
  by (auto simp: inside_def)

lemma merge_facts:
  assumes "sorted (map fst spans)" and "list_all (\<lambda>(s, e). s < e) spans"
    and "spans_apart merged" and "\<forall>m \<in> set merged. \<forall>r \<in> set spans. fst m \<le> fst r"
  shows "spans_apart (foldl merge_span merged spans)
    \<and> spans_union (foldl merge_span merged spans) = spans_union merged \<union> spans_union spans
    \<and> (\<forall>r \<in> set merged \<union> set spans. \<exists>m \<in> set (foldl merge_span merged spans). inside r m)"
  using assms
proof (induction spans arbitrary: merged)
  case Nil
  then show ?case by (auto simp: inside_def)
next
  case (Cons x spans)
  obtain s e where x: "x = (s, e)" by (cases x)
  have pre: "spans_apart merged" "s < e" "\<forall>m \<in> set merged. fst m \<le> s" using Cons(3-5) by (auto simp: x)
  note step = merge_span_facts [OF pre]
  have "\<forall>m \<in> set (merge_span merged x). \<forall>r \<in> set spans. fst m \<le> fst r"
    using step Cons(2) by (fastforce simp: x)
  then have IH: "spans_apart (foldl merge_span (merge_span merged x) spans)"
    "spans_union (foldl merge_span (merge_span merged x) spans) = spans_union (merge_span merged x) \<union> spans_union spans"
    "\<forall>r \<in> set (merge_span merged x) \<union> set spans. \<exists>m \<in> set (foldl merge_span (merge_span merged x) spans). inside r m"
    using Cons(1) [of "merge_span merged x"] Cons(2,3) step by (auto simp: x)
  have "\<exists>m \<in> set (foldl merge_span (merge_span merged x) spans). inside r m"
    if r: "r \<in> set merged \<union> set (x # spans)" for r
  proof (cases "r \<in> set spans")
    case True
    then show ?thesis using IH(3) by simp
  next
    case False
    then obtain n where n: "n \<in> set (merge_span merged x)" "inside r n" using r step by (auto simp: x)
    then obtain m where "m \<in> set (foldl merge_span (merge_span merged x) spans)" "inside n m" using IH(3) by blast
    then show ?thesis using inside_trans [OF n(2)] by blast
  qed
  moreover have "spans_union (foldl merge_span (merge_span merged x) spans) = spans_union merged \<union> spans_union (x # spans)"
    using IH(2) step by (simp add: x Un_ac)
  ultimately show ?case using IH(1) by simp
qed

subsection \<open>The spans of a log\<close>

lemma first_byte_filter:
  "starts_with (drop c input) p \<Longrightarrow> c < length input \<Longrightarrow> p \<noteq> [] \<Longrightarrow> p ! 0 = input ! c"
  by (cases p) (auto simp: prefix_def Cons_nth_drop_Suc [symmetric])

lemma format_spans_iff:
  "(s, e) \<in> set (format_spans input) \<longleftrightarrow>
     (\<exists>spec \<in> set FORMAT_SPECS. \<exists>len. complete_prefix_len spec (drop s input) = Some len \<and> e = s + len)"
proof
  assume "(s, e) \<in> set (format_spans input)"
  then show "\<exists>spec \<in> set FORMAT_SPECS. \<exists>len. complete_prefix_len spec (drop s input) = Some len \<and> e = s + len"
    by (auto simp: format_spans_def List.map_filter_def specs_by_first_byte_def index_by_first_byte_filter)
next
  assume "\<exists>spec \<in> set FORMAT_SPECS. \<exists>len. complete_prefix_len spec (drop s input) = Some len \<and> e = s + len"
  then obtain spec len where sp: "spec \<in> set FORMAT_SPECS" "complete_prefix_len spec (drop s input) = Some len" "e = s + len"
    by blast
  have s: "s < length input"
    using complete_pos [OF spec_in_catalog [OF sp(1)] sp(2)] complete_bounds(2) [OF sp(2)] by simp
  have "fs_prefix spec ! 0 = input ! s"
    using sp(2) s spec_in_catalog [OF sp(1)]
    by (intro first_byte_filter) (auto simp: complete_prefix_len_def spec_ok_def split: if_splits)
  then have "spec \<in> set (specs_by_first_byte (input ! s))"
    using sp(1) by (simp add: specs_by_first_byte_def index_by_first_byte_filter)
  then show "(s, e) \<in> set (format_spans input)"
    using sp s unfolding format_spans_def List.map_filter_def by force
qed

definition raw_spans :: "string \<Rightarrow> (nat \<times> nat) list" where
  "raw_spans input = sort (map cm_span (matches input False) @ format_spans input)"

lemma raw_spans_bounds:
  assumes "(s, e) \<in> set (raw_spans input)"
  shows "s < e \<and> e \<le> length input \<and> (\<forall>b \<in> set (slice s e input). byte_of b < 128)"
proof -
  consider p where "credential_at p input s" "e = end_of p input s"
    | spec len where "spec \<in> set FORMAT_SPECS" "complete_prefix_len spec (drop s input) = Some len" "e = s + len"
  proof -
    have "(s, e) \<in> cm_span ` set (matches_from input False 0) \<or> (s, e) \<in> set (format_spans input)"
      using assms by (auto simp: raw_spans_def matches_def)
    then show thesis
    proof
      assume "(s, e) \<in> cm_span ` set (matches_from input False 0)"
      then obtain m where "m \<in> set (matches_from input False 0)" "(s, e) = cm_span m" by blast
      then show thesis using log_matches_are that(1) by (fastforce simp: match_at_def)
    next
      assume "(s, e) \<in> set (format_spans input)"
      then show thesis using that(2) by (auto simp: format_spans_iff)
    qed
  qed
  then show ?thesis
  proof cases
    case 1
    have bytes: "byte_of (input ! k) < 128" if "s \<le> k" "k < e" for k
    proof -
      from byte_in_credential [OF 1(1) that(1)] that(2) 1(2)
      have "input ! k \<in> set (cp_prefix p) \<or> tail_byte p (input ! k)" by simp
      then show ?thesis using prefix_ascii [of p] 1(1)
        by (auto simp: credential_at_def tail_byte_def byte_defs split: if_splits)
    qed
    have "e \<le> length input" using end_of_bound [OF 1(1)] 1(2) by simp
    moreover have "s < e" using end_of_after [of p s input] 1 by (simp add: credential_at_def)
    ultimately show ?thesis using bytes by (auto simp: slice_def in_set_conv_nth)
  next
    case 2
    then show ?thesis
      using complete_pos [OF spec_in_catalog [OF 2(1)] 2(2)] complete_bounds(2) [OF 2(2)] match_ascii [OF 2(1,2)]
      by (auto simp: slice_def)
  qed
qed

lemma sorted_fst: "sorted (xs :: (nat \<times> nat) list) \<Longrightarrow> sorted (map fst xs)"
  by (induction xs) (auto simp: less_eq_prod_def)

lemma credential_spans_facts:
  "spans_apart (credential_spans input)"
  "spans_union (credential_spans input) = spans_union (raw_spans input)"
  "\<forall>r \<in> set (raw_spans input). \<exists>m \<in> set (credential_spans input). inside r m"
proof -
  have "sorted (map fst (raw_spans input))" by (rule sorted_fst) (simp add: raw_spans_def)
  moreover have "list_all (\<lambda>(s, e). s < e) (raw_spans input)" using raw_spans_bounds by (auto simp: list_all_iff)
  ultimately have "spans_apart (foldl merge_span [] (raw_spans input))
    \<and> spans_union (foldl merge_span [] (raw_spans input)) = spans_union [] \<union> spans_union (raw_spans input)
    \<and> (\<forall>r \<in> set [] \<union> set (raw_spans input). \<exists>m \<in> set (foldl merge_span [] (raw_spans input)). inside r m)"
    by (intro merge_facts) (simp_all add: spans_apart_def)
  then show "spans_apart (credential_spans input)"
    "spans_union (credential_spans input) = spans_union (raw_spans input)"
    "\<forall>r \<in> set (raw_spans input). \<exists>m \<in> set (credential_spans input). inside r m"
    by (simp_all add: credential_spans_def raw_spans_def)
qed

lemma credential_spans_bounds:
  assumes "(s, e) \<in> set (credential_spans input)"
  shows "s < e \<and> e \<le> length input \<and> (\<forall>b \<in> set (slice s e input). byte_of b < 128)"
proof -
  have "s < e" using assms credential_spans_facts(1) by (auto simp: spans_apart_def list_all_iff)
  moreover have k: "k < length input \<and> byte_of (input ! k) < 128" if "s \<le> k" "k < e" for k
  proof -
    have "k \<in> spans_union (credential_spans input)" using assms that by (force simp: spans_union_def)
    then obtain a b where ab: "(a, b) \<in> set (raw_spans input)" "a \<le> k" "k < b"
      unfolding credential_spans_facts(2) by (auto simp: spans_union_def)
    from raw_spans_bounds [OF ab(1)] have r: "b \<le> length input" "\<forall>c \<in> set (slice a b input). byte_of c < 128" by auto
    have "input ! k = slice a b input ! (k - a)" using ab(2,3) r(1) by (simp add: slice_def)
    moreover have "k - a < length (slice a b input)" using ab(2,3) r(1) by (simp add: slice_def)
    ultimately have "input ! k \<in> set (slice a b input)" by (metis nth_mem)
    then show ?thesis using r ab(3) by auto
  qed
  moreover have "e \<le> length input"
  proof -
    have "e - 1 < length input" using k [of "e - 1"] \<open>s < e\<close> by simp
    then show ?thesis using \<open>s < e\<close> by simp
  qed
  ultimately show ?thesis by (auto simp: slice_def in_set_conv_nth)
qed

subsection \<open>The redacted text\<close>

lemma ascii_next_boundary:
  assumes "valid_utf8 t" and "i < length t" and "byte_of (t ! i) < 128"
  shows "is_char_boundary t (i + 1)"
proof (cases "i + 1 < length t")
  case True
  have "is_char_boundary t i" using assms(2,3) by (intro boundary_of_head ascii_not_cont)
  then have "valid_utf8 (drop i t)" using valid_utf8_cut [OF assms(1)] by blast
  moreover have "drop i t = t ! i # drop (i + 1) t" using assms(2) by (simp add: Cons_nth_drop_Suc)
  moreover have "scalar_len (t ! i # drop (i + 1) t) = Some 1" by (rule ascii_scalar [OF assms(3)])
  ultimately have "valid_utf8 (drop (i + 1) t)" using valid_utf8_step [of "drop i t"] by auto
  then have "\<not> is_cont (drop (i + 1) t ! 0)" using True by (intro valid_utf8_head) auto
  then show ?thesis using True by (intro boundary_of_head) auto
next
  case False
  then show ?thesis using assms(2) by (simp add: is_char_boundary_def)
qed

lemma span_boundaries:
  assumes "valid_utf8 t" and "(s, e) \<in> set (credential_spans t)"
  shows "is_char_boundary t s \<and> is_char_boundary t e"
proof -
  note b = credential_spans_bounds [OF assms(2)]
  have "byte_of (t ! k) < 128" if "s \<le> k" "k < e" for k
  proof -
    have "slice s e t ! (k - s) = t ! k" "k - s < length (slice s e t)" using that b by (auto simp: slice_def)
    then show ?thesis using b by (metis nth_mem)
  qed
  from this [of s] this [of "e - 1"] show ?thesis
    using b ascii_next_boundary [OF assms(1), of "e - 1"] boundary_of_head [of s t] ascii_not_cont by auto
qed

lemma redact_spans_total:
  assumes "sorted_wrt (\<lambda>a b. snd a < fst b) spans" and "is_char_boundary t c" and "c \<le> length t"
    and "\<forall>(s, e) \<in> set spans. c \<le> s \<and> s < e \<and> e \<le> length t \<and> is_char_boundary t s \<and> is_char_boundary t e"
  shows "redact_spans t spans c out = Some (out @ replace_ranges t ''[REDACTED]'' spans c)"
  using assms
proof (induction spans arbitrary: c out)
  case Nil
  then show ?case by (simp add: str_slice_def is_char_boundary_def slice_def)
next
  case (Cons x spans)
  obtain s e where x: "x = (s, e)" by (cases x)
  have "redact_spans t spans e (out @ slice c s t @ ''[REDACTED]'')
      = Some ((out @ slice c s t @ ''[REDACTED]'') @ replace_ranges t ''[REDACTED]'' spans e)"
    using Cons(2,5) by (intro Cons(1)) (auto simp: x)
  then show ?case using Cons(3,5) by (simp add: x str_slice_def)
qed

lemma start_boundary: "is_char_boundary t 0" by (simp add: is_char_boundary_def)

lemma redact_text_total:
  assumes "valid_utf8 t"
  shows "\<exists>out. redact_text t = Some out
    \<and> cow_str out = replace_ranges t ''[REDACTED]'' (credential_spans t) 0"
proof (cases "credential_spans t = []")
  case True
  then show ?thesis by (simp add: redact_text_def Let_def)
next
  case False
  have "redact_spans t (credential_spans t) 0 []
      = Some ([] @ replace_ranges t ''[REDACTED]'' (credential_spans t) 0)"
    using credential_spans_facts(1) [of t] credential_spans_bounds [of _ _ t] span_boundaries [OF assms]
    by (intro redact_spans_total) (auto simp: spans_apart_def start_boundary)
  then show ?thesis using False by (simp add: redact_text_def Let_def)
qed

lemma spans_in_order:
  "sorted_wrt (\<lambda>a b. snd a \<le> fst b) (credential_spans t)"
  using credential_spans_facts(1) [of t]
  by (auto simp: spans_apart_def elim: sorted_wrt_mono_rel [rotated])

lemma redact_text_redacted:
  "redacted {''[REDACTED]''} (\<lambda>t. \<forall>spec \<in> set FORMAT_SPECS. complete_prefix_len spec t = None)
     t (replace_ranges t ''[REDACTED]'' (credential_spans t) 0)"
proof -
  have "complete_prefix_len spec (drop p t) = None"
    if "\<forall>(s, e) \<in> set (credential_spans t). \<not> (s \<le> p \<and> p < e)" "spec \<in> set FORMAT_SPECS" for p spec
  proof (rule ccontr)
    assume "complete_prefix_len spec (drop p t) \<noteq> None"
    then obtain len where len: "complete_prefix_len spec (drop p t) = Some len" by blast
    have "(p, p + len) \<in> set (raw_spans t)" using that(2) len by (auto simp: raw_spans_def format_spans_iff)
    then obtain m where "m \<in> set (credential_spans t)" "inside (p, p + len) m"
      using credential_spans_facts(3) by blast
    then show False using that(1) complete_pos [OF spec_in_catalog [OF that(2)] len]
      by (cases m) (auto simp: inside_def)
  qed
  then have "redacted {''[REDACTED]''} (\<lambda>t. \<forall>spec \<in> set FORMAT_SPECS. complete_prefix_len spec t = None)
     (drop 0 t) (replace_ranges t ''[REDACTED]'' (credential_spans t) 0)"
    using spans_in_order [of t] credential_spans_bounds [of _ _ t]
    by (intro replace_ranges_redacted) auto
  then show ?thesis by simp
qed

lemma redact_text_valid:
  assumes "valid_utf8 t"
  shows "valid_utf8 (replace_ranges t ''[REDACTED]'' (credential_spans t) 0)"
  using spans_in_order [of t] credential_spans_bounds [of _ _ t] assms
  by (intro replace_ranges_valid) (auto intro!: valid_utf8_ascii simp: byte_of_def)

lemma format_longer: "spec \<in> set FORMAT_SPECS \<Longrightarrow> 8 < minimum_match_len spec"
  by (auto simp: FORMAT_SPECS_def minimum_match_len_def SENDGRID_LEN_def)

subsection \<open>Staged code\<close>

definition staged_at :: "credential_pattern \<Rightarrow> string \<Rightarrow> nat \<Rightarrow> bool" where
  "staged_at p input start \<longleftrightarrow> at_boundary input start \<and> starts_with (drop start input) (cp_prefix p)
     \<and> cp_min_tail p \<le> length (tail_of p input start) \<and> list_ex name_byte (tail_of p input start)"

definition reaches :: "nat \<Rightarrow> nat option \<Rightarrow> bool" where
  "reaches m last_key = (case last_key of None \<Rightarrow> False | Some index \<Rightarrow> m \<le> index)"

lemma reaches_simps [simp]: "\<not> reaches m None" "reaches m (Some j) \<longleftrightarrow> m \<le> j"
  by (simp_all add: reaches_def)

lemma key_run_facts:
  assumes "key_run p i xs l = (re, lk)" and "\<not> reaches i l"
  shows "re = i + length (takeWhile (tail_byte p) xs)
    \<and> (\<forall>m. reaches m lk \<longleftrightarrow> reaches m l \<or> (\<exists>k. i \<le> k \<and> m \<le> k \<and> k < re \<and> name_byte (xs ! (k - i))))"
  using assms
proof (induction xs arbitrary: i l)
  case Nil
  then show ?case by auto
next
  case (Cons b xs)
  show ?case
  proof (cases "tail_byte p b")
    case False
    then show ?thesis using Cons by auto
  next
    case True
    define l' where "l' = (if name_byte b then Some i else l)"
    have "key_run p (i + 1) xs l' = (re, lk)" using Cons(2) True by (simp add: l'_def)
    moreover have "\<not> reaches (i + 1) l'" using Cons(3) by (auto simp: l'_def reaches_def split: option.splits)
    ultimately have IH: "re = i + 1 + length (takeWhile (tail_byte p) xs)"
      "\<forall>m. reaches m lk \<longleftrightarrow> reaches m l' \<or> (\<exists>k. i + 1 \<le> k \<and> m \<le> k \<and> k < re \<and> name_byte (xs ! (k - (i + 1))))"
      using Cons(1) by blast+
    have nth: "(b # xs) ! (k - i) = (if k = i then b else xs ! (k - (i + 1)))" if "i \<le> k" for k
      using that by (auto simp: nth_Cons')
    have "(\<exists>k. i \<le> k \<and> m \<le> k \<and> k < re \<and> name_byte ((b # xs) ! (k - i)))
        \<longleftrightarrow> m \<le> i \<and> name_byte b \<or> (\<exists>k. i + 1 \<le> k \<and> m \<le> k \<and> k < re \<and> name_byte (xs ! (k - (i + 1))))" for m
    proof
      assume "\<exists>k. i \<le> k \<and> m \<le> k \<and> k < re \<and> name_byte ((b # xs) ! (k - i))"
      then obtain k where k: "i \<le> k" "m \<le> k" "k < re" "name_byte ((b # xs) ! (k - i))" by blast
      then show "m \<le> i \<and> name_byte b \<or> (\<exists>k. i + 1 \<le> k \<and> m \<le> k \<and> k < re \<and> name_byte (xs ! (k - (i + 1))))"
        unfolding nth [OF k(1)] by (cases "k = i") (auto intro: exI [of _ k])
    next
      assume "m \<le> i \<and> name_byte b \<or> (\<exists>k. i + 1 \<le> k \<and> m \<le> k \<and> k < re \<and> name_byte (xs ! (k - (i + 1))))"
      then show "\<exists>k. i \<le> k \<and> m \<le> k \<and> k < re \<and> name_byte ((b # xs) ! (k - i))"
      proof
        assume "m \<le> i \<and> name_byte b"
        then show ?thesis using IH(1) by (intro exI [of _ i]) simp
      next
        assume "\<exists>k. i + 1 \<le> k \<and> m \<le> k \<and> k < re \<and> name_byte (xs ! (k - (i + 1)))"
        then obtain k where k: "i + 1 \<le> k" "m \<le> k" "k < re" "name_byte (xs ! (k - (i + 1)))" by blast
        then show ?thesis using nth [of k] by (intro exI [of _ k]) simp
      qed
    qed
    moreover have "reaches m l' \<longleftrightarrow> m \<le> i \<and> name_byte b \<or> reaches m l" if "\<not> reaches i l" for m
      using that by (auto simp: l'_def reaches_def split: option.splits)
    ultimately show ?thesis using IH Cons(3) True by auto
  qed
qed

text \<open>The cache after some positions: the run of an earlier tail, up to a byte that stops it.\<close>

definition cache_ok :: "credential_pattern \<Rightarrow> string \<Rightarrow> nat \<Rightarrow> nat \<times> nat option \<Rightarrow> bool" where
  "cache_ok p input start cache \<longleftrightarrow> (case cache of (run_end, last_key) \<Rightarrow> run_end = 0 \<or>
     (\<exists>t. t \<le> start + length (cp_prefix p) \<and> t \<le> run_end
        \<and> run_end = t + length (takeWhile (tail_byte p) (drop t input))
        \<and> (\<forall>m \<ge> t. reaches m last_key \<longleftrightarrow> (\<exists>k. m \<le> k \<and> k < run_end \<and> name_byte (input ! k)))))"

lemma cache_hit:
  assumes "t \<le> t'" and "t' \<le> t + length (takeWhile P (drop t xs))"
  shows "t' + length (takeWhile P (drop t' xs)) = t + length (takeWhile P (drop t xs))"
proof -
  define d where "d = t' - t"
  have d: "t' = t + d" "d \<le> length (takeWhile P (drop t xs))" using assms by (auto simp: d_def)
  have "drop t xs = take d (drop t xs) @ drop t' xs"
    using append_take_drop_id [of d "drop t xs"] by (simp add: d(1) add.commute)
  moreover have "\<forall>x \<in> set (take d (drop t xs)). P x"
  proof -
    have "take d (drop t xs) = take d (takeWhile P (drop t xs))"
      using d(2) by (metis append_take_drop_id takeWhile_dropWhile_id take_append diff_is_0_eq take_0 append_Nil2)
    then show ?thesis by (metis in_set_takeD set_takeWhileD)
  qed
  ultimately have "takeWhile P (drop t xs) = take d (drop t xs) @ takeWhile P (drop t' xs)"
    by (metis takeWhile_append2)
  moreover have "length (take d (drop t xs)) = d"
    using d(2) length_takeWhile_le [of P "drop t xs"] by simp
  ultimately show ?thesis by (simp add: d(1))
qed

lemma key_in_tail:
  "list_ex name_byte (tail_of p input start) \<longleftrightarrow>
     (\<exists>k. start + length (cp_prefix p) \<le> k \<and> k < end_of p input start \<and> name_byte (input ! k))"
proof -
  let ?t = "start + length (cp_prefix p)"
  have nth: "tail_of p input start ! j = input ! (?t + j)" if "j < length (tail_of p input start)" for j
  proof -
    have "j < length (drop ?t input)" using that length_takeWhile_le [of "tail_byte p" "drop ?t input"]
      by (simp add: tail_of_def)
    then show ?thesis using that by (simp add: tail_of_def takeWhile_nth)
  qed
  have "list_ex name_byte (tail_of p input start)
      \<longleftrightarrow> (\<exists>j < length (tail_of p input start). name_byte (input ! (?t + j)))"
    unfolding list_ex_length using nth by auto
  also have "\<dots> \<longleftrightarrow> (\<exists>k. ?t \<le> k \<and> k < end_of p input start \<and> name_byte (input ! k))"
  proof
    assume "\<exists>j < length (tail_of p input start). name_byte (input ! (?t + j))"
    then obtain j where "j < length (tail_of p input start)" "name_byte (input ! (?t + j))" by blast
    then show "\<exists>k. ?t \<le> k \<and> k < end_of p input start \<and> name_byte (input ! k)"
      by (intro exI [of _ "?t + j"]) (simp add: end_of_def)
  next
    assume "\<exists>k. ?t \<le> k \<and> k < end_of p input start \<and> name_byte (input ! k)"
    then obtain k where "?t \<le> k" "k < end_of p input start" "name_byte (input ! k)" by blast
    then show "\<exists>j < length (tail_of p input start). name_byte (input ! (?t + j))"
      by (intro exI [of _ "k - ?t"]) (simp add: end_of_def)
  qed
  finally show ?thesis .
qed

lemma fresh_cache:
  assumes "key_run p t (drop t input) None = (re, lk)" and "t = start + length (cp_prefix p)"
  shows "re = end_of p input start \<and> cache_ok p input start (re, lk)
    \<and> (\<forall>m \<ge> t. reaches m lk \<longleftrightarrow> (\<exists>k. m \<le> k \<and> k < re \<and> name_byte (input ! k)))"
proof -
  from key_run_facts [OF assms(1)]
  have r: "re = t + length (takeWhile (tail_byte p) (drop t input))"
    "\<forall>m. reaches m lk \<longleftrightarrow> (\<exists>k. t \<le> k \<and> m \<le> k \<and> k < re \<and> name_byte (drop t input ! (k - t)))" by auto
  have "drop t input ! (k - t) = input ! k" if "t \<le> k" "k < re" for k
    using that r(1) length_takeWhile_le [of "tail_byte p" "drop t input"] by simp
  then have "\<forall>m \<ge> t. reaches m lk \<longleftrightarrow> (\<exists>k. m \<le> k \<and> k < re \<and> name_byte (input ! k))"
    unfolding r(2) [rule_format] by (metis order.trans)
  then show ?thesis using r(1) assms(2)
    by (auto simp: cache_ok_def end_of_def tail_of_def intro!: exI [of _ t])
qed

lemma kept_cache:
  assumes "cache_ok p input start (re, lk)" and "t = start + length (cp_prefix p)" and "t \<le> re" and "0 < t"
  shows "re = end_of p input start \<and> (\<forall>m \<ge> t. reaches m lk \<longleftrightarrow> (\<exists>k. m \<le> k \<and> k < re \<and> name_byte (input ! k)))"
proof -
  obtain u where u: "u \<le> t" "re = u + length (takeWhile (tail_byte p) (drop u input))"
    "\<forall>m \<ge> u. reaches m lk \<longleftrightarrow> (\<exists>k. m \<le> k \<and> k < re \<and> name_byte (input ! k))"
    using assms by (auto simp: cache_ok_def)
  have "t + length (takeWhile (tail_byte p) (drop t input)) = re"
    unfolding u(2) by (rule cache_hit [OF u(1)]) (use assms(3) u(2) in simp)
  then show ?thesis using u(1,3) assms(2) by (auto simp: end_of_def tail_of_def)
qed

lemma cache_ok_Suc:
  assumes "cache_ok p input start (re, lk)"
  shows "cache_ok p input (Suc start) (re, lk)"
proof (cases "re = 0")
  case False
  then obtain t where t: "t \<le> start + length (cp_prefix p)" "t \<le> re"
    "re = t + length (takeWhile (tail_byte p) (drop t input))"
    "\<forall>m \<ge> t. reaches m lk \<longleftrightarrow> (\<exists>k. m \<le> k \<and> k < re \<and> name_byte (input ! k))"
    using assms unfolding cache_ok_def by blast
  from t(1) have "t \<le> Suc start + length (cp_prefix p)" by simp
  with t(2-4) show ?thesis unfolding cache_ok_def prod.case by blast
qed (simp add: cache_ok_def)

declare staged_step.simps [simp del]

lemma staged_step_facts:
  assumes "cache_ok p input start (re, lk)" and "cp_prefix p \<noteq> []"
  shows "\<exists>re' lk'. staged_step input p start (re, lk, found)
      = (re', lk', found @ (if staged_at p input start then [match_at p input start] else []))
    \<and> cache_ok p input (Suc start) (re', lk')"
proof (cases "at_boundary input start \<and> starts_with (drop start input) (cp_prefix p)")
  case False
  then show ?thesis using cache_ok_Suc [OF assms(1)] by (auto simp: staged_step.simps staged_at_def at_boundary_def)
next
  case True
  define t where "t = start + length (cp_prefix p)"
  have t0: "0 < t" using assms(2) by (simp add: t_def)
  obtain re' lk' where c: "(if re < t then key_run p t (drop t input) None else (re, lk)) = (re', lk')"
    by (meson surj_pair)
  have f: "re' = end_of p input start" "cache_ok p input start (re', lk')"
    "reaches t lk' \<longleftrightarrow> (\<exists>k. t \<le> k \<and> k < re' \<and> name_byte (input ! k))"
    using c fresh_cache [OF _ t_def, of input re' lk'] kept_cache [OF assms(1) t_def _ t0] assms(1)
    by (auto split: if_splits)
  have len: "re' - t = length (tail_of p input start)" by (simp add: f(1) end_of_def t_def)
  have "staged_step input p start (re, lk, found) = (re', lk',
      if cp_min_tail p \<le> re' - t \<and> reaches t lk' then found @ [\<lparr>cm_pattern = p, cm_span = (start, t + (re' - t))\<rparr>] else found)"
    using True unfolding staged_step.simps Let_def t_def [symmetric] c
    by (auto simp: at_boundary_def reaches_def)
  moreover have "cp_min_tail p \<le> re' - t \<and> reaches t lk' \<longleftrightarrow> staged_at p input start"
    using True f(3) unfolding staged_at_def key_in_tail len by (simp add: f(1) t_def)
  moreover have "t + (re' - t) = end_of p input start" by (simp add: f(1) end_of_def t_def)
  ultimately show ?thesis using cache_ok_Suc [OF f(2)] by (auto simp: match_at_def)
qed

lemma staged_family_plain:
  assumes "cp_prefix p \<noteq> []"
  shows "staged_family input p found = found @ map (match_at p input) (filter (staged_at p input) [0..<length input])"
proof -
  have "\<exists>re lk. fold (staged_step input p) [0..<n] (0, None, found)
      = (re, lk, found @ map (match_at p input) (filter (staged_at p input) [0..<n]))
    \<and> cache_ok p input n (re, lk)" for n
  proof (induction n)
    case 0
    then show ?case by (simp add: cache_ok_def)
  next
    case (Suc n)
    then obtain re lk where IH: "fold (staged_step input p) [0..<n] (0, None, found)
        = (re, lk, found @ map (match_at p input) (filter (staged_at p input) [0..<n]))"
      "cache_ok p input n (re, lk)" by blast
    show ?case using staged_step_facts [OF IH(2) assms,
        of "found @ map (match_at p input) (filter (staged_at p input) [0..<n])"]
      by (auto simp: IH(1))
  qed
  from this [of "length input"] show ?thesis by (auto simp: staged_family_def)
qed

definition staged_plain :: "string \<Rightarrow> credential_match list" where
  "staged_plain input = concat (map (\<lambda>p.
     map (match_at p input) (filter (staged_at p input) [0..<length input])) staged_code_patterns)"

lemma staged_families:
  "\<forall>p \<in> set ps. cp_prefix p \<noteq> [] \<Longrightarrow> fold (staged_family input) ps found = found @ concat (map (\<lambda>p.
     map (match_at p input) (filter (staged_at p input) [0..<length input])) ps)"
  by (induction ps arbitrary: found) (simp_all add: staged_family_plain)

end
