(* ===== verification/Secret_Classify.thy ===== *)
theory Secret_Classify
  imports Credential_Redact Dotenv_Rewrite
begin

text \<open>
  The classification of dotenv entries of \<open>phantom-core/src/dotenv.rs\<close>: the rules on names and
  values, the one decision they lead to and its explanation, and the placeholders.  The case mapping
  of a key, \<open>str::to_uppercase\<close>, is an argument, because it reads the tables of Unicode.
\<close>

subsection \<open>String operations\<close>

text \<open>\<open>split_once\<close> with a string, \<open>rsplit_once\<close> with a character, \<open>split\<close> on a set of characters.\<close>

fun split_once_str :: "string \<Rightarrow> string \<Rightarrow> (string \<times> string) option" where
  "split_once_str sep [] = (if sep = [] then Some ([], []) else None)"
| "split_once_str sep (c # s) =
     (if starts_with (c # s) sep then Some ([], drop (length sep) (c # s))
      else map_option (\<lambda>(a, b). (c # a, b)) (split_once_str sep s))"

definition rsplit_once :: "char \<Rightarrow> string \<Rightarrow> (string \<times> string) option" where
  "rsplit_once c s = map_option (\<lambda>(a, b). (rev b, rev a)) (split_once c (rev s))"

fun split_any :: "char set \<Rightarrow> string \<Rightarrow> string list" where
  "split_any seps [] = [[]]"
| "split_any seps (c # s) =
     (if c \<in> seps then [] # split_any seps s
      else (case split_any seps s of [] \<Rightarrow> [[c]] | w # ws \<Rightarrow> (c # w) # ws))"

definition strip_prefix :: "string \<Rightarrow> string \<Rightarrow> string option" where
  "strip_prefix p s = (if starts_with s p then Some (drop (length p) s) else None)"

definition strip_suffix :: "string \<Rightarrow> string \<Rightarrow> string option" where
  "strip_suffix p s = (if ends_with s p then Some (take (length s - length p) s) else None)"

text \<open>\<open>lines().next()\<close>.\<close>

definition first_line :: "string \<Rightarrow> string option" where
  "first_line s =
     (if s = [] then None
      else let line = takeWhile (\<lambda>c. c \<noteq> LF) s in
        Some (if length line < length s \<and> ends_with line [CR] then butlast line else line))"

subsection \<open>Lossy decoding\<close>

text \<open>How many bytes \<open>String::from_utf8_lossy\<close> replaces at a place where no scalar value starts.\<close>

fun lossy_skip :: "string \<Rightarrow> nat" where
  "lossy_skip [] = 1"
| "lossy_skip (b # rest) =
     (case scalar_width (byte_of b) of
        None \<Rightarrow> 1
      | Some n \<Rightarrow>
          if rest \<noteq> [] \<and> n \<noteq> 1 \<and> second_ok (byte_of b) (rest ! 0)
          then 2 + length (takeWhile is_cont (take (n - 2) (drop 1 rest))) else 1)"

function from_utf8_lossy :: "string \<Rightarrow> string" where
  "from_utf8_lossy s =
     (if s = [] then []
      else case scalar_len s of
          Some n \<Rightarrow> take n s @ from_utf8_lossy (drop n s)
        | None \<Rightarrow> [CHR 0xEF, CHR 0xBF, CHR 0xBD] @ from_utf8_lossy (drop (lossy_skip s) s))"
  by pat_completeness auto
termination
proof (relation "measure length")
  fix s :: string assume "s \<noteq> []" "scalar_len s = None"
  moreover have "0 < lossy_skip s" by (cases s) (auto split: option.splits)
  ultimately show "(drop (lossy_skip s) s, s) \<in> measure length" by simp
qed (auto dest: scalar_len_bounds)

declare from_utf8_lossy.simps [simp del]

definition ascii_upper :: "char \<Rightarrow> char" where
  "ascii_upper c = (if is_ascii_lowercase c then char_of (byte_of c - 32) else c)"

definition hex_byte :: "char \<Rightarrow> nat option" where
  "hex_byte c =
     (if is_ascii_digit c then Some (byte_of c - 48)
      else if 97 \<le> byte_of c \<and> byte_of c \<le> 102 then Some (byte_of c - 87)
      else if 65 \<le> byte_of c \<and> byte_of c \<le> 70 then Some (byte_of c - 55)
      else None)"

fun percent_bytes :: "string \<Rightarrow> string" where
  "percent_bytes (c # a # b # s) =
     (if c = CHR ''%'' then
        (case (hex_byte a, hex_byte b) of
           (Some hi, Some lo) \<Rightarrow> char_of (hi * 16 + lo) # percent_bytes s
         | _ \<Rightarrow> c # percent_bytes (a # b # s))
      else c # percent_bytes (a # b # s))"
| "percent_bytes s = s"

definition percent_decode_lossy :: "string \<Rightarrow> string" where
  "percent_decode_lossy input = from_utf8_lossy (percent_bytes input)"

subsection \<open>Rules\<close>

definition NAME_RULE_FRAGMENTS :: "string list" where
  "NAME_RULE_FRAGMENTS = [''KEY'', ''SECRET'', ''TOKEN'', ''PASSWORD'', ''PASSWD'', ''PWD'', ''CREDENTIAL'',
     ''AUTH'', ''PRIVATE'', ''API_KEY'', ''ACCESS_KEY'', ''SIGNING'']"

definition CONNECTION_KEY_PATTERNS :: "string list" where
  "CONNECTION_KEY_PATTERNS = [''DATABASE_URL'', ''REDIS_URL'', ''MONGO_URL'', ''POSTGRES_URL'', ''MYSQL_URL'',
     ''AMQP_URL'', ''RABBITMQ_URL'', ''ELASTICSEARCH_URL'', ''CONNECTION_STRING'', ''DSN'']"

definition NON_PUBLIC_VALUE_PREFIXES :: "string list" where
  "NON_PUBLIC_VALUE_PREFIXES = [''eyJ'', ''-----BEGIN '']"

definition PUBLIC_KEY_PREFIXES :: "string list" where
  "PUBLIC_KEY_PREFIXES = [''NEXT_PUBLIC_'', ''EXPO_PUBLIC_'', ''VITE_'', ''REACT_APP_'', ''NUXT_PUBLIC_'', ''GATSBY_'']"

definition SECRET_QUERY_PARAMS :: "string list" where
  "SECRET_QUERY_PARAMS = [''password'', ''passwd'', ''secret'', ''client_secret'', ''api_secret'', ''sig'',
     ''signature'', ''x-amz-signature'', ''x-goog-signature'']"

definition TOKEN_QUERY_PARAMS :: "string list" where
  "TOKEN_QUERY_PARAMS = [''token'', ''access_token'', ''auth_token'', ''api_key'', ''apikey'', ''key'']"

definition AUTH_QUERY_PARAMS :: "string list" where
  "AUTH_QUERY_PARAMS = [''api_key'', ''apikey'', ''api-key'', ''access_token'', ''accesstoken'', ''auth_token'',
     ''authtoken'', ''auth'', ''token'']"

datatype value_rule = KnownPrefix string | PemPrivateKey | UrlCredentials | UrlAuthParam | HighEntropy

datatype classification_reason =
  PublicPrefix string
| PublicPrefixWithSecretValue string value_rule
| KeyName string
| ConnectionPattern string
| ByValue value_rule
| NoSecretPattern

datatype secret_classification = Secret | PublicKey | NotSecret

fun describe_rule :: "value_rule \<Rightarrow> string" where
  "describe_rule (KnownPrefix p) = ''starts with '' @ [DQ] @ trim_end p @ [DQ] @ '', a known secret prefix''"
| "describe_rule PemPrivateKey = ''is a PEM private key''"
| "describe_rule UrlCredentials = ''is a URL with embedded credentials''"
| "describe_rule UrlAuthParam = ''is a URL with an auth, token or signature parameter''"
| "describe_rule HighEntropy = ''is a long high-entropy string''"

fun reason_label :: "classification_reason \<Rightarrow> string" where
  "reason_label (PublicPrefix _) = ''public_prefix''"
| "reason_label (PublicPrefixWithSecretValue _ _) = ''public_prefix_with_secret_value''"
| "reason_label (KeyName _) = ''key_name''"
| "reason_label (ConnectionPattern _) = ''connection_pattern''"
| "reason_label (ByValue _) = ''value_pattern''"
| "reason_label NoSecretPattern = ''no_secret_pattern''"

definition quoted :: "string \<Rightarrow> string" where
  "quoted s = DQ # s @ [DQ]"

fun reason_explanation :: "classification_reason \<Rightarrow> string" where
  "reason_explanation (PublicPrefix p) =
     ''Keys with the '' @ quoted p @ '' prefix are browser-safe (shipped in client bundles)''"
| "reason_explanation (PublicPrefixWithSecretValue p rule) =
     ''Key has the public prefix '' @ quoted p @ '', but its value '' @ describe_rule rule"
| "reason_explanation (KeyName p) = ''Key name contains '' @ quoted p @ '' (secret key pattern)''"
| "reason_explanation (ConnectionPattern p) =
     ''Key name matches connection string pattern ('' @ quoted p @ '')''"
| "reason_explanation (ByValue rule) = ''Value '' @ describe_rule rule"
| "reason_explanation NoSecretPattern = ''Does not match secret key patterns or value patterns''"

fun matched_pattern :: "classification_reason \<Rightarrow> string option" where
  "matched_pattern (PublicPrefix p) = Some p"
| "matched_pattern (PublicPrefixWithSecretValue p _) = Some p"
| "matched_pattern (KeyName p) = Some p"
| "matched_pattern (ConnectionPattern p) = Some p"
| "matched_pattern (ByValue _) = None"
| "matched_pattern NoSecretPattern = None"

subsection \<open>URL parameters\<close>

record url_param =
  up_name :: string
  up_value :: string

record url_param_lists =
  ul_query :: "url_param list"
  ul_fragment :: "url_param list"

definition parse_url_pairs_split :: "string \<Rightarrow> char set \<Rightarrow> url_param list" where
  "parse_url_pairs_split pairs seps =
     map (\<lambda>(name, val). \<lparr>up_name = map ascii_lower (percent_decode_lossy name), up_value = percent_decode_lossy val\<rparr>)
       (List.map_filter (split_once (CHR ''='')) (split_any seps pairs))"

definition parse_url_pairs :: "string \<Rightarrow> url_param list" where
  "parse_url_pairs pairs = parse_url_pairs_split pairs {CHR ''&''}"

definition url_params :: "string \<Rightarrow> url_param_lists option" where
  "url_params v =
     (case split_once_str ''://'' v of
        None \<Rightarrow> None
      | Some (_, rest) \<Rightarrow>
          let (before_fragment, fragment) =
                (case split_once (CHR ''#'') rest of Some (h, frag) \<Rightarrow> (h, Some frag) | None \<Rightarrow> (rest, None))
          in Some \<lparr>ul_query = (case split_once (CHR ''?'') before_fragment of
                        Some (_, q) \<Rightarrow> parse_url_pairs q | None \<Rightarrow> []),
                   ul_fragment = (case fragment of
                        Some frag \<Rightarrow> parse_url_pairs_split frag {CHR ''&'', CHR ''?''} | None \<Rightarrow> [])\<rparr>)"

definition has_secret_value_pattern :: "string \<Rightarrow> bool" where
  "has_secret_value_pattern v = (known_value_prefix v \<noteq> None)"

definition is_query_credential :: "url_param \<Rightarrow> bool" where
  "is_query_credential p =
     (up_value p \<noteq> [] \<and> (up_name p \<in> set SECRET_QUERY_PARAMS
        \<or> up_name p \<in> set TOKEN_QUERY_PARAMS \<and> has_secret_value_pattern (up_value p)))"

definition url_has_auth_query_param :: "string \<Rightarrow> bool" where
  "url_has_auth_query_param v =
     (case url_params v of
        None \<Rightarrow> False
      | Some params \<Rightarrow> list_ex (\<lambda>p. is_query_credential p \<or> up_name p \<in> set AUTH_QUERY_PARAMS
            \<or> up_name p \<in> set SECRET_QUERY_PARAMS) (ul_query params @ ul_fragment params))"

definition url_has_query_credential :: "string \<Rightarrow> bool" where
  "url_has_query_credential v =
     (case url_params v of None \<Rightarrow> False | Some params \<Rightarrow> list_ex is_query_credential (ul_query params))"

definition url_has_userinfo_password :: "string \<Rightarrow> bool" where
  "url_has_userinfo_password v =
     (case split_once_str ''://'' v of
        None \<Rightarrow> False
      | Some (_, rest) \<Rightarrow>
          (case rsplit_once (CHR ''@'') (takeWhile (\<lambda>c. c \<notin> {CHR ''/'', CHR ''?'', CHR ''#''}) rest) of
             None \<Rightarrow> False
           | Some (userinfo, _) \<Rightarrow>
               (case split_once (CHR '':'') userinfo of None \<Rightarrow> False | Some (_, pass) \<Rightarrow> pass \<noteq> [])))"

definition is_pem_private_key :: "string \<Rightarrow> bool" where
  "is_pem_private_key v =
     (case strip_prefix ''-----BEGIN '' v of
        None \<Rightarrow> False
      | Some rest \<Rightarrow>
          (case first_line rest of None \<Rightarrow> False | Some header \<Rightarrow> sublist ''PRIVATE KEY'' header))"

subsection \<open>The decision\<close>

definition is_twilio_account_sid :: "string \<Rightarrow> string \<Rightarrow> bool" where
  "is_twilio_account_sid upper_key v =
     (ends_with upper_key ''ACCOUNT_SID'' \<and> length v = 34 \<and> starts_with v ''AC'' \<and> list_all is_lower_hex (drop 2 v))"

definition high_entropy :: "string \<Rightarrow> bool" where
  "high_entropy v =
     (32 \<le> length v \<and> list_all (\<lambda>c. is_ascii_alphanumeric c \<or> c \<in> set ''-_+/='') v)"

definition deciding_rule :: "(string \<Rightarrow> string) \<Rightarrow> env_entry \<Rightarrow> classification_reason option" where
  "deciding_rule upper entry =
     (let key = upper (en_key entry); v = en_value entry in
      case List.find (\<lambda>p. sublist p key) NAME_RULE_FRAGMENTS of
        Some p \<Rightarrow> Some (KeyName p)
      | None \<Rightarrow>
      (case List.find (\<lambda>p. sublist p key) CONNECTION_KEY_PATTERNS of
        Some p \<Rightarrow> Some (ConnectionPattern p)
      | None \<Rightarrow>
      (case (case known_value_prefix v of
               Some p \<Rightarrow> Some p
             | None \<Rightarrow> List.find (starts_with v) NON_PUBLIC_VALUE_PREFIXES) of
        Some p \<Rightarrow> Some (ByValue (KnownPrefix p))
      | None \<Rightarrow>
         if sublist ''://'' v \<and> CHR ''@'' \<in> set v then Some (ByValue UrlCredentials)
         else if sublist ''://'' v \<and> url_has_auth_query_param v then Some (ByValue UrlAuthParam)
         else if is_twilio_account_sid key v then None
         else if high_entropy v then Some (ByValue HighEntropy)
         else None)))"

definition public_value_rule :: "string \<Rightarrow> value_rule option" where
  "public_value_rule v =
     (case known_value_prefix v of
        Some p \<Rightarrow> Some (KnownPrefix p)
      | None \<Rightarrow>
         if is_pem_private_key v then Some PemPrivateKey
         else if url_has_userinfo_password v then Some UrlCredentials
         else if url_has_query_credential v then Some UrlAuthParam
         else None)"

definition public_key_prefix :: "string \<Rightarrow> string option" where
  "public_key_prefix key = List.find (starts_with key) PUBLIC_KEY_PREFIXES"

definition is_public_key :: "string \<Rightarrow> bool" where
  "is_public_key key = (public_key_prefix key \<noteq> None)"

definition classify_with_reason ::
  "(string \<Rightarrow> string) \<Rightarrow> env_entry \<Rightarrow> secret_classification \<times> classification_reason" where
  "classify_with_reason upper entry =
     (case public_key_prefix (en_key entry) of
        Some p \<Rightarrow>
          (case public_value_rule (en_value entry) of
             Some rule \<Rightarrow> (Secret, PublicPrefixWithSecretValue p rule)
           | None \<Rightarrow> (PublicKey, PublicPrefix p))
      | None \<Rightarrow>
          (case deciding_rule upper entry of
             Some reason \<Rightarrow> (Secret, reason)
           | None \<Rightarrow> (NotSecret, NoSecretPattern)))"

definition classify_secret :: "(string \<Rightarrow> string) \<Rightarrow> env_entry \<Rightarrow> secret_classification" where
  "classify_secret upper entry = fst (classify_with_reason upper entry)"

definition real_secret_entries :: "(string \<Rightarrow> string) \<Rightarrow> dotenv_file \<Rightarrow> env_entry list" where
  "real_secret_entries upper f = filter (\<lambda>e. \<not> en_is_phantom e \<and> classify_secret upper e = Secret) (entries f)"

definition classified_entries :: "(string \<Rightarrow> string) \<Rightarrow> dotenv_file \<Rightarrow> (env_entry \<times> secret_classification) list" where
  "classified_entries upper f = map (\<lambda>e. (e, classify_secret upper e)) (filter (\<lambda>e. \<not> en_is_phantom e) (entries f))"

definition public_key_entries :: "(string \<Rightarrow> string) \<Rightarrow> dotenv_file \<Rightarrow> env_entry list" where
  "public_key_entries upper f = filter (\<lambda>e. \<not> en_is_phantom e \<and> classify_secret upper e = PublicKey) (entries f)"

end
