(* ===== verification/Classify_Claims.thy ===== *)
theory Classify_Claims
  imports Secret_Classify
begin

text \<open>
  What the classification guarantees: the value rules that override a public name protect the value
  under every name, and the verdict and its reason agree.
\<close>

subsection \<open>Known prefixes\<close>

definition credential_value :: "string \<Rightarrow> credential_pattern \<Rightarrow> bool" where
  "credential_value v p \<longleftrightarrow> starts_with v (cp_prefix p) \<and> (cp_prefix p \<noteq> ''ASIA''
     \<or> cp_min_tail p \<le> length (takeWhile (tail_byte p) (drop (length (cp_prefix p)) v)))"

lemma min_by_None: "min_by_prefix_len ps = None \<longleftrightarrow> ps = []"
  by (cases ps) (auto split: option.splits)

lemma min_by_Some:
  "min_by_prefix_len ps = Some p \<Longrightarrow> p \<in> set ps \<and> (\<forall>q \<in> set ps. length (cp_prefix p) \<le> length (cp_prefix q))"
proof (induction ps arbitrary: p)
  case (Cons a ps)
  then show ?case
    by (cases "min_by_prefix_len ps") (fastforce simp: min_by_None split: if_splits)+
qed simp

text \<open>A value has a known prefix when a credential of the catalog fits it, and it is the shortest.\<close>

lemma known_value_prefix_None:
  "known_value_prefix v = None \<longleftrightarrow> (\<forall>p \<in> set CREDENTIAL_PATTERNS. \<not> credential_value v p)"
  by (auto simp: known_value_prefix_def min_by_None filter_empty_conv credential_value_def)

lemma known_value_prefix_Some:
  assumes "known_value_prefix v = Some s"
  shows "(\<exists>p \<in> set CREDENTIAL_PATTERNS. cp_prefix p = s \<and> credential_value v p)
    \<and> (\<forall>p \<in> set CREDENTIAL_PATTERNS. credential_value v p \<longrightarrow> prefix s (cp_prefix p))"
proof -
  obtain p where p: "min_by_prefix_len (filter (\<lambda>p. cp_prefix p \<noteq> ''ASIA''
            \<or> cp_min_tail p \<le> length (takeWhile (tail_byte p) (drop (length (cp_prefix p)) v)))
         (filter (\<lambda>p. starts_with v (cp_prefix p)) CREDENTIAL_PATTERNS)) = Some p" "s = cp_prefix p"
    using assms by (auto simp: known_value_prefix_def)
  from min_by_Some [OF p(1)] have m: "p \<in> set CREDENTIAL_PATTERNS" "credential_value v p"
    "\<And>q. q \<in> set CREDENTIAL_PATTERNS \<Longrightarrow> credential_value v q \<Longrightarrow> length s \<le> length (cp_prefix q)"
    by (auto simp: credential_value_def p(2))
  have "prefix s (cp_prefix q)" if "q \<in> set CREDENTIAL_PATTERNS" "credential_value v q" for q
    using m(2) that(2) m(3) [OF that] p(2) by (auto simp: credential_value_def intro: prefix_length_prefix)
  then show ?thesis using m(1,2) p(2) by blast
qed

subsection \<open>Value rules\<close>

lemma split_once_str_Some: "split_once_str sep v = Some (a, b) \<Longrightarrow> v = a @ sep @ b"
  by (induction sep v arbitrary: a b rule: split_once_str.induct)
    (auto simp: prefix_def split: if_splits)

lemma split_once_str_sub: "split_once_str sep v = Some ab \<Longrightarrow> sublist sep v"
  using split_once_str_Some [of sep v] by (cases ab) simp

lemma userinfo_is_credentials:
  assumes "url_has_userinfo_password v"
  shows "sublist ''://'' v \<and> CHR ''@'' \<in> set v"
proof -
  obtain a rest where v: "split_once_str ''://'' v = Some (a, rest)"
    using assms by (auto simp: url_has_userinfo_password_def split: option.splits)
  let ?auth = "takeWhile (\<lambda>c. c \<notin> {CHR ''/'', CHR ''?'', CHR ''#''}) rest"
  obtain u w where "rsplit_once (CHR ''@'') ?auth = Some (u, w)"
    using assms v by (auto simp: url_has_userinfo_password_def split: option.splits)
  then obtain x y where "split_once (CHR ''@'') (rev ?auth) = Some (x, y)" by (auto simp: rsplit_once_def)
  then have "CHR ''@'' \<in> set (rev ?auth)" unfolding split_once_Some by (metis in_set_conv_decomp)
  then have "CHR ''@'' \<in> set rest" by (auto dest: set_takeWhileD)
  moreover have "set rest \<subseteq> set v" using split_once_str_Some [OF v] by auto
  ultimately show ?thesis using split_once_str_sub [OF v] by blast
qed

lemma query_is_auth:
  assumes "url_has_query_credential v"
  shows "sublist ''://'' v \<and> url_has_auth_query_param v"
proof -
  obtain ps where ps: "url_params v = Some ps" "list_ex is_query_credential (ul_query ps)"
    using assms by (auto simp: url_has_query_credential_def split: option.splits)
  then obtain a rest where "split_once_str ''://'' v = Some (a, rest)"
    by (auto simp: url_params_def split: option.splits)
  then have "sublist ''://'' v" by (rule split_once_str_sub)
  then show ?thesis using ps by (auto simp: url_has_auth_query_param_def list_ex_iff)
qed

lemma pem_is_prefix: "is_pem_private_key v \<Longrightarrow> starts_with v ''-----BEGIN ''"
  by (auto simp: is_pem_private_key_def strip_prefix_def split: option.splits if_splits)

lemma deciding_rule_known: "known_value_prefix v \<noteq> None \<Longrightarrow> en_value e = v \<Longrightarrow> deciding_rule upper e \<noteq> None"
  by (auto simp: deciding_rule_def Let_def split: option.splits)

lemma deciding_rule_public:
  assumes "public_value_rule (en_value e) \<noteq> None"
  shows "deciding_rule upper e \<noteq> None"
proof -
  let ?v = "en_value e"
  consider "known_value_prefix ?v \<noteq> None" | "starts_with ?v ''-----BEGIN ''"
    | "sublist ''://'' ?v" "CHR ''@'' \<in> set ?v" | "sublist ''://'' ?v" "url_has_auth_query_param ?v"
    using assms pem_is_prefix userinfo_is_credentials query_is_auth
    by (auto simp: public_value_rule_def split: option.splits if_splits)
  then show ?thesis
  proof cases
    case 2
    then have "List.find (starts_with ?v) NON_PUBLIC_VALUE_PREFIXES \<noteq> None"
      by (auto simp: NON_PUBLIC_VALUE_PREFIXES_def)
    then show ?thesis by (auto simp: deciding_rule_def Let_def split: option.splits)
  qed (auto simp: deciding_rule_def Let_def split: option.splits)
qed

text \<open>
  A value that holds a known secret prefix, a private key, a URL password or a URL credential
  parameter is a secret under every name, public prefix or not.
\<close>

theorem secret_value_protected:
  assumes "public_value_rule v \<noteq> None"
  shows "classify_secret upper \<lparr>en_key = key, en_value = v, en_is_phantom = ph\<rparr> = Secret"
  using assms deciding_rule_public [of "\<lparr>en_key = key, en_value = v, en_is_phantom = ph\<rparr>" upper]
  by (auto simp: classify_secret_def classify_with_reason_def split: option.splits)

lemma secret_value_protected_witness:
  "classify_secret (map ascii_upper) \<lparr>en_key = ''VITE_BACKEND'',
     en_value = ''https://h/cb?page=2&X-Amz-Signat%75re=ab12'', en_is_phantom = False\<rparr> = Secret"
  by (rule secret_value_protected) code_simp

text \<open>
  The verdict is exact and its reason is the one that decided: a public name is public unless a value
  rule overrides it, any other entry is a secret when a rule fires, and the reason names that rule.
\<close>

theorem verdict_matches_reason:
  "case classify_with_reason upper e of
     (Secret, reason) \<Rightarrow>
       (case public_key_prefix (en_key e) of
          Some p \<Rightarrow> \<exists>rule. public_value_rule (en_value e) = Some rule \<and> reason = PublicPrefixWithSecretValue p rule
        | None \<Rightarrow> deciding_rule upper e = Some reason)
   | (PublicKey, reason) \<Rightarrow>
       (\<exists>p. public_key_prefix (en_key e) = Some p \<and> reason = PublicPrefix p) \<and> public_value_rule (en_value e) = None
   | (NotSecret, reason) \<Rightarrow>
       public_key_prefix (en_key e) = None \<and> deciding_rule upper e = None \<and> public_value_rule (en_value e) = None
       \<and> reason = NoSecretPattern"
  using deciding_rule_public [of e upper]
  by (cases "public_value_rule (en_value e)") (auto simp: classify_with_reason_def split: option.splits)

subsection \<open>Lossy decoding\<close>

lemma lossy_marker_valid: "valid_utf8 [CHR 0xEF, CHR 0xBF, CHR 0xBD]"
  by code_simp

lemma take_scalar_valid: "scalar_len s = Some n \<Longrightarrow> valid_utf8 (take n s)"
proof -
  assume n: "scalar_len s = Some n"
  have b: "0 < n" "n \<le> length s" using scalar_len_bounds [OF n] by auto
  have "scalar_len (take n s) = Some n" by (rule scalar_len_cut [OF n]) simp
  moreover have "take n s \<noteq> []" using b by auto
  ultimately show ?thesis using valid_utf8_step [of "take n s"] by simp
qed

text \<open>Decoding a parameter gives valid text, and leaves valid text without escapes as it is.\<close>

lemma from_utf8_lossy_valid: "valid_utf8 (from_utf8_lossy s)"
proof (induction s rule: from_utf8_lossy.induct)
  case (1 s)
  show ?case
  proof (cases "s = []")
    case False
    show ?thesis
    proof (cases "scalar_len s")
      case None
      then have "from_utf8_lossy s = [CHR 0xEF, CHR 0xBF, CHR 0xBD] @ from_utf8_lossy (drop (lossy_skip s) s)"
        using False by (subst from_utf8_lossy.simps) simp
      then show ?thesis using valid_utf8_append [OF lossy_marker_valid] 1(1) [OF False None] by metis
    next
      case (Some n)
      then have "from_utf8_lossy s = take n s @ from_utf8_lossy (drop n s)"
        using False by (subst from_utf8_lossy.simps) simp
      then show ?thesis using valid_utf8_append [OF take_scalar_valid [OF Some]] 1(2) [OF False Some] by simp
    qed
  qed (simp add: from_utf8_lossy.simps)
qed

lemma from_utf8_lossy_id: "valid_utf8 s \<Longrightarrow> from_utf8_lossy s = s"
proof (induction "length s" arbitrary: s rule: less_induct)
  case less
  show ?case
  proof (cases "s = []")
    case False
    then obtain n where n: "scalar_len s = Some n" "valid_utf8 (drop n s)"
      using less(2) valid_utf8_step by blast
    have "from_utf8_lossy (drop n s) = drop n s"
      using less(1) [of "drop n s"] n(2) scalar_len_bounds [OF n(1)] False by auto
    then show ?thesis using False n(1) by (subst from_utf8_lossy.simps) simp
  qed (simp add: from_utf8_lossy.simps)
qed

lemma percent_bytes_plain: "CHR ''%'' \<notin> set s \<Longrightarrow> percent_bytes s = s"
  by (induction s rule: percent_bytes.induct) auto

lemma percent_decode_plain: "valid_utf8 s \<Longrightarrow> CHR ''%'' \<notin> set s \<Longrightarrow> percent_decode_lossy s = s"
  by (simp add: percent_decode_lossy_def percent_bytes_plain from_utf8_lossy_id)

end
