(* ===== verification/Dotenv_Example.thy ===== *)
theory Dotenv_Example
  imports Secret_Classify
begin

text \<open>
  The example file of \<open>phantom-core/src/dotenv.rs\<close>: comments that still hold secrets, placeholders,
  the spans to mask and the generated text.  The case mappings of Unicode and the version of the
  package are arguments.
\<close>

record example_host =
  eh_upper :: "string \<Rightarrow> string"
  eh_lower :: "string \<Rightarrow> string"
  eh_version :: string

text \<open>What generation reads of a project's configuration: the declared secrets, and for each service
  in order its name and the key it uses.\<close>

record example_config =
  ec_secrets :: "string list"
  ec_services :: "(string, string) btree_map"

definition INLINE_COMMENT_REMOVED :: string where
  "INLINE_COMMENT_REMOVED = ''# [comment removed by Phantom: it held a credential]''"

subsection \<open>Placeholders\<close>

definition config_declares_secret :: "example_config option \<Rightarrow> string \<Rightarrow> bool" where
  "config_declares_secret config key =
     (case config of
        None \<Rightarrow> False
      | Some cfg \<Rightarrow> key \<in> set (ec_secrets cfg) \<or> list_ex (\<lambda>(_, k). k = key) (ec_services cfg))"

definition generate_placeholder :: "example_host \<Rightarrow> string \<Rightarrow> example_config option \<Rightarrow> string" where
  "generate_placeholder h key config =
     (case (case config of None \<Rightarrow> None | Some cfg \<Rightarrow> List.find (\<lambda>(_, k). k = key) (ec_services cfg)) of
        Some (service, _) \<Rightarrow> ''your_'' @ service @ ''_here''
      | None \<Rightarrow>
          let key_lower = eh_lower h key in
          if sublist ''url'' key_lower then ''your_connection_string_here''
          else if sublist ''password'' key_lower \<or> sublist ''passwd'' key_lower then ''your_password_here''
          else ''your_'' @ key_lower @ ''_here'')"

definition is_example_template_file :: "string \<Rightarrow> bool" where
  "is_example_template_file path =
     (rev (takeWhile (\<lambda>c. c \<noteq> CHR ''/'' \<and> c \<noteq> BACKSLASH) (rev path))
        \<in> {''.env.example'', ''.env.sample'', ''.env.template''})"

definition is_example_placeholder :: "string \<Rightarrow> bool" where
  "is_example_placeholder v =
     (if v = [] then True
      else if 128 < length v then False
      else case (case strip_prefix ''your_'' v of None \<Rightarrow> None | Some rest \<Rightarrow> strip_suffix ''_here'' rest) of
          None \<Rightarrow> False
        | Some middle \<Rightarrow> middle \<noteq> [] \<and> list_all (\<lambda>c. is_ascii_lowercase c \<or> is_ascii_digit c \<or> c = CHR ''_'' \<or> c = CHR ''-'') middle)"

definition between :: "string \<Rightarrow> string \<Rightarrow> string \<Rightarrow> string option" where
  "between p q s = (case strip_prefix p s of None \<Rightarrow> None | Some rest \<Rightarrow> strip_suffix q rest)"

definition is_commented_placeholder :: "example_host \<Rightarrow> string \<Rightarrow> bool" where
  "is_commented_placeholder h v =
     (let unquoted = (case between [DQ] [DQ] v of Some u \<Rightarrow> u
            | None \<Rightarrow> (case between [SQ] [SQ] v of Some u \<Rightarrow> u | None \<Rightarrow> v)) in
      if is_example_placeholder unquoted then True
      else if 64 < length unquoted then False
      else
        let (inner, bracketed) = (case between ''<'' ''>'' unquoted of Some u \<Rightarrow> (u, True) | None \<Rightarrow> (unquoted, False)) in
        if inner = [] then False
        else
          let matches_value_rule = (\<lambda>candidate.
                deciding_rule (eh_upper h) \<lparr>en_key = [], en_value = candidate, en_is_phantom = False\<rparr> \<noteq> None
                \<or> public_value_rule candidate \<noteq> None) in
          if matches_value_rule inner
             \<or> list_ex matches_value_rule (split_any {CHR ''.'', CHR '' ''} inner) then False
          else if list_all (\<lambda>c. c \<in> set ''.*xX-_'') inner then True
          else
            let words = split_any {CHR ''.'', CHR ''_'', CHR ''-'', CHR '' ''} inner;
                plain_words = list_all (\<lambda>w. w \<noteq> [] \<and> length w \<le> 24 \<and> list_all is_ascii_alphanumeric w) words;
                your_here = (2 \<le> length words \<and> map ascii_lower (words ! 0) = ''your''
                  \<and> map ascii_lower (words ! (length words - 1)) = ''here'')
            in plain_words \<and> (bracketed \<or> your_here))"

subsection \<open>Comments\<close>

text \<open>\<open>split_whitespace\<close> and \<open>trim_matches\<close>.\<close>

function split_whitespace_from :: "string \<Rightarrow> string \<Rightarrow> string list" where
  "split_whitespace_from word s =
     (if s = [] then (if word = [] then [] else [word])
      else case List.find (\<lambda>w. w \<noteq> [] \<and> starts_with s w) white_space of
          Some w \<Rightarrow> (if word = [] then [] else [word]) @ split_whitespace_from [] (drop (length w) s)
        | None \<Rightarrow> split_whitespace_from (word @ [s ! 0]) (drop 1 s))"
  by pat_completeness auto
termination
  by (relation "measure (\<lambda>(_, s). length s)") (auto simp: find_Some_iff)

declare split_whitespace_from.simps [simp del]

definition split_whitespace :: "string \<Rightarrow> string list" where
  "split_whitespace s = split_whitespace_from [] s"

definition trim_word :: "string \<Rightarrow> string" where
  "trim_word word =
     (let mark = (\<lambda>c. c \<in> set (''#`()[]{}<>,;.!'' @ [DQ, SQ])) in
      rev (dropWhile mark (rev (dropWhile mark word))))"

definition comment_holds_credential :: "example_host \<Rightarrow> string \<Rightarrow> bool" where
  "comment_holds_credential h comment =
     list_ex (\<lambda>word0.
       let word = trim_word word0;
           candidates = [word]
             @ (case split_once (CHR ''='') word of None \<Rightarrow> [] | Some (_, rest) \<Rightarrow> [trim_word rest])
             @ (case split_once (CHR '':'') word of None \<Rightarrow> [] | Some (_, rest) \<Rightarrow> [trim_word rest])
       in list_ex (\<lambda>candidate. 16 \<le> length candidate
            \<and> deciding_rule (eh_upper h) \<lparr>en_key = [], en_value = candidate, en_is_phantom = False\<rparr> \<noteq> None) candidates)
       (split_whitespace comment)"

definition physical_line_number :: "string \<Rightarrow> nat \<Rightarrow> nat" where
  "physical_line_number source offset =
     (let before = take offset source in
      1 + length (filter (\<lambda>i. before ! i = LF \<or> before ! i = CR \<and> byte_at before (i + 1) \<noteq> Some LF) [0..<length before]))"

text \<open>The tail of a comment line: the offset of its first mark, the offset of the text after the
  marks and blanks, and that text.\<close>

definition comment_tail :: "nat \<Rightarrow> string \<Rightarrow> (nat \<times> nat \<times> string) list" where
  "comment_tail line_end line =
     (let trimmed = dropWhile is_blank line in
      if starts_with trimmed ''#'' then
        let tail = dropWhile is_blank (dropWhile (\<lambda>c. c = CHR ''#'') trimmed)
        in [(line_end - length trimmed, line_end - length tail, tail)]
      else [])"

lemma record_ahead:
  assumes "r \<in> set records" and "\<not> snd (pr_record_span r) \<le> cursor"
  shows "cursor < snd (pr_record_span (dropWhile (\<lambda>r. snd (pr_record_span r) \<le> cursor) records ! 0))"
proof -
  have "dropWhile (\<lambda>r. snd (pr_record_span r) \<le> cursor) records \<noteq> []" using assms by (auto simp: dropWhile_eq_Nil_conv)
  then show ?thesis
    using hd_dropWhile [of "\<lambda>r. snd (pr_record_span r) \<le> cursor" records] by (simp add: hd_conv_nth)
qed

lemma line_ahead: "cursor < length source \<Longrightarrow> (line_end, next_line) = physical_line_bounds (drop cursor source)
    \<Longrightarrow> 0 < next_line"
  using line_bounds_pos [of "drop cursor source"] by (metis drop_eq_Nil linorder_not_less snd_conv)

function tails_from :: "string \<Rightarrow> parsed_record list \<Rightarrow> nat \<Rightarrow> (nat \<times> nat \<times> string) list" where
  "tails_from source records cursor =
     (if \<not> cursor < length source then []
      else
        let records' = dropWhile (\<lambda>r. snd (pr_record_span r) \<le> cursor) records in
        if records' \<noteq> [] \<and> fst (pr_record_span (records' ! 0)) \<le> cursor
        then tails_from source records' (snd (pr_record_span (records' ! 0)))
        else case physical_line_bounds (drop cursor source) of (line_end, next_line) \<Rightarrow>
          comment_tail (cursor + line_end) (take line_end (drop cursor source))
            @ tails_from source records' (cursor + next_line))"
  by pat_completeness auto
termination
  by (relation "measure (\<lambda>(source, _, cursor). length source - cursor)")
    (auto intro!: diff_less_mono2 intro: record_ahead simp: line_ahead)

declare tails_from.simps [simp del]

definition commented_tails :: "dotenv_file \<Rightarrow> (nat \<times> nat \<times> string) list" where
  "commented_tails f = tails_from (df_source f) (df_records f) (bom_len (df_source f))"

definition commented_secret_value_span ::
  "example_host \<Rightarrow> string \<Rightarrow> example_config option \<Rightarrow> ((nat \<times> nat) \<times> string) option" where
  "commented_secret_value_span h tail config =
     (case df_records (parse_str tail) of
        r # _ \<Rightarrow>
          if \<not> en_is_phantom (pr_entry r)
             \<and> (config_declares_secret config (en_key (pr_entry r)) \<or> classify_secret (eh_upper h) (pr_entry r) = Secret)
          then Some (pr_value_span r, en_key (pr_entry r)) else None
      | [] \<Rightarrow>
          let assignment = (case strip_prefix ''export '' tail of Some a \<Rightarrow> a | None \<Rightarrow> tail) in
          (case find_byte (CHR ''='') assignment of
             None \<Rightarrow> None
           | Some eq \<Rightarrow>
               let key = trim (take eq assignment) in
               if key = [] \<or> \<not> list_all key_char key then None
               else
                 let value_offset = length tail - length assignment + eq + 1;
                     raw = drop value_offset tail;
                     value_start = value_offset + blanks raw;
                     value_end = value_offset + length (trim_blanks_end raw)
                 in if value_end \<le> value_start then None
                    else
                      let text' = substr tail value_start value_end;
                          judged = (if starts_with text' [DQ] \<or> starts_with text' [SQ] then drop 1 text' else text')
                      in if config_declares_secret config key
                            \<or> classify_secret (eh_upper h) \<lparr>en_key = key, en_value = judged, en_is_phantom = False\<rparr> = Secret
                         then Some ((value_start, value_end), key) else None))"

definition shift_span :: "nat \<Rightarrow> nat \<times> nat \<Rightarrow> nat \<times> nat" where
  "shift_span n span = (n + fst span, n + snd span)"

definition commented_secret_value_spans ::
  "example_host \<Rightarrow> dotenv_file \<Rightarrow> example_config option \<Rightarrow> ((nat \<times> nat) \<times> string) list" where
  "commented_secret_value_spans h f config =
     List.map_filter (\<lambda>(_, tail_start, tail).
         map_option (\<lambda>(span, key). (shift_span tail_start span, key)) (commented_secret_value_span h tail config))
       (commented_tails f)"

definition credential_comment_span :: "example_host \<Rightarrow> string \<Rightarrow> nat \<times> nat \<Rightarrow> (nat \<times> nat) option" where
  "credential_comment_span h source value_span =
     (let quoted = (0 < fst value_span \<and> (source ! (fst value_span - 1) = DQ \<or> source ! (fst value_span - 1) = SQ));
          after = snd value_span + (if quoted then 1 else 0);
          line_end = after + fst (physical_line_bounds (drop after source));
          hash = after + blanks (substr source after line_end)
      in if byte_at source hash = Some (CHR ''#'') \<and> comment_holds_credential h (substr source hash line_end)
         then Some (hash, line_end) else None)"

definition credential_comment_spans :: "example_host \<Rightarrow> dotenv_file \<Rightarrow> (nat \<times> nat) list" where
  "credential_comment_spans h f =
     List.map_filter (\<lambda>r. credential_comment_span h (df_source f) (pr_value_span r)) (df_records f)
     @ List.map_filter (\<lambda>(_, tail_start, tail).
         case df_records (parse_str tail) of
           [] \<Rightarrow> None
         | r # _ \<Rightarrow> map_option (shift_span tail_start) (credential_comment_span h tail (pr_value_span r)))
       (commented_tails f)"

definition credential_prose_comment_spans ::
  "example_host \<Rightarrow> dotenv_file \<Rightarrow> example_config option \<Rightarrow> (nat \<times> nat) list" where
  "credential_prose_comment_spans h f config =
     map (\<lambda>(comment_start', tail_start, tail). (comment_start', tail_start + length tail))
       (filter (\<lambda>(_, _, tail). df_records (parse_str tail) = []
            \<and> commented_secret_value_span h tail config = None \<and> comment_holds_credential h tail)
         (commented_tails f))"

definition commented_secret_assignments :: "example_host \<Rightarrow> dotenv_file \<Rightarrow> (string \<times> nat) list" where
  "commented_secret_assignments h f =
     map (\<lambda>(span, key). (key, physical_line_number (df_source f) (fst span)))
       (filter (\<lambda>(span, _). \<not> is_commented_placeholder h (substr (df_source f) (fst span) (snd span)))
         (commented_secret_value_spans h f None))"

definition credential_comment_lines :: "example_host \<Rightarrow> dotenv_file \<Rightarrow> nat list" where
  "credential_comment_lines h f =
     (let named = set (map snd (commented_secret_assignments h f)) in
      remdups_adj (sort (filter (\<lambda>line. line \<notin> named)
        (map (\<lambda>span. physical_line_number (df_source f) (fst span))
          (credential_comment_spans h f @ credential_prose_comment_spans h f None)))))"

definition line_holds_credential_comment :: "example_host \<Rightarrow> string \<Rightarrow> bool" where
  "line_holds_credential_comment h line =
     (let parsed = parse_str line in
      commented_secret_assignments h parsed \<noteq> [] \<or> credential_comment_spans h parsed \<noteq> []
      \<or> credential_prose_comment_spans h parsed None \<noteq> [])"

subsection \<open>The example file\<close>

definition masked_record :: "example_host \<Rightarrow> example_config option \<Rightarrow> parsed_record \<Rightarrow> bool" where
  "masked_record h config r \<longleftrightarrow> en_is_phantom (pr_entry r)
     \<or> config_declares_secret config (en_key (pr_entry r)) \<or> classify_secret (eh_upper h) (pr_entry r) = Secret"

definition example_replacements ::
  "example_host \<Rightarrow> dotenv_file \<Rightarrow> example_config option \<Rightarrow> ((nat \<times> nat) \<times> string) list" where
  "example_replacements h f config =
     map (\<lambda>r. (pr_value_span r, render_replacement (df_source f) (pr_value_span r)
           (generate_placeholder h (en_key (pr_entry r)) config)))
       (filter (masked_record h config) (df_records f))
     @ map (\<lambda>(span, key). (span, render_replacement (df_source f) span (generate_placeholder h key config)))
       (commented_secret_value_spans h f config)
     @ map (\<lambda>span. (span, INLINE_COMMENT_REMOVED))
       (credential_comment_spans h f @ credential_prose_comment_spans h f config)"

fun join_texts :: "string \<Rightarrow> string list \<Rightarrow> string" where
  "join_texts eol [] = []"
| "join_texts eol [line] = line"
| "join_texts eol (line # lines) = line @ eol @ join_texts eol lines"

definition example_header :: "example_host \<Rightarrow> string list" where
  "example_header h =
     [''# Environment variables for this project'',
      ''# Copy to .env and fill in real values, or use an installed local Phantom binary:'',
      ''#   phantom init'',
      ''# Reviewed release: https://github.com/ashlrai/phantom-secrets/releases/tag/v'' @ eh_version h,
      ''#'', ''# See https://phm.dev for details'', []]"

definition example_eol :: "string \<Rightarrow> string" where
  "example_eol source =
     (if sublist [CR, LF] source then [CR, LF] else if LF \<in> set source then [LF]
      else if CR \<in> set source then [CR] else [LF])"

text \<open>The text around the spliced source: a byte order mark first, then the header.\<close>

definition example_layout :: "example_host \<Rightarrow> string \<Rightarrow> string \<Rightarrow> string" where
  "example_layout h source body =
     (let (preamble, body') = (case strip_prefix UTF8_BOM body of
            None \<Rightarrow> ([], body) | Some without_bom \<Rightarrow> (UTF8_BOM, without_bom));
          eol = example_eol source
      in preamble @ join_texts eol (example_header h) @ eol @ body')"

definition sorted_replacements :: "((nat \<times> nat) \<times> string) list \<Rightarrow> ((nat \<times> nat) \<times> string) list" where
  "sorted_replacements replacements = sort_key (\<lambda>(span, _). fst span) replacements"

definition generate_example_content ::
  "example_host \<Rightarrow> dotenv_file \<Rightarrow> example_config option \<Rightarrow> (string, dotenv_error) result" where
  "generate_example_content h f config =
     and_then (validate_for_mutation f) (\<lambda>_.
       Ok (example_layout h (df_source f)
         (splice_source (df_source f) (sorted_replacements (example_replacements h f config)))))"

end
