(* ===== verification/Example_Facts.thy ===== *)
theory Example_Facts
  imports Dotenv_Example Dotenv_Claims
begin

text \<open>
  Lemmas on \<open>Dotenv_Example\<close>: where the comments of records and the comment lines of a file lie, and
  why the spans that are replaced never meet.
\<close>

subsection \<open>Records and their comments\<close>

lemma parse_loop_all:
  assumes "\<And>c l r i n k. c \<le> length content \<Longrightarrow> parse_step c l (drop c content) = Parsed r i n k \<Longrightarrow> P r"
    and "rest = drop c content" and "c \<le> length content"
  shows "list_all P (fst (parse_loop c l rest))"
  using assms(2,3)
proof (induction c l rest rule: parse_loop.induct)
  case (1 c l rest)
  show ?case
  proof (cases "rest = []")
    case False
    show ?thesis
    proof (cases "parse_step c l rest")
      case (Skipped i n k)
      have "0 < n \<and> n \<le> length rest" using parse_step_reads(1) [OF False Skipped] .
      then have "drop n rest = drop (c + n) content" "c + n \<le> length content" using 1(3,4) by (auto simp: add.commute)
      from 1(1) [OF False Skipped this] show ?thesis
        using Skipped False by (auto simp: parse_loop.simps [of c l rest] split: prod.splits)
    next
      case (Stopped i)
      then show ?thesis using False by (simp add: parse_loop.simps [of c l rest])
    next
      case (Parsed r i n k)
      have "0 < n \<and> n \<le> length rest" using parse_step_reads(2) [OF False Parsed] .
      then have "drop n rest = drop (c + n) content" "c + n \<le> length content" using 1(3,4) by (auto simp: add.commute)
      from 1(2) [OF False Parsed this] have "list_all P (fst (parse_loop (c + n) (l + k) (drop n rest)))" .
      moreover have "P r" using assms(1) [OF 1(4)] Parsed 1(3) by simp
      ultimately show ?thesis using Parsed False
        by (auto simp: parse_loop.simps [of c l rest] split: prod.splits)
    qed
  qed simp
qed

text \<open>A comment after a value starts behind it and ends with its line.\<close>

lemma comment_after:
  assumes "drop after source = x @ nl @ tail" and "plain_line x" and "eol_ok nl tail" and "after \<le> length source"
    and "byte_at source (after + blanks (substr source after (after + fst (physical_line_bounds (drop after source))))) = Some (CHR ''#'')"
  shows "fst (physical_line_bounds (drop after source)) = length x"
    and "blanks (substr source after (after + fst (physical_line_bounds (drop after source)))) < length x"
proof -
  show len: "fst (physical_line_bounds (drop after source)) = length x"
    using line_bounds_line [OF assms(2,3)] assms(1) by simp
  have sub: "substr source after (after + length x) = x" by (simp add: substr_def assms(1))
  have b: "blanks x \<le> length x" by (simp add: blanks_def length_takeWhile_le)
  have at: "byte_at (x @ nl @ tail) (blanks x) = Some (CHR ''#'')"
    using assms(5) [unfolded len sub] byte_at_drop [OF assms(4), of "blanks x"] by (simp add: assms(1))
  have "blanks x \<noteq> length x"
  proof
    assume "blanks x = length x"
    then have "byte_at (x @ nl @ tail) (length x) = Some (CHR ''#'')" using at by simp
    then have "(case nl @ tail of [] \<Rightarrow> None | c # _ \<Rightarrow> Some c) = Some (CHR ''#'')" by (simp only: byte_at_append)
    then show False using eol_first [OF assms(3)] by (cases "nl @ tail") auto
  qed
  then show "blanks (substr source after (after + fst (physical_line_bounds (drop after source)))) < length x"
    using b unfolding len sub by simp
qed

definition comment_room :: "string \<Rightarrow> parsed_record \<Rightarrow> bool" where
  "comment_room source r \<longleftrightarrow> (\<forall>h a b. credential_comment_span h source (pr_value_span r) = Some (a, b) \<longrightarrow>
     snd (pr_value_span r) \<le> a \<and> a < b \<and> b \<le> snd (pr_record_span r))"

lemma comment_room_intro:
  assumes "drop after source = x @ nl @ tail" and "plain_line x" and "eol_ok nl tail" and "after \<le> length source"
    and "after = snd (pr_value_span r) + (if 0 < fst (pr_value_span r)
      \<and> (source ! (fst (pr_value_span r) - 1) = DQ \<or> source ! (fst (pr_value_span r) - 1) = SQ) then 1 else 0)"
    and "after + length x \<le> snd (pr_record_span r)"
  shows "comment_room source r"
  using comment_after [OF assms(1-4)] assms(5,6)
  unfolding comment_room_def credential_comment_span_def Let_def
  by (fastforce split: if_splits)

lemma parsed_comment_room:
  assumes "c \<le> length content" and "parse_step c l (drop c content) = Parsed r i n k"
  shows "comment_room content r"
  using assms(2)
proof (cases rule: parsed_shape)
  case (unquoted p key g raw nl tail)
  note ok = parsed_span [OF assms(2) refl assms(1)]
  define v where "v = unquoted_value (g \<noteq> []) raw"
  obtain x where raw: "raw = v @ x" unfolding v_def by (rule unquoted_value_split [of raw "g \<noteq> []"]) auto
  let ?vs = "length p + 1 + length g"
  have r: "pr_value_span r = (c + ?vs, c + (?vs + length v))" "pr_record_span r = (c, c + (?vs + length raw + length nl))"
    using step_unquoted [OF unquoted(2-6), of c l] assms(2) unquoted(1) by (auto simp: v_def parsed_def)
  have d: "drop c content = (p @ CHR ''='' # g) @ v @ x @ nl @ tail" using unquoted(1) raw by simp
  have len: "c + ?vs + length v \<le> length content"
    using arg_cong [OF d, of length] assms(1) by simp
  have "drop (c + (?vs + length v)) content = drop (?vs + length v) (drop c content)" by (simp add: add.commute)
  also have "\<dots> = x @ nl @ tail" unfolding d by simp
  finally have dx: "drop (c + (?vs + length v)) content = x @ nl @ tail" .
  have "content ! (c + ?vs - 1) = drop c content ! (length p + length g)" using assms(1) by simp
  also have "\<dots> = (if g = [] then CHR ''='' else last g)"
  proof (cases g rule: rev_cases)
    case Nil
    then show ?thesis unfolding d by (simp add: nth_append)
  next
    case (snoc g' b)
    then show ?thesis unfolding d by (simp add: nth_append)
  qed
  finally have b: "content ! (c + ?vs - 1) = (if g = [] then CHR ''='' else last g)" .
  have "is_blank (last g)" if "g \<noteq> []" using unquoted(3) that by (simp add: all_blank_def)
  then have nq: "\<not> (content ! (c + ?vs - 1) = DQ \<or> content ! (c + ?vs - 1) = SQ)"
    unfolding b by (auto simp: is_blank_def)
  show ?thesis
    by (rule comment_room_intro [OF dx _ unquoted(6)]) (use unquoted(5) raw r nq len in auto)
next
  case (quoted p key g q v t nl tail)
  let ?vs = "length p + 2 + length g"
  have r: "pr_value_span r = (c + ?vs, c + (?vs + length v))"
    "pr_record_span r = (c, c + (length p + 3 + length g + length v + length t + length nl))"
    using step_quoted [OF quoted(2-5) quoted(6) [rule_format] quoted(7,8), of c l] assms(2) quoted(1)
    by (auto simp: parsed_def)
  have d: "drop c content = (p @ CHR ''='' # g) @ q # v @ q # t @ nl @ tail" using quoted(1) by simp
  have len: "c + (?vs + length v + 1) \<le> length content"
    using arg_cong [OF d, of length] assms(1) by simp
  have "drop (c + (?vs + length v + 1)) content = drop (?vs + length v + 1) (drop c content)" by (simp add: add.commute)
  also have "\<dots> = drop (length (p @ CHR ''='' # g @ q # v @ [q])) ((p @ CHR ''='' # g @ q # v @ [q]) @ t @ nl @ tail)"
    unfolding d by (rule arg_cong2 [where f = drop]) simp_all
  also have "\<dots> = t @ nl @ tail" 
    by (rule append_eq_conv_conj [THEN iffD1, OF refl, THEN conjunct2, symmetric])
  finally have dx: "drop (c + (?vs + length v + 1)) content = t @ nl @ tail" .
  have "content ! (c + ?vs - 1) = drop c content ! (length p + 1 + length g)" using assms(1) by simp
  also have "\<dots> = q" unfolding d by (simp add: nth_append)
  finally have b: "content ! (c + ?vs - 1) = q" .
  show ?thesis
    by (rule comment_room_intro [OF dx quoted(7,8)]) (use quoted(4) r b len in auto)
qed

subsection \<open>Comment lines\<close>

definition tail_ok :: "string \<Rightarrow> nat \<Rightarrow> nat \<times> nat \<times> string \<Rightarrow> bool" where
  "tail_ok source c = (\<lambda>(cs, ts, t). c \<le> cs \<and> cs < ts \<and> ts + length t \<le> length source)"

definition tail_before :: "nat \<times> nat \<times> string \<Rightarrow> nat \<times> nat \<times> string \<Rightarrow> bool" where
  "tail_before = (\<lambda>(_, ts, t) (cs', _, _). ts + length t \<le> cs')"

definition tail_clear :: "parsed_record list \<Rightarrow> nat \<times> nat \<times> string \<Rightarrow> bool" where
  "tail_clear rs = (\<lambda>(cs, ts, t). \<forall>r \<in> set rs.
     snd (pr_record_span r) \<le> cs \<or> ts + length t \<le> fst (pr_record_span r))"

lemma comment_tail_facts:
  assumes "(cs, ts, t) \<in> set (comment_tail (c + length line) line)"
  shows "c \<le> cs \<and> cs < ts \<and> ts + length t = c + length line"
proof -
  define trimmed where "trimmed = dropWhile is_blank line"
  define body where "body = dropWhile (\<lambda>c. c = CHR ''#'') trimmed"
  have m: "starts_with trimmed ''#''" "cs = c + length line - length trimmed"
    "ts = c + length line - length (dropWhile is_blank body)" "t = dropWhile is_blank body"
    using assms by (auto simp: comment_tail_def Let_def trimmed_def body_def split: if_splits)
  have "length body < length trimmed"
    using m(1) length_dropWhile_le [of "\<lambda>c. c = CHR ''#''" "tl trimmed"]
    by (cases trimmed) (auto simp: body_def)
  moreover have "length (dropWhile is_blank body) \<le> length body" "length trimmed \<le> length line"
    by (simp_all add: trimmed_def length_dropWhile_le)
  ultimately show ?thesis using m(2-4) by auto
qed

lemma skipped_length: "parse_step c l rest = Skipped i n k \<Longrightarrow> n = snd (physical_line_bounds rest)"
  by (auto simp: parse_step_def read_quoted_def read_unquoted_def Let_def
      split: prod.splits line_head.splits option.splits if_splits)

lemma tails_from_Cons:
  "snd (pr_record_span r) \<le> cursor \<Longrightarrow> tails_from source (r # rs) cursor = tails_from source rs cursor"
  by (subst (1 2) tails_from.simps) simp

lemma tails_from_record:
  "cursor < length source \<Longrightarrow> cursor < snd (pr_record_span r) \<Longrightarrow> fst (pr_record_span r) \<le> cursor \<Longrightarrow>
     tails_from source (r # rs) cursor = tails_from source rs (snd (pr_record_span r))"
  by (subst tails_from.simps) (simp add: tails_from_Cons)

lemma tails_from_line:
  assumes "cursor < length source" and "\<forall>r \<in> set rs. cursor < fst (pr_record_span r) \<and> fst (pr_record_span r) \<le> snd (pr_record_span r)"
  shows "tails_from source rs cursor =
    (case physical_line_bounds (drop cursor source) of (line_end, next_line) \<Rightarrow>
       comment_tail (cursor + line_end) (take line_end (drop cursor source)) @ tails_from source rs (cursor + next_line))"
proof -
  have "dropWhile (\<lambda>r. snd (pr_record_span r) \<le> cursor) rs = rs"
    using assms(2) by (cases rs) auto
  moreover have "rs \<noteq> [] \<Longrightarrow> \<not> fst (pr_record_span (rs ! 0)) \<le> cursor" using assms(2) by (cases rs) auto
  ultimately show ?thesis using assms(1) by (subst tails_from.simps) (auto simp: Let_def)
qed

lemma tails_from_end: "\<not> cursor < length source \<Longrightarrow> tails_from source rs cursor = []"
  by (subst tails_from.simps) simp

definition tails_good :: "string \<Rightarrow> parsed_record list \<Rightarrow> nat \<Rightarrow> bool" where
  "tails_good source rs c \<longleftrightarrow> list_all (tail_ok source c) (tails_from source rs c)
     \<and> list_all (tail_clear rs) (tails_from source rs c) \<and> sorted_wrt tail_before (tails_from source rs c)"

text \<open>One comment line in front of good tails.\<close>

lemma tails_good_line:
  assumes "c < length source" and "\<forall>r \<in> set rs. c + snd (physical_line_bounds (drop c source)) \<le> fst (pr_record_span r)
      \<and> fst (pr_record_span r) \<le> snd (pr_record_span r)"
    and "tails_good source rs (c + snd (physical_line_bounds (drop c source)))"
  shows "tails_good source rs c"
proof -
  obtain le' nl where b: "physical_line_bounds (drop c source) = (le', nl)" by (cases "physical_line_bounds (drop c source)")
  have n: "0 < nl" "le' \<le> nl" "nl \<le> length source - c"
    using line_bounds_pos [of "drop c source"] line_bounds_le [of "drop c source"] assms(1) b by auto
  let ?line = "take le' (drop c source)"
  have len: "length ?line = le'" using n by simp
  have eq: "tails_from source rs c = comment_tail (c + length ?line) ?line @ tails_from source rs (c + nl)"
    using tails_from_line [of c source rs] assms(1,2) n b by (fastforce simp: len)
  have here: "c \<le> cs \<and> cs < ts \<and> ts + length t = c + le'" if "(cs, ts, t) \<in> set (comment_tail (c + length ?line) ?line)" for cs ts t
    using comment_tail_facts [OF that] by (simp only: len)
  have one: "sorted_wrt tail_before (comment_tail (c + length ?line) ?line)"
    by (auto simp: comment_tail_def Let_def)
  have later: "c + nl \<le> cs" if "(cs, ts, t) \<in> set (tails_from source rs (c + nl))" for cs ts t
    using assms(3) that b by (auto simp: tails_good_def list_all_iff tail_ok_def)
  show ?thesis unfolding tails_good_def eq list_all_append sorted_wrt_append
  proof (intro conjI)
    show "list_all (tail_ok source c) (comment_tail (c + length ?line) ?line)"
      using here n assms(1) by (fastforce simp: list_all_iff tail_ok_def)
    show "list_all (tail_ok source c) (tails_from source rs (c + nl))"
      using assms(3) b by (auto simp: tails_good_def list_all_iff tail_ok_def)
    show "list_all (tail_clear rs) (comment_tail (c + length ?line) ?line)"
      using here n assms(2) b by (fastforce simp: list_all_iff tail_clear_def)
    show "list_all (tail_clear rs) (tails_from source rs (c + nl))"
      using assms(3) b by (auto simp: tails_good_def)
    show "\<forall>x \<in> set (comment_tail (c + length ?line) ?line). \<forall>y \<in> set (tails_from source rs (c + nl)). tail_before x y"
      using here later n by (fastforce simp: tail_before_def)
    show "sorted_wrt tail_before (tails_from source rs (c + nl))" using assms(3) b by (auto simp: tails_good_def)
  qed (rule one)
qed

lemma tails_good_none: "tails_good source [] c"
proof (induction "length source - c" arbitrary: c rule: less_induct)
  case less
  show ?case
  proof (cases "c < length source")
    case True
    then have "0 < snd (physical_line_bounds (drop c source))" by (intro line_bounds_pos) simp
    then have "length source - (c + snd (physical_line_bounds (drop c source))) < length source - c" using True by simp
    then show ?thesis using tails_good_line [OF True _ less] by simp
  qed (simp add: tails_good_def tails_from_end)
qed

lemma tails_good_loop:
  assumes "rest = drop c content" and "c \<le> length content"
  shows "tails_good content (fst (parse_loop c l rest)) c"
  using assms
proof (induction c l rest rule: parse_loop.induct)
  case (1 c l rest)
  show ?case
  proof (cases "rest = []")
    case True
    then show ?thesis using 1(3,4) by (simp add: tails_good_def tails_from_end)
  next
    case False
    then have c: "c < length content" using 1(3) by auto
    show ?thesis
    proof (cases "parse_step c l rest")
      case (Skipped i n k)
      have n: "0 < n \<and> n \<le> length rest" using parse_step_reads(1) [OF False Skipped] .
      have d: "drop n rest = drop (c + n) content" "c + n \<le> length content" using 1(3,4) n by (auto simp: add.commute)
      have eq: "fst (parse_loop c l rest) = fst (parse_loop (c + n) (l + k) (drop n rest))"
        using Skipped False by (auto simp: parse_loop.simps [of c l rest] split: prod.splits)
      have nl: "n = snd (physical_line_bounds (drop c content))" using skipped_length [OF Skipped] 1(3) by simp
      have "list_all (span_ok content (c + n)) (fst (parse_loop (c + n) (l + k) (drop n rest)))"
        using parse_loop_spans [OF d] by blast
      then have "\<forall>r \<in> set (fst (parse_loop c l rest)). c + n \<le> fst (pr_record_span r)
          \<and> fst (pr_record_span r) \<le> snd (pr_record_span r)"
        unfolding eq by (auto simp: list_all_iff span_ok_def)
      then have "tails_good content (fst (parse_loop c l rest)) c"
        using 1(1) [OF False Skipped d] unfolding eq nl by (intro tails_good_line [OF c])
      then show ?thesis .
    next
      case (Stopped i)
      then show ?thesis using False tails_good_none by (simp add: parse_loop.simps [of c l rest])
    next
      case (Parsed r i n k)
      have n: "0 < n \<and> n \<le> length rest" using parse_step_reads(2) [OF False Parsed] .
      have d: "drop n rest = drop (c + n) content" "c + n \<le> length content" using 1(3,4) n by (auto simp: add.commute)
      let ?rs = "fst (parse_loop (c + n) (l + k) (drop n rest))"
      have eq: "fst (parse_loop c l rest) = r # ?rs"
        using Parsed False by (auto simp: parse_loop.simps [of c l rest] split: prod.splits)
      have r: "pr_record_span r = (c, c + n)" using parsed_span [OF Parsed 1(3,4)] by simp
      have t: "tails_from content (r # ?rs) c = tails_from content ?rs (c + n)"
        using tails_from_record [OF c, of r ?rs] r n by simp
      have IH: "tails_good content ?rs (c + n)" using 1(2) [OF False Parsed d] .
      then have "tail_clear (r # ?rs) x" if "x \<in> set (tails_from content ?rs (c + n))" for x
        using that r by (auto simp: tails_good_def tail_clear_def tail_ok_def list_all_iff)
      then show ?thesis using IH unfolding eq tails_good_def t
        by (fastforce simp: list_all_iff tail_ok_def)
    qed
  qed
qed

subsection \<open>The masked spans\<close>

text \<open>Two spans in the order of the chain: the first ends before the second, or lies behind it.\<close>

definition apart :: "nat \<times> nat \<Rightarrow> nat \<times> nat \<Rightarrow> bool" where
  "apart a b \<longleftrightarrow> snd a \<le> fst b \<or> snd b \<le> fst a \<and> fst b < fst a"

definition span_within :: "nat \<Rightarrow> nat \<Rightarrow> nat \<times> nat \<Rightarrow> bool" where
  "span_within lo hi s \<longleftrightarrow> lo \<le> fst s \<and> fst s \<le> snd s \<and> snd s \<le> hi"

lemma apart_regions:
  assumes "span_within lo hi a" and "lo < fst a" and "span_within lo' hi' b" and "hi \<le> lo' \<or> hi' \<le> lo"
  shows "apart a b"
  using assms by (auto simp: apart_def span_within_def)

lemma insort_apart:
  assumes "sorted_wrt (\<lambda>a b. snd (fst a) \<le> fst (fst b)) xs" and "\<forall>y \<in> set xs. apart (fst x) (fst y)"
    and "fst (fst x) \<le> snd (fst x)" and "\<forall>y \<in> set xs. fst (fst y) \<le> snd (fst y)"
  shows "sorted_wrt (\<lambda>a b. snd (fst a) \<le> fst (fst b)) (insort_key (\<lambda>y. fst (fst y)) x xs)"
  using assms
proof (induction xs)
  case (Cons y xs)
  show ?case
  proof (cases "fst (fst x) \<le> fst (fst y)")
    case True
    have "snd (fst x) \<le> fst (fst y)" using Cons(3) True by (auto simp: apart_def)
    moreover have "snd (fst x) \<le> fst (fst z)" if "z \<in> set xs" for z
      using \<open>snd (fst x) \<le> fst (fst y)\<close> Cons(2,5) that by fastforce
    ultimately show ?thesis using Cons(2) True by auto
  next
    case False
    then have "snd (fst y) \<le> fst (fst x)" using Cons(3,4) by (auto simp: apart_def)
    then show ?thesis using Cons False by (auto simp: set_insort_key)
  qed
qed simp

lemma sort_apart:
  assumes "sorted_wrt (\<lambda>a b. apart (fst a) (fst b)) xs" and "\<forall>x \<in> set xs. fst (fst x) \<le> snd (fst x)"
  shows "sorted_wrt (\<lambda>a b. snd (fst a) \<le> fst (fst b)) (sort_key (\<lambda>y. fst (fst y)) xs)"
  using assms by (induction xs) (auto intro!: insort_apart)

lemma in_map_filter: "a \<in> set (List.map_filter f xs) \<longleftrightarrow> (\<exists>x \<in> set xs. f x = Some a)"
  by (force simp: List.map_filter_def)

lemma sorted_map_filter:
  assumes "sorted_wrt Q xs"
    and "\<And>x y a b. x \<in> set xs \<Longrightarrow> y \<in> set xs \<Longrightarrow> Q x y \<Longrightarrow> f x = Some a \<Longrightarrow> f y = Some b \<Longrightarrow> R a b"
  shows "sorted_wrt R (List.map_filter f xs)"
  using assms
proof (induction xs)
  case (Cons x xs)
  have tl: "sorted_wrt R (List.map_filter f xs)" using Cons by (intro Cons(1)) auto
  show ?case
  proof (cases "f x")
    case None
    then show ?thesis using tl by (simp add: List.map_filter_simps)
  next
    case (Some a)
    have "R a b" if mem: "b \<in> set (List.map_filter f xs)" for b
    proof -
      obtain y where "y \<in> set xs" "f y = Some b" using mem by (auto simp: in_map_filter)
      then show ?thesis using Cons(2) Cons(3) [of x y a b] Some by auto
    qed
    then show ?thesis using tl Some by (simp add: List.map_filter_simps)
  qed
qed (simp add: List.map_filter_simps)

subsection \<open>Spans of one comment line\<close>

lemma parsed_records:
  "r \<in> set (df_records (parse_str t)) \<Longrightarrow> span_ok t 0 r \<and> comment_room t r"
proof -
  assume r: "r \<in> set (df_records (parse_str t))"
  have "list_all (span_ok t (bom_len t)) (df_records (parse_str t))"
    using parse_loop_spans [OF refl bom_len_le, of t 1] by simp
  moreover have "list_all (comment_room t) (df_records (parse_str t))"
    using parse_loop_all [of t "comment_room t" "drop (bom_len t) t" "bom_len t" 1] parsed_comment_room bom_len_le by simp
  ultimately show ?thesis using r span_ok_mono [of t "bom_len t" r 0] by (auto simp: list_all_iff)
qed

lemma trim_blanks_end_le: "length (trim_blanks_end s) \<le> length s"
  using length_dropWhile_le [of is_blank "rev s"] by (simp add: trim_blanks_end_def)

lemma find_byte_less: "find_byte c s = Some i \<Longrightarrow> i < length s"
  by (induction s arbitrary: i) (auto split: if_splits)

lemma commented_value_within:
  assumes "commented_secret_value_span h t config = Some (s, key)"
  shows "span_within 0 (length t) s"
proof (cases "df_records (parse_str t)")
  case (Cons r rs)
  then have "s = pr_value_span r" "span_ok t 0 r"
    using assms parsed_records [of r t] by (auto simp: commented_secret_value_span_def split: if_splits)
  then show ?thesis by (auto simp: span_within_def span_ok_def)
next
  case Nil
  define a where "a = (case strip_prefix ''export '' t of Some a \<Rightarrow> a | None \<Rightarrow> t)"
  have a: "length a \<le> length t" by (auto simp: a_def strip_prefix_def split: option.splits)
  obtain eq where eq: "find_byte (CHR ''='') a = Some eq"
    using assms Nil by (auto simp: commented_secret_value_span_def Let_def a_def [symmetric] split: option.splits)
  let ?vo = "length t - length a + eq + 1"
  have vo: "?vo \<le> length t" using find_byte_less [OF eq] a by simp
  have "s = (?vo + blanks (drop ?vo t), ?vo + length (trim_blanks_end (drop ?vo t)))"
    "\<not> ?vo + length (trim_blanks_end (drop ?vo t)) \<le> ?vo + blanks (drop ?vo t)"
    using assms Nil eq unfolding commented_secret_value_span_def Let_def a_def [symmetric]
    by (auto split: if_splits)
  then show ?thesis using trim_blanks_end_le [of "drop ?vo t"] vo by (simp add: span_within_def)
qed

definition value_in_tail :: "example_host \<Rightarrow> example_config option \<Rightarrow> nat \<times> nat \<times> string \<Rightarrow> (nat \<times> nat) option" where
  "value_in_tail h config = (\<lambda>(_, ts, t). map_option (\<lambda>(s, _). shift_span ts s) (commented_secret_value_span h t config))"

definition comment_in_tail :: "example_host \<Rightarrow> nat \<times> nat \<times> string \<Rightarrow> (nat \<times> nat) option" where
  "comment_in_tail h = (\<lambda>(_, ts, t). case df_records (parse_str t) of
       [] \<Rightarrow> None
     | r # _ \<Rightarrow> map_option (shift_span ts) (credential_comment_span h t (pr_value_span r)))"

definition prose_of_tail :: "example_host \<Rightarrow> example_config option \<Rightarrow> nat \<times> nat \<times> string \<Rightarrow> (nat \<times> nat) option" where
  "prose_of_tail h config = (\<lambda>(cs, ts, t).
     if df_records (parse_str t) = [] \<and> commented_secret_value_span h t config = None \<and> comment_holds_credential h t
     then Some (cs, ts + length t) else None)"

definition tail_region :: "nat \<times> nat \<times> string \<Rightarrow> nat \<times> nat" where
  "tail_region = (\<lambda>(cs, ts, t). (cs, ts + length t))"

lemma tail_order: "tail_before x y \<Longrightarrow> snd (tail_region x) \<le> fst (tail_region y)"
  by (auto simp: tail_before_def tail_region_def split: prod.splits)

definition inside_region :: "nat \<times> nat \<Rightarrow> nat \<times> nat \<Rightarrow> bool" where
  "inside_region g s \<longleftrightarrow> span_within (fst g) (snd g) s \<and> fst g < fst s"

lemma apart_inside:
  "inside_region g a \<Longrightarrow> span_within (fst g') (snd g') b \<Longrightarrow> snd g \<le> fst g' \<or> snd g' \<le> fst g \<Longrightarrow> apart a b"
  using apart_regions [of "fst g" "snd g" a "fst g'" "snd g'" b] by (simp add: inside_region_def)

lemma apart_both:
  "inside_region g a \<Longrightarrow> inside_region g' b \<Longrightarrow> snd g \<le> fst g' \<or> snd g' \<le> fst g \<Longrightarrow> apart a b"
  by (rule apart_inside) (auto simp: inside_region_def)

lemma apart_ordered: "snd a \<le> fst b \<Longrightarrow> apart a b"
  by (simp add: apart_def)

lemma comment_first_record:
  assumes "comment_in_tail h (cs, ts, t) = Some s"
  obtains r rs a b where "df_records (parse_str t) = r # rs" "credential_comment_span h t (pr_value_span r) = Some (a, b)"
    "s = (ts + a, ts + b)" "snd (pr_value_span r) \<le> a" "a < b" "b \<le> length t"
proof -
  obtain r rs where r: "df_records (parse_str t) = r # rs"
    using assms by (auto simp: comment_in_tail_def split: list.splits)
  obtain a b where ab: "credential_comment_span h t (pr_value_span r) = Some (a, b)" "s = (ts + a, ts + b)"
    using assms r by (auto simp: comment_in_tail_def shift_span_def)
  have "span_ok t 0 r \<and> comment_room t r" using parsed_records [of r t] r by simp
  then have "snd (pr_value_span r) \<le> a" "a < b" "b \<le> length t"
    using ab(1) unfolding comment_room_def span_ok_def by (meson order.trans)+
  then show thesis using that r ab by blast
qed

lemma tail_spans:
  assumes "tail_ok source c x"
  shows "value_in_tail h config x = Some s \<Longrightarrow> inside_region (tail_region x) s"
    and "comment_in_tail h x = Some s \<Longrightarrow> inside_region (tail_region x) s"
    and "prose_of_tail h config x = Some s \<Longrightarrow> s = tail_region x"
    and "value_in_tail h config x = Some a \<Longrightarrow> comment_in_tail h x = Some b \<Longrightarrow> snd a \<le> fst b"
    and "prose_of_tail h config x = Some s \<Longrightarrow> value_in_tail h config x = None \<and> comment_in_tail h x = None"
proof -
  obtain cs ts t where x: "x = (cs, ts, t)" by (cases x)
  have cs: "cs < ts" using assms by (simp add: x tail_ok_def)
  show "inside_region (tail_region x) s" if v: "value_in_tail h config x = Some s"
  proof -
    obtain p key where p: "commented_secret_value_span h t config = Some (p, key)" "s = shift_span ts p"
      using v by (auto simp: x value_in_tail_def)
    then show ?thesis using commented_value_within [OF p(1)] cs
      by (auto simp: x inside_region_def tail_region_def span_within_def shift_span_def)
  qed
  show "inside_region (tail_region x) s" if "comment_in_tail h x = Some s"
  proof -
    from that [unfolded x] show ?thesis
      by (rule comment_first_record) (use cs in \<open>auto simp: x inside_region_def tail_region_def span_within_def\<close>)
  qed
  show "s = tail_region x" if "prose_of_tail h config x = Some s"
    using that by (auto simp: x prose_of_tail_def tail_region_def split: if_splits)
  show "snd a \<le> fst b" if v: "value_in_tail h config x = Some a" and c: "comment_in_tail h x = Some b"
  proof -
    from c [unfolded x] obtain r rs p q where r: "df_records (parse_str t) = r # rs" "b = (ts + p, ts + q)"
      "snd (pr_value_span r) \<le> p" by (rule comment_first_record) blast
    then have "a = shift_span ts (pr_value_span r)"
      using v by (auto simp: x value_in_tail_def commented_secret_value_span_def split: if_splits)
    then show ?thesis using r by (simp add: shift_span_def)
  qed
  show "value_in_tail h config x = None \<and> comment_in_tail h x = None" if "prose_of_tail h config x = Some s"
    using that by (auto simp: x prose_of_tail_def value_in_tail_def comment_in_tail_def split: if_splits)
qed

definition record_comment :: "example_host \<Rightarrow> string \<Rightarrow> parsed_record \<Rightarrow> (nat \<times> nat) option" where
  "record_comment h source r = credential_comment_span h source (pr_value_span r)"

lemma record_spans:
  assumes "span_ok source c r" and "comment_room source r"
  shows "inside_region (pr_record_span r) (pr_value_span r)"
    and "record_comment h source r = Some s \<Longrightarrow> inside_region (pr_record_span r) s \<and> snd (pr_value_span r) \<le> fst s"
proof -
  show "inside_region (pr_record_span r) (pr_value_span r)"
    using assms(1) by (auto simp: span_ok_def inside_region_def span_within_def)
  show "inside_region (pr_record_span r) s \<and> snd (pr_value_span r) \<le> fst s" if "record_comment h source r = Some s"
  proof -
    obtain a b where s: "s = (a, b)" by (cases s)
    have "snd (pr_value_span r) \<le> a" "a < b" "b \<le> snd (pr_record_span r)"
      using assms(2) that by (auto simp: comment_room_def record_comment_def s)
    then show ?thesis using assms(1) by (auto simp: s span_ok_def inside_region_def span_within_def)
  qed
qed

subsection \<open>The chain of replacements\<close>

lemma map_map_filter: "map g (List.map_filter f xs) = List.map_filter (\<lambda>x. map_option g (f x)) xs"
  by (induction xs) (auto simp: List.map_filter_simps split: option.splits)

lemma filter_map_filter:
  "map g (filter P xs) = List.map_filter (\<lambda>x. if P x then Some (g x) else None) xs"
  by (induction xs) (auto simp: List.map_filter_simps)

lemma replacement_spans:
  "map fst (example_replacements h f config) =
     map pr_value_span (filter (masked_record h config) (df_records f))
     @ List.map_filter (value_in_tail h config) (commented_tails f)
     @ List.map_filter (record_comment h (df_source f)) (df_records f)
     @ List.map_filter (comment_in_tail h) (commented_tails f)
     @ List.map_filter (prose_of_tail h config) (commented_tails f)"
proof -
  have B: "map fst (commented_secret_value_spans h f config) = List.map_filter (value_in_tail h config) (commented_tails f)"
    unfolding commented_secret_value_spans_def map_map_filter value_in_tail_def
    by (rule arg_cong [where f = "\<lambda>g. List.map_filter g (commented_tails f)"])
      (auto simp: fun_eq_iff option.map_comp comp_def split: prod.splits intro!: option.map_cong)
  have C: "credential_comment_spans h f = List.map_filter (record_comment h (df_source f)) (df_records f)
      @ List.map_filter (comment_in_tail h) (commented_tails f)"
    by (simp add: credential_comment_spans_def record_comment_def [abs_def] comment_in_tail_def)
  have D: "credential_prose_comment_spans h f config = List.map_filter (prose_of_tail h config) (commented_tails f)"
    unfolding credential_prose_comment_spans_def filter_map_filter prose_of_tail_def
    by (rule arg_cong [where f = "\<lambda>g. List.map_filter g (commented_tails f)"]) (auto simp: fun_eq_iff)
  show ?thesis
    unfolding example_replacements_def map_append map_map B [symmetric] C [symmetric] append_assoc [symmetric] D [symmetric]
    by (simp add: comp_def case_prod_beta)
qed

lemma sorted_wrt_two:
  "sorted_wrt P xs \<Longrightarrow> x \<in> set xs \<Longrightarrow> y \<in> set xs \<Longrightarrow> x = y \<or> P x y \<or> P y x"
  by (induction xs) auto

lemma sorted_map_of_filter:
  assumes "sorted_wrt Q xs" and "\<And>x y. x \<in> set xs \<Longrightarrow> y \<in> set xs \<Longrightarrow> Q x y \<Longrightarrow> R (g x) (g y)"
  shows "sorted_wrt R (map g (filter P xs))"
  unfolding filter_map_filter using assms by (intro sorted_map_filter [OF assms(1)]) (auto split: if_splits)

lemma chain_apart:
  "sorted_wrt apart (map fst (example_replacements h (parse_str content) config))
   \<and> (\<forall>s \<in> set (map fst (example_replacements h (parse_str content) config)). fst s \<le> snd s \<and> snd s \<le> length content)"
proof -
  let ?f = "parse_str content"
  define R where "R = df_records ?f"
  define T where "T = commented_tails ?f"
  have rec: "span_ok content 0 r" "comment_room content r" if "r \<in> set R" for r
    using parsed_records that by (auto simp: R_def)
  have "sorted_wrt (\<lambda>r s. snd (pr_record_span r) \<le> fst (pr_record_span s)) R"
    using parse_loop_spans [OF refl bom_len_le, of content 1] by (simp add: R_def)
  moreover have good: "tails_good content R (bom_len content)"
    using tails_good_loop [OF refl bom_len_le, of content 1] by (simp add: R_def)
  then have tails: "tail_ok content (bom_len content) x" "tail_clear R x" if "x \<in> set T" for x
    using that by (auto simp: tails_good_def T_def commented_tails_def R_def list_all_iff)
  have order: "sorted_wrt tail_before T"
    using good by (simp add: tails_good_def T_def commented_tails_def R_def)
  ultimately have Rorder: "sorted_wrt (\<lambda>r s. snd (pr_record_span r) \<le> fst (pr_record_span s)) R" by blast
  have cross: "snd (pr_record_span r) \<le> fst (tail_region x) \<or> snd (tail_region x) \<le> fst (pr_record_span r)"
    if "r \<in> set R" "x \<in> set T" for r x
    using tails(2) [OF that(2)] that(1) by (auto simp: tail_clear_def tail_region_def)
  have Rtwo: "r = s \<or> snd (pr_record_span r) \<le> fst (pr_record_span s) \<or> snd (pr_record_span s) \<le> fst (pr_record_span r)"
    if "r \<in> set R" "s \<in> set R" for r s
    using sorted_wrt_two [OF Rorder that] by blast
  have Ttwo: "x = y \<or> snd (tail_region x) \<le> fst (tail_region y) \<or> snd (tail_region y) \<le> fst (tail_region x)"
    if "x \<in> set T" "y \<in> set T" for x y
    using sorted_wrt_two [OF order that] by (auto simp: tail_before_def tail_region_def split: prod.splits)
  define A where "A = map pr_value_span (filter (masked_record h config) R)"
  define B where "B = List.map_filter (value_in_tail h config) T"
  define C where "C = List.map_filter (record_comment h content) R"
  define D where "D = List.map_filter (comment_in_tail h) T"
  define E where "E = List.map_filter (prose_of_tail h config) T"
  have chain: "map fst (example_replacements h ?f config) = A @ B @ C @ D @ E"
    by (simp add: replacement_spans A_def B_def C_def D_def E_def R_def T_def)
  have inA: "\<exists>r \<in> set R. inside_region (pr_record_span r) a \<and> a = pr_value_span r" if "a \<in> set A" for a
    using that record_spans(1) [OF rec] unfolding A_def by auto
  have inB: "\<exists>x \<in> set T. inside_region (tail_region x) a \<and> value_in_tail h config x = Some a" if "a \<in> set B" for a
    using that tail_spans(1) [OF tails(1)] unfolding B_def in_map_filter by blast
  have inC: "\<exists>r \<in> set R. inside_region (pr_record_span r) a \<and> record_comment h content r = Some a" if "a \<in> set C" for a
    using that record_spans(2) [OF rec] unfolding C_def in_map_filter by blast
  have inD: "\<exists>x \<in> set T. inside_region (tail_region x) a \<and> comment_in_tail h x = Some a" if "a \<in> set D" for a
    using that tail_spans(2) [OF tails(1)] unfolding D_def in_map_filter by blast
  have inE: "\<exists>x \<in> set T. a = tail_region x \<and> prose_of_tail h config x = Some a" if "a \<in> set E" for a
    using that tail_spans(3) [OF tails(1)] unfolding E_def in_map_filter by blast
  have regE: "span_within (fst (tail_region x)) (snd (tail_region x)) (tail_region x)" if "x \<in> set T" for x
    using tails(1) [OF that] by (auto simp: tail_ok_def tail_region_def span_within_def)
  have AA: "sorted_wrt apart A" unfolding A_def
    by (rule sorted_map_of_filter [OF Rorder]) (rule apart_both [OF record_spans(1) record_spans(1)], auto intro: rec)
  have BB: "sorted_wrt apart B" unfolding B_def
    by (rule sorted_map_filter [OF order])
      (meson apart_both tail_order tail_spans(1) [OF tails(1)])
  have CC: "sorted_wrt apart C" unfolding C_def
    by (rule sorted_map_filter [OF Rorder]) (meson apart_both record_spans(2) rec)
  have DD: "sorted_wrt apart D" unfolding D_def
    by (rule sorted_map_filter [OF order])
      (meson apart_both tail_order tail_spans(2) [OF tails(1)])
  have EE: "sorted_wrt apart E" unfolding E_def
    by (rule sorted_map_filter [OF order])
      (metis apart_ordered tail_order tail_spans(3) [OF tails(1)])
  have AC: "apart a c" if a: "a \<in> set A" and c: "c \<in> set C" for a c
  proof -
    obtain r where r: "r \<in> set R" "inside_region (pr_record_span r) a" "a = pr_value_span r" using inA [OF a] by blast
    obtain q where q: "q \<in> set R" "inside_region (pr_record_span q) c" "record_comment h content q = Some c" using inC [OF c] by blast
    show ?thesis
    proof (cases "r = q")
      case True
      then show ?thesis using record_spans(2) [OF rec [OF q(1)] q(3)] r(3) by (intro apart_ordered) simp
    next
      case False
      then show ?thesis using Rtwo [OF r(1) q(1)] apart_both [OF r(2) q(2)] by blast
    qed
  qed
  have BD: "apart a c" if a: "a \<in> set B" and c: "c \<in> set D" for a c
  proof -
    obtain x where x: "x \<in> set T" "inside_region (tail_region x) a" "value_in_tail h config x = Some a" using inB [OF a] by blast
    obtain y where y: "y \<in> set T" "inside_region (tail_region y) c" "comment_in_tail h y = Some c" using inD [OF c] by blast
    show ?thesis
    proof (cases "x = y")
      case True
      then show ?thesis using tail_spans(4) [OF tails(1) [OF x(1)] x(3)] y(3) by (intro apart_ordered) simp
    next
      case False
      then show ?thesis using Ttwo [OF x(1) y(1)] apart_both [OF x(2) y(2)] by blast
    qed
  qed
  have XE: "apart a c" if a: "a \<in> set B \<union> set D" and c: "c \<in> set E" for a c
  proof -
    obtain y where y: "y \<in> set T" "c = tail_region y" "prose_of_tail h config y = Some c" using inE [OF c] by blast
    obtain x where x: "x \<in> set T" "inside_region (tail_region x) a" "value_in_tail h config x = Some a \<or> comment_in_tail h x = Some a"
      using a inB inD by blast
    have "x \<noteq> y" using x(3) tail_spans(5) [OF tails(1) [OF y(1)] y(3)] by auto
    then show ?thesis using Ttwo [OF x(1) y(1)] apart_inside [OF x(2) regE [OF y(1)]] y(2) by blast
  qed
  have RT: "apart a c" if a: "a \<in> set A \<union> set C" and c: "c \<in> set B \<union> set D \<union> set E" for a c
  proof -
    obtain r where r: "r \<in> set R" "inside_region (pr_record_span r) a" using a inA inC by blast
    obtain y where y: "y \<in> set T" "span_within (fst (tail_region y)) (snd (tail_region y)) c"
      using c inB inD inE regE unfolding inside_region_def by blast
    show ?thesis using cross [OF r(1) y(1)] apart_inside [OF r(2) y(2)] by blast
  qed
  have BC: "apart a c" if a: "a \<in> set B" and c: "c \<in> set C" for a c
  proof -
    obtain x where x: "x \<in> set T" "inside_region (tail_region x) a" using inB [OF a] by blast
    obtain q where q: "q \<in> set R" "inside_region (pr_record_span q) c" using inC [OF c] by blast
    show ?thesis using cross [OF q(1) x(1)] apart_both [OF x(2) q(2)] by blast
  qed
  have bounds: "fst s \<le> snd s \<and> snd s \<le> length content" if mem: "s \<in> set (A @ B @ C @ D @ E)" for s
  proof -
    consider r where "r \<in> set R" "inside_region (pr_record_span r) s"
      | y where "y \<in> set T" "span_within (fst (tail_region y)) (snd (tail_region y)) s"
      using mem inA inB inC inD inE regE unfolding inside_region_def set_append by blast
    then show ?thesis
    proof cases
      case 1
      then show ?thesis using rec(1) [OF 1(1)] by (auto simp: inside_region_def span_within_def span_ok_def)
    next
      case 2
      then show ?thesis using tails(1) [OF 2(1)] by (auto simp: tail_ok_def tail_region_def span_within_def)
    qed
  qed
  have "sorted_wrt apart (A @ B @ C @ D @ E)"
    unfolding sorted_wrt_append using AA BB CC DD EE AC BD XE RT BC by auto
  then show ?thesis using bounds unfolding chain by blast
qed

end
