(* ===== verification/Example_Claims.thy ===== *)
theory Example_Claims
  imports Example_Facts
begin

text \<open>
  The example file: its masked spans are in order and apart, so the splicing of the code is defined,
  and no byte of a masked span reaches the text.
\<close>

subsection \<open>The example file\<close>

lemma sorted_replacements_alt: "sorted_replacements rs = sort_key (\<lambda>y. fst (fst y)) rs"
  unfolding sorted_replacements_def
  by (rule arg_cong [where f = "\<lambda>f. sort_key f rs"]) (auto simp: fun_eq_iff)

text \<open>
  Whatever the file, the spans that example generation masks (values of secret entries, commented-out
  secrets, comments that hold a credential) are in order, apart from each other and inside the file once
  sorted, so splicing them never slices backwards.
\<close>

theorem example_spans_apart:
  "sorted_wrt (\<lambda>a b. snd (fst a) \<le> fst (fst b)) (sorted_replacements (example_replacements h (parse_str content) config))
   \<and> list_all (\<lambda>(s, _). fst s \<le> snd s \<and> snd s \<le> length content)
       (sorted_replacements (example_replacements h (parse_str content) config))"
proof
  let ?rs = "example_replacements h (parse_str content) config"
  have c: "sorted_wrt (\<lambda>a b. apart (fst a) (fst b)) ?rs" "\<forall>x \<in> set ?rs. fst (fst x) \<le> snd (fst x) \<and> snd (fst x) \<le> length content"
    using chain_apart [of h content config] by (auto simp: sorted_wrt_map)
  show "sorted_wrt (\<lambda>a b. snd (fst a) \<le> fst (fst b)) (sorted_replacements ?rs)"
    unfolding sorted_replacements_alt using c by (intro sort_apart) auto
  show "list_all (\<lambda>(s, _). fst s \<le> snd s \<and> snd s \<le> length content) (sorted_replacements ?rs)"
    using c(2) by (auto simp: sorted_replacements_alt list_all_iff)
qed

definition in_span :: "nat \<Rightarrow> nat \<times> nat \<Rightarrow> bool" where
  "in_span i s \<longleftrightarrow> fst s \<le> i \<and> i < snd s"

text \<open>The bytes of a file that hold something secret: values of secret entries, commented-out secrets
  and comments with a credential.\<close>

definition held_secret :: "example_host \<Rightarrow> dotenv_file \<Rightarrow> example_config option \<Rightarrow> nat \<Rightarrow> bool" where
  "held_secret h f config i \<longleftrightarrow>
     (\<exists>r \<in> set (df_records f). masked_record h config r \<and> in_span i (pr_value_span r))
     \<or> (\<exists>(s, _) \<in> set (commented_secret_value_spans h f config). in_span i s)
     \<or> (\<exists>s \<in> set (credential_comment_spans h f) \<union> set (credential_prose_comment_spans h f config). in_span i s)"

lemma held_secret_masked:
  "held_secret h f config i \<longleftrightarrow> (\<exists>x \<in> set (example_replacements h f config). in_span i (fst x))"
proof -
  let ?V = "commented_secret_value_spans h f config"
  let ?C = "credential_comment_spans h f @ credential_prose_comment_spans h f config"
  have spans: "map fst (example_replacements h f config)
      = map pr_value_span (filter (masked_record h config) (df_records f)) @ map fst ?V @ ?C"
    by (simp add: example_replacements_def comp_def case_prod_beta)
  have "(\<exists>x \<in> set (example_replacements h f config). in_span i (fst x))
      \<longleftrightarrow> (\<exists>s \<in> set (map fst (example_replacements h f config)). in_span i s)" by simp
  also have "\<dots> \<longleftrightarrow> (\<exists>r \<in> set (df_records f). masked_record h config r \<and> in_span i (pr_value_span r))
      \<or> (\<exists>x \<in> set ?V. in_span i (fst x)) \<or> (\<exists>s \<in> set ?C. in_span i s)"
    unfolding spans by (simp add: bex_Un) blast
  also have "(\<exists>x \<in> set ?V. in_span i (fst x)) \<longleftrightarrow> (\<exists>(s, _) \<in> set ?V. in_span i s)"
    by (simp add: case_prod_beta)
  finally show ?thesis by (simp add: held_secret_def)
qed

lemma splice_hides:
  assumes "sorted_wrt (\<lambda>a b. snd (fst a) \<le> fst (fst b)) rs"
    and "\<forall>x \<in> set rs. c \<le> fst (fst x) \<and> fst (fst x) \<le> snd (fst x) \<and> snd (fst x) \<le> length s"
    and "length s' = length s" and "c \<le> length s"
    and "\<And>i. c \<le> i \<Longrightarrow> i < length s \<Longrightarrow> \<forall>x \<in> set rs. \<not> in_span i (fst x) \<Longrightarrow> s' ! i = s ! i"
  shows "splice_from s' c rs = splice_from s c rs"
  using assms
proof (induction rs arbitrary: c)
  case Nil
  then have "drop c s' = drop c s" by (intro nth_equalityI) (auto simp: in_span_def)
  then show ?case by simp
next
  case (Cons x rs)
  obtain a b t where x: "x = ((a, b), t)" by (metis surj_pair)
  have ab: "c \<le> a" "a \<le> b" "b \<le> length s" using Cons(3) by (auto simp: x)
  have later: "\<forall>y \<in> set rs. b \<le> fst (fst y)" using Cons(2) by (auto simp: x)
  have "splice_from s' b rs = splice_from s b rs"
  proof (rule Cons(1))
    fix i assume i: "b \<le> i" "i < length s" "\<forall>y \<in> set rs. \<not> in_span i (fst y)"
    then show "s' ! i = s ! i" using Cons(6) [of i] ab by (auto simp: x in_span_def)
  qed (use Cons(2-4) later ab in auto)
  moreover have "substr s' c a = substr s c a"
  proof (rule nth_equalityI)
    show "length (substr s' c a) = length (substr s c a)" using Cons(4) by (simp add: substr_def)
    fix i assume "i < length (substr s' c a)"
    then have i: "c + i < a" "c + i < length s" using ab Cons(4) by (auto simp: substr_def)
    then have "s' ! (c + i) = s ! (c + i)" using Cons(6) [of "c + i"] later ab by (fastforce simp: x in_span_def)
    then show "substr s' c a ! i = substr s c a ! i" using i Cons(4,5) by (simp add: substr_def)
  qed
  ultimately show ?case by (simp add: x)
qed

text \<open>
  The example file tells nothing about the secrets it replaces: overwrite the held secrets of the
  file with any bytes, and the text that was generated is still the one that splicing gives.
\<close>

theorem example_hides_secrets:
  assumes "generate_example_content h (parse_str content) config = Ok out"
    and "length other = length content"
    and "\<forall>i < length content. held_secret h (parse_str content) config i \<or> other ! i = content ! i"
  shows "out = example_layout h content
    (splice_source other (sorted_replacements (example_replacements h (parse_str content) config)))"
proof -
  let ?rs = "sorted_replacements (example_replacements h (parse_str content) config)"
  have rs: "sorted_wrt (\<lambda>a b. snd (fst a) \<le> fst (fst b)) ?rs"
    "\<forall>x \<in> set ?rs. fst (fst x) \<le> snd (fst x) \<and> snd (fst x) \<le> length content"
    using example_spans_apart [of h content config] by (auto simp: list_all_iff)
  have "out = example_layout h content (splice_source content ?rs)"
    using assms(1) by (simp add: generate_example_content_def res_simps)
  moreover have "splice_from other 0 ?rs = splice_from content 0 ?rs"
    using rs assms(2,3) by (intro splice_hides) (auto simp: held_secret_masked sorted_replacements_alt)
  ultimately show ?thesis by (simp add: splice_source_def)
qed

definition sample_example_host :: example_host where
  "sample_example_host = \<lparr>eh_upper = map ascii_upper, eh_lower = map ascii_lower, eh_version = ''1.0''\<rparr>"

definition sample_dotenv :: string where
  "sample_dotenv = ''API_KEY=hunter2'' @ [LF] @ ''# TOKEN=abc'' @ [LF] @ ''PORT=80'' @ [LF]"

definition blanked_env :: string where
  "blanked_env = ''API_KEY=-------'' @ [LF] @ ''# TOKEN=---'' @ [LF] @ ''PORT=80'' @ [LF]"

lemma example_hides_secrets_witness:
  "generate_example_content sample_example_host (parse_str sample_dotenv) None = Ok (example_layout sample_example_host sample_dotenv
     (splice_source blanked_env (sorted_replacements (example_replacements sample_example_host (parse_str sample_dotenv) None))))"
proof -
  obtain out where out: "generate_example_content sample_example_host (parse_str sample_dotenv) None = Ok out"
  proof -
    have "validate_for_mutation (parse_str sample_dotenv) = Ok ()" by code_simp
    then show thesis using that by (simp add: generate_example_content_def)
  qed
  have "list_all (\<lambda>i. held_secret sample_example_host (parse_str sample_dotenv) None i \<or> blanked_env ! i = sample_dotenv ! i)
      [0..<length sample_dotenv]" by code_simp
  then have "\<forall>i < length sample_dotenv. held_secret sample_example_host (parse_str sample_dotenv) None i \<or> blanked_env ! i = sample_dotenv ! i"
    by (simp add: list_all_iff)
  moreover have "length blanked_env = length sample_dotenv" by code_simp
  ultimately show ?thesis using example_hides_secrets [OF out] out by metis
qed

subsection \<open>Placeholders\<close>

text \<open>A key may hold a dot, and a placeholder may be long; the test for placeholders then says no.\<close>

lemma dotted_placeholder_not_recognized:
  "is_example_placeholder (generate_placeholder sample_example_host ''app.secret'' None) = False"
  by code_simp

end
