(* ===== verification/Locus_Contract.thy ===== *)
theory Locus_Contract
  imports Authority_Ids Faithful_Json
begin

text \<open>
  The compatibility contract of \<open>phantom-locus-contract/src/lib.rs\<close>: offers, every reason for which two
  of them do not fit, and the negotiation.  SHA-256 and the JSON library are arguments.
\<close>

subsection \<open>Profiles\<close>

datatype product_name = ProductPhantom | ProductLocus

datatype required_feature =
  CanonicalSignedEnvelope | ExactSessionAuthority | FailClosedRevocation | HumanApprovalOutOfBand
| PeerAuthenticatedNativeTransport | ReplaySafeNonce | SecretRevealForbidden | ValueFreeCredentialLease

datatype canonicalization_profile = Rfc8785JcsV1 | LegacyMixedJson
datatype identity_profile = SharedOpaqueIdsV1 | LocusLegacyLabels
datatype credential_handoff = ValueFreeLeaseV1 | PlaintextStdoutReveal
datatype transport_profile = PeerAuthenticatedNativeV1 | UnixSocketHmacV3 | TransportUnavailable
datatype approval_profile = ExternalEd25519NonceStoreV1 | DisabledSchemaOnly
datatype revocation_profile = CrossRepoAtomicV1 | SessionGenerationOnly | RevocationUnavailable
datatype signature_algorithm = Ed25519 | SignatureUnavailable

fun feature_rank :: "required_feature \<Rightarrow> nat" where
  "feature_rank CanonicalSignedEnvelope = 0"
| "feature_rank ExactSessionAuthority = 1"
| "feature_rank FailClosedRevocation = 2"
| "feature_rank HumanApprovalOutOfBand = 3"
| "feature_rank PeerAuthenticatedNativeTransport = 4"
| "feature_rank ReplaySafeNonce = 5"
| "feature_rank SecretRevealForbidden = 6"
| "feature_rank ValueFreeCredentialLease = 7"

lemma feature_rank_inj: "feature_rank a = feature_rank b \<Longrightarrow> a = b"
  by (cases a; cases b) auto

instantiation required_feature :: linorder
begin

definition less_eq_required_feature :: "required_feature \<Rightarrow> required_feature \<Rightarrow> bool" where
  "less_eq_required_feature a b = (feature_rank a \<le> feature_rank b)"

definition less_required_feature :: "required_feature \<Rightarrow> required_feature \<Rightarrow> bool" where
  "less_required_feature a b = (feature_rank a < feature_rank b)"

instance
  by standard (auto simp: less_eq_required_feature_def less_required_feature_def intro: feature_rank_inj)

end

subsection \<open>Offers\<close>

record source_identity =
  si_coherent_revision :: "string option"
  si_component_revisions :: "string list"

record compatibility_offer =
  of_contract :: string
  of_product :: product_name
  of_supported_versions :: "u16 list"
  of_canonicalization :: canonicalization_profile
  of_identity_profile :: identity_profile
  of_credential_handoff :: credential_handoff
  of_transport :: transport_profile
  of_approval :: approval_profile
  of_revocation :: revocation_profile
  of_signature_algorithm :: signature_algorithm
  of_features :: "required_feature list"
  of_fixture_sha256 :: sha256_digest
  of_source :: source_identity

record negotiated_contract =
  nc_version :: u16
  nc_fixture_sha256 :: sha256_digest

datatype compatibility_blocker =
  ContractName | SameProduct | InvalidVersionAdvertisement | NoExactVersion | Canonicalization
| IdentityProfile | CredentialHandoff | Transport | ApprovalVerifier | Revocation | BadSignatureAlgorithm
| RequiredFeature required_feature | FixtureDigest | MissingCoherentRevision | InvalidSourceRevision

text \<open>The derived order: by constructor, then by feature.\<close>

fun blocker_rank :: "compatibility_blocker \<Rightarrow> nat" where
  "blocker_rank ContractName = 0"
| "blocker_rank SameProduct = 1"
| "blocker_rank InvalidVersionAdvertisement = 2"
| "blocker_rank NoExactVersion = 3"
| "blocker_rank Canonicalization = 4"
| "blocker_rank IdentityProfile = 5"
| "blocker_rank CredentialHandoff = 6"
| "blocker_rank Transport = 7"
| "blocker_rank ApprovalVerifier = 8"
| "blocker_rank Revocation = 9"
| "blocker_rank BadSignatureAlgorithm = 10"
| "blocker_rank (RequiredFeature f) = 11 + feature_rank f"
| "blocker_rank FixtureDigest = 19"
| "blocker_rank MissingCoherentRevision = 20"
| "blocker_rank InvalidSourceRevision = 21"

lemma feature_rank_bound [simp]: "feature_rank f \<noteq> 8" "feature_rank f \<noteq> 9" "feature_rank f \<noteq> 10"
  by (cases f; simp)+

lemma blocker_rank_inj: "blocker_rank a = blocker_rank b \<Longrightarrow> a = b"
  by (cases a; cases b) (auto intro: feature_rank_inj)

instantiation compatibility_blocker :: linorder
begin

definition less_eq_compatibility_blocker :: "compatibility_blocker \<Rightarrow> compatibility_blocker \<Rightarrow> bool" where
  "less_eq_compatibility_blocker a b = (blocker_rank a \<le> blocker_rank b)"

definition less_compatibility_blocker :: "compatibility_blocker \<Rightarrow> compatibility_blocker \<Rightarrow> bool" where
  "less_compatibility_blocker a b = (blocker_rank a < blocker_rank b)"

instance
  by standard (auto simp: less_eq_compatibility_blocker_def less_compatibility_blocker_def intro: blocker_rank_inj)

end

subsection \<open>Constants and the two offers\<close>

record locus_host =
  lh_escape :: "string \<Rightarrow> string"
  lh_sha256_hex :: "string \<Rightarrow> string"
  lh_parse :: "string \<Rightarrow> json option"
  lh_from_value :: "json \<Rightarrow> compatibility_offer option"

definition CONTRACT_NAME :: string where "CONTRACT_NAME = ''phantom-locus-authority''"
definition CONTRACT_VERSION :: u16 where "CONTRACT_VERSION = 1"

definition LOCUS_SESSION_SEAL_REVISION :: string where
  "LOCUS_SESSION_SEAL_REVISION = ''00162aa75c2a4139f1a6da7018b07a4f04843d88''"

definition LOCUS_CONTAINMENT_REVISION :: string where
  "LOCUS_CONTAINMENT_REVISION = ''1f070a85fd3deb81ddeb07396b84bfde97307a7d''"

definition LOCUS_AUTHORITY_SANDBOX_REVISION :: string where
  "LOCUS_AUTHORITY_SANDBOX_REVISION = ''aa3cebe2dde9ee06c15630c8dc2e67c6dcb51e7e''"

definition LOCUS_APPROVAL_AUTHORITY_REVISION :: string where
  "LOCUS_APPROVAL_AUTHORITY_REVISION = ''0c35b10e5d84baf1e23da842bef2c795110e5753''"

text \<open>The fixture, with its double quotes written as back quotes.\<close>

definition with_quotes :: "string \<Rightarrow> string" where
  "with_quotes s = map (\<lambda>c. if c = CHR ''`'' then CHR 0x22 else c) s"

definition CONTRACT_FIXTURE_V1 :: string where
  "CONTRACT_FIXTURE_V1 = with_quotes (
     ''{`canonicalization`:`rfc8785_jcs_v1`,`contract`:`phantom-locus-authority`,`contr'' @
     ''act_version`:1,`credential_handoff`:`value_free_lease_v1`,`required_features`:[`'' @
     ''canonical_signed_envelope`,`exact_session_authority`,`fail_closed_revocation`,`h'' @
     ''uman_approval_out_of_band`,`peer_authenticated_native_transport`,`replay_safe_no'' @
     ''nce`,`secret_reveal_forbidden`,`value_free_credential_lease`],`signature_algorit'' @
     ''hm`:`ed25519`,`transport`:`peer_authenticated_native_v1`}'')"

definition required_features_v1 :: "required_feature list" where
  "required_features_v1 = btree_collect
     [CanonicalSignedEnvelope, ExactSessionAuthority, FailClosedRevocation, HumanApprovalOutOfBand,
      PeerAuthenticatedNativeTransport, ReplaySafeNonce, SecretRevealForbidden, ValueFreeCredentialLease]"

definition fixture_sha256_v1 :: "locus_host \<Rightarrow> sha256_digest" where
  "fixture_sha256_v1 h = Sha256Digest (lh_sha256_hex h CONTRACT_FIXTURE_V1)"

definition phantom_required_offer_v1 :: "locus_host \<Rightarrow> string \<Rightarrow> compatibility_offer" where
  "phantom_required_offer_v1 h revision =
     \<lparr>of_contract = CONTRACT_NAME, of_product = ProductPhantom, of_supported_versions = [CONTRACT_VERSION],
      of_canonicalization = Rfc8785JcsV1, of_identity_profile = SharedOpaqueIdsV1,
      of_credential_handoff = ValueFreeLeaseV1, of_transport = PeerAuthenticatedNativeV1,
      of_approval = ExternalEd25519NonceStoreV1, of_revocation = CrossRepoAtomicV1,
      of_signature_algorithm = Ed25519, of_features = required_features_v1,
      of_fixture_sha256 = fixture_sha256_v1 h,
      of_source = \<lparr>si_coherent_revision = Some revision, si_component_revisions = []\<rparr>\<rparr>"

definition audited_locus_candidate_offer_v1 :: compatibility_offer where
  "audited_locus_candidate_offer_v1 =
     \<lparr>of_contract = CONTRACT_NAME, of_product = ProductLocus, of_supported_versions = [CONTRACT_VERSION],
      of_canonicalization = LegacyMixedJson, of_identity_profile = LocusLegacyLabels,
      of_credential_handoff = PlaintextStdoutReveal, of_transport = UnixSocketHmacV3,
      of_approval = DisabledSchemaOnly, of_revocation = SessionGenerationOnly,
      of_signature_algorithm = SignatureUnavailable,
      of_features = btree_collect [ExactSessionAuthority, HumanApprovalOutOfBand],
      of_fixture_sha256 = Sha256Digest (concat (replicate 32 ''00'')),
      of_source = \<lparr>si_coherent_revision = None, si_component_revisions =
        [LOCUS_SESSION_SEAL_REVISION, LOCUS_CONTAINMENT_REVISION, LOCUS_AUTHORITY_SANDBOX_REVISION,
         LOCUS_APPROVAL_AUTHORITY_REVISION]\<rparr>\<rparr>"

subsection \<open>Serialized offers\<close>

fun product_json :: "product_name \<Rightarrow> json" where
  "product_json ProductPhantom = JString ''phantom''"
| "product_json ProductLocus = JString ''locus''"

fun feature_json :: "required_feature \<Rightarrow> json" where
  "feature_json CanonicalSignedEnvelope = JString ''canonical_signed_envelope''"
| "feature_json ExactSessionAuthority = JString ''exact_session_authority''"
| "feature_json FailClosedRevocation = JString ''fail_closed_revocation''"
| "feature_json HumanApprovalOutOfBand = JString ''human_approval_out_of_band''"
| "feature_json PeerAuthenticatedNativeTransport = JString ''peer_authenticated_native_transport''"
| "feature_json ReplaySafeNonce = JString ''replay_safe_nonce''"
| "feature_json SecretRevealForbidden = JString ''secret_reveal_forbidden''"
| "feature_json ValueFreeCredentialLease = JString ''value_free_credential_lease''"

fun canonicalization_json :: "canonicalization_profile \<Rightarrow> json" where
  "canonicalization_json Rfc8785JcsV1 = JString ''rfc8785_jcs_v1''"
| "canonicalization_json LegacyMixedJson = JString ''legacy_mixed_json''"

fun identity_json :: "identity_profile \<Rightarrow> json" where
  "identity_json SharedOpaqueIdsV1 = JString ''shared_opaque_ids_v1''"
| "identity_json LocusLegacyLabels = JString ''locus_legacy_labels''"

fun handoff_json :: "credential_handoff \<Rightarrow> json" where
  "handoff_json ValueFreeLeaseV1 = JString ''value_free_lease_v1''"
| "handoff_json PlaintextStdoutReveal = JString ''plaintext_stdout_reveal''"

fun transport_json :: "transport_profile \<Rightarrow> json" where
  "transport_json PeerAuthenticatedNativeV1 = JString ''peer_authenticated_native_v1''"
| "transport_json UnixSocketHmacV3 = JString ''unix_socket_hmac_v3''"
| "transport_json TransportUnavailable = JString ''unavailable''"

fun approval_json :: "approval_profile \<Rightarrow> json" where
  "approval_json ExternalEd25519NonceStoreV1 = JString ''external_ed25519_nonce_store_v1''"
| "approval_json DisabledSchemaOnly = JString ''disabled_schema_only''"

fun revocation_json :: "revocation_profile \<Rightarrow> json" where
  "revocation_json CrossRepoAtomicV1 = JString ''cross_repo_atomic_v1''"
| "revocation_json SessionGenerationOnly = JString ''session_generation_only''"
| "revocation_json RevocationUnavailable = JString ''unavailable''"

fun signature_json :: "signature_algorithm \<Rightarrow> json" where
  "signature_json Ed25519 = JString ''ed25519''"
| "signature_json SignatureUnavailable = JString ''unavailable''"

text \<open>A missing revision is not written.\<close>

definition source_json :: "source_identity \<Rightarrow> json" where
  "source_json s = JObject
     ((case si_coherent_revision s of None \<Rightarrow> [] | Some r \<Rightarrow> [(''coherent_revision'', JString r)])
      @ [(''component_revisions'', JArray (map JString (si_component_revisions s)))])"

definition offer_json :: "compatibility_offer \<Rightarrow> json" where
  "offer_json x = JObject
     [(''contract'', JString (of_contract x)), (''product'', product_json (of_product x)),
      (''supported_versions'', JArray (map (\<lambda>v. JNumber (PosInt (ucast v))) (of_supported_versions x))),
      (''canonicalization'', canonicalization_json (of_canonicalization x)),
      (''identity_profile'', identity_json (of_identity_profile x)),
      (''credential_handoff'', handoff_json (of_credential_handoff x)),
      (''transport'', transport_json (of_transport x)), (''approval'', approval_json (of_approval x)),
      (''revocation'', revocation_json (of_revocation x)),
      (''signature_algorithm'', signature_json (of_signature_algorithm x)),
      (''features'', JArray (map feature_json (of_features x))),
      (''fixture_sha256'', JString (digest_str (of_fixture_sha256 x))),
      (''source'', source_json (of_source x))]"

definition canonical_offer_v1 :: "locus_host \<Rightarrow> compatibility_offer \<Rightarrow> (string, canonical_error) result" where
  "canonical_offer_v1 h x = canonical_json_v1 (lh_escape h) offer_json x"

definition decode_canonical_offer_v1 :: "locus_host \<Rightarrow> string \<Rightarrow> (compatibility_offer, canonical_error) result" where
  "decode_canonical_offer_v1 h bytes =
     decode_closed_json_v1 (lh_escape h) offer_json (lh_parse h) (lh_from_value h) bytes"

subsection \<open>Negotiation\<close>

fun windows2_descending :: "u16 list \<Rightarrow> bool" where
  "windows2_descending (x # y # zs) = (y < x \<and> windows2_descending (y # zs))"
| "windows2_descending _ = True"

definition valid_version_advertisement :: "u16 list \<Rightarrow> bool" where
  "valid_version_advertisement versions \<longleftrightarrow>
     versions \<noteq> [] \<and> list_all (\<lambda>v. 0 < v) versions \<and> windows2_descending versions"

definition valid_git_revision :: "string \<Rightarrow> bool" where
  "valid_git_revision revision \<longleftrightarrow> length revision = 40 \<and> list_all is_lower_hex revision"

definition blocker_if :: "bool \<Rightarrow> compatibility_blocker \<Rightarrow> compatibility_blocker list" where
  "blocker_if c b = (if c then [b] else [])"

text \<open>The body of the loop over the two offers.\<close>

definition offer_blockers :: "locus_host \<Rightarrow> compatibility_offer \<Rightarrow> compatibility_blocker list" where
  "offer_blockers h x =
     blocker_if (\<not> valid_version_advertisement (of_supported_versions x)) InvalidVersionAdvertisement
     @ blocker_if (of_canonicalization x \<noteq> Rfc8785JcsV1) Canonicalization
     @ blocker_if (of_identity_profile x \<noteq> SharedOpaqueIdsV1) IdentityProfile
     @ blocker_if (of_credential_handoff x \<noteq> ValueFreeLeaseV1) CredentialHandoff
     @ blocker_if (of_transport x \<noteq> PeerAuthenticatedNativeV1) Transport
     @ blocker_if (of_approval x \<noteq> ExternalEd25519NonceStoreV1) ApprovalVerifier
     @ blocker_if (of_revocation x \<noteq> CrossRepoAtomicV1) Revocation
     @ blocker_if (of_signature_algorithm x \<noteq> Ed25519) BadSignatureAlgorithm
     @ map RequiredFeature (filter (\<lambda>f. f \<notin> set (of_features x)) required_features_v1)
     @ blocker_if (of_fixture_sha256 x \<noteq> fixture_sha256_v1 h) FixtureDigest
     @ (case si_coherent_revision (of_source x) of
          None \<Rightarrow> [MissingCoherentRevision]
        | Some revision \<Rightarrow> blocker_if (\<not> valid_git_revision revision) InvalidSourceRevision)
     @ blocker_if (list_ex (\<lambda>r. \<not> valid_git_revision r) (si_component_revisions (of_source x))) InvalidSourceRevision"

definition compatibility_blockers ::
  "locus_host \<Rightarrow> compatibility_offer \<Rightarrow> compatibility_offer \<Rightarrow> compatibility_blocker list" where
  "compatibility_blockers h loc remote = btree_collect
     (blocker_if (of_contract loc \<noteq> CONTRACT_NAME \<or> of_contract remote \<noteq> CONTRACT_NAME) ContractName
      @ blocker_if (of_product loc = of_product remote) SameProduct
      @ offer_blockers h loc @ offer_blockers h remote
      @ blocker_if (CONTRACT_VERSION \<notin> set (of_supported_versions loc)
          \<or> CONTRACT_VERSION \<notin> set (of_supported_versions remote)) NoExactVersion)"

definition negotiate_v1 :: "locus_host \<Rightarrow> compatibility_offer \<Rightarrow> compatibility_offer
    \<Rightarrow> (negotiated_contract, compatibility_blocker list) result" where
  "negotiate_v1 h loc remote =
     (let blockers = compatibility_blockers h loc remote in
      if blockers \<noteq> [] then Err blockers
      else Ok \<lparr>nc_version = CONTRACT_VERSION, nc_fixture_sha256 = fixture_sha256_v1 h\<rparr>)"

subsection \<open>What the negotiation accepts\<close>

lemma windows2_descending_iff: "windows2_descending vs \<longleftrightarrow> sorted_wrt (>) vs"
proof (induction vs rule: windows2_descending.induct)
  case (1 x y zs)
  then show ?case by (auto dest: order.strict_trans)
qed simp_all

text \<open>A descending list of positive versions that holds version 1 ends with it.\<close>

lemma versions_end:
  "valid_version_advertisement vs \<and> CONTRACT_VERSION \<in> set vs \<longleftrightarrow>
     vs \<noteq> [] \<and> sorted_wrt (>) vs \<and> last vs = CONTRACT_VERSION"
proof
  assume v: "valid_version_advertisement vs \<and> CONTRACT_VERSION \<in> set vs"
  then have s: "vs \<noteq> []" "sorted_wrt (>) vs" "\<forall>x \<in> set vs. 0 < x"
    by (auto simp: valid_version_advertisement_def windows2_descending_iff list_all_iff)
  obtain ws z where vs: "vs = ws @ [z]" using s(1) by (cases vs rule: rev_cases) auto
  have "z = CONTRACT_VERSION"
  proof (rule ccontr)
    assume "z \<noteq> CONTRACT_VERSION"
    then have "CONTRACT_VERSION \<in> set ws" using v vs by auto
    then have "z < CONTRACT_VERSION" using s(2) by (auto simp: vs sorted_wrt_append)
    moreover have "0 < z" using s(3) vs by simp
    ultimately show False by (simp add: CONTRACT_VERSION_def word_less_nat_alt)
  qed
  then show "vs \<noteq> [] \<and> sorted_wrt (>) vs \<and> last vs = CONTRACT_VERSION" using s vs by simp
next
  assume v: "vs \<noteq> [] \<and> sorted_wrt (>) vs \<and> last vs = CONTRACT_VERSION"
  then obtain ws where vs: "vs = ws @ [CONTRACT_VERSION]" by (cases vs rule: rev_cases) auto
  have "0 < x" if "x \<in> set vs" for x
  proof -
    have "CONTRACT_VERSION \<le> x" using that v by (auto simp: vs sorted_wrt_append)
    then show ?thesis by (simp add: CONTRACT_VERSION_def word_le_nat_alt word_less_nat_alt)
  qed
  then show "valid_version_advertisement vs \<and> CONTRACT_VERSION \<in> set vs"
    using v vs by (auto simp: valid_version_advertisement_def windows2_descending_iff list_all_iff)
qed

definition offer_fits :: "locus_host \<Rightarrow> compatibility_offer \<Rightarrow> bool" where
  "offer_fits h x \<longleftrightarrow> of_contract x = CONTRACT_NAME \<and> sorted_wrt (>) (of_supported_versions x)
     \<and> of_supported_versions x \<noteq> [] \<and> last (of_supported_versions x) = CONTRACT_VERSION
     \<and> of_canonicalization x = Rfc8785JcsV1 \<and> of_identity_profile x = SharedOpaqueIdsV1
     \<and> of_credential_handoff x = ValueFreeLeaseV1 \<and> of_transport x = PeerAuthenticatedNativeV1
     \<and> of_approval x = ExternalEd25519NonceStoreV1 \<and> of_revocation x = CrossRepoAtomicV1
     \<and> of_signature_algorithm x = Ed25519 \<and> set (of_features x) = UNIV
     \<and> of_fixture_sha256 x = fixture_sha256_v1 h
     \<and> (\<exists>r. si_coherent_revision (of_source x) = Some r \<and> valid_git_revision r)
     \<and> list_all valid_git_revision (si_component_revisions (of_source x))"

lemma blocker_if_Nil [simp]: "blocker_if c b = [] \<longleftrightarrow> \<not> c"
  by (simp add: blocker_if_def)

lemma all_features: "set required_features_v1 = UNIV"
proof -
  have "f \<in> set required_features_v1" for f by (cases f) (simp_all add: required_features_v1_def)
  then show ?thesis by blast
qed

lemma btree_collect_Nil: "btree_collect xs = [] \<longleftrightarrow> xs = []"
  using set_btree_collect [of xs] by (metis set_empty)

lemma offer_blockers_none:
  "offer_blockers h x = [] \<and> of_contract x = CONTRACT_NAME \<and> CONTRACT_VERSION \<in> set (of_supported_versions x)
     \<longleftrightarrow> offer_fits h x"
  using versions_end [of "of_supported_versions x"] all_features
  by (auto simp: offer_blockers_def offer_fits_def filter_empty_conv list_all_iff list_ex_iff
      split: option.splits)

theorem negotiation_exact:
  "negotiate_v1 h x y =
     (if of_product x \<noteq> of_product y \<and> offer_fits h x \<and> offer_fits h y
      then Ok \<lparr>nc_version = CONTRACT_VERSION, nc_fixture_sha256 = fixture_sha256_v1 h\<rparr>
      else Err (compatibility_blockers h x y))"
proof -
  have "compatibility_blockers h x y = [] \<longleftrightarrow> of_product x \<noteq> of_product y \<and> offer_fits h x \<and> offer_fits h y"
    using offer_blockers_none [of h x] offer_blockers_none [of h y]
    by (auto simp: compatibility_blockers_def btree_collect_Nil)
  then show ?thesis by (simp add: negotiate_v1_def Let_def)
qed

text \<open>The audited candidate meets none of the requirements but the name and the version.\<close>

lemma audited_candidate_refused:
  "negotiate_v1 h (phantom_required_offer_v1 h r) audited_locus_candidate_offer_v1 \<noteq> Ok n"
  by (simp add: negotiation_exact offer_fits_def audited_locus_candidate_offer_v1_def)

end
