(* ===== verification/Spec2Isabelle.thy ===== *)
theory Spec2Isabelle
  imports Authority_Claims Broker_Protocol Replay_Claims Replay_Completion Runtime_Claims Rate_Claims
    Rotation_Claims Gate_Claims Dotenv_Claims Leak_Claims Stream_Claims Session_Claims Evidence_Claims
    Redact_Claims Classify_Claims Example_Claims Locus_Contract
begin

text \<open>
  A verification library for Phantom Secrets (\<open>src/crates\<close>): a vault of credentials, the dotenv
  files that carry stand-in tokens for them, the authority that is granted on them, a broker that
  keeps a durable ledger of granted uses, a runtime that executes one granted action, and a local
  proxy that watches what is sent and what comes back.

  \<^bold>\<open>Conventions.\<close>  A \<open>Result\<close> is the sum \<open>('a, 'e) result\<close> with the constructors \<open>Ok\<close> and \<open>Err\<close>,
  so every early return of the code is a branch of its definition.  A string is the list of its
  UTF-8 bytes.  Machine integers of the broker, the authority and the limiter are words; Unix
  seconds in the rotation theories are \<open>int\<close> with the wrap-around and the saturation of \<open>u64\<close>
  written out; sizes and offsets that the code cannot overflow are \<open>nat\<close>.  \<open>BTreeMap\<close> and \<open>BTreeSet\<close>
  are ordered lists, hash maps are functions or association lists.  What a component reads from
  outside (a clock, a random source, SHA-256 and HMAC, the JSON library, a file, the vault's
  metadata) is an argument of its definitions.  Loops are structural recursions or functions with
  a termination proof; the one loop that may not end, the byte loop of the interceptor, is a
  partial function whose domain is a theorem.  No definition runs on fuel.

  \<^bold>\<open>The authority\<close> (\<open>phantom-authority\<close>).  \<open>Authority_Ids\<close>: identifiers, digests and operations
  (\<open>ids.rs\<close>, \<open>verbs.rs\<close>).  \<open>Authority_Constraints\<close> and \<open>Authority_Network\<close>: the constraint record of
  a grant, its validation and its intersection (\<open>constraints.rs\<close>).  \<open>Authority_Schema\<close>: intents and
  verified grants (\<open>schema.rs\<close>, \<open>verifier.rs\<close>).  \<open>Canonical_Json\<close>: the canonical JSON text
  (\<open>canonical.rs\<close>).  The lemmas give the meaning of a constraint record as the set of requests it
  permits; \<open>Authority_Claims\<close> shows that intersection is exactly the conjunction of the two
  meanings, that its order does not matter, and what a verified grant is bound to.

  \<^bold>\<open>The broker\<close> (\<open>phantom-broker\<close>).  \<open>Broker_Lease\<close>: what a lease is bound to (\<open>lease.rs\<close>).
  \<open>Broker_Lifecycle\<close>: the state machine of a request and its compare-and-swap (\<open>lifecycle.rs\<close>).
  \<open>Broker_Protocol\<close>: messages, their validation, the frame codec and the transport (\<open>protocol.rs\<close>,
  \<open>codec.rs\<close>, \<open>transport.rs\<close>).  \<open>Replay_State\<close>: the persisted ledger and its transactions;
  \<open>Replay_Store\<close>: the authenticated snapshot, its locks and the activation of a handle
  (\<open>replay_store.rs\<close>, \<open>replay_storage.rs\<close>).  \<open>Replay_Ledger\<close> holds the invariant of the ledger and its
  preservation by every transaction, \<open>Replay_Disk\<close> what a request does to the disk,
  \<open>Replay_System\<close> the step relation of several handles over one disk with crashes and failed
  writes, \<open>Replay_History\<close> the events of a run and the invariants that tie them to the ledger,
  \<open>Replay_Facts\<close> and \<open>Replay_Samples\<close> the shared lemmas and a concrete run.  \<open>Replay_Claims\<close> and
  \<open>Replay_Completion\<close> hold the properties.

  \<^bold>\<open>The runtime\<close> (\<open>phantom-runtime\<close>).  \<open>Runtime_Action\<close>: the closed set of engineering actions,
  their command lines and digests (\<open>action.rs\<close>).  \<open>Runtime_Exec\<close>: the builder, the durable guard,
  one execution and cancellation (\<open>runtime.rs\<close>, \<open>cancellation.rs\<close>).  The guard uses the ledger
  through the locale \<open>use_ledger\<close> of \<open>Runtime_Claims\<close>, which is interpreted on the replay store.

  \<^bold>\<open>Sessions\<close> (\<open>phantom-session\<close>).  \<open>Session_Journal\<close>: the authenticated journal of one session, its
  serialized forms and its operations (\<open>lib.rs\<close>).  \<open>Session_Facts\<close>: the serialized forms determine
  what was written, what a load says of the file, the contract \<open>body_step\<close> on bodies and the two
  tracks.  \<open>Session_Claims\<close>: runs of any handles over one directory, which refine the contract.

  \<^bold>\<open>Evidence\<close> (\<open>phantom-evidence\<close>).  \<open>Evidence_Log\<close>: events, the state machine that replays them, the
  chained records and the decoder of a log.  \<open>Evidence_Store\<close>: the key, the appends, receipts and
  their verification (\<open>lib.rs\<close>).  \<open>Evidence_History\<close> describes the complete histories of a session
  without the replay and takes the replay apart stage by stage.  \<open>Evidence_Facts\<close>: a line determines
  its record, and a longer file holds a longer list.  \<open>Evidence_Runs\<close>: what every operation changes,
  and runs of any handles with failing calls and torn writes; \<open>Evidence_Appends\<close>: what the operations
  write and accept; \<open>Evidence_Sample\<close>: a concrete store; \<open>Evidence_Claims\<close>: the properties.

  \<^bold>\<open>Rotation and scopes\<close> (\<open>phantom-core\<close>, \<open>phantom-vault\<close>).  \<open>Rotation_Calendar\<close> and
  \<open>Rotation_Schedule\<close>: the civil calendar, schedules, enforcement and expiry (\<open>rotation_strategy.rs\<close>).
  \<open>Rotation_Claims\<close>: the locale \<open>slot_grid\<close> of increasing slots with one interpretation per
  strategy, and the exactness of boundaries and due dates.  \<open>Env_Scope\<close>: environment names and
  keys (\<open>env_scope.rs\<close>).  \<open>Rotation_Gate\<close>: the overrides, the metadata and the gate
  (\<open>config.rs\<close>, \<open>metadata.rs\<close>, \<open>rotation_gate.rs\<close>); \<open>Gate_Claims\<close>: its exactness.

  \<^bold>\<open>Dotenv files\<close> (\<open>phantom-core\<close>).  \<open>Text_Trim\<close>: trimming with Unicode white space.  \<open>Token_Map\<close>:
  tokens and the map between names and tokens (\<open>token.rs\<close>).  \<open>Dotenv_Parse\<close> and \<open>Dotenv_Rewrite\<close>: the
  parser and the mutations (\<open>dotenv.rs\<close>).  \<open>Dotenv_Facts\<close>, \<open>Dotenv_Records\<close> and \<open>Dotenv_Exchange\<close>: the
  shapes of a record and the exchange of its value; \<open>Dotenv_Claims\<close>: spans and the round trip.
  \<open>Secret_Classify\<close>: the rules on names and values and the verdict with its reason;
  \<open>Classify_Claims\<close>: a value with a known credential prefix is a secret under every key, and the
  reason shown is the one that decided.  \<open>Dotenv_Example\<close>: comments that still hold secrets,
  placeholders and the example file (all \<open>dotenv.rs\<close>); \<open>Example_Facts\<close>: the masked spans stay in
  their lines; \<open>Example_Claims\<close>: they are in order and apart, and the example file does not depend
  on the bytes they cover.

  \<^bold>\<open>Logs\<close> (\<open>phantom-core\<close>).  \<open>Credential_Redact\<close>: the shapes of credentials in logs and staged code,
  the scans for them and the redaction of a text (\<open>redact/mod.rs\<close>).  \<open>Redact_Facts\<close>: what the scan
  matches, the merged spans and the cached scan; \<open>Redact_Claims\<close>: a redacted text holds no
  catalogued credential, the spans are exact, and the staged scan equals the plain one.

  \<^bold>\<open>The Locus contract\<close> (\<open>phantom-locus-contract\<close>).  \<open>Locus_Contract\<close>: compatibility offers, every
  reason for which two do not fit, and the negotiation (\<open>lib.rs\<close>), which accepts exactly two
  offers of different products that meet every requirement.

  \<^bold>\<open>The proxy\<close> (\<open>phantom-proxy\<close>).  \<open>Rate_Limiter\<close>: the sliding-window limiter (\<open>rate_limiter.rs\<close>);
  \<open>Rate_Claims\<close>: its decisions are those of the full history.  What comes back from an upstream is
  scrubbed.  \<open>Response_Formats\<close>: the catalogue of credential formats, complete and incomplete
  candidates (\<open>redact/response.rs\<close> of \<open>phantom-core\<close>).  \<open>Leak_Windows\<close>: the search for partial runs of
  a managed value with its rolling hash and bit filter, and what a stream must hold back;
  \<open>Leak_Analyzer\<close>: the scans of texts and bytes; \<open>Response_Buffered\<close>: buffered bodies, event
  streams, headers and the \<open>Interceptor\<close> (all \<open>interceptor.rs\<close>, and \<open>response_scrubber.rs\<close>).
  \<open>Stream_Scrubber\<close>: the two stages of the streaming scrubber and its state
  (\<open>response_scrubber.rs\<close>).  \<open>Leak_Redact\<close> is the contract \<open>redacted\<close> of a replacement stage and its
  proof for every stage; \<open>Leak_Claims\<close> shows that a buffered body leaves without managed values.
  \<open>Stream_Exact\<close> describes the first stage as a relation between the whole body and its output;
  \<open>Stream_Partial\<close> does the same for the second, over the locale \<open>run_finder\<close> of a window search
  that can say what it must hold, which is interpreted on the analyzer.  \<open>Stream_Claims\<close>: the
  streamed output depends on the body only and hides what the buffered one hides, within a
  bounded state.

  \<^bold>\<open>Shared.\<close>  \<open>Prelude\<close>: results, byte predicates, checked arithmetic, ordered maps, and the
  collections \<open>res_simps\<close> and \<open>guard_simps\<close>.  \<open>Utf8_Text\<close>: valid UTF-8 and its boundaries.
  \<open>Faithful_Json\<close>: serializers whose canonical text determines the value.  \<open>Private_Dir\<close>: the calls
  on a private state directory (\<open>fs/private_dir.rs\<close>) as their callers see them.

  \<^bold>\<open>Not modelled.\<close>  The adaptive scrubber and its learned profiles, the command line, the MCP server, the HTTP server of the proxy, the keychain and
  file vaults and the cryptography behind them, the audit log, provider clients, cloud and team
  synchronisation, and the web applications: they are I/O around the parts above or rest on
  libraries that are not in this repository.  Of the modelled parts: the recovery of a write whose
  commit is uncertain is a nondeterministic outcome of the step, not a file system; the runtime's
  asynchronous race between deadline, revocation and backend is the order of its checks; a mutex
  is a step that may find it taken or poisoned; zeroisation of buffers has no value-level effect.
\<close>

end
